(* ===== verification/Prelude.thy ===== *)
theory Prelude
  imports Complex_Main "HOL-Library.AList"
begin

text \<open>
  What every component shares: Python exceptions as values of a result type, dictionaries
  with insertion order as association lists, and the list facts and proof hints the
  component theories use.

  A Python expression that may raise has a result of type \<open>'a res\<close>: \<open>Inl e\<close> for
  the raised exception, \<open>Inr v\<close> for the value.  A \<open>dict\<close> whose iteration order the
  code observes is an association list without repeated keys: \<open>AList.update\<close> replaces the
  value of a key where it stands or appends a new key at the end, as \<open>d[k] = v\<close> does,
  \<open>AList.delete\<close> is \<open>del d[k]\<close> or \<open>d.pop(k, None)\<close> and \<open>map_of\<close> is
  \<open>d.get\<close>.
\<close>

section \<open>Exceptions\<close>

datatype exc =
    InvalidOperation          \<comment> \<open>\<open>decimal.InvalidOperation\<close>\<close>
  | ZeroDivision              \<comment> \<open>\<open>ZeroDivisionError\<close>, \<open>decimal.DivisionByZero\<close>\<close>
  | ValueError string
  | KeyError string
  | IndexError
  | TypeError
  | RuntimeError string
  | TransportError            \<comment> \<open>\<open>httpx.TransportError\<close>\<close>
  | HTTPStatusError int       \<comment> \<open>\<open>httpx.HTTPStatusError\<close>\<close>
  | CheckViolation string     \<comment> \<open>a constraint of the PostgreSQL schema\<close>
  | NumericOverflow           \<comment> \<open>\<open>numeric field overflow\<close> of PostgreSQL\<close>
  | OverflowError
  | AttributeError
  | SystemExit string

type_synonym 'a res = "exc + 'a"

fun rbind :: "'a res \<Rightarrow> ('a \<Rightarrow> 'b res) \<Rightarrow> 'b res" where
  "rbind (Inl e) f = Inl e"
| "rbind (Inr x) f = f x"

fun rguard :: "bool \<Rightarrow> exc \<Rightarrow> 'a res \<Rightarrow> 'a res" where
  "rguard b e r = (if b then r else Inl e)"

fun rmap :: "('a \<Rightarrow> 'b res) \<Rightarrow> 'a list \<Rightarrow> 'b list res" where
  "rmap f [] = Inr []"
| "rmap f (x # xs) = rbind (f x) (\<lambda>y. rbind (rmap f xs) (\<lambda>ys. Inr (y # ys)))"

fun rfold :: "('s \<Rightarrow> 'a \<Rightarrow> 's res) \<Rightarrow> 's \<Rightarrow> 'a list \<Rightarrow> 's res" where
  "rfold f s [] = Inr s"
| "rfold f s (x # xs) = rbind (f s x) (\<lambda>s'. rfold f s' xs)"

fun is_ok :: "'a res \<Rightarrow> bool" where
  "is_ok (Inl e) = False"
| "is_ok (Inr x) = True"

lemma rbind_Inr_iff [simp]: "rbind m f = Inr y \<longleftrightarrow> (\<exists>x. m = Inr x \<and> f x = Inr y)"
  by (cases m) auto

lemma Inr_rbind_iff [simp]: "Inr y = rbind m f \<longleftrightarrow> (\<exists>x. m = Inr x \<and> f x = Inr y)"
  by (cases m) auto

lemma rbind_Inl_iff: "rbind m f = Inl e \<longleftrightarrow> m = Inl e \<or> (\<exists>x. m = Inr x \<and> f x = Inl e)"
  by (cases m) auto

lemma rbind_cong [fundef_cong]:
  "m = m' \<Longrightarrow> (\<And>x. m' = Inr x \<Longrightarrow> f x = g x) \<Longrightarrow> rbind m f = rbind m' g"
  by (cases m') simp_all

lemma rbind_assoc: "rbind (rbind m f) g = rbind m (\<lambda>x. rbind (f x) g)"
  by (cases m) auto

lemma is_ok_iff: "is_ok m \<longleftrightarrow> (\<exists>x. m = Inr x)"
  by (cases m) auto

lemma rfold_append: "rfold f s (xs @ ys) = rbind (rfold f s xs) (\<lambda>s'. rfold f s' ys)"
  by (induction xs arbitrary: s) (auto simp: rbind_assoc)

text \<open>An invariant of the loop body is an invariant of the loop.\<close>

lemma rfold_invariant:
  assumes "rfold f s xs = Inr t" and "P s"
    and "\<And>s x s'. P s \<Longrightarrow> x \<in> set xs \<Longrightarrow> f s x = Inr s' \<Longrightarrow> P s'"
  shows "P t"
  using assms
proof (induction xs arbitrary: s)
  case (Cons x xs)
  from Cons.prems(1) obtain s' where s': "f s x = Inr s'" "rfold f s' xs = Inr t" by auto
  have "P s'" by (rule Cons.prems(3) [OF Cons.prems(2) _ s'(1)]) simp
  then show ?case
    by (rule Cons.IH [OF s'(2)]) (blast intro: Cons.prems(3) list.set_intros(2))
qed simp

lemma rmap_length: "rmap f xs = Inr ys \<Longrightarrow> length ys = length xs"
  by (induction xs arbitrary: ys) auto

lemma rmap_set: "rmap f xs = Inr ys \<Longrightarrow> y \<in> set ys \<Longrightarrow> \<exists>x \<in> set xs. f x = Inr y"
  by (induction xs arbitrary: ys) auto

text \<open>The partial-correctness triple of fallible code: \<open>P\<close> holds of the value, if there is one.\<close>

definition ensures :: "'a res \<Rightarrow> ('a \<Rightarrow> bool) \<Rightarrow> bool" where
  "ensures m P \<longleftrightarrow> (\<forall>x. m = Inr x \<longrightarrow> P x)"

lemma ensuresI: "(\<And>x. m = Inr x \<Longrightarrow> P x) \<Longrightarrow> ensures m P"
  by (simp add: ensures_def)

lemma ensuresD: "ensures m P \<Longrightarrow> m = Inr x \<Longrightarrow> P x"
  by (simp add: ensures_def)

lemma ensures_simps [simp]:
  "ensures (Inr x) P \<longleftrightarrow> P x" "ensures (Inl e) P"
  by (simp_all add: ensures_def)

lemma ensures_rbind: "ensures m Q \<Longrightarrow> (\<And>x. Q x \<Longrightarrow> ensures (f x) P) \<Longrightarrow> ensures (rbind m f) P"
  by (auto simp: ensures_def)

lemma ensures_any: "(\<And>x. ensures (f x) P) \<Longrightarrow> ensures (rbind m f) P"
  by (auto simp: ensures_def)

lemma ensures_if: "(b \<Longrightarrow> ensures m P) \<Longrightarrow> (\<not> b \<Longrightarrow> ensures n P) \<Longrightarrow> ensures (if b then m else n) P"
  by simp

lemma ensures_rfold:
  assumes "P s" "\<And>s x. P s \<Longrightarrow> x \<in> set xs \<Longrightarrow> ensures (f s x) P"
  shows "ensures (rfold f s xs) P"
  using rfold_invariant [where P = P] assms unfolding ensures_def by blast

section \<open>Dictionaries\<close>

text \<open>\<open>d.get(k, v)\<close> and \<open>d.setdefault(k, []).append(v)\<close>.\<close>

definition get_or :: "('k \<times> 'v) list \<Rightarrow> 'k \<Rightarrow> 'v \<Rightarrow> 'v" where
  "get_or d k v = (case map_of d k of None \<Rightarrow> v | Some x \<Rightarrow> x)"

definition append_at :: "'k \<Rightarrow> 'v \<Rightarrow> ('k \<times> 'v list) list \<Rightarrow> ('k \<times> 'v list) list" where
  "append_at k v d = AList.update k (get_or d k [] @ [v]) d"

abbreviation keys_of :: "('k \<times> 'v) list \<Rightarrow> 'k list" where
  "keys_of d \<equiv> map fst d"

lemma get_or_update [simp]:
  "get_or (AList.update k v d) k' w = (if k' = k then v else get_or d k' w)"
  by (simp add: get_or_def update_conv')

lemma get_or_delete [simp]:
  "get_or (AList.delete k d) k' w = (if k' = k then w else get_or d k' w)"
  by (simp add: get_or_def delete_conv')

lemma get_or_Nil [simp]: "get_or [] k v = v"
  by (simp add: get_or_def)

lemma map_of_append_at [simp]:
  "map_of (append_at k v d) k' = (if k' = k then Some (get_or d k [] @ [v]) else map_of d k')"
  by (simp add: append_at_def update_conv')

lemma get_or_append_at [simp]:
  "get_or (append_at k v d) k' [] = (if k' = k then get_or d k [] @ [v] else get_or d k' [])"
  by (simp add: append_at_def)

lemma distinct_keys_update [simp]:
  "distinct (keys_of (AList.update k v d)) = distinct (keys_of d)"
proof (induction d)
  case (Cons p d)
  obtain a b where "p = (a, b)" by (cases p)
  with Cons show ?case
    using dom_update [of k v d] by (cases "a = k") (auto simp: dom_map_of_conv_image_fst)
qed simp

lemma keys_of_update_Some [simp]:
  "map_of d k = Some y \<Longrightarrow> keys_of (AList.update k v d) = keys_of d"
  by (induction d) (auto split: if_splits)

lemma distinct_keys_delete [simp]:
  "distinct (keys_of d) \<Longrightarrow> distinct (keys_of (AList.delete k d))"
  by (rule distinct_delete)

text \<open>A bounded \<open>collections.deque(maxlen=n)\<close>: an append drops the oldest entries.\<close>

definition deque_append :: "nat \<Rightarrow> 'a list \<Rightarrow> 'a \<Rightarrow> 'a list" where
  "deque_append n xs x = (let ys = xs @ [x] in drop (length ys - n) ys)"

lemma length_deque_append [simp]: "length (deque_append n xs x) = min n (Suc (length xs))"
  by (simp add: deque_append_def)

lemma last_deque_append: "0 < n \<Longrightarrow> last (deque_append n xs x) = x"
  by (simp add: deque_append_def last_drop)

lemma set_deque_append: "set (deque_append n xs x) \<subseteq> insert x (set xs)"
  using set_drop_subset [of "Suc (length xs) - n" "xs @ [x]"] by (auto simp: deque_append_def)

text \<open>The last \<open>n\<close> elements, \<open>xs[-n:]\<close> for \<open>n > 0\<close>.\<close>

definition takelast :: "nat \<Rightarrow> 'a list \<Rightarrow> 'a list" where
  "takelast n xs = drop (length xs - n) xs"

lemma length_takelast [simp]: "length (takelast n xs) = min n (length xs)"
  by (simp add: takelast_def)

lemma set_takelast: "set (takelast n xs) \<subseteq> set xs"
  by (simp add: takelast_def set_drop_subset)

section \<open>Hint collections\<close>

named_theorems numeric_mono "monotonicity of the rounded arithmetic"
named_theorems ledger_simps "evaluation of ledger operations"
named_theorems step_preserves "invariants that one step preserves"

section \<open>Grouping an ordered list\<close>

text \<open>Of every key that occurs, in order, the last element with that key.\<close>

definition last_per :: "('a \<Rightarrow> 'k) \<Rightarrow> 'a list \<Rightarrow> 'a list" where
  "last_per key xs = map (\<lambda>b. last (filter (\<lambda>x. key x = b) xs)) (remdups_adj (map key xs))"

lemma last_per_simps [simp]: "last_per key [] = []" "last_per key [x] = [x]"
  by (simp_all add: last_per_def)

lemma last_per_Cons2:
  fixes key :: "'a \<Rightarrow> 'k :: linorder"
  assumes "sorted (map key (x # y # ys))"
  shows "last_per key (x # y # ys) =
    (if key y = key x then last_per key (y # ys) else x # last_per key (y # ys))"
proof -
  have ne: "filter (\<lambda>z. key z = b) (y # ys) \<noteq> []" if "b \<in> set (map key (y # ys))" for b
    using that by (auto simp: filter_empty_conv)
  have l: "last (filter (\<lambda>z. key z = b) (x # y # ys)) = last (filter (\<lambda>z. key z = b) (y # ys))"
    if "b \<in> set (map key (y # ys))" for b
    using ne [OF that] by (cases "key x = b") (simp_all del: filter.simps(2) add: filter.simps(2) [of _ x])
  have m: "map (\<lambda>b. last (filter (\<lambda>z. key z = b) (x # y # ys))) (remdups_adj (map key (y # ys)))
      = last_per key (y # ys)"
    unfolding last_per_def using l by (intro map_cong refl) (simp only: remdups_adj_set)
  show ?thesis
  proof (cases "key y = key x")
    case True
    then have "remdups_adj (map key (x # y # ys)) = remdups_adj (map key (y # ys))" by simp
    then show ?thesis using True m by (simp add: last_per_def)
  next
    case False
    have "filter (\<lambda>z. key z = key x) (y # ys) = []" using False assms by (auto simp: filter_empty_conv)
    then have "last (filter (\<lambda>z. key z = key x) (x # y # ys)) = x" by simp
    moreover have "remdups_adj (map key (x # y # ys)) = key x # remdups_adj (map key (y # ys))"
      using False by simp
    ultimately have "last_per key (x # y # ys) = x # last_per key (y # ys)"
      unfolding m [symmetric] unfolding last_per_def [of _ "x # y # ys"] by (simp only: list.map(2))
    then show ?thesis using False by simp
  qed
qed

lemma last_per_nonempty: "xs \<noteq> [] \<Longrightarrow> last_per key xs \<noteq> []"
  by (simp add: last_per_def)

lemma update_fresh: "map_of d k = None \<Longrightarrow> AList.update k v d = d @ [(k, v)]"
  by (induction d) auto

end
