(* ===== verification/Numerics.thy ===== *)
theory Numerics
  imports Prelude "HOL-Library.Log_Nat"
begin

text \<open>
  The two number types of the program, both as exact rationals with the rounding of every
  operation written out.

  \<^item> \<open>decimal.Decimal\<close> under the default context: an operation computes the exact result
    and rounds it to 28 significant decimal digits, half to even (\<open>dec\<close>); \<open>quantize\<close>
    rounds to a fixed exponent with a mode of its own and raises \<open>InvalidOperation\<close> when the
    coefficient needs more than 28 digits.
  \<^item> \<open>float\<close>: IEEE binary64, round to nearest even at 53 significant bits (\<open>fl\<close>).
    \<open>repr\<close> (and \<open>str\<close>) of a float is the shortest decimal that reads back as the same
    float (\<open>frepr\<close>), so \<open>Decimal(str(x))\<close> is \<open>frepr x\<close>.

  Left out, because no path the development models reaches them: NaN, infinities, signed
  zeros, subnormal or overflowing exponents.  The C library's \<open>log\<close> and \<open>sqrt\<close> are
  arguments of the definitions that call them.
\<close>

section \<open>Rounding a rational to an integer\<close>

text \<open>\<open>ROUND_HALF_EVEN\<close>, \<open>ROUND_HALF_UP\<close> (away from zero) and \<open>ROUND_DOWN\<close>.\<close>

definition rhe :: "rat \<Rightarrow> int" where
  "rhe x =
     (let f = \<lfloor>x\<rfloor>; d = x - of_int f
      in if d < 1 / 2 then f else if 1 / 2 < d then f + 1 else if even f then f else f + 1)"

definition rhu :: "rat \<Rightarrow> int" where
  "rhu x = (if 0 \<le> x then \<lfloor>x + 1 / 2\<rfloor> else - \<lfloor>1 / 2 - x\<rfloor>)"

definition rdown :: "rat \<Rightarrow> int" where
  "rdown x = (if 0 \<le> x then \<lfloor>x\<rfloor> else - \<lfloor>- x\<rfloor>)"

lemma rhe_of_int [simp]: "rhe (of_int n) = n"
  by (simp add: rhe_def)

lemma rhe_0 [simp]: "rhe 0 = 0"
  by (simp add: rhe_def)

lemma rhe_bounds: "x - 1 / 2 \<le> of_int (rhe x)" "of_int (rhe x) \<le> x + 1 / 2"
  by (auto simp: rhe_def Let_def) linarith+

lemma rhe_mono: "x \<le> y \<Longrightarrow> rhe x \<le> rhe y"
proof -
  assume le: "x \<le> y"
  then have f: "\<lfloor>x\<rfloor> \<le> \<lfloor>y\<rfloor>" by (rule floor_mono)
  have r: "rhe x \<le> \<lfloor>x\<rfloor> + 1" "\<lfloor>y\<rfloor> \<le> rhe y"
    by (auto simp: rhe_def Let_def)
  show ?thesis
  proof (cases "\<lfloor>x\<rfloor> = \<lfloor>y\<rfloor>")
    case True
    with le show ?thesis by (auto simp: rhe_def Let_def)
  next
    case False
    with f r show ?thesis by simp
  qed
qed

lemma rhe_minus: "rhe (- x) = - rhe x"
proof (cases "x = of_int \<lfloor>x\<rfloor>")
  case True
  then have "rhe (- x) = rhe (of_int (- \<lfloor>x\<rfloor>))" by simp
  also have "\<dots> = - rhe (of_int \<lfloor>x\<rfloor>)" by (simp only: rhe_of_int)
  finally show ?thesis using True by simp
next
  case False
  then have "x \<notin> \<int>" by (metis Ints_cases floor_of_int)
  then have "\<lfloor>- x\<rfloor> = - \<lfloor>x\<rfloor> - 1"
    by (simp add: floor_minus ceiling_altdef)  (use False in linarith)
  then show ?thesis
    by (auto simp: rhe_def Let_def)
qed

lemma rhe_nonneg: "0 \<le> x \<Longrightarrow> 0 \<le> rhe x"
  using rhe_mono [of 0 x] by simp

lemma rhu_bounds: "x - 1 / 2 \<le> of_int (rhu x)" "of_int (rhu x) \<le> x + 1 / 2"
  unfolding rhu_def by (cases "0 \<le> x"; simp; linarith)+

lemma rhu_mono: "x \<le> y \<Longrightarrow> rhu x \<le> rhu y"
  unfolding rhu_def by (auto intro: floor_mono) linarith+

lemma rhu_of_int [simp]: "rhu (of_int n) = n"
  unfolding rhu_def by (auto simp: floor_eq_iff)

lemma rhu_0 [simp]: "rhu 0 = 0"
  using rhu_of_int [of 0] by simp

lemma rdown_bounds:
  "0 \<le> x \<Longrightarrow> of_int (rdown x) \<le> x" "0 \<le> x \<Longrightarrow> x - 1 < of_int (rdown x)"
  "0 \<le> x \<Longrightarrow> 0 \<le> rdown x"
  by (auto simp: rdown_def) linarith

lemma rdown_mono: "x \<le> y \<Longrightarrow> rdown x \<le> rdown y"
proof (cases "0 \<le> x \<or> y < 0")
  case True
  then show "x \<le> y \<Longrightarrow> rdown x \<le> rdown y"
    unfolding rdown_def by (auto intro: floor_mono)
next
  case False
  then have "rdown x \<le> 0" "0 \<le> rdown y" by (auto simp: rdown_def)
  then show ?thesis by simp
qed

lemma rdown_of_int [simp]: "rdown (of_int n) = n"
  unfolding rdown_def by (auto simp del: of_int_minus simp flip: of_int_minus)

section \<open>Rounding to significant digits\<close>

text \<open>
  \<open>mag b x\<close> is the exponent of the leading base-\<open>b\<close> digit of \<open>x\<close>, found from the
  lengths of numerator and denominator; \<open>rnd b p\<close> keeps \<open>p\<close> digits, half to even.
\<close>

function idigits :: "int \<Rightarrow> int \<Rightarrow> int" where
  "idigits b n = (if 1 < b \<and> 0 < n then 1 + idigits b (n div b) else 0)"
  by pat_completeness auto
termination
proof (relation "measure (\<lambda>(b, n). nat n)")
  fix b n :: int
  assume "1 < b \<and> 0 < n"
  then have "n div b < n" by (simp add: int_div_less_self)
  with \<open>1 < b \<and> 0 < n\<close> show "((b, n div b), b, n) \<in> measure (\<lambda>(b, n). nat n)" by simp
qed simp

declare idigits.simps [simp del]

text \<open>Code equations that unfold on literals only, so that symbolic arguments stay folded.\<close>

lemma idigits_code [code]:
  "idigits b 0 = 0"
  "idigits b (Int.Neg k) = 0"
  "idigits b (Int.Pos k) = (if 1 < b then 1 + idigits b (Int.Pos k div b) else 0)"
  by (subst idigits.simps; simp add: Int.Neg_def Int.Pos_def)+

definition mag :: "nat \<Rightarrow> rat \<Rightarrow> int" where
  "mag b x =
     (let e = idigits (int b) (fst (quotient_of \<bar>x\<bar>)) - idigits (int b) (snd (quotient_of \<bar>x\<bar>))
      in if of_nat b powi e \<le> \<bar>x\<bar> then e else e - 1)"

definition rnd :: "nat \<Rightarrow> nat \<Rightarrow> rat \<Rightarrow> rat" where
  "rnd b p x =
     (if x = 0 then 0
      else let u = of_nat b powi (mag b x - (int p - 1)) in of_int (rhe (x / u)) * u)"

lemma floorlog_pow:
  assumes "1 < b" "0 < n"
  shows "(of_nat b :: rat) powi (int (floorlog b n) - 1) \<le> of_nat n"
    and "(of_nat n :: rat) < of_nat b powi int (floorlog b n)"
proof -
  have k: "0 < floorlog b n" using assms by (metis floorlog_eq_zero_iff gr0I not_le)
  then have b: "b ^ (floorlog b n - 1) \<le> n" "n < b ^ floorlog b n"
    using floorlog_bounds [OF assms(2,1)] by auto
  have "int (floorlog b n) - 1 = int (floorlog b n - 1)" using k by simp
  then have "(of_nat b :: rat) powi (int (floorlog b n) - 1) = of_nat (b ^ (floorlog b n - 1))"
    by (simp only: power_int_of_nat of_nat_power)
  then show "(of_nat b :: rat) powi (int (floorlog b n) - 1) \<le> of_nat n"
    using b(1) by (simp only: of_nat_le_iff)
  have "(of_nat b :: rat) powi int (floorlog b n) = of_nat (b ^ floorlog b n)" by simp
  then show "(of_nat n :: rat) < of_nat b powi int (floorlog b n)"
    using b(2) by (simp only: of_nat_less_iff)
qed

lemma idigits_floorlog: "idigits (int b) n = int (floorlog b (nat n))"
proof (induction "int b" n rule: idigits.induct)
  case (1 n)
  show ?case
  proof (cases "1 < b \<and> 0 < n")
    case True
    then have "idigits (int b) n = 1 + idigits (int b) (n div int b)"
      by (subst idigits.simps) simp
    also have "\<dots> = 1 + int (floorlog b (nat (n div int b)))" using 1 True by simp
    also have "nat (n div int b) = nat n div b" by (simp add: nat_div_distrib')
    finally show ?thesis using True by (subst compute_floorlog) simp
  next
    case False
    then show ?thesis by (subst idigits.simps, subst compute_floorlog) auto
  qed
qed

lemma mag_bounds:
  assumes b: "1 < b" and x: "x \<noteq> 0"
  shows "of_nat b powi mag b x \<le> \<bar>x\<bar>" and "\<bar>x\<bar> < of_nat b powi (mag b x + 1)"
proof -
  let ?b = "of_nat b :: rat"
  have b1: "1 < ?b" using b by (metis of_nat_1 of_nat_less_iff)
  obtain n d where q: "quotient_of \<bar>x\<bar> = (n, d)" by fastforce
  then have d: "0 < d" and xq: "\<bar>x\<bar> = of_int n / of_int d"
    by (auto intro: quotient_of_denom_pos quotient_of_div)
  with x have "0 < (of_int n :: rat) / of_int d" by simp
  with d have n: "0 < n" by (simp add: zero_less_divide_iff)
  let ?k = "int (floorlog b (nat n))" and ?l = "int (floorlog b (nat d))"
  have n': "?b powi (?k - 1) \<le> of_int n" "of_int n < ?b powi ?k"
    using floorlog_pow [OF b, of "nat n"] n by simp_all
  have d': "?b powi (?l - 1) \<le> of_int d" "of_int d < ?b powi ?l"
    using floorlog_pow [OF b, of "nat d"] d by simp_all
  have b0: "?b \<noteq> 0" "0 < ?b" using b1 by auto
  have dp: "0 < (of_int d :: rat)" using d by simp
  have hi: "\<bar>x\<bar> < ?b powi (?k - ?l + 1)"
  proof -
    have "?b powi (?k - ?l + 1) = ?b powi ?k / ?b powi (?l - 1)"
      using b0 by (simp add: power_int_diff power_int_add field_simps)
    also have "\<dots> \<ge> ?b powi ?k / of_int d"
      using d' dp b0 by (intro divide_left_mono) auto
    finally show ?thesis using n' dp unfolding xq 
      by (meson divide_strict_right_mono less_le_trans)
  qed
  have lo: "?b powi (?k - ?l - 1) \<le> \<bar>x\<bar>"
  proof -
    have "?b powi (?k - ?l - 1) = ?b powi (?k - 1) / ?b powi ?l"
      using b0 power_int_diff [of ?b "?k - 1" ?l] by (simp add: algebra_simps)
    also have "\<dots> \<le> ?b powi (?k - 1) / of_int d"
      using d' dp b0 by (intro divide_left_mono) auto
    also have "\<dots> \<le> of_int n / of_int d" using n' dp by (intro divide_right_mono) auto
    finally show ?thesis unfolding xq .
  qed
  have m: "mag b x = (if ?b powi (?k - ?l) \<le> \<bar>x\<bar> then ?k - ?l else ?k - ?l - 1)"
    unfolding mag_def q by (simp add: Let_def idigits_floorlog)
  show "?b powi mag b x \<le> \<bar>x\<bar>" using lo unfolding m by (simp split: if_split)
  show "\<bar>x\<bar> < ?b powi (mag b x + 1)" using hi unfolding m by (simp split: if_split)
qed

lemma mag_minus [simp]: "mag b (- x) = mag b x"
  by (simp add: mag_def)

lemma rnd_0 [simp]: "rnd b p 0 = 0"
  by (simp add: rnd_def)

lemma rnd_minus [simp]: "rnd b p (- x) = - rnd b p x"
  by (simp add: rnd_def Let_def rhe_minus)

lemma mag_mono:
  assumes b: "1 < b" and x: "0 < x" "x \<le> y"
  shows "mag b x \<le> mag b y"
proof (rule ccontr)
  let ?b = "of_nat b :: rat"
  have b1: "1 < ?b" using b by (metis of_nat_1 of_nat_less_iff)
  assume "\<not> mag b x \<le> mag b y"
  then have "?b powi (mag b y + 1) \<le> ?b powi mag b x"
    using b1 by (intro power_int_increasing) auto
  moreover have "?b powi mag b x \<le> x" "y < ?b powi (mag b y + 1)"
    using mag_bounds [OF b, of x] mag_bounds [OF b, of y] x by auto
  ultimately show False using x by linarith
qed

lemma rnd_bounds:
  assumes b: "1 < b" and p: "0 < p" and x: "0 < x"
  shows "of_nat b powi mag b x \<le> rnd b p x" and "rnd b p x \<le> of_nat b powi (mag b x + 1)"
proof -
  let ?b = "of_nat b :: rat"
  let ?u = "?b powi (mag b x - (int p - 1))"
  have b0: "0 < ?b" "?b \<noteq> 0" using b by auto
  then have u: "0 < ?u" by simp
  have r: "rnd b p x = of_int (rhe (x / ?u)) * ?u" using x by (simp add: rnd_def Let_def)
  have m: "?b powi mag b x \<le> x" "x < ?b powi (mag b x + 1)"
    using mag_bounds [OF b, of x] x by auto
  have lo: "?b powi mag b x = ?b ^ (p - 1) * ?u"
  proof -
    have "?b powi (int p - 1) = ?b ^ (p - 1)"
      using p power_int_of_nat [of ?b "p - 1"] by (simp add: of_nat_diff)
    then show ?thesis using b0 power_int_add [of ?b "int p - 1" "mag b x - (int p - 1)"] by simp
  qed
  have hi: "?b powi (mag b x + 1) = ?b ^ p * ?u"
    using b0 p power_int_add [of ?b "int p" "mag b x - (int p - 1)"] by simp
  have "of_int (int (b ^ (p - 1))) \<le> x / ?u"
    using m(1) u unfolding lo by (simp add: pos_le_divide_eq)
  from rhe_mono [OF this] have "int (b ^ (p - 1)) \<le> rhe (x / ?u)" by (simp only: rhe_of_int)
  then have "(of_int (int (b ^ (p - 1))) :: rat) \<le> of_int (rhe (x / ?u))"
    by (simp only: of_int_le_iff)
  then have "?b ^ (p - 1) \<le> of_int (rhe (x / ?u))" by simp
  then show "?b powi mag b x \<le> rnd b p x"
    using u unfolding r lo by (intro mult_right_mono) auto
  have "x / ?u \<le> of_int (int (b ^ p))"
    using m(2) u unfolding hi by (simp add: pos_divide_le_eq)
  from rhe_mono [OF this] have "rhe (x / ?u) \<le> int (b ^ p)" by (simp only: rhe_of_int)
  then have "(of_int (rhe (x / ?u)) :: rat) \<le> of_int (int (b ^ p))"
    by (simp only: of_int_le_iff)
  then have "of_int (rhe (x / ?u)) \<le> ?b ^ p" by simp
  then show "rnd b p x \<le> ?b powi (mag b x + 1)"
    using u unfolding r hi by (intro mult_right_mono) auto
qed

lemma rnd_pos:
  assumes "1 < b" "0 < p" "0 < x"
  shows "0 < rnd b p x"
proof -
  have "0 < (of_nat b :: rat) powi mag b x" using assms by simp
  with rnd_bounds(1) [OF assms] show ?thesis by simp
qed

lemma rnd_mono_pos:
  assumes b: "1 < b" and p: "0 < p" and x: "0 < x" "x \<le> y"
  shows "rnd b p x \<le> rnd b p y"
proof (cases "mag b x = mag b y")
  case True
  let ?u = "of_nat b powi (mag b x - (int p - 1)) :: rat"
  have u: "0 < ?u" using b by simp
  have "rhe (x / ?u) \<le> rhe (y / ?u)"
    using x u by (intro rhe_mono divide_right_mono) auto
  then show ?thesis using x u True by (auto simp: rnd_def Let_def intro: mult_right_mono)
next
  case False
  let ?b = "of_nat b :: rat"
  have b1: "1 \<le> ?b" using b by simp
  have "mag b x + 1 \<le> mag b y" using mag_mono [OF b x] False by simp
  then have "?b powi (mag b x + 1) \<le> ?b powi mag b y" using b1 by (intro power_int_increasing) auto
  then show ?thesis using rnd_bounds [OF b p] x by (meson order_trans less_le_trans)
qed

lemma rnd_mono:
  assumes "1 < b" "0 < p" "x \<le> y"
  shows "rnd b p x \<le> rnd b p y"
proof -
  consider "0 < x" | "x \<le> 0" "0 \<le> y" | "y < 0" using assms(3) by linarith
  then show ?thesis
  proof cases
    case 1
    then show ?thesis using rnd_mono_pos assms by blast
  next
    case 2
    have "0 \<le> rnd b p z" if "0 \<le> z" for z
      using rnd_pos [OF assms(1,2), of z] that by (cases "z = 0") auto
    from this [of y] this [of "- x"] 2 show ?thesis by simp
  next
    case 3
    then show ?thesis using rnd_mono_pos [OF assms(1,2), of "- y" "- x"] assms(3) by simp
  qed
qed

lemma rnd_exact_less:
  assumes b: "1 < b" and p: "0 < p" and x: "x = of_int m * of_nat b powi e"
    and m: "\<bar>m\<bar> < int b ^ p"
  shows "rnd b p x = x"
proof (cases "m = 0")
  case True
  then show ?thesis using x by simp
next
  case False
  let ?b = "of_nat b :: rat"
  have b0: "0 < ?b" "?b \<noteq> 0" "1 < ?b" using b by (auto simp: of_nat_less_iff [symmetric] simp del: of_nat_less_iff)
  have x0: "x \<noteq> 0" using x False b0 by simp
  have "mag b x < e + int p"
  proof (rule ccontr)
    assume "\<not> mag b x < e + int p"
    then have "?b powi (e + int p) \<le> ?b powi mag b x"
      using b0 by (intro power_int_increasing) auto
    also have "\<dots> \<le> \<bar>x\<bar>" using mag_bounds [OF b x0] by simp
    also have "\<dots> = of_int \<bar>m\<bar> * ?b powi e" using x b0 by (simp add: abs_mult)
    also have "\<dots> < of_int (int b ^ p) * ?b powi e"
      using m b0 by (intro mult_strict_right_mono) (simp_all only: of_int_less_iff zero_less_power_int)
    also have "\<dots> = ?b powi (e + int p)" using b0 by (simp add: power_int_add)
    finally show False by simp
  qed
  then have k: "0 \<le> e - (mag b x - (int p - 1))" by simp
  let ?u = "?b powi (mag b x - (int p - 1))"
  have "x / ?u = of_int m * ?b powi (e - (mag b x - (int p - 1)))"
    using x b0 by (simp add: power_int_diff)
  also have "\<dots> = of_int (m * int b ^ nat (e - (mag b x - (int p - 1))))"
    using k by (simp add: power_int_def)
  finally have "x / ?u = of_int (m * int b ^ nat (e - (mag b x - (int p - 1))))" .
  then have "of_int (rhe (x / ?u)) = x / ?u" by (simp only: rhe_of_int)
  then show ?thesis using x0 b0 by (simp add: rnd_def Let_def)
qed

text \<open>A value with at most \<open>p\<close> significant digits is not changed.\<close>

lemma rnd_exact:
  assumes b: "1 < b" and p: "0 < p" and x: "x = of_int m * of_nat b powi e"
    and m: "\<bar>m\<bar> \<le> int b ^ p"
  shows "rnd b p x = x"
proof (cases "\<bar>m\<bar> = int b ^ p")
  case True
  have "x = of_int (sgn m) * of_nat b powi (e + int p)"
  proof -
    have "m = sgn m * int b ^ p" using True by (metis mult_sgn_abs)
    then have "(of_int m :: rat) = of_int (sgn m) * of_nat b ^ p" by (metis of_int_mult of_int_power of_int_of_nat_eq)
    then show ?thesis using x b by (simp add: power_int_add)
  qed
  moreover have "1 < int b ^ p" using b p by simp
  then have "\<bar>sgn m\<bar> < int b ^ p" using b by (cases "m = 0") (simp_all add: abs_sgn_eq)
  ultimately show ?thesis using rnd_exact_less [OF b p] by blast
next
  case False
  then show ?thesis using rnd_exact_less [OF b p x] m by simp
qed

lemma rnd_error:
  assumes b: "1 < b" and p: "0 < p"
  shows "\<bar>rnd b p x - x\<bar> \<le> \<bar>x\<bar> * of_nat b powi (1 - int p) / 2"
proof (cases "x = 0")
  case False
  let ?b = "of_nat b :: rat"
  let ?u = "?b powi (mag b x - (int p - 1))"
  have b0: "0 < ?b" "?b \<noteq> 0" using b by auto
  then have u: "0 < ?u" by simp
  have "rnd b p x - x = (of_int (rhe (x / ?u)) - x / ?u) * ?u"
    using False b0 by (simp add: rnd_def Let_def left_diff_distrib)
  then have "\<bar>rnd b p x - x\<bar> = \<bar>of_int (rhe (x / ?u)) - x / ?u\<bar> * ?u"
    using u by (simp add: abs_mult)
  also have "\<dots> \<le> 1 / 2 * ?u"
    using rhe_bounds [of "x / ?u"] u by (intro mult_right_mono) linarith+
  also have "?u = ?b powi mag b x * ?b powi (1 - int p)"
    using b0 power_int_add [of ?b "mag b x" "1 - int p"] by (simp add: algebra_simps)
  also have "1 / 2 * \<dots> \<le> 1 / 2 * (\<bar>x\<bar> * ?b powi (1 - int p))"
    using mag_bounds(1) [OF b False] b0 by (intro mult_left_mono mult_right_mono) auto
  finally show ?thesis by simp
qed simp

lemma rnd_idem_pos:
  assumes b: "1 < b" and p: "0 < p" and x: "0 < x"
  shows "rnd b p (rnd b p x) = rnd b p x"
proof -
  let ?b = "of_nat b :: rat"
  let ?u = "?b powi (mag b x - (int p - 1))"
  have b0: "0 < ?b" using b by simp
  then have u: "0 < ?u" by simp
  have r: "rnd b p x = of_int (rhe (x / ?u)) * ?u" using x by (simp add: rnd_def Let_def)
  have "of_int (rhe (x / ?u)) * ?u \<le> of_int (int b ^ p) * ?u"
    using rnd_bounds(2) [OF b p x] b0 p power_int_add [of ?b "int p" "mag b x - (int p - 1)"]
    unfolding r by simp
  then have "rhe (x / ?u) \<le> int b ^ p" using u by (simp only: mult_le_cancel_right_pos of_int_le_iff)
  moreover have "0 \<le> rhe (x / ?u)" using x u by (intro rhe_nonneg) simp
  ultimately show ?thesis using rnd_exact [OF b p r] by simp
qed

lemma rnd_idem:
  assumes "1 < b" "0 < p"
  shows "rnd b p (rnd b p x) = rnd b p x"
proof -
  consider "0 < x" | "x = 0" | "0 < - x" by linarith
  then show ?thesis
    using rnd_idem_pos [OF assms, of x] rnd_idem_pos [OF assms, of "- x"] by cases simp_all
qed

section \<open>Decimal arithmetic\<close>

abbreviation dec :: "rat \<Rightarrow> rat" where
  "dec x \<equiv> rnd 10 28 x"

definition dadd :: "rat \<Rightarrow> rat \<Rightarrow> rat" where "dadd a b = dec (a + b)"
definition dsub :: "rat \<Rightarrow> rat \<Rightarrow> rat" where "dsub a b = dec (a - b)"
definition dmul :: "rat \<Rightarrow> rat \<Rightarrow> rat" where "dmul a b = dec (a * b)"
definition dabs :: "rat \<Rightarrow> rat" where "dabs a = dec \<bar>a\<bar>"
definition dneg :: "rat \<Rightarrow> rat" where "dneg a = dec (- a)"

definition ddiv :: "rat \<Rightarrow> rat \<Rightarrow> rat res" where
  "ddiv a b = (if b = 0 then Inl ZeroDivision else Inr (dec (a / b)))"

text \<open>\<open>x.quantize(Decimal("1e-k"), rounding)\<close>.\<close>

definition quantize :: "(rat \<Rightarrow> int) \<Rightarrow> nat \<Rightarrow> rat \<Rightarrow> rat res" where
  "quantize mode k x =
     (let c = mode (x * 10 ^ k)
      in if \<bar>c\<bar> < 10 ^ 28 then Inr (of_int c / 10 ^ k) else Inl InvalidOperation)"

definition dsum :: "rat \<Rightarrow> rat list \<Rightarrow> rat" where
  "dsum z xs = foldl dadd z xs"

lemmas decimal_defs = dadd_def dsub_def dmul_def dabs_def dneg_def

lemma dec_mono [numeric_mono]: "x \<le> y \<Longrightarrow> dec x \<le> dec y"
  by (simp add: rnd_mono)

lemma dec_idem [simp]: "dec (dec x) = dec x"
  by (simp add: rnd_idem)

lemma dec_pos [simp]: "0 < dec x \<longleftrightarrow> 0 < x"
  using rnd_pos [of 10 28 x] rnd_pos [of 10 28 "- x"] by (cases x "0 :: rat" rule: linorder_cases) auto

lemma dec_nonneg [simp]: "0 \<le> dec x \<longleftrightarrow> 0 \<le> x"
  using dec_pos [of "- x"] by (simp flip: not_less)

lemma dec_le_0 [simp]: "dec x \<le> 0 \<longleftrightarrow> x \<le> 0"
  by (simp flip: not_less)

lemma dec_less_0 [simp]: "dec x < 0 \<longleftrightarrow> x < 0"
  by (simp flip: not_le)

lemma dec_eq_0 [simp]: "dec x = 0 \<longleftrightarrow> x = 0"
  by (metis dec_pos dec_less_0 rnd_0 less_irrefl linorder_neqE)

lemma dec_error: "\<bar>dec x - x\<bar> \<le> \<bar>x\<bar> / (2 * 10 ^ 27)"
  using rnd_error [of 10 28 x] by (simp add: power_int_def field_simps)

text \<open>Values with \<open>k\<close> decimals and at most 28 digits are exact.\<close>

definition dec_ok :: "nat \<Rightarrow> rat \<Rightarrow> bool" where
  "dec_ok k x \<longleftrightarrow> of_int \<lfloor>x * 10 ^ k\<rfloor> = x * 10 ^ k \<and> \<bar>x * 10 ^ k\<bar> \<le> 10 ^ 28"

lemma dec_exact:
  assumes "dec_ok k x"
  shows "dec x = x"
proof -
  have e: "of_int \<lfloor>x * 10 ^ k\<rfloor> = x * 10 ^ k" and b: "\<bar>x * 10 ^ k\<bar> \<le> 10 ^ 28"
    using assms unfolding dec_ok_def by (rule conjunct1, rule conjunct2)
  have x: "x = of_int \<lfloor>x * 10 ^ k\<rfloor> * of_nat 10 powi (- int k)"
    unfolding e by (simp only: power_int_minus power_int_of_nat of_nat_numeral) simp
  have "of_int \<bar>\<lfloor>x * 10 ^ k\<rfloor>\<bar> = \<bar>x * 10 ^ k\<bar>" unfolding of_int_abs e ..
  also have "\<dots> \<le> of_int (int 10 ^ 28)" using b by simp
  finally have "\<bar>\<lfloor>x * 10 ^ k\<rfloor>\<bar> \<le> int 10 ^ 28" by (simp only: of_int_le_iff)
  from rnd_exact [OF _ _ x this] show ?thesis by simp
qed

lemma quantize_Inr_iff:
  "quantize mode k x = Inr y \<longleftrightarrow> \<bar>mode (x * 10 ^ k)\<bar> < 10 ^ 28 \<and> y = of_int (mode (x * 10 ^ k)) / 10 ^ k"
  by (auto simp: quantize_def Let_def)

lemma quantize_rdown:
  assumes "quantize rdown k x = Inr y" and "0 \<le> x"
  shows "0 \<le> y" "y \<le> x" "x - 1 / 10 ^ k < y"
  using assms rdown_bounds [of "x * 10 ^ k"]
  by (auto simp: quantize_Inr_iff pos_divide_le_eq pos_less_divide_eq left_diff_distrib)

lemma quantize_rhe:
  assumes "quantize rhe k x = Inr y"
  shows "\<bar>y - x\<bar> \<le> 1 / (2 * 10 ^ k)" "0 \<le> x \<Longrightarrow> 0 \<le> y"
  subgoal
    using assms rhe_bounds [of "x * 10 ^ k"] by (auto simp: quantize_Inr_iff abs_le_iff field_simps)
  using assms rhe_nonneg [of "x * 10 ^ k"] by (auto simp: quantize_Inr_iff)

lemma quantize_rhu:
  assumes "quantize rhu k x = Inr y"
  shows "\<bar>y - x\<bar> \<le> 1 / (2 * 10 ^ k)" "0 \<le> x \<Longrightarrow> 0 \<le> y"
  subgoal
    using assms rhu_bounds [of "x * 10 ^ k"] by (auto simp: quantize_Inr_iff abs_le_iff field_simps)
  using assms rhu_mono [of 0 "x * 10 ^ k"] by (auto simp: quantize_Inr_iff)

section \<open>Binary floating point\<close>

abbreviation fl :: "rat \<Rightarrow> rat" where
  "fl x \<equiv> rnd 2 53 x"

definition fadd :: "rat \<Rightarrow> rat \<Rightarrow> rat" where "fadd a b = fl (a + b)"
definition fsub :: "rat \<Rightarrow> rat \<Rightarrow> rat" where "fsub a b = fl (a - b)"
definition fmul :: "rat \<Rightarrow> rat \<Rightarrow> rat" where "fmul a b = fl (a * b)"
definition fquo :: "rat \<Rightarrow> rat \<Rightarrow> rat" where "fquo a b = fl (a / b)"

definition fdiv :: "rat \<Rightarrow> rat \<Rightarrow> rat res" where
  "fdiv a b = (if b = 0 then Inl ZeroDivision else Inr (fquo a b))"

text \<open>
  \<open>sum(xs)\<close> of floats: since Python 3.12 the running sum carries Neumaier's
  compensation, added once at the end.  The first addition, to the integer 0, is exact.
\<close>

definition neumaier :: "rat \<Rightarrow> rat \<Rightarrow> rat \<Rightarrow> rat \<Rightarrow> rat" where
  "neumaier s c x t =
     (if \<bar>x\<bar> \<le> \<bar>s\<bar> then fadd c (fadd (fsub s t) x) else fadd c (fadd (fsub x t) s))"

fun fsum_from :: "rat \<Rightarrow> rat \<Rightarrow> rat list \<Rightarrow> rat" where
  "fsum_from s c [] = (if c = 0 then s else fadd s c)"
| "fsum_from s c (x # xs) = fsum_from (fadd s x) (neumaier s c x (fadd s x)) xs"

fun fsum :: "rat list \<Rightarrow> rat" where
  "fsum [] = 0"
| "fsum (x # xs) = fsum_from x 0 xs"

text \<open>
  \<open>repr\<close>: the shortest decimal that converts back to the same float, nearest first; the
  numbers of digits are tried in turn up to 17, which always suffice.
\<close>

definition second_nearest :: "nat \<Rightarrow> rat \<Rightarrow> rat" where
  "second_nearest n x =
     (if rnd 10 n x \<le> x then rnd 10 n x + 10 powi (mag 10 x - (int n - 1))
      else rnd 10 n x - 10 powi (mag 10 x - (int n - 1)))"

fun frepr_from :: "rat \<Rightarrow> nat \<Rightarrow> nat \<Rightarrow> rat" where
  "frepr_from x n 0 = x"
| "frepr_from x n (Suc k) =
     (if fl (rnd 10 n x) = x then rnd 10 n x
      else if fl (second_nearest n x) = x then second_nearest n x
      else frepr_from x (Suc n) k)"

definition frepr :: "rat \<Rightarrow> rat" where
  "frepr x = (if x = 0 then 0 else frepr_from x 1 17)"

lemmas float_defs = fadd_def fsub_def fmul_def fquo_def

lemma fl_mono [numeric_mono]: "x \<le> y \<Longrightarrow> fl x \<le> fl y"
  by (simp add: rnd_mono)

lemma fl_idem [simp]: "fl (fl x) = fl x"
  by (simp add: rnd_idem)

lemma fl_pos [simp]: "0 < fl x \<longleftrightarrow> 0 < x"
  using rnd_pos [of 2 53 x] rnd_pos [of 2 53 "- x"] by (cases x "0 :: rat" rule: linorder_cases) auto

lemma fl_nonneg [simp]: "0 \<le> fl x \<longleftrightarrow> 0 \<le> x"
  using fl_pos [of "- x"] by (simp flip: not_less)

lemma fl_le_0 [simp]: "fl x \<le> 0 \<longleftrightarrow> x \<le> 0"
  by (simp flip: not_less)

lemma fl_less_0 [simp]: "fl x < 0 \<longleftrightarrow> x < 0"
  by (simp flip: not_le)

lemma fl_eq_0 [simp]: "fl x = 0 \<longleftrightarrow> x = 0"
  by (metis fl_pos fl_less_0 rnd_0 less_irrefl linorder_neqE)

text \<open>Integers up to \<open>2 ^ 53\<close> are floats.\<close>

lemma fl_of_int: "\<bar>n\<bar> \<le> 2 ^ 53 \<Longrightarrow> fl (of_int n) = of_int n"
  using rnd_exact [of 2 53 "of_int n" n 0] by simp

text \<open>Reading a printed float back gives the float: \<open>float(repr(x)) == x\<close>.\<close>

lemma fl_frepr_from: "fl x = x \<Longrightarrow> fl (frepr_from x n k) = x"
  by (induction x n k rule: frepr_from.induct) simp_all

lemma fl_frepr: "fl x = x \<Longrightarrow> fl (frepr x) = x"
  by (simp add: frepr_def fl_frepr_from)

lemma frepr_pos: "fl x = x \<Longrightarrow> 0 < frepr x \<longleftrightarrow> 0 < x"
  using fl_pos [of "frepr x"] fl_frepr [of x] by simp

lemma frepr_nonneg: "fl x = x \<Longrightarrow> 0 \<le> frepr x \<longleftrightarrow> 0 \<le> x"
  using fl_nonneg [of "frepr x"] fl_frepr [of x] by simp

lemma frepr_0 [simp]: "frepr 0 = 0"
  by (simp add: frepr_def)

text \<open>Literals that need no rounding, for evaluating concrete inputs.\<close>

lemma dec_lit: "of_int \<lfloor>x * 10 ^ 8\<rfloor> = x * 10 ^ 8 \<Longrightarrow> \<bar>x * 10 ^ 8\<bar> \<le> 10 ^ 28 \<Longrightarrow> dec x = x"
  by (rule dec_exact [of 8]) (simp add: dec_ok_def)

lemma fl_lit:
  assumes e: "of_int \<lfloor>x * 2 ^ 20\<rfloor> = x * 2 ^ 20" and b: "\<bar>x * 2 ^ 20\<bar> \<le> 2 ^ 53"
  shows "fl x = x"
proof -
  have x: "x = of_int \<lfloor>x * 2 ^ 20\<rfloor> * of_nat 2 powi (- int 20)"
    unfolding e by (simp only: power_int_minus power_int_of_nat of_nat_numeral) simp
  have "of_int \<bar>\<lfloor>x * 2 ^ 20\<rfloor>\<bar> = \<bar>x * 2 ^ 20\<bar>" unfolding of_int_abs e ..
  also have "\<dots> \<le> of_int (int 2 ^ 53)" using b by simp
  finally have "\<bar>\<lfloor>x * 2 ^ 20\<rfloor>\<bar> \<le> int 2 ^ 53" by (simp only: of_int_le_iff)
  from rnd_exact [OF _ _ x this] show ?thesis by simp
qed

text \<open>HOL evaluates the floor of a quotient of numerals on \<open>real\<close> only; this is the same on \<open>rat\<close>.\<close>

lemma floor_rat_numeral [simp]:
  "\<lfloor>numeral a / numeral b :: rat\<rfloor> = numeral a div numeral b"
  "\<lfloor>1 / numeral b :: rat\<rfloor> = 1 div numeral b"
  "\<lfloor>- (numeral a / numeral b) :: rat\<rfloor> = - numeral a div numeral b"
  "\<lfloor>- (1 / numeral b) :: rat\<rfloor> = - 1 div numeral b"
  "\<lfloor>- numeral a / numeral b :: rat\<rfloor> = - numeral a div numeral b"
  using floor_divide_of_int_eq [of "numeral a" "numeral b", where 'a = rat]
    floor_divide_of_int_eq [of 1 "numeral b", where 'a = rat]
    floor_divide_of_int_eq [of "- numeral a" "numeral b", where 'a = rat]
    floor_divide_of_int_eq [of "- 1" "numeral b", where 'a = rat]
  by simp_all

section \<open>The C library\<close>

text \<open>
  What the code calls on floats and neither the code nor IEEE 754 defines is an argument:
  \<open>math.log\<close>, \<open>**\<close> on floats, the normal distribution of \<open>statistics\<close> and its
  inverse (which raises outside 0 to 1).  \<open>f_sqrt\<close> is the correctly rounded square root of
  a fraction, which is \<open>math.sqrt\<close> on a float and the last step of \<open>statistics.pstdev\<close>.
\<close>

record libm =
  f_log :: "rat \<Rightarrow> rat"
  f_sqrt :: "rat \<Rightarrow> rat"
  f_pow :: "rat \<Rightarrow> rat \<Rightarrow> rat"
  f_cdf :: "rat \<Rightarrow> rat"
  f_inv_cdf :: "rat \<Rightarrow> rat res"

end
