(* ===== verification/Config.thy ===== *)
theory Config
  imports Numerics
begin

text \<open>
  The run-time settings of \<open>common/config.py\<close> that the modelled code reads.  Every field is
  an environment scalar with a default, so the components take the settings record as an
  argument and \<open>default_settings\<close> holds the defaults of the source.  Percentages and rates
  are \<open>Decimal\<close> values, the guard windows are seconds.
\<close>

record settings =
  FEE_RATE :: rat
  STOCK_SELL_TAX_RATE :: rat
  KIS_MOCK :: bool
  KIS_CONFIRM_WINDOW_SEC :: int
  INITIAL_BALANCE :: rat
  SMA_SHORT :: nat
  SMA_LONG :: nat
  STRATEGY_ORDER_FRACTION_MIN :: rat
  STRATEGY_ORDER_FRACTION_MAX :: rat
  STRATEGY_STRONG_GAP :: rat
  STRATEGY_COOLDOWN_SEC :: int
  STRATEGY_STOP_LOSS_PCT :: rat
  STRATEGY_TAKE_PROFIT_PCT :: rat
  STRATEGY_TRAIL_ARM_PCT :: rat
  STRATEGY_TRAIL_GIVEBACK_PCT :: rat
  STRATEGY_ENTRY_BAND :: rat
  STRATEGY_CONFIRM_TICKS :: nat
  STRATEGY_MIN_HOLD_SEC :: int
  STRATEGY_WARMUP_SEC :: int
  STRATEGY_MAX_POSITIONS :: nat
  STRATEGY_MIN_EDGE_PCT :: rat
  STRATEGY_DEADCROSS_EXIT :: bool
  MIN_ORDER_KRW :: rat
  TREND_SHORT :: nat
  TREND_LONG :: nat
  TREND_ENTRY_BAND :: rat
  TREND_VOL_TARGET :: rat
  TREND_VOL_LOOKBACK :: nat
  TREND_MAX_WEIGHT :: rat
  TREND_REGIME_MAX_VOL :: rat
  TREND_BARS_PER_YEAR :: nat
  TREND_REBALANCE_BAND :: rat
  ENSEMBLE_REBALANCE_BAND :: rat
  ENSEMBLE_SYMBOLS :: "string list"
  ENSEMBLE_ADAPTIVE :: bool
  XS_LOOKBACK :: nat
  XS_TOP_N :: nat
  XS_REBALANCE_BAND :: rat
  XS_MAX_WEIGHT :: rat
  ORB_OPENING_BARS :: nat
  MOM_SIGNAL_BARS :: nat
  MOM_THRESHOLD :: rat
  ENSEMBLE_WEIGHT_FLOOR_MULT :: rat
  ENSEMBLE_WEIGHT_CAP_MULT :: rat
  ENSEMBLE_DSR_GATE :: rat
  ENSEMBLE_WEIGHT_EWMA :: rat

definition default_settings :: settings where
  "default_settings =
     \<lparr>FEE_RATE = 5 / 10000, STOCK_SELL_TAX_RATE = 2 / 1000, KIS_MOCK = True,
      KIS_CONFIRM_WINDOW_SEC = 90, INITIAL_BALANCE = 10000000,
      SMA_SHORT = 7, SMA_LONG = 25,
      STRATEGY_ORDER_FRACTION_MIN = 5 / 100, STRATEGY_ORDER_FRACTION_MAX = 20 / 100,
      STRATEGY_STRONG_GAP = 15 / 1000, STRATEGY_COOLDOWN_SEC = 3600,
      STRATEGY_STOP_LOSS_PCT = 12 / 10, STRATEGY_TAKE_PROFIT_PCT = 2,
      STRATEGY_TRAIL_ARM_PCT = 8 / 10, STRATEGY_TRAIL_GIVEBACK_PCT = 5 / 10,
      STRATEGY_ENTRY_BAND = 15 / 10000, STRATEGY_CONFIRM_TICKS = 2,
      STRATEGY_MIN_HOLD_SEC = 1800, STRATEGY_WARMUP_SEC = 1500,
      STRATEGY_MAX_POSITIONS = 10, STRATEGY_MIN_EDGE_PCT = 5 / 1000,
      STRATEGY_DEADCROSS_EXIT = False, MIN_ORDER_KRW = 5000,
      TREND_SHORT = 10, TREND_LONG = 40, TREND_ENTRY_BAND = 0, TREND_VOL_TARGET = 5 / 10,
      TREND_VOL_LOOKBACK = 20, TREND_MAX_WEIGHT = 1, TREND_REGIME_MAX_VOL = 2,
      TREND_BARS_PER_YEAR = 365, TREND_REBALANCE_BAND = 0, ENSEMBLE_REBALANCE_BAND = 5 / 10,
      ENSEMBLE_SYMBOLS = [''KRW-BTC'', ''KRW-ETH''], ENSEMBLE_ADAPTIVE = False,
      XS_LOOKBACK = 30, XS_TOP_N = 10, XS_REBALANCE_BAND = 3 / 10, XS_MAX_WEIGHT = 2 / 10,
      ORB_OPENING_BARS = 30, MOM_SIGNAL_BARS = 30, MOM_THRESHOLD = 0,
      ENSEMBLE_WEIGHT_FLOOR_MULT = 1 / 2, ENSEMBLE_WEIGHT_CAP_MULT = 3 / 2,
      ENSEMBLE_DSR_GATE = fl (9 / 10), ENSEMBLE_WEIGHT_EWMA = fl (2 / 10)\<rparr>"

text \<open>
  What the trading code relies on of an operator's settings: a fee rate between 0 and 100%
  and a positive minimum order.
\<close>

definition sane :: "settings \<Rightarrow> bool" where
  "sane c \<longleftrightarrow> 0 \<le> FEE_RATE c \<and> FEE_RATE c \<le> 1 \<and> 1 / 1000 \<le> MIN_ORDER_KRW c"

lemma sane_default [simp]: "sane default_settings"
  by (simp add: sane_def default_settings_def)

lemma default_simps [simp]:
  "FEE_RATE default_settings = 5 / 10000" "STOCK_SELL_TAX_RATE default_settings = 2 / 1000"
  "MIN_ORDER_KRW default_settings = 5000" "KIS_CONFIRM_WINDOW_SEC default_settings = 90"
  "ENSEMBLE_REBALANCE_BAND default_settings = 5 / 10"
  "ENSEMBLE_ADAPTIVE default_settings = False"
  by (simp_all add: default_settings_def)

end
