(* ===== verification/Rebalance.thy ===== *)
theory Rebalance
  imports Config
begin

text \<open>
  The pure trading decisions of \<open>trading/strategy/core\<close>: order sizing and rebalancing
  (\<open>rebalance.py\<close>), the classification of a decision (\<open>decision_record.py\<close>), the
  guarded weights of the strategy loads (\<open>weight_policy.py\<close>) and their lookup
  (\<open>common/strategy_weights.py\<close>).  Money and quantities are \<open>Decimal\<close>, weights are
  \<open>float\<close>.
\<close>

datatype side = BUY | SELL

type_synonym order = "side \<times> rat"

section \<open>Order sizing\<close>

definition FEE_QUANT :: rat where
  "FEE_QUANT = 1 / 10000"

definition affordable_qty :: "settings \<Rightarrow> rat \<Rightarrow> rat \<Rightarrow> rat res" where
  "affordable_qty c budget price =
     (if budget \<le> 0 \<or> price \<le> 0 then Inr 0
      else rbind (ddiv (dsub budget FEE_QUANT) (dmul price (dadd 1 (FEE_RATE c))))
             (quantize rdown 8))"

text \<open>\<open>int(ts // bar_sec)\<close>: float floor division, then truncation.\<close>

definition bar_key :: "rat \<Rightarrow> rat \<Rightarrow> int res" where
  "bar_key ts bar_sec = (if bar_sec = 0 then Inl ZeroDivision else Inr \<lfloor>ts / bar_sec\<rfloor>)"

text \<open>The fee of a fill, \<open>(price * qty * FEE_RATE).quantize(Decimal("0.0001"))\<close>.\<close>

definition fill_fee :: "rat \<Rightarrow> rat \<Rightarrow> rat \<Rightarrow> rat res" where
  "fill_fee rate price qty = quantize rhe 4 (dmul (dmul price qty) rate)"

section \<open>Combining the loads of a bar\<close>

definition roster_ready :: "(string \<times> ('b \<times> rat)) list \<Rightarrow> string list \<Rightarrow> 'b \<Rightarrow> bool" where
  "roster_ready sym_latest roster bar_ts \<longleftrightarrow>
     list_all (\<lambda>n. case map_of sym_latest n of None \<Rightarrow> False | Some (b, t) \<Rightarrow> b = bar_ts) roster"

definition load_target :: "(string \<times> ('b \<times> rat)) list \<Rightarrow> string \<Rightarrow> rat" where
  "load_target latest n = (case map_of latest n of None \<Rightarrow> 0 | Some (b, t) \<Rightarrow> t)"

definition combined_for_bar ::
  "(string \<times> ('b \<times> rat)) list \<Rightarrow> string list \<Rightarrow> 'b \<Rightarrow> (string \<times> rat) list \<Rightarrow> rat option" where
  "combined_for_bar latest roster bar_ts weights =
     (if \<not> roster_ready latest roster bar_ts then None
      else let wsum = fsum (map (\<lambda>n. get_or weights n 0) roster)
           in if wsum \<le> 0 then None
              else Some (fquo (fsum (map (\<lambda>n. fmul (get_or weights n 0) (load_target latest n)) roster))
                              wsum))"

section \<open>Rebalancing to a target weight\<close>

definition decide ::
  "settings \<Rightarrow> rat \<Rightarrow> rat \<Rightarrow> rat \<Rightarrow> rat \<Rightarrow> rat \<Rightarrow> rat \<Rightarrow> order option res" where
  "decide c qty price cash equity target_w band =
     (if price \<le> 0 \<or> equity \<le> 0 then Inr None
      else if target_w \<le> 0 then Inr (if 0 < qty then Some (SELL, qty) else None)
      else
        let cur_val = dmul qty price; target_val = dmul equity (frepr target_w) in
        if 0 < qty \<and> dec (dabs (dsub cur_val target_val) / equity) < dmul (frepr band) (frepr target_w)
        then Inr None
        else if cur_val < target_val then
          let budget = min (dsub target_val cur_val) cash in
          if budget < MIN_ORDER_KRW c then Inr None
          else rbind (affordable_qty c budget price)
                 (\<lambda>qbuy. Inr (if 0 < qbuy then Some (BUY, qbuy) else None))
        else
          let sell_val = dsub cur_val target_val in
          if sell_val < MIN_ORDER_KRW c then Inr None
          else rbind (quantize rdown 8 (dec (sell_val / price)))
                 (\<lambda>q. let qsell = min q qty
                      in Inr (if 0 < qsell then Some (SELL, qsell) else None)))"

section \<open>The record of a decision\<close>

datatype action = ABuy | ASell | AHold

datatype reason =
    SignalIncomplete | TargetRaised | TrendReversed | TargetLowered
  | NoTrendCash | WithinBand | BelowMinimum | NoPrice

definition classify :: "order option \<Rightarrow> rat option \<Rightarrow> rat \<Rightarrow> action \<times> reason" where
  "classify order target_w qty =
     (case target_w of
        None \<Rightarrow> (AHold, SignalIncomplete)
      | Some w \<Rightarrow>
          (case order of
             Some (side, q) \<Rightarrow>
               if side = BUY then (ABuy, TargetRaised)
               else (ASell, if w \<le> 0 then TrendReversed else TargetLowered)
           | None \<Rightarrow>
               if w \<le> 0 then (AHold, NoTrendCash)
               else if 0 < qty then (AHold, WithinBand)
               else (AHold, BelowMinimum)))"

section \<open>Guarded weights of the loads\<close>

definition clamp :: "rat \<Rightarrow> rat \<Rightarrow> rat \<Rightarrow> rat" where
  "clamp lo hi v = min hi (max lo v)"

fun clamp_normalize :: "nat \<Rightarrow> (string \<times> rat) list \<Rightarrow> rat \<Rightarrow> rat \<Rightarrow> (string \<times> rat) list" where
  "clamp_normalize 0 out lo hi = out"
| "clamp_normalize (Suc iters) out lo hi =
     (let out1 = map (\<lambda>(k, v). (k, clamp lo hi v)) out;
          z = fsum (map snd out1)
      in if z \<le> 0 then map (\<lambda>(k, v). (k, fquo 1 (of_nat (length out1)))) out1
         else let out2 = map (\<lambda>(k, v). (k, fquo v z)) out1
              in if list_all (\<lambda>(k, v). fsub lo (fl (1 / 10 ^ 9)) \<le> v \<and> v \<le> fadd hi (fl (1 / 10 ^ 9))) out2
                 then out2 else clamp_normalize iters out2 lo hi)"

definition compute_weights ::
  "(string \<times> rat) list \<Rightarrow> (string \<times> rat) list \<Rightarrow> (string \<times> rat) list \<Rightarrow>
   rat \<Rightarrow> rat \<Rightarrow> rat \<Rightarrow> rat \<Rightarrow> (string \<times> rat) list" where
  "compute_weights scores gates prev floor_mult cap_mult dsr_gate ewma_alpha =
     (if scores = [] then []
      else
        let equal = fquo 1 (of_nat (length scores));
            lo = fmul floor_mult equal; hi = fmul cap_mult equal;
            raw = map (\<lambda>(k, s). (k, if dsr_gate \<le> get_or gates k 0 then max 0 s else 0)) scores;
            tot = fsum (map snd raw)
        in if tot \<le> 0 then map (\<lambda>(k, s). (k, equal)) scores
           else
             let blended = map (\<lambda>(k, r). (k, fadd (fmul ewma_alpha (fquo r tot))
                                                 (fmul (fsub 1 ewma_alpha) (get_or prev k equal)))) raw
             in clamp_normalize 50 blended lo hi)"

text \<open>\<open>rows\<close>: the rows of \<open>strategy_weights\<close> whose strategy is in the list of names.\<close>

definition load_weights :: "settings \<Rightarrow> (string \<times> rat) list \<Rightarrow> string list \<Rightarrow> (string \<times> rat) list" where
  "load_weights c table names =
     (let equal = map (\<lambda>n. (n, 1)) names
      in if \<not> ENSEMBLE_ADAPTIVE c then equal
         else let rows = filter (\<lambda>(k, w). k \<in> set names) table;
                  out = map (\<lambda>n. (n, fl (get_or rows n 0))) names
              in if length rows < length names \<or> fsum (map snd out) \<le> 0 then equal else out)"

section \<open>Sizing is affordable\<close>

definition EPS :: rat where
  "EPS = 1 / (2 * 10 ^ 27)"

lemma dec_upper: "0 \<le> x \<Longrightarrow> dec x \<le> x * (1 + EPS)"
  using abs_le_D1 [OF dec_error [of x]] by (simp add: EPS_def field_simps)

lemma dec_lower: "0 \<le> x \<Longrightarrow> x * (1 - EPS) \<le> dec x"
  using abs_le_D2 [OF dec_error [of x]] by (simp add: EPS_def field_simps)

lemma affordable_qty_nonpos: "budget \<le> 0 \<Longrightarrow> affordable_qty c budget price = Inr 0"
  by (simp add: affordable_qty_def)

lemma affordable_qtyD:
  assumes "affordable_qty c budget price = Inr q" "0 < q"
  shows "0 < budget" "0 < price" "dmul price (dadd 1 (FEE_RATE c)) \<noteq> 0"
    "quantize rdown 8 (dec (dsub budget FEE_QUANT / dmul price (dadd 1 (FEE_RATE c)))) = Inr q"
  using assms by (auto simp: affordable_qty_def ddiv_def split: if_splits)

text \<open>The exact value of a sized order, fee included, against the budget.\<close>

lemma affordable_value:
  assumes s: "sane c" and q: "affordable_qty c budget price = Inr q" "0 < q"
  shows "price * q * (1 + FEE_RATE c) * (1 - EPS) ^ 2 \<le> (budget - FEE_QUANT) * (1 + EPS) ^ 2"
    and "FEE_QUANT < budget"
proof -
  let ?f = "FEE_RATE c"
  let ?F = "dadd 1 ?f"
  let ?D = "dmul price ?F"
  let ?N = "dsub budget FEE_QUANT"
  note d = affordable_qtyD [OF q]
  have f: "0 \<le> ?f" using s by (simp add: sane_def)
  have e: "0 < EPS" "EPS < 1" by (simp_all add: EPS_def)
  have F: "(1 + ?f) * (1 - EPS) \<le> ?F" "0 < ?F"
    using dec_lower [of "1 + ?f"] f by (simp_all add: dadd_def)
  have "price * ((1 + ?f) * (1 - EPS)) * (1 - EPS) \<le> price * ?F * (1 - EPS)"
    using F d(2) e by (intro mult_right_mono mult_left_mono) auto
  also have "\<dots> \<le> ?D" using dec_lower [of "price * ?F"] F d(2) by (simp add: dmul_def)
  finally have D: "price * (1 + ?f) * (1 - EPS) ^ 2 \<le> ?D"
    by (simp add: power2_eq_square mult.assoc)
  have Dp: "0 < ?D" using F d(2) by (simp add: dmul_def)
  have Np: "0 < ?N"
  proof (rule ccontr)
    assume "\<not> 0 < ?N"
    then have "dec (?N / ?D) \<le> 0" using Dp by (simp add: divide_le_0_iff)
    then have "rdown (dec (?N / ?D) * 10 ^ 8) \<le> rdown 0" by (intro rdown_mono) simp
    then have "q \<le> 0" using d(4) by (simp add: quantize_Inr_iff rdown_def)
    with q show False by simp
  qed
  then show b: "FEE_QUANT < budget" by (simp add: dsub_def)
  have "q \<le> dec (?N / ?D)" using quantize_rdown(2) [OF d(4)] Np Dp by simp
  also have "\<dots> \<le> ?N / ?D * (1 + EPS)" using Np Dp by (intro dec_upper) simp
  finally have "q * ?D \<le> ?N * (1 + EPS)" using Dp by (simp add: field_simps)
  also have "\<dots> \<le> (budget - FEE_QUANT) * (1 + EPS) * (1 + EPS)"
    using dec_upper [of "budget - FEE_QUANT"] b e by (intro mult_right_mono) (auto simp: dsub_def)
  finally have qD: "q * ?D \<le> (budget - FEE_QUANT) * (1 + EPS) ^ 2"
    by (simp add: power2_eq_square mult.assoc)
  have "price * q * (1 + ?f) * (1 - EPS) ^ 2 = q * (price * (1 + ?f) * (1 - EPS) ^ 2)"
    by (simp add: algebra_simps)
  also have "\<dots> \<le> q * ?D" using D q by (intro mult_left_mono) auto
  finally show "price * q * (1 + ?f) * (1 - EPS) ^ 2 \<le> (budget - FEE_QUANT) * (1 + EPS) ^ 2"
    using qD by simp
qed

lemma fill_cost_upper:
  assumes f: "0 \<le> rate" and pq: "0 \<le> price * q" and fee: "fill_fee rate price q = Inr fee"
  shows "dadd (dmul price q) fee \<le> (price * q * (1 + rate) * (1 + EPS) ^ 2 + 1 / 20000) * (1 + EPS)"
    and "0 \<le> fee"
proof -
  let ?M = "dmul price q"
  have e: "0 < EPS" by (simp add: EPS_def)
  have M: "?M \<le> price * q * (1 + EPS)" "0 \<le> ?M"
    using dec_upper [OF pq] pq by (simp_all add: dmul_def)
  have "fee \<le> dmul ?M rate + 1 / 20000"
    using abs_le_D1 [OF quantize_rhe(1) [OF fee [unfolded fill_fee_def]]] by simp
  also have "dmul ?M rate \<le> ?M * rate * (1 + EPS)"
    using dec_upper [of "?M * rate"] M f by (simp add: dmul_def)
  also have "\<dots> \<le> price * q * (1 + EPS) * rate * (1 + EPS)"
    using M f e by (intro mult_right_mono) auto
  finally have "fee \<le> price * q * rate * (1 + EPS) ^ 2 + 1 / 20000"
    by (simp add: power2_eq_square algebra_simps)
  moreover have "price * q * (1 + EPS) * 1 \<le> price * q * (1 + EPS) * (1 + EPS)"
    using pq e by (intro mult_left_mono) auto
  ultimately have u: "?M + fee \<le> price * q * (1 + rate) * (1 + EPS) ^ 2 + 1 / 20000"
    using M(1) by (simp add: power2_eq_square algebra_simps)
  show fe: "0 \<le> fee"
    using quantize_rhe(2) [OF fee [unfolded fill_fee_def]] M f by (simp add: dmul_def)
  have "dadd ?M fee \<le> (?M + fee) * (1 + EPS)"
    using dec_upper [of "?M + fee"] M fe by (simp add: dadd_def)
  also have "\<dots> \<le> (price * q * (1 + rate) * (1 + EPS) ^ 2 + 1 / 20000) * (1 + EPS)"
    using u e by (intro mult_right_mono) auto
  finally show "dadd ?M fee \<le> (price * q * (1 + rate) * (1 + EPS) ^ 2 + 1 / 20000) * (1 + EPS)" .
qed

lemma affordable_cost:
  assumes s: "sane c" and q: "affordable_qty c budget price = Inr q" "0 < q"
    and b: "budget \<le> 10 ^ 20" and fee: "fill_fee (FEE_RATE c) price q = Inr fee"
  shows "dadd (dmul price q) fee \<le> budget"
proof -
  let ?A = "price * q * (1 + FEE_RATE c)"
  have f: "0 \<le> FEE_RATE c" using s by (simp add: sane_def)
  have pq: "0 \<le> price * q" using affordable_qtyD(2) [OF q] q by simp
  have v: "?A * (1 - EPS) ^ 2 \<le> (budget - FEE_QUANT) * (1 + EPS) ^ 2"
    using affordable_value [OF s q] by simp
  have "dadd (dmul price q) fee \<le> (?A * (1 + EPS) ^ 2 + 1 / 20000) * (1 + EPS)"
    by (rule fill_cost_upper(1) [OF f pq fee])
  moreover have "?A \<le> (budget - FEE_QUANT) * (1 + 6 * EPS)"
  proof -
    have "(budget - FEE_QUANT) * (1 + EPS) ^ 2 \<le> (budget - FEE_QUANT) * ((1 + 6 * EPS) * (1 - EPS) ^ 2)"
      using affordable_value(2) [OF s q] by (intro mult_left_mono) (auto simp: EPS_def power2_eq_square)
    with v have "?A * (1 - EPS) ^ 2 \<le> ((budget - FEE_QUANT) * (1 + 6 * EPS)) * (1 - EPS) ^ 2"
      by (simp only: mult.assoc)
    moreover have "0 < (1 - EPS) ^ 2" by (simp add: EPS_def)
    ultimately show ?thesis by (simp only: mult_le_cancel_right_pos)
  qed
  ultimately show ?thesis
    using b by (simp add: EPS_def FEE_QUANT_def power2_eq_square field_simps)
qed

section \<open>What a decision may contain\<close>

lemma quantize_rdown_div_le:
  assumes "quantize rdown 8 (dec (v / price)) = Inr q" "0 \<le> v" "0 < price"
  shows "0 \<le> q" "q \<le> dec (v / price)"
  using quantize_rdown [OF assms(1)] assms by auto

lemma decide_SomeD:
  assumes "decide c qty price cash equity w band = Inr (Some (s, q))"
  shows "0 < q" "0 < price" "0 < equity" "s = SELL \<Longrightarrow> q \<le> qty"
    and "s = BUY \<Longrightarrow> 0 < w"
    and "s = BUY \<Longrightarrow> \<exists>budget \<le> cash. budget \<le> dsub (dmul equity (frepr w)) (dmul qty price)
           \<and> MIN_ORDER_KRW c \<le> budget \<and> affordable_qty c budget price = Inr q"
  subgoal using assms by (auto simp: decide_def Let_def split: if_splits)
  subgoal using assms by (auto simp: decide_def Let_def split: if_splits)
  subgoal using assms by (auto simp: decide_def Let_def split: if_splits)
  subgoal using assms by (auto simp: decide_def Let_def split: if_splits)
  subgoal using assms by (auto simp: decide_def Let_def split: if_splits)
  using assms by (auto simp: decide_def Let_def split: if_splits
      intro!: exI [of _ "min (dsub (dmul equity (frepr w)) (dmul qty price)) cash"])

lemma decide_nonpos_target:
  assumes "0 < price" "0 < equity" "w \<le> 0"
  shows "decide c qty price cash equity w band = Inr (if 0 < qty then Some (SELL, qty) else None)"
  using assms by (simp add: decide_def)

lemma decide_within_band:
  assumes "0 < price" "0 < equity" "0 < w" "0 < qty"
    and "dec (dabs (dsub (dmul qty price) (dmul equity (frepr w))) / equity) < dmul (frepr band) (frepr w)"
  shows "decide c qty price cash equity w band = Inr None"
  using assms by (simp add: decide_def Let_def)

lemma decide_no_min_order:
  assumes "decide c qty price cash equity w band = Inr (Some (BUY, q))"
  shows "MIN_ORDER_KRW c \<le> cash"
  using decide_SomeD(6) [OF assms] by auto

lemma decide_buy_cost:
  assumes s: "sane c" and d: "decide c qty price cash equity w band = Inr (Some (BUY, q))"
    and b: "cash \<le> 10 ^ 20" and fee: "fill_fee (FEE_RATE c) price q = Inr fee"
  shows "dadd (dmul price q) fee \<le> cash"
proof -
  obtain budget where "budget \<le> cash" "affordable_qty c budget price = Inr q"
    using decide_SomeD(6) [OF d] by blast
  with affordable_cost [OF s _ decide_SomeD(1) [OF d] _ fee] b show ?thesis by force
qed

section \<open>The weights of the loads\<close>

lemma clamp_pos: "0 < lo \<Longrightarrow> 0 < hi \<Longrightarrow> 0 < clamp lo hi v"
  by (auto simp: clamp_def)

lemma clamp_normalize_keys: "map fst (clamp_normalize n out lo hi) = map fst out"
  by (induction n out lo hi rule: clamp_normalize.induct)
     (auto simp: Let_def case_prod_beta comp_def)

lemma clamp_normalize_pos:
  assumes "0 < lo" "0 < hi" "0 < n" "(k, v) \<in> set (clamp_normalize n out lo hi)"
  shows "0 < v"
  using assms
proof (induction n arbitrary: out)
  case (Suc iters)
  let ?out1 = "map (\<lambda>(k, v). (k, clamp lo hi v)) out"
  let ?z = "fsum (map snd ?out1)"
  let ?out2 = "map (\<lambda>(k, v). (k, fquo v ?z)) ?out1"
  consider "?z \<le> 0" | "0 < ?z" "(k, v) \<in> set ?out2" | "0 < ?z" "0 < iters"
      "(k, v) \<in> set (clamp_normalize iters ?out2 lo hi)"
    using Suc.prems(4) by (cases iters) (auto simp: Let_def split: if_splits)
  then show ?case
  proof cases
    case 1
    with Suc.prems(4) have "v = fquo 1 (of_nat (length out))" "out \<noteq> []"
      by (auto simp: Let_def)
    then show ?thesis by (simp add: fquo_def)
  next
    case 2
    then show ?thesis using \<open>0 < lo\<close> \<open>0 < hi\<close> by (auto simp: fquo_def clamp_pos)
  next
    case 3
    then show ?thesis using Suc.IH \<open>0 < lo\<close> \<open>0 < hi\<close> by blast
  qed
qed simp

lemma compute_weights_keys: "map fst (compute_weights scores gates prev fm cm g a) = map fst scores"
  by (auto simp: compute_weights_def Let_def clamp_normalize_keys comp_def case_prod_beta)

lemma compute_weights_pos:
  assumes "0 < fm" "0 < cm" "(k, v) \<in> set (compute_weights scores gates prev fm cm g a)"
  shows "0 < v"
proof -
  have "scores \<noteq> []" using assms(3) by (auto simp: compute_weights_def)
  then have e: "0 < fquo 1 (of_nat (length scores))" by (simp add: fquo_def)
  then have lh: "0 < fmul fm (fquo 1 (of_nat (length scores)))"
     "0 < fmul cm (fquo 1 (of_nat (length scores)))"
    using assms(1,2) by (simp_all add: fmul_def)
  show ?thesis
    using assms(3) e clamp_normalize_pos [OF lh, of 50 k v] \<open>scores \<noteq> []\<close>
    by (auto simp: compute_weights_def Let_def split: if_splits)
qed

section \<open>Properties\<close>

text \<open>An order that \<open>rebalance.decide\<close> returns has a positive quantity, needs a positive
  price and positive equity, never sells more than is held, and buys only towards a positive
  target weight, with at least the minimum order of cash at hand.\<close>

lemma decide_order_sound:
  assumes "decide c qty price cash equity w band = Inr (Some (s, q))"
  shows "0 < q \<and> 0 < price \<and> 0 < equity \<and> (if s = SELL then q \<le> qty else 0 < w \<and> MIN_ORDER_KRW c \<le> cash)"
  using decide_SomeD(1-5) [OF assms] decide_no_min_order [of c qty price cash equity w band q] assms
  by (cases s) auto

text \<open>C24: Sizing reserves enough for the fee and its rounding: the cost the ledger will charge
  for a sized order, \<open>price * qty + fee\<close> with the fee rounded to 0.0001, is within the
  budget, at every budget up to \<open>10 ^ 20\<close> (the column \<open>NUMERIC(20,4)\<close> holds less
  than \<open>10 ^ 16\<close>), all 28-digit roundings included.\<close>

theorem affordable_qty_within_budget:
  assumes "sane c" and "affordable_qty c budget price = Inr q" and "0 < q"
    and "budget \<le> 10 ^ 20" and "fill_fee (FEE_RATE c) price q = Inr fee"
  shows "dadd (dmul price q) fee \<le> budget"
  using affordable_cost [OF assms] .

theorem affordable_qty_within_budget_witness:
  "\<exists>fee. fill_fee (FEE_RATE default_settings) 100 (8 / 10) = Inr fee
     \<and> affordable_qty default_settings (800401 / 10000) 100 = Inr (8 / 10)
     \<and> dadd (dmul 100 (8 / 10)) fee \<le> 800401 / 10000"
proof -
  have q: "affordable_qty default_settings (800401 / 10000) 100 = Inr (8 / 10)"
    by (simp add: affordable_qty_def FEE_QUANT_def ddiv_def dsub_def dmul_def dadd_def dec_lit
        quantize_def Let_def rdown_def)
  have f: "fill_fee (FEE_RATE default_settings) 100 (8 / 10) = Inr (4 / 100)"
    by (simp add: fill_fee_def dmul_def dec_lit quantize_def Let_def rhe_def)
  show ?thesis
    by (intro exI [of _ "4 / 100"] conjI f q affordable_qty_within_budget [OF sane_default q _ _ f])
       simp_all
qed

text \<open>The weight policy demotes a load without deleting it: the weights it returns are for
  exactly the scored loads, in their order, and every weight is positive, whatever scores,
  gates and previous weights say.\<close>

lemma compute_weights_demotes_not_deletes:
  assumes "0 < floor_mult" "0 < cap_mult"
  shows "map fst (compute_weights scores gates prev floor_mult cap_mult gate alpha) = map fst scores
    \<and> list_all (\<lambda>(k, v). 0 < v) (compute_weights scores gates prev floor_mult cap_mult gate alpha)"
  using compute_weights_keys compute_weights_pos [OF assms]
  by (auto simp: list_all_iff)

end
