(* ===== verification/Delivery.thy ===== *)
theory Delivery
  imports Prelude
begin

text \<open>
  At-least-once delivery and what a consumer needs to survive it.  The consumer loops of the
  program (\<open>trading/portfolio/updater.py\<close>, \<open>trading/relay/order_relay.py\<close>) commit a
  message only after its handler returned, so a message whose handler raised, and any message
  whose commit was lost, is delivered again.  \<open>deliver\<close> runs a handler over a list of
  messages until one raises and returns the messages still uncommitted.

  The locale \<open>idempotent_consumer\<close> is the contract between such a handler and the loop:
  a message already absorbed is a no-op, absorbing is permanent, and a successful message is
  absorbed.  Redelivery of any absorbed batch is then harmless.
\<close>

datatype outcome = Applied | Duplicate | Rejected

fun deliver :: "('s \<Rightarrow> 'm \<Rightarrow> ('s \<times> outcome) res) \<Rightarrow> 's \<Rightarrow> 'm list \<Rightarrow> 's \<times> 'm list" where
  "deliver h s [] = (s, [])"
| "deliver h s (m # ms) =
     (case h s m of Inl e \<Rightarrow> (s, m # ms) | Inr (s', r) \<Rightarrow> deliver h s' ms)"

text \<open>The outcomes of the messages handled before the loop stopped.\<close>

fun outcomes :: "('s \<Rightarrow> 'm \<Rightarrow> ('s \<times> outcome) res) \<Rightarrow> 's \<Rightarrow> 'm list \<Rightarrow> outcome list" where
  "outcomes h s [] = []"
| "outcomes h s (m # ms) =
     (case h s m of Inl e \<Rightarrow> [] | Inr (s', r) \<Rightarrow> r # outcomes h s' ms)"

lemma deliver_append:
  "deliver h s (xs @ ys) =
     (case deliver h s xs of (s', []) \<Rightarrow> deliver h s' ys | (s', z # zs) \<Rightarrow> (s', (z # zs) @ ys))"
  by (induction xs arbitrary: s) (auto split: sum.splits list.splits)

lemma deliver_suffix: "deliver h s ms = (s', rest) \<Longrightarrow> \<exists>pre. ms = pre @ rest"
proof (induction ms arbitrary: s)
  case (Cons m ms)
  show ?case
  proof (cases "h s m")
    case (Inl e)
    with Cons.prems show ?thesis by auto
  next
    case (Inr p)
    obtain t r where p: "p = (t, r)" by (cases p)
    with Inr Cons.prems have "deliver h t ms = (s', rest)" by simp
    from Cons.IH [OF this] obtain pre where "ms = pre @ rest" by blast
    then have "m # ms = (m # pre) @ rest" by simp
    then show ?thesis by blast
  qed
qed simp

lemma deliver_invariant:
  assumes "deliver h s ms = (s', rest)" and "P s"
    and "\<And>s m s' r. P s \<Longrightarrow> h s m = Inr (s', r) \<Longrightarrow> P s'"
  shows "P s'"
  using assms(1,2)
proof (induction ms arbitrary: s)
  case (Cons m ms)
  then show ?case
    by (auto split: sum.splits prod.splits dest: assms(3))
qed simp

locale idempotent_consumer =
  fixes handle :: "'s \<Rightarrow> 'm \<Rightarrow> ('s \<times> outcome) res"
    and absorbed :: "'s \<Rightarrow> 'm \<Rightarrow> bool"
  assumes absorbed_noop: "absorbed s m \<Longrightarrow> handle s m = Inr (s, Duplicate)"
    and applied_absorbed: "handle s m = Inr (s', Applied) \<Longrightarrow> absorbed s' m"
    and absorbed_mono: "handle s m = Inr (s', r) \<Longrightarrow> absorbed s x \<Longrightarrow> absorbed s' x"
begin

lemma deliver_absorbed: "deliver handle s ms = (s', rest) \<Longrightarrow> absorbed s x \<Longrightarrow> absorbed s' x"
  by (rule deliver_invariant [where P = "\<lambda>s. absorbed s x"]) (auto intro: absorbed_mono)

lemma applied_then_duplicate:
  assumes "handle s m = Inr (s1, Applied)" "deliver handle s1 ms = (s2, rest)"
  shows "handle s2 m = Inr (s2, Duplicate)"
  using absorbed_noop deliver_absorbed [OF assms(2) applied_absorbed [OF assms(1)]] by blast

lemma deliver_all_absorbed: "\<forall>m \<in> set ms. absorbed s m \<Longrightarrow> deliver handle s ms = (s, [])"
  by (induction ms) (auto simp: absorbed_noop)

lemma handled_absorbed:
  assumes "deliver handle s ms = (s', [])" "Rejected \<notin> set (outcomes handle s ms)"
    and dup: "\<And>s m s'. handle s m = Inr (s', Duplicate) \<Longrightarrow> absorbed s' m"
  shows "\<forall>m \<in> set ms. absorbed s' m"
  using assms(1,2)
proof (induction ms arbitrary: s)
  case (Cons m ms)
  from Cons.prems obtain t r where h: "handle s m = Inr (t, r)" "deliver handle t ms = (s', [])"
      "r \<noteq> Rejected" "Rejected \<notin> set (outcomes handle t ms)"
    by (auto split: sum.splits)
  then have "absorbed t m"
    using applied_absorbed dup by (cases r) auto
  then have "absorbed s' m" by (rule deliver_absorbed [OF h(2)])
  with Cons.IH [OF h(2,4)] show ?case by simp
qed simp

text \<open>Delivering a batch again, in any order and multiplicity, changes nothing.\<close>

lemma redelivery_noop:
  assumes "deliver handle s ms = (s', [])" "Rejected \<notin> set (outcomes handle s ms)"
    and "\<And>s m s'. handle s m = Inr (s', Duplicate) \<Longrightarrow> absorbed s' m"
    and "set again \<subseteq> set ms"
  shows "deliver handle s' again = (s', [])"
proof -
  have "\<forall>m \<in> set ms. absorbed s' m"
    by (rule handled_absorbed [OF assms(1,2)]) (rule assms(3))
  with assms(4) show ?thesis by (intro deliver_all_absorbed) blast
qed

end

end
