(* ===== verification/Ledger.thy ===== *)
theory Ledger
  imports Rebalance Delivery
begin

text \<open>
  The PostgreSQL ledger and the code that writes it: the event types of
  \<open>common/schemas.py\<close>, the tables of \<open>db/migrations/postgres/0001_baseline.sql\<close>,
  \<open>trading/portfolio/updater.py\<close> (executions to balances and positions),
  \<open>common/order_writer.py\<close>, \<open>trading/portfolio/account_read.py\<close> and
  \<open>trading/portfolio/paper_ledger.py\<close>.

  A table is an association list from its primary key to the row.  A statement stores
  \<open>NUMERIC(p,s)\<close> values rounded half away from zero to \<open>s\<close> decimals and raises on overflow
  or on a violated constraint; a raised error rolls the transaction back, so a result
  \<open>Inl e\<close> carries no new state.  SQL addition, subtraction and multiplication of
  \<open>NUMERIC\<close> are exact; the scale of its division is chosen by the server, so division is an
  argument \<open>ndiv\<close>.  Identifiers (\<open>uuid4\<close>) and the clock are arguments.
\<close>

section \<open>Rows\<close>

datatype otype = MARKET | LIMIT | OtherType string

datatype status = PENDING | FILLED | REJECTED

record account_row =
  krw_balance :: rat
  auto_trade :: bool

record position_row =
  p_quantity :: rat
  avg_buy_price :: rat

record order_row =
  o_account :: string
  o_symbol :: string
  o_side :: side
  o_type :: otype
  o_price :: "rat option"
  o_quantity :: rat
  o_status :: status

record execution =
  x_id :: string
  x_order :: string
  x_account :: string
  x_symbol :: string
  x_side :: side
  x_price :: rat
  x_quantity :: rat
  x_fee :: rat

text \<open>The message of the \<open>orders\<close> topic, \<open>schemas.Order\<close>.\<close>

record order_msg =
  m_order :: string
  m_account :: string
  m_symbol :: string
  m_side :: side
  m_type :: otype
  m_price :: "rat option"
  m_quantity :: rat

record outbox_row =
  b_id :: nat
  b_order :: string
  b_symbol :: string
  b_payload :: order_msg
  b_published :: bool

record db =
  accounts :: "(string \<times> account_row) list"
  positions :: "((string \<times> string) \<times> position_row) list"
  orders :: "(string \<times> order_row) list"
  executions :: "(string \<times> execution) list"
  outbox :: "outbox_row list"

section \<open>Statements\<close>

definition numeric :: "nat \<Rightarrow> nat \<Rightarrow> rat \<Rightarrow> rat res" where
  "numeric p s x =
     (let y = of_int (rhu (x * 10 ^ s)) / 10 ^ s
      in if \<bar>y\<bar> < 10 ^ (p - s) then Inr y else Inl NumericOverflow)"

definition checked :: "string \<Rightarrow> bool \<Rightarrow> 'a \<Rightarrow> 'a res" where
  "checked name b x = (if b then Inr x else Inl (CheckViolation name))"

text \<open>\<open>UPDATE accounts SET krw_balance = krw_balance + d WHERE account_id = a\<close>.\<close>

definition add_balance :: "db \<Rightarrow> string \<Rightarrow> rat \<Rightarrow> db res" where
  "add_balance db a d =
     (case map_of (accounts db) a of
        None \<Rightarrow> Inr db
      | Some r \<Rightarrow>
          rbind (numeric 20 4 (krw_balance r + d))
            (\<lambda>b. checked ''krw_balance'' (0 \<le> b)
                    (db\<lparr>accounts := AList.update a (r\<lparr>krw_balance := b\<rparr>) (accounts db)\<rparr>)))"

text \<open>The upsert of a bought position; \<open>EXCLUDED\<close> holds the proposed row after coercion.\<close>

definition upsert_position ::
  "(rat \<Rightarrow> rat \<Rightarrow> rat) \<Rightarrow> db \<Rightarrow> string \<Rightarrow> string \<Rightarrow> rat \<Rightarrow> rat \<Rightarrow> db res" where
  "upsert_position ndiv db a sm qty unit_cost =
     rbind (numeric 28 12 qty) (\<lambda>eq.
     rbind (numeric 20 4 unit_cost) (\<lambda>ea.
     rbind (checked ''quantity'' (0 \<le> eq) ()) (\<lambda>_.
       case map_of (positions db) (a, sm) of
         None \<Rightarrow>
           Inr (db\<lparr>positions := AList.update (a, sm) \<lparr>p_quantity = eq, avg_buy_price = ea\<rparr> (positions db)\<rparr>)
       | Some p \<Rightarrow>
           if p_quantity p + eq = 0 then Inl (CheckViolation ''avg_buy_price'')
           else
             rbind (numeric 20 4 (ndiv (p_quantity p * avg_buy_price p + eq * ea) (p_quantity p + eq)))
               (\<lambda>avg. rbind (numeric 28 12 (p_quantity p + eq))
               (\<lambda>q. checked ''quantity'' (0 \<le> q)
                 (db\<lparr>positions := AList.update (a, sm) \<lparr>p_quantity = q, avg_buy_price = avg\<rparr>
                       (positions db)\<rparr>))))))"

definition reduce_position :: "db \<Rightarrow> string \<Rightarrow> string \<Rightarrow> rat \<Rightarrow> db res" where
  "reduce_position db a sm qty =
     (case map_of (positions db) (a, sm) of
        None \<Rightarrow> Inr db
      | Some p \<Rightarrow>
          rbind (numeric 28 12 (p_quantity p - qty))
            (\<lambda>q. checked ''quantity'' (0 \<le> q)
               (db\<lparr>positions := AList.update (a, sm) (p\<lparr>p_quantity := q\<rparr>) (positions db)\<rparr>)))"

definition set_status :: "db \<Rightarrow> string \<Rightarrow> (order_row \<Rightarrow> bool) \<Rightarrow> status \<Rightarrow> db" where
  "set_status db oid cond st =
     (case map_of (orders db) oid of
        None \<Rightarrow> db
      | Some r \<Rightarrow>
          if cond r then db\<lparr>orders := AList.update oid (r\<lparr>o_status := st\<rparr>) (orders db)\<rparr> else db)"

definition insert_order :: "db \<Rightarrow> string \<Rightarrow> order_row \<Rightarrow> db res" where
  "insert_order db oid r =
     rbind (case o_price r of None \<Rightarrow> Inr None | Some p \<Rightarrow> rbind (numeric 20 4 p) (\<lambda>p'. Inr (Some p'))) (\<lambda>price.
     rbind (numeric 28 12 (o_quantity r)) (\<lambda>q.
     rbind (checked ''orders_pkey'' (map_of (orders db) oid = None) ()) (\<lambda>_.
       checked ''orders_account_id_fkey'' (map_of (accounts db) (o_account r) \<noteq> None)
         (db\<lparr>orders := AList.update oid (r\<lparr>o_price := price, o_quantity := q\<rparr>) (orders db)\<rparr>))))"

section \<open>Applying an execution\<close>

definition record_execution :: "db \<Rightarrow> execution \<Rightarrow> db res" where
  "record_execution db ex =
     rbind (numeric 20 4 (x_price ex)) (\<lambda>price.
     rbind (numeric 28 12 (x_quantity ex)) (\<lambda>qty.
     rbind (numeric 20 4 (x_fee ex)) (\<lambda>fee.
     rbind (checked ''executions_pkey'' (map_of (executions db) (x_id ex) = None) ()) (\<lambda>_.
     rbind (checked ''executions_account_id_fkey'' (map_of (accounts db) (x_account ex) \<noteq> None) ()) (\<lambda>_.
       checked ''executions_order_id_fkey'' (map_of (orders db) (x_order ex) \<noteq> None)
         (db\<lparr>executions := AList.update (x_id ex)
               (ex\<lparr>x_price := price, x_quantity := qty, x_fee := fee\<rparr>) (executions db)\<rparr>))))))"

definition reject :: "db \<Rightarrow> string \<Rightarrow> db \<times> outcome" where
  "reject db oid = (set_status db oid (\<lambda>r. o_status r = PENDING) REJECTED, Rejected)"

definition apply_execution ::
  "(rat \<Rightarrow> rat \<Rightarrow> rat) \<Rightarrow> db \<Rightarrow> execution \<Rightarrow> (db \<times> outcome) res" where
  "apply_execution ndiv db ex =
     (let oid = x_order ex; a = x_account ex; sm = x_symbol ex;
          price = x_price ex; qty = x_quantity ex; fee = x_fee ex
      in if map_of (executions db) (x_id ex) \<noteq> None then Inr (db, Duplicate)
         else if x_side ex = BUY then
           let cost = dadd (dmul price qty) fee in
           (case map_of (accounts db) a of
              None \<Rightarrow> Inr (reject db oid)
            | Some acc \<Rightarrow>
                if krw_balance acc < cost then Inr (reject db oid)
                else
                  rbind (record_execution db ex) (\<lambda>db1.
                  rbind (add_balance db1 a (- cost)) (\<lambda>db2.
                  rbind (ddiv cost qty) (\<lambda>unit_cost.
                  rbind (upsert_position ndiv db2 a sm qty unit_cost) (\<lambda>db3.
                    Inr (set_status db3 oid (\<lambda>_. True) FILLED, Applied))))))
         else
           (case map_of (positions db) (a, sm) of
              None \<Rightarrow> Inr (reject db oid)
            | Some p \<Rightarrow>
                if p_quantity p < qty then Inr (reject db oid)
                else
                  rbind (record_execution db ex) (\<lambda>db1.
                  rbind (add_balance db1 a (dsub (dmul price qty) fee)) (\<lambda>db2.
                  rbind (reduce_position db2 a sm qty) (\<lambda>db3.
                    Inr (set_status db3 oid (\<lambda>_. True) FILLED, Applied))))))"

text \<open>\<open>with pool.connection() as conn\<close>: commit on return, roll back on an exception.\<close>

definition in_transaction :: "db \<Rightarrow> (db \<times> 'a) res \<Rightarrow> db" where
  "in_transaction db r = (case r of Inl e \<Rightarrow> db | Inr (db', x) \<Rightarrow> db')"

text \<open>
  The consumer loop of \<open>updater.run\<close> on a list of messages.  A raised error leaves the
  loop with the offset of the message uncommitted, so it is delivered again after the restart.
\<close>

definition updater_run ::
  "(rat \<Rightarrow> rat \<Rightarrow> rat) \<Rightarrow> db \<Rightarrow> execution list \<Rightarrow> db \<times> execution list" where
  "updater_run ndiv = deliver (apply_execution ndiv)"

section \<open>Placing orders and reading accounts\<close>

text \<open>\<open>order_writer.place_order\<close>: the order and its outbox record in one transaction.\<close>

definition place_order ::
  "db \<Rightarrow> string \<Rightarrow> string \<Rightarrow> string \<Rightarrow> side \<Rightarrow> otype \<Rightarrow> rat \<Rightarrow> rat option \<Rightarrow> (db \<times> string) res" where
  "place_order db oid account_id symbol s ty quantity price =
     rbind (insert_order db oid
       \<lparr>o_account = account_id, o_symbol = symbol, o_side = s, o_type = ty, o_price = price,
        o_quantity = quantity, o_status = PENDING\<rparr>) (\<lambda>db1.
       Inr (db1\<lparr>outbox := outbox db1 @
         [\<lparr>b_id = Suc (fold max (map b_id (outbox db1)) 0), b_order = oid, b_symbol = symbol,
           b_payload = \<lparr>m_order = oid, m_account = account_id, m_symbol = symbol, m_side = s,
                        m_type = ty, m_price = price, m_quantity = quantity\<rparr>,
           b_published = False\<rparr>]\<rparr>, oid))"

definition enabled_accounts :: "db \<Rightarrow> string list" where
  "enabled_accounts db = map fst (filter (\<lambda>(a, r). auto_trade r) (accounts db))"

definition held_positions :: "db \<Rightarrow> string \<Rightarrow> (string \<times> rat) list" where
  "held_positions db acct =
     map (\<lambda>((a, sm), p). (sm, p_quantity p))
       (filter (\<lambda>((a, sm), p). a = acct \<and> 0 < p_quantity p) (positions db))"

definition cash_of :: "db \<Rightarrow> string \<Rightarrow> rat" where
  "cash_of db acct = (case map_of (accounts db) acct of None \<Rightarrow> 0 | Some r \<Rightarrow> krw_balance r)"

section \<open>Paper fills\<close>

definition kr_fee :: "settings \<Rightarrow> side \<Rightarrow> rat \<Rightarrow> rat \<Rightarrow> rat res" where
  "kr_fee c s price qty =
     (let rate = (if s = SELL then dadd (FEE_RATE c) (STOCK_SELL_TAX_RATE c) else FEE_RATE c)
      in quantize rhe 4 (dmul (dmul price qty) rate))"

definition paper_positions :: "db \<Rightarrow> string \<Rightarrow> (string \<times> int) list" where
  "paper_positions db acct = map (\<lambda>(s, q). (s, rdown q)) (held_positions db acct)"

text \<open>A synchronous market fill: the order is inserted (no outbox) and executed at once.\<close>

definition sync_fill ::
  "(rat \<Rightarrow> rat \<Rightarrow> rat) \<Rightarrow> db \<Rightarrow> string \<Rightarrow> string \<Rightarrow> string \<Rightarrow> string \<Rightarrow> side \<Rightarrow> rat \<Rightarrow> rat \<Rightarrow>
   rat res \<Rightarrow> (db \<times> outcome) res" where
  "sync_fill ndiv db oid eid acct symbol s qty price fee_res =
     rbind (insert_order db oid
       \<lparr>o_account = acct, o_symbol = symbol, o_side = s, o_type = MARKET, o_price = Some price,
        o_quantity = qty, o_status = PENDING\<rparr>) (\<lambda>db1.
     rbind fee_res (\<lambda>fee.
       apply_execution ndiv db1
         \<lparr>x_id = eid, x_order = oid, x_account = acct, x_symbol = symbol, x_side = s,
          x_price = price, x_quantity = qty, x_fee = fee\<rparr>))"

definition simulate_fill ::
  "settings \<Rightarrow> (rat \<Rightarrow> rat \<Rightarrow> rat) \<Rightarrow> db \<Rightarrow> string \<Rightarrow> string \<Rightarrow> string \<Rightarrow> string \<Rightarrow> side \<Rightarrow> int \<Rightarrow> rat \<Rightarrow>
   (db \<times> outcome) res" where
  "simulate_fill c ndiv db oid eid acct symbol s qty price =
     sync_fill ndiv db oid eid acct symbol s (of_int qty) price (kr_fee c s price (of_int qty))"

section \<open>What the statements do\<close>

lemma numeric_Inr_iff:
  "numeric p s x = Inr y \<longleftrightarrow>
     y = of_int (rhu (x * 10 ^ s)) / 10 ^ s \<and> \<bar>y\<bar> < 10 ^ (p - s)"
  by (auto simp: numeric_def Let_def)

lemma numeric_nonneg: "numeric p s x = Inr y \<Longrightarrow> 0 \<le> x \<Longrightarrow> 0 \<le> y"
  using rhu_mono [of 0 "x * 10 ^ s"] by (simp add: numeric_Inr_iff)

lemma numeric_exact:
  assumes "of_int \<lfloor>x * 10 ^ s\<rfloor> = x * 10 ^ s"
  shows "numeric p s x = (if \<bar>x\<bar> < 10 ^ (p - s) then Inr x else Inl NumericOverflow)"
proof -
  have "of_int (rhu (x * 10 ^ s)) / 10 ^ s = x"
    using rhu_of_int [of "\<lfloor>x * 10 ^ s\<rfloor>"] unfolding assms by (simp add: assms)
  then show ?thesis by (simp add: numeric_def Let_def)
qed

lemma checked_Inr_iff [simp]: "checked n b x = Inr y \<longleftrightarrow> b \<and> y = x"
  by (auto simp: checked_def)

lemma add_balance_InrD:
  assumes "add_balance db a d = Inr db'" "map_of (accounts db) a = Some r"
  obtains b where "numeric 20 4 (krw_balance r + d) = Inr b" "0 \<le> b"
    "db' = db\<lparr>accounts := AList.update a (r\<lparr>krw_balance := b\<rparr>) (accounts db)\<rparr>"
  using assms by (auto simp: add_balance_def)

text \<open>The row of an execution: its message with the three amounts at their column's scale.\<close>

definition stored :: "execution \<Rightarrow> execution \<Rightarrow> bool" where
  "stored ex ex' \<longleftrightarrow>
     x_id ex' = x_id ex \<and> x_order ex' = x_order ex \<and> x_account ex' = x_account ex \<and>
     x_symbol ex' = x_symbol ex \<and> x_side ex' = x_side ex \<and>
     numeric 20 4 (x_price ex) = Inr (x_price ex') \<and>
     numeric 28 12 (x_quantity ex) = Inr (x_quantity ex') \<and>
     numeric 20 4 (x_fee ex) = Inr (x_fee ex')"

lemma record_execution_InrD:
  assumes "record_execution db ex = Inr db'"
  obtains ex' where "db' = db\<lparr>executions := AList.update (x_id ex) ex' (executions db)\<rparr>"
    "x_order ex' = x_order ex" "x_account ex' = x_account ex" "x_id ex' = x_id ex"
    "map_of (executions db) (x_id ex) = None"
    "map_of (accounts db) (x_account ex) \<noteq> None" "map_of (orders db) (x_order ex) \<noteq> None"
    "stored ex ex'"
proof -
  from assms obtain price qty fee where n: "numeric 20 4 (x_price ex) = Inr price"
      "numeric 28 12 (x_quantity ex) = Inr qty" "numeric 20 4 (x_fee ex) = Inr fee"
    and d: "db' = db\<lparr>executions := AList.update (x_id ex)
        (ex\<lparr>x_price := price, x_quantity := qty, x_fee := fee\<rparr>) (executions db)\<rparr>"
      "map_of (executions db) (x_id ex) = None"
      "map_of (accounts db) (x_account ex) \<noteq> None" "map_of (orders db) (x_order ex) \<noteq> None"
    by (auto simp: record_execution_def)
  then show thesis
    by (intro that [of "ex\<lparr>x_price := price, x_quantity := qty, x_fee := fee\<rparr>"])
       (simp_all add: stored_def)
qed

lemma upsert_position_InrD:
  assumes "upsert_position ndiv db a sm qty u = Inr db'"
  obtains p where "db' = db\<lparr>positions := AList.update (a, sm) p (positions db)\<rparr>" "0 \<le> p_quantity p"
    "\<exists>eq. numeric 28 12 qty = Inr eq \<and>
        numeric 28 12 ((case map_of (positions db) (a, sm) of None \<Rightarrow> 0 | Some p0 \<Rightarrow> p_quantity p0) + eq)
          = Inr (p_quantity p)"
proof (cases "map_of (positions db) (a, sm)")
  case None
  with assms obtain eq ea where e: "numeric 28 12 qty = Inr eq" "0 \<le> eq"
      "db' = db\<lparr>positions := AList.update (a, sm) \<lparr>p_quantity = eq, avg_buy_price = ea\<rparr> (positions db)\<rparr>"
    by (auto simp: upsert_position_def)
  have "numeric 28 12 eq = Inr eq"
    using e(1) by (simp add: numeric_Inr_iff)
  with None e that show ?thesis by fastforce
next
  case (Some p)
  with assms that show ?thesis by (fastforce simp: upsert_position_def split: if_splits)
qed

lemma reduce_position_InrD:
  assumes "reduce_position db a sm qty = Inr db'" "map_of (positions db) (a, sm) = Some p"
  obtains q where "numeric 28 12 (p_quantity p - qty) = Inr q" "0 \<le> q"
    "db' = db\<lparr>positions := AList.update (a, sm) (p\<lparr>p_quantity := q\<rparr>) (positions db)\<rparr>"
  using assms by (auto simp: reduce_position_def)

lemma set_status_simps [simp]:
  "accounts (set_status db oid c st) = accounts db"
  "positions (set_status db oid c st) = positions db"
  "executions (set_status db oid c st) = executions db"
  "outbox (set_status db oid c st) = outbox db"
  "map_of (orders (set_status db oid c st)) o' =
     (if o' = oid then map_option (\<lambda>r. if c r then r\<lparr>o_status := st\<rparr> else r) (map_of (orders db) oid)
      else map_of (orders db) o')"
  by (auto simp: set_status_def update_conv' split: option.split)

lemma set_status_dom [simp]:
  "map_of (orders (set_status db oid c st)) o' = None \<longleftrightarrow> map_of (orders db) o' = None"
  by (auto simp: map_option_case split: option.split)

section \<open>The cases of \<open>apply_execution\<close>\<close>

definition buy_cost :: "execution \<Rightarrow> rat" where
  "buy_cost ex = dadd (dmul (x_price ex) (x_quantity ex)) (x_fee ex)"

definition sell_proceeds :: "execution \<Rightarrow> rat" where
  "sell_proceeds ex = dsub (dmul (x_price ex) (x_quantity ex)) (x_fee ex)"

lemma apply_execution_cases:
  assumes "apply_execution ndiv db ex = Inr (db', out)"
  obtains
    (dup) "out = Duplicate" "db' = db" "map_of (executions db) (x_id ex) \<noteq> None"
  | (rej) "out = Rejected" "db' = set_status db (x_order ex) (\<lambda>r. o_status r = PENDING) REJECTED"
      "map_of (executions db) (x_id ex) = None"
  | (buy) acc b ex' p where "out = Applied" "x_side ex = BUY"
      "map_of (executions db) (x_id ex) = None"
      "map_of (orders db) (x_order ex) \<noteq> None"
      "map_of (accounts db) (x_account ex) = Some acc"
      "buy_cost ex \<le> krw_balance acc" "numeric 20 4 (krw_balance acc - buy_cost ex) = Inr b" "0 \<le> b"
      "x_order ex' = x_order ex" "x_account ex' = x_account ex" "0 \<le> p_quantity p"
      "\<exists>eq. numeric 28 12 (x_quantity ex) = Inr eq \<and>
        numeric 28 12 ((case map_of (positions db) (x_account ex, x_symbol ex) of
             None \<Rightarrow> 0 | Some p0 \<Rightarrow> p_quantity p0) + eq) = Inr (p_quantity p)"
      "stored ex ex'"
      "db' = set_status (db\<lparr>executions := AList.update (x_id ex) ex' (executions db),
          accounts := AList.update (x_account ex) (acc\<lparr>krw_balance := b\<rparr>) (accounts db),
          positions := AList.update (x_account ex, x_symbol ex) p (positions db)\<rparr>)
          (x_order ex) (\<lambda>_. True) FILLED"
  | (sell) acc b ex' p q where "out = Applied" "x_side ex = SELL"
      "map_of (executions db) (x_id ex) = None"
      "map_of (orders db) (x_order ex) \<noteq> None"
      "map_of (accounts db) (x_account ex) = Some acc"
      "numeric 20 4 (krw_balance acc + sell_proceeds ex) = Inr b" "0 \<le> b"
      "x_order ex' = x_order ex" "x_account ex' = x_account ex"
      "map_of (positions db) (x_account ex, x_symbol ex) = Some p" "x_quantity ex \<le> p_quantity p"
      "numeric 28 12 (p_quantity p - x_quantity ex) = Inr q" "0 \<le> q"
      "stored ex ex'"
      "db' = set_status (db\<lparr>executions := AList.update (x_id ex) ex' (executions db),
          accounts := AList.update (x_account ex) (acc\<lparr>krw_balance := b\<rparr>) (accounts db),
          positions := AList.update (x_account ex, x_symbol ex) (p\<lparr>p_quantity := q\<rparr>) (positions db)\<rparr>)
          (x_order ex) (\<lambda>_. True) FILLED"
proof (cases "map_of (executions db) (x_id ex)")
  case (Some y)
  then show ?thesis using assms dup by (auto simp: apply_execution_def Let_def)
next
  case None
  note noex = None
  show ?thesis
  proof (cases "x_side ex")
    case BUY
    show ?thesis
    proof (cases "map_of (accounts db) (x_account ex)")
      case None
      then show ?thesis using assms noex BUY rej by (auto simp: apply_execution_def Let_def reject_def)
    next
      case (Some acc)
      show ?thesis
      proof (cases "krw_balance acc < buy_cost ex")
        case True
        then show ?thesis using assms noex BUY Some rej
          by (auto simp: apply_execution_def Let_def reject_def buy_cost_def)
      next
        case False
        then obtain db1 db2 db3 u where r: "record_execution db ex = Inr db1"
            "add_balance db1 (x_account ex) (- buy_cost ex) = Inr db2"
            "upsert_position ndiv db2 (x_account ex) (x_symbol ex) (x_quantity ex) u = Inr db3"
            "db' = set_status db3 (x_order ex) (\<lambda>_. True) FILLED" "out = Applied"
          using assms noex BUY Some by (auto simp: apply_execution_def Let_def buy_cost_def)
        from r(1) obtain ex' where e: "db1 = db\<lparr>executions := AList.update (x_id ex) ex' (executions db)\<rparr>"
            "x_order ex' = x_order ex" "x_account ex' = x_account ex" "map_of (orders db) (x_order ex) \<noteq> None"
            "stored ex ex'"
          by (rule record_execution_InrD)
        have acc: "map_of (accounts db1) (x_account ex) = Some acc" using Some e by simp
        from r(2) acc obtain b where b: "numeric 20 4 (krw_balance acc - buy_cost ex) = Inr b" "0 \<le> b"
            "db2 = db1\<lparr>accounts := AList.update (x_account ex) (acc\<lparr>krw_balance := b\<rparr>) (accounts db1)\<rparr>"
          by (auto elim: add_balance_InrD)
        from r(3) obtain p where "db3 = db2\<lparr>positions := AList.update (x_account ex, x_symbol ex) p (positions db2)\<rparr>"
            "0 \<le> p_quantity p" "\<exists>eq. numeric 28 12 (x_quantity ex) = Inr eq \<and>
             numeric 28 12 ((case map_of (positions db2) (x_account ex, x_symbol ex) of
                None \<Rightarrow> 0 | Some p0 \<Rightarrow> p_quantity p0) + eq) = Inr (p_quantity p)"
          by (rule upsert_position_InrD)
        with b e r Some False BUY noex show ?thesis by (intro buy) auto
      qed
    qed
  next
    case SELL
    show ?thesis
    proof (cases "map_of (positions db) (x_account ex, x_symbol ex)")
      case None
      then show ?thesis using assms noex SELL rej by (auto simp: apply_execution_def Let_def reject_def)
    next
      case (Some p)
      show ?thesis
      proof (cases "p_quantity p < x_quantity ex")
        case True
        then show ?thesis using assms noex SELL Some rej
          by (auto simp: apply_execution_def Let_def reject_def)
      next
        case False
        then obtain db1 db2 db3 where r: "record_execution db ex = Inr db1"
            "add_balance db1 (x_account ex) (sell_proceeds ex) = Inr db2"
            "reduce_position db2 (x_account ex) (x_symbol ex) (x_quantity ex) = Inr db3"
            "db' = set_status db3 (x_order ex) (\<lambda>_. True) FILLED" "out = Applied"
          using assms noex SELL Some by (auto simp: apply_execution_def Let_def sell_proceeds_def)
        from r(1) obtain ex' where e: "db1 = db\<lparr>executions := AList.update (x_id ex) ex' (executions db)\<rparr>"
            "x_order ex' = x_order ex" "x_account ex' = x_account ex"
            "map_of (accounts db) (x_account ex) \<noteq> None" "map_of (orders db) (x_order ex) \<noteq> None"
            "stored ex ex'"
          by (rule record_execution_InrD)
        then obtain acc where acc: "map_of (accounts db) (x_account ex) = Some acc"
            "map_of (accounts db1) (x_account ex) = Some acc" by auto
        from r(2) acc(2) obtain b where b: "numeric 20 4 (krw_balance acc + sell_proceeds ex) = Inr b" "0 \<le> b"
            "db2 = db1\<lparr>accounts := AList.update (x_account ex) (acc\<lparr>krw_balance := b\<rparr>) (accounts db1)\<rparr>"
          by (rule add_balance_InrD)
        have p: "map_of (positions db2) (x_account ex, x_symbol ex) = Some p" using Some e b by simp
        from r(3) p obtain q where "numeric 28 12 (p_quantity p - x_quantity ex) = Inr q" "0 \<le> q"
            "db3 = db2\<lparr>positions := AList.update (x_account ex, x_symbol ex) (p\<lparr>p_quantity := q\<rparr>) (positions db2)\<rparr>"
          by (rule reduce_position_InrD)
        with acc b e r Some False SELL noex show ?thesis by (intro sell) auto
      qed
    qed
  qed
qed

section \<open>The ledger invariant\<close>

text \<open>
  No negative balance, no negative position, and every recorded execution belongs to a known
  account and to an order that is \<open>FILLED\<close>.
\<close>

definition ledger_inv :: "db \<Rightarrow> bool" where
  "ledger_inv db \<longleftrightarrow>
     (\<forall>a r. map_of (accounts db) a = Some r \<longrightarrow> 0 \<le> krw_balance r) \<and>
     (\<forall>k p. map_of (positions db) k = Some p \<longrightarrow> 0 \<le> p_quantity p) \<and>
     (\<forall>e x. map_of (executions db) e = Some x \<longrightarrow>
        map_of (accounts db) (x_account x) \<noteq> None \<and>
        (\<exists>r. map_of (orders db) (x_order x) = Some r \<and> o_status r = FILLED))"

lemma apply_execution_inv [step_preserves]:
  assumes "apply_execution ndiv db ex = Inr (db', out)" "ledger_inv db"
  shows "ledger_inv db'"
  using assms(1)
proof (cases rule: apply_execution_cases)
  case dup
  then show ?thesis using assms(2) by simp
next
  case rej
  then show ?thesis using assms(2) by (fastforce simp: ledger_inv_def)
next
  case (buy acc b ex' p)
  then show ?thesis using assms(2) by (auto simp: ledger_inv_def update_conv')
next
  case (sell acc b ex' p q)
  then show ?thesis using assms(2) by (auto simp: ledger_inv_def update_conv')
qed

definition recorded :: "db \<Rightarrow> execution \<Rightarrow> bool" where
  "recorded db ex \<longleftrightarrow> map_of (executions db) (x_id ex) \<noteq> None"

interpretation updater: idempotent_consumer "apply_execution ndiv" recorded for ndiv
proof
  fix db ex
  assume "recorded db ex"
  then show "apply_execution ndiv db ex = Inr (db, Duplicate)"
    by (simp add: recorded_def apply_execution_def)
next
  fix db ex db'
  assume "apply_execution ndiv db ex = Inr (db', Applied)"
  then show "recorded db' ex"
    by (cases rule: apply_execution_cases) (auto simp: recorded_def update_conv')
next
  fix db ex db' r x
  assume "apply_execution ndiv db ex = Inr (db', r)" "recorded db x"
  then show "recorded db' x"
    by (cases rule: apply_execution_cases) (auto simp: recorded_def update_conv')
qed

lemma duplicate_recorded: "apply_execution ndiv db ex = Inr (db', Duplicate) \<Longrightarrow> recorded db' ex"
  by (erule apply_execution_cases) (auto simp: recorded_def)

section \<open>Reconciling balances with executions\<close>

text \<open>Values with at most four decimals, which \<open>NUMERIC(20,4)\<close> stores unchanged.\<close>

definition exact4 :: "rat \<Rightarrow> bool" where
  "exact4 x \<longleftrightarrow> x * 10 ^ 4 \<in> \<int>"

lemma exact4_add [simp]: "exact4 x \<Longrightarrow> exact4 y \<Longrightarrow> exact4 (x + y)"
  by (simp add: exact4_def distrib_right)

lemma exact4_minus [simp]: "exact4 (- x) = exact4 x"
  by (simp add: exact4_def)

lemma exact4_numeric: "exact4 x \<Longrightarrow> numeric 20 4 x = Inr y \<Longrightarrow> y = x"
  using numeric_exact [of x 4 20] by (auto simp: exact4_def of_int_floor split: if_splits)

definition cash_flow :: "execution \<Rightarrow> rat" where
  "cash_flow ex = (if x_side ex = BUY then - buy_cost ex else sell_proceeds ex)"

text \<open>The messages of a batch that were applied.\<close>

fun applied_of :: "(rat \<Rightarrow> rat \<Rightarrow> rat) \<Rightarrow> db \<Rightarrow> execution list \<Rightarrow> execution list" where
  "applied_of ndiv db [] = []"
| "applied_of ndiv db (ex # exs) =
     (case apply_execution ndiv db ex of
        Inl e \<Rightarrow> []
      | Inr (db', r) \<Rightarrow> (if r = Applied then [ex] else []) @ applied_of ndiv db' exs)"

definition booked :: "(rat \<Rightarrow> rat \<Rightarrow> rat) \<Rightarrow> db \<Rightarrow> execution list \<Rightarrow> string \<Rightarrow> execution list" where
  "booked ndiv db exs a = filter (\<lambda>ex. x_account ex = a) (applied_of ndiv db exs)"

lemma apply_execution_cash:
  assumes "apply_execution ndiv db ex = Inr (db', out)"
    and "exact4 (cash_of db a)" "exact4 (cash_flow ex)"
  shows "cash_of db' a = cash_of db a + (if out = Applied \<and> x_account ex = a then cash_flow ex else 0)
    \<and> exact4 (cash_of db' a)"
  using assms(1)
proof (cases rule: apply_execution_cases)
  case (buy acc b ex' p)
  then have "exact4 (krw_balance acc - buy_cost ex)" if "x_account ex = a"
    using assms(2,3) exact4_add [of "krw_balance acc" "- buy_cost ex"] that
    by (simp add: cash_of_def cash_flow_def)
  then show ?thesis
    using buy assms(2,3) exact4_numeric [OF _ buy(7)]
    by (auto simp: cash_of_def cash_flow_def update_conv')
next
  case (sell acc b ex' p q)
  then have "exact4 (krw_balance acc + sell_proceeds ex)" if "x_account ex = a"
    using assms(2,3) that by (simp add: cash_of_def cash_flow_def)
  then show ?thesis
    using sell assms(2,3) exact4_numeric [OF _ sell(6)]
    by (auto simp: cash_of_def cash_flow_def update_conv')
qed (use assms(2) in \<open>simp_all add: cash_of_def\<close>)

lemma updater_run_cash:
  assumes "updater_run ndiv db exs = (db', rest)"
    and "exact4 (cash_of db a)" "list_all (\<lambda>ex. exact4 (cash_flow ex)) exs"
  shows "cash_of db' a =
    cash_of db a + sum_list (map cash_flow (filter (\<lambda>ex. x_account ex = a) (applied_of ndiv db exs)))"
  using assms
proof (induction exs arbitrary: db)
  case (Cons ex exs)
  show ?case
  proof (cases "apply_execution ndiv db ex")
    case (Inl e)
    with Cons.prems show ?thesis by (auto simp: updater_run_def)
  next
    case (Inr p)
    obtain t r where p: "p = (t, r)" by (cases p)
    have "exact4 (cash_flow ex)" using Cons.prems by simp
    note c = apply_execution_cash [OF Inr [unfolded p] Cons.prems(2) this]
    have "updater_run ndiv t exs = (db', rest)" using Inr p Cons.prems(1) by (simp add: updater_run_def)
    from Cons.IH [OF this conjunct2 [OF c]] Cons.prems(3) conjunct1 [OF c] show ?thesis
      using Inr p by simp
  qed
qed (simp add: updater_run_def)

text \<open>
  For any amounts, what the store changes: \<open>krw_balance\<close> is rounded to four decimals once per
  applied execution of the account, so each of them moves it at most half a unit of the fourth
  decimal away from the exact sum.
\<close>

lemma numeric_near: "numeric p s x = Inr y \<Longrightarrow> \<bar>y - x\<bar> \<le> 1 / (2 * 10 ^ s)"
proof -
  assume "numeric p s x = Inr y"
  then have y: "y * 10 ^ s = of_int (rhu (x * 10 ^ s))" by (simp add: numeric_Inr_iff)
  have "\<bar>(y - x) * 10 ^ s\<bar> \<le> 1 / 2"
    using rhu_bounds [of "x * 10 ^ s"] unfolding left_diff_distrib y by linarith
  then have "\<bar>y - x\<bar> * 10 ^ s \<le> 1 / 2" by (simp add: abs_mult)
  then show ?thesis by (simp add: field_simps)
qed

lemma apply_execution_drift:
  assumes "apply_execution ndiv db ex = Inr (db', out)"
  shows "\<bar>cash_of db' a - (cash_of db a + (if out = Applied \<and> x_account ex = a then cash_flow ex else 0))\<bar>
    \<le> (if out = Applied \<and> x_account ex = a then 1 / 20000 else 0)"
  using assms
proof (cases rule: apply_execution_cases)
  case (buy acc b ex' p)
  then show ?thesis using numeric_near [OF buy(7)]
    by (auto simp: cash_of_def cash_flow_def update_conv' diff_diff_eq)
next
  case (sell acc b ex' p q)
  then show ?thesis using numeric_near [OF sell(6)]
    by (auto simp: cash_of_def cash_flow_def update_conv')
qed (simp_all add: cash_of_def)

lemma updater_run_drift:
  assumes "updater_run ndiv db exs = (db', rest)"
  shows "\<bar>cash_of db' a - (cash_of db a
        + sum_list (map cash_flow (filter (\<lambda>ex. x_account ex = a) (applied_of ndiv db exs))))\<bar>
    \<le> of_nat (length (filter (\<lambda>ex. x_account ex = a) (applied_of ndiv db exs))) / 20000"
  using assms
proof (induction exs arbitrary: db)
  case (Cons ex exs)
  show ?case
  proof (cases "apply_execution ndiv db ex")
    case (Inl e)
    with Cons.prems show ?thesis by (auto simp: updater_run_def)
  next
    case (Inr p)
    obtain t r where p: "p = (t, r)" by (cases p)
    have "updater_run ndiv t exs = (db', rest)" using Inr p Cons.prems(1) by (simp add: updater_run_def)
    note ih = Cons.IH [OF this] and step = apply_execution_drift [OF Inr [unfolded p], of a]
    show ?thesis
    proof (cases "r = Applied \<and> x_account ex = a")
      case True
      define S n where "S = sum_list (map cash_flow (filter (\<lambda>ex. x_account ex = a) (applied_of ndiv t exs)))"
        and "n = (of_nat (length (filter (\<lambda>ex. x_account ex = a) (applied_of ndiv t exs))) :: rat)"
      have "\<bar>cash_of db' a - (cash_of db a + (cash_flow ex + S))\<bar> \<le> (1 + n) / 20000"
        using ih step True unfolding S_def [symmetric] n_def [symmetric] add_divide_distrib if_P [OF True]
        by linarith
      then show ?thesis using Inr p True by (simp add: S_def n_def)
    next
      case False
      then have "cash_of t a = cash_of db a" using step by auto
      then show ?thesis using ih Inr p False by auto
    qed
  qed
qed (simp add: updater_run_def)

text \<open>The table of executions grows by exactly the messages that were applied, in their order.\<close>

lemma fst_update_fresh: "map_of xs k = None \<Longrightarrow> map fst (AList.update k v xs) = map fst xs @ [k]"
  by (induction xs) (auto split: if_splits)

lemma updater_run_table:
  "updater_run ndiv db exs = (db', rest) \<Longrightarrow>
   map fst (executions db') = map fst (executions db) @ map x_id (applied_of ndiv db exs)"
proof (induction exs arbitrary: db)
  case (Cons ex exs)
  show ?case
  proof (cases "apply_execution ndiv db ex")
    case (Inl e)
    with Cons.prems show ?thesis by (auto simp: updater_run_def)
  next
    case (Inr p)
    obtain t r where p: "p = (t, r)" by (cases p)
    have "updater_run ndiv t exs = (db', rest)" using Inr p Cons.prems(1) by (simp add: updater_run_def)
    note ih = Cons.IH [OF this]
    from Inr [unfolded p] have "map fst (executions t) =
        map fst (executions db) @ (if r = Applied then [x_id ex] else [])"
      by (cases rule: apply_execution_cases) (auto simp: fst_update_fresh)
    with ih show ?thesis using Inr p by simp
  qed
qed (simp add: updater_run_def)

section \<open>Rejected messages\<close>

text \<open>
  \<open>covered\<close> is what \<open>apply_execution\<close> asks of the account before it books a message;
  \<open>storable\<close> that every value it writes fits its column and every row it refers to exists.
\<close>

definition covered :: "db \<Rightarrow> execution \<Rightarrow> bool" where
  "covered db ex =
     (if x_side ex = BUY
      then (case map_of (accounts db) (x_account ex) of
              None \<Rightarrow> False | Some r \<Rightarrow> buy_cost ex \<le> krw_balance r)
      else (case map_of (positions db) (x_account ex, x_symbol ex) of
              None \<Rightarrow> False | Some p \<Rightarrow> x_quantity ex \<le> p_quantity p))"

definition fits :: "nat \<Rightarrow> nat \<Rightarrow> rat \<Rightarrow> bool" where
  "fits p s x = (\<bar>of_int (rhu (x * 10 ^ s)) / 10 ^ s :: rat\<bar> < 10 ^ (p - s))"

definition at_scale :: "nat \<Rightarrow> rat \<Rightarrow> rat" where
  "at_scale s x = of_int (rhu (x * 10 ^ s)) / 10 ^ s"

definition storable :: "(rat \<Rightarrow> rat \<Rightarrow> rat) \<Rightarrow> db \<Rightarrow> execution \<Rightarrow> bool" where
  "storable ndiv db ex =
     (map_of (accounts db) (x_account ex) \<noteq> None \<and> map_of (orders db) (x_order ex) \<noteq> None \<and>
      fits 20 4 (x_price ex) \<and> fits 28 12 (x_quantity ex) \<and> fits 20 4 (x_fee ex) \<and>
      fits 20 4 (cash_of db (x_account ex) + cash_flow ex) \<and>
      0 \<le> cash_of db (x_account ex) + cash_flow ex \<and> 0 \<le> x_quantity ex \<and>
      (if x_side ex = BUY
       then (case ddiv (buy_cost ex) (x_quantity ex) of
               Inl e \<Rightarrow> False
             | Inr u \<Rightarrow> fits 20 4 u \<and>
                 (case map_of (positions db) (x_account ex, x_symbol ex) of
                    None \<Rightarrow> True
                  | Some p \<Rightarrow>
                      let q = p_quantity p + at_scale 12 (x_quantity ex)
                      in 0 < q \<and> fits 28 12 q \<and>
                         fits 20 4 (ndiv (p_quantity p * avg_buy_price p +
                                          at_scale 12 (x_quantity ex) * at_scale 4 u) q)))
       else (case map_of (positions db) (x_account ex, x_symbol ex) of
               None \<Rightarrow> True | Some p \<Rightarrow> fits 28 12 (p_quantity p - x_quantity ex))))"

lemma numeric_fits: "fits p s x \<Longrightarrow> numeric p s x = Inr (at_scale s x)"
  by (simp add: fits_def numeric_def at_scale_def Let_def)

lemma at_scale_nonneg [simp]: "0 \<le> x \<Longrightarrow> 0 \<le> at_scale s x"
  using rhu_mono [of 0 "x * 10 ^ s"] by (simp add: at_scale_def)

lemma covered_is_applied:
  assumes "map_of (executions db) (x_id ex) = None" "covered db ex" "storable ndiv db ex"
  shows "\<exists>db'. apply_execution ndiv db ex = Inr (db', Applied)
    \<and> map_option o_status (map_of (orders db') (x_order ex)) = Some FILLED"
proof (cases "x_side ex")
  case BUY
  with assms(2) obtain acc where a: "map_of (accounts db) (x_account ex) = Some acc"
      "\<not> krw_balance acc < buy_cost ex"
    by (auto simp: covered_def split: option.splits)
  from assms(3) BUY obtain u r where u: "ddiv (buy_cost ex) (x_quantity ex) = Inr u"
      and r: "map_of (orders db) (x_order ex) = Some r"
    by (auto simp: storable_def split: sum.splits)
  note st = assms(3) [unfolded storable_def, simplified BUY u a, simplified]
  show ?thesis
  proof (cases "map_of (positions db) (x_account ex, x_symbol ex)")
    case None
    then show ?thesis using st BUY a u r assms(1)
      by (simp add: apply_execution_def Let_def record_execution_def add_balance_def numeric_fits
          upsert_position_def checked_def cash_of_def cash_flow_def flip: buy_cost_def)
  next
    case (Some p)
    then show ?thesis using st BUY a u r assms(1)
      by (simp add: apply_execution_def Let_def record_execution_def add_balance_def numeric_fits
          upsert_position_def checked_def cash_of_def cash_flow_def flip: buy_cost_def)
  qed
next
  case SELL
  with assms(2) obtain p where p: "map_of (positions db) (x_account ex, x_symbol ex) = Some p"
      "\<not> p_quantity p < x_quantity ex"
    by (auto simp: covered_def split: option.splits)
  from assms(3) obtain acc r where a: "map_of (accounts db) (x_account ex) = Some acc"
      and r: "map_of (orders db) (x_order ex) = Some r"
    by (auto simp: storable_def)
  note st = assms(3) [unfolded storable_def, simplified SELL p a, simplified]
  show ?thesis using st SELL a r p assms(1)
    by (simp add: apply_execution_def Let_def record_execution_def add_balance_def numeric_fits
        reduce_position_def checked_def cash_of_def cash_flow_def flip: sell_proceeds_def)
qed

lemma rejected_leaves_no_trace:
  assumes "apply_execution ndiv db ex = Inr (db1, Rejected)"
  shows "db1 = db\<lparr>orders := orders db1\<rparr> \<and> map_of (executions db1) (x_id ex) = None \<and>
    map_of (orders db1) = (map_of (orders db))(x_order ex := map_option
      (\<lambda>r. if o_status r = PENDING then r\<lparr>o_status := REJECTED\<rparr> else r) (map_of (orders db) (x_order ex)))"
  using assms
proof (cases rule: apply_execution_cases)
  case rej
  have "set_status db i c s = db\<lparr>orders := orders (set_status db i c s)\<rparr>" for i c s
    by (simp add: set_status_def split: option.split)
  with rej show ?thesis by (auto simp: fun_eq_iff)
qed simp_all

lemma other_messages_keep_unrecorded:
  assumes "updater_run ndiv db exs = (db', rest)" "e \<notin> x_id ` set exs" "map_of (executions db) e = None"
  shows "map_of (executions db') e = None"
proof -
  have "set (applied_of ndiv db exs) \<subseteq> set exs"
    by (induction exs arbitrary: db) (fastforce split: sum.splits prod.splits)+
  then have "set (map fst (executions db')) \<subseteq> set (map fst (executions db)) \<union> x_id ` set exs"
    unfolding updater_run_table [OF assms(1)] by auto
  with assms(2,3) show ?thesis by (auto simp: map_of_eq_None_iff)
qed

section \<open>Properties\<close>

text \<open>C2: The updater keeps the ledger sound over any sequence of execution messages,
  whatever their prices, quantities, fees and order and wherever an error stops the loop: no
  balance and no position is ever negative, and every recorded execution belongs to a known
  account and to an order marked \<open>FILLED\<close>.\<close>

theorem updater_keeps_ledger_inv:
  assumes "ledger_inv db" "updater_run ndiv db exs = (db', rest)"
  shows "ledger_inv db'"
  using deliver_invariant [where P = ledger_inv] assms apply_execution_inv
  unfolding updater_run_def by blast

definition demo_db :: db where
  "demo_db = \<lparr>accounts = [(''demo'', \<lparr>krw_balance = 1000, auto_trade = True\<rparr>)], positions = [],
     orders = [(''o1'', \<lparr>o_account = ''demo'', o_symbol = ''KRW-BTC'', o_side = BUY, o_type = MARKET,
        o_price = None, o_quantity = 2, o_status = PENDING\<rparr>)],
     executions = [], outbox = []\<rparr>"

definition demo_ex :: execution where
  "demo_ex = \<lparr>x_id = ''e1'', x_order = ''o1'', x_account = ''demo'', x_symbol = ''KRW-BTC'',
     x_side = BUY, x_price = 100, x_quantity = 2, x_fee = 1 / 10\<rparr>"

lemma demo_inv: "ledger_inv demo_db"
  by (auto simp: ledger_inv_def demo_db_def)

lemma demo_apply:
  "apply_execution (/) demo_db demo_ex = Inr
     (demo_db\<lparr>accounts := [(''demo'', \<lparr>krw_balance = 7999 / 10, auto_trade = True\<rparr>)],
        positions := [((''demo'', ''KRW-BTC''), \<lparr>p_quantity = 2, avg_buy_price = 10005 / 100\<rparr>)],
        orders := [(''o1'', \<lparr>o_account = ''demo'', o_symbol = ''KRW-BTC'', o_side = BUY, o_type = MARKET,
          o_price = None, o_quantity = 2, o_status = FILLED\<rparr>)],
        executions := [(''e1'', demo_ex)]\<rparr>, Applied)"
  by (simp add: apply_execution_def demo_db_def demo_ex_def Let_def record_execution_def
      numeric_def rhu_def checked_def add_balance_def upsert_position_def set_status_def ddiv_def
      dadd_def dmul_def dec_lit)

theorem updater_keeps_ledger_inv_witness:
  "ledger_inv (fst (updater_run (/) demo_db [demo_ex, demo_ex]))"
  using updater_keeps_ledger_inv [OF demo_inv, of "(/)" "[demo_ex, demo_ex]"]
  by (metis prod.collapse)

text \<open>C4: Exactly-once effect of an applied execution: once a message was applied, delivering
  it again after any further messages answers \<open>duplicate\<close> and leaves the whole database as
  it is.\<close>

theorem applied_execution_is_idempotent:
  assumes "apply_execution ndiv db ex = Inr (db1, Applied)" "updater_run ndiv db1 exs = (db2, rest)"
  shows "apply_execution ndiv db2 ex = Inr (db2, Duplicate)"
  using updater.applied_then_duplicate [OF assms(1)] assms(2) unfolding updater_run_def by blast

theorem applied_execution_is_idempotent_witness:
  "\<exists>db1. apply_execution (/) demo_db demo_ex = Inr (db1, Applied)
     \<and> apply_execution (/) db1 demo_ex = Inr (db1, Duplicate)"
proof -
  obtain db1 where h: "apply_execution (/) demo_db demo_ex = Inr (db1, Applied)"
    using demo_apply by blast
  have "updater_run (/) db1 [] = (db1, [])" by (simp add: updater_run_def)
  from h applied_execution_is_idempotent [OF h this] show ?thesis by blast
qed

text \<open>At-least-once delivery is harmless for a batch without rejections: after the updater
  has consumed a batch, delivering any part of it again, in any order and any number of times,
  changes nothing and raises nothing.\<close>

lemma redelivered_batch_is_noop:
  assumes "updater_run ndiv db exs = (db', [])" "Rejected \<notin> set (outcomes (apply_execution ndiv) db exs)"
    and "set again \<subseteq> set exs"
  shows "updater_run ndiv db' again = (db', [])"
  using updater.redelivery_noop [OF _ assms(2) _ assms(3)] duplicate_recorded assms(1)
  unfolding updater_run_def by blast

text \<open>C3: The books balance, for any prices, quantities and fees: after any run of the updater
  the cash of an account is its cash before plus the cash flows of exactly the executions that
  were applied to it (minus \<open>price * qty + fee\<close> for a buy, plus \<open>price * qty - fee\<close> for a
  sale), up to the rounding of \<open>krw_balance\<close> to four decimals, at most half a unit of the fourth
  decimal (1/20000) for each applied execution of the account and nothing otherwise.  The sum is
  exact when the cash before and every cash flow have at most four decimals.  The applied
  executions are the ones the table of executions gained, so duplicates, rejections and errors
  move no money.\<close>

theorem updater_books_balance:
  assumes "updater_run ndiv db exs = (db', rest)"
  shows "\<bar>cash_of db' a - (cash_of db a + sum_list (map cash_flow (booked ndiv db exs a)))\<bar>
      \<le> of_nat (length (booked ndiv db exs a)) / 20000
    \<and> (exact4 (cash_of db a) \<and> list_all (\<lambda>ex. exact4 (cash_flow ex)) exs \<longrightarrow>
         cash_of db' a = cash_of db a + sum_list (map cash_flow (booked ndiv db exs a)))
    \<and> map fst (executions db') = map fst (executions db) @ map x_id (applied_of ndiv db exs)"
  unfolding booked_def
  using updater_run_drift [OF assms(1)] updater_run_cash [OF assms(1)] updater_run_table [OF assms(1)]
  by blast

text \<open>A buy of 0.12345678 coins at 81: the cash flow (-9.99999918) has eight decimals, the balance
  is booked at four of them.\<close>

definition eight_ex :: execution where
  "eight_ex = demo_ex\<lparr>x_id := ''e2'', x_price := 81, x_quantity := 12345678 / 100000000, x_fee := 0\<rparr>"

lemma eight_apply:
  "\<exists>db'. apply_execution (/) demo_db eight_ex = Inr (db', Applied)"
  by (simp add: apply_execution_def demo_db_def demo_ex_def eight_ex_def Let_def record_execution_def
      numeric_def rhu_def checked_def add_balance_def upsert_position_def set_status_def ddiv_def
      dadd_def dmul_def dec_lit)

theorem updater_books_balance_witness:
  "cash_of (fst (updater_run (/) demo_db [demo_ex, demo_ex])) ''demo'' = 7999 / 10
   \<and> \<bar>cash_of (fst (updater_run (/) demo_db [eight_ex])) ''demo'' - 99000000082 / 100000000\<bar> \<le> 1 / 20000"
proof
  have f: "cash_flow demo_ex = - 2001 / 10" "cash_flow eight_ex = - 999999918 / 100000000"
    by (simp_all add: cash_flow_def buy_cost_def demo_ex_def eight_ex_def dadd_def dmul_def dec_lit)
  have c: "cash_of demo_db ''demo'' = 1000" by (simp add: cash_of_def demo_db_def)
  have acc: "x_account demo_ex = ''demo''" "x_account eight_ex = ''demo''"
    by (simp_all add: demo_ex_def eight_ex_def)
  have e: "exact4 (1000 :: rat)" "exact4 (- 2001 / 10)" by (simp_all add: exact4_def)
  obtain db' rest where u: "updater_run (/) demo_db [demo_ex, demo_ex] = (db', rest)" by fastforce
  have "booked (/) demo_db [demo_ex, demo_ex] ''demo'' = [demo_ex]"
    using demo_apply acc by (simp add: booked_def apply_execution_def demo_ex_def)
  then show "cash_of (fst (updater_run (/) demo_db [demo_ex, demo_ex])) ''demo'' = 7999 / 10"
    using updater_books_balance [OF u, of "''demo''"] u e by (simp add: c f)
  obtain db2 rest2 where u2: "updater_run (/) demo_db [eight_ex] = (db2, rest2)" by fastforce
  have "booked (/) demo_db [eight_ex] ''demo'' = [eight_ex]"
    using eight_apply acc by (auto simp: booked_def)
  then show "\<bar>cash_of (fst (updater_run (/) demo_db [eight_ex])) ''demo'' - 99000000082 / 100000000\<bar> \<le> 1 / 20000"
    using conjunct1 [OF updater_books_balance [OF u2, of "''demo''"]] u2 by (simp add: c f)
qed

text \<open>C28: A rejection is not absorbed.  Whatever message is rejected, in whatever database: the
  message is not recorded, no balance, position, outbox row or other order changes, and its own
  order turns to \<open>REJECTED\<close> where it was pending.  Once other messages have been booked and the
  account covers the message (enough cash for a buy, enough of the position for a sale, the
  written values fitting their columns), the same message delivered again is applied, and its
  order ends as \<open>FILLED\<close>.\<close>

theorem rejected_message_can_fill_later:
  assumes "apply_execution ndiv db ex = Inr (db1, Rejected)"
  shows "db1 = db\<lparr>orders := orders db1\<rparr> \<and> map_of (executions db1) (x_id ex) = None
    \<and> map_of (orders db1) = (map_of (orders db))(x_order ex := map_option
        (\<lambda>r. if o_status r = PENDING then r\<lparr>o_status := REJECTED\<rparr> else r) (map_of (orders db) (x_order ex)))
    \<and> (\<forall>exs db2 rest. updater_run ndiv db1 exs = (db2, rest) \<and> x_id ex \<notin> x_id ` set exs
          \<and> covered db2 ex \<and> storable ndiv db2 ex \<longrightarrow>
         (\<exists>db3. apply_execution ndiv db2 ex = Inr (db3, Applied)
           \<and> map_option o_status (map_of (orders db3) (x_order ex)) = Some FILLED))"
proof (intro conjI allI impI)
  note r = rejected_leaves_no_trace [OF assms]
  show "db1 = db\<lparr>orders := orders db1\<rparr>" "map_of (executions db1) (x_id ex) = None"
    "map_of (orders db1) = (map_of (orders db))(x_order ex := map_option
      (\<lambda>r. if o_status r = PENDING then r\<lparr>o_status := REJECTED\<rparr> else r) (map_of (orders db) (x_order ex)))"
    using r by blast+
  fix exs db2 rest
  assume h: "updater_run ndiv db1 exs = (db2, rest) \<and> x_id ex \<notin> x_id ` set exs
    \<and> covered db2 ex \<and> storable ndiv db2 ex"
  then have "map_of (executions db2) (x_id ex) = None"
    using other_messages_keep_unrecorded r by blast
  with h show "\<exists>db3. apply_execution ndiv db2 ex = Inr (db3, Applied)
      \<and> map_option o_status (map_of (orders db3) (x_order ex)) = Some FILLED"
    using covered_is_applied by blast
qed

text \<open>A buy rejected for lack of cash, a sale of another coin booked, and the buy again.\<close>

definition poor_db :: db where
  "poor_db = \<lparr>accounts = [(''demo'', \<lparr>krw_balance = 100, auto_trade = True\<rparr>)],
     positions = [((''demo'', ''KRW-ETH''), \<lparr>p_quantity = 3, avg_buy_price = 50\<rparr>)],
     orders = [(''o1'', \<lparr>o_account = ''demo'', o_symbol = ''KRW-BTC'', o_side = BUY, o_type = MARKET,
        o_price = None, o_quantity = 2, o_status = PENDING\<rparr>),
       (''o2'', \<lparr>o_account = ''demo'', o_symbol = ''KRW-ETH'', o_side = SELL, o_type = MARKET,
        o_price = None, o_quantity = 3, o_status = PENDING\<rparr>)],
     executions = [], outbox = []\<rparr>"

definition eth_sale :: execution where
  "eth_sale = \<lparr>x_id = ''e3'', x_order = ''o2'', x_account = ''demo'', x_symbol = ''KRW-ETH'',
     x_side = SELL, x_price = 60, x_quantity = 3, x_fee = 1 / 10\<rparr>"

lemma poor_run:
  "apply_execution (/) poor_db demo_ex = Inr (poor_db\<lparr>orders := AList.update ''o1''
     (the (map_of (orders poor_db) ''o1'')\<lparr>o_status := REJECTED\<rparr>) (orders poor_db)\<rparr>, Rejected)"
  "case updater_run (/) (poor_db\<lparr>orders := AList.update ''o1''
      (the (map_of (orders poor_db) ''o1'')\<lparr>o_status := REJECTED\<rparr>) (orders poor_db)\<rparr>) [eth_sale] of
     (db2, rest) \<Rightarrow> rest = [] \<and> covered db2 demo_ex \<and> storable (/) db2 demo_ex"
  by (simp_all add: apply_execution_def poor_db_def demo_ex_def eth_sale_def Let_def record_execution_def
      numeric_def rhu_def checked_def add_balance_def reduce_position_def set_status_def ddiv_def reject_def
      dadd_def dmul_def dsub_def dec_lit updater_run_def covered_def storable_def fits_def at_scale_def
      cash_of_def cash_flow_def buy_cost_def)

theorem rejected_message_can_fill_later_witness:
  "\<exists>db1 db2 db3. apply_execution (/) poor_db demo_ex = Inr (db1, Rejected)
     \<and> updater_run (/) db1 [eth_sale] = (db2, []) \<and> apply_execution (/) db2 demo_ex = Inr (db3, Applied)
     \<and> map_option o_status (map_of (orders db3) (x_order demo_ex)) = Some FILLED"
proof -
  obtain db1 where r: "apply_execution (/) poor_db demo_ex = Inr (db1, Rejected)"
      and u: "case updater_run (/) db1 [eth_sale] of
        (db2, rest) \<Rightarrow> rest = [] \<and> covered db2 demo_ex \<and> storable (/) db2 demo_ex"
    by (rule that [OF poor_run])
  obtain db2 rest where d: "updater_run (/) db1 [eth_sale] = (db2, rest)" by fastforce
  have n: "x_id demo_ex \<notin> x_id ` set [eth_sale]" by (simp add: demo_ex_def eth_sale_def)
  have c: "rest = []" "covered db2 demo_ex" "storable (/) db2 demo_ex" using u d by simp_all
  note d' = d [unfolded c(1)]
  from rejected_message_can_fill_later [OF r] d' n c
  obtain db3 where "apply_execution (/) db2 demo_ex = Inr (db3, Applied)"
      "map_option o_status (map_of (orders db3) (x_order demo_ex)) = Some FILLED"
    by metis
  with r d' show ?thesis by metis
qed

end
