(* ===== verification/Matching.thy ===== *)
theory Matching
  imports Ledger "HOL-Library.Multiset"
begin

text \<open>
  The matching engine, \<open>trading/engine/matching.py\<close>: market and limit orders against the
  latest price of their symbol.  Its state is the three dictionaries of \<open>run\<close>; a handler
  returns the new state, the executions it produced and the exception that stopped it, if
  any, because what was produced before an exception is still flushed to Kafka.  \<open>uuid5\<close> is
  the argument \<open>eid\<close>, a function of the order id.
\<close>

record engine =
  latest_price :: "(string \<times> rat) list"
  pending :: "(string \<times> order_msg list) list"
  limit_orders :: "(string \<times> order_msg list) list"

datatype message = TickMsg string rat | OrderMsg order_msg

definition msg_of_row :: "string \<times> order_row \<Rightarrow> order_msg" where
  "msg_of_row = (\<lambda>(oid, r). \<lparr>m_order = oid, m_account = o_account r, m_symbol = o_symbol r,
     m_side = o_side r, m_type = o_type r, m_price = o_price r, m_quantity = o_quantity r\<rparr>)"

definition bucket_order :: "engine \<Rightarrow> order_msg \<Rightarrow> engine" where
  "bucket_order eng m =
     (if m_type m = MARKET then eng\<lparr>pending := append_at (m_symbol m) m (pending eng)\<rparr>
      else eng\<lparr>limit_orders := append_at (m_symbol m) m (limit_orders eng)\<rparr>)"

definition load_pending_orders :: "db \<Rightarrow> engine" where
  "load_pending_orders db =
     foldl bucket_order \<lparr>latest_price = [], pending = [], limit_orders = []\<rparr>
       (map msg_of_row (filter (\<lambda>(oid, r). o_status r = PENDING) (orders db)))"

text \<open>\<open>Decimal(str(None))\<close> raises \<open>InvalidOperation\<close>.\<close>

definition limit_fill_price :: "order_msg \<Rightarrow> rat \<Rightarrow> rat option res" where
  "limit_fill_price m market_price =
     (case m_price m of
        None \<Rightarrow> Inl InvalidOperation
      | Some limit \<Rightarrow>
          if m_side m = BUY \<and> market_price \<le> limit then Inr (Some market_price)
          else if m_side m = SELL \<and> limit \<le> market_price then Inr (Some market_price)
          else Inr None)"

definition execute :: "settings \<Rightarrow> (string \<Rightarrow> string) \<Rightarrow> order_msg \<Rightarrow> rat \<Rightarrow> execution res" where
  "execute c eid m price =
     rbind (fill_fee (FEE_RATE c) price (m_quantity m))
       (\<lambda>fee. Inr \<lparr>x_id = eid (m_order m), x_order = m_order m, x_account = m_account m,
                   x_symbol = m_symbol m, x_side = m_side m, x_price = price,
                   x_quantity = m_quantity m, x_fee = fee\<rparr>)"

fun fill_all ::
  "settings \<Rightarrow> (string \<Rightarrow> string) \<Rightarrow> rat \<Rightarrow> order_msg list \<Rightarrow> execution list \<times> exc option" where
  "fill_all c eid price [] = ([], None)"
| "fill_all c eid price (m # ms) =
     (case execute c eid m price of
        Inl e \<Rightarrow> ([], Some e)
      | Inr x \<Rightarrow> (case fill_all c eid price ms of (xs, r) \<Rightarrow> (x # xs, r)))"

text \<open>The scan of the limit orders of a symbol: the fills, the orders still waiting.\<close>

fun scan_limits ::
  "settings \<Rightarrow> (string \<Rightarrow> string) \<Rightarrow> rat \<Rightarrow> order_msg list \<Rightarrow>
   execution list \<times> order_msg list \<times> exc option" where
  "scan_limits c eid price [] = ([], [], None)"
| "scan_limits c eid price (m # ms) =
     (case limit_fill_price m price of
        Inl e \<Rightarrow> ([], [], Some e)
      | Inr None \<Rightarrow> (case scan_limits c eid price ms of (xs, ws, r) \<Rightarrow> (xs, m # ws, r))
      | Inr (Some fill) \<Rightarrow>
          (case execute c eid m fill of
             Inl e \<Rightarrow> ([], [], Some e)
           | Inr x \<Rightarrow> (case scan_limits c eid price ms of (xs, ws, r) \<Rightarrow> (x # xs, ws, r))))"

definition on_tick ::
  "settings \<Rightarrow> (string \<Rightarrow> string) \<Rightarrow> engine \<Rightarrow> string \<Rightarrow> rat \<Rightarrow> engine \<times> execution list \<times> exc option" where
  "on_tick c eid eng symbol price =
     (let eng1 = eng\<lparr>latest_price := AList.update symbol price (latest_price eng),
                     pending := AList.delete symbol (pending eng)\<rparr>
      in case fill_all c eid price (get_or (pending eng) symbol []) of
           (xs, Some e) \<Rightarrow> (eng1, xs, Some e)
         | (xs, None) \<Rightarrow>
             (case map_of (limit_orders eng) symbol of
                None \<Rightarrow> (eng1, xs, None)
              | Some ms \<Rightarrow>
                  (case scan_limits c eid price ms of
                     (ys, ws, Some e) \<Rightarrow> (eng1, xs @ ys, Some e)
                   | (ys, ws, None) \<Rightarrow>
                       (eng1\<lparr>limit_orders := AList.update symbol ws (limit_orders eng)\<rparr>, xs @ ys, None))))"

definition on_order ::
  "settings \<Rightarrow> (string \<Rightarrow> string) \<Rightarrow> engine \<Rightarrow> order_msg \<Rightarrow> engine \<times> execution list \<times> exc option" where
  "on_order c eid eng m =
     (let symbol = m_symbol m;
          now = (\<lambda>price. case execute c eid m price of
                   Inl e \<Rightarrow> (eng, [], Some e) | Inr x \<Rightarrow> (eng, [x], None))
      in if m_type m = MARKET then
           (case map_of (latest_price eng) symbol of
              Some price \<Rightarrow> now price
            | None \<Rightarrow> (eng\<lparr>pending := append_at symbol m (pending eng)\<rparr>, [], None))
         else if m_type m = LIMIT then
           (case (case map_of (latest_price eng) symbol of
                    None \<Rightarrow> Inr None | Some price \<Rightarrow> limit_fill_price m price) of
              Inl e \<Rightarrow> (eng, [], Some e)
            | Inr (Some fill) \<Rightarrow> now fill
            | Inr None \<Rightarrow> (eng\<lparr>limit_orders := append_at symbol m (limit_orders eng)\<rparr>, [], None))
         else (eng, [], None))"

fun on_message ::
  "settings \<Rightarrow> (string \<Rightarrow> string) \<Rightarrow> engine \<Rightarrow> message \<Rightarrow> engine \<times> execution list \<times> exc option" where
  "on_message c eid eng (TickMsg s p) = on_tick c eid eng s p"
| "on_message c eid eng (OrderMsg m) = on_order c eid eng m"

text \<open>The poll loop over the messages of both topics, until one raises.\<close>

fun engine_run ::
  "settings \<Rightarrow> (string \<Rightarrow> string) \<Rightarrow> engine \<Rightarrow> message list \<Rightarrow> engine \<times> execution list \<times> exc option" where
  "engine_run c eid eng [] = (eng, [], None)"
| "engine_run c eid eng (msg # msgs) =
     (case on_message c eid eng msg of
        (eng', xs, Some e) \<Rightarrow> (eng', xs, Some e)
      | (eng', xs, None) \<Rightarrow>
          (case engine_run c eid eng' msgs of (eng'', ys, r) \<Rightarrow> (eng'', xs @ ys, r)))"

section \<open>Executions carry their order\<close>

text \<open>\<open>x\<close> is a fill of \<open>m\<close> at the market price, a limit order no worse than its limit.\<close>

definition fills :: "(string \<Rightarrow> string) \<Rightarrow> order_msg \<Rightarrow> execution \<Rightarrow> bool" where
  "fills eid m x \<longleftrightarrow>
     x_id x = eid (m_order m) \<and> x_order x = m_order m \<and> x_account x = m_account m \<and>
     x_symbol x = m_symbol m \<and> x_side x = m_side m \<and> x_quantity x = m_quantity m \<and>
     (m_type m \<noteq> MARKET \<longrightarrow> (\<exists>limit. m_price m = Some limit \<and>
        (if m_side m = BUY then x_price x \<le> limit else limit \<le> x_price x)))"

lemma execute_InrD:
  "execute c eid m price = Inr x \<Longrightarrow>
    x_id x = eid (m_order m) \<and> x_order x = m_order m \<and> x_account x = m_account m \<and>
    x_symbol x = m_symbol m \<and> x_side x = m_side m \<and> x_quantity x = m_quantity m \<and>
    x_price x = price \<and> fill_fee (FEE_RATE c) price (m_quantity m) = Inr (x_fee x)"
  by (auto simp: execute_def)

lemma execute_market: "execute c eid m price = Inr x \<Longrightarrow> m_type m = MARKET \<Longrightarrow> fills eid m x"
  by (auto simp: fills_def dest: execute_InrD)

lemma limit_fill_priceD:
  assumes "limit_fill_price m price = Inr (Some fill)"
  shows "fill = price" "\<exists>limit. m_price m = Some limit \<and>
      (if m_side m = BUY then price \<le> limit else limit \<le> price)"
  using assms by (auto simp: limit_fill_price_def split: option.splits if_splits)

lemma limit_fill_price_better:
  assumes "limit_fill_price m price = Inr (Some fill)" "limit_fill_price m price' = Inr None"
  shows "if m_side m = BUY then price < price' else price' < price"
  using assms by (cases "m_side m") (auto simp: limit_fill_price_def split: option.splits if_splits)

lemma execute_limit:
  assumes "limit_fill_price m price = Inr (Some fill)" "execute c eid m fill = Inr x"
  shows "fills eid m x"
  using limit_fill_priceD [OF assms(1)] execute_InrD [OF assms(2)] by (auto simp: fills_def)

definition matched :: "(string \<Rightarrow> string) \<Rightarrow> order_msg list \<Rightarrow> execution list \<Rightarrow> bool" where
  "matched eid ms xs \<longleftrightarrow> list_all2 (fills eid) ms xs"

lemma fill_all_matched:
  assumes "fill_all c eid price ms = (xs, r)" "list_all (\<lambda>m. m_type m = MARKET) ms"
  shows "\<exists>done. matched eid done xs \<and> set done \<subseteq> set ms \<and> (r = None \<longrightarrow> done = ms)"
  using assms
proof (induction ms arbitrary: xs r)
  case Nil
  then show ?case by (auto simp: matched_def)
next
  case (Cons m ms)
  show ?case
  proof (cases "execute c eid m price")
    case (Inl e)
    with Cons.prems show ?thesis by (auto simp: matched_def intro: exI [of _ "[]"])
  next
    case (Inr x)
    obtain ys s where f: "fill_all c eid price ms = (ys, s)" by (cases "fill_all c eid price ms")
    with Inr Cons.prems have xs: "xs = x # ys" "r = s" by auto
    from Cons.prems have "list_all (\<lambda>m. m_type m = MARKET) ms" by simp
    from Cons.IH [OF f this] obtain d where "matched eid d ys" "set d \<subseteq> set ms" "s = None \<longrightarrow> d = ms"
      by blast
    then show ?thesis
      using xs execute_market [OF Inr] Cons.prems
      by (intro exI [of _ "m # d"]) (auto simp: matched_def)
  qed
qed

lemma scan_limits_matched:
  assumes "scan_limits c eid price ms = (xs, ws, r)"
  shows "\<exists>done. matched eid done xs \<and> set done \<subseteq> set ms \<and> set ws \<subseteq> set ms
    \<and> (r = None \<longrightarrow> mset ms = mset done + mset ws
         \<and> (\<forall>m \<in> set ws. limit_fill_price m price = Inr None))"
  using assms
proof (induction ms arbitrary: xs ws r)
  case Nil
  then show ?case by (auto simp: matched_def)
next
  case (Cons m ms)
  obtain ys us s where f: "scan_limits c eid price ms = (ys, us, s)"
    by (cases "scan_limits c eid price ms")
  from Cons.IH [OF f] obtain d where d: "matched eid d ys" "set d \<subseteq> set ms" "set us \<subseteq> set ms"
      "s = None \<longrightarrow> mset ms = mset d + mset us \<and> (\<forall>m \<in> set us. limit_fill_price m price = Inr None)"
    by blast
  consider (err) e where "limit_fill_price m price = Inl e"
    | (wait) "limit_fill_price m price = Inr None"
    | (fill) fill where "limit_fill_price m price = Inr (Some fill)"
    by (metis not_Some_eq sum.exhaust_sel)
  then show ?case
  proof cases
    case err
    with Cons.prems show ?thesis by (auto simp: matched_def intro: exI [of _ "[]"])
  next
    case wait
    with Cons.prems f d show ?thesis by (intro exI [of _ d]) auto
  next
    case (fill p)
    show ?thesis
    proof (cases "execute c eid m p")
      case (Inl e)
      with Cons.prems fill show ?thesis by (auto simp: matched_def intro: exI [of _ "[]"])
    next
      case (Inr x)
      with Cons.prems fill f d execute_limit [OF fill Inr] show ?thesis
        by (intro exI [of _ "m # d"]) (auto simp: matched_def)
    qed
  qed
qed

section \<open>The orders an engine holds\<close>

abbreviation bucketed :: "(string \<times> order_msg list) list \<Rightarrow> order_msg list" where
  "bucketed d \<equiv> concat (map snd d)"

definition waiting :: "engine \<Rightarrow> order_msg list" where
  "waiting eng = bucketed (pending eng) @ bucketed (limit_orders eng)"

fun orders_of :: "message \<Rightarrow> order_msg list" where
  "orders_of (TickMsg s p) = []"
| "orders_of (OrderMsg m) = (if m_type m = MARKET \<or> m_type m = LIMIT then [m] else [])"

lemma mset_bucketed_update:
  "mset (bucketed (AList.update k v d)) + mset (get_or d k []) = mset v + mset (bucketed d)"
  by (induction d) (auto simp: get_or_def)

lemma mset_bucketed_append_at:
  "mset (bucketed (append_at k m d)) = add_mset m (mset (bucketed d))"
  using mset_bucketed_update [of k "get_or d k [] @ [m]" d] by (simp add: append_at_def)

lemma mset_bucketed_delete:
  "distinct (keys_of d) \<Longrightarrow>
    mset (bucketed (AList.delete k d)) + mset (get_or d k []) = mset (bucketed d)"
proof (induction d)
  case (Cons p d)
  obtain a b where p: "p = (a, b)" by (cases p)
  have "AList.delete a d = d" if "a = k" using Cons.prems p by (simp add: delete_id)
  with Cons p show ?case by (auto simp: get_or_def)
qed simp

text \<open>
  The invariant of the loop: the market orders in a bucket are for its symbol and the symbol
  has had no tick; the limit orders in a bucket cannot be filled at the latest price.
\<close>

definition engine_inv :: "engine \<Rightarrow> bool" where
  "engine_inv eng \<longleftrightarrow>
     distinct (keys_of (pending eng)) \<and>
     (\<forall>s. \<forall>m \<in> set (get_or (pending eng) s []).
        m_symbol m = s \<and> m_type m = MARKET \<and> map_of (latest_price eng) s = None) \<and>
     (\<forall>s. \<forall>m \<in> set (get_or (limit_orders eng) s []).
        m_symbol m = s \<and> m_type m \<noteq> MARKET \<and>
        (\<forall>p. map_of (latest_price eng) s = Some p \<longrightarrow> limit_fill_price m p = Inr None))"

lemma distinct_append_at [simp]: "distinct (keys_of (append_at k v d)) = distinct (keys_of d)"
  by (simp add: append_at_def)

lemma bucket_order_inv:
  "engine_inv eng \<Longrightarrow> latest_price eng = [] \<Longrightarrow>
   engine_inv (bucket_order eng m) \<and> latest_price (bucket_order eng m) = []"
  by (auto simp: engine_inv_def bucket_order_def)

lemma load_pending_inv: "engine_inv (load_pending_orders db)"
proof -
  have "engine_inv (foldl bucket_order eng ms)" if "engine_inv eng" "latest_price eng = []" for eng ms
    using that by (induction ms arbitrary: eng) (auto dest: bucket_order_inv)
  moreover have "engine_inv \<lparr>latest_price = [], pending = [], limit_orders = []\<rparr>"
    by (simp add: engine_inv_def)
  ultimately show ?thesis by (simp add: load_pending_orders_def)
qed

lemma load_pending_waiting:
  "mset (waiting (load_pending_orders db)) =
     mset (map msg_of_row (filter (\<lambda>(oid, r). o_status r = PENDING) (orders db)))"
proof -
  have "mset (waiting (foldl bucket_order eng ms)) = mset (waiting eng) + mset ms" for eng ms
    by (induction ms arbitrary: eng)
       (auto simp: bucket_order_def waiting_def mset_bucketed_append_at)
  then show ?thesis by (simp add: load_pending_orders_def waiting_def)
qed

lemma on_tick_ok:
  assumes inv: "engine_inv eng" and t: "on_tick c eid eng symbol price = (eng', xs, None)"
  shows "engine_inv eng' \<and> (\<exists>done. matched eid done xs \<and> mset (waiting eng) = mset done + mset (waiting eng'))"
proof -
  let ?ms = "get_or (pending eng) symbol []"
  obtain ys where f: "fill_all c eid price ?ms = (ys, None)"
    using t by (auto simp: on_tick_def Let_def split: prod.splits option.splits)
  have mk: "list_all (\<lambda>m. m_type m = MARKET) ?ms" using inv by (auto simp: engine_inv_def list_all_iff)
  from fill_all_matched [OF f mk] have a: "matched eid ?ms ys" by auto
  have p: "mset (bucketed (AList.delete symbol (pending eng))) + mset ?ms = mset (bucketed (pending eng))"
    using inv by (intro mset_bucketed_delete) (simp add: engine_inv_def)
  show ?thesis
  proof (cases "map_of (limit_orders eng) symbol")
    case None
    with t f have e: "xs = ys" "eng' = eng\<lparr>latest_price := AList.update symbol price (latest_price eng),
        pending := AList.delete symbol (pending eng)\<rparr>" by (auto simp: on_tick_def Let_def)
    have "engine_inv eng'"
      using inv None e by (auto simp: engine_inv_def update_conv' get_or_def delete_conv' split: if_splits)
    moreover have "mset (waiting eng) = mset ?ms + mset (waiting eng')"
      using p e by (auto simp: waiting_def ac_simps)
    ultimately show ?thesis using a e by blast
  next
    case (Some ms)
    with t f obtain zs ws where s: "scan_limits c eid price ms = (zs, ws, None)" and
      e: "xs = ys @ zs" "eng' = eng\<lparr>latest_price := AList.update symbol price (latest_price eng),
        pending := AList.delete symbol (pending eng),
        limit_orders := AList.update symbol ws (limit_orders eng)\<rparr>"
      by (auto simp: on_tick_def Let_def split: prod.splits option.splits)
    from scan_limits_matched [OF s] obtain d where d: "matched eid d zs" "set ws \<subseteq> set ms"
        "mset ms = mset d + mset ws" "\<forall>m \<in> set ws. limit_fill_price m price = Inr None" by blast
    have l: "get_or (limit_orders eng) symbol [] = ms" using Some by (simp add: get_or_def)
    with mset_bucketed_update [of symbol ws "limit_orders eng"] d(3)
    have "mset (bucketed (AList.update symbol ws (limit_orders eng))) + mset d = mset (bucketed (limit_orders eng))"
      by simp
    then have "mset (waiting eng) = mset (?ms @ d) + mset (waiting eng')"
      using p e by (simp add: waiting_def flip: p) (simp add: ac_simps)
    moreover have "matched eid (?ms @ d) xs"
      using a d e by (auto simp: matched_def intro: list_all2_appendI)
    moreover have "\<forall>m \<in> set ws. m_symbol m = symbol \<and> m_type m \<noteq> MARKET"
      using inv d(2) l by (auto simp: engine_inv_def)
    then have "engine_inv eng'"
      using inv d(4) e(2) by (simp add: engine_inv_def update_conv')
    ultimately show ?thesis by blast
  qed
qed

lemma on_order_ok:
  assumes inv: "engine_inv eng" and t: "on_order c eid eng m = (eng', xs, None)"
  shows "engine_inv eng' \<and> (\<exists>done. matched eid done xs \<and>
    mset (waiting eng) + mset (orders_of (OrderMsg m)) = mset done + mset (waiting eng'))"
proof -
  consider (other) "m_type m \<noteq> MARKET" "m_type m \<noteq> LIMIT" "eng' = eng" "xs = []"
    | (fillm) p x where "m_type m = MARKET" "execute c eid m p = Inr x" "eng' = eng" "xs = [x]"
    | (filll) p x fill where "m_type m = LIMIT" "limit_fill_price m p = Inr (Some fill)"
        "execute c eid m fill = Inr x" "eng' = eng" "xs = [x]"
    | (waitm) "m_type m = MARKET" "map_of (latest_price eng) (m_symbol m) = None"
        "eng' = eng\<lparr>pending := append_at (m_symbol m) m (pending eng)\<rparr>" "xs = []"
    | (waitl) "m_type m = LIMIT"
        "\<forall>p. map_of (latest_price eng) (m_symbol m) = Some p \<longrightarrow> limit_fill_price m p = Inr None"
        "eng' = eng\<lparr>limit_orders := append_at (m_symbol m) m (limit_orders eng)\<rparr>" "xs = []"
    using t by (auto simp: on_order_def Let_def split: option.splits sum.splits if_splits)
  then show ?thesis
  proof cases
    case other
    then show ?thesis using inv by (auto simp: matched_def)
  next
    case fillm
    then have "matched eid [m] xs" using execute_market by (auto simp: matched_def)
    with fillm inv show ?thesis by (intro conjI exI [of _ "[m]"]) auto
  next
    case filll
    then have "matched eid [m] xs" using execute_limit by (auto simp: matched_def)
    with filll inv show ?thesis by (intro conjI exI [of _ "[m]"]) auto
  next
    case waitm
    then show ?thesis using inv
      by (intro conjI exI [of _ "[]"])
         (auto simp: engine_inv_def waiting_def mset_bucketed_append_at matched_def)
  next
    case waitl
    then show ?thesis using inv
      by (intro conjI exI [of _ "[]"])
         (auto simp: engine_inv_def waiting_def mset_bucketed_append_at matched_def)
  qed
qed

lemma on_message_ok:
  assumes "engine_inv eng" "on_message c eid eng msg = (eng', xs, None)"
  shows "engine_inv eng' \<and> (\<exists>done. matched eid done xs \<and>
    mset (waiting eng) + mset (orders_of msg) = mset done + mset (waiting eng'))"
proof (cases msg)
  case (TickMsg s p)
  with assms(2) have "on_tick c eid eng s p = (eng', xs, None)" by simp
  from on_tick_ok [OF assms(1) this] show ?thesis using TickMsg by simp
next
  case (OrderMsg m)
  with assms(2) have "on_order c eid eng m = (eng', xs, None)" by simp
  from on_order_ok [OF assms(1) this] show ?thesis using OrderMsg by simp
qed

lemma engine_run_ok:
  assumes "engine_inv eng" "engine_run c eid eng msgs = (eng', xs, None)"
  shows "engine_inv eng' \<and> (\<exists>done. matched eid done xs \<and>
    mset (waiting eng) + mset (concat (map orders_of msgs)) = mset done + mset (waiting eng'))"
  using assms
proof (induction msgs arbitrary: eng xs)
  case Nil
  then show ?case by (auto simp: matched_def)
next
  case (Cons msg msgs)
  from Cons.prems(2) obtain eng1 ys zs where m: "on_message c eid eng msg = (eng1, ys, None)"
      "engine_run c eid eng1 msgs = (eng', zs, None)" "xs = ys @ zs"
    by (auto split: prod.splits option.splits)
  from on_message_ok [OF Cons.prems(1) m(1)] obtain d where d: "engine_inv eng1" "matched eid d ys"
      "mset (waiting eng) + mset (orders_of msg) = mset d + mset (waiting eng1)" by blast
  from Cons.IH [OF d(1) m(2)] obtain d' where d': "engine_inv eng'" "matched eid d' zs"
      "mset (waiting eng1) + mset (concat (map orders_of msgs)) = mset d' + mset (waiting eng')" by blast
  have "mset (waiting eng) + mset (concat (map orders_of (msg # msgs))) = mset (d @ d') + mset (waiting eng')"
    using d(3) d'(3) by simp (metis add.assoc)
  moreover have "matched eid (d @ d') xs"
    using d(2) d'(2) m(3) by (auto simp: matched_def intro: list_all2_appendI)
  ultimately show ?case using d'(1) by blast
qed

text \<open>Whatever a handler produces, also before an exception, fills an order it was given.\<close>

definition engine_from :: "order_msg set \<Rightarrow> engine \<Rightarrow> bool" where
  "engine_from M eng \<longleftrightarrow>
     (\<forall>s. \<forall>m \<in> set (get_or (pending eng) s []). m \<in> M \<and> m_type m = MARKET) \<and>
     (\<forall>s. \<forall>m \<in> set (get_or (limit_orders eng) s []). m \<in> M)"

lemma matched_fills: "matched eid ms xs \<Longrightarrow> x \<in> set xs \<Longrightarrow> \<exists>m \<in> set ms. fills eid m x"
  unfolding matched_def by (induction ms xs rule: list_all2_induct) auto

lemma on_tick_from:
  assumes f: "engine_from M eng" and t: "on_tick c eid eng symbol price = (eng', xs, r)"
  shows "engine_from M eng' \<and> (\<forall>x \<in> set xs. \<exists>m \<in> M. fills eid m x)"
proof -
  let ?ms = "get_or (pending eng) symbol []" and ?ls = "get_or (limit_orders eng) symbol []"
  obtain ys q where a: "fill_all c eid price ?ms = (ys, q)" by fastforce
  have mk: "list_all (\<lambda>m. m_type m = MARKET) ?ms" "set ?ms \<subseteq> M" "set ?ls \<subseteq> M"
    using f by (auto simp: engine_from_def list_all_iff)
  from fill_all_matched [OF a mk(1)] mk(2) matched_fills have
    y: "\<forall>x \<in> set ys. \<exists>m \<in> M. fills eid m x" by blast
  obtain zs ws q' where b: "scan_limits c eid price ?ls = (zs, ws, q')" by (metis prod_cases3)
  from scan_limits_matched [OF b] mk(3) matched_fills have
    z: "\<forall>x \<in> set zs. \<exists>m \<in> M. fills eid m x" and w: "set ws \<subseteq> M" by blast+
  have "xs = ys \<or> xs = ys @ zs" "latest_price eng' = AList.update symbol price (latest_price eng)"
    "pending eng' = AList.delete symbol (pending eng)"
    "limit_orders eng' = limit_orders eng \<or> limit_orders eng' = AList.update symbol ws (limit_orders eng)"
    using t a b by (auto simp: on_tick_def Let_def get_or_def split: prod.splits option.splits)
  then show ?thesis using y z w f unfolding engine_from_def by (auto split: if_splits)
qed

lemma on_order_from:
  assumes f: "engine_from M eng" and m: "m \<in> M" and t: "on_order c eid eng m = (eng', xs, r)"
  shows "engine_from M eng' \<and> (\<forall>x \<in> set xs. \<exists>m \<in> M. fills eid m x)"
proof -
  have "xs = [] \<or> (\<exists>x. xs = [x] \<and> fills eid m x)"
    using t execute_market execute_limit
    by (auto simp: on_order_def Let_def split: option.splits sum.splits if_splits)
  moreover have "eng' = eng \<or>
      m_type m = MARKET \<and> eng' = eng\<lparr>pending := append_at (m_symbol m) m (pending eng)\<rparr> \<or>
      eng' = eng\<lparr>limit_orders := append_at (m_symbol m) m (limit_orders eng)\<rparr>"
    using t by (auto simp: on_order_def Let_def split: option.splits sum.splits if_splits)
  ultimately show ?thesis using f m by (auto simp: engine_from_def split: if_splits)
qed

lemma load_pending_from:
  assumes "\<And>oid r. (oid, r) \<in> set (orders db) \<Longrightarrow> msg_of_row (oid, r) \<in> M"
  shows "engine_from M (load_pending_orders db)"
proof -
  have "engine_from M (foldl bucket_order eng ms)" if "engine_from M eng" "set ms \<subseteq> M" for eng ms
    using that
  proof (induction ms arbitrary: eng)
    case (Cons m ms)
    from Cons.prems have "engine_from M (bucket_order eng m)"
      by (auto simp: engine_from_def bucket_order_def split: if_splits)
    with Cons.IH Cons.prems(2) show ?case by simp
  qed simp
  moreover have "engine_from M \<lparr>latest_price = [], pending = [], limit_orders = []\<rparr>"
    by (simp add: engine_from_def)
  moreover have "set (map msg_of_row (filter (\<lambda>(oid, r). o_status r = PENDING) (orders db))) \<subseteq> M"
    using assms by auto
  ultimately show ?thesis by (simp add: load_pending_orders_def)
qed

section \<open>Properties\<close>

text \<open>C15: The engine neither loses nor duplicates an order: over any messages handled without an
  exception from a restart, the reloaded pending orders and the market and limit orders received
  are exactly the orders filled (each by its own execution: same order, account, symbol, side and
  quantity, a limit order at no worse than its limit) and the orders still waiting.\<close>

theorem engine_conserves_orders:
  assumes "engine_run c eid (load_pending_orders db) msgs = (eng', xs, None)"
  shows "\<exists>done. list_all2 (fills eid) done xs \<and>
    mset (map msg_of_row (filter (\<lambda>(oid, r). o_status r = PENDING) (orders db)))
      + mset (concat (map orders_of msgs)) = mset done + mset (waiting eng')"
  using engine_run_ok [OF load_pending_inv assms] by (simp add: load_pending_waiting matched_def)

definition demo_order :: order_msg where
  "demo_order = \<lparr>m_order = ''o7'', m_account = ''demo'', m_symbol = ''KRW-BTC'', m_side = BUY,
     m_type = LIMIT, m_price = Some 100, m_quantity = 2\<rparr>"

definition demo_msgs :: "message list" where
  "demo_msgs = [OrderMsg demo_order, TickMsg ''KRW-BTC'' 101, TickMsg ''KRW-BTC'' 99]"

lemma demo_run:
  "engine_run default_settings id (load_pending_orders demo_db) demo_msgs =
     (\<lparr>latest_price = [(''KRW-BTC'', 99)], pending = [], limit_orders = [(''KRW-BTC'', [])]\<rparr>,
      [\<lparr>x_id = ''o1'', x_order = ''o1'', x_account = ''demo'', x_symbol = ''KRW-BTC'', x_side = BUY,
        x_price = 101, x_quantity = 2, x_fee = 101 / 1000\<rparr>,
       \<lparr>x_id = ''o7'', x_order = ''o7'', x_account = ''demo'', x_symbol = ''KRW-BTC'', x_side = BUY,
        x_price = 99, x_quantity = 2, x_fee = 99 / 1000\<rparr>], None)"
  by (simp add: load_pending_orders_def demo_db_def demo_msgs_def demo_order_def bucket_order_def
      msg_of_row_def append_at_def on_order_def on_tick_def Let_def get_or_def execute_def
      limit_fill_price_def fill_fee_def quantize_def dmul_def dec_lit rhe_def)

theorem engine_conserves_orders_witness:
  "\<exists>done. list_all2 (fills id) done
      (fst (snd (engine_run default_settings id (load_pending_orders demo_db) demo_msgs)))
     \<and> length done = 2"
  using engine_conserves_orders [OF demo_run] list_all2_lengthD unfolding demo_run by fastforce

text \<open>No waiting order could be filled: after any messages handled without an exception, no
  market order waits for a symbol that has had a tick, and every waiting limit order has a limit
  that the latest price of its symbol does not meet (below it for a buy, above it for a sale).\<close>

lemma no_waiting_order_is_fillable:
  assumes "engine_run c eid (load_pending_orders db) msgs = (eng', xs, None)"
    and "map_of (latest_price eng') symbol = Some price"
  shows "get_or (pending eng') symbol [] = [] \<and>
    list_all (\<lambda>m. \<exists>limit. m_price m = Some limit \<and> (if m_side m = BUY then limit < price else price < limit))
      (get_or (limit_orders eng') symbol [])"
proof -
  have i: "engine_inv eng'" using engine_run_ok [OF load_pending_inv assms(1)] by simp
  then have "\<forall>m \<in> set (get_or (pending eng') symbol []). map_of (latest_price eng') symbol = None"
    by (simp add: engine_inv_def)
  then have e: "get_or (pending eng') symbol [] = []" using assms(2) by simp
  have lf: "limit_fill_price m price = Inr None \<Longrightarrow>
      \<exists>limit. m_price m = Some limit \<and> (if m_side m = BUY then limit < price else price < limit)" for m
    by (cases "m_side m") (auto simp: limit_fill_price_def split: option.splits if_splits)
  have "\<forall>m \<in> set (get_or (limit_orders eng') symbol []). limit_fill_price m price = Inr None"
    using i assms(2) by (simp add: engine_inv_def)
  with e lf show ?thesis unfolding list_all_iff by blast
qed

end
