(* ===== verification/Pipeline.thy ===== *)
theory Pipeline
  imports Matching
begin

text \<open>
  The order pipeline: an order and its outbox record are committed together
  (\<open>common/order_writer.py\<close>), the relay publishes the outbox
  (\<open>trading/relay/order_relay.py\<close>), the engine turns orders into executions
  (\<open>trading/engine/matching.py\<close>) and the updater books them
  (\<open>trading/portfolio/updater.py\<close>).  The processes meet only in PostgreSQL and in two Kafka
  topics, each crashes and restarts on its own and commits its offsets late, so any published
  message may be consumed any number of times and, across partitions, in any order.
\<close>

record system =
  store :: db
  orders_topic :: "order_msg list"
  execs_topic :: "execution list"
  matcher :: engine

definition relay_batch :: "db \<Rightarrow> outbox_row list" where
  "relay_batch db = take 100 (sort_key b_id (filter (\<lambda>b. \<not> b_published b) (outbox db)))"

definition mark_published :: "db \<Rightarrow> nat list \<Rightarrow> db" where
  "mark_published db ids =
     db\<lparr>outbox := map (\<lambda>b. if b_id b \<in> set ids then b\<lparr>b_published := True\<rparr> else b) (outbox db)\<rparr>"

text \<open>One round of the relay: produce the batch, flush, mark it published, commit.\<close>

definition relay_round :: "db \<Rightarrow> order_msg list \<times> db" where
  "relay_round db =
     (let rows = relay_batch db
      in if rows = [] then ([], db)
         else (map b_payload rows, mark_published db (map b_id rows)))"

text \<open>The steps of the processes and their failures.\<close>

inductive step :: "settings \<Rightarrow> (rat \<Rightarrow> rat \<Rightarrow> rat) \<Rightarrow> (string \<Rightarrow> string) \<Rightarrow> system \<Rightarrow> system \<Rightarrow> bool"
  for c ndiv eid where
  place: "place_order (store s) oid acct sm side ty q p = Inr (db', oid') \<Longrightarrow>
     step c ndiv eid s (s\<lparr>store := db'\<rparr>)"
| relay: "relay_round (store s) = (ms, db') \<Longrightarrow>
     step c ndiv eid s (s\<lparr>store := db', orders_topic := orders_topic s @ ms\<rparr>)"
| relay_crash: "relay_round (store s) = (ms, db') \<Longrightarrow>
     step c ndiv eid s (s\<lparr>orders_topic := orders_topic s @ take k ms\<rparr>)"
| engine_tick: "on_message c eid (matcher s) (TickMsg sm p) = (eng', xs, None) \<Longrightarrow>
     step c ndiv eid s (s\<lparr>matcher := eng', execs_topic := execs_topic s @ xs\<rparr>)"
| engine_order: "m \<in> set (orders_topic s) \<Longrightarrow>
     on_message c eid (matcher s) (OrderMsg m) = (eng', xs, None) \<Longrightarrow>
     step c ndiv eid s (s\<lparr>matcher := eng', execs_topic := execs_topic s @ xs\<rparr>)"
| engine_crash_tick: "on_message c eid (matcher s) (TickMsg sm p) = (eng', xs, r) \<Longrightarrow>
     step c ndiv eid s (s\<lparr>matcher := load_pending_orders (store s), execs_topic := execs_topic s @ take k xs\<rparr>)"
| engine_crash_order: "m \<in> set (orders_topic s) \<Longrightarrow>
     on_message c eid (matcher s) (OrderMsg m) = (eng', xs, r) \<Longrightarrow>
     step c ndiv eid s (s\<lparr>matcher := load_pending_orders (store s), execs_topic := execs_topic s @ take k xs\<rparr>)"
| update: "x \<in> set (execs_topic s) \<Longrightarrow> apply_execution ndiv (store s) x = Inr (db', out) \<Longrightarrow>
     step c ndiv eid s (s\<lparr>store := db'\<rparr>)"

inductive reachable ::
  "settings \<Rightarrow> (rat \<Rightarrow> rat \<Rightarrow> rat) \<Rightarrow> (string \<Rightarrow> string) \<Rightarrow> system \<Rightarrow> system \<Rightarrow> bool"
  for c ndiv eid s0 where
  start: "reachable c ndiv eid s0 s0"
| next_step: "reachable c ndiv eid s0 s \<Longrightarrow> step c ndiv eid s t \<Longrightarrow> reachable c ndiv eid s0 t"

text \<open>A system before its first order: accounts only.\<close>

definition fresh :: "system \<Rightarrow> bool" where
  "fresh s \<longleftrightarrow> orders (store s) = [] \<and> executions (store s) = [] \<and> outbox (store s) = [] \<and>
     orders_topic s = [] \<and> execs_topic s = [] \<and> matcher s = load_pending_orders (store s) \<and>
     ledger_inv (store s)"

section \<open>Rows and messages agree\<close>

lemma numeric_idem: "numeric p s x = Inr y \<Longrightarrow> numeric p s y = Inr y"
  by (auto simp: numeric_Inr_iff)

lemma numeric_mono: "x \<le> y \<Longrightarrow> numeric p s x = Inr x' \<Longrightarrow> numeric p s y = Inr y' \<Longrightarrow> x' \<le> y'"
  using rhu_mono [of "x * 10 ^ s" "y * 10 ^ s"]
  by (simp add: numeric_Inr_iff divide_right_mono)

text \<open>The message \<open>m\<close> is the order of the row \<open>r\<close>; the row holds rounded amounts.\<close>

definition row_of :: "order_row \<Rightarrow> order_msg \<Rightarrow> bool" where
  "row_of r m \<longleftrightarrow>
     o_account r = m_account m \<and> o_symbol r = m_symbol m \<and> o_side r = m_side m \<and>
     o_type r = m_type m \<and> numeric 28 12 (m_quantity m) = Inr (o_quantity r) \<and>
     (case m_price m of None \<Rightarrow> o_price r = None
      | Some p \<Rightarrow> (\<exists>p'. o_price r = Some p' \<and> numeric 20 4 p = Inr p'))"

definition placed :: "db \<Rightarrow> order_msg set" where
  "placed db = {m. \<exists>r. map_of (orders db) (m_order m) = Some r \<and> row_of r m}"

lemma row_of_status [simp]: "row_of (r\<lparr>o_status := st\<rparr>) m = row_of r m"
  by (simp add: row_of_def split: option.split)

lemma row_of_reload:
  assumes "row_of r m" shows "row_of r (msg_of_row (oid, r))"
  using assms numeric_idem by (auto simp: row_of_def msg_of_row_def split: option.splits)

lemma placed_set_status: "placed (set_status db oid cond st) = placed db"
proof -
  have "(\<exists>r. map_of (orders (set_status db oid cond st)) i = Some r \<and> row_of r m)
      \<longleftrightarrow> (\<exists>r. map_of (orders db) i = Some r \<and> row_of r m)" for i m
    by (cases "map_of (orders db) oid") auto
  then show ?thesis unfolding placed_def by blast
qed

lemma placed_cong: "orders db' = orders db \<Longrightarrow> placed db' = placed db"
  by (simp add: placed_def)

lemma place_order_InrD:
  assumes "place_order db oid acct sm side ty q p = Inr (db', oid')"
  obtains r pay i where "orders db' = AList.update oid r (orders db)" "map_of (orders db) oid = None"
    "row_of r pay" "m_order pay = oid" "o_status r = PENDING"
    "outbox db' = outbox db @ [\<lparr>b_id = i, b_order = oid, b_symbol = sm, b_payload = pay, b_published = False\<rparr>]"
    "executions db' = executions db" "accounts db' = accounts db" "positions db' = positions db"
proof -
  let ?m = "\<lparr>m_order = oid, m_account = acct, m_symbol = sm, m_side = side, m_type = ty,
     m_price = p, m_quantity = q\<rparr>"
  let ?r = "\<lambda>p' q'. \<lparr>o_account = acct, o_symbol = sm, o_side = side, o_type = ty, o_price = p',
     o_quantity = q', o_status = PENDING\<rparr>"
  from assms obtain p' q' where n: "numeric 28 12 q = Inr q'"
      "(case p of None \<Rightarrow> Inr None | Some p \<Rightarrow> rbind (numeric 20 4 p) (\<lambda>p'. Inr (Some p'))) = Inr p'"
      "map_of (orders db) oid = None"
    and d: "db' = (db\<lparr>orders := AList.update oid (?r p' q') (orders db)\<rparr>)\<lparr>outbox := outbox db @
        [\<lparr>b_id = Suc (fold max (map b_id (outbox db)) 0), b_order = oid, b_symbol = sm,
          b_payload = ?m, b_published = False\<rparr>]\<rparr>"
    by (auto simp: place_order_def insert_order_def)
  have "row_of (?r p' q') ?m" using n by (auto simp: row_of_def split: option.splits)
  with n d show thesis by (intro that [of "?r p' q'" ?m]) simp_all
qed

lemma place_order_placed:
  "place_order db oid acct sm side ty q p = Inr (db', oid') \<Longrightarrow> placed db \<subseteq> placed db'"
  by (erule place_order_InrD) (auto simp: placed_def update_conv')

lemma apply_execution_placed:
  assumes "apply_execution ndiv db x = Inr (db', out)"
  shows "placed db' = placed db" "outbox db' = outbox db"
    "keys_of (orders db') = keys_of (orders db)"
  subgoal using assms
    by (cases rule: apply_execution_cases) (simp_all add: placed_set_status, simp_all add: placed_def)
  subgoal using assms by (cases rule: apply_execution_cases) auto
  subgoal using assms by (cases rule: apply_execution_cases) (auto simp: set_status_def split: option.splits)
  done

section \<open>The invariant of the pipeline\<close>

definition db_inv :: "(string \<Rightarrow> string) \<Rightarrow> db \<Rightarrow> bool" where
  "db_inv eid db \<longleftrightarrow>
     distinct (keys_of (orders db)) \<and>
     (\<forall>oid r. map_of (orders db) oid = Some r \<longrightarrow> row_of r (msg_of_row (oid, r))) \<and>
     (\<forall>b \<in> set (outbox db). b_payload b \<in> placed db) \<and>
     (\<forall>e x. map_of (executions db) e = Some x \<longrightarrow>
        e = x_id x \<and> (\<exists>m \<in> placed db. \<exists>x0. fills eid m x0 \<and> stored x0 x))"

definition system_inv :: "(string \<Rightarrow> string) \<Rightarrow> system \<Rightarrow> bool" where
  "system_inv eid s \<longleftrightarrow>
     ledger_inv (store s) \<and> db_inv eid (store s) \<and>
     set (orders_topic s) \<subseteq> placed (store s) \<and>
     (\<forall>x \<in> set (execs_topic s). \<exists>m \<in> placed (store s). fills eid m x) \<and>
     engine_from (placed (store s)) (matcher s)"

lemma engine_from_mono: "engine_from M eng \<Longrightarrow> M \<subseteq> N \<Longrightarrow> engine_from N eng"
  unfolding engine_from_def by blast

lemma db_inv_load: "db_inv eid db \<Longrightarrow> engine_from (placed db) (load_pending_orders db)"
  by (rule load_pending_from)
     (auto simp: db_inv_def placed_def msg_of_row_def dest!: map_of_is_SomeI [rotated])

lemma place_order_db_inv:
  assumes "place_order db oid acct sm side ty q p = Inr (db', oid')" "db_inv eid db"
  shows "db_inv eid db'"
proof -
  from assms(1) obtain r pay i where d: "orders db' = AList.update oid r (orders db)"
      "map_of (orders db) oid = None" "row_of r pay" "m_order pay = oid"
      "outbox db' = outbox db @ [\<lparr>b_id = i, b_order = oid, b_symbol = sm, b_payload = pay, b_published = False\<rparr>]"
      "executions db' = executions db"
    by (rule place_order_InrD)
  note sub = place_order_placed [OF assms(1)]
  have "pay \<in> placed db'" using d by (simp add: placed_def update_conv')
  then show ?thesis
    using assms(2) d sub row_of_reload [OF d(3)]
    by (fastforce simp: db_inv_def update_conv')
qed

lemma place_order_ledger_inv:
  assumes "place_order db oid acct sm side ty q p = Inr (db', oid')" "ledger_inv db"
  shows "ledger_inv db'"
  using assms by (elim place_order_InrD) (fastforce simp: ledger_inv_def update_conv')

lemma apply_execution_db_inv:
  assumes a: "apply_execution ndiv db x = Inr (db', out)" and inv: "db_inv eid db"
    and m: "m \<in> placed db" "fills eid m x"
  shows "db_inv eid db'"
proof -
  note p = apply_execution_placed [OF a]
  have same: "\<exists>st. r = r\<lparr>o_status := st\<rparr>" for r :: order_row by (cases r) auto
  have o: "\<exists>r0. map_of (orders db) oid = Some r0 \<and> (\<exists>st. r = r0\<lparr>o_status := st\<rparr>)"
    if "map_of (orders db') oid = Some r" for oid r
    using a that
    by (cases rule: apply_execution_cases) (auto split: if_splits intro: same)
  have row: "row_of r (msg_of_row (oid, r))" if "map_of (orders db') oid = Some r" for oid r
  proof -
    from o [OF that] obtain r0 st where r0: "map_of (orders db) oid = Some r0" "r = r0\<lparr>o_status := st\<rparr>" by blast
    then have "msg_of_row (oid, r) = msg_of_row (oid, r0)" by (simp add: msg_of_row_def)
    with r0 inv show ?thesis by (simp add: db_inv_def)
  qed
  have e: "executions db' = executions db \<or>
      (\<exists>x'. stored x x' \<and> executions db' = AList.update (x_id x) x' (executions db))"
    using a by (cases rule: apply_execution_cases) auto
  have "y = x_id z \<and> (\<exists>m \<in> placed db. \<exists>x0. fills eid m x0 \<and> stored x0 z)"
    if "map_of (executions db') y = Some z" for y z
    using e
  proof
    assume "executions db' = executions db"
    with that inv show ?thesis by (simp add: db_inv_def)
  next
    assume "\<exists>x'. stored x x' \<and> executions db' = AList.update (x_id x) x' (executions db)"
    then obtain x' where x': "stored x x'" "executions db' = AList.update (x_id x) x' (executions db)" by blast
    show ?thesis
    proof (cases "y = x_id x")
      case True
      with that x' have "z = x'" by (simp add: update_conv')
      with x'(1) m True show ?thesis by (auto simp: stored_def)
    next
      case False
      with that x' have "map_of (executions db) y = Some z" by (simp add: update_conv')
      with inv show ?thesis by (simp add: db_inv_def)
    qed
  qed
  then show ?thesis using inv p row by (simp add: db_inv_def)
qed

lemma relay_round_db:
  assumes "relay_round db = (ms, db')"
  shows "orders db' = orders db" "executions db' = executions db" "accounts db' = accounts db"
    "positions db' = positions db" "set ms \<subseteq> b_payload ` set (outbox db)"
    "b_payload ` set (outbox db') \<subseteq> b_payload ` set (outbox db)"
proof -
  have "set (relay_batch db) \<subseteq> set (outbox db)"
    using set_take_subset [of 100 "sort_key b_id (filter (\<lambda>b. \<not> b_published b) (outbox db))"]
    by (auto simp: relay_batch_def)
  then show "set ms \<subseteq> b_payload ` set (outbox db)"
    using assms by (auto simp: relay_round_def Let_def split: if_splits intro!: imageI)
qed (use assms in \<open>auto simp: relay_round_def mark_published_def Let_def split: if_splits\<close>)

lemma on_message_from:
  assumes "engine_from M eng" "set (orders_of msg) \<subseteq> M" "on_message c eid eng msg = (eng', xs, r)"
    and "\<And>m. msg = OrderMsg m \<Longrightarrow> m \<in> M"
  shows "engine_from M eng' \<and> (\<forall>x \<in> set xs. \<exists>m \<in> M. fills eid m x)"
proof (cases msg)
  case (TickMsg sm p)
  with assms(3) have "on_tick c eid eng sm p = (eng', xs, r)" by simp
  from on_tick_from [OF assms(1) this] show ?thesis .
next
  case (OrderMsg m)
  with assms(3) have "on_order c eid eng m = (eng', xs, r)" by simp
  from on_order_from [OF assms(1) assms(4) [OF OrderMsg] this] show ?thesis .
qed

lemma system_inv_execs:
  assumes "system_inv eid s" "engine_from (placed (store s)) eng'"
    and "\<forall>x \<in> set xs. \<exists>m \<in> placed (store s). fills eid m x"
  shows "system_inv eid (s\<lparr>matcher := eng', execs_topic := execs_topic s @ xs\<rparr>)"
  using assms by (auto simp: system_inv_def)

lemma system_inv_orders:
  assumes "system_inv eid s" "relay_round (store s) = (ms, db')" "set ns \<subseteq> set ms"
  shows "system_inv eid (s\<lparr>orders_topic := orders_topic s @ ns\<rparr>)"
  using assms relay_round_db(5) [OF assms(2)]
  unfolding system_inv_def db_inv_def by auto

lemma step_system_inv:
  assumes inv: "system_inv eid s" and st: "step c ndiv eid s t"
  shows "system_inv eid t"
proof -
  have ok: "engine_from (placed (store s)) eng' \<and> (\<forall>x \<in> set xs. \<exists>m \<in> placed (store s). fills eid m x)"
    if "on_message c eid (matcher s) msg = (eng', xs, r)"
      "\<And>m. msg = OrderMsg m \<Longrightarrow> m \<in> set (orders_topic s)" for msg eng' xs r
    using inv that(2) by (intro on_message_from [OF _ _ that(1)])
      (cases msg; auto simp: system_inv_def)+
  have ld: "engine_from (placed (store s)) (load_pending_orders (store s))"
    using inv db_inv_load by (auto simp: system_inv_def)
  from st show ?thesis
  proof (cases rule: step.cases)
    case (place oid acct sm side ty q p db' oid')
    then show ?thesis
      using inv place_order_placed [OF place(2)] place_order_db_inv [OF place(2), of eid]
        place_order_ledger_inv [OF place(2)]
      by (auto simp: system_inv_def intro: engine_from_mono) blast
  next
    case (relay ms db')
    note d = relay_round_db [OF relay(2)]
    have pl: "placed db' = placed (store s)" by (rule placed_cong [OF d(1)])
    have "db_inv eid db'"
      using inv d(1,2,6) pl unfolding system_inv_def db_inv_def by auto
    moreover have "ledger_inv db'"
      using inv d by (simp add: system_inv_def ledger_inv_def)
    moreover have "set ms \<subseteq> placed (store s)"
      using inv d(5) unfolding system_inv_def db_inv_def by auto
    ultimately show ?thesis using inv relay pl by (simp add: system_inv_def)
  next
    case (relay_crash ms db' k)
    show ?thesis unfolding relay_crash(1)
      by (rule system_inv_orders [OF inv relay_crash(2)]) (rule set_take_subset)
  next
    case (engine_tick sm p eng' xs)
    show ?thesis unfolding engine_tick(1)
      using ok [OF engine_tick(2)] by (intro system_inv_execs [OF inv]) auto
  next
    case (engine_order m eng' xs)
    show ?thesis unfolding engine_order(1)
      using ok [OF engine_order(3)] engine_order(2) by (intro system_inv_execs [OF inv]) auto
  next
    case (engine_crash_tick sm p eng' xs r k)
    show ?thesis unfolding engine_crash_tick(1)
      using ok [OF engine_crash_tick(2)]
      by (intro system_inv_execs [OF inv ld]) (auto dest: in_set_takeD)
  next
    case (engine_crash_order m eng' xs r k)
    show ?thesis unfolding engine_crash_order(1)
      using ok [OF engine_crash_order(3)] engine_crash_order(2)
      by (intro system_inv_execs [OF inv ld]) (auto dest: in_set_takeD)
  next
    case (update x db' out)
    from inv update(2) obtain m where m: "m \<in> placed (store s)" "fills eid m x"
      by (auto simp: system_inv_def)
    have "db_inv eid db'"
      using inv by (intro apply_execution_db_inv [OF update(3) _ m]) (simp add: system_inv_def)
    then show ?thesis
      using inv update apply_execution_placed(1) [OF update(3)] apply_execution_inv [OF update(3)]
      by (simp add: system_inv_def)
  qed
qed

lemma reachable_system_inv:
  assumes "reachable c ndiv eid s0 s" "fresh s0"
  shows "system_inv eid s"
  using assms(1)
proof induction
  case start
  then show ?case
    using assms(2) db_inv_load [of eid "store s0"]
    by (simp add: fresh_def system_inv_def db_inv_def)
next
  case (next_step s t)
  then show ?case by (blast intro: step_system_inv)
qed

section \<open>Properties\<close>

text \<open>C1: The pipeline fills only what was ordered, and at most once.  In every state reachable
  from a fresh ledger, under any interleaving of order placement, relay, engine and updater, with
  any crashes, restarts, duplicate and reordered deliveries: every booked execution is the fill
  of a placed order that is marked \<open>FILLED\<close>, with its account, symbol, side and quantity and a
  price no worse than its limit, two booked executions of one order are the same row, and no
  balance or position is negative.\<close>

theorem pipeline_fills_orders_once:
  assumes "fresh s0" "reachable c ndiv eid s0 s" "map_of (executions (store s)) e = Some x"
  shows "e = eid (x_order x) \<and>
    (\<exists>r. map_of (orders (store s)) (x_order x) = Some r \<and> o_status r = FILLED \<and>
       o_account r = x_account x \<and> o_symbol r = x_symbol x \<and> o_side r = x_side x \<and>
       o_quantity r = x_quantity x \<and>
       (o_type r \<noteq> MARKET \<longrightarrow> (\<exists>limit. o_price r = Some limit \<and>
          (if x_side x = BUY then x_price x \<le> limit else limit \<le> x_price x)))) \<and>
    ledger_inv (store s)"
proof -
  have inv: "ledger_inv (store s)" "db_inv eid (store s)"
    using reachable_system_inv [OF assms(2,1)] by (simp_all add: system_inv_def)
  with assms(3) obtain m x0 where m: "e = x_id x" "m \<in> placed (store s)" "fills eid m x0" "stored x0 x"
    unfolding db_inv_def by blast
  from m(2) obtain r where r: "map_of (orders (store s)) (m_order m) = Some r" "row_of r m"
    by (auto simp: placed_def)
  have "\<exists>r. map_of (orders (store s)) (x_order x) = Some r \<and> o_status r = FILLED"
    using inv(1) assms(3) unfolding ledger_inv_def by blast
  then have "o_status r = FILLED" using r(1) m(3,4) by (auto simp: fills_def stored_def)
  moreover have "\<exists>limit. o_price r = Some limit \<and>
      (if x_side x = BUY then x_price x \<le> limit else limit \<le> x_price x)" if "o_type r \<noteq> MARKET"
  proof -
    from that r m obtain l l' where l: "m_price m = Some l" "o_price r = Some l'" "numeric 20 4 l = Inr l'"
        "if m_side m = BUY then x_price x0 \<le> l else l \<le> x_price x0"
      by (auto simp: fills_def row_of_def)
    from m(4) have "numeric 20 4 (x_price x0) = Inr (x_price x)" "x_side x = m_side m"
      using m(3) by (simp_all add: stored_def fills_def)
    with l show ?thesis by (auto intro: numeric_mono split: if_splits)
  qed
  ultimately show ?thesis
    using r m inv(1) by (auto simp: fills_def stored_def row_of_def)
qed

definition demo_system :: system where
  "demo_system = \<lparr>store = \<lparr>accounts = [(''demo'', \<lparr>krw_balance = 1000, auto_trade = True\<rparr>)],
       positions = [], orders = [], executions = [], outbox = []\<rparr>,
     orders_topic = [], execs_topic = [], matcher = \<lparr>latest_price = [], pending = [], limit_orders = []\<rparr>\<rparr>"

definition demo_placed :: order_row where
  "demo_placed = \<lparr>o_account = ''demo'', o_symbol = ''KRW-BTC'', o_side = BUY, o_type = MARKET,
     o_price = None, o_quantity = 2, o_status = PENDING\<rparr>"

definition demo_fill :: execution where
  "demo_fill = \<lparr>x_id = ''o1'', x_order = ''o1'', x_account = ''demo'', x_symbol = ''KRW-BTC'',
     x_side = BUY, x_price = 100, x_quantity = 2, x_fee = 1 / 10\<rparr>"

lemma demo_reachable:
  "\<exists>s. reachable default_settings (/) id demo_system s \<and> map_of (executions (store s)) ''o1'' = Some demo_fill"
proof -
  let ?m = "\<lparr>m_order = ''o1'', m_account = ''demo'', m_symbol = ''KRW-BTC'', m_side = BUY,
    m_type = MARKET, m_price = None, m_quantity = 2\<rparr>"
  let ?b = "\<lambda>pub. \<lparr>b_id = 1, b_order = ''o1'', b_symbol = ''KRW-BTC'', b_payload = ?m, b_published = pub\<rparr>"
  let ?d0 = "store demo_system"
  let ?d1 = "?d0\<lparr>orders := [(''o1'', demo_placed)], outbox := [?b False]\<rparr>"
  let ?s1 = "demo_system\<lparr>store := ?d1\<rparr>"
  let ?s2 = "?s1\<lparr>store := ?d1\<lparr>outbox := [?b True]\<rparr>, orders_topic := [?m]\<rparr>"
  let ?e = "\<lparr>latest_price = [(''KRW-BTC'', 100)], pending = [], limit_orders = []\<rparr>"
  let ?s3 = "?s2\<lparr>matcher := ?e, execs_topic := []\<rparr>"
  let ?s4 = "?s3\<lparr>matcher := ?e, execs_topic := [demo_fill]\<rparr>"
  have "place_order (store demo_system) ''o1'' ''demo'' ''KRW-BTC'' BUY MARKET 2 None = Inr (?d1, ''o1'')"
    by (simp add: place_order_def insert_order_def demo_system_def demo_placed_def numeric_def Let_def rhu_def checked_def)
  from step.place [of demo_system, OF this] have r1: "reachable default_settings (/) id demo_system ?s1"
    by (blast intro: reachable.intros)
  have "relay_round (store ?s1) = ([?m], ?d1\<lparr>outbox := [?b True]\<rparr>)"
    by (simp add: relay_round_def relay_batch_def mark_published_def Let_def)
  from step.relay [OF this] have r2: "reachable default_settings (/) id demo_system ?s2"
    by (intro reachable.next_step [OF r1]) (simp add: demo_system_def)
  have "on_message default_settings id (matcher ?s2) (TickMsg ''KRW-BTC'' 100) = (?e, [], None)"
    by (simp add: demo_system_def on_tick_def Let_def get_or_def)
  from step.engine_tick [OF this] have r3: "reachable default_settings (/) id demo_system ?s3"
    by (intro reachable.next_step [OF r2]) (simp add: demo_system_def)
  have "on_message default_settings id (matcher ?s3) (OrderMsg ?m) = (?e, [demo_fill], None)"
    by (simp add: on_order_def Let_def execute_def fill_fee_def quantize_def rhe_def dmul_def dec_lit demo_fill_def)
  from step.engine_order [OF _ this] have r4: "reachable default_settings (/) id demo_system ?s4"
    by (intro reachable.next_step [OF r3]) (simp add: demo_system_def)
  have "\<exists>db'. apply_execution (/) (store ?s4) demo_fill = Inr (db', Applied) \<and>
      map_of (executions db') ''o1'' = Some demo_fill"
    by (simp add: demo_system_def apply_execution_def demo_placed_def demo_fill_def Let_def
        record_execution_def numeric_def rhu_def checked_def add_balance_def upsert_position_def
        set_status_def ddiv_def dadd_def dmul_def dec_lit)
  then obtain db' where a: "apply_execution (/) (store ?s4) demo_fill = Inr (db', Applied)"
      "map_of (executions db') ''o1'' = Some demo_fill" by blast
  have "reachable default_settings (/) id demo_system (?s4\<lparr>store := db'\<rparr>)"
    by (rule reachable.next_step [OF r4]) (rule step.update [OF _ a(1)], simp)
  with a(2) show ?thesis by (intro exI [of _ "?s4\<lparr>store := db'\<rparr>"]) simp
qed

theorem pipeline_fills_orders_once_witness:
  "\<exists>s r. reachable default_settings (/) id demo_system s
     \<and> map_of (orders (store s)) ''o1'' = Some r \<and> o_status r = FILLED \<and> o_quantity r = 2"
proof -
  obtain s where s: "reachable default_settings (/) id demo_system s"
      "map_of (executions (store s)) ''o1'' = Some demo_fill"
    using demo_reachable by blast
  have "fresh demo_system"
    by (simp add: fresh_def demo_system_def ledger_inv_def load_pending_orders_def)
  from pipeline_fills_orders_once [OF this s] s(1) show ?thesis by (auto simp: demo_fill_def)
qed

end
