(* ===== verification/MarketTime.thy ===== *)
theory MarketTime
  imports Numerics
begin

text \<open>
  Asset classes, trading sessions and holidays: \<open>common/marketdata/market_hours.py\<close>,
  \<open>common/marketdata/market_holidays.py\<close>, and the weekly marker of
  \<open>trading/strategy/runners/weekly_marker.py\<close>.

  An instant (an aware \<open>datetime\<close>) is a number of microseconds since 1970-01-01 UTC, a
  \<open>date\<close> is its proleptic Gregorian ordinal (\<open>toordinal\<close>, 1 for 0001-01-01).  The UTC
  offset of New York comes from the time zone database, which is not part of the program: it
  is the argument \<open>et\<close>, in microseconds, of the definitions that need it.
\<close>

section \<open>Python's calendar\<close>

abbreviation SECOND :: int where "SECOND \<equiv> 1000000"
abbreviation DAY :: int where "DAY \<equiv> 86400000000"

definition leap :: "int \<Rightarrow> bool" where
  "leap y \<longleftrightarrow> y mod 4 = 0 \<and> (y mod 100 \<noteq> 0 \<or> y mod 400 = 0)"

definition days_before_year :: "int \<Rightarrow> int" where
  "days_before_year y = (y - 1) * 365 + (y - 1) div 4 - (y - 1) div 100 + (y - 1) div 400"

definition days_before_month :: "int \<Rightarrow> int \<Rightarrow> int" where
  "days_before_month y m =
     [0, 31, 59, 90, 120, 151, 181, 212, 243, 273, 304, 334] ! nat (m - 1)
       + (if 2 < m \<and> leap y then 1 else 0)"

definition date :: "int \<Rightarrow> int \<Rightarrow> int \<Rightarrow> int" where
  "date y m d = days_before_year y + days_before_month y m + d"

definition year_of :: "int \<Rightarrow> int" where
  "year_of n =
     (let n400 = (n - 1) div 146097; r400 = (n - 1) mod 146097;
          n100 = r400 div 36524; r100 = r400 mod 36524;
          n4 = r100 div 1461; r4 = r100 mod 1461; n1 = r4 div 365;
          y = n400 * 400 + 1 + n100 * 100 + n4 * 4 + n1
      in if n1 = 4 \<or> n100 = 4 then y - 1 else y)"

definition weekday :: "int \<Rightarrow> int" where
  "weekday d = (d + 6) mod 7"

text \<open>\<open>date.isocalendar()[:2]\<close>: the year and the week of the Thursday of the week.\<close>

definition isocalendar :: "int \<Rightarrow> int \<times> int" where
  "isocalendar d =
     (let th = d - weekday d + 3; y = year_of th
      in (y, (th - days_before_year y - 1) div 7 + 1))"

definition EPOCH :: int where "EPOCH = 719163"

text \<open>The local date, the microsecond of the local day.\<close>

definition local_date :: "int \<Rightarrow> int \<Rightarrow> int" where
  "local_date offset now = EPOCH + (now + offset) div DAY"

definition local_tod :: "int \<Rightarrow> int \<Rightarrow> int" where
  "local_tod offset now = (now + offset) mod DAY"

section \<open>Asset classes and sessions\<close>

datatype asset = COIN | STOCK_KR | STOCK_US

definition is_digit :: "char \<Rightarrow> bool" where
  "is_digit ch \<longleftrightarrow> ch \<in> set ''0123456789''"

definition asset_class :: "string \<Rightarrow> asset" where
  "asset_class symbol =
     (if take 4 symbol = ''KRW-'' then COIN
      else if symbol \<noteq> [] \<and> list_all is_digit symbol then STOCK_KR
      else STOCK_US)"

definition is_stock :: "string \<Rightarrow> bool" where
  "is_stock symbol \<longleftrightarrow> asset_class symbol = STOCK_KR \<or> asset_class symbol = STOCK_US"

definition clock :: "int \<Rightarrow> int \<Rightarrow> int" where
  "clock h m = (h * 3600 + m * 60) * SECOND"

definition KST :: int where "KST = 9 * 3600 * SECOND"

definition session_open :: "asset \<Rightarrow> int" where
  "session_open k = (if k = STOCK_KR then clock 9 0 else clock 9 30)"

definition session_close :: "asset \<Rightarrow> int" where
  "session_close k = (if k = STOCK_KR then clock 15 30 else clock 16 0)"

definition local_tz :: "(int \<Rightarrow> int) \<Rightarrow> string \<Rightarrow> int \<Rightarrow> int" where
  "local_tz et symbol now =
     (case asset_class symbol of STOCK_KR \<Rightarrow> KST | STOCK_US \<Rightarrow> et now | COIN \<Rightarrow> 0)"

definition is_market_open :: "(int \<Rightarrow> int) \<Rightarrow> string \<Rightarrow> int \<Rightarrow> bool" where
  "is_market_open et symbol now =
     (let kind = asset_class symbol; off = local_tz et symbol now
      in if kind = COIN then True
         else if 5 \<le> weekday (local_date off now) then False
         else session_open kind \<le> local_tod off now \<and> local_tod off now \<le> session_close kind)"

definition trading_days :: "asset \<Rightarrow> rat" where
  "trading_days k = (case k of COIN \<Rightarrow> 365 | STOCK_KR \<Rightarrow> 252 | STOCK_US \<Rightarrow> 252)"

definition session_seconds :: "asset \<Rightarrow> rat" where
  "session_seconds k = (case k of COIN \<Rightarrow> 86400 | STOCK_KR \<Rightarrow> 23400 | STOCK_US \<Rightarrow> 23400)"

definition periods_per_year :: "string \<Rightarrow> rat \<Rightarrow> rat" where
  "periods_per_year symbol sample_sec =
     (let k = asset_class symbol;
          obs = (if 0 < sample_sec then max 1 (fquo (session_seconds k) sample_sec) else 1)
      in fmul (trading_days k) obs)"

definition session_date :: "(int \<Rightarrow> int) \<Rightarrow> string \<Rightarrow> int \<Rightarrow> int" where
  "session_date et symbol now = local_date (local_tz et symbol now) now"

text \<open>The close and the instant have the same wall clock, so the difference is one of wall clocks.\<close>

definition seconds_to_close :: "(int \<Rightarrow> int) \<Rightarrow> string \<Rightarrow> int \<Rightarrow> rat option" where
  "seconds_to_close et symbol now =
     (let kind = asset_class symbol
      in if kind = COIN then None
         else Some (fl (of_int (session_close kind - local_tod (local_tz et symbol now) now) / 1000000)))"

definition market_proxy :: "string \<Rightarrow> string option" where
  "market_proxy = map_of [(''KR'', ''005930''), (''US'', ''SPY''), (''COIN'', ''KRW-BTC'')]"

definition market_open :: "(int \<Rightarrow> int) \<Rightarrow> string \<Rightarrow> int \<Rightarrow> bool res" where
  "market_open et market now =
     (case market_proxy market of
        None \<Rightarrow> Inl (KeyError market) | Some s \<Rightarrow> Inr (is_market_open et s now))"

definition market_seconds_to_close :: "(int \<Rightarrow> int) \<Rightarrow> string \<Rightarrow> int \<Rightarrow> rat option res" where
  "market_seconds_to_close et market now =
     (case market_proxy market of
        None \<Rightarrow> Inl (KeyError market) | Some s \<Rightarrow> Inr (seconds_to_close et s now))"

section \<open>Holidays\<close>

definition nyse :: "int list" where
  "nyse = map (\<lambda>(y, m, d). date y m d)
    [(2025, 1, 1), (2025, 1, 20), (2025, 2, 17), (2025, 4, 18),
     (2025, 5, 26), (2025, 6, 19), (2025, 7, 4), (2025, 9, 1),
     (2025, 11, 27), (2025, 12, 25),
     (2026, 1, 1), (2026, 1, 19), (2026, 2, 16), (2026, 4, 3),
     (2026, 5, 25), (2026, 6, 19), (2026, 7, 3), (2026, 9, 7),
     (2026, 11, 26), (2026, 12, 25),
     (2027, 1, 1), (2027, 1, 18), (2027, 2, 15), (2027, 3, 26),
     (2027, 5, 31), (2027, 6, 18), (2027, 7, 5), (2027, 9, 6),
     (2027, 11, 25), (2027, 12, 24)]"

definition krx :: "int list" where
  "krx = map (\<lambda>(y, m, d). date y m d)
    [(2026, 1, 1), (2026, 2, 16), (2026, 2, 17), (2026, 2, 18),
     (2026, 3, 2), (2026, 5, 1), (2026, 5, 5), (2026, 5, 25),
     (2026, 6, 3), (2026, 8, 17), (2026, 9, 24), (2026, 9, 25),
     (2026, 10, 5), (2026, 10, 9), (2026, 12, 25), (2026, 12, 31)]"

definition is_market_holiday :: "string \<Rightarrow> int \<Rightarrow> bool" where
  "is_market_holiday market d =
     (d \<in> set (get_or [(''US'', nyse), (''KR'', krx)] market []))"

definition market_today :: "(int \<Rightarrow> int) \<Rightarrow> string \<Rightarrow> int \<Rightarrow> int res" where
  "market_today et market now =
     (if market = ''US'' then Inr (local_date (et now) now)
      else if market = ''KR'' then Inr (local_date KST now)
      else Inl (KeyError market))"

section \<open>The weekly marker\<close>

text \<open>The decimal numeral of a natural number and the key \<open>f"{y}-W{w:02d}"\<close>.\<close>

definition digit_char :: "nat \<Rightarrow> char" where
  "digit_char n = ''0123456789'' ! n"

fun itoa :: "nat \<Rightarrow> string" where
  "itoa n = (if n < 10 then [digit_char n] else itoa (n div 10) @ [digit_char (n mod 10)])"

declare itoa.simps [simp del]

definition pad2 :: "nat \<Rightarrow> string" where
  "pad2 n = (if n < 10 then ''0'' @ itoa n else itoa n)"

definition iso_week :: "int \<Rightarrow> string" where
  "iso_week d = (let (y, w) = isocalendar d in itoa (nat y) @ ''-W'' @ pad2 (nat w))"

type_synonym weeks = "(string \<times> string) list"

definition week_done :: "weeks \<Rightarrow> string \<Rightarrow> int \<Rightarrow> bool" where
  "week_done tab market d \<longleftrightarrow> (market, iso_week d) \<in> set tab"

definition mark_week_done :: "weeks \<Rightarrow> string \<Rightarrow> int \<Rightarrow> weeks" where
  "mark_week_done tab market d =
     (if (market, iso_week d) \<in> set tab then tab else tab @ [(market, iso_week d)])"

record plan =
  pl_targets :: "string list"
  pl_buys :: "string list"
  pl_sells :: "string list"

definition completed :: "plan \<Rightarrow> bool list \<Rightarrow> bool \<Rightarrow> bool" where
  "completed p filled rebalance_sells =
     (if pl_targets p = [] then False
      else if pl_buys p = [] \<and> \<not> (rebalance_sells \<and> pl_sells p \<noteq> []) then True
      else list_ex id filled)"

section \<open>The calendar is right\<close>

lemma year_of_bounds:
  "days_before_year (year_of n) < n \<and> n \<le> days_before_year (year_of n + 1)"
proof -
  define a where "a = (n - 1) div 146097"
  define r where "r = (n - 1) mod 146097"
  define b where "b = r div 36524"
  define s where "s = r mod 36524"
  define c where "c = s div 1461"
  define t where "t = s mod 1461"
  define e where "e = t div 365"
  define u where "u = t mod 365"
  have n: "n = a * 146097 + r + 1" unfolding a_def r_def by simp
  have r: "0 \<le> r" "r < 146097" "r = b * 36524 + s" "0 \<le> b" "b \<le> 4"
    unfolding r_def b_def s_def by auto
  have s: "0 \<le> s" "s < 36524" "s = c * 1461 + t" "0 \<le> c" "c \<le> 24"
    unfolding s_def c_def t_def by auto
  have t: "0 \<le> t" "t < 1461" "t = e * 365 + u" "0 \<le> e" "e \<le> 4" "0 \<le> u" "u < 365"
    unfolding t_def e_def u_def by auto
  have b4: "b = 4 \<Longrightarrow> s = 0" using r(2,3) s(1) by arith
  then have b4': "b = 4 \<Longrightarrow> c = 0 \<and> t = 0 \<and> e = 0 \<and> u = 0" unfolding c_def t_def e_def u_def by simp
  have e4: "e = 4 \<Longrightarrow> u = 0" using t by arith
  have c24: "e = 4 \<Longrightarrow> c \<noteq> 24" using s t by auto
  define y where "y = a * 400 + b * 100 + c * 4 + e"
  have yo: "year_of n = (if e = 4 \<or> b = 4 then y else y + 1)"
    unfolding year_of_def Let_def y_def e_def c_def b_def a_def t_def s_def r_def by simp
  have d: "days_before_year (k + 1) = k * 365 + k div 4 - k div 100 + k div 400" for k
    by (simp add: days_before_year_def)
  have q: "(a * 400 + b * 100 + c * 4 + j) div 4 = a * 100 + b * 25 + c + j div 4"
    "(a * 400 + b * 100 + c * 4 + j) div 100 = a * 4 + b + (c * 4 + j) div 100"
    "(a * 400 + b * 100 + c * 4 + j) div 400 = a + (b * 100 + c * 4 + j) div 400" for j
    using div_mult_self1 [of 4 j "a * 100 + b * 25 + c"]
      div_mult_self1 [of 100 "c * 4 + j" "a * 4 + b"] div_mult_self1 [of 400 "b * 100 + c * 4 + j" a]
    by (simp_all add: algebra_simps)
  have yj: "y + 1 - e + j = (a * 400 + b * 100 + c * 4 + j) + 1" for j by (simp add: y_def)
  have jj: "days_before_year (y + 1 - e + j) = (a * 400 + b * 100 + c * 4 + j) * 365 +
      (a * 100 + b * 25 + c + j div 4) - (a * 4 + b + (c * 4 + j) div 100)
      + (a + (b * 100 + c * 4 + j) div 400)" for j
    unfolding yj d q by (rule refl)
  show ?thesis
  proof (cases "e = 4 \<or> b = 4")
    case False
    then have eb: "e \<le> 3" "b \<le> 3" using r t by auto
    have z: "e div 4 = 0" "(c * 4 + e) div 100 = 0" "(b * 100 + c * 4 + e) div 400 = 0"
      using eb r s t by auto
    have m: "(c * 4 + (e + 1)) div 100 \<le> (e + 1) div 4"
      using eb s t by (cases "e = 3") auto
    have p: "0 \<le> (b * 100 + c * 4 + (e + 1)) div 400" using r s t by simp
    have "days_before_year (y + 1) = n - 1 - u"
      using jj [of e] z n r s t by simp
    moreover have "n - 1 - u + 365 \<le> days_before_year (y + 2)"
      using jj [of "e + 1"] m p n r s t by (simp add: algebra_simps)
    ultimately show ?thesis using yo False t by (simp add: add.commute)
  next
    case True
    have u0: "u = 0" "b = 4 \<Longrightarrow> c = 0 \<and> e = 0" "e = 4 \<Longrightarrow> c \<le> 23"
      using True b4' e4 c24 s by auto
    have "days_before_year (y + 1) = n"
      using True u0 jj [of e] n r s t b4' e4 by (cases "b = 4") (auto simp: add.commute)
    moreover have "days_before_year y = n - 366"
      using True u0 jj [of "e - 1"] n r s t b4' e4 by (cases "b = 4") auto
    ultimately show ?thesis using yo True by simp
  qed
qed

lemma year_of_pos: "1 \<le> n \<Longrightarrow> 1 \<le> year_of n"
proof (rule ccontr)
  assume n: "1 \<le> n" and "\<not> 1 \<le> year_of n"
  then have y: "year_of n \<le> 0" by simp
  have "days_before_year (y + 1) \<le> 0" if "y \<le> 0" for y
    unfolding days_before_year_def using that by simp
  from this [OF y] year_of_bounds [of n] n show False by simp
qed

lemma weekday_range: "0 \<le> weekday d" "weekday d < 7"
  by (simp_all add: weekday_def)

definition monday :: "int \<Rightarrow> int" where
  "monday d = d - weekday d"

lemma weekday_monday: "weekday (monday d) = 0"
  unfolding monday_def weekday_def by presburger

lemma isocalendar_monday:
  "isocalendar d = (year_of (monday d + 3),
     (monday d + 3 - days_before_year (year_of (monday d + 3)) - 1) div 7 + 1)"
  by (simp add: isocalendar_def Let_def monday_def)

lemma isocalendar_inj:
  "isocalendar d = isocalendar d' \<longleftrightarrow> monday d = monday d'"
proof
  assume h: "isocalendar d = isocalendar d'"
  let ?t = "monday d + 3" and ?t' = "monday d' + 3"
  from h have y: "year_of ?t = year_of ?t'"
    and w: "(?t - days_before_year (year_of ?t) - 1) div 7 = (?t' - days_before_year (year_of ?t') - 1) div 7"
    unfolding isocalendar_monday prod.inject add_right_cancel by blast+
  have "\<exists>k. (?t - b - 1) div 7 = (?t' - b - 1) div 7 \<longrightarrow> ?t - ?t' = k \<and> - 7 < k \<and> k < 7" for b
    by (rule exI [of _ "?t - ?t'"]) presburger
  with w y have lt: "- 7 < monday d - monday d'" "monday d - monday d' < 7" by auto
  moreover have "weekday (monday d) = weekday (monday d')" by (simp add: weekday_monday)
  then have "(monday d - monday d') mod 7 = 0"
    unfolding weekday_def by presburger
  ultimately show "monday d = monday d'" by presburger
qed (simp only: isocalendar_monday)

lemma isocalendar_range:
  assumes "1 \<le> d" shows "1 \<le> fst (isocalendar d)" "1 \<le> snd (isocalendar d)"
proof -
  have t: "1 \<le> monday d + 3"
    using assms weekday_monday [of d] weekday_range [of d] unfolding monday_def weekday_def by presburger
  show "1 \<le> fst (isocalendar d)"
    using year_of_pos [OF t] by (simp add: isocalendar_monday)
  have "0 \<le> monday d + 3 - days_before_year (year_of (monday d + 3)) - 1"
    using year_of_bounds [of "monday d + 3"] by simp
  then have "0 \<le> (monday d + 3 - days_before_year (year_of (monday d + 3)) - 1) div 7"
    by (subst pos_imp_zdiv_nonneg_iff) simp_all
  then show "1 \<le> snd (isocalendar d)" by (simp only: isocalendar_monday snd_conv)
qed

section \<open>The key of a week\<close>

definition digit_val :: "char \<Rightarrow> nat" where
  "digit_val ch = length (takeWhile (\<lambda>x. x \<noteq> ch) ''0123456789'')"

definition atoi :: "string \<Rightarrow> nat" where
  "atoi s = foldl (\<lambda>n ch. 10 * n + digit_val ch) 0 s"

lemma digit_char_val: "n < 10 \<Longrightarrow> digit_val (digit_char n) = n"
proof -
  have "\<forall>n \<in> set [0..<10]. digit_val (digit_char n) = n" by code_simp
  then show "n < 10 \<Longrightarrow> digit_val (digit_char n) = n" by simp
qed

lemma digit_char_digit: "n < 10 \<Longrightarrow> is_digit (digit_char n)"
proof -
  have "\<forall>n \<in> set [0..<10]. is_digit (digit_char n)" by code_simp
  then show "n < 10 \<Longrightarrow> is_digit (digit_char n)" by simp
qed

lemma atoi_itoa [simp]: "atoi (itoa n) = n"
proof (induction n rule: itoa.induct)
  case (1 n)
  then show ?case
    by (subst itoa.simps) (auto simp: atoi_def digit_char_val)
qed

lemma itoa_digits: "list_all is_digit (itoa n)"
proof (induction n rule: itoa.induct)
  case (1 n)
  then show ?case
    by (subst itoa.simps) (auto simp: digit_char_digit)
qed

lemma itoa_nonempty: "itoa n \<noteq> []"
  by (subst itoa.simps) simp

lemma atoi_pad2 [simp]: "atoi (pad2 n) = n"
proof -
  have "atoi (''0'' @ s) = atoi s" for s by (simp add: atoi_def digit_val_def)
  then show ?thesis by (simp add: pad2_def)
qed

lemma takeWhile_itoa: "takeWhile is_digit (itoa n @ CHR ''-'' # s) = itoa n"
  using itoa_digits [of n] by (simp add: takeWhile_append2 list_all_iff is_digit_def)

lemma iso_week_inj:
  assumes "1 \<le> d" "1 \<le> d'"
  shows "iso_week d = iso_week d' \<longleftrightarrow> monday d = monday d'"
proof
  assume h: "iso_week d = iso_week d'"
  obtain y w y' w' where i: "isocalendar d = (y, w)" "isocalendar d' = (y', w')" by fastforce
  have k: "itoa (nat y) @ CHR ''-'' # (CHR ''W'' # pad2 (nat w))
      = itoa (nat y') @ CHR ''-'' # (CHR ''W'' # pad2 (nat w'))"
    using h i by (simp add: iso_week_def)
  then have "itoa (nat y) = itoa (nat y')" using takeWhile_itoa by metis
  with k have "nat y = nat y'" "pad2 (nat w) = pad2 (nat w')" using atoi_itoa by (metis, simp)
  then have "nat y = nat y'" "nat w = nat w'" using atoi_pad2 by (simp, metis)
  then have "y = y'" "w = w'" using isocalendar_range [OF assms(1)] isocalendar_range [OF assms(2)] i by auto
  with i show "monday d = monday d'" using isocalendar_inj [of d d'] by simp
next
  assume "monday d = monday d'"
  then have "isocalendar d = isocalendar d'" by (simp only: isocalendar_inj)
  then show "iso_week d = iso_week d'" by (simp add: iso_week_def)
qed

section \<open>Properties\<close>

text \<open>The weekly marker makes a market trade at most once a week: after a market is marked on
  a day, the marker is set for exactly the days of the same Monday-to-Sunday week of that market
  (across New Year as well) and the days that were marked before, and for no other market.\<close>

lemma weekly_marker_covers_week:
  assumes "1 \<le> d" "1 \<le> d'"
  shows "week_done (mark_week_done tab market d) market' d' \<longleftrightarrow>
    week_done tab market' d' \<or> (market' = market \<and> monday d' = monday d)"
  using iso_week_inj [OF assms] by (auto simp: week_done_def mark_week_done_def)

text \<open>A stock market is open only on Monday to Friday and only while its close is ahead: at an
  instant where \<open>is_market_open\<close> holds for a stock, \<open>seconds_to_close\<close> is between 0 and
  the 23,400 seconds of a session, whatever the offset of New York.\<close>

lemma market_open_before_close:
  assumes "is_market_open et symbol now" "is_stock symbol"
  shows "weekday (session_date et symbol now) < 5 \<and>
    (case seconds_to_close et symbol now of None \<Rightarrow> False | Some s \<Rightarrow> 0 \<le> s \<and> s \<le> 23400)"
proof -
  let ?k = "asset_class symbol"
  let ?t = "local_tod (local_tz et symbol now) now"
  have k: "?k \<noteq> COIN" using assms(2) by (auto simp: is_stock_def)
  with assms(1) have o: "weekday (session_date et symbol now) < 5" "session_open ?k \<le> ?t" "?t \<le> session_close ?k"
    by (auto simp: is_market_open_def Let_def session_date_def split: if_splits)
  have "session_close ?k - session_open ?k = 23400000000"
    using k by (cases ?k) (simp_all add: session_close_def session_open_def clock_def)
  with o have b: "0 \<le> session_close ?k - ?t" "session_close ?k - ?t \<le> 23400000000" by simp_all
  have r: "(of_int (session_close ?k - ?t) :: rat) \<le> 23400000000"
    using b(2) by (simp only: of_int_le_iff [where 'a = rat, symmetric] of_int_numeral)
  have "fl (of_int (session_close ?k - ?t) / 1000000) \<le> fl 23400"
    using r by (intro fl_mono) simp
  moreover have "fl (23400 :: rat) = 23400" by (rule fl_lit) simp_all
  moreover have "0 \<le> (of_int (session_close ?k - ?t) :: rat)" using b(1) by (simp only: of_int_0_le_iff)
  ultimately show ?thesis using o k by (simp add: seconds_to_close_def Let_def)
qed

text \<open>Every holiday of the tables falls on a weekday, so each entry closes a day on which the
  sessions would otherwise be open, and no day is listed twice.\<close>

lemma holidays_are_weekdays:
  "list_all (\<lambda>d. weekday d < 5) (nyse @ krx) \<and> distinct nyse \<and> distinct krx"
  by code_simp

text \<open>The scaling of coin returns is not the constant per second for bars longer than a day.\<close>

lemma coin_bars_longer_than_a_day:
  "periods_per_year ''KRW-BTC'' 604800 = 365 \<and> 31536000 / (604800 :: rat) \<noteq> 365"
proof -
  have "asset_class ''KRW-BTC'' = COIN" by (simp add: asset_class_def)
  moreover have "fl (1 / 7) \<le> fl 1" by (intro fl_mono) simp
  moreover have "fl (1 :: rat) = 1" "fl (365 :: rat) = 365" by (rule fl_lit; simp)+
  ultimately show ?thesis
    by (simp add: periods_per_year_def Let_def trading_days_def session_seconds_def fquo_def fmul_def max_absorb1)
qed

end
