(* ===== verification/Broker.thy ===== *)
theory Broker
  imports MarketTime
begin

text \<open>
  The strategy interface of \<open>trading/strategy/core/base.py\<close>: the broker protocol as a record
  of operations over a broker state \<open>'b\<close>, the market tick, and the contract a broker keeps,
  as a locale.  A strategy acts on the world only through these operations; every lemma a
  strategy needs of its broker is proved once in the locale and holds for the backtest engine
  and for the priming broker.
\<close>

record market_tick =
  t_symbol :: string
  t_price :: rat
  t_ts :: rat

record 'b broker =
  position_qty :: "'b \<Rightarrow> string \<Rightarrow> rat"
  position_avg :: "'b \<Rightarrow> string \<Rightarrow> rat"
  b_cash :: "'b \<Rightarrow> rat"
  b_equity :: "'b \<Rightarrow> rat"
  open_symbol_count :: "'b \<Rightarrow> nat"
  iter_positions :: "'b \<Rightarrow> string list"
  b_price :: "'b \<Rightarrow> string \<Rightarrow> rat"
  b_buy :: "'b \<Rightarrow> string \<Rightarrow> rat \<Rightarrow> rat \<Rightarrow> rat option \<Rightarrow> ('b \<times> bool) res"
  b_sell :: "'b \<Rightarrow> string \<Rightarrow> rat \<Rightarrow> string \<Rightarrow> rat \<Rightarrow> rat option \<Rightarrow> ('b \<times> bool) res"

text \<open>\<open>Strategy.on_tick\<close>: the strategy's state and the broker's state before and after a tick.\<close>

type_synonym ('s, 'b) strategy = "'s \<Rightarrow> market_tick \<Rightarrow> 'b \<Rightarrow> ('s \<times> 'b) res"

text \<open>
  The contract: \<open>good\<close> is an invariant of the broker's state under which cash and positions
  are not negative; buying and selling preserve it; a refused order changes nothing.
\<close>

locale solvent_broker =
  fixes B :: "'b broker" and good :: "'b \<Rightarrow> bool"
  assumes cash_nonneg: "good b \<Longrightarrow> 0 \<le> b_cash B b"
    and qty_nonneg: "good b \<Longrightarrow> 0 \<le> position_qty B b s"
    and buy_good: "good b \<Longrightarrow> b_buy B b s q ts p = Inr (b', r) \<Longrightarrow> good b'"
    and sell_good: "good b \<Longrightarrow> b_sell B b s q why ts p = Inr (b', r) \<Longrightarrow> good b'"
    and buy_refused: "b_buy B b s q ts p = Inr (b', False) \<Longrightarrow> b' = b"
    and sell_refused: "b_sell B b s q why ts p = Inr (b', False) \<Longrightarrow> b' = b"
begin

text \<open>The triples of the two orders, and of a step whose value carries the broker's state.\<close>

abbreviation keeps :: "('s \<times> 'b) res \<Rightarrow> bool" where
  "keeps m \<equiv> ensures m (\<lambda>(s, b). good b)"

lemma buy_ensures: "good b \<Longrightarrow> ensures (b_buy B b s q ts p) (\<lambda>(b', r). good b')"
  by (auto intro!: ensuresI dest: buy_good)

lemma sell_ensures: "good b \<Longrightarrow> ensures (b_sell B b s q why ts p) (\<lambda>(b', r). good b')"
  by (auto intro!: ensuresI dest: sell_good)

lemma keeps_good: "keeps m \<Longrightarrow> m = Inr (s, b) \<Longrightarrow> good b"
  by (auto dest: ensuresD)

lemma keeps_rbind:
  assumes "keeps m" "\<And>s b. good b \<Longrightarrow> ensures (f (s, b)) P"
  shows "ensures (rbind m f) P"
  by (rule ensures_rbind [OF assms(1)]) (use assms(2) in auto)

lemma sell_rbind:
  "good b \<Longrightarrow> (\<And>b' r. good b' \<Longrightarrow> ensures (f (b', r)) P) \<Longrightarrow> ensures (rbind (b_sell B b s q why ts p) f) P"
  by (rule ensures_rbind [OF sell_ensures]) auto

lemma buy_rbind:
  "good b \<Longrightarrow> (\<And>b' r. good b' \<Longrightarrow> ensures (f (b', r)) P) \<Longrightarrow> ensures (rbind (b_buy B b s q ts p) f) P"
  by (rule ensures_rbind [OF buy_ensures]) auto

lemma ticks_good:
  assumes "good b" "\<And>s t b. good b \<Longrightarrow> keeps (on_tick s t b)"
  shows "keeps (rfold (\<lambda>(s, b) t. on_tick s t b) (s, b) ts)"
  by (rule ensures_rfold) (use assms in auto)

end

text \<open>\<open>_NullBroker\<close> of \<open>batch/backtest/walkforward.py\<close>: the state has nothing to hold.\<close>

definition null_broker :: "unit broker" where
  "null_broker =
     \<lparr>position_qty = (\<lambda>b s. 0), position_avg = (\<lambda>b s. 0), b_cash = (\<lambda>b. 0), b_equity = (\<lambda>b. 0),
      open_symbol_count = (\<lambda>b. 0), iter_positions = (\<lambda>b. []), b_price = (\<lambda>b s. 0),
      b_buy = (\<lambda>b s q ts p. Inr (b, False)), b_sell = (\<lambda>b s q why ts p. Inr (b, False))\<rparr>"

interpretation null: solvent_broker null_broker "\<lambda>b. True"
  by unfold_locales (simp_all add: null_broker_def)

end
