(* ===== verification/Backtest.thy ===== *)
theory Backtest
  imports Broker Ledger
begin

text \<open>
  The backtest: \<open>batch/backtest/models.py\<close>, \<open>account.py\<close> (cash and positions),
  \<open>fills.py\<close> (fill prices, fees and taxes) and \<open>engine.py\<close> (the replay loop, which is the
  broker of the strategies).  Decimal results that do not fit 28 digits after quantizing raise
  \<open>InvalidOperation\<close>, so the account operations have results of type \<open>res\<close>.
\<close>

section \<open>The account\<close>

record closed_trade =
  c_symbol :: string
  c_qty :: rat
  c_entry_price :: rat
  c_exit_price :: rat
  c_buy_fee :: rat
  c_sell_fee :: rat
  c_pnl :: rat
  c_return_pct :: rat
  c_reason :: string
  c_entry_ts :: rat
  c_exit_ts :: rat
  c_sell_tax :: rat

definition holding_sec :: "closed_trade \<Rightarrow> rat" where
  "holding_sec t = fsub (c_exit_ts t) (c_entry_ts t)"

record bt_position =
  pos_qty :: rat
  pos_avg :: rat
  entry_ts :: rat
  entry_price :: rat
  entry_fee :: rat

record bt_account =
  initial_cash :: rat
  bt_cash :: rat
  bt_positions :: "(string \<times> bt_position) list"

definition new_account :: "rat \<Rightarrow> bt_account" where
  "new_account cash = \<lparr>initial_cash = cash, bt_cash = cash, bt_positions = []\<rparr>"

abbreviation q4 :: "rat \<Rightarrow> rat res" where
  "q4 \<equiv> quantize rhu 4"

definition bt_qty :: "bt_account \<Rightarrow> string \<Rightarrow> rat" where
  "bt_qty a s = (case map_of (bt_positions a) s of None \<Rightarrow> 0 | Some p \<Rightarrow> pos_qty p)"

definition bt_avg :: "bt_account \<Rightarrow> string \<Rightarrow> rat" where
  "bt_avg a s = (case map_of (bt_positions a) s of None \<Rightarrow> 0 | Some p \<Rightarrow> pos_avg p)"

definition apply_buy ::
  "bt_account \<Rightarrow> string \<Rightarrow> rat \<Rightarrow> rat \<Rightarrow> rat \<Rightarrow> rat \<Rightarrow> (bt_account \<times> bool) res" where
  "apply_buy a symbol price q fee ts =
     (let cost = dadd (dmul price q) fee
      in if bt_cash a < cost then Inr (a, False)
         else
           rbind (q4 (dsub (bt_cash a) cost)) (\<lambda>cash.
           rbind (ddiv cost q) (\<lambda>u. rbind (q4 u) (\<lambda>unit_cost.
             let a1 = a\<lparr>bt_cash := cash\<rparr>;
                 fresh = \<lparr>pos_qty = q, pos_avg = unit_cost, entry_ts = ts, entry_price = price, entry_fee = fee\<rparr>;
                 open_new = Inr (a1\<lparr>bt_positions := AList.update symbol fresh (bt_positions a1)\<rparr>, True)
             in case map_of (bt_positions a) symbol of
                  None \<Rightarrow> open_new
                | Some p \<Rightarrow>
                    if pos_qty p \<le> 0 then open_new
                    else
                      let new_qty = dadd (pos_qty p) q
                      in rbind (ddiv (dadd (dmul (pos_qty p) (pos_avg p)) (dmul q unit_cost)) new_qty) (\<lambda>v.
                         rbind (q4 v) (\<lambda>av.
                           Inr (a1\<lparr>bt_positions :=
                             AList.update symbol (p\<lparr>pos_avg := av, pos_qty := new_qty\<rparr>) (bt_positions a1)\<rparr>, True)))))))"

definition apply_sell ::
  "bt_account \<Rightarrow> string \<Rightarrow> rat \<Rightarrow> rat \<Rightarrow> rat \<Rightarrow> rat \<Rightarrow> rat \<Rightarrow> (bt_account \<times> closed_trade option) res" where
  "apply_sell a symbol price q fee ts tax =
     (case map_of (bt_positions a) symbol of
        None \<Rightarrow> Inr (a, None)
      | Some p \<Rightarrow>
          if pos_qty p < q then Inr (a, None)
          else
            let proceeds = dsub (dsub (dmul price q) fee) tax in
            rbind (q4 (dadd (bt_cash a) proceeds)) (\<lambda>cash.
            let cost_basis = dmul q (pos_avg p);
                pnl = dsub proceeds cost_basis;
                return_pct = (if 0 < cost_basis then dec (pnl / cost_basis) else 0)
            in rbind (ddiv (dmul (entry_fee p) q) (pos_qty p)) (\<lambda>f.
               rbind (q4 f) (\<lambda>buy_fee.
                 let p1 = p\<lparr>entry_fee := dsub (entry_fee p) buy_fee, pos_qty := dsub (pos_qty p) q\<rparr>;
                     trade = \<lparr>c_symbol = symbol, c_qty = q, c_entry_price = entry_price p,
                       c_exit_price = price, c_buy_fee = buy_fee, c_sell_fee = fee, c_pnl = pnl,
                       c_return_pct = return_pct, c_reason = '''', c_entry_ts = entry_ts p,
                       c_exit_ts = ts, c_sell_tax = tax\<rparr>
                 in Inr (a\<lparr>bt_cash := cash,
                           bt_positions := (if pos_qty p1 \<le> 0 then AList.delete symbol (bt_positions a)
                                            else AList.update symbol p1 (bt_positions a))\<rparr>,
                         Some trade)))))"

definition bt_equity :: "bt_account \<Rightarrow> (string \<times> rat) list \<Rightarrow> rat" where
  "bt_equity a prices =
     foldl (\<lambda>eq (s, p). case map_of prices s of None \<Rightarrow> eq | Some lp \<Rightarrow> dadd eq (dmul (pos_qty p) lp))
       (bt_cash a) (bt_positions a)"

section \<open>Fills\<close>

record fill_model =
  fee_rate :: rat
  slippage_bps :: rat

definition make_fills :: "rat \<Rightarrow> rat \<Rightarrow> fill_model res" where
  "make_fills rate bps =
     (if bps < 0 then Inl (ValueError ''slippage_bps'') else Inr \<lparr>fee_rate = rate, slippage_bps = bps\<rparr>)"

definition fill_price :: "fill_model \<Rightarrow> side \<Rightarrow> rat \<Rightarrow> rat" where
  "fill_price f s market_price =
     (if slippage_bps f = 0 then market_price
      else let adj = dec (slippage_bps f / 10000)
           in if s = BUY then dmul market_price (dadd 1 adj) else dmul market_price (dsub 1 adj))"

definition model_fee :: "fill_model \<Rightarrow> rat \<Rightarrow> rat \<Rightarrow> rat res" where
  "model_fee f price q = quantize rhe 4 (dmul (dmul price q) (fee_rate f))"

definition sell_tax :: "settings \<Rightarrow> string \<Rightarrow> rat \<Rightarrow> rat \<Rightarrow> rat res" where
  "sell_tax c symbol price q =
     (if asset_class symbol \<noteq> STOCK_KR then Inr 0
      else quantize rhe 4 (dmul (dmul price q) (STOCK_SELL_TAX_RATE c)))"

section \<open>The engine as a broker\<close>

record bt_engine =
  bt_acct :: bt_account
  fills_of :: fill_model
  equity_sample_sec :: rat
  last_price :: "(string \<times> rat) list"
  closed_trades :: "closed_trade list"
  equity_curve :: "(rat \<times> rat) list"
  peak_equity :: rat
  max_dd :: rat
  final_equity :: rat
  n_bars :: nat
  first_ts :: "rat option"
  last_ts :: "rat option"
  last_sample_ts :: rat
  last_eq :: rat

definition new_engine :: "bt_account \<Rightarrow> fill_model \<Rightarrow> rat \<Rightarrow> bt_engine" where
  "new_engine a f sample_sec =
     \<lparr>bt_acct = a, fills_of = f, equity_sample_sec = sample_sec, last_price = [],
      closed_trades = [], equity_curve = [], peak_equity = initial_cash a, max_dd = 0,
      final_equity = initial_cash a, n_bars = 0, first_ts = None, last_ts = None,
      last_sample_ts = 0, last_eq = initial_cash a\<rparr>"

definition adjust_qty :: "string \<Rightarrow> rat \<Rightarrow> rat" where
  "adjust_qty symbol q = (if is_stock symbol then of_int (rdown q) else q)"

definition market_price :: "bt_engine \<Rightarrow> string \<Rightarrow> rat option \<Rightarrow> rat option" where
  "market_price e symbol price = (case price of Some p \<Rightarrow> Some p | None \<Rightarrow> map_of (last_price e) symbol)"

definition engine_buy ::
  "bt_engine \<Rightarrow> string \<Rightarrow> rat \<Rightarrow> rat \<Rightarrow> rat option \<Rightarrow> (bt_engine \<times> bool) res" where
  "engine_buy e symbol q ts price =
     (let q = adjust_qty symbol q
      in if q \<le> 0 then Inr (e, False)
         else case market_price e symbol price of
                None \<Rightarrow> Inr (e, False)
              | Some mp \<Rightarrow>
                  if mp \<le> 0 then Inr (e, False)
                  else
                    let fp = fill_price (fills_of e) BUY mp
                    in rbind (model_fee (fills_of e) fp q) (\<lambda>fe.
                       rbind (apply_buy (bt_acct e) symbol fp q fe ts) (\<lambda>(a, ok).
                         Inr (e\<lparr>bt_acct := a\<rparr>, ok))))"

definition engine_sell ::
  "settings \<Rightarrow> bt_engine \<Rightarrow> string \<Rightarrow> rat \<Rightarrow> string \<Rightarrow> rat \<Rightarrow> rat option \<Rightarrow> (bt_engine \<times> bool) res" where
  "engine_sell c e symbol q why ts price =
     (let q = adjust_qty symbol q
      in if q \<le> 0 then Inr (e, False)
         else case market_price e symbol price of
                None \<Rightarrow> Inr (e, False)
              | Some mp \<Rightarrow>
                  if mp \<le> 0 then Inr (e, False)
                  else
                    let fp = fill_price (fills_of e) SELL mp
                    in rbind (model_fee (fills_of e) fp q) (\<lambda>fe.
                       rbind (sell_tax c symbol fp q) (\<lambda>tx.
                       rbind (apply_sell (bt_acct e) symbol fp q fe ts tx) (\<lambda>(a, tr).
                         case tr of
                           None \<Rightarrow> Inr (e\<lparr>bt_acct := a\<rparr>, False)
                         | Some t \<Rightarrow> Inr (e\<lparr>bt_acct := a,
                             closed_trades := closed_trades e @ [t\<lparr>c_reason := why\<rparr>]\<rparr>, True)))))"

definition engine_broker :: "settings \<Rightarrow> bt_engine broker" where
  "engine_broker c =
     \<lparr>position_qty = (\<lambda>e. bt_qty (bt_acct e)), position_avg = (\<lambda>e. bt_avg (bt_acct e)),
      b_cash = (\<lambda>e. bt_cash (bt_acct e)), b_equity = (\<lambda>e. bt_equity (bt_acct e) (last_price e)),
      open_symbol_count = (\<lambda>e. length (bt_positions (bt_acct e))),
      iter_positions = (\<lambda>e. keys_of (bt_positions (bt_acct e))),
      b_price = (\<lambda>e s. get_or (last_price e) s 0),
      b_buy = engine_buy, b_sell = engine_sell c\<rparr>"

section \<open>The replay loop\<close>

text \<open>The samples of the even grid up to a tick; the loop does not end for \<open>sample_sec \<le> 0\<close>.\<close>

partial_function (option) grid ::
  "rat \<Rightarrow> rat \<Rightarrow> rat \<Rightarrow> rat \<Rightarrow> (rat \<times> rat) list \<Rightarrow> (rat \<times> (rat \<times> rat) list) option" where
  "grid ts sample_sec eq mark curve =
     (if sample_sec \<le> fsub ts mark
      then grid ts sample_sec eq (fadd mark sample_sec) (curve @ [(fadd mark sample_sec, eq)])
      else Some (mark, curve))"

definition tick_start :: "bt_engine \<Rightarrow> market_tick \<Rightarrow> bt_engine" where
  "tick_start e t =
     (let e1 = e\<lparr>last_price := AList.update (t_symbol t) (t_price t) (last_price e), n_bars := Suc (n_bars e)\<rparr>;
          e2 = (case first_ts e of
                  Some x \<Rightarrow> e1
                | None \<Rightarrow>
                    let init_eq = bt_equity (bt_acct e1) (last_price e1)
                    in e1\<lparr>first_ts := Some (t_ts t), last_sample_ts := t_ts t, last_eq := init_eq,
                          equity_curve := equity_curve e1 @ [(t_ts t, init_eq)]\<rparr>)
      in e2\<lparr>last_ts := Some (t_ts t)\<rparr>)"

definition mark_to_market :: "bt_engine \<Rightarrow> bt_engine" where
  "mark_to_market e =
     (let eq = bt_equity (bt_acct e) (last_price e);
          peak = (if peak_equity e < eq then eq else peak_equity e);
          dd = dec (dsub peak eq / peak)
      in e\<lparr>final_equity := eq, peak_equity := peak,
           max_dd := (if 0 < peak \<and> max_dd e < dd then dd else max_dd e)\<rparr>)"

definition tick_end :: "bt_engine \<Rightarrow> market_tick \<Rightarrow> bt_engine option" where
  "tick_end e t =
     (let e1 = mark_to_market e
      in case grid (t_ts t) (equity_sample_sec e1) (last_eq e1) (last_sample_ts e1) (equity_curve e1) of
           None \<Rightarrow> None
         | Some (mark, curve) \<Rightarrow>
             Some (e1\<lparr>last_sample_ts := mark, equity_curve := curve, last_eq := final_equity e1\<rparr>))"

fun replay ::
  "('s, bt_engine) strategy \<Rightarrow> bt_engine \<Rightarrow> 's \<Rightarrow> market_tick list \<Rightarrow> ('s \<times> bt_engine) res option" where
  "replay on_tick e s [] = Some (Inr (s, e))"
| "replay on_tick e s (t # ts) =
     (case on_tick s t (tick_start e t) of
        Inl x \<Rightarrow> Some (Inl x)
      | Inr (s', e') \<Rightarrow>
          (case tick_end e' t of None \<Rightarrow> None | Some e'' \<Rightarrow> replay on_tick e'' s' ts))"

section \<open>The engine keeps the broker's contract\<close>

text \<open>
  Rates up to one eighth and slippage up to 100%: then the proceeds of a sale are not negative
  after fee and tax, roundings included.
\<close>

definition sane_fills :: "settings \<Rightarrow> fill_model \<Rightarrow> bool" where
  "sane_fills c f \<longleftrightarrow> 0 \<le> fee_rate f \<and> fee_rate f \<le> 1 / 8 \<and>
     0 \<le> slippage_bps f \<and> slippage_bps f \<le> 10000 \<and>
     0 \<le> STOCK_SELL_TAX_RATE c \<and> STOCK_SELL_TAX_RATE c \<le> 1 / 8"

definition account_ok :: "bt_account \<Rightarrow> bool" where
  "account_ok a \<longleftrightarrow> 0 \<le> bt_cash a \<and> distinct (keys_of (bt_positions a)) \<and>
     (\<forall>s p. map_of (bt_positions a) s = Some p \<longrightarrow> 0 < pos_qty p)"

definition engine_ok :: "settings \<Rightarrow> bt_engine \<Rightarrow> bool" where
  "engine_ok c e \<longleftrightarrow> sane_fills c (fills_of e) \<and> account_ok (bt_acct e)"

lemma q4_nonneg: "q4 x = Inr y \<Longrightarrow> 0 \<le> x \<Longrightarrow> 0 \<le> y"
  using rhu_mono [of 0 "x * 10 ^ 4"] by (auto simp: quantize_Inr_iff)

lemma apply_buy_cases:
  assumes "apply_buy a symbol price q fe ts = Inr (a', r)"
  obtains (refused) "a' = a" "r = False" "bt_cash a < dadd (dmul price q) fe"
  | (bought) cash u unit_cost p' where "r = True" "dadd (dmul price q) fe \<le> bt_cash a"
      "q4 (dsub (bt_cash a) (dadd (dmul price q) fe)) = Inr cash"
      "ddiv (dadd (dmul price q) fe) q = Inr u" "q4 u = Inr unit_cost"
      "a' = a\<lparr>bt_cash := cash, bt_positions := AList.update symbol p' (bt_positions a)\<rparr>"
      "(\<forall>p. map_of (bt_positions a) symbol = Some p \<longrightarrow> pos_qty p \<le> 0) \<and> pos_qty p' = q \<and> pos_avg p' = unit_cost
       \<or> (\<exists>p v. map_of (bt_positions a) symbol = Some p \<and> 0 < pos_qty p \<and> pos_qty p' = dadd (pos_qty p) q
            \<and> ddiv (dadd (dmul (pos_qty p) (pos_avg p)) (dmul q unit_cost)) (dadd (pos_qty p) q) = Inr v
            \<and> q4 v = Inr (pos_avg p'))"
proof (cases "bt_cash a < dadd (dmul price q) fe")
  case True
  with assms refused show ?thesis by (simp add: apply_buy_def Let_def)
next
  case False
  note le = False
  with assms obtain cash u unit_cost where c: "q4 (dsub (bt_cash a) (dadd (dmul price q) fe)) = Inr cash"
      "ddiv (dadd (dmul price q) fe) q = Inr u" "q4 u = Inr unit_cost"
    by (auto simp: apply_buy_def Let_def)
  show ?thesis
  proof (cases "\<exists>p. map_of (bt_positions a) symbol = Some p \<and> 0 < pos_qty p")
    case False
    then have "\<forall>p. map_of (bt_positions a) symbol = Some p \<longrightarrow> pos_qty p \<le> 0" by (auto simp: not_less)
    with le assms c show ?thesis
      by (intro bought [of cash u unit_cost "\<lparr>pos_qty = q, pos_avg = unit_cost, entry_ts = ts,
            entry_price = price, entry_fee = fe\<rparr>"])
         (cases "map_of (bt_positions a) symbol"; simp add: apply_buy_def Let_def)+
  next
    case True
    then obtain p where p: "map_of (bt_positions a) symbol = Some p" "0 < pos_qty p" by blast
    from le assms c p obtain v av where
      "ddiv (dadd (dmul (pos_qty p) (pos_avg p)) (dmul q unit_cost)) (dadd (pos_qty p) q) = Inr v"
      "q4 v = Inr av" "r = True"
      "a' = a\<lparr>bt_cash := cash, bt_positions := AList.update symbol
          (p\<lparr>pos_avg := av, pos_qty := dadd (pos_qty p) q\<rparr>) (bt_positions a)\<rparr>"
      by (auto simp: apply_buy_def Let_def)
    with le c p show ?thesis
      by (intro bought [of cash u unit_cost "p\<lparr>pos_avg := av, pos_qty := dadd (pos_qty p) q\<rparr>"]) auto
  qed
qed

lemma apply_buy_ok:
  assumes "apply_buy a symbol price q fe ts = Inr (a', r)" "account_ok a" "0 < q"
  shows "account_ok a'"
  using assms(1)
proof (cases rule: apply_buy_cases)
  case refused
  with assms(2) show ?thesis by simp
next
  case (bought cash u unit_cost p')
  have "0 < pos_qty p'" using bought(7) assms(3) by (auto simp: dadd_def)
  moreover have "0 \<le> cash" using q4_nonneg [OF bought(3)] bought(2) by (simp add: dsub_def)
  ultimately show ?thesis using assms(2) bought(6) by (auto simp: account_ok_def update_conv')
qed

lemma apply_sell_cases:
  assumes "apply_sell a symbol price q fe ts tx = Inr (a', r)"
  obtains (refused) "a' = a" "r = None"
      "\<forall>p. map_of (bt_positions a) symbol = Some p \<longrightarrow> pos_qty p < q"
  | (sold) p cash t ps where "r = Some t" "map_of (bt_positions a) symbol = Some p" "q \<le> pos_qty p"
      "q4 (dadd (bt_cash a) (dsub (dsub (dmul price q) fe) tx)) = Inr cash"
      "a' = a\<lparr>bt_cash := cash, bt_positions := ps\<rparr>"
      "c_symbol t = symbol \<and> c_qty t = q \<and> c_sell_fee t = fe \<and> c_sell_tax t = tx"
      "dsub (pos_qty p) q \<le> 0 \<and> ps = AList.delete symbol (bt_positions a) \<or>
       0 < dsub (pos_qty p) q \<and> (\<exists>p'. pos_qty p' = dsub (pos_qty p) q \<and> pos_avg p' = pos_avg p \<and>
         ps = AList.update symbol p' (bt_positions a))"
proof (cases "map_of (bt_positions a) symbol")
  case None
  with assms refused show ?thesis by (simp add: apply_sell_def)
next
  case (Some p)
  show ?thesis
  proof (cases "pos_qty p < q")
    case True
    with assms Some refused show ?thesis by (simp add: apply_sell_def)
  next
    case False
    let ?p = "\<lambda>b. p\<lparr>entry_fee := dsub (entry_fee p) b, pos_qty := dsub (pos_qty p) q\<rparr>"
    from False assms Some obtain cash f b t where c:
        "q4 (dadd (bt_cash a) (dsub (dsub (dmul price q) fe) tx)) = Inr cash"
        "r = Some t" "c_symbol t = symbol \<and> c_qty t = q \<and> c_sell_fee t = fe \<and> c_sell_tax t = tx"
        "a' = a\<lparr>bt_cash := cash, bt_positions := (if pos_qty (?p b) \<le> 0 then AList.delete symbol (bt_positions a)
           else AList.update symbol (?p b) (bt_positions a))\<rparr>"
      by (auto simp: apply_sell_def Let_def)
    show ?thesis
    proof (rule sold [OF c(2) Some _ c(1) c(4) c(3)])
      show "q \<le> pos_qty p" using False by simp
      show "dsub (pos_qty p) q \<le> 0 \<and> (if pos_qty (?p b) \<le> 0 then AList.delete symbol (bt_positions a)
           else AList.update symbol (?p b) (bt_positions a)) = AList.delete symbol (bt_positions a) \<or>
        0 < dsub (pos_qty p) q \<and> (\<exists>p'. pos_qty p' = dsub (pos_qty p) q \<and> pos_avg p' = pos_avg p \<and>
         (if pos_qty (?p b) \<le> 0 then AList.delete symbol (bt_positions a)
           else AList.update symbol (?p b) (bt_positions a)) = AList.update symbol p' (bt_positions a))"
        by (cases "dsub (pos_qty p) q \<le> 0") (auto intro!: exI [of _ "?p b"])
    qed
  qed
qed

lemma quantize4_le_double:
  assumes "quantize rhe 4 y = Inr f" "0 \<le> y"
  shows "f \<le> 2 * y" "0 \<le> f" "dec f = f"
proof -
  let ?n = "rhe (y * 10 ^ 4)"
  have f: "f = of_int ?n / 10 ^ 4" "\<bar>?n\<bar> < 10 ^ 28" using assms(1) by (auto simp: quantize_Inr_iff)
  show "0 \<le> f" using quantize_rhe(2) [OF assms] .
  show "f \<le> 2 * y"
  proof (cases "?n \<le> 0")
    case True
    then have "f \<le> 0" using f(1) by simp
    with assms(2) show ?thesis by linarith
  next
    case False
    then have "(1 :: rat) \<le> of_int ?n" by simp
    with rhe_bounds(2) [of "y * 10 ^ 4"] have "of_int ?n \<le> 2 * (y * 10 ^ 4)" by linarith
    then show ?thesis using f(1) by simp
  qed
  have "dec_ok 4 f"
    using f(2) by (simp add: dec_ok_def f(1) flip: of_int_abs) 
  then show "dec f = f" by (rule dec_exact)
qed

lemma rate_bound:
  assumes "quantize rhe 4 (dmul M rate) = Inr f" "0 \<le> M" "0 \<le> rate" "rate \<le> 1 / 8"
  shows "0 \<le> f" "f \<le> M / 2" "dec f = f"
proof -
  have n: "0 \<le> dmul M rate" using assms(2,3) by (simp add: dmul_def)
  have "dmul M rate \<le> M * rate * (1 + EPS)"
    using dec_upper [of "M * rate"] assms(2,3) by (simp add: dmul_def)
  also have "\<dots> \<le> M * (1 / 8) * (1 + EPS)"
    using assms(2,4) by (intro mult_right_mono mult_left_mono) (simp_all add: EPS_def)
  also have "\<dots> \<le> M / 4" using assms(2) by (simp add: EPS_def field_simps)
  finally show "f \<le> M / 2" using quantize4_le_double(1) [OF assms(1) n] by simp
  show "0 \<le> f" "dec f = f" using quantize4_le_double(2,3) [OF assms(1) n] .
qed

lemma proceeds_nonneg:
  assumes "0 \<le> dmul price q" "f \<le> dmul price q / 2" "0 \<le> tx" "tx \<le> dmul price q / 2" "dec tx = tx"
  shows "0 \<le> dsub (dsub (dmul price q) f) tx"
proof -
  have "tx \<le> dmul price q - f" using assms by simp
  then have "dec tx \<le> dec (dmul price q - f)" by (rule dec_mono)
  then show ?thesis using assms(5) by (simp add: dsub_def)
qed

lemma apply_sell_ok:
  assumes "apply_sell a symbol price q fe ts tx = Inr (a', r)" "account_ok a"
    and "0 \<le> dsub (dsub (dmul price q) fe) tx"
  shows "account_ok a'"
  using assms(1)
proof (cases rule: apply_sell_cases)
  case refused
  with assms(2) show ?thesis by simp
next
  case (sold p cash t ps)
  have "0 \<le> cash"
    using q4_nonneg [OF sold(4)] assms(2,3) by (simp add: account_ok_def dadd_def)
  then show ?thesis
    using sold(5,7) assms(2)
    by (auto simp: account_ok_def update_conv' delete_conv' split: if_splits)
qed

lemma fill_price_nonneg:
  assumes "sane_fills c f" "0 < mp" shows "0 \<le> fill_price f s mp"
proof -
  let ?adj = "dec (slippage_bps f / 10000)"
  have "0 \<le> ?adj" using assms(1) by (simp add: sane_fills_def)
  moreover have "?adj \<le> dec 1" using assms(1) by (intro dec_mono) (simp add: sane_fills_def)
  then have "?adj \<le> 1" using dec_lit [of 1] by simp
  ultimately show ?thesis
    using assms(2) by (simp add: fill_price_def Let_def dmul_def dadd_def dsub_def)
qed

lemma engine_buy_cases:
  assumes "engine_buy e symbol q ts price = Inr (e', r)"
  obtains (skip) "e' = e" "r = False"
  | (order) mp fe a where "0 < adjust_qty symbol q" "market_price e symbol price = Some mp" "0 < mp"
      "model_fee (fills_of e) (fill_price (fills_of e) BUY mp) (adjust_qty symbol q) = Inr fe"
      "apply_buy (bt_acct e) symbol (fill_price (fills_of e) BUY mp) (adjust_qty symbol q) fe ts = Inr (a, r)"
      "e' = e\<lparr>bt_acct := a\<rparr>"
  using assms by (auto simp: engine_buy_def Let_def not_le split: if_splits option.splits)

lemma engine_sell_cases:
  assumes "engine_sell c e symbol q why ts price = Inr (e', r)"
  obtains (skip) "e' = e" "r = False"
  | (order) mp fe tx a tr where "0 < adjust_qty symbol q" "market_price e symbol price = Some mp" "0 < mp"
      "model_fee (fills_of e) (fill_price (fills_of e) SELL mp) (adjust_qty symbol q) = Inr fe"
      "sell_tax c symbol (fill_price (fills_of e) SELL mp) (adjust_qty symbol q) = Inr tx"
      "apply_sell (bt_acct e) symbol (fill_price (fills_of e) SELL mp) (adjust_qty symbol q) fe ts tx = Inr (a, tr)"
      "r \<longleftrightarrow> tr \<noteq> None" "bt_acct e' = a" "fills_of e' = fills_of e"
      "tr = None \<longrightarrow> e' = e\<lparr>bt_acct := a\<rparr>"
  using assms
  by (auto simp: engine_sell_def Let_def not_le split: if_splits option.splits)

lemma engine_buy_ok:
  assumes "engine_buy e symbol q ts price = Inr (e', r)" "engine_ok c e"
  shows "engine_ok c e'"
  using assms(1)
proof (cases rule: engine_buy_cases)
  case skip
  with assms(2) show ?thesis by simp
next
  case (order mp fe a)
  then show ?thesis using assms(2) apply_buy_ok [OF order(5)] by (simp add: engine_ok_def)
qed

lemma engine_sell_ok:
  assumes "engine_sell c e symbol q why ts price = Inr (e', r)" "engine_ok c e"
  shows "engine_ok c e'"
  using assms(1)
proof (cases rule: engine_sell_cases)
  case skip
  with assms(2) show ?thesis by simp
next
  case (order mp fe tx a tr)
  let ?M = "dmul (fill_price (fills_of e) SELL mp) (adjust_qty symbol q)"
  have s: "sane_fills c (fills_of e)" using assms(2) by (simp add: engine_ok_def)
  have M: "0 \<le> ?M" using fill_price_nonneg [OF s order(3)] order(1) by (simp add: dmul_def)
  have f: "fe \<le> ?M / 2"
    using rate_bound(2) [OF order(4) [unfolded model_fee_def] M] s by (simp add: sane_fills_def)
  have t: "0 \<le> tx \<and> tx \<le> ?M / 2 \<and> dec tx = tx"
  proof (cases "asset_class symbol = STOCK_KR")
    case True
    then have "quantize rhe 4 (dmul ?M (STOCK_SELL_TAX_RATE c)) = Inr tx"
      using order(5) by (simp add: sell_tax_def)
    from rate_bound [OF this M] s show ?thesis by (simp add: sane_fills_def)
  next
    case False
    then show ?thesis using order(5) M by (simp add: sell_tax_def)
  qed
  have "account_ok a"
    using apply_sell_ok [OF order(6)] proceeds_nonneg [OF M f] t assms(2) by (simp add: engine_ok_def)
  then show ?thesis using order s by (simp add: engine_ok_def)
qed

lemma account_ok_qty: "account_ok a \<Longrightarrow> 0 \<le> bt_qty a s"
  by (auto simp: account_ok_def bt_qty_def less_imp_le split: option.split)

text \<open>The engine between two marks: the peak and the drawdown are those of the last mark.\<close>

definition engine_at :: "settings \<Rightarrow> rat \<Rightarrow> rat \<Rightarrow> bt_engine \<Rightarrow> bool" where
  "engine_at c P D e \<longleftrightarrow> engine_ok c e \<and> peak_equity e = P \<and> max_dd e = D"

lemma engine_buy_marks:
  "engine_buy e symbol q ts price = Inr (e', r) \<Longrightarrow> peak_equity e' = peak_equity e \<and> max_dd e' = max_dd e"
  by (auto elim: engine_buy_cases)

lemma engine_sell_marks:
  "engine_sell c e symbol q why ts price = Inr (e', r) \<Longrightarrow> peak_equity e' = peak_equity e \<and> max_dd e' = max_dd e"
  by (auto simp: engine_sell_def Let_def split: if_splits option.splits)

interpretation backtest: solvent_broker "engine_broker c" "engine_at c P D" for c P D
proof
  show "engine_at c P D b \<Longrightarrow> 0 \<le> b_cash (engine_broker c) b" for b
    by (simp add: engine_broker_def engine_ok_def account_ok_def engine_at_def)
  show "engine_at c P D b \<Longrightarrow> 0 \<le> position_qty (engine_broker c) b s" for b s
    by (simp add: engine_broker_def engine_ok_def account_ok_qty engine_at_def)
  show "engine_at c P D b \<Longrightarrow> b_buy (engine_broker c) b s q ts p = Inr (b', r) \<Longrightarrow> engine_at c P D b'"
    for b s q ts p b' r
    using engine_buy_ok engine_buy_marks by (auto simp: engine_broker_def engine_at_def)
  show "engine_at c P D b \<Longrightarrow> b_sell (engine_broker c) b s q why ts p = Inr (b', r) \<Longrightarrow> engine_at c P D b'"
    for b s q why ts p b' r
    using engine_sell_ok engine_sell_marks by (auto simp: engine_broker_def engine_at_def)
  show "b_buy (engine_broker c) b s q ts p = Inr (b', False) \<Longrightarrow> b' = b" for b s q ts p b'
    by (auto simp: engine_broker_def elim!: engine_buy_cases apply_buy_cases)
  show "b_sell (engine_broker c) b s q why ts p = Inr (b', False) \<Longrightarrow> b' = b" for b s q why ts p b'
    by (auto simp: engine_broker_def elim!: engine_sell_cases apply_sell_cases)
qed

end
