(* ===== verification/LedgerRefinement.thy ===== *)
theory LedgerRefinement
  imports Backtest
begin

text \<open>
  The backtest account refines the ledger.  \<open>batch/backtest/account.py\<close> states that its
  arithmetic is that of \<open>portfolio.updater.apply_execution\<close>; here a backtest account and the
  rows of one ledger account are related by \<open>mirrors\<close>, and every fill takes related states to
  related states with the same verdict, for amounts whose products fit the 28 digits of the
  decimal context.
\<close>

section \<open>Values with a bounded number of decimals\<close>

definition dp :: "nat \<Rightarrow> rat \<Rightarrow> bool" where
  "dp k x \<longleftrightarrow> x * 10 ^ k \<in> \<int>"

lemma dp_add [intro]: "dp k x \<Longrightarrow> dp k y \<Longrightarrow> dp k (x + y)"
  by (simp add: dp_def distrib_right)

lemma dp_diff [intro]: "dp k x \<Longrightarrow> dp k y \<Longrightarrow> dp k (x - y)"
  by (simp add: dp_def left_diff_distrib)

lemma dp_mult [intro]: "dp j x \<Longrightarrow> dp k y \<Longrightarrow> dp (j + k) (x * y)"
proof -
  assume "dp j x" "dp k y"
  then have "(x * 10 ^ j) * (y * 10 ^ k) \<in> \<int>" unfolding dp_def by (rule Ints_mult)
  then show ?thesis by (simp add: dp_def power_add ac_simps)
qed

lemma dp_mono: "dp j x \<Longrightarrow> j \<le> k \<Longrightarrow> dp k x"
proof -
  assume x: "dp j x" and "j \<le> k"
  then have pw: "(10 :: rat) ^ k = 10 ^ j * 10 ^ (k - j)" by (simp flip: power_add)
  have "(x * 10 ^ j) * 10 ^ (k - j) \<in> \<int>"
    using x unfolding dp_def by (rule Ints_mult) (intro Ints_power Ints_numeral)
  then show ?thesis unfolding dp_def pw by (simp only: mult.assoc)
qed

lemma dp_quantized: "dp k (of_int n / 10 ^ k)"
  by (simp add: dp_def)

lemma dp_dec:
  assumes "dp k x" "\<bar>x\<bar> \<le> 10 ^ (28 - k)" "k \<le> 28" shows "dec x = x"
proof (rule dec_exact [of k])
  have "of_int \<lfloor>x * 10 ^ k\<rfloor> = x * 10 ^ k" using assms(1) by (simp add: dp_def of_int_floor)
  moreover have "\<bar>x\<bar> * 10 ^ k \<le> 10 ^ (28 - k) * 10 ^ k" using assms(2) by (intro mult_right_mono zero_le_power) simp_all
  then have "\<bar>x * 10 ^ k\<bar> \<le> 10 ^ 28" using assms(3) by (simp add: abs_mult flip: power_add)
  ultimately show "dec_ok k x" by (simp add: dec_ok_def)
qed

lemma dp_numeric:
  assumes "dp k x" "\<bar>x\<bar> < 10 ^ (p - k)" shows "numeric p k x = Inr x"
  using numeric_exact [OF of_int_floor [OF assms(1) [unfolded dp_def]]] assms(2) by simp

text \<open>Quantizing half up and storing in \<open>NUMERIC(20,4)\<close> are the same rounding.\<close>

lemma numeric_q4: "q4 x = Inr y \<Longrightarrow> \<bar>y\<bar> < 10 ^ 16 \<Longrightarrow> numeric 20 4 x = Inr y"
  by (auto simp: quantize_Inr_iff numeric_Inr_iff)

lemma q4_bounds: "q4 x = Inr y \<Longrightarrow> 0 \<le> x \<Longrightarrow> 0 \<le> y \<and> y \<le> x + 1"
  using abs_le_D1 [OF quantize_rhu(1) [of 4 x y]] quantize_rhu(2) [of 4 x y] by auto

lemma dp_q4: "q4 x = Inr y \<Longrightarrow> dp 4 y"
  by (auto simp: quantize_Inr_iff dp_def)

section \<open>The simulation\<close>

definition mirrors :: "db \<Rightarrow> string \<Rightarrow> bt_account \<Rightarrow> bool" where
  "mirrors db acct a \<longleftrightarrow>
     (\<exists>r. map_of (accounts db) acct = Some r \<and> krw_balance r = bt_cash a) \<and>
     (\<forall>s p. map_of (bt_positions a) s = Some p \<longrightarrow> 0 < pos_qty p \<and>
        (\<exists>r. map_of (positions db) (acct, s) = Some r \<and>
             p_quantity r = pos_qty p \<and> avg_buy_price r = pos_avg p)) \<and>
     (\<forall>s r. map_of (bt_positions a) s = None \<longrightarrow> map_of (positions db) (acct, s) = Some r \<longrightarrow>
        p_quantity r = 0)"

text \<open>Amounts that fit: eight decimals, at most \<open>10 ^ 11\<close>, an acquisition price below \<open>10 ^ 15\<close>.\<close>

definition fits :: "bt_account \<Rightarrow> string \<Rightarrow> rat \<Rightarrow> rat \<Rightarrow> rat \<Rightarrow> bool" where
  "fits a s price q fe \<longleftrightarrow>
     dp 8 price \<and> dp 8 q \<and> dp 4 fe \<and> dp 4 (bt_cash a) \<and>
     0 < price \<and> 0 < q \<and> 0 \<le> fe \<and> 0 \<le> bt_cash a \<and>
     price \<le> 10 ^ 11 \<and> q \<le> 10 ^ 11 \<and> fe \<le> 10 ^ 11 \<and> price * q \<le> 10 ^ 11 \<and> bt_cash a \<le> 10 ^ 11 \<and>
     price * q + fe \<le> 10 ^ 15 * q \<and>
     (\<forall>p. map_of (bt_positions a) s = Some p \<longrightarrow>
        dp 8 (pos_qty p) \<and> dp 4 (pos_avg p) \<and> 0 \<le> pos_avg p \<and> pos_qty p \<le> 10 ^ 11 \<and>
        pos_avg p \<le> 10 ^ 15 \<and> pos_qty p * pos_avg p \<le> 10 ^ 15)"

definition message_of :: "execution \<Rightarrow> string \<Rightarrow> string \<Rightarrow> side \<Rightarrow> rat \<Rightarrow> rat \<Rightarrow> rat \<Rightarrow> bool" where
  "message_of ex acct s d price q fe \<longleftrightarrow>
     x_account ex = acct \<and> x_symbol ex = s \<and> x_side ex = d \<and> x_price ex = price \<and>
     x_quantity ex = q \<and> x_fee ex = fe"

text \<open>A new message for a known order; \<open>ndiv\<close> agrees with the decimal quotient to four decimals.\<close>

definition fresh_message :: "db \<Rightarrow> execution \<Rightarrow> bool" where
  "fresh_message db ex \<longleftrightarrow> map_of (executions db) (x_id ex) = None \<and> map_of (orders db) (x_order ex) \<noteq> None"

definition divides_like_decimal :: "(rat \<Rightarrow> rat \<Rightarrow> rat) \<Rightarrow> rat \<Rightarrow> rat \<Rightarrow> bool" where
  "divides_like_decimal ndiv x y \<longleftrightarrow> numeric 20 4 (ndiv x y) = numeric 20 4 (dec (x / y))"

text \<open>The one division of a purchase, the average cost of the row that exists: the server's quotient and the
  decimal one are the same at four decimals.  They are wherever the exact quotient is not too near to a tie.\<close>

definition buy_division_agrees :: "(rat \<Rightarrow> rat \<Rightarrow> rat) \<Rightarrow> db \<Rightarrow> string \<Rightarrow> string \<Rightarrow> rat \<Rightarrow> rat \<Rightarrow> rat \<Rightarrow> bool" where
  "buy_division_agrees ndiv db acct s price q fe =
     (case (map_of (positions db) (acct, s), q4 (dec ((price * q + fe) / q))) of
        (Some r, Inr unit_cost) \<Rightarrow>
          divides_like_decimal ndiv (p_quantity r * avg_buy_price r + q * unit_cost) (p_quantity r + q)
      | _ \<Rightarrow> True)"

lemma rhu_off_tie:
  assumes "\<bar>x - y\<bar> \<le> d" "\<And>n :: int. d < \<bar>y - (of_int n + 1 / 2)\<bar>" "0 \<le> x" "0 \<le> y"
  shows "rhu x = rhu y"
proof -
  let ?n = "\<lfloor>y + 1 / 2\<rfloor>"
  have y: "of_int ?n \<le> y + 1 / 2" "y + 1 / 2 < of_int ?n + 1" by linarith+
  have "d < \<bar>y - (of_int (?n - 1) + 1 / 2)\<bar>" "d < \<bar>y - (of_int ?n + 1 / 2)\<bar>" by (rule assms(2))+
  then have "of_int ?n \<le> x + 1 / 2" "x + 1 / 2 < of_int ?n + 1" using y assms(1) by (simp_all add: abs_if split: if_splits)
  then have "\<lfloor>x + 1 / 2\<rfloor> = ?n" by linarith
  then show ?thesis using assms(3,4) by (simp add: rhu_def)
qed

lemma division_agrees_off_ties:
  assumes "\<bar>ndiv x y - x / y\<bar> \<le> d" "\<bar>dec (x / y) - x / y\<bar> \<le> d" "0 \<le> ndiv x y" "0 \<le> x / y"
    and "\<And>n :: int. d < \<bar>x / y - (of_int n + 1 / 2) / 10 ^ 4\<bar>"
  shows "divides_like_decimal ndiv x y"
proof -
  let ?Q = "x / y"
  have t: "d * 10 ^ 4 < \<bar>?Q * 10 ^ 4 - (of_int n + 1 / 2)\<bar>" for n :: int
  proof -
    have "?Q * 10 ^ 4 - (of_int n + 1 / 2) = (?Q - (of_int n + 1 / 2) / 10 ^ 4) * 10 ^ 4" by (simp add: left_diff_distrib add_divide_distrib distrib_right)
    then have "\<bar>?Q * 10 ^ 4 - (of_int n + 1 / 2)\<bar> = \<bar>?Q - (of_int n + 1 / 2) / 10 ^ 4\<bar> * 10 ^ 4"
      by (simp only: abs_mult) simp
    with assms(5) [of n] show ?thesis by simp
  qed
  have scale: "\<bar>v * 10 ^ 4 - ?Q * 10 ^ 4\<bar> \<le> d * 10 ^ 4" if "\<bar>v - ?Q\<bar> \<le> d" for v
  proof -
    have "\<bar>v * 10 ^ 4 - ?Q * 10 ^ 4\<bar> = \<bar>v - ?Q\<bar> * 10 ^ 4"
      unfolding left_diff_distrib [symmetric] abs_mult by simp
    also have "\<dots> \<le> d * 10 ^ 4" using that by (rule mult_right_mono) simp
    finally show ?thesis .
  qed
  have "rhu (ndiv x y * 10 ^ 4) = rhu (?Q * 10 ^ 4)"
    using scale [OF assms(1)] t by (rule rhu_off_tie) (use assms(3) mult_nonneg_nonneg [OF assms(4), of "10 ^ 4"] in simp_all)
  moreover have "rhu (dec ?Q * 10 ^ 4) = rhu (?Q * 10 ^ 4)"
    using scale [OF assms(2)] t by (rule rhu_off_tie) (use assms(4) mult_nonneg_nonneg [OF assms(4), of "10 ^ 4"] in simp_all)
  ultimately show ?thesis by (simp add: divides_like_decimal_def numeric_def)
qed

lemma fits_exact:
  assumes "fits a s price q fe"
  shows "dmul price q = price * q" "dadd (dmul price q) fe = price * q + fe"
    "dsub (bt_cash a) (price * q + fe) = bt_cash a - (price * q + fe)"
    "dp 16 (price * q + fe)"
proof -
  note f = assms [unfolded fits_def]
  have pq: "0 \<le> price * q" using f by simp
  have p16: "dp 16 (price * q)" using dp_mult [of 8 price 8 q] f by simp
  have f16: "dp 16 fe" "dp 16 (bt_cash a)" using f by (auto intro: dp_mono [of 4])
  show d: "dmul price q = price * q"
    unfolding dmul_def using f by (intro dp_dec [OF p16]) (simp_all add: abs_mult)
  show c: "dp 16 (price * q + fe)" using p16 f16 by blast
  show "dadd (dmul price q) fe = price * q + fe"
    unfolding d dadd_def using f by (intro dp_dec [OF c]) simp_all
  show "dsub (bt_cash a) (price * q + fe) = bt_cash a - (price * q + fe)"
    unfolding dsub_def
  proof (rule dp_dec [of 16])
    show "dp 16 (bt_cash a - (price * q + fe))" using c f16 by blast
    define M where "M = price * q"
    have "0 \<le> M" "M \<le> 10 ^ 11" "0 \<le> fe" "fe \<le> 10 ^ 11" "0 \<le> bt_cash a" "bt_cash a \<le> 10 ^ 11"
      using f pq by (simp_all add: M_def)
    then show "\<bar>bt_cash a - (price * q + fe)\<bar> \<le> 10 ^ (28 - 16)"
      unfolding M_def [symmetric] by (simp add: abs_le_iff)
  qed simp
qed

lemma record_execution_ok:
  assumes "fresh_message db ex" "map_of (accounts db) (x_account ex) \<noteq> None"
    "\<bar>x_price ex\<bar> \<le> 10 ^ 15" "\<bar>x_fee ex\<bar> \<le> 10 ^ 15" "\<bar>x_quantity ex\<bar> \<le> 10 ^ 15"
  obtains ex' where "record_execution db ex = Inr (db\<lparr>executions := AList.update (x_id ex) ex' (executions db)\<rparr>)"
proof -
  have n: "\<exists>y. numeric p k x = Inr y" if "\<bar>x\<bar> \<le> 10 ^ 15" "p - k = 16" for p k :: nat and x
  proof -
    have e: "\<bar>of_int (rhu (x * 10 ^ k)) - x * 10 ^ k\<bar> \<le> 1 / 2"
      using rhu_bounds [of "x * 10 ^ k"] by linarith
    have "of_int (rhu (x * 10 ^ k)) / 10 ^ k - x = (of_int (rhu (x * 10 ^ k)) - x * 10 ^ k) / 10 ^ k"
      by (simp add: diff_divide_distrib)
    then have "\<bar>of_int (rhu (x * 10 ^ k)) / 10 ^ k - x\<bar> = \<bar>of_int (rhu (x * 10 ^ k)) - x * 10 ^ k\<bar> / 10 ^ k"
      by (simp only: abs_divide power_abs abs_numeral)
    also have "\<dots> \<le> (1 / 2) / 10 ^ k" using e by (intro divide_right_mono) simp_all
    also have "\<dots> \<le> 1 / 1"
      using one_le_power [of "10 :: rat" k] by (intro frac_le) simp_all
    finally have "\<bar>of_int (rhu (x * 10 ^ k)) / 10 ^ k\<bar> \<le> \<bar>x\<bar> + 1" by linarith
    also have "\<dots> < 10 ^ (p - k)" using that by simp
    finally show ?thesis by (auto simp: numeric_Inr_iff)
  qed
  from n [OF assms(3), of 20 4] n [OF assms(4), of 20 4] n [OF assms(5), of 28 12]
  obtain a b d where "numeric 20 4 (x_price ex) = Inr a" "numeric 20 4 (x_fee ex) = Inr b"
    "numeric 28 12 (x_quantity ex) = Inr d" by auto
  with assms(1,2) show ?thesis
    by (intro that [of "ex\<lparr>x_price := a, x_quantity := d, x_fee := b\<rparr>"])
       (simp add: record_execution_def fresh_message_def)
qed

lemma numeric_of_q4:
  assumes "q4 x = Inr y" "0 \<le> x" "x \<le> 10 ^ 15 + 10 ^ 14" shows "numeric 20 4 x = Inr y"
  using q4_bounds [OF assms(1,2)] assms(3) by (intro numeric_q4 [OF assms(1)]) simp

lemma buy_rejected:
  assumes "mirrors db acct a" "fresh_message db ex" "message_of ex acct s BUY price q fe"
    and "bt_cash a < dadd (dmul price q) fe"
  shows "apply_execution ndiv db ex = Inr (reject db (x_order ex))"
  using assms by (auto simp: mirrors_def fresh_message_def message_of_def apply_execution_def Let_def)

lemma mirrors_set_status [simp]: "mirrors (set_status db oid cond st) acct a = mirrors db acct a"
  by (simp add: mirrors_def)

lemma mirrors_reject [simp]: "mirrors (fst (reject db oid)) acct a = mirrors db acct a"
  by (simp add: reject_def)

text \<open>The position a purchase leaves, in the account and in the upserted row.\<close>

lemma bought_position:
  assumes m: "mirrors db acct a" and f: "fits a s price q fe"
    and n: "\<And>r. map_of (positions db) (acct, s) = Some r \<Longrightarrow>
      divides_like_decimal ndiv (p_quantity r * avg_buy_price r + q * unit_cost) (p_quantity r + q)"
    and u: "0 \<le> u" "u \<le> 10 ^ 15 + 10 ^ 14" "q4 u = Inr unit_cost" "unit_cost * q \<le> 10 ^ 12"
    and p': "(\<forall>p. map_of (bt_positions a) s = Some p \<longrightarrow> pos_qty p \<le> 0) \<and> pos_qty p' = q \<and> pos_avg p' = unit_cost
       \<or> (\<exists>p v. map_of (bt_positions a) s = Some p \<and> 0 < pos_qty p \<and> pos_qty p' = dadd (pos_qty p) q
            \<and> ddiv (dadd (dmul (pos_qty p) (pos_avg p)) (dmul q unit_cost)) (dadd (pos_qty p) q) = Inr v
            \<and> q4 v = Inr (pos_avg p'))"
    and pos: "positions db' = positions db"
  shows "upsert_position ndiv db' acct s q u =
    Inr (db'\<lparr>positions := AList.update (acct, s) \<lparr>p_quantity = pos_qty p', avg_buy_price = pos_avg p'\<rparr>
      (positions db')\<rparr>)"
proof -
  note g = f [unfolded fits_def]
  have q: "numeric 28 12 q = Inr q"
    using g by (intro dp_numeric) (auto intro: dp_mono [of 8])
  have uc: "numeric 20 4 u = Inr unit_cost" by (rule numeric_of_q4 [OF u(3,1,2)])
  have uc4: "dp 4 unit_cost" "0 \<le> unit_cost" "unit_cost \<le> 10 ^ 15 + 10 ^ 14 + 1"
    using dp_q4 [OF u(3)] q4_bounds [OF u(3,1)] u(2) by auto
  show ?thesis
  proof (cases "map_of (bt_positions a) s")
    case None
    with p' have e: "pos_qty p' = q" "pos_avg p' = unit_cost" by auto
    from m None have z: "map_of (positions db) (acct, s) = Some r \<Longrightarrow> p_quantity r = 0" for r
      by (simp add: mirrors_def)
    show ?thesis
    proof (cases "map_of (positions db) (acct, s)")
      case None
      then show ?thesis using q uc g pos e by (simp add: upsert_position_def)
    next
      case (Some r)
      have d: "dec (q * unit_cost / q) = unit_cost"
        using g uc4 by (simp add: dp_dec [of 4])
      have "numeric 20 4 (ndiv (q * unit_cost) q) = numeric 20 4 unit_cost"
        using n [OF Some] z [OF Some] d unfolding divides_like_decimal_def by simp
      also have "\<dots> = Inr unit_cost" using uc4 by (intro dp_numeric) simp_all
      finally show ?thesis
        using Some z [OF Some] q uc g pos e by (cases r) (simp add: upsert_position_def)
    qed
  next
    case (Some p)
    with m obtain r where r: "0 < pos_qty p" "map_of (positions db) (acct, s) = Some r"
        "p_quantity r = pos_qty p" "avg_buy_price r = pos_avg p"
      unfolding mirrors_def by blast
    from p' Some r(1) obtain v where v: "pos_qty p' = dadd (pos_qty p) q"
        "ddiv (dadd (dmul (pos_qty p) (pos_avg p)) (dmul q unit_cost)) (dadd (pos_qty p) q) = Inr v"
        "q4 v = Inr (pos_avg p')" by auto
    have pp: "dp 8 (pos_qty p)" "dp 4 (pos_avg p)" "0 \<le> pos_avg p" "pos_qty p \<le> 10 ^ 11"
        "pos_avg p \<le> 10 ^ 15" "pos_qty p * pos_avg p \<le> 10 ^ 15"
      using g Some by auto
    have nq8: "dp 8 (pos_qty p + q)" using pp g by blast
    have nq: "dadd (pos_qty p) q = pos_qty p + q"
      unfolding dadd_def using pp g r by (intro dp_dec [OF nq8]) simp_all
    have nq': "numeric 28 12 (pos_qty p + q) = Inr (pos_qty p + q)"
      using pp g r by (intro dp_numeric dp_mono [OF nq8]) simp_all
    have m1: "dp 12 (pos_qty p * pos_avg p)" "dp 12 (q * unit_cost)"
      using dp_mult [OF pp(1,2)] dp_mult [of 8 q 4 unit_cost] g uc4 by simp_all
    have m1b: "0 \<le> pos_qty p * pos_avg p" "0 \<le> q * unit_cost" using pp r g uc4 by simp_all
    have d1: "dmul (pos_qty p) (pos_avg p) = pos_qty p * pos_avg p"
      unfolding dmul_def using pp m1b by (intro dp_dec [OF m1(1)]) simp_all
    have d2: "dmul q unit_cost = q * unit_cost"
      unfolding dmul_def using u(4) m1b by (intro dp_dec [OF m1(2)]) (simp_all add: mult.commute)
    define N where "N = pos_qty p * pos_avg p + q * unit_cost"
    have N: "dp 12 N" "0 \<le> N" "N \<le> 10 ^ 15 + 10 ^ 12"
      using m1 m1b pp u(4) by (auto simp: N_def mult.commute)
    have d3: "dadd (pos_qty p * pos_avg p) (q * unit_cost) = N"
      unfolding dadd_def N_def [symmetric] using N by (intro dp_dec [OF N(1)]) simp_all
    have D: "0 < pos_qty p + q" using r g by simp
    have v': "v = dec (N / (pos_qty p + q))"
      using v(2) D unfolding d1 d2 d3 nq by (simp add: ddiv_def split: if_splits)
    have "N \<le> (10 ^ 15 + 10 ^ 14 + 1) * (pos_qty p + q)"
    proof -
      have "pos_qty p * pos_avg p \<le> pos_qty p * (10 ^ 15 + 10 ^ 14 + 1)"
        using pp r by (intro mult_left_mono) simp_all
      moreover have "q * unit_cost \<le> q * (10 ^ 15 + 10 ^ 14 + 1)"
        using uc4 g by (intro mult_left_mono) simp_all
      ultimately show ?thesis by (simp add: N_def algebra_simps)
    qed
    then have "N / (pos_qty p + q) \<le> 10 ^ 15 + 10 ^ 14 + 1" using D by (simp add: pos_divide_le_eq)
    then have "v \<le> dec (10 ^ 15 + 10 ^ 14 + 1)" unfolding v' by (rule dec_mono)
    moreover have "dec (10 ^ 15 + 10 ^ 14 + 1 :: rat) = 10 ^ 15 + 10 ^ 14 + 1" by (rule dec_lit) simp_all
    moreover have v0: "0 \<le> v" unfolding v' using N D by simp
    ultimately have "pos_avg p' \<le> 10 ^ 15 + 10 ^ 14 + 2" "0 \<le> pos_avg p'" using q4_bounds [OF v(3)] by auto
    then have av: "numeric 20 4 v = Inr (pos_avg p')" by (intro numeric_q4 [OF v(3)]) simp
    have "numeric 20 4 (ndiv N (pos_qty p + q)) = Inr (pos_avg p')"
      using n [OF r(2)] av unfolding divides_like_decimal_def v' N_def r(3,4) by simp
    then show ?thesis
      using r q uc g pos D v(1) nq nq' by (simp add: upsert_position_def N_def)
  qed
qed

lemma buy_simulation:
  assumes m: "mirrors db acct a" and f: "fits a s price q fe" and n: "buy_division_agrees ndiv db acct s price q fe"
    and x: "fresh_message db ex" "message_of ex acct s BUY price q fe"
    and b: "apply_buy a s price q fe ts = Inr (a', ok)"
  shows "\<exists>db'. apply_execution ndiv db ex = Inr (db', if ok then Applied else Rejected) \<and> mirrors db' acct a'"
  using b
proof (cases rule: apply_buy_cases)
  case refused
  then show ?thesis
    using buy_rejected [OF m x refused(3), of ndiv] m by (simp add: reject_def)
next
  case (bought cash u unit_cost p')
  note g = f [unfolded fits_def]
  note ex = fits_exact [OF f]
  let ?cost = "price * q + fe"
  note mo = x(2) [unfolded message_of_def]
  from m obtain acc where acc: "map_of (accounts db) acct = Some acc" "krw_balance acc = bt_cash a"
    by (auto simp: mirrors_def)
  have pq: "0 \<le> price * q" using g by simp
  have cost: "0 \<le> ?cost" "?cost \<le> bt_cash a" "?cost \<le> 10 ^ 15 * q" using bought(2) ex pq g by simp_all
  have sub: "numeric 20 4 (bt_cash a - ?cost) = Inr cash"
  proof (rule numeric_of_q4)
    show "q4 (bt_cash a - ?cost) = Inr cash" using bought(3) ex(2,3) by simp
    show "0 \<le> bt_cash a - ?cost" using cost by linarith
    have "bt_cash a - ?cost \<le> bt_cash a" using cost by linarith
    also have "\<dots> \<le> 10 ^ 15 + 10 ^ 14" using g by simp
    finally show "bt_cash a - ?cost \<le> 10 ^ 15 + 10 ^ 14" .
  qed
  have cash: "0 \<le> cash" by (rule numeric_nonneg [OF sub]) (use cost in simp)
  have qpos: "0 < q" using g by simp
  have u: "u = dec (?cost / q)" "ddiv ?cost q = Inr u" using bought(4) ex(2) by (auto simp: ddiv_def split: if_splits)
  have "?cost / q \<le> 10 ^ 15" using cost qpos by (simp add: pos_divide_le_eq)
  then have "u \<le> dec (10 ^ 15)" unfolding u(1) by (rule dec_mono)
  moreover have "dec (10 ^ 15 :: rat) = 10 ^ 15" by (rule dec_lit) simp_all
  ultimately have u1: "u \<le> 10 ^ 15 + 10 ^ 14" by simp
  have u0: "0 \<le> u" unfolding u(1) using cost qpos by simp
  have uq: "unit_cost * q \<le> 10 ^ 12"
  proof -
    have "unit_cost \<le> u + 1" using q4_bounds [OF bought(5) u0] by simp
    also have "u \<le> ?cost / q * (1 + EPS)"
      using dec_upper [of "?cost / q"] cost qpos unfolding u(1) by simp
    also have "\<dots> \<le> ?cost / q * 2"
      using cost qpos by (intro mult_left_mono) (simp_all add: EPS_def)
    finally have "unit_cost * q \<le> (?cost / q * 2 + 1) * q"
      using qpos by (intro mult_right_mono) simp_all
    also have "\<dots> = ?cost * 2 + q" using qpos by (simp add: field_simps)
    also have "\<dots> \<le> 10 ^ 12" using cost g by simp
    finally show ?thesis .
  qed
  have amounts: "\<bar>x_price ex\<bar> \<le> 10 ^ 15" "\<bar>x_fee ex\<bar> \<le> 10 ^ 15" "\<bar>x_quantity ex\<bar> \<le> 10 ^ 15"
    using mo g by simp_all
  from record_execution_ok [OF x(1) _ amounts] acc mo obtain ex' where
    r: "record_execution db ex = Inr (db\<lparr>executions := AList.update (x_id ex) ex' (executions db)\<rparr>)" by auto
  let ?d1 = "db\<lparr>executions := AList.update (x_id ex) ex' (executions db)\<rparr>"
  let ?d2 = "?d1\<lparr>accounts := AList.update acct (acc\<lparr>krw_balance := cash\<rparr>) (accounts db)\<rparr>"
  let ?d3 = "?d2\<lparr>positions := AList.update (acct, s) \<lparr>p_quantity = pos_qty p', avg_buy_price = pos_avg p'\<rparr>
      (positions db)\<rparr>"
  have a1: "add_balance ?d1 acct (- ?cost) = Inr ?d2"
    using acc sub cash by (simp add: add_balance_def del: minus_add_distrib)
  have n': "divides_like_decimal ndiv (p_quantity r * avg_buy_price r + q * unit_cost) (p_quantity r + q)"
    if "map_of (positions db) (acct, s) = Some r" for r
    using n that bought(5) unfolding u(1) by (simp add: buy_division_agrees_def)
  have a2: "upsert_position ndiv ?d2 acct s q u = Inr ?d3"
    using bought_position [OF m f n' u0 u1 bought(5) uq bought(7), of ?d2] by simp
  have "apply_execution ndiv db ex = Inr (set_status ?d3 (x_order ex) (\<lambda>_. True) FILLED, Applied)"
    using r a1 a2 u(2) x(1) mo acc cost ex
    by (simp add: apply_execution_def Let_def fresh_message_def)
  moreover have "0 < pos_qty p'" using bought(7) qpos by (auto simp: dadd_def)
  then have "mirrors ?d3 acct a'"
    using m bought(6) by (auto simp: mirrors_def update_conv')
  ultimately show ?thesis using bought(1) by auto
qed

lemma sell_simulation:
  assumes m: "mirrors db acct a" and f: "fits a s price q fe"
    and t: "dp 4 tx" "0 \<le> tx" "fe + tx \<le> price * q"
    and x: "fresh_message db ex" "message_of ex acct s SELL price q (fe + tx)"
    and b: "apply_sell a s price q fe ts tx = Inr (a', tr)"
  shows "\<exists>db'. apply_execution ndiv db ex = Inr (db', if tr = None then Rejected else Applied) \<and> mirrors db' acct a'"
  using b
proof (cases rule: apply_sell_cases)
  case refused
  have "apply_execution ndiv db ex = Inr (reject db (x_order ex))"
  proof (cases "map_of (bt_positions a) s")
    case None
    with m have "map_of (positions db) (acct, s) = Some r \<Longrightarrow> p_quantity r = 0" for r
      by (simp add: mirrors_def)
    then show ?thesis
      using x f by (auto simp: fresh_message_def message_of_def apply_execution_def Let_def fits_def
          split: option.split)
  next
    case (Some p)
    with m refused(3) obtain r where "map_of (positions db) (acct, s) = Some r" "p_quantity r < q"
      unfolding mirrors_def by fastforce
    then show ?thesis
      using x by (simp add: fresh_message_def message_of_def apply_execution_def Let_def)
  qed
  then show ?thesis using refused m by (simp add: reject_def)
next
  case (sold p cash t' ps)
  note g = f [unfolded fits_def]
  note mo = x(2) [unfolded message_of_def]
  from m obtain acc where acc: "map_of (accounts db) acct = Some acc" "krw_balance acc = bt_cash a"
    by (auto simp: mirrors_def)
  from m sold(2) obtain r where r: "0 < pos_qty p" "map_of (positions db) (acct, s) = Some r"
      "p_quantity r = pos_qty p" "avg_buy_price r = pos_avg p"
    unfolding mirrors_def by blast
  have pp: "dp 8 (pos_qty p)" "pos_qty p \<le> 10 ^ 11" using g sold(2) by auto
  define M where "M = price * q"
  have M: "dmul price q = M" "dp 16 M" "0 \<le> M" "M \<le> 10 ^ 11"
    using fits_exact(1) [OF f] dp_mult [of 8 price 8 q] g by (simp_all add: M_def)
  have ft: "dp 16 fe" "dp 16 tx" "0 \<le> fe" "0 \<le> tx" "fe + tx \<le> M" "dp 16 (bt_cash a)"
      "0 \<le> bt_cash a" "bt_cash a \<le> 10 ^ 11"
    using g t dp_mono [of 4 _ 16] by (simp_all add: M_def)
  have d1: "dsub M fe = M - fe"
    unfolding dsub_def using M ft by (intro dp_dec [of 16] dp_diff) (simp_all add: abs_le_iff)
  have d2: "dsub (M - fe) tx = M - (fe + tx)"
    unfolding dsub_def using M ft dp_dec [of 16 "M - (fe + tx)"] dp_diff [of 16 M "fe + tx"] dp_add [of 16 fe tx]
    by (simp add: abs_le_iff algebra_simps)
  have d3: "dadd (bt_cash a) (M - (fe + tx)) = bt_cash a + (M - (fe + tx))"
    unfolding dadd_def using M ft dp_diff [of 16 M "fe + tx"] dp_add [of 16 fe tx]
    by (intro dp_dec [of 16] dp_add) (simp_all add: abs_le_iff)
  have d4: "dsub M (fe + tx) = M - (fe + tx)"
    unfolding dsub_def using M ft dp_add [of 16 fe tx]
    by (intro dp_dec [of 16] dp_diff) (simp_all add: abs_le_iff)
  have add: "numeric 20 4 (bt_cash a + (M - (fe + tx))) = Inr cash"
    using sold(4) M ft unfolding M(1) d1 d2 d3 by (intro numeric_of_q4) simp_all
  have cash: "0 \<le> cash" by (rule numeric_nonneg [OF add]) (use M ft in simp)
  have dq: "dp 8 (pos_qty p - q)" using pp g by blast
  have nq: "dsub (pos_qty p) q = pos_qty p - q"
    unfolding dsub_def using pp g sold(3) by (intro dp_dec [OF dq]) (simp_all add: abs_le_iff)
  have nq': "numeric 28 12 (pos_qty p - q) = Inr (pos_qty p - q)"
    using pp g sold(3) by (intro dp_numeric dp_mono [OF dq]) (simp_all add: abs_less_iff)
  have amounts: "\<bar>x_price ex\<bar> \<le> 10 ^ 15" "\<bar>x_fee ex\<bar> \<le> 10 ^ 15" "\<bar>x_quantity ex\<bar> \<le> 10 ^ 15"
    using mo g ft M by simp_all
  from record_execution_ok [OF x(1) _ amounts] acc mo obtain ex' where
    rc: "record_execution db ex = Inr (db\<lparr>executions := AList.update (x_id ex) ex' (executions db)\<rparr>)" by auto
  let ?d1 = "db\<lparr>executions := AList.update (x_id ex) ex' (executions db)\<rparr>"
  let ?d2 = "?d1\<lparr>accounts := AList.update acct (acc\<lparr>krw_balance := cash\<rparr>) (accounts db)\<rparr>"
  let ?d3 = "?d2\<lparr>positions := AList.update (acct, s) (r\<lparr>p_quantity := pos_qty p - q\<rparr>) (positions db)\<rparr>"
  have a1: "add_balance ?d1 acct (M - (fe + tx)) = Inr ?d2"
    using acc add cash by (simp add: add_balance_def)
  have a2: "reduce_position ?d2 acct s q = Inr ?d3"
    using r nq' sold(3) by (simp add: reduce_position_def)
  have "apply_execution ndiv db ex = Inr (set_status ?d3 (x_order ex) (\<lambda>_. True) FILLED, Applied)"
    using rc a1 a2 x(1) mo r sold(3) M(1) d4
    by (simp add: apply_execution_def Let_def fresh_message_def)
  moreover have "mirrors ?d3 acct a'"
  proof (cases "pos_qty p - q \<le> 0")
    case True
    then have "ps = AList.delete s (bt_positions a)" "pos_qty p = q" using sold(3,7) nq by auto
    then show ?thesis using m sold(5) by (auto simp: mirrors_def update_conv' delete_conv')
  next
    case False
    then obtain p' where "ps = AList.update s p' (bt_positions a)" "pos_qty p' = pos_qty p - q" "pos_avg p' = pos_avg p"
      using sold(7) nq by auto
    then show ?thesis using m sold(5) r False by (auto simp: mirrors_def update_conv')
  qed
  ultimately show ?thesis using sold(1) by auto
qed

section \<open>Properties\<close>

text \<open>C25: The backtest buys as the ledger books: when a backtest account mirrors a ledger
  account, \<open>apply_buy\<close> and \<open>apply_execution\<close> on the same fill take the same decision, and
  afterwards the account again mirrors the ledger, cash, quantity and average cost included,
  when the one division of the purchase, that of the average cost of an existing row, gives the
  server the same four decimals as the decimal quotient.\<close>

theorem backtest_buy_refines_ledger:
  assumes "mirrors db acct a" "fits a s price q fe" "buy_division_agrees ndiv db acct s price q fe"
    and "fresh_message db ex" "message_of ex acct s BUY price q fe"
    and "apply_buy a s price q fe ts = Inr (a', ok)"
  shows "\<exists>db'. apply_execution ndiv db ex = Inr (db', if ok then Applied else Rejected) \<and> mirrors db' acct a'"
  by (rule buy_simulation [OF assms])

definition demo_account :: bt_account where
  "demo_account = \<lparr>initial_cash = 1000, bt_cash = 7999 / 10, bt_positions =
     [(''KRW-BTC'', \<lparr>pos_qty = 2, pos_avg = 10005 / 100, entry_ts = 0, entry_price = 100, entry_fee = 1 / 10\<rparr>)]\<rparr>"

text \<open>A second purchase of a coin that is held, so that the server divides.\<close>

definition held_db :: db where
  "held_db = demo_db\<lparr>accounts := [(''demo'', \<lparr>krw_balance = 7999 / 10, auto_trade = True\<rparr>)],
     positions := [((''demo'', ''KRW-BTC''), \<lparr>p_quantity = 2, avg_buy_price = 10005 / 100\<rparr>)]\<rparr>"

lemma demo_arith:
  "dadd (dmul 100 2) (1 / 10) = 2001 / 10" "q4 (dsub (7999 / 10) (2001 / 10)) = Inr (2999 / 5)"
  "ddiv (2001 / 10) 2 = Inr (2001 / 20)" "q4 (2001 / 20) = Inr (2001 / 20)" "dadd 2 2 = 4" "dmul 2 (2001 / 20) = 2001 / 10"
  "dadd (2001 / 10) (2001 / 10) = 2001 / 5" "ddiv (2001 / 5) 4 = Inr (2001 / 20)"
  by (simp_all add: dadd_def dsub_def dmul_def ddiv_def dec_lit quantize_def rhu_def)

lemma demo_buy: "\<exists>a. apply_buy demo_account ''KRW-BTC'' 100 2 (1 / 10) 0 = Inr (a, True)"
  by (simp add: apply_buy_def Let_def demo_account_def demo_arith)

lemma demo_divides: "buy_division_agrees (/) held_db ''demo'' ''KRW-BTC'' 100 2 (1 / 10)"
  by (simp add: buy_division_agrees_def held_db_def divides_like_decimal_def dec_lit quantize_def rhu_def numeric_def)

lemma demo_dp: "dp 8 100" "dp 8 2" "dp 4 (1 / 10)" "dp 4 1000" "dp 4 (7999 / 10)" "dp 4 (10005 / 100)" "dp 8 110"
  "dp 4 (2 / 10)"
  by (simp_all add: dp_def)

theorem backtest_buy_refines_ledger_witness:
  "\<exists>db' a. apply_execution (/) held_db demo_ex = Inr (db', Applied) \<and>
     apply_buy demo_account ''KRW-BTC'' 100 2 (1 / 10) 0 = Inr (a, True) \<and> mirrors db' ''demo'' a"
proof -
  obtain a where b: "apply_buy demo_account ''KRW-BTC'' 100 2 (1 / 10) 0 = Inr (a, True)" using demo_buy by blast
  have "mirrors held_db ''demo'' demo_account" "fits demo_account ''KRW-BTC'' 100 2 (1 / 10)"
    "fresh_message held_db demo_ex" "message_of demo_ex ''demo'' ''KRW-BTC'' BUY 100 2 (1 / 10)"
    using demo_dp
    by (simp_all add: mirrors_def fits_def demo_account_def held_db_def demo_db_def fresh_message_def message_of_def demo_ex_def)
  from backtest_buy_refines_ledger [OF this(1,2) demo_divides this(3,4) b] b show ?thesis by auto
qed

text \<open>The backtest sells as the ledger books: with the transaction tax counted in the fee of
  the message, \<open>apply_sell\<close> and \<open>apply_execution\<close> both refuse or both fill, and afterwards
  the account again mirrors the ledger; a position sold out is a row of quantity zero.\<close>

lemma backtest_sell_refines_ledger:
  assumes "mirrors db acct a" "fits a s price q fe" "dp 4 tx" "0 \<le> tx" "fe + tx \<le> price * q"
    and "fresh_message db ex" "message_of ex acct s SELL price q (fe + tx)"
    and "apply_sell a s price q fe ts tx = Inr (a', tr)"
  shows "\<exists>db'. apply_execution ndiv db ex = Inr (db', if tr = None then Rejected else Applied) \<and> mirrors db' acct a'"
  by (rule sell_simulation [OF assms])

end
