(* ===== verification/Metrics.thy ===== *)
theory Metrics
  imports Backtest
begin

text \<open>
  Performance metrics, \<open>batch/backtest/metrics.py\<close>.  \<open>statistics.mean\<close>, \<open>pvariance\<close> and
  \<open>pstdev\<close> compute with exact fractions and round once, so they are defined here.
\<close>

definition mean_exact :: "rat list \<Rightarrow> rat" where
  "mean_exact xs = sum_list xs / of_nat (length xs)"

definition var_exact :: "rat list \<Rightarrow> rat" where
  "var_exact xs = sum_list (map (\<lambda>x. (x - mean_exact xs) ^ 2) xs) / of_nat (length xs)"

definition st_mean :: "rat list \<Rightarrow> rat" where "st_mean xs = fl (mean_exact xs)"
definition st_pvariance :: "rat list \<Rightarrow> rat" where "st_pvariance xs = fl (var_exact xs)"
definition st_pstdev :: "libm \<Rightarrow> rat list \<Rightarrow> rat" where "st_pstdev m xs = f_sqrt m (var_exact xs)"

definition SECONDS_PER_YEAR :: rat where "SECONDS_PER_YEAR = 31536000"
definition EULER_MASCHERONI :: rat where "EULER_MASCHERONI = fl (5772156649015329 / 10 ^ 16)"
definition MATH_E :: rat where "MATH_E = fl (2718281828459045 / 10 ^ 15)"

section \<open>Sharpe ratios\<close>

definition per_period_sharpe :: "libm \<Rightarrow> rat list \<Rightarrow> rat option" where
  "per_period_sharpe m returns =
     (if length returns < 2 then None
      else let sd = st_pstdev m returns
           in if sd = 0 then None else Some (fquo (st_mean returns) sd))"

definition skew_kurt :: "libm \<Rightarrow> rat list \<Rightarrow> rat \<times> rat" where
  "skew_kurt m returns =
     (let n = length returns
      in if n < 2 then (0, 3)
         else
           let mean = st_mean returns; sd = st_pstdev m returns
           in if sd = 0 then (0, 3)
              else (fquo (fsum (map (\<lambda>x. f_pow m (fquo (fsub x mean) sd) 3) returns)) (of_nat n),
                    fquo (fsum (map (\<lambda>x. f_pow m (fquo (fsub x mean) sd) 4) returns)) (of_nat n)))"

definition probabilistic_sharpe :: "libm \<Rightarrow> rat \<Rightarrow> nat \<Rightarrow> rat \<Rightarrow> rat \<Rightarrow> rat \<Rightarrow> rat option" where
  "probabilistic_sharpe m sr n skew kurt benchmark =
     (let denom = fadd (fsub 1 (fmul skew sr)) (fmul (fmul (fquo (fsub kurt 1) 4) sr) sr)
      in if n < 2 \<or> denom \<le> 0 then None
         else
           let z = fquo (fmul (fsub sr benchmark) (f_sqrt m (of_nat (n - 1)))) (f_sqrt m denom)
           in Some (f_cdf m z))"

definition expected_max_sharpe :: "libm \<Rightarrow> rat \<Rightarrow> nat \<Rightarrow> rat res" where
  "expected_max_sharpe m sr_variance n_trials =
     (if n_trials < 2 \<or> sr_variance \<le> 0 then Inr 0
      else
        rbind (f_inv_cdf m (fsub 1 (fquo 1 (of_nat n_trials)))) (\<lambda>z1.
        rbind (f_inv_cdf m (fsub 1 (fquo 1 (fmul (of_nat n_trials) MATH_E)))) (\<lambda>z2.
          Inr (fmul (f_sqrt m sr_variance)
                 (fadd (fmul (fsub 1 EULER_MASCHERONI) z1) (fmul EULER_MASCHERONI z2))))))"

definition deflated_sharpe :: "libm \<Rightarrow> rat list \<Rightarrow> rat \<Rightarrow> nat \<Rightarrow> rat option res" where
  "deflated_sharpe m returns sr_variance n_trials =
     (case per_period_sharpe m returns of
        None \<Rightarrow> Inr None
      | Some sr \<Rightarrow>
          let (skew, kurt) = skew_kurt m returns
          in rbind (expected_max_sharpe m sr_variance n_trials) (\<lambda>sr_star.
               Inr (probabilistic_sharpe m sr (length returns) skew kurt sr_star)))"

definition sharpe_from_returns :: "libm \<Rightarrow> rat list \<Rightarrow> rat \<Rightarrow> rat" where
  "sharpe_from_returns m rets periods =
     (if length rets < 2 then 0
      else let sd = st_pstdev m rets
           in if 0 < sd then fmul (fquo (st_mean rets) sd) (f_sqrt m periods) else 0)"

text \<open>\<open>[v[i] / v[i-1] - 1 for i in range(1, len(v)) if v[i-1] > 0]\<close>.\<close>

fun bar_returns :: "rat list \<Rightarrow> rat list" where
  "bar_returns (a # b # vs) = (if 0 < a then [fsub (fquo b a) 1] else []) @ bar_returns (b # vs)"
| "bar_returns vs = []"

definition annualized_sharpe :: "libm \<Rightarrow> rat list \<Rightarrow> rat \<Rightarrow> rat" where
  "annualized_sharpe m values periods = sharpe_from_returns m (bar_returns values) periods"

section \<open>Returns, drawdown and trade statistics\<close>

definition total_return :: "rat \<Rightarrow> rat \<Rightarrow> rat" where
  "total_return initial final = (if 0 < initial then dec (dsub final initial / initial) else 0)"

fun drawdown_loop :: "rat option \<Rightarrow> rat \<Rightarrow> rat list \<Rightarrow> rat" where
  "drawdown_loop peak mdd [] = mdd"
| "drawdown_loop peak mdd (v # vs) =
     (let p = (case peak of None \<Rightarrow> v | Some p0 \<Rightarrow> if p0 < v then v else p0);
          dd = dec (dsub p v / p)
      in drawdown_loop (Some p) (if 0 < p \<and> mdd < dd then dd else mdd) vs)"

definition max_drawdown :: "rat list \<Rightarrow> rat" where
  "max_drawdown values = drawdown_loop None 0 values"

record trade_statistics =
  num_trades :: nat
  win_rate :: rat
  num_wins :: nat
  num_losses :: nat
  gross_profit :: rat
  gross_loss :: rat
  profit_factor :: "rat option"
  avg_win :: rat
  avg_loss :: rat
  total_fees :: rat
  total_tax :: rat
  avg_holding_sec :: rat

definition trade_stats :: "closed_trade list \<Rightarrow> trade_statistics" where
  "trade_stats trades =
     (let n = length trades;
          wins = filter (\<lambda>t. 0 < c_pnl t) trades;
          losses = filter (\<lambda>t. c_pnl t \<le> 0) trades;
          profit = dsum 0 (map c_pnl wins);
          loss = dsum 0 (map (\<lambda>t. dneg (c_pnl t)) losses)
      in \<lparr>num_trades = n,
          win_rate = (if n = 0 then 0 else dec (of_nat (length wins) / of_nat n)),
          num_wins = length wins, num_losses = length losses,
          gross_profit = profit, gross_loss = loss,
          profit_factor = (if 0 < loss then Some (dec (profit / loss)) else None),
          avg_win = (if wins = [] then 0 else dec (profit / of_nat (length wins))),
          avg_loss = (if losses = [] then 0 else dec (loss / of_nat (length losses))),
          total_fees = dsum 0 (map (\<lambda>t. dadd (c_buy_fee t) (c_sell_fee t)) trades),
          total_tax = dsum 0 (map c_sell_tax trades),
          avg_holding_sec = (if n = 0 then 0 else fquo (fsum (map holding_sec trades)) (of_nat n))\<rparr>)"

record metrics =
  initial_equity :: rat
  m_final_equity :: rat
  m_total_return :: rat
  m_max_drawdown :: rat
  sharpe_annualized :: rat
  m_trades :: trade_statistics

definition compute_metrics ::
  "libm \<Rightarrow> closed_trade list \<Rightarrow> (rat \<times> rat) list \<Rightarrow> rat \<Rightarrow> rat \<Rightarrow> rat option \<Rightarrow> rat \<Rightarrow> rat option \<Rightarrow> metrics" where
  "compute_metrics m trades curve initial final mdd_override sample_sec periods =
     (let eq_values = map snd curve;
          ppy = (case periods of Some p \<Rightarrow> p
                 | None \<Rightarrow> if 0 < sample_sec then fquo SECONDS_PER_YEAR sample_sec else SECONDS_PER_YEAR)
      in \<lparr>initial_equity = initial, m_final_equity = final,
          m_total_return = total_return initial final,
          m_max_drawdown = (case mdd_override of Some d \<Rightarrow> d | None \<Rightarrow> max_drawdown eq_values),
          sharpe_annualized = annualized_sharpe m (map fl eq_values) ppy,
          m_trades = trade_stats trades\<rparr>)"

section \<open>The engine's running drawdown\<close>

text \<open>The account values the replay observes, one after each tick.\<close>

fun marks :: "('s, bt_engine) strategy \<Rightarrow> bt_engine \<Rightarrow> 's \<Rightarrow> market_tick list \<Rightarrow> rat list" where
  "marks on_tick e s [] = []"
| "marks on_tick e s (t # ts) =
     (case on_tick s t (tick_start e t) of
        Inl x \<Rightarrow> []
      | Inr (s', e') \<Rightarrow>
          (case tick_end e' t of
             None \<Rightarrow> []
           | Some e'' \<Rightarrow> final_equity e'' # marks on_tick e'' s' ts))"

text \<open>What a strategy that acts only through the broker leaves alone.\<close>

definition broker_only :: "settings \<Rightarrow> ('s, bt_engine) strategy \<Rightarrow> bool" where
  "broker_only c on_tick \<longleftrightarrow> (\<forall>P D s t e s' e'. engine_at c P D e \<longrightarrow> on_tick s t e = Inr (s', e') \<longrightarrow>
     engine_at c P D e')"

lemma tick_start_marks [simp]:
  "peak_equity (tick_start e t) = peak_equity e" "max_dd (tick_start e t) = max_dd e"
  by (simp_all add: tick_start_def Let_def split: option.split)

lemma tick_end_marks:
  assumes "tick_end e t = Some e'"
  shows "final_equity e' = bt_equity (bt_acct e) (last_price e)"
    "drawdown_loop (Some (peak_equity e)) (max_dd e) (final_equity e' # vs)
       = drawdown_loop (Some (peak_equity e')) (max_dd e') vs"
  using assms by (auto simp: tick_end_def mark_to_market_def Let_def split: option.splits)

lemma tick_end_ok: "tick_end e t = Some e' \<Longrightarrow> engine_ok c e \<Longrightarrow> engine_ok c e'"
  by (auto simp: tick_end_def mark_to_market_def Let_def engine_ok_def split: option.splits)

lemma tick_start_ok: "engine_ok c e \<Longrightarrow> engine_ok c (tick_start e t)"
  by (simp add: tick_start_def Let_def engine_ok_def split: option.split)

lemma replay_drawdown:
  assumes "replay on_tick e s ts = Some (Inr (s', e'))" "broker_only c on_tick" "engine_ok c e"
  shows "engine_ok c e' \<and>
    max_dd e' = drawdown_loop (Some (peak_equity e)) (max_dd e) (marks on_tick e s ts)"
  using assms(1,3)
proof (induction ts arbitrary: e s)
  case (Cons t ts)
  from Cons.prems(1) obtain s1 e1 e2 where h: "on_tick s t (tick_start e t) = Inr (s1, e1)"
      "tick_end e1 t = Some e2" "replay on_tick e2 s1 ts = Some (Inr (s', e'))"
    by (auto split: sum.splits option.splits)
  have "engine_at c (peak_equity e) (max_dd e) (tick_start e t)"
    using tick_start_ok [OF Cons.prems(2)] by (simp add: engine_at_def)
  with h(1) assms(2) have k: "engine_at c (peak_equity e) (max_dd e) e1"
    unfolding broker_only_def by blast
  then have "engine_ok c e2" using tick_end_ok [OF h(2)] by (simp add: engine_at_def)
  from Cons.IH [OF h(3) this] tick_end_marks(2) [OF h(2), of "marks on_tick e2 s1 ts"] k h show ?case
    by (simp add: engine_at_def del: drawdown_loop.simps)
qed simp

lemma drawdown_start: "0 \<le> mdd \<Longrightarrow> drawdown_loop None mdd (v # vs) = drawdown_loop (Some v) mdd vs"
  by (simp add: Let_def dsub_def)

text \<open>A drawdown lies between 0 and 1 when no value is negative.\<close>

lemma drawdown_loop_bounds:
  assumes "list_all (\<lambda>v. 0 \<le> v \<and> dec v = v) vs" "0 \<le> mdd" "mdd \<le> 1"
    and "\<forall>p. peak = Some p \<longrightarrow> dec p = p"
  shows "0 \<le> drawdown_loop peak mdd vs \<and> drawdown_loop peak mdd vs \<le> 1"
  using assms
proof (induction vs arbitrary: peak mdd)
  case (Cons v vs)
  define p where "p = (case peak of None \<Rightarrow> v | Some p0 \<Rightarrow> if p0 < v then v else p0)"
  define dd where "dd = dec (dsub p v / p)"
  have p: "dec p = p" using Cons.prems by (auto simp: p_def split: option.split)
  have "dd \<le> 1" if "0 < p"
  proof -
    have "dsub p v \<le> dec p" using Cons.prems(1) unfolding dsub_def by (intro dec_mono) simp
    then have "dsub p v / p \<le> 1" using that p by simp
    then have "dd \<le> dec 1" unfolding dd_def by (rule dec_mono)
    then show ?thesis using dec_lit [of 1] by simp
  qed
  then have "0 \<le> drawdown_loop (Some p) (if 0 < p \<and> mdd < dd then dd else mdd) vs \<and>
      drawdown_loop (Some p) (if 0 < p \<and> mdd < dd then dd else mdd) vs \<le> 1"
    using Cons.prems p by (intro Cons.IH) auto
  then show ?case
    unfolding drawdown_loop.simps Let_def by (fold p_def) (fold dd_def)
qed simp

section \<open>The sampling grid ends\<close>

lemma grid_steps:
  assumes "0 < n" "0 \<le> r" "r < n" "0 \<le> mark" "mark + n * int k + r \<le> 2 ^ 53"
  shows "grid (of_int (mark + n * int k + r)) (of_int n) eq (of_int mark) curve =
    Some (of_int (mark + n * int k), curve @ map (\<lambda>i. (of_int (mark + n * int i), eq)) [1..<Suc k])"
  using assms
proof (induction k arbitrary: mark curve)
  case 0
  then have "fsub (of_int (mark + r)) (of_int mark) = of_int r"
    using fl_of_int [of r] by (simp add: fsub_def)
  with 0 show ?case by (subst grid.simps) simp
next
  case (Suc k)
  have nk: "0 \<le> n * int k" using Suc.prems(1) by simp
  have ex: "n * int (Suc k) = n + n * int k" by (simp add: algebra_simps)
  have le: "mark + n \<le> 2 ^ 53" "mark + n * int (Suc k) + r - mark \<le> 2 ^ 53"
    using Suc.prems(2-5) nk unfolding ex by linarith+
  have d: "fsub (of_int (mark + n * int (Suc k) + r)) (of_int mark) = of_int (n * int (Suc k) + r)"
    using fl_of_int [of "n * int (Suc k) + r"] le(2) Suc.prems nk by (simp add: fsub_def)
  have a: "fadd (of_int mark) (of_int n) = of_int (mark + n)"
    using fl_of_int [of "mark + n"] le(1) Suc.prems by (simp add: fadd_def)
  have g: "(of_int n :: rat) \<le> of_int (n * int (Suc k) + r)"
    using Suc.prems nk by (simp only: of_int_le_iff) (simp add: algebra_simps)
  have m: "mark + n * int (Suc k) + r = (mark + n) + n * int k + r" by (simp add: algebra_simps)
  have l: "map (\<lambda>i. (of_int (mark + n * int i) :: rat, eq)) [1..<Suc (Suc k)] =
      (of_int (mark + n), eq) # map (\<lambda>i. (of_int ((mark + n) + n * int i), eq)) [1..<Suc k]"
    by (simp add: upt_conv_Cons map_Suc_upt [symmetric] algebra_simps del: upt_Suc)
  have "grid (of_int (mark + n * int (Suc k) + r)) (of_int n) eq (of_int mark) curve =
      grid (of_int ((mark + n) + n * int k + r)) (of_int n) eq (of_int (mark + n)) (curve @ [(of_int (mark + n), eq)])"
    by (subst grid.simps, subst d, subst if_P [OF g]) (simp only: a m)
  also have "\<dots> = Some (of_int ((mark + n) + n * int k),
      (curve @ [(of_int (mark + n), eq)]) @ map (\<lambda>i. (of_int ((mark + n) + n * int i), eq)) [1..<Suc k])"
    using Suc.prems m by (intro Suc.IH) simp_all
  finally show ?case unfolding l by (simp add: algebra_simps)
qed

section \<open>Properties\<close>

text \<open>The engine's tick-by-tick drawdown is the reference: after a replay that starts from a
  new engine and ends, with any strategy that acts only through the broker, \<open>max_drawdown\<close> of
  the engine equals the pure \<open>metrics.max_drawdown\<close> of the initial cash followed by the account
  values after each tick, and the account holds no negative cash and no empty or short position.\<close>

lemma engine_drawdown_is_reference:
  assumes "replay on_tick (new_engine (new_account cash) f sample) s ts = Some (Inr (s', e'))"
    and "broker_only c on_tick" "sane_fills c f" "0 \<le> cash"
  shows "max_dd e' = max_drawdown (cash # marks on_tick (new_engine (new_account cash) f sample) s ts)
    \<and> account_ok (bt_acct e')"
proof -
  have ok: "engine_ok c (new_engine (new_account cash) f sample)"
    using assms(3,4) by (simp add: engine_ok_def new_engine_def new_account_def account_ok_def)
  from replay_drawdown [OF assms(1,2) ok] show ?thesis
    using drawdown_start [of 0 cash] by (simp add: max_drawdown_def engine_ok_def new_engine_def new_account_def
        del: drawdown_loop.simps)
qed

definition buy_once :: "settings \<Rightarrow> (bool, bt_engine) strategy" where
  "buy_once c bought t e =
     (if bought then Inr (True, e)
      else rbind (b_buy (engine_broker c) e (t_symbol t) 1 (t_ts t) None) (\<lambda>(e', r). Inr (r, e')))"

lemma buy_once_broker_only: "broker_only c (buy_once c)"
  using backtest.buy_good unfolding broker_only_def buy_once_def
  by (fastforce split: if_splits)

definition demo_ticks :: "market_tick list" where
  "demo_ticks = [\<lparr>t_symbol = ''KRW-BTC'', t_price = 100, t_ts = 0\<rparr>, \<lparr>t_symbol = ''KRW-BTC'', t_price = 60, t_ts = 60\<rparr>]"

definition demo_fills :: fill_model where
  "demo_fills = \<lparr>fee_rate = 0, slippage_bps = 0\<rparr>"

lemma demo_asset: "asset_class ''KRW-BTC'' = COIN" "\<not> is_stock ''KRW-BTC''"
  by (simp_all add: asset_class_def is_stock_def)

lemma grid_stop: "fsub ts mark < sample \<Longrightarrow> grid ts sample eq mark curve = Some (mark, curve)"
  by (subst grid.simps) simp

lemma demo_replay:
  "\<exists>e'. replay (buy_once default_settings) (new_engine (new_account 200) demo_fills 60) False demo_ticks
     = Some (Inr (True, e')) \<and> max_dd e' = 2 / 10"
proof -
  have g: "grid 60 60 200 0 [(0, 200)] = Some (60, [(0, 200), (60, 200)])"
    using grid_steps [of 60 0 0 1 200 "[(0, 200)]"] by (simp add: upt_rec)
  have f: "fsub 0 0 < (60 :: rat)" by (simp add: fsub_def)
  show ?thesis
    by (simp add: demo_ticks_def new_engine_def new_account_def tick_start_def Let_def bt_equity_def
        buy_once_def engine_broker_def engine_buy_def adjust_qty_def demo_asset market_price_def demo_fills_def
        fill_price_def model_fee_def quantize_def dmul_def dadd_def dsub_def ddiv_def dec_lit rhe_def rhu_def
        apply_buy_def tick_end_def mark_to_market_def grid_stop [OF f] g)
qed

text \<open>A drawdown is a fraction: for account values that are decimals and not negative,
  \<open>max_drawdown\<close> lies between 0 and 1, all roundings included.\<close>

lemma max_drawdown_is_fraction:
  assumes "list_all (\<lambda>v. 0 \<le> v \<and> dec v = v) values"
  shows "0 \<le> max_drawdown values \<and> max_drawdown values \<le> 1"
  unfolding max_drawdown_def by (rule drawdown_loop_bounds [OF assms]) simp_all

text \<open>The sampling loop of the replay ends and does not look ahead: between whole seconds it
  appends exactly one sample per grid point up to the tick, every one with the account value
  carried forward from the previous tick, and stops less than one interval before the tick.\<close>

lemma grid_samples_carry_forward:
  assumes "0 < n" "0 \<le> r" "r < n" "0 \<le> mark" "mark + n * int k + r \<le> 2 ^ 53"
  shows "grid (of_int (mark + n * int k + r)) (of_int n) eq (of_int mark) curve =
    Some (of_int (mark + n * int k), curve @ map (\<lambda>i. (of_int (mark + n * int i), eq)) [1..<Suc k])"
  by (rule grid_steps [OF assms])

end
