(* ===== verification/Indicators.thy ===== *)
theory Indicators
  imports Broker Config
begin

text \<open>
  The indicators of \<open>trading/strategy/core/indicators.py\<close>, on floats, and the decision
  functions of \<open>trading/strategy/plugins/sma_trader.py\<close>, on decimals.  \<open>None\<close> is missing
  data.  Windows are lists, oldest price first.
\<close>

section \<open>Float indicators\<close>

definition floats :: "rat list \<Rightarrow> rat list" where
  "floats prices = map fl prices"

text \<open>The gains and losses of the last \<open>period\<close> changes, summed in order.\<close>

fun gain_loss :: "rat \<Rightarrow> rat \<Rightarrow> rat list \<Rightarrow> rat \<times> rat" where
  "gain_loss gains losses (a # b # ps) =
     (let change = fsub b a
      in if 0 \<le> change then gain_loss (fadd gains change) losses (b # ps)
         else gain_loss gains (fsub losses change) (b # ps))"
| "gain_loss gains losses ps = (gains, losses)"

definition rsi :: "rat list \<Rightarrow> nat \<Rightarrow> rat option" where
  "rsi prices period =
     (let p = floats prices
      in if length p < period + 1 then None
         else
           let (gains, losses) = gain_loss 0 0 (takelast (period + 1) p);
               avg_gain = fquo gains (of_nat period); avg_loss = fquo losses (of_nat period)
           in if avg_loss = 0 then Some (if 0 < avg_gain then 100 else 50)
              else let rs = fquo avg_gain avg_loss
                   in Some (fsub 100 (fquo 100 (fadd 1 rs))))"

definition bollinger :: "libm \<Rightarrow> rat list \<Rightarrow> nat \<Rightarrow> rat \<Rightarrow> (rat \<times> rat \<times> rat) option" where
  "bollinger m prices window k =
     (let p = floats prices
      in if length p < window then None
         else
           let w = takelast window p;
               mid = fquo (fsum w) (of_nat window);
               var = fquo (fsum (map (\<lambda>x. f_pow m (fsub x mid) 2) w)) (of_nat window);
               sd = f_pow m var (1 / 2)
           in Some (fsub mid (fmul k sd), mid, fadd mid (fmul k sd)))"

definition donchian :: "rat list \<Rightarrow> nat \<Rightarrow> (rat \<times> rat) option" where
  "donchian prices lookback =
     (let p = floats prices
      in if length p < lookback + 1 then None
         else let prior = butlast (takelast (lookback + 1) p)
              in Some (Min (set prior), Max (set prior)))"

record ema =
  ema_k :: rat
  ema_value :: "rat option"

definition new_ema :: "nat \<Rightarrow> ema" where
  "new_ema n = \<lparr>ema_k = fquo 2 (fadd (of_nat n) 1), ema_value = None\<rparr>"

definition ema_update :: "ema \<Rightarrow> rat \<Rightarrow> ema \<times> rat" where
  "ema_update e x =
     (let x = fl x;
          v = (case ema_value e of
                 None \<Rightarrow> x | Some v \<Rightarrow> fadd (fmul x (ema_k e)) (fmul v (fsub 1 (ema_k e))))
      in (e\<lparr>ema_value := Some v\<rparr>, v))"

section \<open>Moving averages and exits\<close>

text \<open>\<open>p[-n:]\<close>; for \<open>n = 0\<close> Python returns the whole list.\<close>

definition tail :: "nat \<Rightarrow> 'a list \<Rightarrow> 'a list" where
  "tail n p = (if n = 0 then p else takelast n p)"

datatype signal = Buy_Signal | Sell_Signal

definition sma_gap :: "settings \<Rightarrow> rat list \<Rightarrow> rat option res" where
  "sma_gap c p =
     (if length p < SMA_LONG c then Inr None
      else
        rbind (ddiv (dsum 0 (tail (SMA_SHORT c) p)) (of_nat (SMA_SHORT c))) (\<lambda>short.
        rbind (ddiv (dsum 0 (tail (SMA_LONG c) p)) (of_nat (SMA_LONG c))) (\<lambda>long.
          Inr (if long \<le> 0 then None else Some (dec (dsub short long / long))))))"

definition sma_state :: "settings \<Rightarrow> rat list \<Rightarrow> signal option res" where
  "sma_state c p =
     rbind (sma_gap c p) (\<lambda>g. Inr (case g of
       None \<Rightarrow> None
     | Some gap \<Rightarrow>
         if STRATEGY_ENTRY_BAND c \<le> gap then Some Buy_Signal
         else if gap \<le> dneg (STRATEGY_ENTRY_BAND c) then Some Sell_Signal
         else None))"

definition position_fraction :: "settings \<Rightarrow> rat \<Rightarrow> rat" where
  "position_fraction c gap =
     (let gap_range = dsub (STRATEGY_STRONG_GAP c) (STRATEGY_ENTRY_BAND c)
      in if gap_range \<le> 0 then STRATEGY_ORDER_FRACTION_MAX c
         else
           let t = max 0 (min 1 (dec (dsub (dabs gap) (STRATEGY_ENTRY_BAND c) / gap_range)))
           in dadd (STRATEGY_ORDER_FRACTION_MIN c)
                (dmul (dsub (STRATEGY_ORDER_FRACTION_MAX c) (STRATEGY_ORDER_FRACTION_MIN c)) t))"

definition STOP :: "settings \<Rightarrow> rat" where "STOP c = dec (STRATEGY_STOP_LOSS_PCT c / 100)"
definition TAKE :: "settings \<Rightarrow> rat" where "TAKE c = dec (STRATEGY_TAKE_PROFIT_PCT c / 100)"
definition ARM :: "settings \<Rightarrow> rat" where "ARM c = dec (STRATEGY_TRAIL_ARM_PCT c / 100)"
definition GIVEBACK :: "settings \<Rightarrow> rat" where "GIVEBACK c = dec (STRATEGY_TRAIL_GIVEBACK_PCT c / 100)"

definition liquidation_reason :: "settings \<Rightarrow> rat \<Rightarrow> rat \<Rightarrow> string option" where
  "liquidation_reason c pnl peak =
     (if pnl \<le> dneg (STOP c) then Some ''STOP''
      else if TAKE c \<le> pnl then Some ''TAKE''
      else if ARM c \<le> peak \<and> pnl \<le> dsub peak (GIVEBACK c) then Some ''TRAIL''
      else None)"

text \<open>The dictionaries of a strategy instance that the exits maintain.\<close>

record guard_state =
  g_peak :: "(string \<times> rat) list"
  g_entry :: "(string \<times> rat) list"
  g_exit :: "(string \<times> rat) list"

definition no_guards :: guard_state where
  "no_guards = \<lparr>g_peak = [], g_entry = [], g_exit = []\<rparr>"

definition exited :: "guard_state \<Rightarrow> string \<Rightarrow> rat \<Rightarrow> guard_state" where
  "exited g symbol now =
     g\<lparr>g_exit := AList.update symbol now (g_exit g), g_peak := AList.delete symbol (g_peak g),
       g_entry := AList.delete symbol (g_entry g)\<rparr>"

definition entered :: "guard_state \<Rightarrow> string \<Rightarrow> rat \<Rightarrow> guard_state" where
  "entered g symbol now =
     g\<lparr>g_entry := AList.update symbol now (g_entry g), g_peak := AList.delete symbol (g_peak g)\<rparr>"

definition check_liquidations ::
  "settings \<Rightarrow> 'b broker \<Rightarrow> guard_state \<Rightarrow> string \<Rightarrow> rat \<Rightarrow> rat \<Rightarrow> 'b \<Rightarrow> (guard_state \<times> 'b) res" where
  "check_liquidations c B g symbol price now b =
     (let q = position_qty B b symbol; av = position_avg B b symbol
      in if q \<le> 0 \<or> av \<le> 0 then Inr (g\<lparr>g_peak := AList.delete symbol (g_peak g)\<rparr>, b)
         else
           let pnl = dsub (dec (price / av)) 1;
               peak = max (get_or (g_peak g) symbol pnl) pnl;
               g1 = g\<lparr>g_peak := AList.update symbol peak (g_peak g)\<rparr>
           in case liquidation_reason c pnl peak of
                None \<Rightarrow> Inr (g1, b)
              | Some why \<Rightarrow>
                  rbind (b_sell B b symbol q why now None) (\<lambda>(b', ok).
                    Inr (if ok then exited g1 symbol now else g1, b')))"

section \<open>Bounds\<close>

lemma fl_loss: "b < a \<Longrightarrow> 0 \<le> l \<Longrightarrow> fl (b - a) \<le> l"
  by (rule order.trans [of _ 0]) simp_all

lemma gain_loss_nonneg:
  "0 \<le> g \<Longrightarrow> 0 \<le> l \<Longrightarrow> gain_loss g l ps = (g', l') \<Longrightarrow> 0 \<le> g' \<and> 0 \<le> l'"
  by (induction g l ps rule: gain_loss.induct) (auto simp: Let_def fadd_def fsub_def not_le fl_loss split: if_splits)

lemma fl_1 [simp]: "fl (1 :: rat) = 1" and fl_100 [simp]: "fl (100 :: rat) = 100"
  by (rule fl_lit; simp)+

lemma rsi_range:
  assumes "rsi prices period = Some r" shows "0 \<le> r \<and> r \<le> 100"
proof -
  obtain g l where gl: "gain_loss 0 0 (takelast (period + 1) (floats prices)) = (g, l)" by fastforce
  from gain_loss_nonneg [OF _ _ this] have n: "0 \<le> g" "0 \<le> l" by auto
  define rs where "rs = fquo (fquo g (of_nat period)) (fquo l (of_nat period))"
  have rs: "0 \<le> rs" unfolding rs_def fquo_def using n by simp
  have "fl 1 \<le> fl (1 + rs)" using rs by (intro fl_mono) simp
  then have "1 \<le> fadd 1 rs" by (simp add: fadd_def)
  then have "100 / fadd 1 rs \<le> 100" "0 \<le> 100 / fadd 1 rs" by (simp_all add: divide_le_eq)
  then have "fl (100 / fadd 1 rs) \<le> fl 100" by (intro fl_mono)
  then have q: "fquo 100 (fadd 1 rs) \<le> 100" "0 \<le> fquo 100 (fadd 1 rs)"
    using \<open>1 \<le> fadd 1 rs\<close> by (simp_all add: fquo_def)
  then have "fl (100 - fquo 100 (fadd 1 rs)) \<le> fl 100" by (intro fl_mono) simp
  with q have "fsub 100 (fquo 100 (fadd 1 rs)) \<le> 100" "0 \<le> fsub 100 (fquo 100 (fadd 1 rs))"
    by (simp_all add: fsub_def)
  then show ?thesis
    using assms gl by (auto simp: rsi_def Let_def rs_def split: if_splits)
qed

lemma position_fraction_range:
  assumes "0 \<le> STRATEGY_ORDER_FRACTION_MIN c" "STRATEGY_ORDER_FRACTION_MIN c \<le> STRATEGY_ORDER_FRACTION_MAX c"
    and "dec (STRATEGY_ORDER_FRACTION_MAX c) = STRATEGY_ORDER_FRACTION_MAX c"
    and "dec (STRATEGY_ORDER_FRACTION_MIN c) = STRATEGY_ORDER_FRACTION_MIN c"
    and "dsub (STRATEGY_ORDER_FRACTION_MAX c) (STRATEGY_ORDER_FRACTION_MIN c) =
           STRATEGY_ORDER_FRACTION_MAX c - STRATEGY_ORDER_FRACTION_MIN c"
  shows "STRATEGY_ORDER_FRACTION_MIN c \<le> position_fraction c gap \<and>
    position_fraction c gap \<le> STRATEGY_ORDER_FRACTION_MAX c"
proof -
  let ?lo = "STRATEGY_ORDER_FRACTION_MIN c" and ?hi = "STRATEGY_ORDER_FRACTION_MAX c"
  have "?lo \<le> dadd ?lo (dmul (?hi - ?lo) t) \<and> dadd ?lo (dmul (?hi - ?lo) t) \<le> ?hi" if t: "0 \<le> t" "t \<le> 1" for t
  proof -
    have "dec ((?hi - ?lo) * t) \<le> dec (?hi - ?lo)" using assms(2) t by (intro dec_mono) (simp add: mult_left_le)
    also have "\<dots> = ?hi - ?lo" using assms(5) by (simp add: dsub_def)
    finally have m: "dmul (?hi - ?lo) t \<le> ?hi - ?lo" by (simp add: dmul_def)
    have m0: "0 \<le> dmul (?hi - ?lo) t" using assms(2) t by (simp add: dmul_def)
    have "dec ?lo \<le> dec (?lo + dmul (?hi - ?lo) t)" using m0 by (intro dec_mono) simp
    moreover have "dec (?lo + dmul (?hi - ?lo) t) \<le> dec ?hi" using m by (intro dec_mono) simp
    ultimately show ?thesis using assms(3,4) by (simp add: dadd_def)
  qed
  then show ?thesis using assms(2,5) by (simp add: position_fraction_def Let_def)
qed

context solvent_broker
begin

lemma check_liquidations_good:
  "good b \<Longrightarrow> keeps (check_liquidations c B g symbol price now b)"
  by (auto simp: check_liquidations_def Let_def intro!: sell_rbind split: option.split)

end

end
