(* ===== verification/Strategies.thy ===== *)
theory Strategies
  imports Indicators Rebalance
begin

text \<open>
  The disciplined indicator strategies: \<open>trading/strategy/plugins/disciplined.py\<close> with its
  subclasses \<open>rsi.py\<close>, \<open>macd.py\<close>, \<open>bollinger.py\<close> and \<open>breakout.py\<close>, and
  \<open>sma.py\<close>.  A subclass is its window and its signal function, which may update a state of
  its own (only MACD has one).  The attributes of an instance are a record; missing times are
  read as \<open>-1e18\<close>, which is a float exactly.
\<close>

definition NEG_INF :: rat where "NEG_INF = - (10 ^ 18)"

record 'x disciplined =
  d_prices :: "(string \<times> rat list) list"
  d_guards :: guard_state
  d_started :: "rat option"
  d_extra :: 'x

definition new_disciplined :: "'x \<Rightarrow> 'x disciplined" where
  "new_disciplined x = \<lparr>d_prices = [], d_guards = no_guards, d_started = None, d_extra = x\<rparr>"

text \<open>The time since the start, since the last exit and since the entry.\<close>

definition warming :: "settings \<Rightarrow> rat option \<Rightarrow> rat \<Rightarrow> bool" where
  "warming c started now \<longleftrightarrow>
     (case started of None \<Rightarrow> False | Some t \<Rightarrow> fsub now t < of_int (STRATEGY_WARMUP_SEC c))"

definition cooling :: "settings \<Rightarrow> guard_state \<Rightarrow> string \<Rightarrow> rat \<Rightarrow> bool" where
  "cooling c g symbol now \<longleftrightarrow>
     fsub now (get_or (g_exit g) symbol NEG_INF) < of_int (STRATEGY_COOLDOWN_SEC c)"

definition holding :: "settings \<Rightarrow> guard_state \<Rightarrow> string \<Rightarrow> rat \<Rightarrow> bool" where
  "holding c g symbol now \<longleftrightarrow>
     fsub now (get_or (g_entry g) symbol NEG_INF) < of_int (STRATEGY_MIN_HOLD_SEC c)"

text \<open>\<open>_enter\<close>, shared by \<open>disciplined.py\<close> and \<open>sma.py\<close> but for the fraction of cash.\<close>

definition enter ::
  "settings \<Rightarrow> 'b broker \<Rightarrow> rat \<Rightarrow> rat option \<Rightarrow> guard_state \<Rightarrow> string \<Rightarrow> rat \<Rightarrow> rat \<Rightarrow> 'b \<Rightarrow>
   (guard_state \<times> 'b) res" where
  "enter c B fraction started g symbol price now b =
     (if warming c started now \<or> price \<le> 0 \<or> 0 < position_qty B b symbol \<or>
         cooling c g symbol now \<or> STRATEGY_MAX_POSITIONS c \<le> open_symbol_count B b
      then Inr (g, b)
      else
        let available = b_cash B b;
            budget = (if 0 < available then dmul available fraction else 0)
        in if budget < MIN_ORDER_KRW c then Inr (g, b)
           else
             rbind (quantize rhe 8 (dec (budget / price))) (\<lambda>q.
               if q \<le> 0 then Inr (g, b)
               else rbind (b_buy B b symbol q now None) (\<lambda>(b', ok).
                      Inr (if ok then entered g symbol now else g, b'))))"

text \<open>\<open>_exit_signal\<close> and \<open>_exit_deadcross\<close>.\<close>

definition exit_signal ::
  "settings \<Rightarrow> 'b broker \<Rightarrow> string \<Rightarrow> rat option \<Rightarrow> guard_state \<Rightarrow> string \<Rightarrow> rat \<Rightarrow> 'b \<Rightarrow>
   (guard_state \<times> 'b) res" where
  "exit_signal c B why started g symbol now b =
     (if warming c started now \<or> position_qty B b symbol \<le> 0 \<or>
         holding c g symbol now \<or> cooling c g symbol now
      then Inr (g, b)
      else rbind (b_sell B b symbol (position_qty B b symbol) why now None) (\<lambda>(b', ok).
             Inr (if ok then exited g symbol now else g, b')))"

text \<open>The reaction of \<open>DisciplinedStrategy.on_tick\<close> to its signal.\<close>

definition respond ::
  "settings \<Rightarrow> 'b broker \<Rightarrow> signal option \<Rightarrow> rat option \<Rightarrow> guard_state \<Rightarrow> string \<Rightarrow> rat \<Rightarrow> rat \<Rightarrow> 'b \<Rightarrow>
   (guard_state \<times> 'b) res" where
  "respond c B sig started g symbol price now b =
     (case sig of
        Some Buy_Signal \<Rightarrow> enter c B (STRATEGY_ORDER_FRACTION_MAX c) started g symbol price now b
      | Some Sell_Signal \<Rightarrow> exit_signal c B ''SIGNAL'' started g symbol now b
      | None \<Rightarrow> Inr (g, b))"

definition disciplined_tick ::
  "settings \<Rightarrow> 'b broker \<Rightarrow> nat \<Rightarrow> ('x \<Rightarrow> string \<Rightarrow> rat list \<Rightarrow> 'x \<times> signal option) \<Rightarrow>
   ('x disciplined, 'b) strategy" where
  "disciplined_tick c B window signal st t b =
     (let symbol = t_symbol t; price = t_price t; now = t_ts t;
          started = (case d_started st of None \<Rightarrow> Some now | Some x \<Rightarrow> Some x);
          dq = deque_append window (get_or (d_prices st) symbol []) price;
          st1 = st\<lparr>d_started := started, d_prices := AList.update symbol dq (d_prices st)\<rparr>
      in rbind (check_liquidations c B (d_guards st1) symbol price now b) (\<lambda>(g, b1).
         let (x, sig) = signal (d_extra st1) symbol dq;
             st2 = st1\<lparr>d_extra := x\<rparr>
         in rbind (respond c B sig started g symbol price now b1)
              (\<lambda>(g', b2). Inr (st2\<lparr>d_guards := g'\<rparr>, b2))))"

section \<open>The signals\<close>

definition rsi_signal :: "unit \<Rightarrow> string \<Rightarrow> rat list \<Rightarrow> unit \<times> signal option" where
  "rsi_signal x symbol prices =
     (x, case rsi prices 14 of
           None \<Rightarrow> None
         | Some r \<Rightarrow> if r \<le> 30 then Some Buy_Signal else if 70 \<le> r then Some Sell_Signal else None)"

definition bollinger_signal :: "libm \<Rightarrow> unit \<Rightarrow> string \<Rightarrow> rat list \<Rightarrow> unit \<times> signal option" where
  "bollinger_signal m x symbol prices =
     (x, case bollinger m prices 20 2 of
           None \<Rightarrow> None
         | Some (lower, mid, upper) \<Rightarrow>
             if upper \<le> lower then None
             else let price = fl (last prices)
                  in if price \<le> lower then Some Buy_Signal
                     else if upper \<le> price then Some Sell_Signal else None)"

definition breakout_signal :: "unit \<Rightarrow> string \<Rightarrow> rat list \<Rightarrow> unit \<times> signal option" where
  "breakout_signal x symbol prices =
     (x, case donchian prices 20 of
           None \<Rightarrow> None
         | Some (low, high) \<Rightarrow>
             let price = fl (last prices)
             in if high < price then Some Buy_Signal
                else if price < low then Some Sell_Signal else None)"

record macd_state =
  m_fast :: ema
  m_slow :: ema
  m_sig :: ema
  m_prev :: "rat option"
  m_n :: nat

definition new_macd :: macd_state where
  "new_macd = \<lparr>m_fast = new_ema 12, m_slow = new_ema 26, m_sig = new_ema 9, m_prev = None, m_n = 0\<rparr>"

definition macd_signal ::
  "(string \<times> macd_state) list \<Rightarrow> string \<Rightarrow> rat list \<Rightarrow> (string \<times> macd_state) list \<times> signal option" where
  "macd_signal sts symbol prices =
     (let st = get_or sts symbol new_macd;
          (fast, f) = ema_update (m_fast st) (last prices);
          (slow, s) = ema_update (m_slow st) (last prices);
          macd_line = fsub f s;
          (sig, sg) = ema_update (m_sig st) macd_line;
          hist = fsub macd_line sg;
          st' = \<lparr>m_fast = fast, m_slow = slow, m_sig = sig, m_prev = Some hist, m_n = Suc (m_n st)\<rparr>
      in (AList.update symbol st' sts,
          case m_prev st of
            None \<Rightarrow> None
          | Some prev \<Rightarrow>
              if m_n st' < 26 then None
              else if prev \<le> 0 \<and> 0 < hist then Some Buy_Signal
              else if 0 \<le> prev \<and> hist < 0 then Some Sell_Signal
              else None))"

definition rsi_strategy :: "settings \<Rightarrow> 'b broker \<Rightarrow> (unit disciplined, 'b) strategy" where
  "rsi_strategy c B = disciplined_tick c B 15 rsi_signal"

definition bollinger_strategy :: "settings \<Rightarrow> libm \<Rightarrow> 'b broker \<Rightarrow> (unit disciplined, 'b) strategy" where
  "bollinger_strategy c m B = disciplined_tick c B 20 (bollinger_signal m)"

definition breakout_strategy :: "settings \<Rightarrow> 'b broker \<Rightarrow> (unit disciplined, 'b) strategy" where
  "breakout_strategy c B = disciplined_tick c B 21 breakout_signal"

definition macd_strategy :: "settings \<Rightarrow> 'b broker \<Rightarrow> ((string \<times> macd_state) list disciplined, 'b) strategy" where
  "macd_strategy c B = disciplined_tick c B 2 macd_signal"

section \<open>The SMA strategy\<close>

record sma_state_rec =
  s_prices :: "(string \<times> rat list) list"
  s_state :: "(string \<times> signal) list"
  s_pending :: "(string \<times> (signal \<times> nat)) list"
  s_guards :: guard_state
  s_started :: "rat option"

definition new_sma :: sma_state_rec where
  "new_sma = \<lparr>s_prices = [], s_state = [], s_pending = [], s_guards = no_guards, s_started = None\<rparr>"

text \<open>Step (2) of the tick: confirming a trend over consecutive ticks.\<close>

definition confirm ::
  "settings \<Rightarrow> signal option \<Rightarrow> string \<Rightarrow> (string \<times> signal) list \<Rightarrow> (string \<times> (signal \<times> nat)) list \<Rightarrow>
   (string \<times> signal) list \<times> (string \<times> (signal \<times> nat)) list" where
  "confirm c raw symbol state pend =
     (case raw of
        Some r \<Rightarrow>
          if map_of state symbol \<noteq> Some r then
            let n = (case map_of pend symbol of
                       Some (r', k) \<Rightarrow> if r' = r then Suc k else 1
                     | None \<Rightarrow> 1)
            in if STRATEGY_CONFIRM_TICKS c \<le> n
               then (AList.update symbol r state, AList.delete symbol pend)
               else (state, AList.update symbol (r, n) pend)
          else (state, AList.delete symbol pend)
      | None \<Rightarrow> (state, AList.delete symbol pend))"

text \<open>Step (3): entries and exits while the confirmed trend and the tick agree.\<close>

definition sma_act ::
  "settings \<Rightarrow> 'b broker \<Rightarrow> rat list \<Rightarrow> signal option \<Rightarrow> signal option \<Rightarrow> rat option \<Rightarrow> guard_state \<Rightarrow>
   string \<Rightarrow> rat \<Rightarrow> rat \<Rightarrow> 'b \<Rightarrow> (guard_state \<times> 'b) res" where
  "sma_act c B dq confirmed raw started g symbol price now b =
     (if confirmed = Some Buy_Signal \<and> raw = Some Buy_Signal then
        rbind (sma_gap c dq) (\<lambda>gap.
          if warming c started now then Inr (g, b)
          else case gap of
            None \<Rightarrow> Inr (g, b)
          | Some gp \<Rightarrow>
              if dabs gp < STRATEGY_MIN_EDGE_PCT c then Inr (g, b)
              else enter c B (position_fraction c gp) started g symbol price now b)
      else if STRATEGY_DEADCROSS_EXIT c \<and> confirmed = Some Sell_Signal \<and> raw = Some Sell_Signal then
        exit_signal c B ''DEADCROSS'' started g symbol now b
      else Inr (g, b))"

definition sma_strategy :: "settings \<Rightarrow> 'b broker \<Rightarrow> (sma_state_rec, 'b) strategy" where
  "sma_strategy c B st t b =
     (let symbol = t_symbol t; price = t_price t; now = t_ts t;
          started = (case s_started st of None \<Rightarrow> Some now | Some x \<Rightarrow> Some x);
          dq = deque_append (SMA_LONG c) (get_or (s_prices st) symbol []) price;
          st1 = st\<lparr>s_started := started, s_prices := AList.update symbol dq (s_prices st)\<rparr>
      in rbind (check_liquidations c B (s_guards st1) symbol price now b) (\<lambda>(g, b1).
         rbind (sma_state c dq) (\<lambda>raw.
         let (state, pend) = confirm c raw symbol (s_state st1) (s_pending st1);
             st2 = st1\<lparr>s_state := state, s_pending := pend\<rparr>
         in rbind (sma_act c B dq (map_of state symbol) raw started g symbol price now b1)
              (\<lambda>(g', b2). Inr (st2\<lparr>s_guards := g'\<rparr>, b2)))))"

section \<open>Strategies act only through the broker\<close>

context solvent_broker
begin

lemma enter_good: "good b \<Longrightarrow> keeps (enter c B fraction started g symbol price now b)"
  by (auto simp: enter_def Let_def intro!: buy_rbind ensures_any [where m = "quantize rhe 8 x" for x])

lemma exit_signal_good: "good b \<Longrightarrow> keeps (exit_signal c B why started g symbol now b)"
  by (auto simp: exit_signal_def intro!: sell_rbind)

lemma respond_good: "good b \<Longrightarrow> keeps (respond c B sig started g symbol price now b)"
  by (auto simp: respond_def enter_good exit_signal_good split: option.split signal.split)

lemma sma_act_good: "good b \<Longrightarrow> keeps (sma_act c B dq confirmed raw started g symbol price now b)"
  by (auto simp: sma_act_def enter_good exit_signal_good intro!: ensures_any split: option.splits if_splits)

lemma disciplined_tick_good: "good b \<Longrightarrow> keeps (disciplined_tick c B window signal st t b)"
  unfolding disciplined_tick_def Let_def case_prod_beta
  by (rule keeps_rbind [OF check_liquidations_good], assumption)
     (simp, rule keeps_rbind [OF respond_good], simp_all)

lemma sma_strategy_good: "good b \<Longrightarrow> keeps (sma_strategy c B st t b)"
  unfolding sma_strategy_def Let_def case_prod_beta
  by (rule keeps_rbind [OF check_liquidations_good], assumption)
     (simp, rule ensures_any, rule keeps_rbind [OF sma_act_good], simp_all)

text \<open>An entry is taken only from a flat position, with a free slot and after the cooldown.\<close>

lemma enter_guarded:
  assumes "enter c B fraction started g symbol price now b = Inr (g', b')" "b' \<noteq> b"
  shows "\<not> warming c started now \<and> 0 < price \<and> position_qty B b symbol \<le> 0 \<and>
    \<not> cooling c g symbol now \<and> open_symbol_count B b < STRATEGY_MAX_POSITIONS c \<and>
    MIN_ORDER_KRW c \<le> (if 0 < b_cash B b then dmul (b_cash B b) fraction else 0)"
  using assms by (auto simp: enter_def Let_def not_less split: if_splits)

end

end
