(* ===== verification/TrendStrategies.thy ===== *)
theory TrendStrategies
  imports Strategies
begin

text \<open>
  Trend following: \<open>trading/strategy/plugins/trend.py\<close>, the signal core
  \<open>trend_signal.py\<close> and the ensemble \<open>ensemble.py\<close>.  Indicators are floats, weights and
  orders decimals.  \<open>math.log\<close> raises \<open>ValueError\<close> for an argument that is not positive.
\<close>

section \<open>Indicators of the trend\<close>

definition sma :: "rat list \<Rightarrow> nat \<Rightarrow> rat" where
  "sma closes n = fquo (fsum (tail n closes)) (of_nat n)"

fun log_returns :: "libm \<Rightarrow> rat list \<Rightarrow> rat list res" where
  "log_returns m (a # b # cs) =
     rbind (fdiv b a) (\<lambda>x.
       if x \<le> 0 then Inl (ValueError ''math domain error'')
       else rbind (log_returns m (b # cs)) (\<lambda>rs. Inr (f_log m x # rs)))"
| "log_returns m cs = Inr []"

definition ann_vol :: "libm \<Rightarrow> rat list \<Rightarrow> nat \<Rightarrow> nat \<Rightarrow> rat option res" where
  "ann_vol m closes lookback bars_per_year =
     (if length closes < lookback + 1 then Inr None
      else
        rbind (log_returns m (takelast (lookback + 1) closes)) (\<lambda>rets.
        rbind (fdiv (fsum rets) (of_nat (length rets))) (\<lambda>mean.
        rbind (fdiv (fsum (map (\<lambda>r. f_pow m (fsub r mean) 2) rets)) (of_nat (length rets))) (\<lambda>var.
          Inr (Some (fmul (f_sqrt m var) (f_sqrt m (of_nat bars_per_year))))))))"

definition target_weight :: "rat option \<Rightarrow> rat \<Rightarrow> rat \<Rightarrow> rat" where
  "target_weight vol vol_target max_weight =
     (case vol of
        None \<Rightarrow> max_weight
      | Some v \<Rightarrow> if v \<le> 0 then max_weight
                  else min max_weight (dec (frepr vol_target / frepr v)))"

record trend_params =
  p_short :: nat
  p_long :: nat
  p_entry_band :: rat
  p_vol_target :: rat
  p_vol_lookback :: nat
  p_max_weight :: rat
  p_regime_max_vol :: rat
  p_bars_per_year :: nat
  p_rebalance_band :: rat

text \<open>The constructors with the defaults of the settings.\<close>

definition trend_params_of :: "settings \<Rightarrow> nat \<Rightarrow> nat \<Rightarrow> trend_params res" where
  "trend_params_of c short long =
     (if long \<le> short then Inl (ValueError ''short must be < long'')
      else Inr \<lparr>p_short = short, p_long = long, p_entry_band = fl (TREND_ENTRY_BAND c),
        p_vol_target = fl (TREND_VOL_TARGET c), p_vol_lookback = TREND_VOL_LOOKBACK c,
        p_max_weight = TREND_MAX_WEIGHT c, p_regime_max_vol = fl (TREND_REGIME_MAX_VOL c),
        p_bars_per_year = TREND_BARS_PER_YEAR c, p_rebalance_band = fl (TREND_REBALANCE_BAND c)\<rparr>)"

definition warmup_bars :: "trend_params \<Rightarrow> nat" where
  "warmup_bars p = max (max (p_short p) (p_long p)) (p_vol_lookback p + 1)"

text \<open>The indicators of a full window: volatility, extreme regime, trend up, trend down.\<close>

record trend_view =
  v_sma_s :: rat
  v_sma_l :: rat
  v_vol :: "rat option"
  v_extreme :: bool
  v_up :: bool
  v_down :: bool

definition trend_view_of :: "libm \<Rightarrow> trend_params \<Rightarrow> rat list \<Rightarrow> trend_view res" where
  "trend_view_of m p closes =
     rbind (ann_vol m closes (p_vol_lookback p) (p_bars_per_year p)) (\<lambda>vol.
       let s = sma closes (p_short p); l = sma closes (p_long p)
       in Inr \<lparr>v_sma_s = s, v_sma_l = l, v_vol = vol,
            v_extreme = (case vol of None \<Rightarrow> False | Some v \<Rightarrow> p_regime_max_vol p < v),
            v_up = (fmul l (fadd 1 (p_entry_band p)) < s),
            v_down = (s < fmul l (fsub 1 (p_entry_band p)))\<rparr>)"

section \<open>The signal core\<close>

record trend_signal =
  t_prices :: "(string \<times> rat list) list"
  t_long :: "(string \<times> bool) list"
  t_last :: "(string \<times> (trend_view option \<times> bool \<times> rat)) list"

definition new_signal :: trend_signal where
  "new_signal = \<lparr>t_prices = [], t_long = [], t_last = []\<rparr>"

definition latch :: "bool \<Rightarrow> trend_view \<Rightarrow> bool" where
  "latch long v =
     (if long \<and> (v_extreme v \<or> v_down v) then False
      else if \<not> long \<and> v_up v \<and> \<not> v_extreme v then True
      else long)"

definition update :: "libm \<Rightarrow> trend_params \<Rightarrow> trend_signal \<Rightarrow> string \<Rightarrow> rat \<Rightarrow> (trend_signal \<times> rat) res" where
  "update m p st symbol price =
     (let dq = deque_append (warmup_bars p + 1) (get_or (t_prices st) symbol []) (fl price);
          st1 = st\<lparr>t_prices := AList.update symbol dq (t_prices st)\<rparr>
      in if length dq < warmup_bars p then
           Inr (st1\<lparr>t_last := AList.update symbol (None, False, 0) (t_last st)\<rparr>, 0)
         else
           rbind (trend_view_of m p dq) (\<lambda>v.
             let long = latch (get_or (t_long st) symbol False) v;
                 tw = (if long then target_weight (v_vol v) (p_vol_target p) (p_max_weight p) else 0)
             in Inr (st1\<lparr>t_long := AList.update symbol long (t_long st),
                         t_last := AList.update symbol (Some v, long, tw) (t_last st)\<rparr>, tw)))"

section \<open>The trend strategy\<close>

definition buy_budget :: "settings \<Rightarrow> 'b broker \<Rightarrow> string \<Rightarrow> rat \<Rightarrow> rat \<Rightarrow> rat \<Rightarrow> 'b \<Rightarrow> (unit \<times> 'b) res" where
  "buy_budget c B symbol price now budget b =
     (if budget < MIN_ORDER_KRW c then Inr ((), b)
      else rbind (affordable_qty c budget price) (\<lambda>q.
             if 0 < q then rbind (b_buy B b symbol q now None) (\<lambda>(b', r). Inr ((), b'))
             else Inr ((), b)))"

definition trend_enter ::
  "settings \<Rightarrow> trend_params \<Rightarrow> 'b broker \<Rightarrow> string \<Rightarrow> rat \<Rightarrow> rat \<Rightarrow> rat option \<Rightarrow> 'b \<Rightarrow> (unit \<times> 'b) res" where
  "trend_enter c p B symbol price now vol b =
     (if price \<le> 0 then Inr ((), b)
      else
        let weight = target_weight vol (p_vol_target p) (p_max_weight p);
            budget = min (dmul (b_equity B b) weight) (b_cash B b)
        in buy_budget c B symbol price now budget b)"

definition trend_rebalance ::
  "settings \<Rightarrow> trend_params \<Rightarrow> 'b broker \<Rightarrow> string \<Rightarrow> rat \<Rightarrow> rat \<Rightarrow> rat option \<Rightarrow> 'b \<Rightarrow> (unit \<times> 'b) res" where
  "trend_rebalance c p B symbol price now vol b =
     (let equity = b_equity B b in
      if price \<le> 0 \<or> equity \<le> 0 then Inr ((), b)
      else
        let target_w = target_weight vol (p_vol_target p) (p_max_weight p);
            cur_val = dmul (position_qty B b symbol) price;
            target_val = dmul equity target_w
        in if dec (dabs (dsub cur_val target_val) / equity) < dmul (frepr (p_rebalance_band p)) target_w
           then Inr ((), b)
           else if cur_val < target_val then
             buy_budget c B symbol price now (min (dsub target_val cur_val) (b_cash B b)) b
           else
             rbind (quantize rdown 8 (dec (dsub cur_val target_val / price))) (\<lambda>sell_qty.
               if 0 < sell_qty then
                 rbind (b_sell B b symbol (min sell_qty (position_qty B b symbol)) ''REBAL'' now None)
                   (\<lambda>(b', r). Inr ((), b'))
               else Inr ((), b)))"

definition trend_act ::
  "settings \<Rightarrow> trend_params \<Rightarrow> 'b broker \<Rightarrow> trend_view \<Rightarrow> string \<Rightarrow> rat \<Rightarrow> rat \<Rightarrow> 'b \<Rightarrow> (unit \<times> 'b) res" where
  "trend_act c p B v symbol price now b =
     (if 0 < position_qty B b symbol then
        if v_extreme v \<or> v_down v then
          rbind (b_sell B b symbol (position_qty B b symbol) ''SIGNAL'' now None) (\<lambda>(b', r). Inr ((), b'))
        else if 0 < p_rebalance_band p then trend_rebalance c p B symbol price now (v_vol v) b
        else Inr ((), b)
      else if v_up v \<and> \<not> v_extreme v then trend_enter c p B symbol price now (v_vol v) b
      else Inr ((), b))"

type_synonym windows = "(string \<times> rat list) list"

definition trend_strategy ::
  "settings \<Rightarrow> libm \<Rightarrow> trend_params \<Rightarrow> 'b broker \<Rightarrow> (windows, 'b) strategy" where
  "trend_strategy c m p B st t b =
     (let symbol = t_symbol t;
          dq = deque_append (warmup_bars p + 1) (get_or st symbol []) (fl (t_price t));
          st' = AList.update symbol dq st
      in if length dq < warmup_bars p then Inr (st', b)
         else rbind (trend_view_of m p dq) (\<lambda>v.
              rbind (trend_act c p B v symbol (t_price t) (t_ts t) b) (\<lambda>(u, b'). Inr (st', b'))))"

section \<open>The ensemble\<close>

definition load_name :: "nat \<Rightarrow> nat \<Rightarrow> string" where
  "load_name short long = ''trend-'' @ itoa short @ ''-'' @ itoa long"

definition default_specs :: "(nat \<times> nat) list" where
  "default_specs = [(5, 40), (10, 60), (20, 100)]"

definition default_loads :: "(string \<times> nat \<times> nat) list" where
  "default_loads = map (\<lambda>(s, l). (load_name s l, s, l)) default_specs"

record ensemble =
  e_signals :: "(trend_params \<times> trend_signal) list"
  e_weights :: "rat list"
  e_band :: rat

definition new_ensemble :: "settings \<Rightarrow> (nat \<times> nat) list \<Rightarrow> rat list \<Rightarrow> ensemble res" where
  "new_ensemble c specs weights =
     (let specs = (if specs = [] then default_specs else specs)
      in rbind (rmap (\<lambda>(s, l). trend_params_of c s l) specs) (\<lambda>ps.
           let ws = (if weights = [] then replicate (length ps) 1 else weights)
           in if length ws \<noteq> length ps then Inl (ValueError ''weights'')
              else Inr \<lparr>e_signals = map (\<lambda>p. (p, new_signal)) ps, e_weights = ws,
                        e_band = fl (ENSEMBLE_REBALANCE_BAND c)\<rparr>))"

fun update_all ::
  "libm \<Rightarrow> string \<Rightarrow> rat \<Rightarrow> (trend_params \<times> trend_signal) list \<Rightarrow>
   ((trend_params \<times> trend_signal) list \<times> rat list) res" where
  "update_all m symbol price [] = Inr ([], [])"
| "update_all m symbol price ((p, st) # sigs) =
     rbind (update m p st symbol price) (\<lambda>(st', t).
     rbind (update_all m symbol price sigs) (\<lambda>(sigs', ts). Inr ((p, st') # sigs', t # ts)))"

definition combine :: "rat list \<Rightarrow> rat list \<Rightarrow> rat res" where
  "combine weights tws =
     ddiv (dsum 0 (map (\<lambda>(w, t). dmul (frepr w) t) (zip weights tws))) (frepr (fsum weights))"

definition combined_target :: "libm \<Rightarrow> ensemble \<Rightarrow> string \<Rightarrow> rat \<Rightarrow> (ensemble \<times> rat) res" where
  "combined_target m e symbol price =
     rbind (update_all m symbol price (e_signals e)) (\<lambda>(sigs, tws).
     rbind (combine (e_weights e) tws) (\<lambda>w. Inr (e\<lparr>e_signals := sigs\<rparr>, w)))"

definition order_to_target ::
  "settings \<Rightarrow> 'b broker \<Rightarrow> rat \<Rightarrow> string \<Rightarrow> rat \<Rightarrow> rat \<Rightarrow> rat \<Rightarrow> 'b \<Rightarrow> (unit \<times> 'b) res" where
  "order_to_target c B band symbol price target_w now b =
     (if price \<le> 0 then Inr ((), b)
      else
        let q = position_qty B b symbol
        in if target_w \<le> 0 then
             (if 0 < q then rbind (b_sell B b symbol q ''SIGNAL'' now None) (\<lambda>(b', r). Inr ((), b'))
              else Inr ((), b))
           else
             rbind (decide c q price (b_cash B b) (b_equity B b) (fl target_w) band) (\<lambda>d.
               case d of
                 None \<Rightarrow> Inr ((), b)
               | Some (BUY, quantity) \<Rightarrow>
                   rbind (b_buy B b symbol quantity now None) (\<lambda>(b', r). Inr ((), b'))
               | Some (SELL, quantity) \<Rightarrow>
                   rbind (b_sell B b symbol quantity ''REBAL'' now None) (\<lambda>(b', r). Inr ((), b'))))"

definition ensemble_strategy :: "settings \<Rightarrow> libm \<Rightarrow> 'b broker \<Rightarrow> (ensemble, 'b) strategy" where
  "ensemble_strategy c m B e t b =
     rbind (combined_target m e (t_symbol t) (t_price t)) (\<lambda>(e', w).
     rbind (order_to_target c B (e_band e') (t_symbol t) (t_price t) w (t_ts t) b) (\<lambda>(u, b'). Inr (e', b')))"

section \<open>Strategies act only through the broker\<close>

context solvent_broker
begin

lemma buy_budget_good: "good b \<Longrightarrow> keeps (buy_budget c B symbol price now budget b)"
  by (auto simp: buy_budget_def intro!: buy_rbind ensures_any [where m = "affordable_qty c budget x" for x])

lemma trend_enter_good: "good b \<Longrightarrow> keeps (trend_enter c p B symbol price now vol b)"
  by (simp add: trend_enter_def Let_def buy_budget_good)

lemma trend_rebalance_good: "good b \<Longrightarrow> keeps (trend_rebalance c p B symbol price now vol b)"
  by (auto simp: trend_rebalance_def Let_def buy_budget_good
      intro!: sell_rbind ensures_any [where m = "quantize rdown 8 x" for x])

lemma trend_act_good: "good b \<Longrightarrow> keeps (trend_act c p B v symbol price now b)"
  by (auto simp: trend_act_def trend_enter_good trend_rebalance_good intro!: sell_rbind)

lemma trend_strategy_good: "good b \<Longrightarrow> keeps (trend_strategy c m p B st t b)"
  unfolding trend_strategy_def Let_def
  by (rule ensures_if, simp, rule ensures_any, rule keeps_rbind [OF trend_act_good], simp_all)

lemma order_to_target_good: "good b \<Longrightarrow> keeps (order_to_target c B band symbol price w now b)"
  by (auto simp: order_to_target_def Let_def intro!: sell_rbind buy_rbind
      ensures_any [where m = "decide c x1 x2 x3 x4 x5 x6" for x1 x2 x3 x4 x5 x6]
      split: option.split side.split)

lemma ensemble_strategy_good: "good b \<Longrightarrow> keeps (ensemble_strategy c m B e t b)"
  unfolding ensemble_strategy_def case_prod_beta
  by (rule ensures_any, rule keeps_rbind [OF order_to_target_good], simp_all)

text \<open>A combined target of cash sells the whole position and places nothing else.\<close>

lemma order_to_target_cash:
  assumes "0 < price" "w \<le> 0" "order_to_target c B band symbol price w now b = Inr (u, b')"
  shows "if 0 < position_qty B b symbol
         then \<exists>r. b_sell B b symbol (position_qty B b symbol) ''SIGNAL'' now None = Inr (b', r)
         else b' = b"
  using assms by (auto simp: order_to_target_def Let_def split: if_splits)

end

section \<open>Weights\<close>

text \<open>Parameters whose weights make sense: the constructor yields them for sensible settings.\<close>

definition sane_params :: "trend_params \<Rightarrow> bool" where
  "sane_params p \<longleftrightarrow> fl (p_vol_target p) = p_vol_target p \<and> 0 \<le> p_vol_target p \<and> 0 \<le> p_max_weight p"

lemma target_weight_range:
  assumes "sane_params p" "\<And>v. vol = Some v \<Longrightarrow> fl v = v"
  shows "0 \<le> target_weight vol (p_vol_target p) (p_max_weight p) \<and>
    target_weight vol (p_vol_target p) (p_max_weight p) \<le> p_max_weight p"
proof -
  have "0 \<le> frepr (p_vol_target p) / frepr v" if "vol = Some v" "0 < v" for v
    using assms that frepr_nonneg [of "p_vol_target p"] frepr_pos [of v]
    by (auto simp: sane_params_def intro!: divide_nonneg_pos)
  then show ?thesis using assms(1) by (auto simp: target_weight_def sane_params_def split: option.split)
qed

lemma ann_vol_float: "ann_vol m closes k bpy = Inr (Some v) \<Longrightarrow> fl v = v"
  by (auto simp: ann_vol_def fmul_def split: if_splits)

lemma trend_view_float: "trend_view_of m p closes = Inr v \<Longrightarrow> v_vol v = Some x \<Longrightarrow> fl x = x"
  by (auto simp: trend_view_of_def Let_def dest: ann_vol_float)

lemma latch_long: "latch long v \<Longrightarrow> \<not> v_extreme v \<and> (v_up v \<or> long \<and> \<not> v_down v)"
  by (auto simp: latch_def split: if_splits)

lemma update_weight:
  assumes "sane_params p" "update m p st symbol price = Inr (st', w)"
  shows "0 \<le> w \<and> w \<le> p_max_weight p"
    and "0 < w \<Longrightarrow> \<exists>v. trend_view_of m p (get_or (t_prices st') symbol []) = Inr v \<and>
      warmup_bars p \<le> length (get_or (t_prices st') symbol []) \<and> \<not> v_extreme v \<and>
      (v_up v \<or> get_or (t_long st) symbol False \<and> \<not> v_down v)"
proof -
  have "0 \<le> p_max_weight p" using assms(1) by (simp add: sane_params_def)
  then have "0 \<le> w \<and> w \<le> p_max_weight p \<and> (0 < w \<longrightarrow> (\<exists>v. trend_view_of m p (get_or (t_prices st') symbol []) = Inr v \<and>
      warmup_bars p \<le> length (get_or (t_prices st') symbol []) \<and> \<not> v_extreme v \<and>
      (v_up v \<or> get_or (t_long st) symbol False \<and> \<not> v_down v)))"
    using assms target_weight_range [OF assms(1)] trend_view_float latch_long
    unfolding update_def Let_def
    by (auto simp: not_less split: if_splits)
  then show "0 \<le> w \<and> w \<le> p_max_weight p"
    and "0 < w \<Longrightarrow> \<exists>v. trend_view_of m p (get_or (t_prices st') symbol []) = Inr v \<and>
      warmup_bars p \<le> length (get_or (t_prices st') symbol []) \<and> \<not> v_extreme v \<and>
      (v_up v \<or> get_or (t_long st) symbol False \<and> \<not> v_down v)" by blast+
qed

lemma update_all_weights:
  assumes "list_all (\<lambda>(p, st). sane_params p \<and> p_max_weight p = 1) sigs"
    and "update_all m symbol price sigs = Inr (sigs', ts)"
  shows "length ts = length sigs \<and> list_all (\<lambda>t. 0 \<le> t \<and> t \<le> 1) ts"
  using assms
proof (induction sigs arbitrary: sigs' ts)
  case (Cons x sigs)
  obtain p st where x: "x = (p, st)" by (cases x)
  from Cons.prems x obtain st' t s2 t2 where h: "update m p st symbol price = Inr (st', t)"
      "update_all m symbol price sigs = Inr (s2, t2)" "ts = t # t2"
    by auto
  from update_weight(1) [OF _ h(1)] Cons.prems x have "0 \<le> t \<and> t \<le> 1" by auto
  with Cons.IH [OF _ h(2)] Cons.prems h show ?case by simp
qed simp

lemma frepr_3: "frepr (3 :: rat) = 3" and frepr_1 [simp]: "frepr (1 :: rat) = 1"
  by code_simp+

lemma fsum_3: "fsum [1, 1, 1 :: rat] = 3"
  by code_simp

lemma dec_nat_lit [simp]: "dec (1 :: rat) = 1" "dec (2 :: rat) = 2" "dec (3 :: rat) = 3"
  by (rule dec_lit; simp)+

lemma combine_three:
  assumes "0 \<le> a" "a \<le> 1" "0 \<le> b" "b \<le> 1" "0 \<le> d" "d \<le> 1" "combine [1, 1, 1] [a, b, d] = Inr w"
  shows "0 \<le> w \<and> w \<le> 1"
proof -
  have d1: "dec x \<le> 1" if "x \<le> 1" for x using dec_mono [OF that] by simp
  let ?s1 = "dec (dec a)" and ?s2 = "dec (dec (dec a) + dec b)"
  have s1: "?s1 \<le> 1" "0 \<le> ?s1" using assms(1,2) by (auto intro!: d1)
  have s2: "?s2 \<le> dec 2" using s1 d1 [OF assms(4)] by (intro dec_mono) simp
  have s3: "dec (?s2 + dec d) \<le> dec 3" using s2 d1 [OF assms(6)] by (intro dec_mono) simp
  have "w = dec (dec (?s2 + dec d) / 3)"
    using assms(7) by (simp add: combine_def dsum_def dadd_def dmul_def ddiv_def fsum_3 frepr_3 del: fsum.simps)
  moreover have "dec (dec (?s2 + dec d) / 3) \<le> dec 1" using s3 by (intro dec_mono) simp
  moreover have "0 \<le> dec (?s2 + dec d) / 3" using assms(3,5) s1 by simp
  ultimately show ?thesis by simp
qed

section \<open>Properties\<close>

text \<open>A load never asks for leverage and is in the market only in a calm up-trend: the weight
  that \<open>TrendSignal.update\<close> returns is between 0 and the maximum, and it is positive only with a
  full window, a volatility within the regime limit, and a fast average above the entry band, or
  still above the exit band for a latch that was long before.\<close>

lemma trend_signal_weight:
  assumes "sane_params p" "update m p st symbol price = Inr (st', w)"
  shows "0 \<le> w \<and> w \<le> p_max_weight p \<and>
    (0 < w \<longrightarrow> (\<exists>v. trend_view_of m p (get_or (t_prices st') symbol []) = Inr v \<and>
      warmup_bars p \<le> length (get_or (t_prices st') symbol []) \<and> \<not> v_extreme v \<and>
      (v_up v \<or> get_or (t_long st) symbol False \<and> \<not> v_down v)))"
  using update_weight [OF assms] by blast

definition demo_libm :: libm where
  "demo_libm = \<lparr>f_log = (\<lambda>x. fl (x - 1)), f_sqrt = (\<lambda>x. x), f_pow = (\<lambda>x y. fl (x * x)),
     f_cdf = (\<lambda>x. 1 / 2), f_inv_cdf = (\<lambda>x. Inr 0)\<rparr>"

definition demo_params :: trend_params where
  "demo_params = \<lparr>p_short = 1, p_long = 2, p_entry_band = 0, p_vol_target = 1 / 2, p_vol_lookback = 1,
     p_max_weight = 1, p_regime_max_vol = 2, p_bars_per_year = 1, p_rebalance_band = 0\<rparr>"

lemma demo_update:
  "\<exists>st'. update demo_libm demo_params (new_signal\<lparr>t_prices := [(''s'', [100])]\<rparr>) ''s'' 200 = Inr (st', 1)"
proof -
  have f: "fl (100 :: rat) = 100" "fl (200 :: rat) = 200" "fl (300 :: rat) = 300" "fl (150 :: rat) = 150"
    "fl (2 :: rat) = 2" "fl (1 :: rat) = 1"
    by (rule fl_lit; simp)+
  show ?thesis
    by (simp add: update_def Let_def new_signal_def demo_params_def warmup_bars_def deque_append_def get_or_def
        trend_view_of_def ann_vol_def takelast_def demo_libm_def fdiv_def neumaier_def sma_def tail_def
        fquo_def fsub_def fadd_def fmul_def f latch_def target_weight_def)
qed

text \<open>The default ensemble stays between cash and full investment: with its three loads of
  equal weight and maximum weight 1, every combined target it computes lies between 0 and 1, the
  decimal roundings of the sum and of the division included.\<close>

lemma ensemble_target_range:
  assumes "e_weights e = [1, 1, 1]" "length (e_signals e) = 3"
    and "list_all (\<lambda>(p, st). sane_params p \<and> p_max_weight p = 1) (e_signals e)"
    and "combined_target m e symbol price = Inr (e', w)"
  shows "0 \<le> w \<and> w \<le> 1"
proof -
  from assms(4) obtain sigs ts where h: "update_all m symbol price (e_signals e) = Inr (sigs, ts)"
      "combine (e_weights e) ts = Inr w"
    by (auto simp: combined_target_def)
  from update_all_weights [OF assms(3) h(1)] assms(2) obtain a b d where
    "ts = [a, b, d]" "0 \<le> a" "a \<le> 1" "0 \<le> b" "b \<le> 1" "0 \<le> d" "d \<le> 1"
    by (auto simp: length_Suc_conv numeral_3_eq_3)
  with combine_three [of a b d w] h(2) assms(1) show ?thesis by simp
qed

end
