(* ===== verification/WalkForward.thy ===== *)
theory WalkForward
  imports Metrics TrendStrategies Rebalance
begin

text \<open>
  Walk-forward evaluation, \<open>batch/backtest/walkforward.py\<close>, and the job that re-evaluates the
  weights of the loads with it, \<open>batch/jobs/reeval_weights.py\<close>.

  A computation that may run forever has a result of type \<open>'a res option\<close>: \<open>None\<close> when it
  does not return (a sampling interval or a fold step that is not positive), otherwise its value
  or its exception.
\<close>

section \<open>Runs that may not return\<close>

fun run_bind :: "'a res option \<Rightarrow> ('a \<Rightarrow> 'b res option) \<Rightarrow> 'b res option" where
  "run_bind None f = None"
| "run_bind (Some (Inl e)) f = Some (Inl e)"
| "run_bind (Some (Inr x)) f = f x"

fun run_fold :: "('s \<Rightarrow> 'a \<Rightarrow> 's res option) \<Rightarrow> 's \<Rightarrow> 'a list \<Rightarrow> 's res option" where
  "run_fold f s [] = Some (Inr s)"
| "run_fold f s (x # xs) = run_bind (f s x) (\<lambda>s'. run_fold f s' xs)"

lemma run_bind_Inr_iff [simp]:
  "run_bind m f = Some (Inr y) \<longleftrightarrow> (\<exists>x. m = Some (Inr x) \<and> f x = Some (Inr y))"
  by (cases m rule: option.exhaust; cases "the m") auto

lemma run_bind_cong [fundef_cong]:
  "m = m' \<Longrightarrow> (\<And>x. m' = Some (Inr x) \<Longrightarrow> f x = g x) \<Longrightarrow> run_bind m f = run_bind m' g"
  by (cases m'; cases "the m'") auto

lemma run_fold_cong [fundef_cong]:
  "xs = ys \<Longrightarrow> s = t \<Longrightarrow> (\<And>s x. x \<in> set ys \<Longrightarrow> f s x = g s x) \<Longrightarrow> run_fold f s xs = run_fold g t ys"
  by (induction xs arbitrary: ys s t) (auto intro!: run_bind_cong)

section \<open>Evaluation of one window\<close>

definition combos :: "(nat \<times> nat) list" where
  "combos = concat (map (\<lambda>s. map (Pair s) (filter (\<lambda>l. s < l) [30, 40, 60])) [5, 10, 20])"

text \<open>
  A strategy factory: the state of a new instance, its \<open>on_tick\<close> with the priming broker and
  with the engine, and the \<open>warmup_bars\<close> attribute, if it has one.
\<close>

record 's factory =
  f_fresh :: 's
  f_prime :: "('s, unit) strategy"
  f_trade :: "('s, bt_engine) strategy"
  f_warmup :: "nat option"

definition trend_factory :: "settings \<Rightarrow> libm \<Rightarrow> nat \<times> nat \<Rightarrow> windows factory res" where
  "trend_factory c m sl = rbind (trend_params_of c (fst sl) (snd sl)) (\<lambda>p.
     Inr \<lparr>f_fresh = [], f_prime = trend_strategy c m p null_broker,
          f_trade = trend_strategy c m p (engine_broker c), f_warmup = Some (warmup_bars p)\<rparr>)"

definition ensemble_factory :: "settings \<Rightarrow> libm \<Rightarrow> ensemble factory res" where
  "ensemble_factory c m = rbind (new_ensemble c [] []) (\<lambda>e.
     Inr \<lparr>f_fresh = e, f_prime = ensemble_strategy c m null_broker,
          f_trade = ensemble_strategy c m (engine_broker c),
          f_warmup = Some (Max (set (map (warmup_bars \<circ> fst) (e_signals e))))\<rparr>)"

record evaluation =
  w_return :: rat
  w_rets :: "rat list"
  w_trades :: nat
  w_fees :: rat
  w_tax :: rat

definition window :: "rat \<Rightarrow> rat \<Rightarrow> market_tick list \<Rightarrow> market_tick list" where
  "window lo hi bars = filter (\<lambda>t. lo \<le> t_ts t \<and> t_ts t < hi) bars"

definition prime :: "'s factory \<Rightarrow> market_tick list \<Rightarrow> 's res" where
  "prime F ticks = rfold (\<lambda>s t. rbind (f_prime F s t ()) (\<lambda>(s', u). Inr s')) (f_fresh F) ticks"

definition summary :: "rat \<Rightarrow> bt_engine \<Rightarrow> evaluation res" where
  "summary initial e =
     (let eq_vals = map (\<lambda>(ts, eq). fl eq) (equity_curve e);
          final = (if eq_vals = [] then fl initial else List.last eq_vals)
      in rbind (fdiv final (fl initial)) (\<lambda>q.
         Inr \<lparr>w_return = fsub q 1, w_rets = bar_returns eq_vals,
              w_trades = length (closed_trades e),
              w_fees = dsum 0 (map (\<lambda>t. dadd (c_buy_fee t) (c_sell_fee t)) (closed_trades e)),
              w_tax = dsum 0 (map c_sell_tax (closed_trades e))\<rparr>))"

definition evaluate ::
  "market_tick list \<Rightarrow> 's factory \<Rightarrow> rat \<Rightarrow> rat \<Rightarrow> rat \<Rightarrow> rat \<Rightarrow> fill_model \<Rightarrow> rat \<Rightarrow> evaluation res option" where
  "evaluate bars F prime_start eval_start eval_end initial fills sample_sec =
     run_bind (Some (prime F (window prime_start eval_start bars))) (\<lambda>s.
     run_bind (replay (f_trade F) (new_engine (new_account initial) fills sample_sec) s
                 (window eval_start eval_end bars)) (\<lambda>(s', e).
       Some (summary initial e)))"

section \<open>Folds\<close>

record fold =
  is_prime :: rat
  is_start :: rat
  oos_prime :: rat
  oos_start :: rat
  oos_end :: rat

definition fold_at :: "rat \<Rightarrow> rat \<Rightarrow> rat \<Rightarrow> rat \<Rightarrow> fold" where
  "fold_at prime_sec is_sec oos_sec start =
     \<lparr>is_prime = fsub (fsub start is_sec) prime_sec, is_start = fsub start is_sec,
      oos_prime = fsub start prime_sec, oos_start = start, oos_end = fadd start oos_sec\<rparr>"

partial_function (option) folds_from ::
  "rat \<Rightarrow> rat \<Rightarrow> rat \<Rightarrow> rat \<Rightarrow> rat \<Rightarrow> rat \<Rightarrow> fold list \<Rightarrow> fold list option" where
  "folds_from t1 prime_sec is_sec oos_sec step_sec start acc =
     (if fadd start oos_sec \<le> t1
      then folds_from t1 prime_sec is_sec oos_sec step_sec (fadd start step_sec)
             (acc @ [fold_at prime_sec is_sec oos_sec start])
      else Some acc)"

definition folds :: "rat \<Rightarrow> rat \<Rightarrow> rat \<Rightarrow> rat \<Rightarrow> rat \<Rightarrow> rat \<Rightarrow> fold list option" where
  "folds t0 t1 prime_sec is_sec oos_sec step_sec =
     folds_from t1 prime_sec is_sec oos_sec step_sec (fadd (fadd t0 prime_sec) is_sec) []"

definition folds_of :: "market_tick list \<Rightarrow> nat \<Rightarrow> rat \<Rightarrow> rat \<Rightarrow> rat \<Rightarrow> rat \<Rightarrow> fold list option" where
  "folds_of bars prime_bars sample_sec is_sec oos_sec step_sec =
     folds (t_ts (hd bars)) (t_ts (List.last bars)) (fmul (of_nat prime_bars) sample_sec)
       is_sec oos_sec step_sec"

section \<open>Aggregation\<close>

record fold_result =
  fr_fold :: nat
  fr_params :: "(nat \<times> nat) option"
  fr_is_return :: "rat option"
  fr_eval :: evaluation

record aggregate =
  oos_folds :: nat
  positive_oos_folds :: nat
  oos_compound_return :: rat
  oos_mean_return :: rat
  oos_total_trades :: nat
  oos_total_fees :: rat
  oos_total_tax :: rat
  combined_oos_sharpe :: rat
  n_trials :: nat
  sr_variance :: rat
  a_deflated_sharpe :: "rat option"

definition aggregate_folds ::
  "libm \<Rightarrow> fold_result list \<Rightarrow> rat list \<Rightarrow> rat \<Rightarrow> nat \<Rightarrow> rat \<Rightarrow> rat option \<Rightarrow> aggregate res" where
  "aggregate_folds m frs rets sample_sec trials sr_var periods =
     (let ppy = (case periods of Some p \<Rightarrow> p
                 | None \<Rightarrow> if 0 < sample_sec then fquo SECONDS_PER_YEAR sample_sec else SECONDS_PER_YEAR);
          evs = map fr_eval frs
      in rbind (deflated_sharpe m rets sr_var trials) (\<lambda>ds.
         Inr \<lparr>oos_folds = length frs,
              positive_oos_folds = length (filter (\<lambda>ev. 0 < w_return ev) evs),
              oos_compound_return = fsub (foldl (\<lambda>a ev. fmul a (fadd 1 (w_return ev))) 1 evs) 1,
              oos_mean_return = (if evs = [] then 0 else st_mean (map w_return evs)),
              oos_total_trades = sum_list (map w_trades evs),
              oos_total_fees = dsum 0 (map w_fees evs), oos_total_tax = dsum 0 (map w_tax evs),
              combined_oos_sharpe = sharpe_from_returns m rets ppy, n_trials = trials,
              sr_variance = sr_var, a_deflated_sharpe = ds\<rparr>))"

datatype wf_error = NoBars | NoFolds | NoFactory

record wf_report =
  wf_folds :: "fold_result list"
  wf_aggregate :: aggregate
  wf_strategy :: string

type_synonym wf_result = "wf_error + wf_report"

section \<open>Fixed configurations\<close>

text \<open>The results and the joined returns of the folds; a fold without returns is skipped.\<close>

type_synonym progress = "fold_result list \<times> rat list"

definition keep_fold :: "progress \<Rightarrow> nat \<Rightarrow> (nat \<times> nat) option \<Rightarrow> rat option \<Rightarrow> evaluation \<Rightarrow> progress" where
  "keep_fold acc i params is_return ev =
     (if w_rets ev = [] then acc
      else (fst acc @ [\<lparr>fr_fold = i, fr_params = params, fr_is_return = is_return, fr_eval = ev\<rparr>],
            snd acc @ w_rets ev))"

definition run_fixed ::
  "libm \<Rightarrow> market_tick list \<Rightarrow> rat \<Rightarrow> fill_model \<Rightarrow> rat \<Rightarrow> rat \<Rightarrow> rat \<Rightarrow> rat \<Rightarrow> 's factory \<Rightarrow> string \<Rightarrow> nat
   \<Rightarrow> rat option \<Rightarrow> wf_result res option" where
  "run_fixed m bars initial fills sample_sec is_sec oos_sec step_sec F name prime_bars periods =
     (case folds_of bars prime_bars sample_sec is_sec oos_sec step_sec of
        None \<Rightarrow> None
      | Some [] \<Rightarrow> Some (Inr (Inl NoFolds))
      | Some fs \<Rightarrow>
          run_bind (run_fold (\<lambda>acc (i, f).
              run_bind (evaluate bars F (oos_prime f) (oos_start f) (oos_end f) initial fills sample_sec)
                (\<lambda>ev. Some (Inr (keep_fold acc i None None ev))))
            ([], []) (enumerate 1 fs)) (\<lambda>(frs, rets).
          run_bind (Some (aggregate_folds m frs rets sample_sec 1 0 periods)) (\<lambda>agg.
            Some (Inr (Inr \<lparr>wf_folds = frs, wf_aggregate = agg, wf_strategy = name\<rparr>)))))"

definition run_ensemble ::
  "settings \<Rightarrow> libm \<Rightarrow> market_tick list \<Rightarrow> rat \<Rightarrow> fill_model \<Rightarrow> rat \<Rightarrow> rat \<Rightarrow> rat \<Rightarrow> rat \<Rightarrow> rat option
   \<Rightarrow> wf_result res option" where
  "run_ensemble c m bars initial fills sample_sec is_sec oos_sec step_sec periods =
     run_bind (Some (ensemble_factory c m)) (\<lambda>F.
       run_fixed m bars initial fills sample_sec is_sec oos_sec step_sec F ''ensemble''
         (case f_warmup F of None \<Rightarrow> 1 | Some n \<Rightarrow> n) periods)"

section \<open>Parameter selection in sample\<close>

definition evaluate_combo ::
  "settings \<Rightarrow> libm \<Rightarrow> market_tick list \<Rightarrow> rat \<Rightarrow> fill_model \<Rightarrow> rat \<Rightarrow> nat \<times> nat \<Rightarrow> rat \<Rightarrow> rat \<Rightarrow> rat
   \<Rightarrow> evaluation res option" where
  "evaluate_combo c m bars initial fills sample_sec sl a b e =
     run_bind (Some (trend_factory c m sl)) (\<lambda>F. evaluate bars F a b e initial fills sample_sec)"

definition better :: "((nat \<times> nat) \<times> rat) option \<Rightarrow> nat \<times> nat \<Rightarrow> rat \<Rightarrow> ((nat \<times> nat) \<times> rat) option" where
  "better best sl score =
     (case best of
        None \<Rightarrow> Some (sl, score)
      | Some (b, s) \<Rightarrow> if s < score then Some (sl, score) else best)"

definition select ::
  "settings \<Rightarrow> libm \<Rightarrow> market_tick list \<Rightarrow> rat \<Rightarrow> fill_model \<Rightarrow> rat \<Rightarrow> fold \<Rightarrow> ((nat \<times> nat) \<times> rat) option res option" where
  "select c m bars initial fills sample_sec f =
     run_fold (\<lambda>best sl.
         run_bind (evaluate_combo c m bars initial fills sample_sec sl (is_prime f) (is_start f) (oos_start f))
           (\<lambda>ev. Some (Inr (better best sl (w_return ev)))))
       None combos"

definition trend_fold ::
  "settings \<Rightarrow> libm \<Rightarrow> market_tick list \<Rightarrow> rat \<Rightarrow> fill_model \<Rightarrow> rat \<Rightarrow> progress \<Rightarrow> nat \<times> fold \<Rightarrow> progress res option" where
  "trend_fold c m bars initial fills sample_sec acc i_f =
     (let f = snd i_f in
      run_bind (select c m bars initial fills sample_sec f) (\<lambda>best.
        case best of
          None \<Rightarrow> Some (Inl TypeError)
        | Some (sl, score) \<Rightarrow>
            run_bind (evaluate_combo c m bars initial fills sample_sec sl (oos_prime f) (oos_start f) (oos_end f))
              (\<lambda>ev. Some (Inr (keep_fold acc (fst i_f) (Some sl) (Some score) ev)))))"

definition full_sharpe ::
  "settings \<Rightarrow> libm \<Rightarrow> market_tick list \<Rightarrow> rat \<Rightarrow> fill_model \<Rightarrow> rat \<Rightarrow> nat \<times> nat \<Rightarrow> rat res option" where
  "full_sharpe c m bars initial fills sample_sec sl =
     (let t0 = t_ts (hd bars)
      in run_bind (evaluate_combo c m bars initial fills sample_sec sl t0 t0 (t_ts (List.last bars)))
           (\<lambda>ev. Some (Inr (sharpe_from_returns m (w_rets ev) 1))))"

definition run_trend ::
  "settings \<Rightarrow> libm \<Rightarrow> market_tick list \<Rightarrow> rat \<Rightarrow> fill_model \<Rightarrow> rat \<Rightarrow> rat \<Rightarrow> rat \<Rightarrow> rat \<Rightarrow> rat option
   \<Rightarrow> wf_result res option" where
  "run_trend c m bars initial fills sample_sec is_sec oos_sec step_sec periods =
     run_bind (Some (rmap (\<lambda>(s, l). trend_params_of c s l) combos)) (\<lambda>ps.
     case folds_of bars (Max (set (map warmup_bars ps))) sample_sec is_sec oos_sec step_sec of
       None \<Rightarrow> None
     | Some [] \<Rightarrow> Some (Inr (Inl NoFolds))
     | Some fs \<Rightarrow>
         run_bind (run_fold (trend_fold c m bars initial fills sample_sec) ([], []) (enumerate 1 fs)) (\<lambda>(frs, rets).
         run_bind (run_fold (\<lambda>acc sl. run_bind (full_sharpe c m bars initial fills sample_sec sl)
                                (\<lambda>x. Some (Inr (acc @ [x])))) [] combos) (\<lambda>sharpes.
           let sr_var = (if 2 \<le> length sharpes then st_pvariance sharpes else 0)
           in run_bind (Some (aggregate_folds m frs rets sample_sec (length combos) sr_var periods)) (\<lambda>agg.
                Some (Inr (Inr \<lparr>wf_folds = frs, wf_aggregate = agg, wf_strategy = ''trend''\<rparr>))))))"

definition run_walkforward ::
  "settings \<Rightarrow> libm \<Rightarrow> market_tick list \<Rightarrow> rat \<Rightarrow> fill_model \<Rightarrow> rat \<Rightarrow> rat \<Rightarrow> rat \<Rightarrow> rat \<Rightarrow> string \<Rightarrow> rat option
   \<Rightarrow> 's factory res option \<Rightarrow> wf_result res option" where
  "run_walkforward c m bars initial fills sample_sec is_sec oos_sec step_sec strategy periods maker =
     (if bars = [] then Some (Inr (Inl NoBars))
      else if strategy = ''ensemble'' then
        run_ensemble c m bars initial fills sample_sec is_sec oos_sec step_sec periods
      else if strategy \<noteq> ''trend'' then
        (case maker of
           None \<Rightarrow> Some (Inr (Inl NoFactory))
         | Some made \<Rightarrow> run_bind (Some made) (\<lambda>F.
             run_fixed m bars initial fills sample_sec is_sec oos_sec step_sec F strategy
               (case f_warmup F of None \<Rightarrow> 1 | Some n \<Rightarrow> n) periods))
      else run_trend c m bars initial fills sample_sec is_sec oos_sec step_sec periods)"

section \<open>Returns out of sample and the weights of the loads\<close>

definition oos_returns ::
  "market_tick list \<Rightarrow> 's factory \<Rightarrow> nat \<Rightarrow> rat \<Rightarrow> fill_model \<Rightarrow> rat \<Rightarrow> rat \<Rightarrow> rat \<Rightarrow> rat \<Rightarrow> rat list res option" where
  "oos_returns bars F prime_bars initial fills sample_sec is_sec oos_sec step_sec =
     (if bars = [] then Some (Inr [])
      else
        case folds_of bars prime_bars sample_sec is_sec oos_sec step_sec of
          None \<Rightarrow> None
        | Some fs \<Rightarrow>
            run_fold (\<lambda>rets f.
                run_bind (evaluate bars F (oos_prime f) (oos_start f) (oos_end f) initial fills sample_sec)
                  (\<lambda>ev. Some (Inr (rets @ w_rets ev)))) [] fs)"

type_synonym load = "string \<times> nat \<times> nat"

text \<open>The score (annual Sharpe ratio) and the gate (probabilistic Sharpe ratio) of every load.\<close>

definition score_load ::
  "settings \<Rightarrow> libm \<Rightarrow> market_tick list \<Rightarrow> nat \<Rightarrow> rat \<Rightarrow> fill_model \<Rightarrow> rat \<Rightarrow> rat \<Rightarrow> rat \<Rightarrow> rat \<Rightarrow> load
   \<Rightarrow> (rat \<times> rat) res option" where
  "score_load c m bars prime_bars initial fills sample_sec is_sec oos_sec step_sec ld =
     run_bind (Some (trend_factory c m (snd ld))) (\<lambda>F.
     run_bind (oos_returns bars F prime_bars initial fills sample_sec is_sec oos_sec step_sec) (\<lambda>rets.
     run_bind (Some (deflated_sharpe m rets 0 1)) (\<lambda>gate.
       let ppy = (if 0 < sample_sec then fquo SECONDS_PER_YEAR sample_sec else SECONDS_PER_YEAR)
       in Some (Inr (sharpe_from_returns m rets ppy, (case gate of None \<Rightarrow> 0 | Some g \<Rightarrow> g))))))"

definition score_loads ::
  "settings \<Rightarrow> libm \<Rightarrow> market_tick list \<Rightarrow> load list \<Rightarrow> rat \<Rightarrow> fill_model \<Rightarrow> rat \<Rightarrow> rat \<Rightarrow> rat \<Rightarrow> rat
   \<Rightarrow> (string \<times> rat \<times> rat) list res option" where
  "score_loads c m bars loads initial fills sample_sec is_sec oos_sec step_sec =
     run_bind (Some (rmap (\<lambda>(n, s, l). trend_params_of c s l) loads)) (\<lambda>ps.
     if ps = [] then Some (Inl (ValueError ''max() arg is an empty sequence''))
     else run_fold (\<lambda>out ld.
            run_bind (score_load c m bars (Max (set (map warmup_bars ps))) initial fills sample_sec
                        is_sec oos_sec step_sec ld)
              (\<lambda>sg. Some (Inr (AList.update (fst ld) sg out)))) [] loads)"

definition round6 :: "rat \<Rightarrow> rat" where
  "round6 w = fl (of_int (rhe (w * 1000000)) / 1000000)"

definition load_prev :: "(string \<times> rat) list \<Rightarrow> string list \<Rightarrow> (string \<times> rat) list" where
  "load_prev table names = map (\<lambda>(k, w). (k, fl w)) (filter (\<lambda>(k, w). k \<in> set names) table)"

text \<open>The upsert of \<open>strategy_weights\<close>: \<open>weight NUMERIC(10,6) CHECK (weight >= 0)\<close>, one transaction.\<close>

definition save_weight :: "(string \<times> rat) list \<Rightarrow> string \<times> rat \<Rightarrow> (string \<times> rat) list res" where
  "save_weight table nw =
     rbind (numeric 10 6 (frepr (round6 (snd nw)))) (\<lambda>w.
       if w < 0 then Inl (CheckViolation ''strategy_weights'') else Inr (AList.update (fst nw) w table))"

definition save_weights :: "(string \<times> rat) list \<Rightarrow> (string \<times> rat) list \<Rightarrow> (string \<times> rat) list res" where
  "save_weights table weights = rfold save_weight table weights"

definition reweigh :: "settings \<Rightarrow> (string \<times> rat) list \<Rightarrow> (string \<times> rat \<times> rat) list \<Rightarrow> (string \<times> rat) list" where
  "reweigh c table scored =
     (let scores = map (\<lambda>(k, s, g). (k, s)) scored; gates = map (\<lambda>(k, s, g). (k, g)) scored
      in compute_weights scores gates (load_prev table (keys_of scores)) (ENSEMBLE_WEIGHT_FLOOR_MULT c)
           (ENSEMBLE_WEIGHT_CAP_MULT c) (ENSEMBLE_DSR_GATE c) (ENSEMBLE_WEIGHT_EWMA c))"

definition reeval ::
  "settings \<Rightarrow> libm \<Rightarrow> (string \<times> rat) list \<Rightarrow> market_tick list \<Rightarrow> load list \<Rightarrow> rat \<Rightarrow> fill_model \<Rightarrow> rat \<Rightarrow> rat \<Rightarrow> rat
   \<Rightarrow> rat \<Rightarrow> bool \<Rightarrow> ((string \<times> rat) list \<times> (string \<times> rat) list) res option" where
  "reeval c m table bars loads initial fills sample_sec is_sec oos_sec step_sec dry_run =
     run_bind (score_loads c m bars loads initial fills sample_sec is_sec oos_sec step_sec) (\<lambda>scored.
       let weights = reweigh c table scored
       in if dry_run then Some (Inr (weights, table))
          else run_bind (Some (save_weights table weights)) (\<lambda>table'. Some (Inr (weights, table'))))"

section \<open>The folds\<close>

lemma fadd_int: "\<bar>a + b\<bar> \<le> 2 ^ 53 \<Longrightarrow> fadd (of_int a) (of_int b) = of_int (a + b)"
  using fl_of_int [of "a + b"] by (simp add: fadd_def)

lemma fsub_int: "\<bar>a - b\<bar> \<le> 2 ^ 53 \<Longrightarrow> fsub (of_int a) (of_int b) = of_int (a - b)"
  using fl_of_int [of "a - b"] by (simp add: fsub_def)

lemma folds_steps:
  assumes "0 < n" "0 \<le> oos" "0 \<le> s" "s + n * int k + oos \<le> 2 ^ 53"
    and "\<forall>j < k. s + n * int j + oos \<le> t1" "t1 < s + n * int k + oos"
  shows "folds_from (of_int t1) p i (of_int oos) (of_int n) (of_int s) acc =
    Some (acc @ map (\<lambda>j. fold_at p i (of_int oos) (of_int (s + n * int j))) [0..<k])"
  using assms
proof (induction k arbitrary: s acc)
  case 0
  then have "fadd (of_int s) (of_int oos) = of_int (s + oos)" by (intro fadd_int) simp
  with 0 show ?case by (subst folds_from.simps) simp
next
  case (Suc k)
  have nk: "0 \<le> n * int k" using Suc.prems(1) by simp
  have ex: "n * int (Suc k) = n + n * int k" by (simp add: algebra_simps)
  have b: "s + oos \<le> 2 ^ 53" "s + n \<le> 2 ^ 53"
    using Suc.prems(1-4) nk unfolding ex by linarith+
  have a: "fadd (of_int s) (of_int oos) = of_int (s + oos)" "fadd (of_int s) (of_int n) = of_int (s + n)"
    using Suc.prems(1-3) b by (auto intro!: fadd_int simp del: of_int_add)
  have c: "(of_int (s + oos) :: rat) \<le> of_int t1"
    using spec [OF Suc.prems(5), of 0] by (simp only: of_int_le_iff) simp
  then have c': "s + oos \<le> t1" by (simp only: of_int_le_iff)
  have m: "s + n * int (Suc j) = (s + n) + n * int j" "s + n * (1 + int j) = (s + n) + n * int j" for j
    by (simp_all add: algebra_simps)
  have l: "map (\<lambda>j. fold_at p i (of_int oos) (of_int (s + n * int j))) [0..<Suc k] =
      fold_at p i (of_int oos) (of_int s) # map (\<lambda>j. fold_at p i (of_int oos) (of_int ((s + n) + n * int j))) [0..<k]"
    by (simp add: upt_conv_Cons map_Suc_upt [symmetric] m comp_def del: upt_Suc of_int_add)
  have "\<forall>j < k. (s + n) + n * int j + oos \<le> t1" using Suc.prems(5) m(1) by (metis Suc_mono)
  moreover have "t1 < (s + n) + n * int k + oos" "(s + n) + n * int k + oos \<le> 2 ^ 53" "0 \<le> s + n"
    using Suc.prems(1,3,4,6) m(1) [of k] by simp_all
  ultimately have "folds_from (of_int t1) p i (of_int oos) (of_int n) (of_int (s + n))
      (acc @ [fold_at p i (of_int oos) (of_int s)]) =
    Some ((acc @ [fold_at p i (of_int oos) (of_int s)]) @
      map (\<lambda>j. fold_at p i (of_int oos) (of_int ((s + n) + n * int j))) [0..<k])"
    using Suc.prems(1,2) by (intro Suc.IH) auto
  then show ?case unfolding l by (subst folds_from.simps) (simp add: a c c' del: of_int_add)
qed

definition fold_count :: "int \<Rightarrow> int \<Rightarrow> int \<Rightarrow> int \<Rightarrow> nat" where
  "fold_count s t1 oos step = nat ((t1 - oos - s) div step + 1)"

lemma fold_count_bounds:
  assumes "0 < n"
  shows "\<forall>j < fold_count s t1 oos n. s + n * int j + oos \<le> t1"
    and "t1 < s + n * int (fold_count s t1 oos n) + oos"
proof -
  let ?q = "(t1 - oos - s) div n"
  have "n * ?q + (t1 - oos - s) mod n = t1 - oos - s" "0 \<le> (t1 - oos - s) mod n" "(t1 - oos - s) mod n < n"
    using assms by simp_all
  then have q: "n * ?q \<le> t1 - oos - s" "t1 - oos - s < n * (?q + 1)"
    unfolding distrib_left by linarith+
  show "\<forall>j < fold_count s t1 oos n. s + n * int j + oos \<le> t1"
  proof (intro allI impI)
    fix j assume "j < fold_count s t1 oos n"
    then have "int j \<le> ?q" by (simp add: fold_count_def)
    then have "n * int j \<le> n * ?q" using assms by simp
    with q show "s + n * int j + oos \<le> t1" by simp
  qed
  have "?q + 1 \<le> int (fold_count s t1 oos n)" by (simp add: fold_count_def)
  then have "n * (?q + 1) \<le> n * int (fold_count s t1 oos n)" using assms by (intro mult_left_mono) auto
  with q show "t1 < s + n * int (fold_count s t1 oos n) + oos" by simp
qed

section \<open>A window sees only its bars\<close>

lemma window_upto:
  assumes "filter (\<lambda>t. t_ts t < x) bars = filter (\<lambda>t. t_ts t < x) bars'" "hi \<le> x"
  shows "window lo hi bars = window lo hi bars'"
proof -
  have "window lo hi (filter (\<lambda>t. t_ts t < x) bs) = window lo hi bs" for bs
    unfolding window_def filter_filter using assms(2) by (intro filter_cong) auto
  with assms(1) show ?thesis by metis
qed

lemma evaluate_upto:
  assumes "filter (\<lambda>t. t_ts t < x) bars = filter (\<lambda>t. t_ts t < x) bars'" "b \<le> x" "e \<le> x"
  shows "evaluate bars F a b e initial fills sample_sec = evaluate bars' F a b e initial fills sample_sec"
  unfolding evaluate_def window_upto [OF assms(1,2)] window_upto [OF assms(1,3)] ..

lemma evaluate_combo_upto:
  assumes "filter (\<lambda>t. t_ts t < x) bars = filter (\<lambda>t. t_ts t < x) bars'" "b \<le> x" "e \<le> x"
  shows "evaluate_combo c m bars initial fills sample_sec sl a b e =
    evaluate_combo c m bars' initial fills sample_sec sl a b e"
  unfolding evaluate_combo_def by (simp add: evaluate_upto [OF assms])

lemma select_upto:
  assumes "filter (\<lambda>t. t_ts t < x) bars = filter (\<lambda>t. t_ts t < x) bars'"
    and "is_start f \<le> x" "oos_start f \<le> x"
  shows "select c m bars initial fills sample_sec f = select c m bars' initial fills sample_sec f"
  unfolding select_def by (simp add: evaluate_combo_upto [OF assms])

lemma fold_order:
  assumes "fl start = start" "0 \<le> is_sec" "0 \<le> oos_sec"
  shows "is_start (fold_at prime_sec is_sec oos_sec start) \<le> start"
    "start \<le> oos_end (fold_at prime_sec is_sec oos_sec start)"
  using fl_mono [of "start - is_sec" start] fl_mono [of start "start + oos_sec"] assms
  by (simp_all add: fold_at_def fsub_def fadd_def)

section \<open>The selection is the best of the grid\<close>

lemma better_upper:
  "better best sl score = Some (b, s) \<Longrightarrow> score \<le> s \<and> (\<forall>b' s'. best = Some (b', s') \<longrightarrow> s' \<le> s)"
  by (auto simp: better_def split: option.splits if_splits)

lemma best_of_fold:
  assumes "run_fold (\<lambda>best sl. run_bind (g sl) (\<lambda>ev. Some (Inr (better best sl (w_return ev))))) best0 sls
      = Some (Inr best)"
  shows "(\<forall>b s. best0 = Some (b, s) \<longrightarrow> (\<exists>b' s'. best = Some (b', s') \<and> s \<le> s')) \<and>
    (\<forall>sl \<in> set sls. \<exists>ev b s. g sl = Some (Inr ev) \<and> best = Some (b, s) \<and> w_return ev \<le> s) \<and>
    (best = best0 \<or> (\<exists>sl \<in> set sls. \<exists>ev. g sl = Some (Inr ev) \<and> best = Some (sl, w_return ev)))"
  using assms
proof (induction sls arbitrary: best0)
  case (Cons sl sls)
  from Cons.prems obtain ev where g: "g sl = Some (Inr ev)"
    and r: "run_fold (\<lambda>best sl. run_bind (g sl) (\<lambda>ev. Some (Inr (better best sl (w_return ev)))))
      (better best0 sl (w_return ev)) sls = Some (Inr best)" by auto
  have b: "better best0 sl (w_return ev) = best0 \<or> better best0 sl (w_return ev) = Some (sl, w_return ev)"
    by (auto simp: better_def split: option.splits)
  obtain b1 s1 where b1: "better best0 sl (w_return ev) = Some (b1, s1)"
    by (cases "better best0 sl (w_return ev)") (auto simp: better_def split: option.splits if_splits)
  from Cons.IH [OF r] obtain b' s' where b': "best = Some (b', s')" "s1 \<le> s'" using b1 by blast
  have u: "w_return ev \<le> s1" "\<forall>b s. best0 = Some (b, s) \<longrightarrow> s \<le> s1" using better_upper [OF b1] by auto
  from Cons.IH [OF r] b b' u g show ?case by (auto intro: order_trans)
qed simp

section \<open>Saving the weights\<close>

definition stored_weight :: "rat \<Rightarrow> rat" where
  "stored_weight w = of_int (rhu (frepr (round6 w) * 10 ^ 6)) / 10 ^ 6"

lemma save_weightD:
  assumes "save_weight table nw = Inr table'"
  shows "table' = AList.update (fst nw) (stored_weight (snd nw)) table \<and> 0 \<le> stored_weight (snd nw)"
proof -
  from assms obtain w where w: "numeric 10 6 (frepr (round6 (snd nw))) = Inr w" "\<not> w < 0"
    "table' = AList.update (fst nw) w table" by (auto simp: save_weight_def split: if_splits)
  have "w = stored_weight (snd nw)" using w(1) unfolding numeric_Inr_iff stored_weight_def by blast
  with w show ?thesis by simp
qed

lemma save_weights_table:
  assumes "save_weights table ws = Inr table'" "distinct (map fst ws)" "distinct (keys_of table)"
  shows "distinct (keys_of table') \<and> list_all (\<lambda>(k, w). map_of table' k = Some (stored_weight w)) ws \<and>
    (\<forall>k. k \<notin> set (map fst ws) \<longrightarrow> map_of table' k = map_of table k)"
  using assms unfolding save_weights_def
proof (induction ws arbitrary: table)
  case (Cons nw ws)
  from Cons.prems(1) obtain t1 where t1: "save_weight table nw = Inr t1" "rfold save_weight t1 ws = Inr table'"
    by auto
  from save_weightD [OF t1(1)] have e: "t1 = AList.update (fst nw) (stored_weight (snd nw)) table" by simp
  then have "distinct (keys_of t1)" using Cons.prems(3) by (simp add: distinct_update)
  from Cons.IH [OF t1(2) _ this] Cons.prems(2) show ?case
    by (auto simp: e update_conv' case_prod_beta)
qed simp

lemma rows_of_names:
  assumes "distinct (keys_of table)" "distinct names" "set names \<subseteq> set (keys_of table)"
  shows "length (filter (\<lambda>(k, w). k \<in> set names) table) = length names"
proof -
  let ?r = "filter (\<lambda>(k, w). k \<in> set names) table"
  have "distinct (keys_of ?r)" using assms(1) by (induction table) auto
  moreover have "set (keys_of ?r) = set names" using assms(3) by force
  ultimately show ?thesis using assms(2) by (metis distinct_card length_map)
qed

lemma get_or_filter: "k \<in> S \<Longrightarrow> get_or (filter (\<lambda>(k, w). k \<in> S) table) k d = get_or table k d"
  by (induction table) (auto simp: get_or_def split: option.splits)

lemma reweigh_keys: "map fst (reweigh c table scored) = map fst scored"
  by (simp add: reweigh_def Let_def compute_weights_keys comp_def case_prod_beta)

lemma score_loads_keys:
  assumes "score_loads c m bars loads initial fills sample_sec is_sec oos_sec step_sec = Some (Inr scored)"
  shows "distinct (keys_of scored) \<and> set (keys_of scored) = set (map fst loads)"
proof -
  have "distinct (keys_of scored) \<and> set (keys_of scored) = set (keys_of out) \<union> set (map fst loads)"
    if "run_fold (\<lambda>out ld. run_bind (g ld) (\<lambda>sg. Some (Inr (AList.update (fst ld) sg out)))) out loads = Some (Inr scored)"
      "distinct (keys_of out)" for g and out :: "(string \<times> rat \<times> rat) list"
    using that
  proof (induction loads arbitrary: out)
    case (Cons ld loads)
    from Cons.prems obtain sg where "g ld = Some (Inr sg)"
      and r: "run_fold (\<lambda>out ld. run_bind (g ld) (\<lambda>sg. Some (Inr (AList.update (fst ld) sg out))))
        (AList.update (fst ld) sg out) loads = Some (Inr scored)" by auto
    from Cons.IH [OF r] Cons.prems(2) show ?case by (auto simp: distinct_update dom_update)
  qed simp
  note keys = this
  from assms obtain ps where "run_fold (\<lambda>out ld. run_bind (score_load c m bars (Max (set (map warmup_bars ps)))
      initial fills sample_sec is_sec oos_sec step_sec ld)
      (\<lambda>sg. Some (Inr (AList.update (fst ld) sg out)))) [] loads = Some (Inr scored)"
    by (auto simp: score_loads_def split: if_splits)
  from keys [OF this] show ?thesis by simp
qed

lemma load_saved:
  assumes "save_weights table ws = Inr table'" "distinct (map fst ws)" "distinct (keys_of table)" "ENSEMBLE_ADAPTIVE c"
  shows "load_weights c table' (map fst ws) =
    (if fsum (map (\<lambda>(k, w). fl (stored_weight w)) ws) \<le> 0 then map (\<lambda>(k, w). (k, 1)) ws
     else map (\<lambda>(k, w). (k, fl (stored_weight w))) ws)"
proof -
  note t = save_weights_table [OF assms(1-3)]
  have "set (map fst ws) \<subseteq> set (keys_of table')"
    using t by (force simp: list_all_iff dest: map_of_SomeD)
  then have n: "length (filter (\<lambda>(k, w). k \<in> set (map fst ws)) table') = length (map fst ws)"
    using t assms(2) by (intro rows_of_names) auto
  have "get_or (filter (\<lambda>(k, w). k \<in> set (map fst ws)) table') k 0 = stored_weight w" if "(k, w) \<in> set ws" for k w
  proof -
    have "k \<in> set (map fst ws)" using that by force
    then show ?thesis using get_or_filter [of k "set (map fst ws)" table' 0] t that
      by (auto simp: list_all_iff get_or_def)
  qed
  then have o: "map (\<lambda>n. (n, fl (get_or (filter (\<lambda>(k, w). k \<in> set (map fst ws)) table') n 0))) (map fst ws)
      = map (\<lambda>(k, w). (k, fl (stored_weight w))) ws"
    by (auto simp: comp_def)
  show ?thesis
    unfolding load_weights_def Let_def o n using assms(4) by (simp add: comp_def split_def)
qed

lemma evaluate_empty:
  "fl initial \<noteq> 0 \<Longrightarrow> evaluate [] F a b e initial fills sample_sec =
    Some (Inr \<lparr>w_return = 0, w_rets = [], w_trades = 0, w_fees = 0, w_tax = 0\<rparr>)"
  using fl_lit [of 1]
  by (simp add: evaluate_def window_def prime_def new_engine_def new_account_def summary_def fdiv_def fquo_def
      dsum_def fsub_def)

section \<open>Properties\<close>

text \<open>The folds of a walk-forward run on integral times are generated in finitely many steps:
  the loop returns, the \<open>j\<close>-th fold evaluates out of sample the window of length \<open>oos\<close> that starts
  \<open>j\<close> steps after the first possible one, its in-sample and priming windows lie directly before
  it and not before the first bar, and no fold reaches past the last bar while one more would.\<close>

lemma folds_tile_the_data:
  assumes "0 < step" "0 \<le> t0" "0 \<le> prime_sec" "0 \<le> is_sec" "0 \<le> oos"
    and "t1 + step + oos \<le> 2 ^ 53" "t0 + prime_sec + is_sec + oos \<le> 2 ^ 53"
  shows "folds (of_int t0) (of_int t1) (of_int prime_sec) (of_int is_sec) (of_int oos) (of_int step) =
    Some (map (\<lambda>j. let s = t0 + prime_sec + is_sec + step * int j in
        \<lparr>is_prime = of_int (s - is_sec - prime_sec), is_start = of_int (s - is_sec),
         oos_prime = of_int (s - prime_sec), oos_start = of_int s, oos_end = of_int (s + oos)\<rparr>)
      [0..<fold_count (t0 + prime_sec + is_sec) t1 oos step])
    \<and> (\<forall>j < fold_count (t0 + prime_sec + is_sec) t1 oos step. t0 + prime_sec + is_sec + step * int j + oos \<le> t1)
    \<and> t1 < t0 + prime_sec + is_sec + step * int (fold_count (t0 + prime_sec + is_sec) t1 oos step) + oos"
proof -
  let ?s = "t0 + prime_sec + is_sec" and ?k = "fold_count (t0 + prime_sec + is_sec) t1 oos step"
  note k = fold_count_bounds [OF assms(1), where s = ?s and ?t1.0 = t1 and oos = oos]
  have b: "?s + step * int j + oos \<le> 2 ^ 53" if "j \<le> ?k" for j
  proof (cases j)
    case 0
    then show ?thesis using assms(7) by simp
  next
    case (Suc i)
    then have "?s + step * int i + oos \<le> t1" using k(1) that by simp
    with Suc assms(6) show ?thesis using assms(1,5) by (simp add: algebra_simps)
  qed
  have s: "fadd (fadd (of_int t0) (of_int prime_sec)) (of_int is_sec) = of_int ?s"
    using fadd_int [of t0 prime_sec] fadd_int [of "t0 + prime_sec" is_sec] assms by simp
  have f: "fold_at (of_int prime_sec) (of_int is_sec) (of_int oos) (of_int (?s + step * int j)) =
      (let s = ?s + step * int j in
        \<lparr>is_prime = of_int (s - is_sec - prime_sec), is_start = of_int (s - is_sec),
         oos_prime = of_int (s - prime_sec), oos_start = of_int s, oos_end = of_int (s + oos)\<rparr>)" if "j < ?k" for j
  proof -
    have j: "0 \<le> step * int j" using assms(1) by simp
    define S where "S = ?s + step * int j"
    have S: "t0 + prime_sec + is_sec \<le> S" "S + oos \<le> 2 ^ 53" using b [of j] that j by (simp_all add: S_def)
    have e: "fsub (of_int S) (of_int is_sec) = of_int (S - is_sec)"
      "fsub (of_int (S - is_sec)) (of_int prime_sec) = of_int (S - is_sec - prime_sec)"
      "fsub (of_int S) (of_int prime_sec) = of_int (S - prime_sec)"
      "fadd (of_int S) (of_int oos) = of_int (S + oos)"
      using S assms(2-5) by (auto intro!: fsub_int fadd_int simp del: of_int_add of_int_diff)
    show ?thesis unfolding fold_at_def Let_def S_def [symmetric] e ..
  qed
  have "folds (of_int t0) (of_int t1) (of_int prime_sec) (of_int is_sec) (of_int oos) (of_int step) =
      Some (map (\<lambda>j. fold_at (of_int prime_sec) (of_int is_sec) (of_int oos) (of_int (?s + step * int j))) [0..<?k])"
    unfolding folds_def s using assms b [of ?k] k by (subst folds_steps [where k = ?k]) simp_all
  then show ?thesis using f k by (auto simp: Let_def)
qed

text \<open>C26: The walk-forward run does not look ahead: what a fold selects in sample is the same for any
  data that agree before the start of its out-of-sample window, and what the fold contributes is
  the same for any data that agree before the end of that window.\<close>

theorem fold_has_no_lookahead:
  assumes "f = fold_at prime_sec is_sec oos_sec start" "fl start = start" "0 \<le> is_sec" "0 \<le> oos_sec"
  shows "(filter (\<lambda>t. t_ts t < oos_start f) bars = filter (\<lambda>t. t_ts t < oos_start f) bars' \<longrightarrow>
      select c m bars initial fills sample_sec f = select c m bars' initial fills sample_sec f) \<and>
    (filter (\<lambda>t. t_ts t < oos_end f) bars = filter (\<lambda>t. t_ts t < oos_end f) bars' \<longrightarrow>
      trend_fold c m bars initial fills sample_sec acc (i, f) = trend_fold c m bars' initial fills sample_sec acc (i, f))"
proof -
  have o: "is_start f \<le> oos_start f" "oos_start f \<le> oos_end f"
    using fold_order [OF assms(2-4)] assms(1) by (simp_all add: fold_at_def)
  then have o': "is_start f \<le> oos_end f" by simp
  show ?thesis
  proof (intro conjI impI)
    assume "filter (\<lambda>t. t_ts t < oos_start f) bars = filter (\<lambda>t. t_ts t < oos_start f) bars'"
    from select_upto [OF this o(1)] show "select c m bars initial fills sample_sec f = select c m bars' initial fills sample_sec f"
      by simp
  next
    assume h: "filter (\<lambda>t. t_ts t < oos_end f) bars = filter (\<lambda>t. t_ts t < oos_end f) bars'"
    show "trend_fold c m bars initial fills sample_sec acc (i, f) = trend_fold c m bars' initial fills sample_sec acc (i, f)"
      unfolding trend_fold_def Let_def snd_conv fst_conv select_upto [OF h o' o(2)]
        evaluate_combo_upto [OF h o(2) order_refl] ..
  qed
qed

theorem fold_has_no_lookahead_witness:
  "select default_settings demo_libm [] 100 demo_fills 60 (fold_at 0 10 10 100)
   = select default_settings demo_libm [\<lparr>t_symbol = ''x'', t_price = 1, t_ts = 100\<rparr>] 100 demo_fills 60 (fold_at 0 10 10 100)"
  using fold_has_no_lookahead [OF refl, of 100 10 10 0 "[]" "[\<lparr>t_symbol = ''x'', t_price = 1, t_ts = 100\<rparr>]"
      default_settings demo_libm 100 demo_fills 60] fl_lit [of 100]
  by (simp add: fold_at_def)

text \<open>In-sample selection: when it returns, the chosen pair is one of the grid, its score is its own
  in-sample return, and no pair of the grid has a higher one.\<close>

lemma selection_is_best_of_grid:
  assumes "select c m bars initial fills sample_sec f = Some (Inr best)"
  shows "\<exists>sl ev. best = Some (sl, w_return ev) \<and> sl \<in> set combos \<and>
      evaluate_combo c m bars initial fills sample_sec sl (is_prime f) (is_start f) (oos_start f) = Some (Inr ev) \<and>
      list_all (\<lambda>sl'. \<exists>ev'. evaluate_combo c m bars initial fills sample_sec sl' (is_prime f) (is_start f) (oos_start f)
        = Some (Inr ev') \<and> w_return ev' \<le> w_return ev) combos"
proof -
  have c: "(5, 30) \<in> set combos" by (simp add: combos_def)
  note b = best_of_fold [OF assms [unfolded select_def]]
  from b c obtain sl ev where s: "sl \<in> set combos" "best = Some (sl, w_return ev)"
    "evaluate_combo c m bars initial fills sample_sec sl (is_prime f) (is_start f) (oos_start f) = Some (Inr ev)"
    by (metis option.distinct(1))
  with b show ?thesis by (auto simp: list_all_iff)
qed

text \<open>The weights round-trip: after a re-evaluation has saved its weights, the live trader reads
  back for exactly the evaluated loads the saved weights (rounded to the six digits of the table),
  or equal weights if they are all zero.\<close>

lemma reevaluated_weights_are_loaded:
  assumes "reeval c m table bars loads initial fills sample_sec is_sec oos_sec step_sec False = Some (Inr (ws, table'))"
    and "distinct (keys_of table)" "ENSEMBLE_ADAPTIVE c"
  shows "set (map fst ws) = set (map fst loads) \<and> load_weights c table' (map fst ws) =
    (if fsum (map (\<lambda>(k, w). fl (stored_weight w)) ws) \<le> 0 then map (\<lambda>(k, w). (k, 1)) ws
     else map (\<lambda>(k, w). (k, fl (stored_weight w))) ws)"
proof -
  from assms(1) obtain scored where s:
      "score_loads c m bars loads initial fills sample_sec is_sec oos_sec step_sec = Some (Inr scored)"
      "ws = reweigh c table scored" "save_weights table ws = Inr table'"
    by (auto simp: reeval_def Let_def)
  have "distinct (map fst ws)" "set (map fst ws) = set (map fst loads)"
    using score_loads_keys [OF s(1)] by (simp_all add: s(2) reweigh_keys del: set_map)
  with load_saved [OF s(3) _ assms(2,3)] show ?thesis by simp
qed

end
