(* ===== verification/SessionStrategies.thy ===== *)
theory SessionStrategies
  imports Strategies "HOL-Library.Multiset"
begin

text \<open>
  The cross-sectional strategies of \<open>trading/strategy/plugins/cross_sectional.py\<close> and the
  intraday session strategies of \<open>intraday.py\<close>.  The iteration order of a Python set is an
  argument \<open>enum\<close> that lists its elements; the offset of New York is \<open>et\<close>.
\<close>

section \<open>Cross-sectional ranking\<close>

record xs_params =
  bar_sec :: rat
  lookback :: nat
  top_n :: nat
  xs_band :: rat
  max_weight :: rat
  momentum :: bool

definition xs_params_of :: "settings \<Rightarrow> nat \<Rightarrow> bool \<Rightarrow> xs_params" where
  "xs_params_of c bar_min mom =
     \<lparr>bar_sec = fmul (of_nat bar_min) 60, lookback = XS_LOOKBACK c, top_n = XS_TOP_N c,
      xs_band = fl (XS_REBALANCE_BAND c), max_weight = XS_MAX_WEIGHT c, momentum = mom\<rparr>"

record xs_state =
  cur_bar :: "int option"
  snapshot :: "(string \<times> rat) list"
  history :: "(string \<times> rat list) list"

definition new_xs :: xs_state where
  "new_xs = \<lparr>cur_bar = None, snapshot = [], history = []\<rparr>"

definition lookback_return :: "rat list \<Rightarrow> nat \<Rightarrow> rat option" where
  "lookback_return dq k =
     (if length dq < k + 1 then None
      else let base = dq ! (length dq - 1 - k)
           in if 0 < base then Some (fsub (fquo (last dq) base) 1) else None)"

definition scores :: "xs_params \<Rightarrow> xs_state \<Rightarrow> (string \<times> rat) list" where
  "scores p st = concat (map (\<lambda>(s, dq).
     if map_of (snapshot st) s = None then []
     else (case lookback_return dq (lookback p) of None \<Rightarrow> [] | Some r \<Rightarrow> [(s, r)])) (history st))"

text \<open>\<open>sorted(scores, key=scores.get)\<close>, or with \<open>reverse=True\<close>: both sorts are stable.\<close>

definition rank :: "xs_params \<Rightarrow> xs_state \<Rightarrow> string list" where
  "rank p st =
     (let sc = scores p st
      in map fst (if momentum p then sort_key (\<lambda>(s, r). - r) sc else sort_key (\<lambda>(s, r). r) sc))"

definition xs_sell ::
  "settings \<Rightarrow> xs_params \<Rightarrow> 'b broker \<Rightarrow> (string \<times> rat) list \<Rightarrow> string list \<Rightarrow> rat \<Rightarrow> rat \<Rightarrow> rat \<Rightarrow> rat \<Rightarrow>
   unit \<times> 'b \<Rightarrow> string \<Rightarrow> (unit \<times> 'b) res" where
  "xs_sell c p B snap longs tw cash equity ts ub symbol =
     (let b = snd ub;
          px = (case map_of snap symbol of Some x \<Rightarrow> x | None \<Rightarrow> b_price B b symbol)
      in if px \<le> 0 then Inr ((), b)
         else
           rbind (decide c (position_qty B b symbol) px cash equity
                    (fl (if symbol \<in> set longs then tw else 0)) (xs_band p)) (\<lambda>d.
             case d of
               Some (SELL, q) \<Rightarrow> rbind (b_sell B b symbol q ''XS_REBAL'' ts (Some px)) (\<lambda>(b', r). Inr ((), b'))
             | _ \<Rightarrow> Inr ((), b)))"

definition xs_buy ::
  "settings \<Rightarrow> xs_params \<Rightarrow> 'b broker \<Rightarrow> (string \<times> rat) list \<Rightarrow> rat \<Rightarrow> rat \<Rightarrow> rat \<Rightarrow> rat \<Rightarrow>
   unit \<times> 'b \<Rightarrow> string \<Rightarrow> (unit \<times> 'b) res" where
  "xs_buy c p B snap tw cash equity ts ub symbol =
     (case map_of snap symbol of
        None \<Rightarrow> Inl (KeyError symbol)
      | Some px \<Rightarrow>
          let b = snd ub in
          rbind (decide c (position_qty B b symbol) px cash equity (fl tw) (xs_band p)) (\<lambda>d.
            case d of
              Some (BUY, q) \<Rightarrow> rbind (b_buy B b symbol q ts (Some px)) (\<lambda>(b', r). Inr ((), b'))
            | _ \<Rightarrow> Inr ((), b)))"

definition on_bar_close ::
  "settings \<Rightarrow> xs_params \<Rightarrow> (string set \<Rightarrow> string list) \<Rightarrow> 'b broker \<Rightarrow> xs_state \<Rightarrow> rat \<Rightarrow> 'b \<Rightarrow>
   (unit \<times> 'b) res" where
  "on_bar_close c p enum B st ts b =
     (if length (snapshot st) < 2 then Inr ((), b)
      else
        let longs = take (top_n p) (rank p st)
        in if longs = [] then Inr ((), b)
           else
             let tw = min (dec (1 / of_nat (length longs))) (max_weight p);
                 held = enum (set (iter_positions B b) \<union> set longs)
             in rbind (rfold (xs_sell c p B (snapshot st) longs tw (b_cash B b) (b_equity B b) ts) ((), b) held)
                  (\<lambda>(u, b1). rfold (xs_buy c p B (snapshot st) tw (b_cash B b1) (b_equity B b1) ts) ((), b1) longs))"

definition xs_strategy ::
  "settings \<Rightarrow> xs_params \<Rightarrow> (string set \<Rightarrow> string list) \<Rightarrow> 'b broker \<Rightarrow> (xs_state, 'b) strategy" where
  "xs_strategy c p enum B st t b =
     rbind (bar_key (t_ts t) (bar_sec p)) (\<lambda>k.
     rbind (case cur_bar st of
              None \<Rightarrow> Inr (st\<lparr>cur_bar := Some k\<rparr>, b)
            | Some k0 \<Rightarrow>
                if k = k0 then Inr (st, b)
                else rbind (on_bar_close c p enum B st (t_ts t) b)
                       (\<lambda>(u, b'). Inr (st\<lparr>snapshot := [], cur_bar := Some k\<rparr>, b'))) (\<lambda>(st1, b1).
       Inr (st1\<lparr>snapshot := AList.update (t_symbol t) (t_price t) (snapshot st1),
                history := AList.update (t_symbol t)
                  (deque_append (lookback p + 1) (get_or (history st1) (t_symbol t) []) (fl (t_price t)))
                  (history st1)\<rparr>, b1)))"

section \<open>Sessions\<close>

record session =
  s_date :: int
  s_first :: rat
  s_n :: nat
  s_or_hi :: "rat option"
  s_window_close :: "rat option"
  s_entered :: bool

definition new_session :: "int \<Rightarrow> rat \<Rightarrow> session" where
  "new_session d price =
     \<lparr>s_date = d, s_first = price, s_n = 0, s_or_hi = None, s_window_close = None, s_entered = False\<rparr>"

text \<open>\<open>window_done\<close> is set together with \<open>window_close\<close> and nowhere else.\<close>

definition window_done :: "session \<Rightarrow> bool" where
  "window_done s \<longleftrightarrow> s_window_close s \<noteq> None"

definition session_update :: "session \<Rightarrow> rat \<Rightarrow> nat \<Rightarrow> session" where
  "session_update s price opening_bars =
     (let s1 = s\<lparr>s_n := Suc (s_n s)\<rparr>
      in if s_n s1 \<le> opening_bars then
           s1\<lparr>s_or_hi := Some (case s_or_hi s of None \<Rightarrow> price | Some h \<Rightarrow> max h price),
              s_window_close := (if s_n s1 = opening_bars then Some price else s_window_close s)\<rparr>
         else s1)"

datatype entry_rule = ORB | Momentum rat

definition should_enter :: "entry_rule \<Rightarrow> rat \<Rightarrow> session \<Rightarrow> bool" where
  "should_enter rule price s =
     (case rule of
        ORB \<Rightarrow> window_done s \<and> (case s_or_hi s of None \<Rightarrow> False | Some h \<Rightarrow> h < price)
      | Momentum threshold \<Rightarrow>
          (case s_window_close s of
             None \<Rightarrow> False
           | Some w \<Rightarrow> 0 < s_first s \<and> threshold < dsub (dec (w / s_first s)) 1))"

record intraday_params =
  i_bar_sec :: rat
  i_opening_bars :: nat
  i_fraction :: rat
  i_rule :: entry_rule

type_synonym sessions = "(string \<times> session) list"

text \<open>\<open>datetime.fromtimestamp\<close> rounds to microseconds, half to even.\<close>

definition instant_of :: "rat \<Rightarrow> int" where
  "instant_of ts = rhe (ts * 1000000)"

text \<open>The close of the previous session's remainder, and the entry of a session.\<close>

definition close_out :: "'b broker \<Rightarrow> string \<Rightarrow> string \<Rightarrow> rat \<Rightarrow> rat \<Rightarrow> 'b \<Rightarrow> (unit \<times> 'b) res" where
  "close_out B symbol why ts price b =
     (if 0 < position_qty B b symbol
      then rbind (b_sell B b symbol (position_qty B b symbol) why ts (Some price)) (\<lambda>(b', r). Inr ((), b'))
      else Inr ((), b))"

definition intraday_enter ::
  "settings \<Rightarrow> intraday_params \<Rightarrow> 'b broker \<Rightarrow> session \<Rightarrow> string \<Rightarrow> rat \<Rightarrow> rat \<Rightarrow> 'b \<Rightarrow> (session \<times> 'b) res" where
  "intraday_enter c p B s symbol price ts b =
     (if s_entered s \<or> position_qty B b symbol \<noteq> 0 \<or> \<not> should_enter (i_rule p) price s then Inr (s, b)
      else
        let budget = (if 0 < b_cash B b then dmul (b_cash B b) (i_fraction p) else 0)
        in if budget < MIN_ORDER_KRW c then Inr (s, b)
           else
             rbind (ddiv budget price) (\<lambda>x. rbind (quantize rhe 8 x) (\<lambda>q.
               if 0 < q then
                 rbind (b_buy B b symbol q ts (Some price)) (\<lambda>(b', ok). Inr (s\<lparr>s_entered := ok \<or> s_entered s\<rparr>, b'))
               else Inr (s, b))))"

definition intraday_strategy ::
  "settings \<Rightarrow> (int \<Rightarrow> int) \<Rightarrow> intraday_params \<Rightarrow> 'b broker \<Rightarrow> (sessions, 'b) strategy" where
  "intraday_strategy c et p B st t b =
     (let symbol = t_symbol t; price = t_price t; ts = t_ts t; now = instant_of ts;
          d = session_date et symbol now;
          old = map_of st symbol;
          fresh = (case old of None \<Rightarrow> True | Some s \<Rightarrow> s_date s \<noteq> d);
          s0 = (if fresh then new_session d price else the old)
      in rbind (if fresh then close_out B symbol ''SESSION_END'' ts price b else Inr ((), b)) (\<lambda>(u, b1).
         let s1 = session_update s0 price (i_opening_bars p)
         in if (case seconds_to_close et symbol now of None \<Rightarrow> False | Some ttc \<Rightarrow> ttc \<le> i_bar_sec p)
            then rbind (close_out B symbol ''SESSION_CLOSE'' ts price b1) (\<lambda>(v, b2).
                   Inr (AList.update symbol (s1\<lparr>s_entered := True\<rparr>) st, b2))
            else rbind (intraday_enter c p B s1 symbol price ts b1) (\<lambda>(s2, b2).
                   Inr (AList.update symbol s2 st, b2))))"

section \<open>Strategies act only through the broker\<close>

context solvent_broker
begin

lemma xs_sell_good: "good (snd ub) \<Longrightarrow> keeps (xs_sell c p B snap longs tw cash equity ts ub symbol)"
  by (auto simp: xs_sell_def Let_def intro!: sell_rbind
      ensures_any [where m = "decide c x1 x2 x3 x4 x5 x6" for x1 x2 x3 x4 x5 x6]
      split: option.split side.split)

lemma xs_buy_good: "good (snd ub) \<Longrightarrow> keeps (xs_buy c p B snap tw cash equity ts ub symbol)"
  by (auto simp: xs_buy_def Let_def intro!: buy_rbind
      ensures_any [where m = "decide c x1 x2 x3 x4 x5 x6" for x1 x2 x3 x4 x5 x6]
      split: option.split side.split)

lemma on_bar_close_good:
  assumes "good b" shows "keeps (on_bar_close c p enum B st ts b)"
proof -
  have s: "keeps (rfold (xs_sell c p B snap longs tw cash equity ts) ((), b) held)"
    for snap longs tw cash equity held
    by (rule ensures_rfold) (use assms in \<open>auto intro!: xs_sell_good simp: case_prod_beta\<close>)
  have k: "keeps (rfold (xs_buy c p B snap tw cash equity ts) ((), b1) longs)"
    if "good b1" for snap tw cash equity longs b1
    by (rule ensures_rfold) (use that in \<open>auto intro!: xs_buy_good simp: case_prod_beta\<close>)
  show ?thesis
    unfolding on_bar_close_def Let_def
    by (auto simp: assms intro!: keeps_rbind [OF s] k)
qed

lemma xs_strategy_good: "good b \<Longrightarrow> keeps (xs_strategy c p enum B st t b)"
  unfolding xs_strategy_def
  by (rule ensures_any, rule keeps_rbind)
     (auto split: option.split intro!: keeps_rbind [OF on_bar_close_good])

lemma close_out_good: "good b \<Longrightarrow> keeps (close_out B symbol why ts price b)"
  by (auto simp: close_out_def intro!: sell_rbind)

lemma intraday_enter_good: "good b \<Longrightarrow> keeps (intraday_enter c p B s symbol price ts b)"
  by (auto simp: intraday_enter_def Let_def intro!: buy_rbind
      ensures_any [where m = "ddiv x y" for x y] ensures_any [where m = "quantize rhe 8 x" for x])

lemma intraday_strategy_good: "good b \<Longrightarrow> keeps (intraday_strategy c et p B st t b)"
  unfolding intraday_strategy_def Let_def
  by (rule keeps_rbind, auto intro!: close_out_good keeps_rbind [OF close_out_good]
        keeps_rbind [OF intraday_enter_good])

end

section \<open>The ranking\<close>

definition score_order :: "xs_params \<Rightarrow> xs_state \<Rightarrow> (string \<times> rat) list" where
  "score_order p st = (if momentum p then sort_key (\<lambda>(s, r). - r) (scores p st)
                       else sort_key (\<lambda>(s, r). r) (scores p st))"

lemma rank_order: "rank p st = map fst (score_order p st)"
  by (simp add: rank_def score_order_def Let_def)

lemma concat_keys_distinct:
  assumes "distinct (keys_of h)" and "\<And>x. f x = [] \<or> (\<exists>r. f x = [(fst x, r)])"
  shows "distinct (map fst (concat (map f h))) \<and> set (map fst (concat (map f h))) \<subseteq> set (keys_of h)"
  using assms(1)
proof (induction h)
  case (Cons x h)
  then have ih: "distinct (map fst (concat (map f h)))" "set (map fst (concat (map f h))) \<subseteq> set (keys_of h)"
    by auto
  have n: "fst x \<notin> set (map fst (concat (map f h)))" using ih(2) Cons.prems by auto
  from assms(2) [of x] show ?case
  proof
    assume "f x = []"
    with ih show ?thesis by auto
  next
    assume "\<exists>r. f x = [(fst x, r)]"
    then obtain r where "concat (map f (x # h)) = (fst x, r) # concat (map f h)" by auto
    then show ?thesis using ih n by (simp del: set_map set_concat) blast
  qed
qed simp

lemma scores_distinct: "distinct (keys_of (history st)) \<Longrightarrow> distinct (map fst (scores p st))"
  unfolding scores_def split_def
  apply (rule concat_keys_distinct [THEN conjunct1], assumption)
  subgoal for x
    by (cases "map_of (snapshot st) (fst x)"; cases "lookback_return (snd x) (lookback p)") simp_all
  done

lemma scores_observed: "(s, r) \<in> set (scores p st) \<Longrightarrow> map_of (snapshot st) s \<noteq> None \<and>
    (\<exists>dq. (s, dq) \<in> set (history st) \<and> lookback_return dq (lookback p) = Some r)"
  by (auto simp: scores_def split: if_splits option.splits)

lemma score_order_sorted:
  "sorted_wrt (\<lambda>(s, r) (s', r'). if momentum p then r' \<le> r else r \<le> r') (score_order p st)"
proof -
  have k: "sorted_wrt (\<lambda>x y. f x \<le> f y) (sort_key f xs)" for f :: "string \<times> rat \<Rightarrow> rat" and xs
    using sorted_sort_key [of f xs] by (simp add: sorted_wrt_map)
  show ?thesis
    using k [of "\<lambda>x. - snd x" "scores p st"] k [of snd "scores p st"]
    by (simp add: score_order_def split_def)
qed

section \<open>Properties\<close>

text \<open>The cross-sectional strategies hold the right symbols: the ranking lists each symbol at
  most once, only symbols with a price in the closed bar and a full window, and every selected
  symbol is at least as good as every one left out (the lowest return for the reversal, the
  highest for the momentum strategy).\<close>

lemma rank_selects_extremes:
  assumes "distinct (keys_of (history st))"
  shows "distinct (rank p st) \<and> list_all (\<lambda>s. map_of (snapshot st) s \<noteq> None) (rank p st) \<and>
    list_all (\<lambda>(s, r). list_all (\<lambda>(s', r'). if momentum p then r' \<le> r else r \<le> r')
      (drop n (score_order p st))) (take n (score_order p st)) \<and>
    rank p st = map fst (score_order p st) \<and> mset (score_order p st) = mset (scores p st)"
proof -
  have m: "mset (score_order p st) = mset (scores p st)" unfolding score_order_def by simp
  have d: "distinct (rank p st)"
    using m scores_distinct [OF assms, of p] by (metis mset_eq_imp_distinct_iff mset_map rank_order)
  have "set (score_order p st) = set (scores p st)" using m by (metis set_mset_mset)
  then have o: "list_all (\<lambda>s. map_of (snapshot st) s \<noteq> None) (rank p st)"
    using scores_observed by (fastforce simp: rank_order list_all_iff)
  have "sorted_wrt (\<lambda>(s, r) (s', r'). if momentum p then r' \<le> r else r \<le> r')
      (take n (score_order p st) @ drop n (score_order p st))"
    using score_order_sorted by simp
  then have "list_all (\<lambda>(s, r). list_all (\<lambda>(s', r'). if momentum p then r' \<le> r else r \<le> r')
      (drop n (score_order p st))) (take n (score_order p st))"
    unfolding sorted_wrt_append list_all_iff split_def by blast
  with d o m show ?thesis by (simp add: rank_order)
qed

text \<open>An intraday session enters at most once: after the session of the day was entered (or was
  closed in its last bar), a further tick of the day keeps the mark and does not buy; all it does
  to the broker is at most one sale of the whole position.\<close>

lemma intraday_enters_once:
  assumes "map_of st (t_symbol t) = Some s" "s_entered s"
    and "s_date s = session_date et (t_symbol t) (instant_of (t_ts t))"
    and "intraday_strategy c et p B st t b = Inr (st', b')"
  shows "(\<exists>s'. map_of st' (t_symbol t) = Some s' \<and> s_entered s' \<and> s_date s' = s_date s) \<and>
    (b' = b \<or> (\<exists>r. b_sell B b (t_symbol t) (position_qty B b (t_symbol t)) ''SESSION_CLOSE'' (t_ts t)
       (Some (t_price t)) = Inr (b', r)))"
proof -
  have u: "s_entered (session_update s pr k)" "s_date (session_update s pr k) = s_date s" for pr k
    using assms(2) by (simp_all add: session_update_def Let_def)
  have e: "intraday_enter c p B (session_update s pr k) sy pr ts b1 = Inr (session_update s pr k, b1)"
    for pr k sy ts b1
    using u by (simp add: intraday_enter_def)
  show ?thesis
    using assms(1,3,4) u
    by (auto simp: intraday_strategy_def Let_def e close_out_def update_conv' split: if_splits option.splits)
qed

end
