(* ===== verification/Registry.thy ===== *)
theory Registry
  imports WalkForward SessionStrategies
begin

text \<open>
  The registry of strategies, \<open>trading/strategy/core/registry.py\<close>.  The class of a registered
  strategy and its instance state are the constructors of one type, so that a strategy chosen by
  its name at run time is a value; \<open>strategy_tick\<close> is the dynamic dispatch of \<open>on_tick\<close>.
\<close>

datatype instance_state =
    SMA_State sma_state_rec
  | RSI_State "unit disciplined"
  | MACD_State "(string \<times> macd_state) list disciplined"
  | Bollinger_State "unit disciplined"
  | Breakout_State "unit disciplined"
  | Trend_State trend_params windows
  | Ensemble_State ensemble
  | XS_State xs_params xs_state
  | Intraday_State intraday_params sessions

definition registered :: "string list" where
  "registered = [''sma'', ''rsi'', ''macd'', ''bollinger'', ''breakout'', ''trend'', ''ensemble'',
     ''xs_reversal'', ''xs_momentum'', ''orb'', ''intraday_momentum'']"

text \<open>The parameters of the intraday strategies, one minute per bar until they are configured.\<close>

definition intraday_params_of :: "settings \<Rightarrow> nat \<Rightarrow> nat \<Rightarrow> entry_rule \<Rightarrow> intraday_params" where
  "intraday_params_of c bar_min bars rule =
     \<lparr>i_bar_sec = fmul (of_nat bar_min) 60, i_opening_bars = bars,
      i_fraction = STRATEGY_ORDER_FRACTION_MAX c, i_rule = rule\<rparr>"

definition get_strategy :: "settings \<Rightarrow> string \<Rightarrow> instance_state res" where
  "get_strategy c name =
     (if name = ''sma'' then Inr (SMA_State new_sma)
      else if name = ''rsi'' then Inr (RSI_State (new_disciplined ()))
      else if name = ''macd'' then Inr (MACD_State (new_disciplined []))
      else if name = ''bollinger'' then Inr (Bollinger_State (new_disciplined ()))
      else if name = ''breakout'' then Inr (Breakout_State (new_disciplined ()))
      else if name = ''trend'' then
        rbind (trend_params_of c (TREND_SHORT c) (TREND_LONG c)) (\<lambda>p. Inr (Trend_State p []))
      else if name = ''ensemble'' then rbind (new_ensemble c [] []) (\<lambda>e. Inr (Ensemble_State e))
      else if name = ''xs_reversal'' then Inr (XS_State (xs_params_of c 1 False) new_xs)
      else if name = ''xs_momentum'' then Inr (XS_State (xs_params_of c 1 True) new_xs)
      else if name = ''orb'' then Inr (Intraday_State (intraday_params_of c 1 (ORB_OPENING_BARS c) ORB) [])
      else if name = ''intraday_momentum'' then
        Inr (Intraday_State (intraday_params_of c 1 (MOM_SIGNAL_BARS c) (Momentum (MOM_THRESHOLD c))) [])
      else Inl (ValueError name))"

text \<open>\<open>configure(bar_min)\<close>, where the class has it.\<close>

fun configure :: "nat \<Rightarrow> instance_state \<Rightarrow> instance_state" where
  "configure bar_min (XS_State p st) = XS_State (p\<lparr>bar_sec := fmul (of_nat bar_min) 60\<rparr>) st"
| "configure bar_min (Intraday_State p st) = Intraday_State (p\<lparr>i_bar_sec := fmul (of_nat bar_min) 60\<rparr>) st"
| "configure bar_min st = st"

text \<open>The \<open>warmup_bars\<close> attribute; the ensemble and the tick strategies have none.\<close>

fun warmup_of :: "instance_state \<Rightarrow> nat option" where
  "warmup_of (Trend_State p st) = Some (warmup_bars p)"
| "warmup_of (XS_State p st) = Some (lookback p + 1)"
| "warmup_of (Intraday_State p st) = Some (i_opening_bars p + 1)"
| "warmup_of st = None"

definition wrap :: "('s \<Rightarrow> instance_state) \<Rightarrow> ('s \<times> 'b) res \<Rightarrow> (instance_state \<times> 'b) res" where
  "wrap k m = rbind m (\<lambda>(s, b). Inr (k s, b))"

fun strategy_tick ::
  "settings \<Rightarrow> libm \<Rightarrow> (int \<Rightarrow> int) \<Rightarrow> (string set \<Rightarrow> string list) \<Rightarrow> 'b broker \<Rightarrow> (instance_state, 'b) strategy" where
  "strategy_tick c m et enum B (SMA_State s) t b = wrap SMA_State (sma_strategy c B s t b)"
| "strategy_tick c m et enum B (RSI_State s) t b = wrap RSI_State (rsi_strategy c B s t b)"
| "strategy_tick c m et enum B (MACD_State s) t b = wrap MACD_State (macd_strategy c B s t b)"
| "strategy_tick c m et enum B (Bollinger_State s) t b = wrap Bollinger_State (bollinger_strategy c m B s t b)"
| "strategy_tick c m et enum B (Breakout_State s) t b = wrap Breakout_State (breakout_strategy c B s t b)"
| "strategy_tick c m et enum B (Trend_State p s) t b = wrap (Trend_State p) (trend_strategy c m p B s t b)"
| "strategy_tick c m et enum B (Ensemble_State s) t b = wrap Ensemble_State (ensemble_strategy c m B s t b)"
| "strategy_tick c m et enum B (XS_State p s) t b = wrap (XS_State p) (xs_strategy c p enum B s t b)"
| "strategy_tick c m et enum B (Intraday_State p s) t b = wrap (Intraday_State p) (intraday_strategy c et p B s t b)"

definition registry_factory ::
  "settings \<Rightarrow> libm \<Rightarrow> (int \<Rightarrow> int) \<Rightarrow> (string set \<Rightarrow> string list) \<Rightarrow> nat \<Rightarrow> string \<Rightarrow> instance_state factory res" where
  "registry_factory c m et enum bar_min name =
     rbind (get_strategy c name) (\<lambda>s0. let s = configure bar_min s0
       in Inr \<lparr>f_fresh = s, f_prime = strategy_tick c m et enum null_broker,
               f_trade = strategy_tick c m et enum (engine_broker c), f_warmup = warmup_of s\<rparr>)"

section \<open>Every strategy acts only through the broker\<close>

context solvent_broker
begin

lemma wrap_good: "keeps m \<Longrightarrow> keeps (wrap k m)"
  unfolding wrap_def by (rule keeps_rbind) auto

lemma strategy_tick_good: "good b \<Longrightarrow> keeps (strategy_tick c m et enum B s t b)"
  by (cases s)
    (auto intro!: wrap_good sma_strategy_good trend_strategy_good ensemble_strategy_good xs_strategy_good
       intraday_strategy_good disciplined_tick_good
       simp: rsi_strategy_def macd_strategy_def bollinger_strategy_def breakout_strategy_def)

end


lemma registry_broker_only: "broker_only c (strategy_tick c m et enum (engine_broker c))"
proof -
  have "engine_at c P D e'" if "engine_at c P D e"
    "strategy_tick c m et enum (engine_broker c) s t e = Inr (s', e')" for P D s t e s' e'
    using solvent_broker.keeps_good [OF backtest.solvent_broker_axioms
        solvent_broker.strategy_tick_good [OF backtest.solvent_broker_axioms that(1)] that(2)] .
  then show ?thesis by (auto simp: broker_only_def)
qed

end
