(* ===== verification/CandleCache.thy ===== *)
theory CandleCache
  imports Broker "HOL-Library.Multiset" "HOL-Library.List_Lexorder"
begin

text \<open>
  The collection of Upbit candles: \<open>batch/candles/upbit_candles.py\<close> (minute candles in a CSV
  cache, resampled and merged for a backtest) and \<open>upbit_daily.py\<close> (daily candles).

  The exchange is a parameter: \<open>api to\<close> is the answer to the request for the page of candles
  before \<open>to\<close> (\<open>None\<close>: the newest ones) or the exception of the client.  An instant is a number of
  seconds; a number read from JSON is a float, and its text in a CSV cell is its shortest decimal
  (\<open>frepr\<close>), so a cell is the decimal it denotes.  A cache file is a list of rows, \<open>None\<close> if the
  file does not exist.  Loading is modelled run to its end: a row out of order makes the load fail.
\<close>

section \<open>Pages\<close>

record candle =
  k_dt :: int
  k_open :: rat
  k_high :: rat
  k_low :: rat
  k_close :: rat
  k_volume :: rat

type_synonym candle_api = "int option \<Rightarrow> candle list res"

record cache_row =
  r_ts :: int
  r_open :: rat
  r_high :: rat
  r_low :: rat
  r_close :: rat
  r_volume :: rat
  r_dt :: int

type_synonym cache_file = "cache_row list option"

definition PAGE :: nat where "PAGE = 200"

definition ws_ms :: "candle \<Rightarrow> int" where
  "ws_ms k = k_dt k * 1000"

definition csv_row :: "candle \<Rightarrow> cache_row" where
  "csv_row k = \<lparr>r_ts = ws_ms k, r_open = frepr (k_open k), r_high = frepr (k_high k), r_low = frepr (k_low k),
     r_close = frepr (k_close k), r_volume = frepr (k_volume k), r_dt = k_dt k\<rparr>"

definition page_rows :: "int \<Rightarrow> candle list \<Rightarrow> cache_row list" where
  "page_rows complete_until_ms page = map csv_row (filter (\<lambda>k. ws_ms k < complete_until_ms) page)"

text \<open>
  \<open>_fetch_backward\<close>: the rows written (which stay in the file also when a later request fails)
  and the number of candles fetched.  The loop ends when the exchange says so, hence \<open>option\<close>.
\<close>

partial_function (option) fetch_backward ::
  "candle_api \<Rightarrow> int option \<Rightarrow> int option \<Rightarrow> int \<Rightarrow> cache_row list \<Rightarrow> nat \<Rightarrow> (cache_row list \<times> nat res) option" where
  "fetch_backward api to lower_bound complete_until_ms written fetched =
     (case api to of
        Inl e \<Rightarrow> Some (written, Inl e)
      | Inr page \<Rightarrow>
          if page = [] then Some (written, Inr fetched)
          else
            let written' = written @ page_rows complete_until_ms page;
                fetched' = fetched + length page;
                oldest_dt = k_dt (List.last page)
            in if (case lower_bound of None \<Rightarrow> False | Some b \<Rightarrow> oldest_dt \<le> b) \<or> length page < PAGE
               then Some (written', Inr fetched')
               else fetch_backward api (Some oldest_dt) lower_bound complete_until_ms written' fetched')"

definition scan_dt :: "cache_file \<Rightarrow> int option \<times> int option" where
  "scan_dt f =
     (case f of
        None \<Rightarrow> (None, None)
      | Some rows \<Rightarrow>
          foldl (\<lambda>(oldest, newest) r.
              ((case oldest of None \<Rightarrow> Some (r_dt r) | Some d \<Rightarrow> if r_dt r < d then Some (r_dt r) else oldest),
               (case newest of None \<Rightarrow> Some (r_dt r) | Some d \<Rightarrow> if d < r_dt r then Some (r_dt r) else newest)))
            (None, None) rows)"

section \<open>Filling the cache\<close>

text \<open>\<open>_backfill_one\<close>: the file afterwards and whether the run ended without an exception.\<close>

definition backfill_one ::
  "candle_api \<Rightarrow> int \<Rightarrow> int \<Rightarrow> cache_file \<Rightarrow> (cache_row list \<times> unit res) option" where
  "backfill_one api cutoff complete_until_ms f =
     (let (oldest, newest) = scan_dt f;
          rows0 = (case f of None \<Rightarrow> [] | Some rows \<Rightarrow> rows)
      in case (if newest \<noteq> None then fetch_backward api None newest complete_until_ms rows0 0
               else Some (rows0, Inr 0)) of
           None \<Rightarrow> None
         | Some (rows1, Inl e) \<Rightarrow> Some (rows1, Inl e)
         | Some (rows1, Inr n) \<Rightarrow>
             if (case oldest of None \<Rightarrow> True | Some d \<Rightarrow> cutoff < d)
             then (case fetch_backward api oldest (Some cutoff) complete_until_ms rows1 0 of
                     None \<Rightarrow> None
                   | Some (rows2, Inl e) \<Rightarrow> Some (rows2, Inl e)
                   | Some (rows2, Inr k) \<Rightarrow> Some (rows2, Inr ()))
             else Some (rows1, Inr ()))"

text \<open>\<open>_finalize\<close>: one row per time (the last one of the file), in the order of time.\<close>

definition seen_rows :: "cache_row list \<Rightarrow> (int \<times> cache_row) list" where
  "seen_rows rows = foldl (\<lambda>seen r. AList.update (r_ts r) r seen) [] rows"

definition finalize :: "cache_row list \<Rightarrow> cache_row list" where
  "finalize rows = map (\<lambda>k. the (map_of (seen_rows rows) k)) (sort (keys_of (seen_rows rows)))"

type_synonym cache = "(string \<times> cache_row list) list"

definition backfill_market ::
  "(string \<Rightarrow> candle_api) \<Rightarrow> int \<Rightarrow> int \<Rightarrow> cache \<Rightarrow> string \<Rightarrow> (cache \<times> unit res) option" where
  "backfill_market api cutoff complete_until_ms cache market =
     (case backfill_one (api market) cutoff complete_until_ms (map_of cache market) of
        None \<Rightarrow> None
      | Some (rows, Inl e) \<Rightarrow> Some (AList.update market rows cache, Inl e)
      | Some (rows, Inr u) \<Rightarrow> Some (AList.update market (finalize rows) cache, Inr ()))"

fun backfill_all ::
  "(string \<Rightarrow> candle_api) \<Rightarrow> int \<Rightarrow> int \<Rightarrow> cache \<Rightarrow> string list \<Rightarrow> (cache \<times> unit res) option" where
  "backfill_all api cutoff complete_until_ms cache [] = Some (cache, Inr ())"
| "backfill_all api cutoff complete_until_ms cache (market # markets) =
     (case backfill_market api cutoff complete_until_ms cache market of
        None \<Rightarrow> None
      | Some (cache', Inl e) \<Rightarrow> Some (cache', Inl e)
      | Some (cache', Inr u) \<Rightarrow> backfill_all api cutoff complete_until_ms cache' markets)"

text \<open>\<open>now\<close> in microseconds; the current bar of \<open>unit\<close> minutes is not complete.\<close>

definition complete_until :: "int \<Rightarrow> int \<Rightarrow> int" where
  "complete_until now_us unit = (let b = unit * 60 in (now_us div 1000000) div b * b * 1000)"

definition backfill ::
  "(string \<Rightarrow> candle_api) \<Rightarrow> int \<Rightarrow> int \<Rightarrow> int \<Rightarrow> cache \<Rightarrow> string list \<Rightarrow> (cache \<times> unit res) option" where
  "backfill api now_us unit days cache markets =
     backfill_all api (now_us div 1000000 - days * 86400) (complete_until now_us unit) cache markets"

section \<open>Loading\<close>

type_synonym close_row = "int \<times> string \<times> rat"

fun read_from :: "string \<Rightarrow> int option \<Rightarrow> int option \<Rightarrow> int option \<Rightarrow> cache_row list \<Rightarrow> close_row list res" where
  "read_from market start_ms end_ms prev [] = Inr []"
| "read_from market start_ms end_ms prev (r # rows) =
     (if (case prev of None \<Rightarrow> False | Some p \<Rightarrow> r_ts r < p) then Inl (ValueError market)
      else rbind (read_from market start_ms end_ms (Some (r_ts r)) rows) (\<lambda>out.
        if (case start_ms of None \<Rightarrow> False | Some s \<Rightarrow> r_ts r < s) then Inr out
        else if (case end_ms of None \<Rightarrow> False | Some e \<Rightarrow> e \<le> r_ts r) then Inr out
        else Inr ((r_ts r, market, r_close r) # out)))"

definition read_rows :: "cache \<Rightarrow> int option \<Rightarrow> int option \<Rightarrow> string \<Rightarrow> close_row list res" where
  "read_rows cache start_ms end_ms market =
     (case map_of cache market of None \<Rightarrow> Inr [] | Some rows \<Rightarrow> read_from market start_ms end_ms None rows)"

text \<open>\<open>_resample\<close>: the row held back is the last one of the bucket read so far.\<close>

fun resample_from :: "int \<Rightarrow> close_row option \<Rightarrow> close_row list \<Rightarrow> close_row list" where
  "resample_from bar_ms held [] = (case held of None \<Rightarrow> [] | Some h \<Rightarrow> [h])"
| "resample_from bar_ms held (r # rows) =
     (case held of
        None \<Rightarrow> resample_from bar_ms (Some r) rows
      | Some h \<Rightarrow> (if fst r div bar_ms \<noteq> fst h div bar_ms then [h] else []) @ resample_from bar_ms (Some r) rows)"

definition resample :: "int \<Rightarrow> close_row list \<Rightarrow> close_row list" where
  "resample bar_ms rows = resample_from bar_ms None rows"

text \<open>\<open>heapq.merge\<close> of two streams by \<open>(ts, symbol)\<close>, stable, and of all streams.\<close>

definition before :: "close_row \<Rightarrow> close_row \<Rightarrow> bool" where
  "before a b \<longleftrightarrow> fst a < fst b \<or> fst a = fst b \<and>
     (map of_char (fst (snd a)) :: nat list) \<le> map of_char (fst (snd b))"

fun merge2 :: "close_row list \<Rightarrow> close_row list \<Rightarrow> close_row list" where
  "merge2 [] ys = ys"
| "merge2 xs [] = xs"
| "merge2 (x # xs) (y # ys) = (if before x y then x # merge2 xs (y # ys) else y # merge2 (x # xs) ys)"

definition merge_all :: "close_row list list \<Rightarrow> close_row list" where
  "merge_all streams = foldr merge2 streams []"

definition load ::
  "cache \<Rightarrow> string list \<Rightarrow> int option \<Rightarrow> int option \<Rightarrow> nat \<Rightarrow> market_tick list res" where
  "load cache markets start_ms end_ms bar_min =
     rbind (rmap (read_rows cache start_ms end_ms) markets) (\<lambda>streams.
       let streams = (if bar_min = 0 then streams else map (resample (int bar_min * 60 * 1000)) streams)
       in Inr (map (\<lambda>(ts, market, close). \<lparr>t_symbol = market, t_price = close, t_ts = fquo (of_int ts) 1000\<rparr>)
            (merge_all streams)))"

section \<open>Daily candles\<close>

record daily_row =
  y_market :: string
  y_ws :: int
  y_candle :: candle

definition daily_rows :: "string \<Rightarrow> int \<Rightarrow> candle list \<Rightarrow> daily_row list" where
  "daily_rows market until page =
     map (\<lambda>k. \<lparr>y_market = market, y_ws = k_dt k, y_candle = k\<rparr>) (filter (\<lambda>k. k_dt k < until) page)"

partial_function (option) daily_pages ::
  "candle_api \<Rightarrow> string \<Rightarrow> int \<Rightarrow> int \<Rightarrow> int option \<Rightarrow> daily_row list \<Rightarrow> daily_row list res option" where
  "daily_pages api market until cutoff to acc =
     (case api to of
        Inl e \<Rightarrow> Some (Inl e)
      | Inr page \<Rightarrow>
          if page = [] then Some (Inr acc)
          else
            let acc' = acc @ daily_rows market until page; oldest = k_dt (List.last page)
            in if oldest \<le> cutoff \<or> length page < PAGE then Some (Inr acc')
               else daily_pages api market until cutoff (Some oldest) acc')"

definition fetch_daily ::
  "candle_api \<Rightarrow> string \<Rightarrow> int \<Rightarrow> int \<Rightarrow> int \<Rightarrow> int option \<Rightarrow> daily_row list res option" where
  "fetch_daily api market now days until since =
     (let cutoff0 = now - days * 86400;
          cutoff = (case since of None \<Rightarrow> cutoff0 | Some s \<Rightarrow> if cutoff0 < s then s else cutoff0)
      in case daily_pages api market until cutoff None [] of
           None \<Rightarrow> None
         | Some (Inl e) \<Rightarrow> Some (Inl e)
         | Some (Inr rows) \<Rightarrow> Some (Inr (sort_key y_ws rows)))"

section \<open>The cache file after a backfill\<close>

lemma seen_rows_snoc: "seen_rows (rows @ [r]) = AList.update (r_ts r) r (seen_rows rows)"
  by (simp add: seen_rows_def)

lemma seen_rows_facts:
  "distinct (keys_of (seen_rows rows)) \<and> set (keys_of (seen_rows rows)) = r_ts ` set rows \<and>
   (\<forall>k r. map_of (seen_rows rows) k = Some r \<longrightarrow> r \<in> set rows \<and> r_ts r = k)"
proof (induction rows rule: rev_induct)
  case (snoc r rows)
  then show ?case by (auto simp: seen_rows_snoc distinct_update dom_update update_conv')
qed (simp add: seen_rows_def)

lemma seen_rows_lookup: "k \<in> r_ts ` set rows \<Longrightarrow> \<exists>r. map_of (seen_rows rows) k = Some r \<and> r \<in> set rows \<and> r_ts r = k"
  using seen_rows_facts [of rows] by (metis domD dom_map_of_conv_image_fst set_map)

lemma finalize_ts: "map r_ts (finalize rows) = sort (keys_of (seen_rows rows))"
proof -
  have "map (r_ts \<circ> (\<lambda>k. the (map_of (seen_rows rows) k))) (sort (keys_of (seen_rows rows)))
      = map id (sort (keys_of (seen_rows rows)))"
    using seen_rows_lookup [of _ rows] seen_rows_facts [of rows] by (intro map_cong) force+
  then show ?thesis by (simp add: finalize_def)
qed

lemma finalize_sorted: "sorted_wrt (<) (map r_ts (finalize rows))" "r_ts ` set (finalize rows) = r_ts ` set rows"
proof -
  show "sorted_wrt (<) (map r_ts (finalize rows))"
    using seen_rows_facts [of rows] by (simp add: finalize_ts strict_sorted_iff)
  have "set (map r_ts (finalize rows)) = r_ts ` set rows"
    using seen_rows_facts [of rows] by (simp only: finalize_ts set_sort)
  then show "r_ts ` set (finalize rows) = r_ts ` set rows" by simp
qed

lemma finalize_subset: "set (finalize rows) \<subseteq> set rows"
  using seen_rows_lookup [of _ rows] seen_rows_facts [of rows] by (force simp: finalize_def)

lemma seen_rows_distinct:
  "distinct (map r_ts rows) \<Longrightarrow> seen_rows rows = map (\<lambda>r. (r_ts r, r)) rows"
proof (induction rows rule: rev_induct)
  case (snoc r rows)
  then have "r_ts r \<notin> set (keys_of (map (\<lambda>r. (r_ts r, r)) rows))" by (auto simp: image_iff)
  then have "AList.update (r_ts r) r (map (\<lambda>r. (r_ts r, r)) rows) = map (\<lambda>r. (r_ts r, r)) rows @ [(r_ts r, r)]"
    by (induction rows) auto
  with snoc show ?case by (simp add: seen_rows_snoc)
qed (simp add: seen_rows_def)

lemma finalize_of_sorted:
  assumes "sorted_wrt (<) (map r_ts rows)"
  shows "finalize rows = rows"
proof -
  have d: "distinct (map r_ts rows)" "sorted (map r_ts rows)" using assms by (simp_all add: strict_sorted_iff)
  have k: "keys_of (map (\<lambda>r. (r_ts r, r)) rows) = map r_ts rows" by (induction rows) auto
  have l: "map_of (map (\<lambda>r. (r_ts r, r)) rows) (r_ts r) = Some r" if "r \<in> set rows" for r
    using that d(1) by (intro map_of_is_SomeI) (simp_all only: k, auto)
  have "finalize rows = map (\<lambda>k. the (map_of (map (\<lambda>r. (r_ts r, r)) rows) k)) (map r_ts rows)"
    unfolding finalize_def seen_rows_distinct [OF d(1)] k using d(2) by (simp add: sorted_sort_id)
  also have "\<dots> = rows" unfolding map_map comp_def by (rule map_idI) (simp add: l)
  finally show ?thesis .
qed

section \<open>Paging ends\<close>

text \<open>What the exchange documents of \<open>to\<close>: the candles of the answer are older.\<close>

definition answers_before :: "candle_api \<Rightarrow> bool" where
  "answers_before api \<longleftrightarrow> (\<forall>x page. api (Some x) = Inr page \<longrightarrow> page \<noteq> [] \<longrightarrow> k_dt (List.last page) < x)"

lemma fetch_backward_returns:
  assumes "answers_before api"
  shows "\<exists>out. fetch_backward api to (Some b) until w n = Some out"
proof -
  have older: "\<exists>out. fetch_backward api (Some x) (Some b) until w n = Some out" for x w n
  proof (induction "nat (x - b)" arbitrary: x w n rule: less_induct)
    case less
    show ?case
    proof (cases "api (Some x)")
      case (Inl e)
      then show ?thesis by (subst fetch_backward.simps) simp
    next
      case (Inr page)
      show ?thesis
      proof (cases "page = [] \<or> k_dt (List.last page) \<le> b \<or> length page < PAGE")
        case True
        then show ?thesis using Inr by (subst fetch_backward.simps) auto
      next
        case False
        then have "k_dt (List.last page) < x" "b < k_dt (List.last page)"
          using Inr assms by (auto simp: answers_before_def)
        then have "nat (k_dt (List.last page) - b) < nat (x - b)" by simp
        from less [OF this] False Inr show ?thesis by (subst fetch_backward.simps) (simp add: Let_def)
      qed
    qed
  qed
  show ?thesis
  proof (cases to)
    case None
    then show ?thesis using older
      by (subst fetch_backward.simps) (auto simp: Let_def split: sum.split)
  qed (use older in simp)
qed

lemma page_rows_until: "list_all (\<lambda>r. r_ts r < u) (page_rows u page)"
  by (simp add: page_rows_def csv_row_def list_all_iff)

lemma fetch_backward_rows:
  assumes "fetch_backward api to lower u w n = Some out"
  shows "\<exists>new. fst out = w @ new \<and> list_all (\<lambda>r. r_ts r < u) new"
proof (rule fetch_backward.raw_induct [OF _ assms])
  fix fb :: "candle_api \<Rightarrow> int option \<Rightarrow> int option \<Rightarrow> int \<Rightarrow> cache_row list \<Rightarrow> nat \<Rightarrow> (cache_row list \<times> nat res) option"
  fix api :: candle_api and to lower u w n out
  assume ih: "\<And>api to lower u w n out. fb api to lower u w n = Some out \<Longrightarrow>
      \<exists>new. fst out = w @ new \<and> list_all (\<lambda>r. r_ts r < u) new"
    and body: "(case api to of Inl e \<Rightarrow> Some (w, Inl e)
      | Inr page \<Rightarrow>
          if page = [] then Some (w, Inr n)
          else let written' = w @ page_rows u page; fetched' = n + length page; oldest_dt = k_dt (List.last page)
               in if (case lower of None \<Rightarrow> False | Some b \<Rightarrow> oldest_dt \<le> b) \<or> length page < PAGE
                  then Some (written', Inr fetched')
                  else fb api (Some oldest_dt) lower u written' fetched') = Some out"
  show "\<exists>new. fst out = w @ new \<and> list_all (\<lambda>r. r_ts r < u) new"
  proof (cases "api to")
    case (Inl e)
    with body show ?thesis by auto
  next
    case (Inr page)
    show ?thesis
    proof (cases "page = []")
      case True
      with body Inr show ?thesis by auto
    next
      case False
      from body Inr False have "fst out = w @ page_rows u page \<or>
          (\<exists>to n. fb api to lower u (w @ page_rows u page) n = Some out)"
        by (auto simp: Let_def split: if_splits)
      with ih [of api _ lower u "w @ page_rows u page"] show ?thesis
        using page_rows_until [of u page] by fastforce
    qed
  qed
qed

lemma backfill_one_returns:
  assumes "answers_before api" shows "\<exists>out. backfill_one api cutoff u f = Some out"
proof -
  obtain oldest newest where s: "scan_dt f = (oldest, newest)" by (cases "scan_dt f")
  obtain rows1 r1 where f1: "(if newest \<noteq> None then fetch_backward api None newest u
      (case f of None \<Rightarrow> [] | Some rows \<Rightarrow> rows) 0 else Some (case f of None \<Rightarrow> [] | Some rows \<Rightarrow> rows, Inr 0))
      = Some (rows1, r1)"
  proof (cases newest)
    case (Some b)
    from fetch_backward_returns [OF assms, of None b u "case f of None \<Rightarrow> [] | Some rows \<Rightarrow> rows" 0] that show ?thesis
      unfolding Some by auto
  qed (use that in auto)
  obtain rows2 r2 where f2: "fetch_backward api oldest (Some cutoff) u rows1 0 = Some (rows2, r2)"
    using fetch_backward_returns [OF assms, of oldest cutoff u rows1 0] by auto
  show ?thesis
    unfolding backfill_one_def s Let_def prod.case f1 option.case by (cases r1; cases r2) (simp_all add: f2)
qed

lemma backfill_one_until:
  assumes "backfill_one api cutoff u f = Some (rows, r)" "\<And>rows. f = Some rows \<Longrightarrow> list_all (\<lambda>r. r_ts r < u) rows"
  shows "list_all (\<lambda>r. r_ts r < u) rows"
proof -
  have 0: "list_all (\<lambda>r. r_ts r < u) (case f of None \<Rightarrow> [] | Some rows \<Rightarrow> rows)"
    using assms(2) by (simp split: option.split)
  have step: "list_all (\<lambda>r. r_ts r < u) w'"
    if "fetch_backward api to lower u w n = Some (w', q)" "list_all (\<lambda>r. r_ts r < u) w" for to lower w n w' q
    using fetch_backward_rows [OF that(1)] that(2) by auto
  show ?thesis
    using assms(1) 0 unfolding backfill_one_def
    by (auto simp: Let_def split: prod.splits option.splits sum.splits if_splits dest!: step)
qed

section \<open>Loading is in order\<close>

definition cache_sorted :: "cache \<Rightarrow> bool" where
  "cache_sorted cache \<longleftrightarrow> list_all (\<lambda>(m, rows). sorted (map r_ts rows)) cache"

definition kept :: "int option \<Rightarrow> int option \<Rightarrow> int \<Rightarrow> bool" where
  "kept start_ms end_ms ts \<longleftrightarrow> (\<forall>s. start_ms = Some s \<longrightarrow> s \<le> ts) \<and> (\<forall>e. end_ms = Some e \<longrightarrow> ts < e)"

lemma read_from_sorted:
  assumes "sorted (map r_ts rows)" "\<And>p r. prev = Some p \<Longrightarrow> r \<in> set rows \<Longrightarrow> p \<le> r_ts r"
  shows "read_from market s e prev rows =
    Inr (map (\<lambda>r. (r_ts r, market, r_close r)) (filter (\<lambda>r. kept s e (r_ts r)) rows))"
  using assms
proof (induction rows arbitrary: prev)
  case (Cons r rows)
  have g: "\<not> (case prev of None \<Rightarrow> False | Some p \<Rightarrow> r_ts r < p)"
    using Cons.prems(2) [of _ r] by (auto simp: not_less split: option.split)
  have "read_from market s e (Some (r_ts r)) rows =
      Inr (map (\<lambda>r. (r_ts r, market, r_close r)) (filter (\<lambda>r. kept s e (r_ts r)) rows))"
    using Cons.prems(1) by (intro Cons.IH) auto
  then show ?case using g by (auto simp: kept_def split: option.splits)
qed simp

lemma before_trans: "before a b \<Longrightarrow> before b c \<Longrightarrow> before a c"
  by (auto simp: before_def)

lemma before_total: "before a b \<or> before b a"
  by (auto simp: before_def)

lemma merge2_mset: "mset (merge2 xs ys) = mset xs + mset ys"
  by (induction xs ys rule: merge2.induct) auto

lemma merge2_sorted:
  "sorted_wrt before xs \<Longrightarrow> sorted_wrt before ys \<Longrightarrow> sorted_wrt before (merge2 xs ys)"
proof (induction xs ys rule: merge2.induct)
  case (3 x xs y ys)
  have m: "set (merge2 as bs) = set as \<union> set bs" for as bs
    using merge2_mset by (metis set_mset_mset set_mset_union)
  show ?case
  proof (cases "before x y")
    case True
    with 3 have "sorted_wrt before (merge2 xs (y # ys))" by simp
    with True 3(3,4) show ?thesis by (auto simp: m intro: before_trans)
  next
    case False
    with 3 have "sorted_wrt before (merge2 (x # xs) ys)" by simp
    with False 3(3,4) before_total [of x y] show ?thesis by (auto simp: m intro: before_trans)
  qed
qed simp_all

lemma merge_all_mset: "mset (merge_all ss) = mset (concat ss)"
  by (induction ss) (auto simp: merge_all_def merge2_mset)

lemma merge_all_sorted: "list_all (sorted_wrt before) ss \<Longrightarrow> sorted_wrt before (merge_all ss)"
  by (induction ss) (auto simp: merge_all_def merge2_sorted)

section \<open>Resampling is grouping\<close>

text \<open>The reference: of every bucket, in order, its last row.\<close>

definition last_of_bucket :: "int \<Rightarrow> close_row list \<Rightarrow> close_row list" where
  "last_of_bucket bar rows = last_per (\<lambda>r. fst r div bar) rows"

lemma resample_from_buckets:
  assumes "sorted (map (\<lambda>r. fst r div bar) (h # rows))"
  shows "resample_from bar (Some h) rows = last_of_bucket bar (h # rows)"
  using assms
proof (induction rows arbitrary: h)
  case (Cons r rows)
  then show ?case using last_per_Cons2 [OF Cons.prems] by (simp add: last_of_bucket_def)
qed (simp add: last_of_bucket_def)

lemma resample_from_sorted:
  assumes "sorted_wrt before (case held of None \<Rightarrow> rows | Some h \<Rightarrow> h # rows)"
  shows "sorted_wrt before (resample_from bar held rows) \<and>
    set (resample_from bar held rows) \<subseteq> set (case held of None \<Rightarrow> rows | Some h \<Rightarrow> h # rows)"
  using assms
proof (induction bar held rows rule: resample_from.induct)
  case (2 bar held r rows)
  show ?case
  proof (cases held)
    case None
    with 2 show ?thesis by simp
  next
    case (Some h)
    with 2 have "sorted_wrt before (resample_from bar (Some r) rows) \<and> set (resample_from bar (Some r) rows) \<subseteq> set (r # rows)"
      by auto
    with Some 2 show ?thesis by auto
  qed
qed (simp split: option.splits)

lemma read_rows_sorted:
  assumes "cache_sorted cache"
  shows "\<exists>rows. read_rows cache s e m = Inr rows \<and> sorted_wrt before rows \<and> sorted (map fst rows)"
proof (cases "map_of cache m")
  case None
  then show ?thesis by (simp add: read_rows_def)
next
  case (Some rows)
  then have r: "sorted (map r_ts rows)" using assms by (auto simp: cache_sorted_def list_all_iff dest: map_of_SomeD)
  then have f: "sorted (map r_ts (filter (\<lambda>r. kept s e (r_ts r)) rows))" by (rule sorted_filter)
  have "read_rows cache s e m = Inr (map (\<lambda>r. (r_ts r, m, r_close r)) (filter (\<lambda>r. kept s e (r_ts r)) rows))"
    using Some read_from_sorted [OF r, of None] by (simp add: read_rows_def)
  with f show ?thesis
    by (auto simp: sorted_wrt_map before_def comp_def elim: sorted_wrt_mono_rel [rotated])
qed

lemma fquo_mono: "0 < c \<Longrightarrow> a \<le> b \<Longrightarrow> fquo a c \<le> fquo b c"
  unfolding fquo_def by (intro fl_mono divide_right_mono) auto

section \<open>Properties\<close>

text \<open>C27: A backfill terminates whatever the cache holds, if the exchange answers with older candles than
  asked for, and when it succeeds the file of every requested market is strictly ordered by time
  and holds no bar that was not finished at the time of the run.\<close>

theorem backfill_ends_with_sound_cache:
  assumes "\<And>m. answers_before (api m)"
    and "list_all (\<lambda>(m, rows). list_all (\<lambda>r. r_ts r < complete_until now unit) rows) cache"
  shows "\<exists>cache' r. backfill api now unit days cache markets = Some (cache', r) \<and>
    (r = Inr () \<longrightarrow> list_all (\<lambda>m. \<exists>rows. map_of cache' m = Some rows \<and> sorted_wrt (<) (map r_ts rows) \<and>
      list_all (\<lambda>r. r_ts r < complete_until now unit) rows) markets)"
proof -
  let ?u = "complete_until now unit"
  define fine where "fine rows \<longleftrightarrow> sorted_wrt (<) (map r_ts rows) \<and> list_all (\<lambda>r. r_ts r < ?u) rows" for rows :: "cache_row list"
  have "\<exists>cache' r. backfill_all api cutoff ?u cache markets = Some (cache', r) \<and>
    (r = Inr () \<longrightarrow> (\<forall>m. m \<in> set markets \<or> (\<exists>rows. map_of cache m = Some rows \<and> fine rows) \<longrightarrow>
      (\<exists>rows. map_of cache' m = Some rows \<and> fine rows)))"
    if "\<forall>m rows. map_of cache m = Some rows \<longrightarrow> list_all (\<lambda>r. r_ts r < ?u) rows" for cutoff
    using that
  proof (induction markets arbitrary: cache)
    case (Cons market markets)
    obtain rows r where b: "backfill_one (api market) cutoff ?u (map_of cache market) = Some (rows, r)"
      using backfill_one_returns [OF assms(1)] by fastforce
    have rows: "list_all (\<lambda>r. r_ts r < ?u) rows" using backfill_one_until [OF b] Cons.prems by blast
    show ?case
    proof (cases r)
      case (Inl e)
      then show ?thesis by (simp add: backfill_market_def b)
    next
      case (Inr u)
      have f: "fine (finalize rows)"
        using finalize_sorted(1) [of rows] finalize_subset [of rows] rows by (auto simp: fine_def list_all_iff)
      have "\<forall>m rs. map_of (AList.update market (finalize rows) cache) m = Some rs \<longrightarrow> list_all (\<lambda>r. r_ts r < ?u) rs"
        using Cons.prems f by (auto simp: update_conv' fine_def)
      from Cons.IH [OF this] f Inr b show ?thesis
        by (auto simp: backfill_market_def update_conv')
    qed
  qed auto
  moreover have "\<forall>m rows. map_of cache m = Some rows \<longrightarrow> list_all (\<lambda>r. r_ts r < ?u) rows"
    using assms(2) by (auto simp: list_all_iff dest!: map_of_SomeD)
  ultimately show ?thesis unfolding backfill_def fine_def by (fastforce simp: list_all_iff)
qed

text \<open>An exchange with candles of four minutes, the last of which is not finished, and a cache with the first.\<close>

definition demo_exchange :: candle_api where
  "demo_exchange until =
     Inr (filter (\<lambda>k. case until of None \<Rightarrow> True | Some x \<Rightarrow> k_dt k < x)
       (map (\<lambda>t. \<lparr>k_dt = t, k_open = 2, k_high = 2, k_low = 2, k_close = 2, k_volume = 1\<rparr>) [240, 180, 120, 60]))"

definition demo_cached :: cache where
  "demo_cached = [(''KRW-BTC'', [\<lparr>r_ts = 60000, r_open = 2, r_high = 2, r_low = 2, r_close = 2, r_volume = 1, r_dt = 60\<rparr>])]"

lemma demo_answers: "answers_before demo_exchange"
  unfolding answers_before_def
proof (intro allI impI)
  fix x page
  assume p: "demo_exchange (Some x) = Inr page" "page \<noteq> []"
  then have "List.last page \<in> set page" by simp
  then show "k_dt (List.last page) < x" using p(1) by (auto simp: demo_exchange_def)
qed

lemma demo_pages:
  "fetch_backward demo_exchange None (Some 60) 240000 rows 0 =
     Some (rows @ map csv_row (tl (map (\<lambda>t. \<lparr>k_dt = t, k_open = 2, k_high = 2, k_low = 2, k_close = 2, k_volume = 1\<rparr>) [240, 180, 120, 60])), Inr 4)"
  "fetch_backward demo_exchange (Some 60) (Some b) 240000 rows 0 = Some (rows, Inr 0)"
  by (subst fetch_backward.simps; simp add: demo_exchange_def PAGE_def page_rows_def ws_ms_def)+

lemma demo_backfill:
  "case backfill (\<lambda>m. demo_exchange) 250000000 1 730 demo_cached [''KRW-BTC''] of
     Some (cache, Inr u) \<Rightarrow> map_option (map r_ts) (map_of cache ''KRW-BTC'') = Some [60000, 120000, 180000]
   | _ \<Rightarrow> False"
  by (simp add: backfill_def complete_until_def demo_cached_def backfill_market_def backfill_one_def scan_dt_def demo_pages
      csv_row_def ws_ms_def finalize_def seen_rows_def)

theorem backfill_ends_with_sound_cache_witness:
  "\<exists>cache' rows. backfill (\<lambda>m. demo_exchange) 250000000 1 730 demo_cached [''KRW-BTC''] = Some (cache', Inr ()) \<and>
     map_of cache' ''KRW-BTC'' = Some rows \<and> map r_ts rows = [60000, 120000, 180000] \<and>
     sorted_wrt (<) (map r_ts rows) \<and> list_all (\<lambda>r. r_ts r < complete_until 250000000 1) rows"
proof -
  have u: "list_all (\<lambda>(m, rows). list_all (\<lambda>r. r_ts r < complete_until 250000000 1) rows) demo_cached"
    by (simp add: demo_cached_def complete_until_def)
  obtain cache' r where b: "backfill (\<lambda>m. demo_exchange) 250000000 1 730 demo_cached [''KRW-BTC''] = Some (cache', r)"
      and s: "r = Inr () \<longrightarrow> list_all (\<lambda>m. \<exists>rows. map_of cache' m = Some rows \<and> sorted_wrt (<) (map r_ts rows) \<and>
        list_all (\<lambda>r. r_ts r < complete_until 250000000 1) rows) [''KRW-BTC'']"
    using backfill_ends_with_sound_cache [of "\<lambda>m. demo_exchange", OF demo_answers u, of 730 "[''KRW-BTC'']"] by blast
  have "r = Inr () \<and> map_option (map r_ts) (map_of cache' ''KRW-BTC'') = Some [60000, 120000, 180000]"
    using demo_backfill unfolding b by (auto split: sum.splits)
  with b s show ?thesis by auto
qed

text \<open>A sorted cache loads without an error and in order: the ticks come by time, ticks of the same
  time by symbol, over all markets, resampled or not; without resampling they are exactly the
  cached closes of the markets within the period, each once.\<close>

lemma load_is_ordered_merge:
  assumes "cache_sorted cache"
  shows "\<exists>ticks. load cache markets s e bar_min = Inr ticks \<and> sorted (map t_ts ticks) \<and>
    (bar_min = 0 \<longrightarrow> mset (map t_price ticks) =
       mset (map r_close (filter (\<lambda>r. kept s e (r_ts r)) (concat (map (\<lambda>m. get_or cache m []) markets)))))"
proof -
  define g where "g m = map (\<lambda>r. (r_ts r, m, r_close r)) (filter (\<lambda>r. kept s e (r_ts r)) (get_or cache m []))" for m
  have rg: "read_rows cache s e m = Inr (g m)" "sorted_wrt before (g m)" for m
  proof -
    obtain rows where rows: "read_rows cache s e m = Inr rows" "sorted_wrt before rows"
      using read_rows_sorted [OF assms] by blast
    have "read_rows cache s e m = Inr (g m)"
    proof (cases "map_of cache m")
      case None
      then show ?thesis by (simp add: read_rows_def g_def get_or_def)
    next
      case (Some rs)
      then have "sorted (map r_ts rs)" using assms by (auto simp: cache_sorted_def list_all_iff dest: map_of_SomeD)
      from read_from_sorted [OF this, of None] Some show ?thesis by (simp add: read_rows_def g_def get_or_def)
    qed
    with rows show "read_rows cache s e m = Inr (g m)" "sorted_wrt before (g m)" by simp_all
  qed
  have all: "rmap (read_rows cache s e) markets = Inr (map g markets)"
    by (induction markets) (simp_all add: rg)
  define ss where "ss = (if bar_min = 0 then map g markets else map (resample (int bar_min * 60 * 1000)) (map g markets))"
  have "sorted_wrt before (resample bar (g m))" for bar m
    using resample_from_sorted [where held = None and rows = "g m" and bar = bar] rg(2) [of m] by (simp add: resample_def)
  then have "list_all (sorted_wrt before) ss" using rg(2) by (simp add: ss_def list_all_iff)
  then have sb: "sorted_wrt before (merge_all ss)" by (rule merge_all_sorted)
  let ?t = "\<lambda>(ts, market, close). \<lparr>t_symbol = market, t_price = close, t_ts = fquo (of_int ts) 1000\<rparr> :: market_tick"
  have l: "load cache markets s e bar_min = Inr (map ?t (merge_all ss))"
    by (simp add: load_def all ss_def Let_def)
  have "sorted_wrt (\<lambda>a b. t_ts (?t a) \<le> t_ts (?t b)) (merge_all ss)"
    by (rule sorted_wrt_mono_rel [OF _ sb]) (auto simp: before_def intro!: fquo_mono)
  then have o: "sorted (map t_ts (map ?t (merge_all ss)))" by (simp add: sorted_wrt_map comp_def)
  have "mset (map t_price (map ?t (merge_all ss))) = mset (map (\<lambda>x. snd (snd x)) (concat (map g markets)))" if "bar_min = 0"
  proof -
    have "t_price \<circ> ?t = (\<lambda>x. snd (snd x))" by (auto simp: fun_eq_iff)
    then show ?thesis using that merge_all_mset [of ss] unfolding map_map mset_map by (simp add: ss_def)
  qed
  moreover have "map (\<lambda>x. snd (snd x)) (concat (map g markets)) =
      map r_close (filter (\<lambda>r. kept s e (r_ts r)) (concat (map (\<lambda>m. get_or cache m []) markets)))"
    by (induction markets) (simp_all add: g_def)
  ultimately have "bar_min = 0 \<longrightarrow> mset (map t_price (map ?t (merge_all ss))) =
      mset (map r_close (filter (\<lambda>r. kept s e (r_ts r)) (concat (map (\<lambda>m. get_or cache m []) markets))))"
    by (auto simp only:)
  with l o show ?thesis by blast
qed

text \<open>Resampling of an ordered stream, which keeps one row back and compares buckets, is the
  grouping it stands for: for every bucket that occurs, in order, the last row of that bucket.\<close>

lemma resample_is_last_of_bucket:
  assumes "sorted (map fst rows)" "0 < bar"
  shows "resample bar rows = last_of_bucket bar rows"
proof (cases rows)
  case (Cons h rs)
  have "sorted (map (\<lambda>r. fst r div bar) (h # rs))"
    using assms unfolding Cons sorted_wrt_map
    by (elim sorted_wrt_mono_rel [rotated]) (simp add: zdiv_mono1)
  then show ?thesis using resample_from_buckets by (simp add: resample_def Cons)
qed (simp add: resample_def last_of_bucket_def)

section \<open>A gap that stays\<close>

lemma scan_dt_extrema:
  assumes "rows \<noteq> []"
  shows "scan_dt (Some rows) = (Some (Min (r_dt ` set rows)), Some (Max (r_dt ` set rows)))"
  using assms
proof (induction rows rule: rev_nonempty_induct)
  case (snoc r rows)
  define mn where "mn = Min (r_dt ` set rows)"
  define mx where "mx = Max (r_dt ` set rows)"
  have "finite (r_dt ` set rows)" "r_dt ` set rows \<noteq> {}" using snoc(1) by auto
  then have e: "Min (r_dt ` set (rows @ [r])) = min (r_dt r) mn" "Max (r_dt ` set (rows @ [r])) = max (r_dt r) mx"
    by (simp_all add: Min_insert Max_insert mn_def mx_def)
  have "scan_dt (Some (rows @ [r])) = (Some (if r_dt r < mn then r_dt r else mn), Some (if mx < r_dt r then r_dt r else mx))"
    using snoc(2) by (simp add: scan_dt_def mn_def [symmetric] mx_def [symmetric])
  then show ?case unfolding e by auto
qed (simp add: scan_dt_def)

text \<open>
  An exchange with one candle per minute for the minutes 0 to 500, and the same exchange whose
  second page is not answered.
\<close>

definition minute_candle :: "nat \<Rightarrow> candle" where
  "minute_candle i = \<lparr>k_dt = 60 * int i, k_open = 1, k_high = 1, k_low = 1, k_close = 1, k_volume = 1\<rparr>"

definition minutes_before :: "nat \<Rightarrow> candle list" where
  "minutes_before n = map minute_candle (rev [n - 200..<n])"

definition exchange :: candle_api where
  "exchange to = Inr (minutes_before (case to of None \<Rightarrow> 501 | Some x \<Rightarrow> min 501 (nat (x div 60))))"

definition failing_exchange :: candle_api where
  "failing_exchange to = (if to = None then exchange None else Inl (RuntimeError ''GET''))"

lemma minutes_before_501:
  "length (minutes_before 501) = 200" "k_dt (List.last (minutes_before 501)) = 18060"
  "r_ts ` set (page_rows 30060000 (minutes_before 501)) = (\<lambda>i. 60000 * int i) ` {301..<501}"
  "r_dt ` set (page_rows 30060000 (minutes_before 501)) = (\<lambda>i. 60 * int i) ` {301..<501}"
proof -
  show "length (minutes_before 501) = 200" by (simp add: minutes_before_def)
  have "List.last (rev [301..<501]) = (301 :: nat)" by (simp add: last_rev)
  then show "k_dt (List.last (minutes_before 501)) = 18060"
    by (simp add: minutes_before_def last_map minute_candle_def del: upt_rec_numeral)
  show "r_ts ` set (page_rows 30060000 (minutes_before 501)) = (\<lambda>i. 60000 * int i) ` {301..<501}"
    by (force simp: page_rows_def csv_row_def ws_ms_def minutes_before_def minute_candle_def image_iff
        simp del: upt_rec_numeral)
  show "r_dt ` set (page_rows 30060000 (minutes_before 501)) = (\<lambda>i. 60 * int i) ` {301..<501}"
    by (force simp: page_rows_def csv_row_def ws_ms_def minutes_before_def minute_candle_def image_iff
        simp del: upt_rec_numeral)
qed

definition zero_row :: cache_row where
  "zero_row = csv_row (minute_candle 0)"

text \<open>A cache that holds minute 0 is refilled at minute 501.  The first run fails after its first page
  and leaves the cache with the minutes from 301 on; the second run, with every page answered,
  sees minute 500 as the newest cached one, stops after one page and reports success, and the
  minutes 1 to 300, which the exchange offers, are never requested again.\<close>

lemma interrupted_backfill_leaves_gap:
  "\<exists>rows1 cache2 rows2.
     backfill (\<lambda>m. failing_exchange) 30060000000 1 0 [(''KRW-BTC'', [zero_row])] [''KRW-BTC'']
       = Some ([(''KRW-BTC'', rows1)], Inl (RuntimeError ''GET''))
     \<and> backfill (\<lambda>m. exchange) 30060000000 1 0 [(''KRW-BTC'', rows1)] [''KRW-BTC''] = Some (cache2, Inr ())
     \<and> map_of cache2 ''KRW-BTC'' = Some rows2
     \<and> minute_candle 150 \<in> set (minutes_before 301)
     \<and> exchange (Some (60 * 301)) = Inr (minutes_before 301)
     \<and> ws_ms (minute_candle 150) \<notin> r_ts ` set rows2"
proof -
  let ?u = "30060000 :: int" and ?new = "page_rows 30060000 (minutes_before 501)"
  define rows1 where "rows1 = zero_row # ?new"
  have u: "complete_until 30060000000 1 = ?u" by (simp add: complete_until_def)
  have z: "r_dt zero_row = 0" "r_ts zero_row = 0" by (simp_all add: zero_row_def csv_row_def minute_candle_def ws_ms_def)
  have m: "minutes_before 501 \<noteq> []" "\<not> length (minutes_before 501) < PAGE"
    using minutes_before_501(1) by (auto simp: PAGE_def)
  have s0: "scan_dt (Some [zero_row]) = (Some 0, Some 0)" by (simp add: scan_dt_extrema z)
  have fail: "fetch_backward failing_exchange (Some x) (Some 0) ?u w n = Some (w, Inl (RuntimeError ''GET''))" for x w n
    by (subst fetch_backward.simps) (simp add: failing_exchange_def)
  have f1: "fetch_backward failing_exchange None (Some 0) ?u [zero_row] 0 = Some (rows1, Inl (RuntimeError ''GET''))"
    using m minutes_before_501(2)
    by (subst fetch_backward.simps) (simp add: failing_exchange_def exchange_def Let_def rows1_def fail)
  have dts: "r_dt ` set rows1 = insert 0 ((\<lambda>i. 60 * int i) ` {301..<501})"
    by (simp add: rows1_def z minutes_before_501)
  have "(30000 :: int) \<in> (\<lambda>i. 60 * int i) ` {301..<501}" by (rule image_eqI [of _ _ 500]) simp_all
  then have "Max (r_dt ` set rows1) = 30000"
    unfolding dts by (intro Max_eqI) auto
  moreover have "Min (r_dt ` set rows1) = 0"
    unfolding dts by (intro Min_eqI) auto
  ultimately have s1: "scan_dt (Some rows1) = (Some 0, Some 30000)" by (simp add: scan_dt_extrema rows1_def)
  have f2: "fetch_backward exchange None (Some 30000) ?u rows1 0 = Some (rows1 @ ?new, Inr 200)"
    using m minutes_before_501(1,2) by (subst fetch_backward.simps) (simp add: exchange_def Let_def)
  have b1: "backfill (\<lambda>m. failing_exchange) 30060000000 1 0 [(''KRW-BTC'', [zero_row])] [''KRW-BTC'']
      = Some ([(''KRW-BTC'', rows1)], Inl (RuntimeError ''GET''))"
    by (simp add: backfill_def u backfill_market_def backfill_one_def s0 f1)
  have b2: "backfill (\<lambda>m. exchange) 30060000000 1 0 [(''KRW-BTC'', rows1)] [''KRW-BTC'']
      = Some ([(''KRW-BTC'', finalize (rows1 @ ?new))], Inr ())"
    by (simp add: backfill_def u backfill_market_def backfill_one_def s1 f2)
  have "r_ts ` set (finalize (rows1 @ ?new)) = insert 0 ((\<lambda>i. 60000 * int i) ` {301..<501})"
    unfolding finalize_sorted(2) by (auto simp: rows1_def z minutes_before_501)
  then have "ws_ms (minute_candle 150) \<notin> r_ts ` set (finalize (rows1 @ ?new))"
    by (simp add: ws_ms_def minute_candle_def image_iff)
  moreover have "exchange (Some (60 * 301)) = Inr (minutes_before 301)" by (simp add: exchange_def)
  moreover have "minute_candle 150 \<in> set (minutes_before 301)" by (simp add: minutes_before_def del: upt_rec_numeral)
  ultimately show ?thesis using b1 b2 by auto
qed

end
