(* ===== verification/LiveSignals.thy ===== *)
theory LiveSignals
  imports TrendStrategies Ledger
begin

text \<open>
  The streaming path of the coin strategy: the signal worker
  \<open>trading/strategy/runners/live_ensemble.py\<close>, which turns market ticks into one target weight
  per load at every end of a UTC day, and the commander \<open>commander.py\<close>, which combines the
  signals of a bar and places the orders.

  A tick carries its instant in microseconds; the parsing of its ISO text is not modelled.  The
  iteration order of the set of symbols is the order of the list \<open>lv_symbols\<close>.  A published
  signal is the list of targets of a bar; a consumed signal message is \<open>None\<close> if it cannot be
  parsed.
\<close>

section \<open>The signal worker\<close>

definition utc_day :: "int \<Rightarrow> int" where
  "utc_day instant = local_date 0 instant"

type_synonym loads = "(string \<times> trend_params \<times> trend_signal) list"

record live =
  lv_symbols :: "string list"
  lv_loads :: loads
  lv_day :: "(string \<times> int) list"
  lv_close :: "(string \<times> rat) list"

definition new_live :: "settings \<Rightarrow> string list \<Rightarrow> (string \<times> nat \<times> nat) list \<Rightarrow> live res" where
  "new_live c symbols loads =
     (let specs = (if loads = [] then default_loads else loads)
      in rbind (rmap (\<lambda>(n, s, l). rbind (trend_params_of c s l) (\<lambda>p. Inr (n, p, new_signal))) specs) (\<lambda>ls.
           Inr \<lparr>lv_symbols = symbols, lv_loads = ls, lv_day = [], lv_close = []\<rparr>))"

type_synonym per_load = "(string \<times> rat) list"

fun update_loads :: "libm \<Rightarrow> string \<Rightarrow> rat \<Rightarrow> loads \<Rightarrow> (loads \<times> per_load) res" where
  "update_loads m symbol close [] = Inr ([], [])"
| "update_loads m symbol close ((n, p, sg) # ls) =
     rbind (update m p sg symbol close) (\<lambda>(sg', t).
     rbind (update_loads m symbol close ls) (\<lambda>(ls', ts). Inr ((n, p, sg') # ls', (n, t) # ts)))"

definition targets :: "libm \<Rightarrow> live \<Rightarrow> string \<Rightarrow> rat \<Rightarrow> (live \<times> per_load) res" where
  "targets m lv symbol close =
     rbind (update_loads m symbol close (lv_loads lv)) (\<lambda>(ls, per). Inr (lv\<lparr>lv_loads := ls\<rparr>, per))"

text \<open>\<open>signals_for\<close>: the last diagnosis of every load that was updated.\<close>

record diagnosis =
  g_load :: string
  g_target :: rat
  g_sma_s :: "rat option"
  g_sma_l :: "rat option"
  g_ann_vol :: "rat option"
  g_long :: bool

definition signals_for :: "live \<Rightarrow> string \<Rightarrow> diagnosis list" where
  "signals_for lv symbol = concat (map (\<lambda>(n, p, sg).
     case map_of (t_last sg) symbol of
       None \<Rightarrow> []
     | Some (v, long, tw) \<Rightarrow>
         [\<lparr>g_load = n, g_target = fl tw,
           g_sma_s = (case v of None \<Rightarrow> None | Some w \<Rightarrow> Some (v_sma_s w)),
           g_sma_l = (case v of None \<Rightarrow> None | Some w \<Rightarrow> Some (v_sma_l w)),
           g_ann_vol = (case v of None \<Rightarrow> None | Some w \<Rightarrow> v_vol w), g_long = long\<rparr>]) (lv_loads lv))"

type_synonym bar_signal = "string \<times> int \<times> per_load"

fun prime_symbol :: "libm \<Rightarrow> string \<Rightarrow> live \<Rightarrow> per_load option \<Rightarrow> rat list \<Rightarrow> (live \<times> per_load option) res" where
  "prime_symbol m symbol lv per [] = Inr (lv, per)"
| "prime_symbol m symbol lv per (close # closes) =
     rbind (targets m lv symbol close) (\<lambda>(lv', p). prime_symbol m symbol lv' (Some p) closes)"

text \<open>\<open>prime\<close>: warm up on the history \<open>{symbol: [(day, close)]}\<close> and return the initial signals.\<close>

definition prime_live ::
  "libm \<Rightarrow> (string \<times> (int \<times> rat) list) list \<Rightarrow> live \<times> bar_signal list \<Rightarrow> string \<Rightarrow> (live \<times> bar_signal list) res" where
  "prime_live m hist acc symbol =
     (let lv = fst acc; closes = get_or hist symbol []
      in rbind (prime_symbol m symbol lv None (map snd closes)) (\<lambda>(lv', per).
           case per of
             None \<Rightarrow> Inr (lv', snd acc)
           | Some p \<Rightarrow>
               let (day, close) = List.last closes
               in Inr (lv'\<lparr>lv_day := AList.update symbol day (lv_day lv'),
                           lv_close := AList.update symbol close (lv_close lv')\<rparr>,
                       snd acc @ [(symbol, day, p)])))"

definition prime_all :: "libm \<Rightarrow> (string \<times> (int \<times> rat) list) list \<Rightarrow> live \<Rightarrow> (live \<times> bar_signal list) res" where
  "prime_all m hist lv = rfold (prime_live m hist) (lv, []) (lv_symbols lv)"

definition live_tick :: "libm \<Rightarrow> live \<Rightarrow> string \<Rightarrow> rat \<Rightarrow> int \<Rightarrow> (live \<times> bar_signal option) res" where
  "live_tick m lv symbol price instant =
     (if symbol \<notin> set (lv_symbols lv) then Inr (lv, None)
      else
        let day = utc_day instant;
            put = (\<lambda>lv d. lv\<lparr>lv_day := AList.update symbol d (lv_day lv),
                             lv_close := AList.update symbol price (lv_close lv)\<rparr>)
        in case map_of (lv_day lv) symbol of
             None \<Rightarrow> Inr (put lv day, None)
           | Some cur \<Rightarrow>
               if day \<le> cur then
                 Inr (if day = cur then lv\<lparr>lv_close := AList.update symbol price (lv_close lv)\<rparr> else lv, None)
               else
                 rbind (targets m lv symbol (get_or (lv_close lv) symbol 0)) (\<lambda>(lv', per).
                   Inr (put lv' day, Some (symbol, cur, per))))"

record price_tick =
  q_symbol :: string
  q_price :: rat
  q_instant :: int

text \<open>The consumer loop of \<open>run\<close> on a list of ticks, with the signals it publishes.\<close>

definition live_step :: "libm \<Rightarrow> live \<times> bar_signal list \<Rightarrow> price_tick \<Rightarrow> (live \<times> bar_signal list) res" where
  "live_step m acc t =
     (if q_symbol t \<notin> set (lv_symbols (fst acc)) then Inr acc
      else rbind (live_tick m (fst acc) (q_symbol t) (q_price t) (q_instant t)) (\<lambda>(lv, sg).
             Inr (lv, snd acc @ (case sg of None \<Rightarrow> [] | Some s \<Rightarrow> [s]))))"

type_synonym candle_close = "string \<times> rat \<times> int"

text \<open>\<open>_load_history\<close>: the closes of the daily candles, \<open>(symbol, close, seconds)\<close> in the order of time.\<close>

definition load_history :: "string list \<Rightarrow> candle_close list \<Rightarrow> (string \<times> (int \<times> rat) list) list" where
  "load_history symbols rows =
     foldl (\<lambda>hist (sym, close, ts). if map_of hist sym \<noteq> None
              then append_at sym (utc_day (ts * SECOND), close) hist else hist)
       (foldl (\<lambda>d s. AList.update s [] d) [] symbols) rows"

definition live_run ::
  "settings \<Rightarrow> libm \<Rightarrow> string list \<Rightarrow> candle_close list \<Rightarrow> price_tick list \<Rightarrow> (live \<times> bar_signal list) res" where
  "live_run c m symbols rows ticks =
     rbind (new_live c symbols []) (\<lambda>lv.
     rbind (prime_all m (load_history symbols rows) lv) (\<lambda>acc.
       rfold (live_step m) acc ticks))"

section \<open>The commander\<close>

definition has_pending :: "db \<Rightarrow> string \<Rightarrow> string \<Rightarrow> bool" where
  "has_pending db acct symbol \<longleftrightarrow>
     list_ex (\<lambda>(oid, r). o_account r = acct \<and> o_symbol r = symbol \<and> o_status r = PENDING) (orders db)"

definition equity :: "rat \<Rightarrow> (string \<times> rat) list \<Rightarrow> (string \<times> rat) list \<Rightarrow> rat" where
  "equity cash pos prices =
     foldl (\<lambda>eq (sym, q). case map_of prices sym of
              None \<Rightarrow> eq | Some p \<Rightarrow> if p = 0 then eq else dadd eq (dmul q p)) cash pos"

definition rebalance ::
  "settings \<Rightarrow> string \<Rightarrow> db \<Rightarrow> string \<Rightarrow> string \<Rightarrow> rat \<Rightarrow> (string \<times> rat) list \<Rightarrow> rat \<Rightarrow> db res" where
  "rebalance c oid db acct symbol target_w prices band =
     (if has_pending db acct symbol then Inr db
      else case map_of prices symbol of
             None \<Rightarrow> Inr db
           | Some price \<Rightarrow>
               if price = 0 then Inr db
               else
                 let pos = held_positions db acct; q = get_or pos symbol 0; cash = cash_of db acct
                 in rbind (decide c q price cash (equity cash pos prices) target_w band) (\<lambda>order.
                      case order of
                        None \<Rightarrow> Inr db
                      | Some (s, quantity) \<Rightarrow>
                          rbind (place_order db oid acct symbol s MARKET quantity None) (\<lambda>(db', i). Inr db')))"

record signal_msg =
  sg_symbol :: string
  sg_strategy :: string
  sg_bar :: string
  sg_target :: rat

type_synonym latest = "(string \<times> (string \<times> rat)) list"

record commander =
  cm_latest :: "(string \<times> latest) list"
  cm_acted :: "(string \<times> string) list"
  cm_orders :: nat
  cm_db :: db

text \<open>
  One account of the loop over the accounts; \<open>oid\<close> numbers the calls of \<open>uuid4\<close>.  An exception
  ends the worker, with the orders placed so far committed.
\<close>

fun rebalance_all ::
  "settings \<Rightarrow> (nat \<Rightarrow> string) \<Rightarrow> string \<Rightarrow> rat \<Rightarrow> (string \<times> rat) list \<Rightarrow> rat \<Rightarrow> db \<Rightarrow> nat \<Rightarrow> string list
   \<Rightarrow> (db \<times> nat) \<times> exc option" where
  "rebalance_all c oid symbol target_w prices band db n [] = ((db, n), None)"
| "rebalance_all c oid symbol target_w prices band db n (acct # accts) =
     (case rebalance c (oid n) db acct symbol target_w prices band of
        Inl e \<Rightarrow> ((db, n), Some e)
      | Inr db' \<Rightarrow> rebalance_all c oid symbol target_w prices band db' (Suc n) accts)"

text \<open>
  The handling of one message.  \<open>table\<close> are the rows of \<open>strategy_weights\<close>, \<open>prices\<close> the prices of
  the ticks of the last hour, read when they are needed.
\<close>

definition handle_signal ::
  "settings \<Rightarrow> (nat \<Rightarrow> string) \<Rightarrow> string list \<Rightarrow> rat \<Rightarrow> (string \<times> rat) list \<Rightarrow> (string \<times> rat) list \<Rightarrow>
   commander \<Rightarrow> signal_msg option \<Rightarrow> commander \<times> exc option" where
  "handle_signal c oid roster band table prices st msg =
     (case msg of
        None \<Rightarrow> (st, None)
      | Some s \<Rightarrow>
          if sg_strategy s \<notin> set roster then (st, None)
          else
            let symbol = sg_symbol s; bar = sg_bar s;
                sl = AList.update (sg_strategy s) (bar, sg_target s) (get_or (cm_latest st) symbol []);
                st1 = st\<lparr>cm_latest := AList.update symbol sl (cm_latest st)\<rparr>
            in if map_of (cm_acted st1) symbol = Some bar \<or> \<not> roster_ready sl roster bar then (st1, None)
               else case combined_for_bar sl roster bar (load_weights c table roster) of
                      None \<Rightarrow> (st1, None)
                    | Some w \<Rightarrow>
                        (case rebalance_all c oid symbol w prices band (cm_db st1) (cm_orders st1)
                                (enabled_accounts (cm_db st1)) of
                           ((db', n), Some e) \<Rightarrow> (st1\<lparr>cm_db := db', cm_orders := n\<rparr>, Some e)
                         | ((db', n), None) \<Rightarrow>
                             (st1\<lparr>cm_db := db', cm_orders := n,
                                  cm_acted := AList.update symbol bar (cm_acted st1)\<rparr>, None)))"

section \<open>The stream is the sequence of the daily closes\<close>

text \<open>The reference: the targets of a list of \<open>(day, close)\<close>, one bar after the other.\<close>

fun bar_signals :: "libm \<Rightarrow> string \<Rightarrow> loads \<Rightarrow> (int \<times> rat) list \<Rightarrow> (loads \<times> bar_signal list) res" where
  "bar_signals m symbol ls [] = Inr (ls, [])"
| "bar_signals m symbol ls ((d, close) # bars) =
     rbind (update_loads m symbol close ls) (\<lambda>(ls', per).
     rbind (bar_signals m symbol ls' bars) (\<lambda>(ls'', out). Inr (ls'', (symbol, d, per) # out)))"

definition day_price :: "price_tick \<Rightarrow> int \<times> rat" where
  "day_price t = (utc_day (q_instant t), q_price t)"

definition result_of :: "(live \<times> bar_signal list) res \<Rightarrow> (loads \<times> bar_signal list) res" where
  "result_of r = rbind r (\<lambda>(lv, out). Inr (lv_loads lv, out))"

lemma result_of_simps [simp]:
  "result_of (Inr (lv, out)) = Inr (lv_loads lv, out)" "result_of (Inl e) = Inl e"
  by (simp_all add: result_of_def)

lemma result_of_prefix:
  "result_of (rfold (live_step m) (lv, out0 @ out) ts) =
    rbind (result_of (rfold (live_step m) (lv, out) ts)) (\<lambda>(ls, o'). Inr (ls, out0 @ o'))"
proof (induction ts arbitrary: lv out)
  case (Cons t ts)
  show ?case
  proof (cases "live_step m (lv, out) t")
    case (Inl e)
    then have "live_step m (lv, out0 @ out) t = Inl e"
      by (auto simp: live_step_def rbind_Inl_iff split: if_splits)
    with Inl show ?thesis by simp
  next
    case (Inr acc)
    obtain lv' o' where acc: "acc = (lv', o')" by (cases acc)
    with Inr obtain new where o': "o' = out @ new" and n: "live_step m (lv, out0 @ out) t = Inr (lv', out0 @ out @ new)"
      by (auto simp: live_step_def split: if_splits)
    show ?thesis using Cons.IH [of lv' "out @ new"] Inr n by (simp add: acc o')
  qed
qed simp

lemma live_stream:
  assumes "list_all (\<lambda>t. q_symbol t = symbol) ticks" "symbol \<in> set (lv_symbols lv)"
    and "map_of (lv_day lv) symbol = Some d" "map_of (lv_close lv) symbol = Some p"
    and "sorted (map fst ((d, p) # map day_price ticks))"
  shows "result_of (rfold (live_step m) (lv, []) ticks) =
    bar_signals m symbol (lv_loads lv) (butlast (last_per fst ((d, p) # map day_price ticks)))"
  using assms
proof (induction ticks arbitrary: lv d p)
  case (Cons t ticks)
  have sym: "q_symbol t = symbol" using Cons.prems(1) by simp
  have le: "d \<le> utc_day (q_instant t)" using Cons.prems(5) by (simp add: day_price_def [of t])
  have "sorted (map fst ((d, p) # day_price t # map day_price ticks))"
    using Cons.prems(5) by (simp only: list.map(2))
  from last_per_Cons2 [OF this] have grp: "last_per fst ((d, p) # map day_price (t # ticks)) =
      (if utc_day (q_instant t) = d then last_per fst (map day_price (t # ticks))
       else (d, p) # last_per fst (map day_price (t # ticks)))"
    by (simp add: day_price_def [of t])
  have rest: "sorted (map fst ((utc_day (q_instant t), q_price t) # map day_price ticks))"
    using Cons.prems(5) by (simp add: day_price_def [of t])
  show ?case
  proof (cases "utc_day (q_instant t) = d")
    case True
    let ?lv = "lv\<lparr>lv_close := AList.update symbol (q_price t) (lv_close lv)\<rparr>"
    have st: "live_step m (lv, []) t = Inr (?lv, [])"
      using Cons.prems(2,3) True by (simp add: live_step_def live_tick_def sym Let_def)
    have "result_of (rfold (live_step m) (?lv, []) ticks) = bar_signals m symbol (lv_loads ?lv)
        (butlast (last_per fst ((utc_day (q_instant t), q_price t) # map day_price ticks)))"
      using Cons.prems True rest by (intro Cons.IH) (simp_all add: update_conv')
    then show ?thesis using st grp True by (simp add: day_price_def [of t])
  next
    case False
    let ?put = "\<lambda>ls. lv\<lparr>lv_loads := ls, lv_day := AList.update symbol (utc_day (q_instant t)) (lv_day lv),
        lv_close := AList.update symbol (q_price t) (lv_close lv)\<rparr>"
    have lt: "d < utc_day (q_instant t)" using le False by simp
    have st: "live_step m (lv, []) t = rbind (update_loads m symbol p (lv_loads lv)) (\<lambda>(ls, per).
        Inr (?put ls, [(symbol, d, per)]))"
      using Cons.prems(2-4) lt
      by (cases "update_loads m symbol p (lv_loads lv)")
         (auto simp: live_step_def live_tick_def sym Let_def targets_def get_or_def)
    have bl: "butlast (last_per fst ((d, p) # map day_price (t # ticks))) =
        (d, p) # butlast (last_per fst (map day_price (t # ticks)))"
      using grp False last_per_nonempty [of "map day_price (t # ticks)" fst] by simp
    show ?thesis
    proof (cases "update_loads m symbol p (lv_loads lv)")
      case (Inl e)
      then show ?thesis using st bl by simp
    next
      case (Inr lp)
      obtain ls per where lp: "lp = (ls, per)" by (cases lp)
      have "result_of (rfold (live_step m) (?put ls, []) ticks) = bar_signals m symbol (lv_loads (?put ls))
          (butlast (last_per fst ((utc_day (q_instant t), q_price t) # map day_price ticks)))"
        using Cons.prems rest by (intro Cons.IH) (simp_all add: update_conv')
      then show ?thesis
        using st bl Inr result_of_prefix [of m "?put ls" "[(symbol, d, per)]" "[]" ticks]
        by (simp add: lp day_price_def [of t])
    qed
  qed
qed simp

text \<open>
  The start: \<open>prime\<close> feeds the stored closes and publishes the newest of them.  It also keeps the
  newest as the current day, so that day is fed to the loads once more when the first tick of a later
  day comes.
\<close>

definition newest :: "'a list \<Rightarrow> 'a list" where
  "newest xs = drop (length xs - 1) xs"

lemma newest_simps [simp]: "newest [] = []" "newest [x] = [x]" "newest (x # y # ys) = newest (y # ys)"
  by (simp_all add: newest_def)

lemma newest_last: "xs \<noteq> [] \<Longrightarrow> newest xs = [List.last xs]"
  by (induction xs rule: induct_list012) simp_all

definition last_targets :: "per_load option \<Rightarrow> bar_signal list \<Rightarrow> per_load option" where
  "last_targets per out = (if out = [] then per else Some (snd (snd (List.last out))))"

lemma last_targets_simps [simp]:
  "last_targets per [] = per" "last_targets per ((s, d, p) # out) = last_targets (Some p) out"
  by (simp_all add: last_targets_def)

lemma prime_symbol_bars:
  "prime_symbol m symbol lv per (map snd bars) =
    rbind (bar_signals m symbol (lv_loads lv) bars) (\<lambda>(ls, out). Inr (lv\<lparr>lv_loads := ls\<rparr>, last_targets per out))"
proof (induction bars arbitrary: lv per)
  case (Cons b bars)
  obtain d close where b: "b = (d, close)" by (cases b)
  show ?case
  proof (cases "update_loads m symbol close (lv_loads lv)")
    case (Inr lp)
    obtain ls ps where lp: "lp = (ls, ps)" by (cases lp)
    show ?thesis using Inr Cons.IH [of "lv\<lparr>lv_loads := ls\<rparr>" "Some ps"]
      by (cases "bar_signals m symbol ls bars") (auto simp: b lp targets_def)
  qed (simp add: b targets_def)
qed simp

lemma bar_signals_append:
  "bar_signals m symbol ls (xs @ ys) =
    rbind (bar_signals m symbol ls xs) (\<lambda>(ls', out). rbind (bar_signals m symbol ls' ys) (\<lambda>(ls'', out').
      Inr (ls'', out @ out')))"
proof (induction xs arbitrary: ls)
  case Nil
  show ?case by (cases "bar_signals m symbol ls ys") auto
next
  case (Cons b xs)
  obtain d close where b: "b = (d, close)" by (cases b)
  show ?case
  proof (cases "update_loads m symbol close ls")
    case (Inr lp)
    obtain ls1 per where lp: "lp = (ls1, per)" by (cases lp)
    show ?thesis
    proof (cases "bar_signals m symbol ls1 xs")
      case (Inr r)
      obtain ls2 o2 where r: "r = (ls2, o2)" by (cases r)
      show ?thesis using Cons.IH [of ls1] Inr \<open>update_loads m symbol close ls = Inr lp\<close>
        by (cases "bar_signals m symbol ls2 ys") (auto simp: b lp r)
    qed (use Cons.IH [of ls1] Inr in \<open>simp add: b lp\<close>)
  qed (simp add: b)
qed

lemma bar_signals_days:
  "bar_signals m symbol ls bars = Inr (ls', out) \<Longrightarrow> map (\<lambda>(s, d, p). (s, d)) out = map (\<lambda>b. (symbol, fst b)) bars"
  by (induction bars arbitrary: ls out) auto

lemma newest_signal:
  assumes "bar_signals m symbol ls bars = Inr (ls', out)" "bars \<noteq> []"
  obtains per where "last_targets None out = Some per" "newest out = [(symbol, fst (List.last bars), per)]"
proof -
  note days = bar_signals_days [OF assms(1)]
  have ne: "out \<noteq> []" using days assms(2) by auto
  have "(\<lambda>(s, d, p). (s, d)) (List.last out) = (symbol, fst (List.last bars))"
    using arg_cong [OF days, of List.last] unfolding last_map [OF ne] last_map [OF assms(2)] .
  with ne show thesis
    by (cases "List.last out") (auto simp: last_targets_def newest_last intro: that)
qed

lemma unprimed_stream:
  assumes "list_all (\<lambda>t. q_symbol t = symbol) ticks" "symbol \<in> set (lv_symbols lv)"
    and "map_of (lv_day lv) symbol = None" "sorted (map fst (map day_price ticks))"
  shows "result_of (rfold (live_step m) (lv, []) ticks) =
    bar_signals m symbol (lv_loads lv) (butlast (last_per fst (map day_price ticks)))"
proof (cases ticks)
  case (Cons t ts)
  let ?lv = "lv\<lparr>lv_day := AList.update symbol (utc_day (q_instant t)) (lv_day lv),
      lv_close := AList.update symbol (q_price t) (lv_close lv)\<rparr>"
  have "live_step m (lv, []) t = Inr (?lv, [])"
    using assms(1-3) by (simp add: Cons live_step_def live_tick_def Let_def)
  moreover have "result_of (rfold (live_step m) (?lv, []) ts) = bar_signals m symbol (lv_loads ?lv)
      (butlast (last_per fst ((utc_day (q_instant t), q_price t) # map day_price ts)))"
    using assms by (intro live_stream) (simp_all add: Cons update_conv' day_price_def [of t])
  ultimately show ?thesis by (simp add: Cons day_price_def [of t])
qed (simp add: last_per_def)

lemma primed_stream:
  assumes "list_all (\<lambda>t. q_symbol t = symbol) ticks" "symbol \<in> set (lv_symbols lv)"
    and "map_of (lv_day lv) symbol = None"
    and sorted: "sorted (map fst (newest (get_or hist symbol []) @ map day_price ticks))"
  shows "result_of (rbind (prime_live m hist (lv, []) symbol) (\<lambda>acc. rfold (live_step m) acc ticks)) =
    rbind (bar_signals m symbol (lv_loads lv) (get_or hist symbol [])) (\<lambda>(ls, out).
    rbind (bar_signals m symbol ls
             (butlast (last_per fst (newest (get_or hist symbol []) @ map day_price ticks)))) (\<lambda>(ls', out').
      Inr (ls', newest out @ out')))"
proof -
  define hs where "hs = get_or hist symbol []"
  show ?thesis
  proof (cases "hs = []")
    case True
    then have "prime_live m hist (lv, []) symbol = Inr (lv, [])"
      by (simp add: prime_live_def hs_def [symmetric] Let_def)
    then show ?thesis using unprimed_stream [OF assms(1-3)] sorted True
      by (simp add: hs_def [symmetric]) (cases "bar_signals m symbol (lv_loads lv) (butlast (last_per fst (map day_price ticks)))"; auto)
  next
    case False
    obtain d p where l: "List.last hs = (d, p)" by (cases "List.last hs")
    show ?thesis
    proof (cases "bar_signals m symbol (lv_loads lv) hs")
      case (Inl e)
      then show ?thesis
        by (simp add: prime_live_def hs_def [symmetric] Let_def prime_symbol_bars)
    next
      case (Inr r)
      obtain ls out where r: "r = (ls, out)" by (cases r)
      from newest_signal [OF Inr [unfolded r] False] l
      obtain per where per: "last_targets None out = Some per" "newest out = [(symbol, d, per)]" by auto
      let ?lv = "lv\<lparr>lv_loads := ls, lv_day := AList.update symbol d (lv_day lv), lv_close := AList.update symbol p (lv_close lv)\<rparr>"
      have pr: "prime_live m hist (lv, []) symbol = Inr (?lv, [(symbol, d, per)])"
        using Inr per l by (simp add: prime_live_def hs_def [symmetric] Let_def prime_symbol_bars r)
      have "result_of (rfold (live_step m) (?lv, []) ticks) =
          bar_signals m symbol (lv_loads ?lv) (butlast (last_per fst ((d, p) # map day_price ticks)))"
        using assms(1,2) sorted False l
        by (intro live_stream) (simp_all add: update_conv' hs_def [symmetric] newest_last)
      then show ?thesis
        using Inr r per pr l False result_of_prefix [of m ?lv "[(symbol, d, per)]" "[]" ticks]
        by (simp add: hs_def [symmetric] newest_last)
    qed
  qed
qed

text \<open>After a start whose stored closes end with \<open>(d, p)\<close>, ticks from a later day on: the loads are fed the
  close \<open>p\<close> of the day \<open>d\<close> twice in a row.\<close>

lemma restarted_worker_feeds_newest_close_twice:
  assumes "list_all (\<lambda>t. q_symbol t = symbol) (t # ticks)" "symbol \<in> set (lv_symbols lv)"
    and "map_of (lv_day lv) symbol = None"
    and h: "get_or hist symbol [] = hs @ [(d, p)]" and "sorted (map fst ((d, p) # map day_price (t # ticks)))"
    and later: "d < utc_day (q_instant t)"
  shows "rbind (result_of (rbind (prime_live m hist (lv, []) symbol) (\<lambda>acc. rfold (live_step m) acc (t # ticks))))
      (\<lambda>(ls, out). Inr ls) =
    rbind (bar_signals m symbol (lv_loads lv)
        (hs @ [(d, p), (d, p)] @ butlast (last_per fst (map day_price (t # ticks))))) (\<lambda>(ls, out). Inr ls)"
proof -
  have "last_per fst ((d, p) # map day_price (t # ticks)) = (d, p) # last_per fst (map day_price (t # ticks))"
    using assms(5) later last_per_Cons2 [of fst "(d, p)" "day_price t" "map day_price ticks"]
    by (simp add: day_price_def [of t])
  then have bl: "butlast (last_per fst ((d, p) # map day_price (t # ticks))) =
      (d, p) # butlast (last_per fst (map day_price (t # ticks)))"
    using last_per_nonempty [of "map day_price (t # ticks)" fst] by simp
  have n: "newest (hs @ [(d, p)]) = [(d, p)]" by (simp add: newest_last)
  have "sorted (map fst (newest (get_or hist symbol []) @ map day_price (t # ticks)))"
    using assms(5) by (simp add: h n)
  note feed = primed_stream [OF assms(1-3) this, of m]
  define again where "again = (d, p) # butlast (last_per fst (map day_price (t # ticks)))"
  have bars: "hs @ [(d, p), (d, p)] @ butlast (last_per fst (map day_price (t # ticks))) = (hs @ [(d, p)]) @ again"
    by (simp add: again_def)
  have "newest (get_or hist symbol []) @ map day_price (t # ticks) = (d, p) # map day_price (t # ticks)"
    by (simp add: h n)
  note feed' = feed [unfolded this bl, folded again_def, unfolded h]
  define seen where "seen = hs @ [(d, p)]"
  show ?thesis unfolding feed' bars unfolding seen_def [symmetric] bar_signals_append [of m symbol _ seen again]
    by (cases "bar_signals m symbol (lv_loads lv) seen")
       (auto simp: rbind_assoc case_prod_unfold intro!: rbind_cong)
qed

section \<open>At most one pending order\<close>

definition pending_orders :: "db \<Rightarrow> string \<Rightarrow> string \<Rightarrow> (string \<times> order_row) list" where
  "pending_orders db acct symbol =
     filter (\<lambda>(oid, r). o_account r = acct \<and> o_symbol r = symbol \<and> o_status r = PENDING) (orders db)"

lemma has_pending_iff: "has_pending db acct symbol \<longleftrightarrow> pending_orders db acct symbol \<noteq> []"
  by (auto simp: has_pending_def pending_orders_def list_ex_iff filter_empty_conv)

lemma place_order_orders:
  assumes "place_order db oid acct symbol s ty q p = Inr (db', i)"
  shows "\<exists>r. orders db' = orders db @ [(oid, r)] \<and> o_account r = acct \<and> o_symbol r = symbol \<and> o_status r = PENDING"
proof -
  from assms obtain db1 where "insert_order db oid \<lparr>o_account = acct, o_symbol = symbol, o_side = s, o_type = ty,
      o_price = p, o_quantity = q, o_status = PENDING\<rparr> = Inr db1" "orders db' = orders db1"
    by (auto simp: place_order_def)
  then show ?thesis by (auto simp: insert_order_def update_fresh split: option.splits)
qed

lemma rebalance_pending:
  assumes "rebalance c oid db acct symbol w prices band = Inr db'" "\<forall>a s. length (pending_orders db a s) \<le> 1"
  shows "\<forall>a s. length (pending_orders db' a s) \<le> 1"
proof (cases "db' = db")
  case False
  with assms(1) obtain s q i where n: "\<not> has_pending db acct symbol"
    and p: "place_order db oid acct symbol s MARKET q None = Inr (db', i)"
    by (auto simp: rebalance_def Let_def split: if_splits option.splits)
  from place_order_orders [OF p] obtain r where "orders db' = orders db @ [(oid, r)]" "o_account r = acct" "o_symbol r = symbol"
    by blast
  then have "pending_orders db' a sy = pending_orders db a sy @ (if a = acct \<and> sy = symbol \<and> o_status r = PENDING then [(oid, r)] else [])"
    for a sy by (auto simp: pending_orders_def)
  moreover have "pending_orders db acct symbol = []" using n by (simp add: has_pending_iff)
  ultimately show ?thesis using assms(2) by auto
qed (use assms in simp)

lemma rebalance_all_pending:
  assumes "rebalance_all c oid symbol w prices band db n accts = ((db', n'), e)" "\<forall>a s. length (pending_orders db a s) \<le> 1"
  shows "\<forall>a s. length (pending_orders db' a s) \<le> 1"
  using assms
proof (induction accts arbitrary: db n)
  case (Cons acct accts)
  show ?case
  proof (cases "rebalance c (oid n) db acct symbol w prices band")
    case (Inl x)
    with Cons.prems show ?thesis by simp
  next
    case (Inr db1)
    from Cons.prems(1) Inr have "rebalance_all c oid symbol w prices band db1 (Suc n) accts = ((db', n'), e)" by simp
    from Cons.IH [OF this rebalance_pending [OF Inr Cons.prems(2)]] show ?thesis .
  qed
qed simp

section \<open>Witnesses of the commander\<close>

definition demo_commander :: commander where
  "demo_commander = \<lparr>cm_latest = [], cm_acted = [], cm_orders = 0,
     cm_db = \<lparr>accounts = [(''demo'', \<lparr>krw_balance = 10000000, auto_trade = True\<rparr>)],
       positions = [((''demo'', ''KRW-BTC''), \<lparr>p_quantity = 2, avg_buy_price = 100\<rparr>)],
       orders = [], executions = [], outbox = []\<rparr>\<rparr>"

definition demo_signal :: "signal_msg option" where
  "demo_signal = Some \<lparr>sg_symbol = ''KRW-BTC'', sg_strategy = ''l'', sg_bar = ''2026-01-01'', sg_target = 0\<rparr>"

lemma demo_handled:
  "\<exists>st'. handle_signal default_settings (\<lambda>n. ''o'') [''l''] (1 / 2) [] [(''KRW-BTC'', 100)] demo_commander demo_signal
     = (st', None) \<and> cm_db st' \<noteq> cm_db demo_commander"
proof -
  have n: "numeric 28 12 2 = Inr (2 :: rat)" by code_simp
  have f: "fsum [1] = (1 :: rat)" "fmul 1 0 = (0 :: rat)" "fsum [0] = (0 :: rat)" "fquo 0 1 = (0 :: rat)" by code_simp+
  have e: "dadd 10000000 (dmul 2 100) = (10000200 :: rat)" by (simp add: dadd_def dmul_def dec_lit)
  have w: "load_weights default_settings [] [''l''] = [(''l'', 1)]" by (simp add: load_weights_def)
  let ?db = "cm_db demo_commander"
  have d: "rebalance default_settings ''o'' ?db ''demo'' ''KRW-BTC'' 0 [(''KRW-BTC'', 100)] (1 / 2) =
      rbind (place_order ?db ''o'' ''demo'' ''KRW-BTC'' SELL MARKET 2 None) (\<lambda>(db', i). Inr db')"
    by (simp add: rebalance_def has_pending_def demo_commander_def held_positions_def get_or_def cash_of_def
        equity_def e decide_def)
  obtain db' where p: "place_order ?db ''o'' ''demo'' ''KRW-BTC'' SELL MARKET 2 None = Inr (db', ''o'')"
    by (simp add: place_order_def insert_order_def demo_commander_def n)
  have ne: "db' \<noteq> ?db" using place_order_orders [OF p] by auto
  have a: "enabled_accounts ?db = [''demo'']" by (simp add: enabled_accounts_def demo_commander_def)
  have st: "cm_latest demo_commander = []" "cm_acted demo_commander = []" by (simp_all add: demo_commander_def)
  show ?thesis
    using d p ne a
    by (simp add: handle_signal_def demo_signal_def st Let_def roster_ready_def combined_for_bar_def load_target_def
        f w get_or_def)
qed

section \<open>Properties\<close>

text \<open>C16: What the signal worker publishes for a symbol, from its start on.  Started on the stored daily
  closes, with ticks in the order of time after that: the loads are fed every stored close, the signals of the
  newest stored day are published, and then the targets of every UTC day from that day on that has ended, and
  of no other, each fed to the loads with the last price of the day (the stored close where no tick of the day
  came); the final state or the error is the same.  So without stored closes every day is fed and published
  exactly once, and with stored closes every day except the newest stored one, which is fed and published twice.\<close>

theorem live_signals_are_daily_closes:
  assumes "list_all (\<lambda>t. q_symbol t = symbol) ticks" "symbol \<in> set (lv_symbols lv)"
    and "map_of (lv_day lv) symbol = None"
    and "sorted (map fst (newest (get_or hist symbol []) @ map day_price ticks))"
  shows "result_of (rbind (prime_live m hist (lv, []) symbol) (\<lambda>acc. rfold (live_step m) acc ticks)) =
    rbind (bar_signals m symbol (lv_loads lv) (get_or hist symbol [])) (\<lambda>(ls, out).
    rbind (bar_signals m symbol ls
             (butlast (last_per fst (newest (get_or hist symbol []) @ map day_price ticks)))) (\<lambda>(ls', out').
      Inr (ls', newest out @ out')))"
  using primed_stream [OF assms] .

lemma demo_worker:
  "case new_live default_settings [''a''] [] of
     Inl e \<Rightarrow> False
   | Inr lv \<Rightarrow> map_of (lv_day lv) ''a'' = None \<and> lv_symbols lv = [''a''] \<and>
       (case bar_signals demo_libm ''a'' (lv_loads lv) [(719163, 100)] of
          Inl e \<Rightarrow> False
        | Inr (ls, out) \<Rightarrow>
            (case bar_signals demo_libm ''a'' ls [(719163, 100)] of
               Inl e \<Rightarrow> False
             | Inr (ls', out') \<Rightarrow> map (\<lambda>(s, d, p). d) (newest out @ out') = [719163, 719163] \<and>
                 map (\<lambda>(n, p, sg). get_or (t_prices sg) ''a'' []) ls' = [[100, 100], [100, 100], [100, 100]]))"
  by code_simp

text \<open>One stored close of 100 and a tick on the next day: the stored day is published twice, and each load
  has 100 twice in its buffer.\<close>

theorem live_signals_are_daily_closes_witness:
  "\<exists>lv ls out. new_live default_settings [''a''] [] = Inr lv \<and>
     result_of (rbind (prime_live demo_libm [(''a'', [(719163, 100)])] (lv, []) ''a'')
       (\<lambda>acc. rfold (live_step demo_libm) acc [\<lparr>q_symbol = ''a'', q_price = 3, q_instant = 86400000000\<rparr>])) = Inr (ls, out) \<and>
     map (\<lambda>(s, d, p). d) out = [719163, 719163] \<and>
     map (\<lambda>(n, p, sg). get_or (t_prices sg) ''a'' []) ls = [[100, 100], [100, 100], [100, 100]]"
proof -
  let ?t = "\<lparr>q_symbol = ''a'', q_price = 3, q_instant = 86400000000\<rparr>"
  from demo_worker obtain lv where lv: "new_live default_settings [''a''] [] = Inr lv"
    by (cases "new_live default_settings [''a''] []") simp_all
  note w = demo_worker [unfolded lv, simplified sum.case]
  from w obtain ls out where b1: "bar_signals demo_libm ''a'' (lv_loads lv) [(719163, 100)] = Inr (ls, out)"
    by (cases "bar_signals demo_libm ''a'' (lv_loads lv) [(719163, 100)]") auto
  note w1 = w [unfolded b1, simplified sum.case prod.case]
  from w1 obtain ls' out' where b2: "bar_signals demo_libm ''a'' ls [(719163, 100)] = Inr (ls', out')"
    by (cases "bar_signals demo_libm ''a'' ls [(719163, 100)]") auto
  note b = b1 b2 and w2 = w1 [unfolded b2, simplified sum.case prod.case]
  have day: "map_of (lv_day lv) ''a'' = None" "lv_symbols lv = [''a'']"
    and e: "map (\<lambda>(s, d, p). d) (newest out @ out') = [719163, 719163]"
      "map (\<lambda>(n, p, sg). get_or (t_prices sg) ''a'' []) ls' = [[100, 100], [100, 100], [100, 100]]"
    using w2 by blast+
  have d: "day_price ?t = (719164, 3)" by (simp add: day_price_def utc_day_def local_date_def EPOCH_def)
  have g: "get_or [(''a'', [(719163 :: int, 100 :: rat)])] ''a'' [] = [(719163, 100)]" by (simp add: get_or_def)
  have "result_of (rbind (prime_live demo_libm [(''a'', [(719163, 100)])] (lv, []) ''a'')
      (\<lambda>acc. rfold (live_step demo_libm) acc [?t])) = Inr (ls', newest out @ out')"
    by (subst live_signals_are_daily_closes) (simp_all add: day d g b last_per_def del: bar_signals.simps)
  with lv e show ?thesis by (intro exI conjI)
qed

text \<open>C17: The commander never has two unfilled orders of one account and symbol: if there is at most one
  pending order for each, so there is after any message, also one whose handling fails midway.\<close>

theorem commander_keeps_one_pending_order:
  assumes "handle_signal c oid roster band table prices st msg = (st', e)"
    and "\<forall>a s. length (pending_orders (cm_db st) a s) \<le> 1"
  shows "length (pending_orders (cm_db st') a s) \<le> 1"
proof -
  have "\<forall>a s. length (pending_orders (cm_db st') a s) \<le> 1"
    using assms rebalance_all_pending
    by (auto simp: handle_signal_def Let_def split: option.splits if_splits prod.splits; blast)
  then show ?thesis by blast
qed

theorem commander_keeps_one_pending_order_witness:
  "\<exists>st'. handle_signal default_settings (\<lambda>n. ''o'') [''l''] (1 / 2) [] [(''KRW-BTC'', 100)] demo_commander demo_signal
      = (st', None) \<and> length (pending_orders (cm_db st') ''demo'' ''KRW-BTC'') \<le> 1"
proof -
  from demo_handled obtain st' where h: "handle_signal default_settings (\<lambda>n. ''o'') [''l''] (1 / 2) []
      [(''KRW-BTC'', 100)] demo_commander demo_signal = (st', None)" by blast
  have "\<forall>a s. length (pending_orders (cm_db demo_commander) a s) \<le> 1"
    by (simp add: pending_orders_def demo_commander_def)
  from commander_keeps_one_pending_order [OF h this] h show ?thesis by blast
qed

text \<open>The commander acts on a complete bar and once: a message changes the database only if every
  load of the roster has by then reported the bar of the message, with weights of positive sum,
  and the symbol was not already acted on for that bar; afterwards, unless an exception ended the
  worker, it is marked as acted on.\<close>

lemma commander_acts_once_on_complete_bar:
  assumes "handle_signal c oid roster band table prices st msg = (st', e)" "cm_db st' \<noteq> cm_db st"
  shows "\<exists>s w. msg = Some s \<and> map_of (cm_acted st) (sg_symbol s) \<noteq> Some (sg_bar s) \<and>
    combined_for_bar (get_or (cm_latest st') (sg_symbol s) []) roster (sg_bar s) (load_weights c table roster) = Some w \<and>
    list_all (\<lambda>n. \<exists>t. map_of (get_or (cm_latest st') (sg_symbol s) []) n = Some (sg_bar s, t)) roster \<and>
    (e = None \<longrightarrow> map_of (cm_acted st') (sg_symbol s) = Some (sg_bar s))"
proof -
  have r: "list_all (\<lambda>n. \<exists>t. map_of sl n = Some (bar, t)) roster" if "roster_ready sl roster bar" for sl bar
    using that by (auto simp: roster_ready_def list_all_iff split: option.splits)
  show ?thesis
    using assms
    by (auto simp: handle_signal_def Let_def update_conv' split: option.splits if_splits prod.splits dest!: r)
qed

end
