(* ===== verification/Equity.thy ===== *)
theory Equity
  imports Ledger
begin

text \<open>
  Equity curves: the daily snapshots of \<open>common/equity/equity_snapshot.py\<close> and the series of
  \<open>common/equity/equity_series.py\<close>.  A date is its ordinal; a series is a list of
  \<open>(date, equity, cash)\<close> with the equity as a float.
\<close>

section \<open>Snapshots\<close>

record snapshot_row =
  n_currency :: string
  n_cash :: "rat option"
  n_positions_value :: "rat option"
  n_equity :: rat

text \<open>Rows of \<open>equity_snapshots\<close> by \<open>(market, account_id, snap_date)\<close>.\<close>

type_synonym snapshots = "((string \<times> string \<times> int) \<times> snapshot_row) list"

fun numeric_option :: "nat \<Rightarrow> nat \<Rightarrow> rat option \<Rightarrow> rat option res" where
  "numeric_option p s None = Inr None"
| "numeric_option p s (Some x) = rbind (numeric p s x) (\<lambda>y. Inr (Some y))"

definition upsert_snapshot ::
  "snapshots \<Rightarrow> int \<Rightarrow> string \<Rightarrow> string \<Rightarrow> string \<Rightarrow> rat option \<Rightarrow> rat option \<Rightarrow> rat \<Rightarrow> snapshots res" where
  "upsert_snapshot tab d market account currency cash positions_value eq =
     rbind (numeric_option 20 4 cash) (\<lambda>c.
     rbind (numeric_option 20 4 positions_value) (\<lambda>v.
     rbind (numeric 20 4 eq) (\<lambda>e.
       checked ''market'' (market \<in> {''COIN'', ''KR'', ''US''})
         (AList.update (market, account, d)
            \<lparr>n_currency = currency, n_cash = c, n_positions_value = v, n_equity = e\<rparr> tab))))"

text \<open>Every exception is swallowed: the table is unchanged and the result is \<open>False\<close>.\<close>

definition record_snapshot ::
  "snapshots \<Rightarrow> int \<Rightarrow> string \<Rightarrow> string \<Rightarrow> string \<Rightarrow> rat \<Rightarrow> rat option \<Rightarrow> rat option \<Rightarrow> snapshots \<times> bool" where
  "record_snapshot tab d market account currency eq cash positions_value =
     (case upsert_snapshot tab d market account currency cash positions_value eq of
        Inl x \<Rightarrow> (tab, False) | Inr tab' \<Rightarrow> (tab', True))"

text \<open>A position of a broker's balance and the balance itself (\<open>kis_balance.py\<close>).\<close>

record holding =
  h_symbol :: string
  h_qty :: rat
  h_avg :: rat
  h_cur :: rat
  h_eval :: rat
  h_pnl :: rat

record balance =
  bal_market :: string
  bal_currency :: string
  bal_cash :: rat
  bal_positions :: "holding list"

definition record_stock_snapshot :: "snapshots \<Rightarrow> int \<Rightarrow> string \<Rightarrow> balance res \<Rightarrow> snapshots \<times> bool" where
  "record_stock_snapshot tab d market bal =
     (case bal of
        Inl x \<Rightarrow> (tab, False)
      | Inr b \<Rightarrow>
          let v = fsum (map h_eval (bal_positions b))
          in record_snapshot tab d market ''kis'' (bal_currency b) (fadd (bal_cash b) v)
               (Some (bal_cash b)) (Some v))"

section \<open>Series\<close>

type_synonym series = "(int \<times> rat \<times> rat option) list"

definition point_of :: "int \<times> snapshot_row \<Rightarrow> int \<times> rat \<times> rat option" where
  "point_of r = (fst r, fl (n_equity (snd r)), map_option fl (n_cash (snd r)))"

definition fetch_market_series :: "snapshots \<Rightarrow> int \<Rightarrow> string \<Rightarrow> string \<Rightarrow> int \<Rightarrow> series" where
  "fetch_market_series tab today market account days =
     map point_of (sort_key fst (map (\<lambda>((m, a, d), r). (d, r))
       (filter (\<lambda>((m, a, d), r). m = market \<and> a = account \<and> today - days \<le> d) tab)))"

text \<open>\<open>sum\<close> of SQL ignores \<open>NULL\<close> and is \<open>NULL\<close> if there is nothing else.\<close>

definition sql_sum :: "rat option list \<Rightarrow> rat option" where
  "sql_sum xs = (let ys = concat (map (\<lambda>x. case x of None \<Rightarrow> [] | Some v \<Rightarrow> [v]) xs)
     in if ys = [] then None else Some (sum_list ys))"

definition fetch_coin_series_total :: "snapshots \<Rightarrow> int \<Rightarrow> int \<Rightarrow> series" where
  "fetch_coin_series_total tab today days =
     (let rows = map (\<lambda>((m, a, d), r). (d, r)) (filter (\<lambda>((m, a, d), r). m = ''COIN'' \<and> today - days \<le> d) tab)
      in map (\<lambda>d. let rs = map snd (filter (\<lambda>(d', r). d' = d) rows)
                  in (d, fl (sum_list (map n_equity rs)), map_option fl (sql_sum (map n_cash rs))))
           (sort (remdups (map fst rows))))"

type_synonym rates = "(int \<times> rat) list"

text \<open>\<open>bisect.bisect_right\<close> on an ordered list.\<close>

definition bisect_right :: "int list \<Rightarrow> int \<Rightarrow> nat" where
  "bisect_right xs d = length (takeWhile (\<lambda>x. x \<le> d) xs)"

definition fx_at :: "rates \<Rightarrow> int \<Rightarrow> rat option" where
  "fx_at fx d = (let n = bisect_right (map fst fx) d in if n = 0 then None else Some (snd (fx ! (n - 1))))"

text \<open>
  \<open>merge_total_krw\<close>.  The index \<open>idx[m]\<close> into the points of a market is the rest of its list from
  that index on.
\<close>

type_synonym cursor = "series \<times> rat option"

fun advance :: "int \<Rightarrow> series \<Rightarrow> rat option \<Rightarrow> cursor" where
  "advance d [] v = ([], v)"
| "advance d ((d', e, c) # pts) v = (if d' \<le> d then advance d pts (Some e) else ((d', e, c) # pts, v))"

fun total_at :: "rates \<Rightarrow> int \<Rightarrow> rat \<Rightarrow> (string \<times> cursor) list \<Rightarrow> rat option" where
  "total_at fx d acc [] = Some acc"
| "total_at fx d acc ((m, rest, v) # ms) =
     (case v of
        None \<Rightarrow> None
      | Some x \<Rightarrow>
          if m = ''US'' then
            (case fx_at fx d of None \<Rightarrow> None | Some rate \<Rightarrow> total_at fx d (fadd acc (fmul x rate)) ms)
          else total_at fx d (fadd acc x) ms)"

fun merge_dates :: "rates \<Rightarrow> (string \<times> cursor) list \<Rightarrow> int list \<Rightarrow> (int \<times> rat) list" where
  "merge_dates fx ms [] = []"
| "merge_dates fx ms (d # ds) =
     (let ms' = map (\<lambda>(m, rest, v). (m, advance d rest v)) ms
      in (case total_at fx d 0 ms' of None \<Rightarrow> [] | Some t \<Rightarrow> [(d, t)]) @ merge_dates fx ms' ds)"

definition active :: "(string \<times> series) list \<Rightarrow> (string \<times> series) list" where
  "active markets = filter (\<lambda>(m, pts). pts \<noteq> []) markets"

definition first_days :: "(string \<times> series) list \<Rightarrow> int list" where
  "first_days markets = map (\<lambda>(m, pts). fst (hd pts)) (active markets)"

definition merge_total_krw :: "(string \<times> series) list \<Rightarrow> rates \<Rightarrow> (int \<times> rat) list" where
  "merge_total_krw markets fx =
     (let act = active markets
      in if act = [] then []
         else if ''US'' \<in> set (keys_of act) \<and> fx = [] then []
         else
           let start = Max (set (first_days markets));
               dates = sort (remdups (filter (\<lambda>d. start \<le> d) (concat (map (\<lambda>(m, pts). map fst pts) act))))
           in merge_dates fx (map (\<lambda>(m, pts). (m, pts, None)) act) dates)"

definition common_start :: "(string \<times> series) list \<Rightarrow> int option" where
  "common_start markets =
     (if active markets = [] then None else Some (Max (set (first_days markets))))"

text \<open>The points before and after the start: the base value so far, the points after it.\<close>

fun split_base :: "int \<Rightarrow> rat option \<Rightarrow> (int \<times> rat) list \<Rightarrow> rat option \<times> (int \<times> rat) list" where
  "split_base start base [] = (base, [])"
| "split_base start base ((d, v) # pts) =
     (if d \<le> start then split_base start (Some v) pts
      else let (b, rest) = split_base start base pts in (b, (d, v) # rest))"

definition rebase_pct :: "(int \<times> rat) list \<Rightarrow> int \<Rightarrow> (int \<times> rat) list" where
  "rebase_pct points start =
     (let (base, rest) = split_base start None points
      in case base of
           None \<Rightarrow> []
         | Some b \<Rightarrow>
             if b \<le> 0 then []
             else (start, 0) # map (\<lambda>(d, v). (d, fmul (fsub (fquo v b) 1) 100)) rest)"

definition chart_order :: "string list" where
  "chart_order = [''TOTAL'', ''COIN'', ''KR'', ''KR_ICHIMOKU'', ''US'']"

definition is_paper :: "string \<Rightarrow> bool" where
  "is_paper m \<longleftrightarrow> m = ''KR_ICHIMOKU''"

record chart_row =
  ch_key :: string
  ch_points :: "(int \<times> rat) list"
  ch_ret :: rat
  ch_last :: rat
  ch_currency :: string

definition values_of :: "series \<Rightarrow> (int \<times> rat) list" where
  "values_of pts = map (\<lambda>(d, e, c). (d, e)) pts"

definition chart_row_of :: "(int \<times> rat) list \<Rightarrow> int \<Rightarrow> string \<Rightarrow> chart_row list" where
  "chart_row_of pts start key =
     (let anchor = (if is_paper key \<and> pts \<noteq> [] then fst (hd pts) else start);
          pct = rebase_pct pts anchor
      in if length pct < 2 then []
         else [\<lparr>ch_key = key, ch_points = pct, ch_ret = snd (List.last pct), ch_last = snd (List.last pts),
                ch_currency = (if key = ''US'' then ''USD'' else ''KRW'')\<rparr>])"

definition chart_rows :: "(string \<times> series) list \<Rightarrow> rates \<Rightarrow> chart_row list" where
  "chart_rows markets fx =
     (let real = filter (\<lambda>(m, p). \<not> is_paper m) markets
      in case common_start real of
           None \<Rightarrow> []
         | Some start \<Rightarrow>
             let merged = AList.update ''TOTAL'' (merge_total_krw real fx)
                            (map (\<lambda>(m, p). (m, values_of p)) markets)
             in concat (map (\<lambda>key. chart_row_of (get_or merged key []) start key) chart_order))"

section \<open>The merged total carries the last observation forward\<close>

text \<open>The reference: the last value of a series not after a day.\<close>

definition value_on :: "series \<Rightarrow> int \<Rightarrow> rat option" where
  "value_on pts d =
     (let seen = filter (\<lambda>(d', e, c). d' \<le> d) pts
      in if seen = [] then None else Some (fst (snd (List.last seen))))"

fun total_on :: "rates \<Rightarrow> int \<Rightarrow> rat \<Rightarrow> (string \<times> series) list \<Rightarrow> rat option" where
  "total_on fx d acc [] = Some acc"
| "total_on fx d acc ((m, pts) # ms) =
     (case value_on pts d of
        None \<Rightarrow> None
      | Some x \<Rightarrow>
          if m = ''US'' then
            (case fx_at fx d of None \<Rightarrow> None | Some rate \<Rightarrow> total_on fx d (fadd acc (fmul x rate)) ms)
          else total_on fx d (fadd acc x) ms)"

text \<open>A cursor that has passed the points before \<open>pre\<close> of an ordered series.\<close>

definition at_day :: "series \<Rightarrow> int \<Rightarrow> cursor" where
  "at_day pts d = (dropWhile (\<lambda>(d', e, c). d' \<le> d) pts, value_on pts d)"

lemma sorted_rest:
  "sorted (map fst (pts :: series)) \<Longrightarrow> sorted (map fst (dropWhile (\<lambda>(d', e, c). d' \<le> d) pts))"
  by (induction pts) auto

lemma value_on_Cons:
  assumes "sorted (map fst ((d', e, c) # pts))"
  shows "value_on ((d', e, c) # pts) d =
    (if d' \<le> d then (case value_on pts d of None \<Rightarrow> Some e | Some v \<Rightarrow> Some v) else None)"
  using assms by (auto simp: value_on_def Let_def filter_empty_conv)

lemma advance_sorted:
  assumes "sorted (map fst pts)"
  shows "advance d pts v = (dropWhile (\<lambda>(d', e, c). d' \<le> d) pts, case value_on pts d of None \<Rightarrow> v | Some x \<Rightarrow> Some x)"
  using assms
proof (induction pts arbitrary: v)
  case Nil
  then show ?case by (simp add: value_on_def)
next
  case (Cons p pts)
  obtain d' e c where p: "p = (d', e, c)" by (cases p)
  then show ?case
    using Cons value_on_Cons [of d' e c pts d] by (auto split: option.split)
qed

lemma advance_advance:
  "d \<le> d' \<Longrightarrow> (case advance d pts v of (rest, w) \<Rightarrow> advance d' rest w) = advance d' pts v"
  by (induction d pts v rule: advance.induct) auto

lemma at_day_advance:
  assumes "sorted (map fst pts)" "d \<le> d'"
  shows "(case at_day pts d of (rest, v) \<Rightarrow> advance d' rest v) = at_day pts d'"
proof -
  have "at_day pts x = advance x pts None" for x
    by (simp add: at_day_def advance_sorted [OF assms(1)] split: option.split)
  then show ?thesis by (simp add: advance_advance [OF assms(2)])
qed

lemma merge_dates_eq:
  assumes "sorted ds" "\<And>m pts. (m, pts) \<in> set act \<Longrightarrow> sorted (map fst pts)"
    and "\<And>d'. d' \<in> set ds \<Longrightarrow> d \<le> d'"
  shows "merge_dates fx (map (\<lambda>(m, pts). (m, at_day pts d)) act) ds =
    concat (map (\<lambda>d. case total_on fx d 0 act of None \<Rightarrow> [] | Some t \<Rightarrow> [(d, t)]) ds)"
  using assms(1,3)
proof (induction ds arbitrary: d)
  case (Cons d' ds)
  have adv: "map (\<lambda>(m, rest, v). (m, advance d' rest v)) (map (\<lambda>(m, pts). (m, at_day pts d)) act)
      = map (\<lambda>(m, pts). (m, at_day pts d')) act"
    using at_day_advance [OF assms(2), of _ _ d d'] Cons.prems by (auto simp: case_prod_beta)
  have tot: "total_at fx d' acc (map (\<lambda>(m, pts). (m, at_day pts d')) ms) = total_on fx d' acc ms" for acc ms
    by (induction ms arbitrary: acc) (auto simp: at_day_def split: option.split)
  have "merge_dates fx (map (\<lambda>(m, pts). (m, at_day pts d')) act) ds =
    concat (map (\<lambda>d. case total_on fx d 0 act of None \<Rightarrow> [] | Some t \<Rightarrow> [(d, t)]) ds)"
    using Cons by simp
  then show ?case by (simp only: merge_dates.simps Let_def adv tot list.map concat.simps)
qed simp

lemma start_before:
  assumes "\<And>m pts. (m, pts) \<in> set markets \<Longrightarrow> sorted (map fst pts)"
  obtains d0 where "\<And>m pts. (m, pts) \<in> set (active markets) \<Longrightarrow> at_day pts d0 = (pts, None)"
    "\<And>d. d \<in> set (concat (map (\<lambda>(m, pts). map fst pts) (active markets))) \<Longrightarrow> d0 \<le> d"
proof -
  let ?days = "set (concat (map (\<lambda>(m, pts). map fst pts) (active markets)))"
  define d0 where "d0 = Min (insert 0 ?days) - 1"
  have lt: "d0 < d" if "d \<in> ?days" for d
  proof -
    have "Min (insert 0 ?days) \<le> d" by (rule Min_le) (use that in \<open>simp_all only: finite_insert finite_set insert_iff, simp\<close>)
    then show ?thesis unfolding d0_def by linarith
  qed
  have day: "d \<in> ?days" if "(m, pts) \<in> set (active markets)" "d \<in> set (map fst pts)" for m pts d
    using that by (force simp: case_prod_beta)
  have "at_day pts d0 = (pts, None)" if "(m, pts) \<in> set (active markets)" for m pts
  proof -
    have "\<not> d \<le> d0" if "(d, e, c) \<in> set pts" for d e c
      using lt [OF day [OF \<open>(m, pts) \<in> _\<close>, of d]] that by force
    then have *: "\<forall>x \<in> set pts. \<not> (case x of (d, e, c) \<Rightarrow> d \<le> d0)" by (auto simp: case_prod_beta)
    then have "dropWhile (\<lambda>(d, e, c). d \<le> d0) pts = pts" by (cases pts) auto
    moreover have "filter (\<lambda>(d, e, c). d \<le> d0) pts = []" using * by (auto simp: filter_empty_conv)
    ultimately show ?thesis by (simp add: at_day_def value_on_def)
  qed
  then show thesis using that lt by (meson less_imp_le)
qed

text \<open>The reference for the combined series.\<close>

definition reference_total :: "(string \<times> series) list \<Rightarrow> rates \<Rightarrow> (int \<times> rat) list" where
  "reference_total markets fx =
     concat (map (\<lambda>d. case total_on fx d 0 (active markets) of None \<Rightarrow> [] | Some t \<Rightarrow> [(d, t)])
       (sort (remdups (filter (\<lambda>d. \<forall>f \<in> set (first_days markets). f \<le> d)
          (concat (map (\<lambda>(m, pts). map fst pts) (active markets)))))))"

text \<open>The combined series of the markets is the carried-forward total: on every day on which a
  market was observed, from the first day on which all of them are, the last values not after that
  day are added in the order of the markets, the dollar market at the last rate not after the day; a
  day before the first rate is left out.\<close>

lemma merged_total_carries_forward:
  assumes "\<And>m pts. (m, pts) \<in> set markets \<Longrightarrow> sorted (map fst pts)"
    and "''US'' \<in> set (keys_of (active markets)) \<Longrightarrow> fx \<noteq> []"
  shows "merge_total_krw markets fx = reference_total markets fx"
proof (cases "active markets = []")
  case True
  then show ?thesis by (simp add: merge_total_krw_def reference_total_def)
next
  case False
  define s where "s = Max (set (first_days markets))"
  define ds where "ds = sort (remdups (filter (\<lambda>d. s \<le> d)
    (concat (map (\<lambda>(m, pts). map fst pts) (active markets)))))"
  have nonempty: "set (first_days markets) \<noteq> {}" using False by (simp add: first_days_def)
  have le: "s \<le> d \<longleftrightarrow> (\<forall>f \<in> set (first_days markets). f \<le> d)" for d
    using nonempty by (simp add: s_def)
  have act: "\<And>m pts. (m, pts) \<in> set (active markets) \<Longrightarrow> sorted (map fst pts)"
    using assms(1) by (auto simp: active_def)
  obtain d0 where d0: "\<And>m pts. (m, pts) \<in> set (active markets) \<Longrightarrow> at_day pts d0 = (pts, None)"
     "\<And>d. d \<in> set ds \<Longrightarrow> d0 \<le> d"
  proof (rule start_before [OF assms(1), of markets])
    fix d0
    assume "\<And>m pts. (m, pts) \<in> set (active markets) \<Longrightarrow> at_day pts d0 = (pts, None)"
      "\<And>d. d \<in> set (concat (map (\<lambda>(m, pts). map fst pts) (active markets))) \<Longrightarrow> d0 \<le> d"
    then show thesis using that [of d0] by (simp add: ds_def)
  qed
  have "merge_total_krw markets fx = merge_dates fx (map (\<lambda>(m, pts). (m, pts, None)) (active markets)) ds"
    using False assms(2) by (auto simp: merge_total_krw_def Let_def ds_def s_def)
  also have "map (\<lambda>(m, pts). (m, pts, None)) (active markets) = map (\<lambda>(m, pts). (m, at_day pts d0)) (active markets)"
    using d0(1) by auto
  also have "merge_dates fx (map (\<lambda>(m, pts). (m, at_day pts d0)) (active markets)) ds = reference_total markets fx"
    using merge_dates_eq [OF _ act d0(2), where fx = fx and ds = ds] by (simp add: reference_total_def ds_def le)
  finally show ?thesis .
qed

end
