(* ===== verification/TradeOnce.thy ===== *)
theory TradeOnce
  imports LiveSignals Equity
begin

text \<open>
  The daily trading job \<open>trading/strategy/runners/trade_once.py\<close>: target weights from the
  latest daily candles, one decision per account and symbol, each executed and recorded in its own
  transaction, and the exit code of the process.

  The world a run reads (clock, exchange prices, candles, stored weights, success of the
  notifications, \<open>uuid4\<close>, the iteration order of the set of symbols) is the record
  \<open>trade_world\<close>.  The server's cast from \<open>float8\<close> to \<open>NUMERIC\<close> is an argument \<open>cast\<close>.  The
  text of notifications and the chart are not modelled.
\<close>

section \<open>Analysis of the candles\<close>

record analysis_row =
  an_target :: "rat option"
  an_bar :: "int option"
  an_signals :: "diagnosis list"

type_synonym analysis = "(string \<times> analysis_row) list"

definition MAX_STALE_DAYS :: int where
  "MAX_STALE_DAYS = 3"

definition bar_dates :: "analysis \<Rightarrow> int list" where
  "bar_dates an = concat (map (\<lambda>(s, a). case an_bar a of None \<Rightarrow> [] | Some d \<Rightarrow> [d]) an)"

definition stale_bar_reason :: "analysis \<Rightarrow> int \<Rightarrow> string option" where
  "stale_bar_reason an today =
     (let dates = bar_dates an
      in if dates = [] then Some ''no daily candles''
         else if MAX_STALE_DAYS < today - Max (set dates) then Some ''stale daily candles''
         else None)"

definition no_analysis :: analysis_row where
  "no_analysis = \<lparr>an_target = None, an_bar = None, an_signals = []\<rparr>"

definition analyse :: "live \<Rightarrow> string list \<Rightarrow> (string \<times> rat) list \<Rightarrow> bar_signal \<Rightarrow> analysis_row" where
  "analyse lv roster weights s =
     (case s of (symb, day, per) \<Rightarrow>
        \<lparr>an_target = combined_for_bar (map (\<lambda>(n, t). (n, (day, fl t))) per) roster day weights,
         an_bar = Some day, an_signals = signals_for lv symb\<rparr>)"

definition compute_targets ::
  "settings \<Rightarrow> libm \<Rightarrow> string list \<Rightarrow> (string \<times> rat) list \<Rightarrow> candle_close list \<Rightarrow> analysis res" where
  "compute_targets c m symbol_order table rows =
     rbind (new_live c symbol_order []) (\<lambda>lv.
     rbind (prime_all m (load_history (ENSEMBLE_SYMBOLS c) rows) lv) (\<lambda>(lv', primed).
       let roster = map fst default_loads; weights = load_weights c table roster
       in Inr (foldl (\<lambda>out s. AList.update (fst s) (analyse lv' roster weights s) out)
                (foldl (\<lambda>out s. AList.update s no_analysis out) [] (ENSEMBLE_SYMBOLS c)) primed)))"

section \<open>Planning\<close>

record decision =
  d_account :: string
  d_symbol :: string
  d_price :: "rat option"
  d_target :: "rat option"
  d_equity :: "rat option"
  d_action :: action
  d_quantity :: "rat option"
  d_amount :: "rat option"
  d_reason :: reason
  d_bar :: "int option"
  d_signals :: "diagnosis list"

definition decision_of ::
  "string \<Rightarrow> string \<Rightarrow> rat option \<Rightarrow> rat option \<Rightarrow> action \<Rightarrow> rat option \<Rightarrow> reason \<Rightarrow> analysis_row \<Rightarrow> decision" where
  "decision_of acct symb price eq act oqty why a =
     \<lparr>d_account = acct, d_symbol = symb, d_price = price, d_target = an_target a, d_equity = eq,
      d_action = act, d_quantity = oqty,
      d_amount = (case oqty of None \<Rightarrow> None | Some q \<Rightarrow> map_option (dmul q) price),
      d_reason = why, d_bar = an_bar a, d_signals = an_signals a\<rparr>"

type_synonym holdings = "(string \<times> rat) list"

text \<open>The decision on an order and what it does to the running cash and position.\<close>

definition plan_order ::
  "settings \<Rightarrow> string \<Rightarrow> string \<Rightarrow> analysis_row \<Rightarrow> rat \<Rightarrow> rat \<Rightarrow> rat \<Rightarrow> holdings \<Rightarrow> order option \<Rightarrow> (rat \<times> holdings) \<times> decision" where
  "plan_order c acct symb a px eq cash pos order =
     (let q = get_or pos symb 0;
          act = fst (classify order (an_target a) q); why = snd (classify order (an_target a) q);
          oqty = (case order of None \<Rightarrow> 0 | Some (s, x) \<Rightarrow> x)
      in (case act of
            ABuy \<Rightarrow> (dsub cash (dmul (dmul oqty px) (dadd 1 (FEE_RATE c))), AList.update symb (dadd q oqty) pos)
          | ASell \<Rightarrow> (dadd cash (dmul (dmul oqty px) (dsub 1 (FEE_RATE c))), AList.update symb (dsub q oqty) pos)
          | AHold \<Rightarrow> (cash, pos),
          decision_of acct symb (Some px) (Some eq) act (map_option snd order) why a))"

text \<open>One symbol of the loop over the analysis.\<close>

definition plan_symbol ::
  "settings \<Rightarrow> string \<Rightarrow> (string \<times> rat) list \<Rightarrow> rat \<Rightarrow> (rat \<times> holdings) \<times> decision list \<Rightarrow> string \<times> analysis_row
   \<Rightarrow> ((rat \<times> holdings) \<times> decision list) res" where
  "plan_symbol c acct prices band st sa =
     (case (st, sa) of (((cash, pos), out), (symb, a)) \<Rightarrow>
        let px = get_or prices symb 0
        in if px = 0 then
             Inr ((cash, pos), out @ [decision_of acct symb None None AHold None NoPrice a])
           else
             let eq = equity cash pos prices
             in rbind (case an_target a of
                         None \<Rightarrow> Inr None
                       | Some w \<Rightarrow> decide c (get_or pos symb 0) px cash eq w band) (\<lambda>order.
                  case plan_order c acct symb a px eq cash pos order of (st', d) \<Rightarrow> Inr (st', out @ [d])))"

definition plan_account ::
  "settings \<Rightarrow> analysis \<Rightarrow> (string \<times> rat) list \<Rightarrow> rat \<Rightarrow> string \<times> rat \<times> holdings \<Rightarrow> decision list res" where
  "plan_account c an prices band acc =
     (case acc of (acct, cash, pos) \<Rightarrow>
        rbind (rfold (plan_symbol c acct prices band) ((cash, pos), []) an) (\<lambda>st. Inr (snd st)))"

definition plan_decisions ::
  "settings \<Rightarrow> analysis \<Rightarrow> (string \<times> rat \<times> holdings) list \<Rightarrow> (string \<times> rat) list \<Rightarrow> rat \<Rightarrow> decision list res" where
  "plan_decisions c an snapshots prices band =
     rbind (rmap (plan_account c an prices band) snapshots) (\<lambda>dss. Inr (concat dss))"

section \<open>Execution and record in one transaction\<close>

record decision_row =
  w_id :: string
  w_run_ts :: int
  w_bar :: "int option"
  w_account :: string
  w_symbol :: string
  w_price :: "rat option"
  w_target :: "rat option"
  w_action :: action
  w_quantity :: "rat option"
  w_amount :: "rat option"
  w_equity :: "rat option"
  w_reason :: reason
  w_signals :: "diagnosis list"
  w_executed :: bool

record trade_db =
  ledger :: db
  decisions :: "decision_row list"
  snapshots :: snapshots

definition record_decision ::
  "(rat \<Rightarrow> rat) \<Rightarrow> trade_db \<Rightarrow> string \<Rightarrow> int \<Rightarrow> decision \<Rightarrow> bool \<Rightarrow> trade_db res" where
  "record_decision cast st did run_ts d executed =
     rbind (numeric_option 20 4 (d_price d)) (\<lambda>price.
     rbind (numeric_option 10 6 (map_option cast (d_target d))) (\<lambda>target.
     rbind (numeric_option 28 12 (d_quantity d)) (\<lambda>quantity.
     rbind (numeric_option 20 4 (d_amount d)) (\<lambda>amount.
     rbind (numeric_option 20 4 (d_equity d)) (\<lambda>eq.
     rbind (checked ''trade_decisions_pkey'' (did \<notin> set (map w_id (decisions st))) ()) (\<lambda>_.
       checked ''trade_decisions_account_id_fkey'' (map_of (accounts (ledger st)) (d_account d) \<noteq> None)
         (st\<lparr>decisions := decisions st @
            [\<lparr>w_id = did, w_run_ts = run_ts, w_bar = d_bar d, w_account = d_account d, w_symbol = d_symbol d,
              w_price = price, w_target = target, w_action = d_action d, w_quantity = quantity,
              w_amount = amount, w_equity = eq, w_reason = d_reason d, w_signals = d_signals d,
              w_executed = executed\<rparr>]\<rparr>)))))))"

definition execute_trade ::
  "settings \<Rightarrow> (rat \<Rightarrow> rat \<Rightarrow> rat) \<Rightarrow> db \<Rightarrow> string \<Rightarrow> string \<Rightarrow> string \<Rightarrow> string \<Rightarrow> side \<Rightarrow> rat \<Rightarrow> rat \<Rightarrow> (db \<times> outcome) res" where
  "execute_trade c ndiv db oid eid acct symbol s q price =
     sync_fill ndiv db oid eid acct symbol s q price (fill_fee (FEE_RATE c) price q)"

definition side_of :: "action \<Rightarrow> side option" where
  "side_of a = (case a of ABuy \<Rightarrow> Some BUY | ASell \<Rightarrow> Some SELL | AHold \<Rightarrow> None)"

text \<open>The transaction of the \<open>n\<close>-th decision; the outcome is \<open>None\<close> if nothing is traded.\<close>

definition trade_step ::
  "settings \<Rightarrow> (rat \<Rightarrow> rat \<Rightarrow> rat) \<Rightarrow> (rat \<Rightarrow> rat) \<Rightarrow> (nat \<Rightarrow> string) \<Rightarrow> int \<Rightarrow> trade_db \<Rightarrow> nat \<Rightarrow> decision
   \<Rightarrow> (trade_db \<times> outcome option) res" where
  "trade_step c ndiv cast uuid run_ts st n d =
     (case side_of (d_action d) of
        None \<Rightarrow> rbind (record_decision cast st (uuid (3 * n)) run_ts d False) (\<lambda>st'. Inr (st', None))
      | Some s \<Rightarrow>
          (case (d_quantity d, d_price d) of
             (Some q, Some price) \<Rightarrow>
               rbind (execute_trade c ndiv (ledger st) (uuid (3 * n)) (uuid (3 * n + 1))
                        (d_account d) (d_symbol d) s q price) (\<lambda>(db', r).
               rbind (record_decision cast (st\<lparr>ledger := db'\<rparr>) (uuid (3 * n + 2)) run_ts d (r = Applied)) (\<lambda>st'.
                 Inr (st', Some r)))
           | _ \<Rightarrow> Inl TypeError))"

fun trade_loop ::
  "settings \<Rightarrow> (rat \<Rightarrow> rat \<Rightarrow> rat) \<Rightarrow> (rat \<Rightarrow> rat) \<Rightarrow> (nat \<Rightarrow> string) \<Rightarrow> int \<Rightarrow> trade_db \<Rightarrow> nat \<Rightarrow> nat \<Rightarrow> decision list
   \<Rightarrow> (trade_db \<times> nat) \<times> exc option" where
  "trade_loop c ndiv cast uuid run_ts st n rejected [] = ((st, rejected), None)"
| "trade_loop c ndiv cast uuid run_ts st n rejected (d # ds) =
     (case trade_step c ndiv cast uuid run_ts st n d of
        Inl e \<Rightarrow> ((st, rejected), Some e)
      | Inr (st', r) \<Rightarrow>
          trade_loop c ndiv cast uuid run_ts st' (Suc n)
            (if r = Some Rejected then Suc rejected else rejected) ds)"

section \<open>The run\<close>

record trade_world =
  tw_start :: int
  tw_today :: int
  tw_run_ts :: int
  tw_end :: int
  tw_prices :: "(string \<times> rat) list res"
  tw_candles :: "candle_close list res"
  tw_weights :: "(string \<times> rat) list"
  tw_order :: "string list"
  tw_uuid :: "nat \<Rightarrow> string"
  tw_sent :: bool

definition already_ran_today :: "trade_db \<Rightarrow> int \<Rightarrow> bool" where
  "already_ran_today st instant \<longleftrightarrow> list_ex (\<lambda>r. utc_day instant \<le> utc_day (w_run_ts r)) (decisions st)"

definition account_snapshots :: "db \<Rightarrow> (string \<times> rat \<times> holdings) list" where
  "account_snapshots db = map (\<lambda>a. (a, cash_of db a, held_positions db a)) (enabled_accounts db)"

definition planned ::
  "settings \<Rightarrow> libm \<Rightarrow> trade_world \<Rightarrow> db \<Rightarrow> ((string \<times> rat) list \<times> decision list) res" where
  "planned c m w db =
     rbind (tw_prices w) (\<lambda>prices.
     rbind (tw_candles w) (\<lambda>rows.
     rbind (compute_targets c m (tw_order w) (tw_weights w) rows) (\<lambda>an.
       case stale_bar_reason an (utc_day (tw_today w)) of
         Some why \<Rightarrow> Inl (RuntimeError why)
       | None \<Rightarrow>
           rbind (plan_decisions c an (account_snapshots db) prices (fl (ENSEMBLE_REBALANCE_BAND c))) (\<lambda>ds.
             Inr (prices, ds)))))"

definition record_balances :: "trade_world \<Rightarrow> string list \<Rightarrow> (string \<times> rat) list \<Rightarrow> trade_db \<Rightarrow> trade_db" where
  "record_balances w accts prices st =
     st\<lparr>snapshots := foldl (\<lambda>tab a.
          let cash = cash_of (ledger st) a; eq = equity cash (held_positions (ledger st) a) prices
          in fst (record_snapshot tab (utc_day (tw_end w)) ''COIN'' a ''KRW'' eq (Some cash) (Some (dsub eq cash))))
        (snapshots st) accts\<rparr>"

definition crash_code :: "bool \<Rightarrow> int" where
  "crash_code sent = (if sent then 70 else 1)"

definition trade_once ::
  "settings \<Rightarrow> libm \<Rightarrow> (rat \<Rightarrow> rat \<Rightarrow> rat) \<Rightarrow> (rat \<Rightarrow> rat) \<Rightarrow> bool \<Rightarrow> trade_world \<Rightarrow> trade_db \<Rightarrow> trade_db \<times> int" where
  "trade_once c m ndiv cast dry w st =
     (if \<not> dry \<and> already_ran_today st (tw_start w) then (st, 0)
      else case planned c m w (ledger st) of
             Inl e \<Rightarrow> (st, crash_code (tw_sent w))
           | Inr (prices, ds) \<Rightarrow>
               if dry then (st, 0)
               else case trade_loop c ndiv cast (tw_uuid w) (tw_run_ts w) st 0 0 ds of
                      ((st', rejected), Some e) \<Rightarrow> (st', crash_code (tw_sent w))
                    | ((st', rejected), None) \<Rightarrow>
                        (record_balances w (enabled_accounts (ledger st)) prices st',
                         if 0 < rejected then 70 else 0))"

section \<open>Every booked execution has its decision\<close>

definition matches :: "string \<times> execution \<Rightarrow> decision_row \<Rightarrow> bool" where
  "matches p r \<longleftrightarrow> x_account (snd p) = w_account r \<and> x_symbol (snd p) = w_symbol r \<and>
     side_of (w_action r) = Some (x_side (snd p)) \<and> w_quantity r = Some (x_quantity (snd p)) \<and>
     w_price r = Some (x_price (snd p))"

text \<open>What a transaction, a loop or a run adds to the two tables.\<close>

definition adds :: "int \<Rightarrow> trade_db \<Rightarrow> trade_db \<Rightarrow> bool" where
  "adds run_ts st st' \<longleftrightarrow> (\<exists>rows exs. decisions st' = decisions st @ rows \<and>
     executions (ledger st') = executions (ledger st) @ exs \<and>
     list_all (\<lambda>r. w_run_ts r = run_ts) rows \<and> list_all2 matches exs (filter w_executed rows))"

lemma adds_refl [simp]: "adds run_ts st st"
  unfolding adds_def by (intro exI [of _ "[]"]) simp

lemma adds_trans:
  assumes "adds run_ts st st'" "adds run_ts st' st''"
  shows "adds run_ts st st''"
proof -
  obtain rows exs where 1: "decisions st' = decisions st @ rows"
      "executions (ledger st') = executions (ledger st) @ exs"
      "list_all (\<lambda>r. w_run_ts r = run_ts) rows" "list_all2 matches exs (filter w_executed rows)"
    using assms(1) unfolding adds_def by blast
  obtain rows' exs' where 2: "decisions st'' = decisions st' @ rows'"
      "executions (ledger st'') = executions (ledger st') @ exs'"
      "list_all (\<lambda>r. w_run_ts r = run_ts) rows'" "list_all2 matches exs' (filter w_executed rows')"
    using assms(2) unfolding adds_def by blast
  show ?thesis unfolding adds_def
    using 1 2 by (intro exI [of _ "rows @ rows'"] exI [of _ "exs @ exs'"]) (simp add: list_all2_appendI)
qed

lemma insert_order_executions: "insert_order db oid r = Inr db' \<Longrightarrow> executions db' = executions db"
  by (auto simp: insert_order_def)

lemma sync_fill_executions:
  assumes "sync_fill ndiv db oid eid acct symbol s q price fee_res = Inr (db', out)"
  shows "if out = Applied
    then \<exists>ex. executions db' = executions db @ [(eid, ex)] \<and> x_account ex = acct \<and> x_symbol ex = symbol \<and>
      x_side ex = s \<and> numeric 28 12 q = Inr (x_quantity ex) \<and> numeric 20 4 price = Inr (x_price ex)
    else executions db' = executions db"
proof -
  obtain db1 fee where i: "executions db1 = executions db"
    and a: "apply_execution ndiv db1 \<lparr>x_id = eid, x_order = oid, x_account = acct, x_symbol = symbol,
      x_side = s, x_price = price, x_quantity = q, x_fee = fee\<rparr> = Inr (db', out)"
    using assms insert_order_executions by (fastforce simp: sync_fill_def)
  from a show ?thesis
    by (cases rule: apply_execution_cases) (auto simp: i stored_def update_fresh)
qed

lemma record_decision_InrD:
  assumes "record_decision cast st did run_ts d executed = Inr st'"
  obtains r where "st' = st\<lparr>decisions := decisions st @ [r]\<rparr>" "w_run_ts r = run_ts"
    "w_account r = d_account d" "w_symbol r = d_symbol d" "w_action r = d_action d"
    "w_executed r = executed" "numeric_option 28 12 (d_quantity d) = Inr (w_quantity r)"
    "numeric_option 20 4 (d_price d) = Inr (w_price r)"
proof -
  from assms obtain price target quantity amount eq where
    "numeric_option 20 4 (d_price d) = Inr price" "numeric_option 28 12 (d_quantity d) = Inr quantity"
    "st' = st\<lparr>decisions := decisions st @
      [\<lparr>w_id = did, w_run_ts = run_ts, w_bar = d_bar d, w_account = d_account d, w_symbol = d_symbol d,
        w_price = price, w_target = target, w_action = d_action d, w_quantity = quantity,
        w_amount = amount, w_equity = eq, w_reason = d_reason d, w_signals = d_signals d,
        w_executed = executed\<rparr>]\<rparr>"
    by (auto simp: record_decision_def)
  then show thesis by (intro that) (assumption | simp)+
qed

lemma trade_step_adds:
  assumes "trade_step c ndiv cast uuid run_ts st n d = Inr (st', r)"
  shows "adds run_ts st st'"
proof (cases "side_of (d_action d)")
  case None
  then obtain r where "st' = st\<lparr>decisions := decisions st @ [r]\<rparr>" "w_run_ts r = run_ts" "\<not> w_executed r"
    using assms by (auto simp: trade_step_def elim: record_decision_InrD)
  then show ?thesis unfolding adds_def by (intro exI [of _ "[r]"] exI [of _ "[]"]) simp
next
  case (Some s)
  then obtain q price db' out where q: "d_quantity d = Some q" "d_price d = Some price"
    and f: "sync_fill ndiv (ledger st) (uuid (3 * n)) (uuid (3 * n + 1)) (d_account d) (d_symbol d) s q price
      (fill_fee (FEE_RATE c) price q) = Inr (db', out)"
    and rd: "record_decision cast (st\<lparr>ledger := db'\<rparr>) (uuid (3 * n + 2)) run_ts d (out = Applied) = Inr st'"
    using assms by (auto simp: trade_step_def execute_trade_def split: option.splits)
  from rd obtain r where r: "st' = st\<lparr>ledger := db', decisions := decisions st @ [r]\<rparr>" "w_run_ts r = run_ts"
    "w_account r = d_account d" "w_symbol r = d_symbol d" "w_action r = d_action d"
    "w_executed r \<longleftrightarrow> out = Applied" "numeric_option 28 12 (d_quantity d) = Inr (w_quantity r)"
    "numeric_option 20 4 (d_price d) = Inr (w_price r)"
    by (rule record_decision_InrD) simp
  show ?thesis
  proof (cases "out = Applied")
    case True
    then obtain ex where "executions db' = executions (ledger st) @ [ex]" "matches ex r"
      using sync_fill_executions [OF f] r q Some by (auto simp: matches_def)
    then show ?thesis unfolding adds_def
      using r True by (intro exI [of _ "[r]"] exI [of _ "[ex]"]) simp
  next
    case False
    then show ?thesis unfolding adds_def
      using r sync_fill_executions [OF f] by (intro exI [of _ "[r]"] exI [of _ "[]"]) simp
  qed
qed

lemma trade_loop_adds:
  "trade_loop c ndiv cast uuid run_ts st n rejected ds = ((st', k), e) \<Longrightarrow> adds run_ts st st'"
proof (induction ds arbitrary: st n rejected)
  case (Cons d ds)
  then show ?case
    by (auto split: sum.splits if_splits intro: adds_trans trade_step_adds)
qed simp

lemma record_balances_simps [simp]:
  "ledger (record_balances w accts prices st) = ledger st"
  "decisions (record_balances w accts prices st) = decisions st"
  by (simp_all add: record_balances_def)

lemma trade_once_adds:
  assumes "trade_once c m ndiv cast dry w st = (st', code)"
  shows "adds (tw_run_ts w) st st'"
proof -
  have rb: "adds t s (record_balances w accts prices s')" if "adds t s s'" for t s s' accts prices
    using that by (simp add: adds_def)
  show ?thesis
    using assms unfolding trade_once_def
    by (auto split: if_splits sum.splits prod.splits option.splits intro: rb dest: trade_loop_adds)
qed

section \<open>One decision per account, symbol and day\<close>

definition decision_key :: "decision \<Rightarrow> string \<times> string" where
  "decision_key d = (d_account d, d_symbol d)"

definition row_key :: "decision_row \<Rightarrow> string \<times> string" where
  "row_key r = (w_account r, w_symbol r)"

lemma plan_symbol_keys:
  assumes "plan_symbol c acct prices band st sa = Inr st'"
  shows "map decision_key (snd st') = map decision_key (snd st) @ [(acct, fst sa)]"
  using assms
  by (auto simp: plan_symbol_def plan_order_def decision_key_def decision_of_def Let_def
      split: prod.splits if_splits)

lemma plan_symbols_keys:
  "rfold (plan_symbol c acct prices band) st an = Inr st' \<Longrightarrow>
    map decision_key (snd st') = map decision_key (snd st) @ map (Pair acct) (keys_of an)"
  by (induction an arbitrary: st) (auto dest: plan_symbol_keys)

lemma plan_decisions_keys:
  "plan_decisions c an accs prices band = Inr ds \<Longrightarrow>
    map decision_key ds = concat (map (\<lambda>a. map (Pair a) (keys_of an)) (map fst accs))"
proof (induction accs arbitrary: ds)
  case (Cons acc accs)
  then obtain ds1 dss where d: "plan_account c an prices band acc = Inr ds1"
      "rmap (plan_account c an prices band) accs = Inr dss" "ds = ds1 @ concat dss"
    by (auto simp: plan_decisions_def)
  have "map decision_key ds1 = map (Pair (fst acc)) (keys_of an)"
    using d(1) by (cases acc) (auto simp: plan_account_def dest: plan_symbols_keys)
  moreover have "map decision_key (concat dss) = concat (map (\<lambda>a. map (Pair a) (keys_of an)) (map fst accs))"
    by (rule Cons.IH) (simp add: plan_decisions_def d(2))
  ultimately show ?case by (simp add: d(3))
qed (simp add: plan_decisions_def)

lemma distinct_product:
  "distinct xs \<Longrightarrow> distinct ys \<Longrightarrow> distinct (concat (map (\<lambda>a. map (Pair a) ys) xs))"
  by (induction xs) (auto simp: distinct_map inj_on_def)

lemma distinct_foldl_update:
  "distinct (keys_of d) \<Longrightarrow> distinct (keys_of (foldl (\<lambda>out x. AList.update (f x) (g x) out) d xs))"
  by (induction xs arbitrary: d) simp_all

lemma compute_targets_distinct:
  "compute_targets c m ord table rows = Inr an \<Longrightarrow> distinct (keys_of an)"
  unfolding compute_targets_def Let_def by (auto intro!: distinct_foldl_update)

lemma distinct_enabled: "distinct (keys_of (accounts db)) \<Longrightarrow> distinct (enabled_accounts db)"
  unfolding enabled_accounts_def by (rule distinct_map_filter)

lemma planned_distinct:
  assumes "planned c m w db = Inr (prices, ds)" "distinct (keys_of (accounts db))"
  shows "distinct (map decision_key ds)"
proof -
  obtain an where an: "distinct (keys_of an)"
      "plan_decisions c an (account_snapshots db) prices (fl (ENSEMBLE_REBALANCE_BAND c)) = Inr ds"
    using assms(1) by (auto simp: planned_def split: option.splits dest: compute_targets_distinct)
  show ?thesis
    unfolding plan_decisions_keys [OF an(2)]
    using distinct_product [OF distinct_enabled [OF assms(2)] an(1)]
    by (simp add: account_snapshots_def comp_def)
qed

text \<open>The rows of a loop are those of a prefix of the decisions; accounts are not added.\<close>

lemma sync_fill_accounts:
  "sync_fill ndiv db oid eid acct symbol s q price fee_res = Inr (db', out) \<Longrightarrow>
    keys_of (accounts db') = keys_of (accounts db)"
  by (auto simp: sync_fill_def insert_order_def elim!: apply_execution_cases)

lemma trade_step_keys:
  assumes "trade_step c ndiv cast uuid run_ts st n d = Inr (st', r)"
  shows "map row_key (decisions st') = map row_key (decisions st) @ [decision_key d]"
    and "keys_of (accounts (ledger st')) = keys_of (accounts (ledger st))"
  using assms
  by (auto simp: trade_step_def execute_trade_def row_key_def decision_key_def
      split: option.splits elim!: record_decision_InrD dest: sync_fill_accounts)

lemma trade_loop_keys:
  "trade_loop c ndiv cast uuid run_ts st n rejected ds = ((st', k), e) \<Longrightarrow>
    keys_of (accounts (ledger st')) = keys_of (accounts (ledger st)) \<and>
    (\<exists>i. map row_key (decisions st') = map row_key (decisions st) @ take i (map decision_key ds))"
proof (induction ds arbitrary: st n rejected)
  case (Cons d ds)
  show ?case
  proof (cases "trade_step c ndiv cast uuid run_ts st n d")
    case (Inl e')
    then show ?thesis using Cons.prems by (auto intro: exI [of _ 0])
  next
    case (Inr p)
    obtain st1 r where p: "p = (st1, r)" by (cases p)
    note 1 = trade_step_keys [OF Inr [unfolded p]]
    from Cons.prems Inr p obtain i where
      "map row_key (decisions st') = map row_key (decisions st1) @ take i (map decision_key ds)"
      "keys_of (accounts (ledger st')) = keys_of (accounts (ledger st1))"
      using Cons.IH [of st1 "Suc n"] by (auto split: if_splits)
    then show ?thesis using 1 by (auto intro!: exI [of _ "Suc i"])
  qed
qed simp

definition daily :: "trade_db \<Rightarrow> bool" where
  "daily st \<longleftrightarrow> distinct (keys_of (accounts (ledger st))) \<and>
     distinct (map (\<lambda>r. (utc_day (w_run_ts r), w_account r, w_symbol r)) (decisions st))"

lemma trade_once_daily:
  assumes d: "daily st" and w: "tw_start w \<le> tw_run_ts w"
  shows "daily (fst (trade_once c m ndiv cast False w st))"
proof (cases "already_ran_today st (tw_start w) \<or> (\<exists>e. planned c m w (ledger st) = Inl e)")
  case True
  then show ?thesis using d by (auto simp: trade_once_def)
next
  case False
  then obtain prices ds where pl: "planned c m w (ledger st) = Inr (prices, ds)"
    by (cases "planned c m w (ledger st)") auto
  obtain st1 k e where l: "trade_loop c ndiv cast (tw_uuid w) (tw_run_ts w) st 0 0 ds = ((st1, k), e)"
    by (metis surj_pair)
  have res: "ledger (fst (trade_once c m ndiv cast False w st)) = ledger st1"
    "decisions (fst (trade_once c m ndiv cast False w st)) = decisions st1"
    using False pl l by (auto simp: trade_once_def split: option.splits)
  obtain i where keys: "map row_key (decisions st1) = map row_key (decisions st) @ take i (map decision_key ds)"
    and acc: "keys_of (accounts (ledger st1)) = keys_of (accounts (ledger st))"
    using trade_loop_keys [OF l] by blast
  obtain rows where rows: "decisions st1 = decisions st @ rows" "\<And>r. r \<in> set rows \<Longrightarrow> w_run_ts r = tw_run_ts w"
    using trade_loop_adds [OF l] by (auto simp: adds_def list_all_iff)
  have "map row_key rows = take i (map decision_key ds)" using keys rows(1) by simp
  then have dr: "distinct (map row_key rows)"
    using planned_distinct [OF pl] d by (metis daily_def distinct_take)
  have new: "distinct (map (\<lambda>r. (utc_day (w_run_ts r), w_account r, w_symbol r)) rows)"
    using dr rows(2) by (auto simp: distinct_map inj_on_def row_key_def)
  have "utc_day (tw_start w) \<le> utc_day (tw_run_ts w)"
    using w by (simp add: utc_day_def local_date_def zdiv_mono1)
  moreover have "utc_day (w_run_ts r) < utc_day (tw_start w)" if "r \<in> set (decisions st)" for r
    using False that by (auto simp: already_ran_today_def list_ex_iff not_le)
  ultimately have "utc_day (w_run_ts r) \<noteq> utc_day (tw_run_ts w)" if "r \<in> set (decisions st)" for r
    using that by fastforce
  then show ?thesis
    using new d rows by (auto simp: daily_def res acc)
qed

lemma daily_runs:
  "daily st \<Longrightarrow> list_all (\<lambda>w. tw_start w \<le> tw_run_ts w) ws \<Longrightarrow>
    daily (foldl (\<lambda>st w. fst (trade_once c m ndiv cast False w st)) st ws)"
  by (induction ws arbitrary: st) (simp_all add: trade_once_daily)

section \<open>Exit code 0 means that every order was filled\<close>

definition unused :: "(nat \<Rightarrow> string) \<Rightarrow> nat \<Rightarrow> trade_db \<Rightarrow> bool" where
  "unused uuid n st \<longleftrightarrow> (\<forall>j \<ge> n. map_of (executions (ledger st)) (uuid (3 * j + 1)) = None)"

lemma sync_fill_not_duplicate:
  assumes "sync_fill ndiv db oid eid acct symbol s q price fee_res = Inr (db', out)" "map_of (executions db) eid = None"
  shows "out \<noteq> Duplicate"
proof -
  obtain db1 fee where i: "executions db1 = executions db"
    and a: "apply_execution ndiv db1 \<lparr>x_id = eid, x_order = oid, x_account = acct, x_symbol = symbol,
      x_side = s, x_price = price, x_quantity = q, x_fee = fee\<rparr> = Inr (db', out)"
    using assms(1) insert_order_executions by (fastforce simp: sync_fill_def)
  from a show ?thesis using assms(2) by (cases rule: apply_execution_cases) (auto simp: i)
qed

definition unfilled :: "decision_row \<Rightarrow> bool" where
  "unfilled r \<longleftrightarrow> w_action r \<noteq> AHold \<and> \<not> w_executed r"

lemma trade_step_unfilled:
  assumes t: "trade_step c ndiv cast uuid run_ts st n d = Inr (st', r)" and u: "unused uuid n st" "inj uuid"
  shows "length (filter unfilled (decisions st')) = length (filter unfilled (decisions st)) + (if r = Some Rejected then 1 else 0)"
    and "unused uuid (Suc n) st'"
proof -
  have "length (filter unfilled (decisions st')) = length (filter unfilled (decisions st)) + (if r = Some Rejected then 1 else 0)
    \<and> unused uuid (Suc n) st'"
  proof (cases "side_of (d_action d)")
    case None
    then show ?thesis using t u(1)
      by (auto simp: trade_step_def unused_def unfilled_def side_of_def split: action.splits elim!: record_decision_InrD)
  next
    case (Some s)
    then obtain q price db' out where
      f: "sync_fill ndiv (ledger st) (uuid (3 * n)) (uuid (3 * n + 1)) (d_account d) (d_symbol d) s q price
        (fill_fee (FEE_RATE c) price q) = Inr (db', out)"
      and rd: "record_decision cast (st\<lparr>ledger := db'\<rparr>) (uuid (3 * n + 2)) run_ts d (out = Applied) = Inr st'" "r = Some out"
      using t by (auto simp: trade_step_def execute_trade_def split: option.splits)
    have "out \<noteq> Duplicate" by (rule sync_fill_not_duplicate [OF f]) (use u in \<open>simp add: unused_def\<close>)
    moreover have "d_action d \<noteq> AHold" using Some by (auto simp: side_of_def)
    moreover have "map_of (executions db') (uuid (3 * j + 1)) = None" if "Suc n \<le> j" for j
      using sync_fill_executions [OF f] u that
      by (cases "out = Applied") (auto simp: unused_def map_add_Some_iff inj_eq)
    ultimately show ?thesis using rd
      by (auto simp: unfilled_def unused_def elim!: record_decision_InrD intro: outcome.exhaust [of out])
  qed
  then show "length (filter unfilled (decisions st')) = length (filter unfilled (decisions st)) + (if r = Some Rejected then 1 else 0)"
    "unused uuid (Suc n) st'" by auto
qed

lemma trade_loop_unfilled:
  "trade_loop c ndiv cast uuid run_ts st n k ds = ((st', k'), e) \<Longrightarrow> unused uuid n st \<Longrightarrow> inj uuid \<Longrightarrow>
    length (filter unfilled (decisions st')) + k = length (filter unfilled (decisions st)) + k'"
proof (induction ds arbitrary: st n k)
  case (Cons d ds)
  show ?case
  proof (cases "trade_step c ndiv cast uuid run_ts st n d")
    case (Inr p)
    obtain st1 r where p: "p = (st1, r)" by (cases p)
    note 1 = trade_step_unfilled [OF Inr [unfolded p] Cons.prems(2,3)]
    show ?thesis
      using Cons.prems(1) Inr p 1 Cons.IH [OF _ 1(2) Cons.prems(3)] by (fastforce split: if_splits)
  qed (use Cons.prems in simp)
qed simp

lemma trade_loop_complete:
  "trade_loop c ndiv cast uuid run_ts st n k ds = ((st', k'), None) \<Longrightarrow>
    map row_key (decisions st') = map row_key (decisions st) @ map decision_key ds"
proof (induction ds arbitrary: st n k)
  case (Cons d ds)
  then show ?case by (auto split: sum.splits dest: trade_step_keys)
qed simp

section \<open>Properties\<close>

definition demo_settings :: settings where
  "demo_settings = default_settings\<lparr>ENSEMBLE_SYMBOLS := [''B'']\<rparr>"

definition demo_world :: trade_world where
  "demo_world = \<lparr>tw_start = 86400000000, tw_today = 86400000001, tw_run_ts = 86400000002, tw_end = 86400000003,
     tw_prices = Inr [(''B'', 100)], tw_candles = Inr [(''B'', 100, 0)], tw_weights = [],
     tw_order = [''B''], tw_uuid = (\<lambda>n. replicate n CHR ''u''), tw_sent = True\<rparr>"

definition demo_trade :: trade_db where
  "demo_trade = \<lparr>ledger = \<lparr>accounts = [(''demo'', \<lparr>krw_balance = 0, auto_trade = True\<rparr>)],
     positions = [((''demo'', ''B''), \<lparr>p_quantity = 2, avg_buy_price = 90\<rparr>)],
     orders = [], executions = [], outbox = []\<rparr>, decisions = [], snapshots = []\<rparr>"

definition demo_flat :: "diagnosis list" where
  "demo_flat = map (\<lambda>l. \<lparr>g_load = l, g_target = 0, g_sma_s = None, g_sma_l = None, g_ann_vol = None, g_long = False\<rparr>)
     [''trend-5-40'', ''trend-10-60'', ''trend-20-100'']"

definition demo_analysis :: analysis where
  "demo_analysis = [(''B'', \<lparr>an_target = Some 0, an_bar = Some 719163, an_signals = demo_flat\<rparr>)]"

definition demo_sale :: decision where
  "demo_sale = \<lparr>d_account = ''demo'', d_symbol = ''B'', d_price = Some 100, d_target = Some 0, d_equity = Some 200,
     d_action = ASell, d_quantity = Some 2, d_amount = Some 200, d_reason = TrendReversed, d_bar = Some 719163,
     d_signals = demo_flat\<rparr>"

lemma demo_targets: "compute_targets demo_settings demo_libm [''B''] [] [(''B'', 100, 0)] = Inr demo_analysis"
  by code_simp

lemma demo_once_plan:
  "plan_decisions demo_settings demo_analysis (account_snapshots (ledger demo_trade)) [(''B'', 100)]
     (fl (ENSEMBLE_REBALANCE_BAND demo_settings)) = Inr [demo_sale]"
  by code_simp

lemma demo_loop:
  "(case trade_loop demo_settings (/) (\<lambda>x. x) (tw_uuid demo_world) (tw_run_ts demo_world) demo_trade 0 0 [demo_sale] of
      ((st, k), e) \<Rightarrow> k = 0 \<and> e = None \<and> map w_executed (decisions st) = [True] \<and> keys_of (executions (ledger st)) = [''u''])"
  by code_simp

lemma demo_fresh: "stale_bar_reason demo_analysis (utc_day (tw_today demo_world)) = None"
  by code_simp

lemma demo_traded:
  "\<exists>st. trade_once demo_settings demo_libm (/) (\<lambda>x. x) False demo_world demo_trade = (st, 0) \<and>
     map w_executed (decisions st) = [True]"
proof -
  obtain st where l: "trade_loop demo_settings (/) (\<lambda>x. x) (tw_uuid demo_world) (tw_run_ts demo_world) demo_trade 0 0 [demo_sale]
      = ((st, 0), None)" "map w_executed (decisions st) = [True]"
    using demo_loop by (auto split: prod.splits)
  have "planned demo_settings demo_libm demo_world (ledger demo_trade) = Inr ([(''B'', 100)], [demo_sale])"
    using demo_targets demo_once_plan demo_fresh by (simp add: planned_def demo_world_def)
  then show ?thesis
    using l by (simp add: trade_once_def already_ran_today_def demo_trade_def record_balances_def)
qed

text \<open>C8: No execution without its decision: whatever a run of the job does, and wherever an
  exception ends it, the executions it books are, in order, exactly those of the decisions it
  records as executed, with the same account, symbol, side, quantity and price.\<close>

theorem executions_have_decisions:
  "\<exists>rows exs. decisions (fst (trade_once c m ndiv cast dry w st)) = decisions st @ rows \<and>
     executions (ledger (fst (trade_once c m ndiv cast dry w st))) = executions (ledger st) @ exs \<and>
     list_all (\<lambda>r. w_run_ts r = tw_run_ts w) rows \<and> list_all2 matches exs (filter w_executed rows)"
  using trade_once_adds [of c m ndiv cast dry w st] unfolding adds_def by (metis prod.collapse)

text \<open>C7: The job decides at most once a day: over any sequence of runs on an empty history (the
  main start, its sweeper, manual restarts, runs that crash midway), no account has two decisions on one
  symbol with the same UTC day.\<close>

theorem one_decision_per_day:
  assumes "distinct (keys_of (accounts (ledger st)))" "decisions st = []"
    and "list_all (\<lambda>w. tw_start w \<le> tw_run_ts w) ws"
  shows "distinct (map (\<lambda>r. (utc_day (w_run_ts r), w_account r, w_symbol r))
    (decisions (foldl (\<lambda>st w. fst (trade_once c m ndiv cast False w st)) st ws)))"
proof -
  have "daily st" using assms(1,2) by (simp add: daily_def)
  from daily_runs [OF this assms(3)] show ?thesis unfolding daily_def by blast
qed

theorem one_decision_per_day_witness:
  "distinct (map (\<lambda>r. (utc_day (w_run_ts r), w_account r, w_symbol r))
    (decisions (foldl (\<lambda>st w. fst (trade_once demo_settings demo_libm (/) (\<lambda>x. x) False w st)) demo_trade
      [demo_world, demo_world]))) \<and>
   decisions (fst (trade_once demo_settings demo_libm (/) (\<lambda>x. x) False demo_world demo_trade)) \<noteq> []"
proof -
  have "decisions (fst (trade_once demo_settings demo_libm (/) (\<lambda>x. x) False demo_world demo_trade)) \<noteq> []"
    using demo_traded by auto
  moreover have "distinct (keys_of (accounts (ledger demo_trade)))" "decisions demo_trade = []"
    "list_all (\<lambda>w. tw_start w \<le> tw_run_ts w) [demo_world, demo_world]"
    by (simp_all add: demo_trade_def demo_world_def)
  ultimately show ?thesis using one_decision_per_day by blast
qed

text \<open>Exit code 0 of a run that was not skipped means that every planned decision was recorded
  and every order filled: the new rows are the plan, and none of them is an order that was not executed.
  (Any rejected order gives 70; identifiers of \<open>uuid4\<close> are assumed to be fresh.)\<close>

lemma exit_zero_means_filled:
  assumes run: "trade_once c m ndiv cast False w st = (st', 0)" and new: "\<not> already_ran_today st (tw_start w)"
    and ids: "inj (tw_uuid w)" "\<forall>j. map_of (executions (ledger st)) (tw_uuid w j) = None"
  shows "\<exists>prices ds. planned c m w (ledger st) = Inr (prices, ds) \<and>
    map row_key (decisions st') = map row_key (decisions st) @ map decision_key ds \<and>
    filter unfilled (decisions st') = filter unfilled (decisions st)"
proof -
  obtain prices ds st1 where p: "planned c m w (ledger st) = Inr (prices, ds)"
    and l: "trade_loop c ndiv cast (tw_uuid w) (tw_run_ts w) st 0 0 ds = ((st1, 0), None)"
    and d: "decisions st' = decisions st1"
    using run new by (auto simp: trade_once_def crash_code_def split: sum.splits prod.splits option.splits if_splits)
  have "unused (tw_uuid w) 0 st" using ids(2) by (simp add: unused_def)
  from trade_loop_unfilled [OF l this ids(1)]
  have "length (filter unfilled (decisions st')) = length (filter unfilled (decisions st))" by (simp add: d)
  moreover obtain rows where "decisions st' = decisions st @ rows"
    using trade_loop_adds [OF l] by (auto simp: adds_def d)
  ultimately have "filter unfilled (decisions st') = filter unfilled (decisions st)" by simp
  then show ?thesis using p trade_loop_complete [OF l] by (auto simp: d)
qed

end
