(* ===== verification/Ichimoku.thy ===== *)
theory Ichimoku
  imports MarketTime
begin

text \<open>
  The weekly Ichimoku signal of \<open>common/marketdata/ichimoku.py\<close>: daily bars to weekly bars,
  the lines and the cloud, and the signal of the last completed week.  Dates are ordinals, prices
  floats; \<open>None\<close> is a line that is not defined yet.
\<close>

section \<open>Weekly bars\<close>

record ohlc =
  k_day :: int
  k_open :: rat
  k_high :: rat
  k_low :: rat
  k_close :: rat
  k_volume :: "rat option"

type_synonym week_groups = "((int \<times> int) \<times> ohlc list) list"

definition week_groups :: "ohlc list \<Rightarrow> week_groups" where
  "week_groups daily = foldl (\<lambda>g r. append_at (isocalendar (k_day r)) r g) [] daily"

definition week_bar :: "ohlc list \<Rightarrow> ohlc" where
  "week_bar rows =
     \<lparr>k_day = k_day (last rows), k_open = k_open (hd rows), k_high = Max (set (map k_high rows)),
      k_low = Min (set (map k_low rows)), k_close = k_close (last rows),
      k_volume = Some (fsum (map (\<lambda>r. case k_volume r of None \<Rightarrow> 0 | Some v \<Rightarrow> v) rows))\<rparr>"

definition weekly_bars :: "ohlc list \<Rightarrow> int option \<Rightarrow> ohlc list" where
  "weekly_bars daily drop_week_of =
     map (\<lambda>(k, rows). week_bar rows)
       (filter (\<lambda>(k, rows). Some k \<noteq> map_option isocalendar drop_week_of) (week_groups daily))"

section \<open>The lines\<close>

definition middle :: "ohlc list \<Rightarrow> nat \<Rightarrow> nat \<Rightarrow> rat option" where
  "middle bars win i =
     (if i + 1 < win then None
      else
        let w = take win (drop (i + 1 - win) bars)
        in Some (fquo (fadd (Max (set (map k_high w))) (Min (set (map k_low w)))) 2))"

definition shifted :: "nat \<Rightarrow> (nat \<Rightarrow> rat option) \<Rightarrow> nat \<Rightarrow> rat option" where
  "shifted disp raw i = (if disp \<le> i then raw (i - disp) else None)"

definition raw_a :: "ohlc list \<Rightarrow> nat \<Rightarrow> nat \<Rightarrow> nat \<Rightarrow> rat option" where
  "raw_a bars tenkan kijun i =
     (case (middle bars tenkan i, middle bars kijun i) of
        (Some t, Some k) \<Rightarrow> Some (fquo (fadd t k) 2) | _ \<Rightarrow> None)"

record ichimoku_lines =
  l_tenkan :: "rat option list"
  l_kijun :: "rat option list"
  l_span_a :: "rat option list"
  l_span_b :: "rat option list"

definition ichimoku_lines_of :: "ohlc list \<Rightarrow> nat \<Rightarrow> nat \<Rightarrow> nat \<Rightarrow> nat \<Rightarrow> ichimoku_lines" where
  "ichimoku_lines_of bars tenkan kijun senkou_b disp =
     (let idx = [0..<length bars]
      in \<lparr>l_tenkan = map (middle bars tenkan) idx, l_kijun = map (middle bars kijun) idx,
          l_span_a = map (shifted disp (raw_a bars tenkan kijun)) idx,
          l_span_b = map (shifted disp (middle bars senkou_b)) idx\<rparr>)"

section \<open>The signal\<close>

datatype exit_rule = TkCross | CloudExit

record ichimoku_signal =
  i_close :: rat
  i_cloud_top :: rat
  i_cloud_bot :: rat
  i_tenkan :: rat
  i_kijun :: rat
  i_entry :: bool
  i_exit :: bool
  i_breakout :: rat

definition latest_signal ::
  "ohlc list \<Rightarrow> exit_rule \<Rightarrow> nat \<Rightarrow> nat \<Rightarrow> nat \<Rightarrow> nat \<Rightarrow> ichimoku_signal option" where
  "latest_signal bars rule tenkan kijun senkou_b disp =
     (let n = length bars
      in if n < 2 then None
         else
           let ls = ichimoku_lines_of bars tenkan kijun senkou_b disp; i = n - 1
           in (case (l_span_a ls ! i, l_span_b ls ! i, l_tenkan ls ! i, l_kijun ls ! i) of
                 (Some sa, Some sb, Some ten, Some kij) \<Rightarrow>
                   let close = k_close (bars ! i); top = max sa sb; bot = min sa sb;
                       prev_not_above =
                         (case (l_span_a ls ! (i - 1), l_span_b ls ! (i - 1)) of
                            (Some pa, Some pb) \<Rightarrow> k_close (bars ! (i - 1)) \<le> max pa pb
                          | _ \<Rightarrow> False)
                   in Some \<lparr>i_close = close, i_cloud_top = top, i_cloud_bot = bot, i_tenkan = ten,
                        i_kijun = kij, i_entry = (top < close \<and> kij < ten \<and> prev_not_above),
                        i_exit = (case rule of TkCross \<Rightarrow> ten < kij | CloudExit \<Rightarrow> close \<le> top),
                        i_breakout = (if top = 0 then 0 else fquo (fsub close top) top)\<rparr>
               | _ \<Rightarrow> None))"

section \<open>The signal looks at completed weeks only\<close>

lemma week_groups_snoc:
  "week_groups (xs @ [r]) = append_at (isocalendar (k_day r)) r (week_groups xs)"
  by (simp add: week_groups_def)

lemma filter_append_at:
  "filter (\<lambda>(k, v). P k) (append_at k x d) =
    (if P k then append_at k x (filter (\<lambda>(k, v). P k) d) else filter (\<lambda>(k, v). P k) d)"
proof -
  have u: "filter (\<lambda>(k, v). P k) (AList.update k y d) =
      (if P k then AList.update k y (filter (\<lambda>(k, v). P k) d) else filter (\<lambda>(k, v). P k) d)" for y
    by (induction d) auto
  moreover have "P k \<Longrightarrow> get_or (filter (\<lambda>(k, v). P k) d) k [] = get_or d k []"
    by (induction d) (auto simp: get_or_def)
  ultimately show ?thesis by (auto simp: append_at_def)
qed

lemma week_groups_filter:
  "filter (\<lambda>(k, rows). P k) (week_groups daily) = week_groups (filter (\<lambda>r. P (isocalendar (k_day r))) daily)"
proof (induction daily rule: rev_induct)
  case (snoc r xs)
  then show ?case by (simp add: week_groups_snoc filter_append_at)
qed (simp add: week_groups_def)

lemma weekly_bars_completed:
  "weekly_bars daily (Some today) =
    weekly_bars (filter (\<lambda>r. isocalendar (k_day r) \<noteq> isocalendar today) daily) None"
proof -
  have "filter (\<lambda>(k, rows). Some k \<noteq> map_option isocalendar (Some today)) (week_groups daily) =
      week_groups (filter (\<lambda>r. isocalendar (k_day r) \<noteq> isocalendar today) daily)"
    using week_groups_filter [of "\<lambda>k. k \<noteq> isocalendar today" daily] by simp
  then show ?thesis by (simp add: weekly_bars_def case_prod_beta)
qed

section \<open>An entry is an event\<close>

text \<open>A line at a week does not depend on later weeks.\<close>

lemma middle_prefix:
  assumes "i < length bars" "0 < win"
  shows "middle (bars @ later) win i = middle bars win i"
proof (cases "i + 1 < win")
  case False
  then have "take win (drop (i + 1 - win) (bars @ later)) = take win (drop (i + 1 - win) bars)"
    using assms by simp
  then show ?thesis by (simp only: middle_def False if_False Let_def)
qed (simp add: middle_def)

lemma lines_prefix:
  assumes "i < length bars" "0 < tenkan" "0 < kijun" "0 < senkou_b"
  shows "l_span_a (ichimoku_lines_of (bars @ later) tenkan kijun senkou_b disp) ! i
      = l_span_a (ichimoku_lines_of bars tenkan kijun senkou_b disp) ! i"
    and "l_span_b (ichimoku_lines_of (bars @ later) tenkan kijun senkou_b disp) ! i
      = l_span_b (ichimoku_lines_of bars tenkan kijun senkou_b disp) ! i"
  using assms
  by (auto simp: ichimoku_lines_of_def Let_def nth_append shifted_def raw_a_def middle_prefix simp del: upt_Suc)

lemma latest_signal_entryD:
  assumes "latest_signal bars rule t k b disp = Some s" "i_entry s" "n = length bars"
  obtains sa sb pa pb where "2 \<le> n"
    "l_span_a (ichimoku_lines_of bars t k b disp) ! (n - 1) = Some sa"
    "l_span_b (ichimoku_lines_of bars t k b disp) ! (n - 1) = Some sb"
    "max sa sb < k_close (bars ! (n - 1))"
    "l_span_a (ichimoku_lines_of bars t k b disp) ! (n - 2) = Some pa"
    "l_span_b (ichimoku_lines_of bars t k b disp) ! (n - 2) = Some pb"
    "k_close (bars ! (n - 2)) \<le> max pa pb"
proof -
  have "2 \<le> n" using assms(1,3) by (auto simp: latest_signal_def Let_def split: if_splits)
  moreover have "n - 1 - 1 = n - 2" by simp
  ultimately show thesis
    using assms that
    by (auto simp: latest_signal_def Let_def split: option.splits simp del: max_less_iff_conj)
qed

section \<open>Properties\<close>

text \<open>An entry is signalled in the week of the breakout only: whatever the windows and exit rules,
  after a week with an entry the next completed week has none, so a stock that stays above its cloud
  is not bought again and again.\<close>

lemma entry_is_an_event:
  assumes "latest_signal bars rule t k b disp = Some s" "i_entry s"
    and "latest_signal (bars @ [x]) rule' t k b disp = Some s'" "0 < t" "0 < k" "0 < b"
  shows "\<not> i_entry s'"
proof
  assume e: "i_entry s'"
  let ?i = "length bars - 1"
  obtain sa sb where 1: "2 \<le> length bars" "l_span_a (ichimoku_lines_of bars t k b disp) ! ?i = Some sa"
      "l_span_b (ichimoku_lines_of bars t k b disp) ! ?i = Some sb" "max sa sb < k_close (bars ! ?i)"
    using latest_signal_entryD [OF assms(1,2) refl] by metis
  have n: "length (bars @ [x]) - 2 = ?i" by simp
  obtain pa pb where 2: "l_span_a (ichimoku_lines_of (bars @ [x]) t k b disp) ! ?i = Some pa"
      "l_span_b (ichimoku_lines_of (bars @ [x]) t k b disp) ! ?i = Some pb"
      "k_close ((bars @ [x]) ! ?i) \<le> max pa pb"
    using latest_signal_entryD [OF assms(3) e refl] unfolding n by metis
  have i: "?i < length bars" using 1(1) by linarith
  have "sa = pa" "sb = pb" "(bars @ [x]) ! ?i = bars ! ?i"
    using lines_prefix [OF i assms(4,5,6), of "[x]" disp] 1 2 i by (simp_all add: nth_append)
  then show False using 1(4) 2(3) by (auto simp: max_def split: if_splits)
qed

definition demo_week :: "int \<Rightarrow> rat \<Rightarrow> ohlc" where
  "demo_week d c = \<lparr>k_day = d, k_open = c, k_high = c + 1, k_low = c - 3, k_close = c, k_volume = None\<rparr>"

definition demo_weeks :: "ohlc list" where
  "demo_weeks = [demo_week 1 20, demo_week 8 10, demo_week 15 30]"

lemma demo_signals:
  "(case latest_signal demo_weeks TkCross 1 2 1 0 of None \<Rightarrow> False | Some s \<Rightarrow> i_entry s) \<and>
   (case latest_signal (demo_weeks @ [demo_week 22 40]) TkCross 1 2 1 0 of None \<Rightarrow> False | Some s \<Rightarrow> i_cloud_top s < i_close s)"
  by (simp add: latest_signal_def ichimoku_lines_of_def Let_def demo_weeks_def demo_week_def middle_def shifted_def
      raw_a_def fquo_def fadd_def fl_lit)

end
