(* ===== verification/PaperTrade.thy ===== *)
theory PaperTrade
  imports Ichimoku Ledger Equity "HOL-Library.Multiset" "HOL-Library.List_Lexorder" "HOL-Library.Char_ord"
begin

text \<open>
  The weekly paper strategy \<open>trading/strategy/runners/kr_ichimoku_trade_once.py\<close>: weekly
  signals, the plan of sales and purchases, their simulated fills on the ledger, the weekly marker
  and the exit code.

  What a run reads from outside (date, refresh of the candles, candle history, latest closes,
  \<open>uuid4\<close>, success of the notification) is the record \<open>paper_world\<close>.  Closes and signals are
  floats, cash is \<open>Decimal\<close>.  Charts and the texts of notifications are not modelled, nor is the
  refresh of the held symbols on a skipped day, which only fills the candle table.
\<close>

section \<open>Signals and prices\<close>

definition MARKET_KEY :: string where "MARKET_KEY = ''KR_ICHIMOKU''"
definition PAPER_ACCOUNT :: string where "PAPER_ACCOUNT = ''kr_ichimoku''"
definition PAPER_STALE_DAYS :: int where "PAPER_STALE_DAYS = 7"
definition STALE_HOLD_DAYS :: int where "STALE_HOLD_DAYS = 14"

definition BUY_COST :: "settings \<Rightarrow> rat" where
  "BUY_COST c = dadd 1 (FEE_RATE c)"

definition SELL_KEEP :: "settings \<Rightarrow> rat" where
  "SELL_KEEP c = dsub 1 (dadd (FEE_RATE c) (STOCK_SELL_TAX_RATE c))"

type_synonym signals = "(string \<times> ichimoku_signal) list"

definition build_signals :: "(string \<times> ohlc list) list \<Rightarrow> int \<Rightarrow> exit_rule \<Rightarrow> signals" where
  "build_signals hist today rule =
     concat (map (\<lambda>(s, rows). case latest_signal (weekly_bars rows (Some today)) rule 9 26 52 26 of
                                None \<Rightarrow> [] | Some g \<Rightarrow> [(s, g)]) hist)"

text \<open>The price of an execution: the latest daily close, else the close of the signal; \<open>None\<close> also
  stands for a close of 0, which the code treats as missing.\<close>

definition fill_px :: "(string \<times> rat) list \<Rightarrow> signals \<Rightarrow> string \<Rightarrow> rat option" where
  "fill_px closes sigs s =
     (let p = get_or closes s 0
      in if 0 < p then Some (fl p)
         else case map_of sigs s of
                None \<Rightarrow> None
              | Some g \<Rightarrow> if i_close g = 0 then None else Some (fl (i_close g)))"

section \<open>The plan\<close>

type_synonym paper_order = "string \<times> int \<times> rat"

record paper_plan =
  pp_sells :: "paper_order list"
  pp_buys :: "paper_order list"
  pp_keep :: "(string \<times> int) list"
  pp_targets :: "string list"

text \<open>Whether a holding is to be sold, as far as signals and age of its last bar say.\<close>

definition leaves :: "signals \<Rightarrow> (string \<times> int) list \<Rightarrow> int \<Rightarrow> string \<Rightarrow> bool" where
  "leaves sigs last_bar today s \<longleftrightarrow>
     (case map_of sigs s of None \<Rightarrow> True | Some g \<Rightarrow> i_exit g) \<or>
     (case map_of last_bar s of None \<Rightarrow> True | Some d \<Rightarrow> STALE_HOLD_DAYS < today - d)"

definition plan_sells ::
  "signals \<Rightarrow> (string \<times> rat) list \<Rightarrow> (string \<times> int) list \<Rightarrow> int \<Rightarrow> (string \<times> int) list \<Rightarrow> paper_order list" where
  "plan_sells sigs closes last_bar today held =
     concat (map (\<lambda>(s, q). case fill_px closes sigs s of
         Some p \<Rightarrow> if leaves sigs last_bar today s then [(s, q, p)] else []
       | None \<Rightarrow> []) held)"

definition plan_keep ::
  "signals \<Rightarrow> (string \<times> rat) list \<Rightarrow> (string \<times> int) list \<Rightarrow> int \<Rightarrow> (string \<times> int) list \<Rightarrow> (string \<times> int) list" where
  "plan_keep sigs closes last_bar today held =
     filter (\<lambda>(s, q). \<not> (leaves sigs last_bar today s \<and> fill_px closes sigs s \<noteq> None)) held"

text \<open>\<open>sorted(..., key=(-breakout_pct, symbol))\<close>: a stable sort by each component.\<close>

definition candidates :: "signals \<Rightarrow> string list \<Rightarrow> string list" where
  "candidates sigs out =
     map fst (sort_key (\<lambda>(s, g). - i_breakout g) (sort_key fst
       (filter (\<lambda>(s, g). i_entry g \<and> s \<notin> set out) sigs)))"

text \<open>The loop over the candidates with \<open>slots\<close> free and \<open>remaining\<close> cash.\<close>

fun pick_buys ::
  "settings \<Rightarrow> (string \<times> rat) list \<Rightarrow> signals \<Rightarrow> rat \<Rightarrow> int \<Rightarrow> rat \<Rightarrow> string list \<Rightarrow> paper_order list res" where
  "pick_buys c closes sigs per_name slots remaining [] = Inr []"
| "pick_buys c closes sigs per_name slots remaining (s # ss) =
     (if slots \<le> 0 then Inr []
      else case fill_px closes sigs s of
             None \<Rightarrow> pick_buys c closes sigs per_name slots remaining ss
           | Some p \<Rightarrow>
               rbind (ddiv (min per_name remaining) (dmul (frepr p) (BUY_COST c))) (\<lambda>x.
                 let q = rdown x
                 in if q < 1 then pick_buys c closes sigs per_name slots remaining ss
                    else rbind (pick_buys c closes sigs per_name (slots - 1)
                                 (dsub remaining (dmul (dmul (of_int q) (frepr p)) (BUY_COST c))) ss)
                           (\<lambda>os. Inr ((s, q, p) # os))))"

definition plan_trades ::
  "settings \<Rightarrow> signals \<Rightarrow> (string \<times> int) list \<Rightarrow> rat \<Rightarrow> (string \<times> rat) list \<Rightarrow> (string \<times> int) list \<Rightarrow> int \<Rightarrow> int
   \<Rightarrow> paper_plan res" where
  "plan_trades c sigs held cash closes last_bar today max_positions =
     (let sells = plan_sells sigs closes last_bar today held;
          keep = plan_keep sigs closes last_bar today held;
          avail = dadd cash (dsum 0 (map (\<lambda>(s, q, p). dmul (dmul (of_int q) (frepr p)) (SELL_KEEP c)) sells));
          kept_val = dsum 0 (map (\<lambda>(s, q). dmul (of_int q) (frepr (get_or closes s 0))) keep);
          free = max_positions - int (length keep);
          cands = candidates sigs (map fst keep @ map fst sells)
      in rbind (ddiv (dadd avail kept_val) (of_int (max 1 max_positions))) (\<lambda>per_name.
         rbind (pick_buys c closes sigs per_name free avail cands) (\<lambda>buys.
           Inr \<lparr>pp_sells = sells, pp_buys = buys, pp_keep = keep, pp_targets = cands\<rparr>)))"

section \<open>Execution\<close>

record paper_world =
  pw_today :: int
  pw_refresh :: "unit res"
  pw_history :: "(string \<times> ohlc list) list res"
  pw_closes :: "string list \<Rightarrow> (string \<times> rat) list res"
  pw_uuid :: "nat \<Rightarrow> string"
  pw_end :: int
  pw_sent :: bool

record paper_db =
  pd_ledger :: db
  pd_weeks :: weeks
  pd_snapshots :: snapshots

record paper_fill =
  pf_symbol :: string
  pf_side :: side
  pf_qty :: int
  pf_outcome :: outcome

text \<open>The loop over the sales and then the purchases, one transaction each.\<close>

fun fill_orders ::
  "settings \<Rightarrow> (rat \<Rightarrow> rat \<Rightarrow> rat) \<Rightarrow> (nat \<Rightarrow> string) \<Rightarrow> nat \<Rightarrow> db \<Rightarrow> (side \<times> paper_order) list \<Rightarrow> db \<times> paper_fill list \<times> exc option" where
  "fill_orders c ndiv uuid n db [] = (db, [], None)"
| "fill_orders c ndiv uuid n db ((sd, s, q, p) # os) =
     (case simulate_fill c ndiv db (uuid (2 * n)) (uuid (2 * n + 1)) PAPER_ACCOUNT s sd q (frepr p) of
        Inl e \<Rightarrow> (db, [], Some e)
      | Inr (db', r) \<Rightarrow>
          (case fill_orders c ndiv uuid (Suc n) db' os of
             (db'', fs, e) \<Rightarrow> (db'', \<lparr>pf_symbol = s, pf_side = sd, pf_qty = q, pf_outcome = r\<rparr> # fs, e)))"

definition last_bars :: "(string \<times> ohlc list) list \<Rightarrow> (string \<times> int) list" where
  "last_bars hist = map (\<lambda>(s, rows). (s, k_day (last rows))) (filter (\<lambda>(s, rows). rows \<noteq> []) hist)"

datatype skip = WeekDone | Holiday

datatype paper_result = Skipped skip | Traded paper_plan "paper_fill list"

text \<open>\<open>latest_closes\<close> asks for nothing if there is no symbol.\<close>

definition latest_closes :: "paper_world \<Rightarrow> string list \<Rightarrow> (string \<times> rat) list res" where
  "latest_closes w symbols = (if symbols = [] then Inr [] else pw_closes w symbols)"

text \<open>Everything before the fills: guards, freshness, signals and plan.\<close>

definition paper_skip :: "paper_db \<Rightarrow> int \<Rightarrow> skip option" where
  "paper_skip st today =
     (if week_done (pd_weeks st) MARKET_KEY today then Some WeekDone
      else if is_market_holiday ''KR'' today then Some Holiday else None)"

definition paper_plan_of ::
  "settings \<Rightarrow> paper_world \<Rightarrow> db \<Rightarrow> int \<Rightarrow> exit_rule \<Rightarrow> paper_plan res" where
  "paper_plan_of c w db max_positions rule =
     rbind (pw_refresh w) (\<lambda>_.
     rbind (pw_history w) (\<lambda>hist.
       let lb = last_bars hist; today = pw_today w
       in if lb = [] then Inl (RuntimeError ''no daily candles'')
          else if PAPER_STALE_DAYS < today - Max (set (map snd lb)) then Inl (RuntimeError ''stale daily candles'')
          else
            let sigs = build_signals hist today rule;
                held = paper_positions db PAPER_ACCOUNT; cash = cash_of db PAPER_ACCOUNT;
                relevant = remdups (map fst held @ map fst (filter (\<lambda>(s, g). i_entry g) sigs))
            in rbind (latest_closes w relevant) (\<lambda>closes.
                 plan_trades c sigs held cash closes lb today max_positions)))"

definition paper_execute ::
  "settings \<Rightarrow> (rat \<Rightarrow> rat \<Rightarrow> rat) \<Rightarrow> bool \<Rightarrow> int \<Rightarrow> exit_rule \<Rightarrow> paper_world \<Rightarrow> paper_db \<Rightarrow> paper_db \<times> paper_result res" where
  "paper_execute c ndiv live max_positions rule w st =
     (case paper_skip st (pw_today w) of
        Some why \<Rightarrow> (st, Inr (Skipped why))
      | None \<Rightarrow>
          (case paper_plan_of c w (pd_ledger st) max_positions rule of
             Inl e \<Rightarrow> (st, Inl e)
           | Inr p \<Rightarrow>
               if \<not> live then (st, Inr (Traded p []))
               else case fill_orders c ndiv (pw_uuid w) 0 (pd_ledger st)
                           (map (Pair SELL) (pp_sells p) @ map (Pair BUY) (pp_buys p)) of
                      (db', fs, Some e) \<Rightarrow> (st\<lparr>pd_ledger := db'\<rparr>, Inl e)
                    | (db', fs, None) \<Rightarrow>
                        (st\<lparr>pd_ledger := db', pd_weeks := mark_week_done (pd_weeks st) MARKET_KEY (pw_today w)\<rparr>,
                         Inr (Traded p fs))))"

definition paper_snapshot :: "paper_world \<Rightarrow> paper_db \<Rightarrow> paper_db \<times> exc option" where
  "paper_snapshot w st =
     (let held = paper_positions (pd_ledger st) PAPER_ACCOUNT; cash = cash_of (pd_ledger st) PAPER_ACCOUNT
      in case latest_closes w (map fst held) of
           Inl e \<Rightarrow> (st, Some e)
         | Inr closes \<Rightarrow>
             let v = dsum 0 (map (\<lambda>(s, q). dmul (of_int q) (frepr (get_or closes s 0))) held)
             in (st\<lparr>pd_snapshots := fst (record_snapshot (pd_snapshots st) (pw_end w) ''KR'' PAPER_ACCOUNT ''KRW''
                      (dadd cash v) (Some cash) (Some v))\<rparr>, None))"

text \<open>\<open>main\<close>: the exit code is 0, or 70 or 1 after an exception.\<close>

definition paper_main ::
  "settings \<Rightarrow> (rat \<Rightarrow> rat \<Rightarrow> rat) \<Rightarrow> bool \<Rightarrow> int \<Rightarrow> exit_rule \<Rightarrow> paper_world \<Rightarrow> paper_db \<Rightarrow> paper_db \<times> int" where
  "paper_main c ndiv live max_positions rule w st =
     (case paper_execute c ndiv live max_positions rule w st of
        (st', Inl e) \<Rightarrow> (st', if pw_sent w then 70 else 1)
      | (st', Inr r) \<Rightarrow>
          if live then (case paper_snapshot w st' of
                          (st'', None) \<Rightarrow> (st'', 0) | (st'', Some e) \<Rightarrow> (st'', if pw_sent w then 70 else 1))
          else (st', 0))"

section \<open>The plan is sound\<close>

lemma sells_and_keep:
  "mset (map (\<lambda>(s, q, p). (s, q)) (plan_sells sigs closes lb today held)) + mset (plan_keep sigs closes lb today held)
    = mset held"
  by (induction held) (auto simp: plan_sells_def plan_keep_def split: option.splits)

lemma sells_or_keep:
  "set (map fst (plan_keep sigs closes lb today held)) \<union> set (map fst (plan_sells sigs closes lb today held))
    = set (keys_of held)"
proof -
  have "set (map fst (plan_sells sigs closes lb today held)) =
      {s \<in> set (keys_of held). leaves sigs lb today s \<and> fill_px closes sigs s \<noteq> None}"
    by (induction held) (auto simp: plan_sells_def split: option.splits)
  moreover have "set (map fst (plan_keep sigs closes lb today held)) =
      {s \<in> set (keys_of held). \<not> (leaves sigs lb today s \<and> fill_px closes sigs s \<noteq> None)}"
    by (auto simp: plan_keep_def)
  ultimately show ?thesis by blast
qed

lemma candidates_set:
  "set (candidates sigs out) = {s. \<exists>g. (s, g) \<in> set sigs \<and> i_entry g \<and> s \<notin> set out}"
  by (force simp: candidates_def)

lemma candidates_distinct:
  assumes "distinct (keys_of sigs)" shows "distinct (candidates sigs out)"
proof -
  have "mset (candidates sigs out) = mset (map fst (filter (\<lambda>(s, g). i_entry g \<and> s \<notin> set out) sigs))"
    by (simp add: candidates_def)
  then show ?thesis using distinct_map_filter [OF assms] by (metis mset_eq_imp_distinct_iff)
qed

lemma pick_buysD:
  assumes "pick_buys c closes sigs per_name slots remaining ss = Inr os" "distinct ss"
  shows "set (map fst os) \<subseteq> set ss \<and> distinct (map fst os) \<and> list_all (\<lambda>(s, q, p). 1 \<le> q) os \<and>
    int (length os) \<le> max 0 slots"
  using assms
proof (induction c closes sigs per_name slots remaining ss arbitrary: os rule: pick_buys.induct)
  case (2 c closes sigs per_name slots remaining s ss)
  show ?case
  proof (cases "slots \<le> 0 \<or> fill_px closes sigs s = None")
    case True
    then show ?thesis using 2 by (auto split: if_splits)
  next
    case False
    then obtain p x where p: "\<not> slots \<le> 0" "fill_px closes sigs s = Some p"
        "ddiv (min per_name remaining) (dmul (frepr p) (BUY_COST c)) = Inr x"
      using "2.prems"(1) by auto
    show ?thesis
    proof (cases "rdown x < 1")
      case True
      then have "pick_buys c closes sigs per_name slots remaining ss = Inr os"
        using "2.prems"(1) p by (simp add: Let_def)
      from "2.IH"(2) [OF p refl True this] "2.prems"(2) show ?thesis by auto
    next
      case q: False
      then obtain os' where o: "os = (s, rdown x, p) # os'"
          "pick_buys c closes sigs per_name (slots - 1) (dsub remaining (dmul (dmul (of_int (rdown x)) (frepr p)) (BUY_COST c))) ss = Inr os'"
        using "2.prems"(1) p by (auto simp: Let_def)
      from "2.IH"(3) [OF p refl q o(2)] "2.prems"(2) show ?thesis
        using o(1) p(1) q by auto
    qed
  qed
qed simp

section \<open>Properties\<close>

text \<open>The plan is sound: every holding is either kept or sold with its whole quantity, purchases are at
  least one share of different symbols that signal an entry and are not held, and holdings and purchases
  together do not exceed the maximal number of positions (unless more are already held and kept).\<close>

lemma paper_plan_sound:
  assumes "plan_trades c sigs held cash closes lb today max_positions = Inr p" "distinct (keys_of sigs)"
  shows "mset (map (\<lambda>(s, q, x). (s, q)) (pp_sells p)) + mset (pp_keep p) = mset held \<and>
    distinct (map fst (pp_buys p)) \<and>
    list_all (\<lambda>(s, q, x). 1 \<le> q \<and> s \<notin> set (keys_of held) \<and> (\<exists>g. (s, g) \<in> set sigs \<and> i_entry g)) (pp_buys p) \<and>
    int (length (pp_keep p) + length (pp_buys p)) \<le> max max_positions (int (length (pp_keep p)))"
proof -
  let ?sells = "plan_sells sigs closes lb today held" and ?keep = "plan_keep sigs closes lb today held"
  let ?cands = "candidates sigs (map fst ?keep @ map fst ?sells)"
  obtain per_name avail where p: "pp_sells p = ?sells" "pp_keep p = ?keep"
    "pick_buys c closes sigs per_name (max_positions - int (length ?keep)) avail ?cands = Inr (pp_buys p)"
    using assms(1) by (auto simp: plan_trades_def Let_def)
  note b = pick_buysD [OF p(3) candidates_distinct [OF assms(2)]]
  have cand: "s \<notin> set (keys_of held) \<and> (\<exists>g. (s, g) \<in> set sigs \<and> i_entry g)" if "s \<in> set ?cands" for s
    using that unfolding candidates_set sells_or_keep [of sigs closes lb today held, symmetric] by auto
  have "1 \<le> q \<and> s \<notin> set (keys_of held) \<and> (\<exists>g. (s, g) \<in> set sigs \<and> i_entry g)" if "(s, q, x) \<in> set (pp_buys p)" for s q x
  proof -
    have "s \<in> set (map fst (pp_buys p))" using that by force
    then have "s \<in> set ?cands" using b by blast
    moreover have "1 \<le> q" using b that by (auto simp: list_all_iff)
    ultimately show ?thesis using cand by blast
  qed
  then have "list_all (\<lambda>(s, q, x). 1 \<le> q \<and> s \<notin> set (keys_of held) \<and> (\<exists>g. (s, g) \<in> set sigs \<and> i_entry g)) (pp_buys p)"
    by (auto simp: list_all_iff)
  moreover have "int (length (pp_keep p) + length (pp_buys p)) \<le> max max_positions (int (length (pp_keep p)))"
    using b unfolding p(2) by linarith
  ultimately show ?thesis
    using b sells_and_keep [of sigs closes lb today held] unfolding p(1,2) by blast
qed

definition demo_entry :: "rat \<Rightarrow> bool \<Rightarrow> ichimoku_signal" where
  "demo_entry b e = \<lparr>i_close = 100, i_cloud_top = 90, i_cloud_bot = 80, i_tenkan = 95, i_kijun = 91,
     i_entry = e, i_exit = \<not> e, i_breakout = b\<rparr>"

lemma demo_plan:
  "(case plan_trades default_settings [(''a'', demo_entry 0 False), (''b'', demo_entry (1 / 8) True), (''c'', demo_entry (1 / 4) True)]
      [(''a'', 3)] 1000 [] [(''a'', 10)] 12 1 of
      Inl e \<Rightarrow> False
    | Inr p \<Rightarrow> pp_sells p = [(''a'', 3, 100)] \<and> pp_buys p = [(''c'', 12, 100)])"
proof -
  let ?sigs = "[(''a'', demo_entry 0 False), (''b'', demo_entry (1 / 8) True), (''c'', demo_entry (1 / 4) True)]"
  have e: "i_close (demo_entry b g) = 100" "i_exit (demo_entry b g) = (\<not> g)" "i_entry (demo_entry b g) = g"
      "i_breakout (demo_entry b g) = b" for b g
    by (simp_all add: demo_entry_def)
  have px: "fill_px [] ?sigs ''a'' = Some 100" "fill_px [] ?sigs ''b'' = Some 100" "fill_px [] ?sigs ''c'' = Some 100"
    by (simp_all add: fill_px_def e fl_lit)
  have sells: "plan_sells ?sigs [] [(''a'', 10)] 12 [(''a'', 3)] = [(''a'', 3, 100)]"
    "plan_keep ?sigs [] [(''a'', 10)] 12 [(''a'', 3)] = []"
    by (simp_all add: plan_sells_def plan_keep_def px leaves_def e)
  have cands: "candidates ?sigs [''a''] = [''c'', ''b'']" by (simp add: candidates_def e)
  have f: "frepr 100 = (100 :: rat)" "BUY_COST default_settings = 10005 / 10000" "SELL_KEEP default_settings = 9975 / 10000"
    "rdown (dec (25985 / 2001)) = 12"
    by code_simp+
  show ?thesis
    by (simp add: plan_trades_def sells cands px f dsum_def dmul_def dadd_def dsub_def ddiv_def dec_lit Let_def)
qed

text \<open>The paper account trades at most once a week: after a live run that returned, no later run on a
  day of the same ISO week, whatever it reads, changes the ledger.\<close>

lemma paper_trades_once_a_week:
  assumes "paper_execute c ndiv True max_positions rule w st = (st1, Inr r)" "r \<noteq> Skipped Holiday"
    and "iso_week (pw_today w') = iso_week (pw_today w)"
  shows "pd_ledger (fst (paper_main c ndiv live max_positions' rule' w' st1)) = pd_ledger st1"
proof -
  have "week_done (pd_weeks st1) MARKET_KEY (pw_today w)"
    using assms(1,2)
    by (auto simp: paper_execute_def paper_skip_def week_done_def mark_week_done_def split: option.splits if_splits sum.splits prod.splits)
  then have "paper_execute c ndiv live max_positions' rule' w' st1 = (st1, Inr (Skipped WeekDone))"
    using assms(3) by (simp add: paper_execute_def paper_skip_def week_done_def)
  then show ?thesis by (simp add: paper_main_def paper_snapshot_def Let_def split: sum.split)
qed

end
