(* ===== verification/Kis.thy ===== *)
theory Kis
  imports Equity MarketTime
begin

text \<open>
  The broker client: \<open>common/http_client.py\<close> and, under \<open>common/broker\<close>, \<open>kis_account.py\<close>,
  \<open>kis_order.py\<close>, \<open>kis_cancel.py\<close>, \<open>kis_balance.py\<close>, \<open>kis_domestic_price.py\<close> and
  \<open>kis_overseas_price.py\<close>.

  Everything outside the program (the servers, the access token, sleeping, the rate limiter that
  delays a request) acts on a world of type \<open>'w\<close> through the record \<open>http\<close>, an argument of the
  definitions.  A reply carries the status and the body, \<open>None\<close> if it is not JSON; a lost
  connection is \<open>NoReply\<close>.  A number sent as text is the number itself (\<open>JInt\<close>, \<open>JFloat\<close>).
\<close>

section \<open>JSON and replies\<close>

datatype json = JNull | JStr string | JInt int | JFloat rat | JObj "(string \<times> json) list" | JList "json list"

fun jget :: "json \<Rightarrow> string \<Rightarrow> json" where
  "jget (JObj d) k = (case map_of d k of None \<Rightarrow> JNull | Some v \<Rightarrow> v)"
| "jget _ k = JNull"

fun truthy :: "json \<Rightarrow> bool" where
  "truthy JNull = False"
| "truthy (JStr s) = (s \<noteq> '''')"
| "truthy (JInt n) = (n \<noteq> 0)"
| "truthy (JFloat x) = (x \<noteq> 0)"
| "truthy (JObj d) = (d \<noteq> [])"
| "truthy (JList xs) = (xs \<noteq> [])"

definition j_or :: "json \<Rightarrow> json \<Rightarrow> json" where
  "j_or a b = (if truthy a then a else b)"

fun string_of :: "json \<Rightarrow> string" where
  "string_of (JStr s) = s"
| "string_of _ = ''''"

text \<open>\<open>str(x) == "0"\<close>.\<close>

definition is_zero :: "json \<Rightarrow> bool" where
  "is_zero v \<longleftrightarrow> v = JStr ''0'' \<or> v = JInt 0"

text \<open>\<open>float(text)\<close> on plain decimal numbers with an optional sign, fraction and surrounding blanks.\<close>

definition is_digit :: "char \<Rightarrow> bool" where
  "is_digit ch \<longleftrightarrow> ch \<in> set ''0123456789''"

definition is_space :: "char \<Rightarrow> bool" where
  "is_space ch \<longleftrightarrow> ch \<in> {CHR '' '', CHR 0x09, CHR 0x0A, CHR 0x0B, CHR 0x0C, CHR 0x0D}"

definition strip :: "string \<Rightarrow> string" where
  "strip s = rev (dropWhile is_space (rev (dropWhile is_space s)))"

definition parse_unsigned :: "string \<Rightarrow> rat option" where
  "parse_unsigned s =
     (let whole = takeWhile is_digit s; rest = dropWhile is_digit s;
          frac_part = (case rest of [] \<Rightarrow> '''' | ch # ds \<Rightarrow> ds)
      in if (rest = [] \<or> hd rest = CHR ''.'') \<and> list_all is_digit frac_part \<and> whole @ frac_part \<noteq> []
         then Some (of_nat (atoi (whole @ frac_part)) / 10 ^ length frac_part)
         else None)"

definition parse_float :: "string \<Rightarrow> rat option" where
  "parse_float t =
     (case strip t of
        [] \<Rightarrow> None
      | ch # s \<Rightarrow>
          if ch = CHR ''-'' then map_option (\<lambda>x. fl (- x)) (parse_unsigned s)
          else if ch = CHR ''+'' then map_option fl (parse_unsigned s)
          else map_option fl (parse_unsigned (ch # s)))"

definition to_float :: "json \<Rightarrow> rat" where
  "to_float v =
     (case v of
        JInt n \<Rightarrow> fl (of_int n)
      | JFloat x \<Rightarrow> x
      | JStr s \<Rightarrow> (case parse_float (filter (\<lambda>ch. ch \<noteq> CHR '','') s) of None \<Rightarrow> 0 | Some x \<Rightarrow> x)
      | _ \<Rightarrow> 0)"

datatype reply = NoReply | Reply int "json option"

type_synonym params = "(string \<times> json) list"

record 'w http =
  h_get :: "string \<Rightarrow> params \<Rightarrow> 'w \<Rightarrow> reply \<times> 'w"
  h_post :: "string \<Rightarrow> params \<Rightarrow> 'w \<Rightarrow> reply \<times> 'w"
  h_token :: "'w \<Rightarrow> unit res \<times> 'w"
  h_sleep :: "rat \<Rightarrow> 'w \<Rightarrow> 'w"

type_synonym ('w, 'a) io = "'w \<Rightarrow> 'a res \<times> 'w"

definition ret :: "'a \<Rightarrow> ('w, 'a) io" where
  "ret x w = (Inr x, w)"

definition fail_with :: "exc \<Rightarrow> ('w, 'a) io" where
  "fail_with e w = (Inl e, w)"

definition bind :: "('w, 'a) io \<Rightarrow> ('a \<Rightarrow> ('w, 'b) io) \<Rightarrow> ('w, 'b) io" where
  "bind m f w = (case m w of (Inl e, w') \<Rightarrow> (Inl e, w') | (Inr x, w') \<Rightarrow> f x w')"

section \<open>\<open>get_json\<close>\<close>

definition HTTP_MAX_RETRIES :: nat where "HTTP_MAX_RETRIES = 6"
definition HTTP_MAX_BACKOFF :: rat where "HTTP_MAX_BACKOFF = 30"

definition backoff :: "nat \<Rightarrow> rat" where
  "backoff attempt = min (2 ^ attempt) HTTP_MAX_BACKOFF"

text \<open>\<open>raise_for_status\<close> and \<open>json\<close> of a reply that is not retried.\<close>

definition read_reply :: "int \<Rightarrow> json option \<Rightarrow> json res" where
  "read_reply status body =
     (if \<not> (200 \<le> status \<and> status < 300) then Inl (HTTPStatusError status)
      else case body of None \<Rightarrow> Inl (ValueError ''json'') | Some b \<Rightarrow> Inr b)"

fun get_attempts :: "'w http \<Rightarrow> string \<Rightarrow> params \<Rightarrow> nat \<Rightarrow> nat \<Rightarrow> ('w, json) io" where
  "get_attempts h url ps attempt 0 w = (Inl (RuntimeError ''GET''), w)"
| "get_attempts h url ps attempt (Suc left) w =
     (case h_get h url ps w of
        (NoReply, w') \<Rightarrow> get_attempts h url ps (Suc attempt) left (h_sleep h (backoff attempt) w')
      | (Reply status body, w') \<Rightarrow>
          if status = 429 \<or> 500 \<le> status
          then get_attempts h url ps (Suc attempt) left (h_sleep h (backoff attempt) w')
          else (read_reply status body, w'))"

definition get_json :: "'w http \<Rightarrow> string \<Rightarrow> params \<Rightarrow> ('w, json) io" where
  "get_json h url ps = get_attempts h url ps 0 HTTP_MAX_RETRIES"

section \<open>Accounts and balances\<close>

definition tr :: "settings \<Rightarrow> string \<Rightarrow> string" where
  "tr c real_id = (if KIS_MOCK c then ''V'' @ tl real_id else real_id)"

definition split_account :: "string \<Rightarrow> string \<times> string" where
  "split_account account_no =
     (let raw = strip account_no; or01 = (\<lambda>s. if s = '''' then ''01'' else s)
      in if CHR ''-'' \<in> set raw
         then (takeWhile (\<lambda>ch. ch \<noteq> CHR ''-'') raw, or01 (tl (dropWhile (\<lambda>ch. ch \<noteq> CHR ''-'') raw)))
         else (take 8 raw, or01 (take 2 (drop 8 raw))))"

definition account_params :: "string \<Rightarrow> params" where
  "account_params account_no =
     (let (cano, prdt) = split_account account_no in [(''CANO'', JStr cano), (''ACNT_PRDT_CD'', JStr prdt)])"

text \<open>\<open>_get\<close>: the token is needed for the headers; the reply must have \<open>rt_cd\<close> 0.\<close>

definition kis_get :: "'w http \<Rightarrow> string \<Rightarrow> params \<Rightarrow> ('w, json) io" where
  "kis_get h path ps =
     bind (h_token h) (\<lambda>_.
     bind (get_json h path ps) (\<lambda>body.
       if is_zero (jget body ''rt_cd'') then ret body else fail_with (RuntimeError ''KIS'')))"

fun items :: "json \<Rightarrow> json list" where
  "items (JList xs) = xs"
| "items _ = []"

definition account_summary :: "json \<Rightarrow> json" where
  "account_summary body =
     (case jget body ''output2'' of
        JList (x # xs) \<Rightarrow> x | JObj d \<Rightarrow> JObj d | _ \<Rightarrow> JObj [])"

definition fetch_domestic_balance :: "settings \<Rightarrow> 'w http \<Rightarrow> string \<Rightarrow> ('w, json list \<times> json) io" where
  "fetch_domestic_balance c h account_no =
     bind (kis_get h ''/uapi/domestic-stock/v1/trading/inquire-balance''
       (account_params account_no @
        [(''tr_id'', JStr (tr c ''TTTC8434R'')), (''AFHR_FLPR_YN'', JStr ''N''), (''OFL_YN'', JStr ''''),
         (''INQR_DVSN'', JStr ''02''), (''UNPR_DVSN'', JStr ''01''), (''FUND_STTL_ICLD_YN'', JStr ''N''),
         (''FNCG_AMT_AUTO_RDPT_YN'', JStr ''N''), (''PRCS_DVSN'', JStr ''01''),
         (''CTX_AREA_FK100'', JStr ''''), (''CTX_AREA_NK100'', JStr '''')])) (\<lambda>body.
       ret (items (jget body ''output1''), account_summary body))"

definition fetch_overseas_balance :: "settings \<Rightarrow> 'w http \<Rightarrow> string \<Rightarrow> string \<Rightarrow> ('w, json list \<times> json) io" where
  "fetch_overseas_balance c h account_no exchange =
     bind (kis_get h ''/uapi/overseas-stock/v1/trading/inquire-balance''
       (account_params account_no @
        [(''tr_id'', JStr (tr c ''TTTS3012R'')), (''OVRS_EXCG_CD'', JStr exchange), (''TR_CRCY_CD'', JStr ''USD''),
         (''CTX_AREA_FK200'', JStr ''''), (''CTX_AREA_NK200'', JStr '''')])) (\<lambda>body.
       ret (items (jget body ''output1''), account_summary body))"

definition kr_holding :: "json \<Rightarrow> holding" where
  "kr_holding p =
     \<lparr>h_symbol = string_of (jget p ''pdno''), h_qty = to_float (jget p ''hldg_qty''), h_avg = to_float (jget p ''pchs_avg_pric''),
      h_cur = to_float (jget p ''prpr''), h_eval = to_float (jget p ''evlu_amt''), h_pnl = to_float (jget p ''evlu_pfls_amt'')\<rparr>"

definition kr_balance :: "settings \<Rightarrow> 'w http \<Rightarrow> string \<Rightarrow> ('w, balance) io" where
  "kr_balance c h account_no =
     bind (fetch_domestic_balance c h account_no) (\<lambda>(pos, summ).
       ret \<lparr>bal_market = ''KR'', bal_currency = ''KRW'',
            bal_cash = to_float (j_or (jget summ ''prvs_rcdl_excc_amt'') (jget summ ''dnca_tot_amt'')),
            bal_positions = map kr_holding (filter (\<lambda>p. 0 < to_float (jget p ''hldg_qty'')) pos)\<rparr>)"

definition us_buyable_usd :: "settings \<Rightarrow> 'w http \<Rightarrow> string \<Rightarrow> ('w, rat) io" where
  "us_buyable_usd c h account_no =
     bind (kis_get h ''/uapi/overseas-stock/v1/trading/inquire-psamount''
       (account_params account_no @
        [(''tr_id'', JStr (tr c ''TTTS3007R'')), (''OVRS_EXCG_CD'', JStr ''NASD''), (''OVRS_ORD_UNPR'', JInt 1),
         (''ITEM_CD'', JStr ''AAPL'')])) (\<lambda>body.
       let out = jget body ''output''
       in ret (to_float (j_or (jget out ''ord_psbl_frcr_amt'') (jget out ''frcr_ord_psbl_amt1''))))"

definition us_holding :: "json \<Rightarrow> holding" where
  "us_holding p =
     \<lparr>h_symbol = string_of (jget p ''ovrs_pdno''), h_qty = to_float (jget p ''ovrs_cblc_qty''), h_avg = to_float (jget p ''pchs_avg_pric''),
      h_cur = to_float (jget p ''now_pric2''), h_eval = to_float (jget p ''ovrs_stck_evlu_amt''),
      h_pnl = to_float (jget p ''frcr_evlu_pfls_amt'')\<rparr>"

fun us_positions :: "settings \<Rightarrow> 'w http \<Rightarrow> string \<Rightarrow> string list \<Rightarrow> ('w, holding list) io" where
  "us_positions c h account_no [] w = ret [] w"
| "us_positions c h account_no (ex # exs) w =
     bind (fetch_overseas_balance c h account_no ex) (\<lambda>(pos, summ).
     bind (us_positions c h account_no exs) (\<lambda>rest.
       ret (map us_holding (filter (\<lambda>p. 0 < to_float (jget p ''ovrs_cblc_qty'')) pos) @ rest))) w"

definition us_balance :: "settings \<Rightarrow> 'w http \<Rightarrow> string \<Rightarrow> ('w, balance) io" where
  "us_balance c h account_no =
     bind (us_positions c h account_no [''NASD'', ''NYSE'', ''AMEX'']) (\<lambda>positions.
     bind (us_buyable_usd c h account_no) (\<lambda>cash.
       ret \<lparr>bal_market = ''US'', bal_currency = ''USD'', bal_cash = cash, bal_positions = positions\<rparr>))"

definition us_held_qty :: "settings \<Rightarrow> 'w http \<Rightarrow> string \<Rightarrow> string \<Rightarrow> string \<Rightarrow> ('w, rat) io" where
  "us_held_qty c h account_no symbol exchange =
     bind (fetch_overseas_balance c h account_no exchange) (\<lambda>(pos, summ).
       ret (case filter (\<lambda>p. jget p ''ovrs_pdno'' = JStr symbol) pos of
              [] \<Rightarrow> 0 | p # ps \<Rightarrow> to_float (jget p ''ovrs_cblc_qty'')))"

section \<open>Prices\<close>

definition price_of :: "json \<Rightarrow> string \<Rightarrow> rat option" where
  "price_of body field =
     (if is_zero (jget body ''rt_cd'')
      then let px = to_float (jget (jget body ''output'') field) in if 0 < px then Some px else None
      else None)"

definition current_price :: "'w http \<Rightarrow> string \<Rightarrow> 'w \<Rightarrow> rat option \<times> 'w" where
  "current_price h symbol w =
     (case bind (h_token h) (\<lambda>_. get_json h ''/uapi/domestic-stock/v1/quotations/inquire-price''
             [(''FID_COND_MRKT_DIV_CODE'', JStr ''J''), (''FID_INPUT_ISCD'', JStr symbol)]) w of
        (Inl e, w') \<Rightarrow> (None, w')
      | (Inr body, w') \<Rightarrow> (price_of body ''stck_prpr'', w'))"

fun price_on :: "'w http \<Rightarrow> string \<Rightarrow> (string \<times> string) list \<Rightarrow> 'w \<Rightarrow> (rat option \<times> string option) \<times> 'w" where
  "price_on h symbol [] w = ((None, None), w)"
| "price_on h symbol ((excd, order_cd) # exs) w =
     (case bind (h_token h) (\<lambda>_. get_json h ''/uapi/overseas-price/v1/quotations/price''
             [(''AUTH'', JStr ''''), (''EXCD'', JStr excd), (''SYMB'', JStr symbol)]) w of
        (Inl e, w') \<Rightarrow> price_on h symbol exs w'
      | (Inr body, w') \<Rightarrow>
          (case price_of body ''last'' of
             None \<Rightarrow> price_on h symbol exs w' | Some px \<Rightarrow> ((Some px, Some order_cd), w')))"

definition price_and_exchange :: "'w http \<Rightarrow> string \<Rightarrow> 'w \<Rightarrow> (rat option \<times> string option) \<times> 'w" where
  "price_and_exchange h symbol =
     price_on h symbol [(''NAS'', ''NASD''), (''NYS'', ''NYSE''), (''AMS'', ''AMEX'')]"

end
