(* ===== verification/Streaming.thy ===== *)
theory Streaming
  imports Kis
begin

text \<open>
  The streaming consumers: the minute-candle aggregator \<open>streaming/aggregator/candle.py\<close>, the daily
  resampling \<open>streaming/aggregator/daily.py\<close> and the tick sinks \<open>streaming/sink\<close>.

  A topic is the list of its messages; a message is its JSON value, \<open>None\<close> if it is not JSON.  One round of
  a consumer loop is a \<open>round\<close>: what \<open>poll\<close> returns, the monotonic clock, and whether the insert into
  ClickHouse and the commit of the offset succeed.  A table of the engine \<open>ReplacingMergeTree\<close> is the list of
  the inserted rows; reading it with \<open>FINAL\<close> gives the last one of each key.  The rows of one insert
  have different keys, so their order (that of a Python set) does not matter.
\<close>

section \<open>Messages\<close>

text \<open>\<open>t[k]\<close>, \<open>float(v)\<close>, \<open>int(v)\<close> and \<open>datetime.fromisoformat(v)\<close> on JSON values; the last one on the format
  that \<open>isoformat\<close> gives for an instant in UTC.\<close>

definition item_of :: "json \<Rightarrow> string \<Rightarrow> json res" where
  "item_of t k =
     (case t of
        JObj d \<Rightarrow> (case map_of d k of None \<Rightarrow> Inl (KeyError k) | Some v \<Rightarrow> Inr v)
      | _ \<Rightarrow> Inl TypeError)"

definition float_of :: "json \<Rightarrow> rat res" where
  "float_of v =
     (case v of
        JInt n \<Rightarrow> Inr (fl (of_int n))
      | JFloat x \<Rightarrow> Inr (fl x)
      | JStr s \<Rightarrow> (case parse_float s of None \<Rightarrow> Inl (ValueError ''float'') | Some x \<Rightarrow> Inr x)
      | _ \<Rightarrow> Inl TypeError)"

definition int_of :: "json \<Rightarrow> int res" where
  "int_of v =
     (case v of
        JInt n \<Rightarrow> Inr n
      | JFloat x \<Rightarrow> Inr (rdown x)
      | JStr s \<Rightarrow> (if s \<noteq> '''' \<and> list_all Kis.is_digit s then Inr (int (atoi s)) else Inl (ValueError ''int''))
      | _ \<Rightarrow> Inl TypeError)"

definition text_of :: "json \<Rightarrow> string res" where
  "text_of v = (case v of JStr s \<Rightarrow> Inr s | _ \<Rightarrow> Inl TypeError)"

definition digits :: "string \<Rightarrow> bool" where
  "digits s \<longleftrightarrow> s \<noteq> '''' \<and> list_all Kis.is_digit s"

definition days_in_month :: "int \<Rightarrow> int \<Rightarrow> int" where
  "days_in_month y mo = (if mo = 12 then 31 else date y (mo + 1) 1 - date y mo 1)"

definition parse_iso :: "string \<Rightarrow> int res" where
  "parse_iso s =
     (let part = (\<lambda>i n. take n (drop i s)); num = (\<lambda>i n. int (atoi (part i n)));
          whole = (length s = 25 \<and> part 19 6 = ''+00:00'');
          micro = (length s = 32 \<and> part 19 1 = ''.'' \<and> digits (part 20 6) \<and> part 26 6 = ''+00:00'')
      in if (whole \<or> micro) \<and> digits (part 0 4) \<and> part 4 1 = ''-'' \<and> digits (part 5 2) \<and> part 7 1 = ''-'' \<and>
            digits (part 8 2) \<and> part 10 1 = ''T'' \<and> digits (part 11 2) \<and> part 13 1 = '':'' \<and> digits (part 14 2) \<and>
            part 16 1 = '':'' \<and> digits (part 17 2) \<and> 1 \<le> num 0 4 \<and> 1 \<le> num 5 2 \<and> num 5 2 \<le> 12 \<and> 1 \<le> num 8 2 \<and>
            num 8 2 \<le> days_in_month (num 0 4) (num 5 2) \<and> num 11 2 < 24 \<and> num 14 2 < 60 \<and> num 17 2 < 60
         then Inr ((date (num 0 4) (num 5 2) (num 8 2) - EPOCH) * DAY
                   + (num 11 2 * 3600 + num 14 2 * 60 + num 17 2) * SECOND + (if micro then num 20 6 else 0))
         else Inl (ValueError ''isoformat''))"

definition loads :: "json option \<Rightarrow> json res" where
  "loads v = (case v of None \<Rightarrow> Inl (ValueError ''json'') | Some t \<Rightarrow> Inr t)"

section \<open>The rounds of a consumer\<close>

datatype poll = Silent | Broken | Deliver

record round =
  r_poll :: poll
  r_now :: rat
  r_insert :: bool
  r_commit :: bool

definition fetch :: "json option list \<Rightarrow> nat \<Rightarrow> poll \<Rightarrow> json option option" where
  "fetch topic pos p = (if p = Deliver \<and> pos < length topic then Some (topic ! pos) else None)"

definition latest :: "('k \<times> 'v) list \<Rightarrow> 'k \<Rightarrow> 'v option" where
  "latest rows = map_of (rev rows)"

section \<open>Minute candles\<close>

type_synonym candle_key = "string \<times> int"

record candle =
  c_open :: rat
  c_high :: rat
  c_low :: rat
  c_close :: rat
  c_volume :: rat

record aggregator =
  ag_candles :: "(candle_key \<times> candle) list"
  ag_dirty :: "candle_key list"
  ag_max :: "int option"
  ag_flush :: rat
  ag_consumed :: bool

record agg_system =
  gs_agg :: aggregator
  gs_rows :: "(candle_key \<times> candle) list"
  gs_read :: nat
  gs_committed :: nat

definition FLUSH_SEC :: rat where "FLUSH_SEC = 2"
definition MINUTE :: int where "MINUTE = 60 * SECOND"
definition WATERMARK :: int where "WATERMARK = 2 * MINUTE"

definition floor_minute :: "int \<Rightarrow> int" where
  "floor_minute t = t div MINUTE * MINUTE"

definition candle_tick :: "json option \<Rightarrow> (candle_key \<times> rat \<times> rat) res" where
  "candle_tick v =
     rbind (loads v) (\<lambda>t.
     rbind (rbind (item_of t ''symbol'') text_of) (\<lambda>s.
     rbind (rbind (item_of t ''price'') float_of) (\<lambda>p.
     rbind (rbind (item_of t ''volume'') float_of) (\<lambda>vol.
     rbind (rbind (rbind (item_of t ''trade_ts'') text_of) parse_iso) (\<lambda>ts.
       Inr ((s, floor_minute ts), p, vol))))))"

definition first_candle :: "rat \<Rightarrow> rat \<Rightarrow> candle" where
  "first_candle p vol = \<lparr>c_open = p, c_high = p, c_low = p, c_close = p, c_volume = vol\<rparr>"

definition next_candle :: "candle \<Rightarrow> rat \<Rightarrow> rat \<Rightarrow> candle" where
  "next_candle c p vol =
     c\<lparr>c_high := max (c_high c) p, c_low := min (c_low c) p, c_close := p, c_volume := fadd (c_volume c) vol\<rparr>"

definition add_tick :: "aggregator \<Rightarrow> candle_key \<times> rat \<times> rat \<Rightarrow> aggregator" where
  "add_tick a t =
     (case t of (k, p, vol) \<Rightarrow>
        a\<lparr>ag_max := Some (case ag_max a of None \<Rightarrow> snd k | Some m \<Rightarrow> if m < snd k then snd k else m),
          ag_candles := AList.update k (case map_of (ag_candles a) k of
              None \<Rightarrow> first_candle p vol | Some c \<Rightarrow> next_candle c p vol) (ag_candles a),
          ag_dirty := (if k \<in> set (ag_dirty a) then ag_dirty a else ag_dirty a @ [k])\<rparr>)"

definition consume :: "json option list \<Rightarrow> poll \<Rightarrow> agg_system \<Rightarrow> agg_system" where
  "consume topic p s =
     (case fetch topic (gs_read s) p of
        None \<Rightarrow> s
      | Some v \<Rightarrow>
          let a = (gs_agg s)\<lparr>ag_consumed := True\<rparr>
          in s\<lparr>gs_read := Suc (gs_read s),
               gs_agg := (case candle_tick v of Inl e \<Rightarrow> a | Inr t \<Rightarrow> add_tick a t)\<rparr>)"

definition dirty_rows :: "aggregator \<Rightarrow> (candle_key \<times> candle) list res" where
  "dirty_rows a = rmap (\<lambda>k. case map_of (ag_candles a) k of None \<Rightarrow> Inl (KeyError ''candle'') | Some c \<Rightarrow> Inr (k, c)) (ag_dirty a)"

text \<open>The insert of the changed candles, the commit, and the removal of the closed ones; an exception leaves
  the state as it is at that point.\<close>

definition store_dirty :: "bool \<Rightarrow> agg_system \<Rightarrow> agg_system \<times> exc option" where
  "store_dirty ok s =
     (if ag_dirty (gs_agg s) = [] then (s, None)
      else case dirty_rows (gs_agg s) of
             Inl e \<Rightarrow> (s, Some e)
           | Inr rows \<Rightarrow>
               if ok then (s\<lparr>gs_rows := gs_rows s @ rows, gs_agg := (gs_agg s)\<lparr>ag_dirty := []\<rparr>\<rparr>, None)
               else (s, Some (RuntimeError ''insert'')))"

definition evict :: "aggregator \<Rightarrow> aggregator" where
  "evict a =
     (case ag_max a of
        None \<Rightarrow> a
      | Some m \<Rightarrow> a\<lparr>ag_candles := filter (\<lambda>(k, c). \<not> snd k < m - WATERMARK) (ag_candles a)\<rparr>)"

definition flush_round :: "round \<Rightarrow> agg_system \<Rightarrow> agg_system \<times> exc option" where
  "flush_round r s =
     (if fsub (r_now r) (ag_flush (gs_agg s)) < FLUSH_SEC then (s, None)
      else case store_dirty (r_insert r) s of
             (s1, Some e) \<Rightarrow> (s1, Some e)
           | (s1, None) \<Rightarrow>
               if ag_consumed (gs_agg s1) \<and> \<not> r_commit r then (s1, Some (RuntimeError ''commit''))
               else
                 let s2 = (if ag_consumed (gs_agg s1) then s1\<lparr>gs_committed := gs_read s1,
                             gs_agg := (gs_agg s1)\<lparr>ag_consumed := False\<rparr>\<rparr> else s1)
                 in (s2\<lparr>gs_agg := (evict (gs_agg s2))\<lparr>ag_flush := r_now r\<rparr>\<rparr>, None))"

definition agg_round :: "json option list \<Rightarrow> round \<Rightarrow> agg_system \<Rightarrow> agg_system \<times> exc option" where
  "agg_round topic r s = flush_round r (consume topic (r_poll r) s)"

fun agg_loop :: "json option list \<Rightarrow> round list \<Rightarrow> agg_system \<Rightarrow> agg_system \<times> exc option" where
  "agg_loop topic [] s = (s, None)"
| "agg_loop topic (r # rs) s =
     (case agg_round topic r s of (s', Some e) \<Rightarrow> (s', Some e) | (s', None) \<Rightarrow> agg_loop topic rs s')"

text \<open>A process starts at the committed offset with empty memory; its last actions are the \<open>finally\<close> block
  with the flags of \<open>last_round\<close>.\<close>

definition fresh_aggregator :: "rat \<Rightarrow> aggregator" where
  "fresh_aggregator now = \<lparr>ag_candles = [], ag_dirty = [], ag_max = None, ag_flush = now, ag_consumed = False\<rparr>"

definition agg_start :: "rat \<Rightarrow> agg_system \<Rightarrow> agg_system" where
  "agg_start now s = s\<lparr>gs_agg := fresh_aggregator now, gs_read := gs_committed s\<rparr>"

definition agg_finally :: "round \<Rightarrow> agg_system \<Rightarrow> agg_system" where
  "agg_finally r s =
     (case store_dirty (r_insert r) s of
        (s1, Some e) \<Rightarrow> s1
      | (s1, None) \<Rightarrow> if r_commit r then s1\<lparr>gs_committed := gs_read s1\<rparr> else s1)"

definition agg_run :: "json option list \<Rightarrow> rat \<Rightarrow> round list \<Rightarrow> round \<Rightarrow> agg_system \<Rightarrow> agg_system" where
  "agg_run topic now rs last_round s = agg_finally last_round (fst (agg_loop topic rs (agg_start now s)))"

section \<open>The candles are those of the ticks\<close>

text \<open>The reference: the candle of the ticks of a minute, read off their whole list.\<close>

type_synonym tick = "candle_key \<times> rat \<times> rat"

definition ticks_of :: "tick list \<Rightarrow> candle_key \<Rightarrow> (rat \<times> rat) list" where
  "ticks_of ts k = map snd (filter (\<lambda>t. fst t = k) ts)"

definition ohlcv :: "(rat \<times> rat) list \<Rightarrow> candle" where
  "ohlcv ps =
     \<lparr>c_open = fst (hd ps), c_high = Max (fst ` set ps), c_low = Min (fst ` set ps),
      c_close = fst (last ps), c_volume = foldl fadd (snd (hd ps)) (map snd (tl ps))\<rparr>"

definition reference_candle :: "tick list \<Rightarrow> candle_key \<Rightarrow> candle option" where
  "reference_candle ts k = (if ticks_of ts k = [] then None else Some (ohlcv (ticks_of ts k)))"

definition good_ticks :: "json option list \<Rightarrow> tick list" where
  "good_ticks topic = concat (map (\<lambda>v. case candle_tick v of Inl e \<Rightarrow> [] | Inr t \<Rightarrow> [t]) topic)"

text \<open>No tick is older than the watermark when it arrives.\<close>

fun timely :: "tick list \<Rightarrow> bool" where
  "timely [] \<longleftrightarrow> True"
| "timely (t # ts) \<longleftrightarrow> list_all (\<lambda>u. snd (fst t) - WATERMARK \<le> snd (fst u)) ts \<and> timely ts"

lemma timely_append:
  "timely (xs @ ys) \<longleftrightarrow> timely xs \<and> timely ys \<and> (\<forall>x \<in> set xs. \<forall>y \<in> set ys. snd (fst x) - WATERMARK \<le> snd (fst y))"
  by (induction xs) (auto simp: list_all_iff)

lemma ticks_of_simps [simp]:
  "ticks_of [] k = []" "ticks_of (ts @ us) k = ticks_of ts k @ ticks_of us k"
  "ticks_of [(k', x)] k = (if k' = k then [x] else [])"
  by (simp_all add: ticks_of_def)

lemma ohlcv_first: "ohlcv [(p, vol)] = first_candle p vol"
  by (simp add: ohlcv_def first_candle_def)

lemma ohlcv_snoc:
  assumes "ps \<noteq> []"
  shows "ohlcv (ps @ [(p, vol)]) = next_candle (ohlcv ps) p vol"
  using assms by (simp add: ohlcv_def next_candle_def max.commute min.commute)

lemma good_ticks_snoc:
  "good_ticks (topic @ [v]) = good_ticks topic @ (case candle_tick v of Inl e \<Rightarrow> [] | Inr t \<Rightarrow> [t])"
  by (simp add: good_ticks_def)

lemma latest_append [simp]:
  "latest (rows @ new) k = (case map_of (rev new) k of None \<Rightarrow> latest rows k | Some v \<Rightarrow> Some v)"
  by (simp add: latest_def map_add_def split: option.split)

lemma latest_Nil [simp]: "latest [] k = None"
  by (simp add: latest_def)

text \<open>What holds of a system whose process has read the ticks \<open>ts\<close>.\<close>

definition agg_inv :: "tick list \<Rightarrow> agg_system \<Rightarrow> bool" where
  "agg_inv ts s \<longleftrightarrow>
     (let a = gs_agg s in
      (\<forall>m. ag_max a = Some m \<longleftrightarrow> ts \<noteq> [] \<and> m = Max (snd ` fst ` set ts)) \<and>
      (\<forall>k c. map_of (ag_candles a) k = Some c \<longrightarrow> reference_candle ts k = Some c) \<and>
      (\<forall>k m. ticks_of ts k \<noteq> [] \<longrightarrow> map_of (ag_candles a) k = None \<longrightarrow> ag_max a = Some m \<longrightarrow> snd k < m - WATERMARK) \<and>
      (\<forall>k \<in> set (ag_dirty a). map_of (ag_candles a) k \<noteq> None) \<and> distinct (ag_dirty a) \<and> distinct (keys_of (ag_candles a)) \<and>
      (\<forall>k. k \<notin> set (ag_dirty a) \<longrightarrow> latest (gs_rows s) k = reference_candle ts k))"

lemma agg_invD:
  assumes "agg_inv ts s"
  shows "\<And>m. ag_max (gs_agg s) = Some m \<longleftrightarrow> ts \<noteq> [] \<and> m = Max (snd ` fst ` set ts)"
    "\<And>k c. map_of (ag_candles (gs_agg s)) k = Some c \<Longrightarrow> reference_candle ts k = Some c"
    "\<And>k m. ticks_of ts k \<noteq> [] \<Longrightarrow> map_of (ag_candles (gs_agg s)) k = None \<Longrightarrow> ag_max (gs_agg s) = Some m \<Longrightarrow> snd k < m - WATERMARK"
    "\<And>k. k \<in> set (ag_dirty (gs_agg s)) \<Longrightarrow> map_of (ag_candles (gs_agg s)) k \<noteq> None"
    "distinct (ag_dirty (gs_agg s))" "distinct (keys_of (ag_candles (gs_agg s)))"
    "\<And>k. k \<notin> set (ag_dirty (gs_agg s)) \<Longrightarrow> latest (gs_rows s) k = reference_candle ts k"
  using assms by (auto simp: agg_inv_def Let_def)

text \<open>The fields of the system the invariant does not mention.\<close>

lemma agg_inv_fields [simp]:
  "agg_inv ts (s\<lparr>gs_read := n\<rparr>) = agg_inv ts s" "agg_inv ts (s\<lparr>gs_committed := n\<rparr>) = agg_inv ts s"
  "agg_inv ts (s\<lparr>gs_agg := a\<lparr>ag_consumed := b\<rparr>\<rparr>) = agg_inv ts (s\<lparr>gs_agg := a\<rparr>)"
  "agg_inv ts (s\<lparr>gs_agg := a\<lparr>ag_flush := x\<rparr>\<rparr>) = agg_inv ts (s\<lparr>gs_agg := a\<rparr>)"
  "agg_inv ts (s\<lparr>gs_committed := n, gs_agg := a\<rparr>) = agg_inv ts (s\<lparr>gs_agg := a\<rparr>)"
  "agg_inv ts (s\<lparr>gs_read := n, gs_agg := a\<rparr>) = agg_inv ts (s\<lparr>gs_agg := a\<rparr>)"
  by (simp_all add: agg_inv_def)

lemma agg_inv_same [simp]: "agg_inv ts (s\<lparr>gs_agg := gs_agg s\<rparr>) = agg_inv ts s"
  by (simp add: agg_inv_def)

lemma add_tick_inv:
  assumes i: "agg_inv ts s" and t: "timely (ts @ [t])"
  shows "agg_inv (ts @ [t]) (s\<lparr>gs_agg := add_tick (gs_agg s) t\<rparr>)"
proof -
  obtain k p vol where tk: "t = (k, p, vol)" by (cases t) auto
  note D = agg_invD [OF i]
  let ?a = "gs_agg s"
  have mx: "Max (snd ` fst ` set (ts @ [t])) = (case ag_max ?a of None \<Rightarrow> snd k | Some m \<Rightarrow> if m < snd k then snd k else m)"
  proof (cases "ts = []")
    case True
    then have "ag_max ?a = None" using D(1) by (cases "ag_max ?a") auto
    then show ?thesis using True tk by simp
  next
    case False
    then have "ag_max ?a = Some (Max (snd ` fst ` set ts))" using D(1) by simp
    moreover have "snd ` fst ` set (ts @ [t]) = insert (snd k) (snd ` fst ` set ts)" using tk by auto
    moreover have "Max (insert (snd k) (snd ` fst ` set ts)) = max (snd k) (Max (snd ` fst ` set ts))"
      using False by (intro Max_insert) auto
    ultimately show ?thesis by (simp add: max_def)
  qed
  have old: "ticks_of ts k = []" if n: "map_of (ag_candles ?a) k = None"
  proof (rule ccontr)
    assume ne: "ticks_of ts k \<noteq> []"
    then have tn: "ts \<noteq> []" by auto
    then obtain x where x: "x \<in> set ts" "snd (fst x) = Max (snd ` fst ` set ts)"
    proof -
      have "Max (snd ` fst ` set ts) \<in> snd ` fst ` set ts" using tn by (intro Max_in) auto
      then show thesis using that by (auto simp: image_iff)
    qed
    have "snd (fst x) - WATERMARK \<le> snd k" using t x(1) tk by (auto simp: timely_append)
    moreover have "snd k < snd (fst x) - WATERMARK" using D(3) [OF ne n] D(1) tn x(2) by auto
    ultimately show False by simp
  qed
  have new: "reference_candle (ts @ [t]) k = Some (case map_of (ag_candles ?a) k of
      None \<Rightarrow> first_candle p vol | Some c \<Rightarrow> next_candle c p vol)"
  proof (cases "map_of (ag_candles ?a) k")
    case None
    then show ?thesis using old tk by (simp add: reference_candle_def ohlcv_first)
  next
    case (Some c)
    then show ?thesis using D(2) [OF Some] tk
      by (auto simp: reference_candle_def ohlcv_snoc split: if_splits)
  qed
  have other: "reference_candle (ts @ [t]) k' = reference_candle ts k'" if "k' \<noteq> k" for k'
    using that tk by (simp add: reference_candle_def)
  have mono: "m \<le> m'" if "ag_max ?a = Some m" "m' = (case ag_max ?a of None \<Rightarrow> snd k | Some m \<Rightarrow> if m < snd k then snd k else m)" for m m'
    using that by auto
  show ?thesis
    unfolding agg_inv_def Let_def
  proof (intro conjI allI impI)
    fix k' m
    assume a: "ticks_of (ts @ [t]) k' \<noteq> []"
      "map_of (ag_candles (gs_agg (s\<lparr>gs_agg := add_tick ?a t\<rparr>))) k' = None"
      "ag_max (gs_agg (s\<lparr>gs_agg := add_tick ?a t\<rparr>)) = Some m"
    then have k': "k' \<noteq> k" "map_of (ag_candles ?a) k' = None" "ticks_of ts k' \<noteq> []"
      using tk by (auto simp: add_tick_def update_conv' split: if_splits)
    then have "ts \<noteq> []" by auto
    then obtain m0 where m0: "ag_max ?a = Some m0" using D(1) by auto
    then show "snd k' < m - WATERMARK"
      using D(3) [OF k'(3,2) m0] a(3) tk mono [OF m0 refl] by (auto simp: add_tick_def split: if_splits)
  next
    fix k'
    assume "k' \<notin> set (ag_dirty (gs_agg (s\<lparr>gs_agg := add_tick ?a t\<rparr>)))"
    then have "k' \<noteq> k" "k' \<notin> set (ag_dirty ?a)" using tk by (auto simp: add_tick_def split: if_splits)
    then show "latest (gs_rows (s\<lparr>gs_agg := add_tick ?a t\<rparr>)) k' = reference_candle (ts @ [t]) k'"
      using D(7) other by simp
  qed (use D(1-6) new other mx tk in \<open>auto simp: add_tick_def update_conv' split: if_splits\<close>)
qed

lemma dirty_rows_ok:
  assumes "\<And>k. k \<in> set (ag_dirty a) \<Longrightarrow> map_of (ag_candles a) k \<noteq> None"
  shows "dirty_rows a = Inr (map (\<lambda>k. (k, the (map_of (ag_candles a) k))) (ag_dirty a))"
proof -
  have "rmap (\<lambda>k. case map_of (ag_candles a) k of None \<Rightarrow> Inl (KeyError ''candle'') | Some c \<Rightarrow> Inr (k, c)) ks
      = Inr (map (\<lambda>k. (k, the (map_of (ag_candles a) k))) ks)" if "\<forall>k \<in> set ks. map_of (ag_candles a) k \<noteq> None" for ks
    using that by (induction ks) auto
  then show ?thesis using assms by (simp add: dirty_rows_def)
qed

lemma map_of_map_keys: "map_of (map (\<lambda>k. (k, f k)) ks) k = (if k \<in> set ks then Some (f k) else None)"
  by (induction ks) auto

lemma store_dirty_inv:
  assumes i: "agg_inv ts s" and r: "store_dirty ok s = (s', e)"
  shows "agg_inv ts s'" "e = None \<Longrightarrow> ag_dirty (gs_agg s') = []" "\<not> (\<exists>k. e = Some (KeyError k))" "ok \<Longrightarrow> e = None"
    "gs_read s' = gs_read s" "gs_committed s' = gs_committed s"
proof -
  note D = agg_invD [OF i]
  note rows = dirty_rows_ok [OF D(4)]
  have "agg_inv ts (s\<lparr>gs_rows := gs_rows s @ map (\<lambda>k. (k, the (map_of (ag_candles (gs_agg s)) k))) (ag_dirty (gs_agg s)),
      gs_agg := (gs_agg s)\<lparr>ag_dirty := []\<rparr>\<rparr>)"
  proof -
    let ?rows = "map (\<lambda>k. (k, the (map_of (ag_candles (gs_agg s)) k))) (ag_dirty (gs_agg s))"
    have "latest (gs_rows s @ ?rows) k = reference_candle ts k" for k
    proof (cases "k \<in> set (ag_dirty (gs_agg s))")
      case True
      then obtain c where "map_of (ag_candles (gs_agg s)) k = Some c" using D(4) by blast
      then show ?thesis using D(2) True by (simp add: rev_map map_of_map_keys)
    qed (use D(7) in \<open>simp add: rev_map map_of_map_keys\<close>)
    then show ?thesis unfolding agg_inv_def Let_def using D by simp
  qed
  then show "agg_inv ts s'" "e = None \<Longrightarrow> ag_dirty (gs_agg s') = []" "\<not> (\<exists>k. e = Some (KeyError k))" "ok \<Longrightarrow> e = None"
    "gs_read s' = gs_read s" "gs_committed s' = gs_committed s"
    using r i rows by (auto simp: store_dirty_def split: if_splits)
qed

lemma evict_inv:
  assumes "agg_inv ts s" "ag_dirty (gs_agg s) = []"
  shows "agg_inv ts (s\<lparr>gs_agg := evict (gs_agg s)\<rparr>)"
proof (cases "ag_max (gs_agg s)")
  case None
  then show ?thesis using assms(1) by (simp add: evict_def)
next
  case (Some m)
  note D = agg_invD [OF assms(1)]
  have f: "map_of (filter (\<lambda>(k, c). \<not> snd k < m - WATERMARK) d) k = (if snd k < m - WATERMARK then None else map_of d k)"
    for d :: "(candle_key \<times> candle) list" and k
    by (induction d) auto
  have g: "distinct (keys_of d) \<Longrightarrow> distinct (keys_of (filter P d))" for d :: "(candle_key \<times> candle) list" and P
    by (induction d) auto
  show ?thesis
    unfolding agg_inv_def Let_def
  proof (intro conjI allI impI)
    fix k m'
    assume a: "ticks_of ts k \<noteq> []" "map_of (ag_candles (gs_agg (s\<lparr>gs_agg := evict (gs_agg s)\<rparr>))) k = None"
      "ag_max (gs_agg (s\<lparr>gs_agg := evict (gs_agg s)\<rparr>)) = Some m'"
    then show "snd k < m' - WATERMARK" using D(3) [OF a(1) _ Some] Some by (auto simp: evict_def f split: if_splits)
  qed (use D(1,2,4-7) assms(2) Some in \<open>auto simp: evict_def f g split: if_splits\<close>)
qed

lemma flush_round_inv:
  assumes i: "agg_inv ts s" and r: "flush_round rd s = (s', e)"
  shows "agg_inv ts s'" "\<not> (\<exists>k. e = Some (KeyError k))" "gs_read s' = gs_read s"
proof -
  obtain s1 e1 where st: "store_dirty (r_insert rd) s = (s1, e1)" by (metis surj_pair)
  note S = store_dirty_inv [OF i st]
  have "agg_inv ts (s1\<lparr>gs_agg := evict (gs_agg s1)\<rparr>)" if "e1 = None" using evict_inv S(1,2) that by blast
  moreover have "evict (a\<lparr>ag_consumed := b\<rparr>) = (evict a)\<lparr>ag_consumed := b\<rparr>" for a b
    by (simp add: evict_def split: option.split)
  ultimately show "agg_inv ts s'" "\<not> (\<exists>k. e = Some (KeyError k))" "gs_read s' = gs_read s"
    using r st S i by (auto simp: flush_round_def Let_def split: if_splits option.splits)
qed

lemma consume_inv:
  assumes i: "agg_inv (good_ticks (take (gs_read s) topic)) s" and t: "timely (good_ticks topic)" and l: "gs_read s \<le> length topic"
  shows "agg_inv (good_ticks (take (gs_read (consume topic p s)) topic)) (consume topic p s)"
    "gs_read (consume topic p s) \<le> length topic"
proof -
  let ?n = "gs_read s"
  have "agg_inv (good_ticks (take (gs_read (consume topic p s)) topic)) (consume topic p s) \<and> gs_read (consume topic p s) \<le> length topic"
  proof (cases "p = Deliver \<and> ?n < length topic")
    case False
    then show ?thesis using i l by (auto simp: consume_def fetch_def)
  next
    case True
    then have f: "fetch topic ?n p = Some (topic ! ?n)" by (simp add: fetch_def)
    have g: "good_ticks (take (Suc ?n) topic) = good_ticks (take ?n topic) @ (case candle_tick (topic ! ?n) of Inl e \<Rightarrow> [] | Inr t \<Rightarrow> [t])"
      using True by (simp add: take_Suc_conv_app_nth good_ticks_snoc)
    show ?thesis
    proof (cases "candle_tick (topic ! ?n)")
      case (Inl e)
      then show ?thesis using i True f g by (simp add: consume_def Let_def)
    next
      case (Inr t')
      have "good_ticks topic = good_ticks (take (Suc ?n) topic) @ good_ticks (drop (Suc ?n) topic)"
        unfolding good_ticks_def by (simp flip: concat_append map_append)
      then have "timely (good_ticks (take ?n topic) @ [t'])" using t g Inr by (simp add: timely_append)
      from add_tick_inv [OF i this] have "agg_inv (good_ticks (take (Suc ?n) topic)) (s\<lparr>gs_agg := add_tick (gs_agg s) t'\<rparr>)"
        using g Inr by simp
      moreover have "add_tick ((gs_agg s)\<lparr>ag_consumed := True\<rparr>) t' = (add_tick (gs_agg s) t')\<lparr>ag_consumed := True\<rparr>"
        by (simp add: add_tick_def split: prod.split)
      ultimately show ?thesis using True f Inr by (simp add: consume_def Let_def)
    qed
  qed
  then show "agg_inv (good_ticks (take (gs_read (consume topic p s)) topic)) (consume topic p s)"
    "gs_read (consume topic p s) \<le> length topic" by auto
qed

lemma agg_loop_inv:
  assumes "agg_loop topic rs s = (s', e)" "timely (good_ticks topic)"
    and "agg_inv (good_ticks (take (gs_read s) topic)) s" "gs_read s \<le> length topic"
  shows "agg_inv (good_ticks (take (gs_read s') topic)) s' \<and> gs_read s' \<le> length topic \<and> \<not> (\<exists>k. e = Some (KeyError k))"
  using assms(1,3,4)
proof (induction rs arbitrary: s)
  case (Cons r rs)
  obtain s1 e1 where f: "flush_round r (consume topic (r_poll r) s) = (s1, e1)" by (metis surj_pair)
  note C = consume_inv [OF Cons.prems(2) assms(2) Cons.prems(3), of "r_poll r"]
  note F = flush_round_inv [OF C(1) f]
  then have i: "agg_inv (good_ticks (take (gs_read s1) topic)) s1" "gs_read s1 \<le> length topic" using C(2) by simp_all
  show ?case
    using Cons.prems(1) f F i Cons.IH [OF _ i] by (auto simp: agg_round_def split: option.splits)
qed simp

section \<open>Properties of the candles\<close>

definition new_system :: agg_system where
  "new_system = \<lparr>gs_agg = fresh_aggregator 0, gs_rows = [], gs_read = 0, gs_committed = 0\<rparr>"

lemma agg_run_candles:
  assumes t: "timely (good_ticks topic)" and r: "agg_loop topic rs (agg_start now new_system) = (s, e)" "r_insert fin"
  shows "latest (gs_rows (agg_run topic now rs fin new_system)) k = reference_candle (good_ticks (take (gs_read s) topic)) k \<and>
    gs_read s \<le> length topic \<and> (\<forall>x. e \<noteq> Some (KeyError x))"
proof -
  have "agg_inv (good_ticks (take (gs_read (agg_start now new_system)) topic)) (agg_start now new_system)"
    by (simp add: agg_inv_def agg_start_def new_system_def fresh_aggregator_def good_ticks_def reference_candle_def)
  then have i: "agg_inv (good_ticks (take (gs_read s) topic)) s" "gs_read s \<le> length topic" "\<not> (\<exists>k. e = Some (KeyError k))"
    using agg_loop_inv [OF r(1) t] by (auto simp: agg_start_def new_system_def)
  obtain s1 e1 where st: "store_dirty (r_insert fin) s = (s1, e1)" by (metis surj_pair)
  note S = store_dirty_inv [OF i(1) st]
  have f: "e1 = None" "ag_dirty (gs_agg s1) = []" using S(2,4) r(2) by auto
  then have "gs_rows (agg_run topic now rs fin new_system) = gs_rows s1"
    using r(1) st by (simp add: agg_run_def agg_finally_def)
  then show ?thesis using agg_invD(7) [OF S(1)] f(2) i by simp
qed

text \<open>
  A process that starts at the offset \<open>n\<close> on a table with the rows \<open>R\<close> does what a process with an empty
  table does on the rest of the topic, and its rows come after \<open>R\<close>.
\<close>

definition resume :: "nat \<Rightarrow> (candle_key \<times> candle) list \<Rightarrow> agg_system \<Rightarrow> agg_system" where
  "resume n R s = s\<lparr>gs_rows := R @ gs_rows s, gs_read := n + gs_read s, gs_committed := n + gs_committed s\<rparr>"

lemma resume_fields [simp]:
  "gs_agg (resume n R s) = gs_agg s" "gs_rows (resume n R s) = R @ gs_rows s"
  "gs_read (resume n R s) = n + gs_read s" "gs_committed (resume n R s) = n + gs_committed s"
  by (simp_all add: resume_def)

lemma resume_update [simp]:
  "(resume n R s)\<lparr>gs_agg := a\<rparr> = resume n R (s\<lparr>gs_agg := a\<rparr>)"
  "(resume n R s)\<lparr>gs_committed := n + i\<rparr> = resume n R (s\<lparr>gs_committed := i\<rparr>)"
  "(resume n R s)\<lparr>gs_committed := n + i, gs_agg := a\<rparr> = resume n R (s\<lparr>gs_committed := i, gs_agg := a\<rparr>)"
  by (simp_all add: resume_def)

lemma fetch_drop: "fetch topic (n + i) p = fetch (drop n topic) i p"
  by (auto simp: fetch_def)

lemma consume_resume: "consume topic p (resume n R s) = resume n R (consume (drop n topic) p s)"
  by (simp add: consume_def fetch_drop Let_def resume_def split: option.split)

lemma store_dirty_resume: "store_dirty ok (resume n R s) = map_prod (resume n R) id (store_dirty ok s)"
  by (simp add: store_dirty_def resume_def split: sum.split)

lemma flush_round_resume: "flush_round r (resume n R s) = map_prod (resume n R) id (flush_round r s)"
proof -
  obtain s1 e where st: "store_dirty (r_insert r) s = (s1, e)" by (metis surj_pair)
  then show ?thesis
    by (auto simp: flush_round_def store_dirty_resume Let_def split: option.split)
qed

lemma agg_loop_resume: "agg_loop topic rs (resume n R s) = map_prod (resume n R) id (agg_loop (drop n topic) rs s)"
proof (induction rs arbitrary: s)
  case (Cons r rs)
  obtain s1 e where f: "agg_round (drop n topic) r s = (s1, e)" by (metis surj_pair)
  then have "agg_round topic r (resume n R s) = (resume n R s1, e)"
    by (simp add: agg_round_def consume_resume flush_round_resume)
  then show ?case using f Cons.IH [of s1] by (simp split: option.split)
qed simp

lemma agg_start_resume: "agg_start now s = resume (gs_committed s) (gs_rows s) (agg_start now new_system)"
  by (simp add: agg_start_def resume_def new_system_def)

lemma agg_run_resume:
  "agg_run topic now rs fin s = resume (gs_committed s) (gs_rows s) (agg_run (drop (gs_committed s) topic) now rs fin new_system)"
proof -
  obtain s1 e where st: "agg_loop (drop (gs_committed s) topic) rs (agg_start now new_system) = (s1, e)" by (metis surj_pair)
  obtain s2 e2 where f: "store_dirty (r_insert fin) s1 = (s2, e2)" by (metis surj_pair)
  show ?thesis using st f
    by (auto simp: agg_run_def agg_start_resume [of now s] agg_loop_resume agg_finally_def store_dirty_resume
        split: option.split)
qed

lemma timely_drop: "timely (good_ticks topic) \<Longrightarrow> timely (good_ticks (drop n topic))"
  using timely_append [of "good_ticks (take n topic)" "good_ticks (drop n topic)"]
  unfolding good_ticks_def by (simp flip: concat_append map_append)

lemma consume_reads_on: "gs_read s \<le> gs_read (consume topic p s)"
  by (simp add: consume_def Let_def split: option.split)

lemma flush_round_reads: "flush_round r s = (s', e) \<Longrightarrow> gs_read s' = gs_read s"
  by (auto simp: flush_round_def store_dirty_def Let_def split: if_splits sum.splits option.splits)

lemma loop_reads_on: "agg_loop topic rs s = (s', e) \<Longrightarrow> gs_read s \<le> gs_read s'"
proof (induction rs arbitrary: s)
  case (Cons r rs)
  obtain s1 e1 where f: "agg_round topic r s = (s1, e1)" by (metis surj_pair)
  have "gs_read s \<le> gs_read s1"
    using consume_reads_on [of s topic "r_poll r"] flush_round_reads [OF f [unfolded agg_round_def]] by simp
  with Cons.prems f show ?case by (auto split: option.splits dest: Cons.IH)
qed simp

lemma run_commits:
  assumes "timely (good_ticks topic)" "agg_loop topic rs (agg_start now new_system) = (s, e)" "r_insert fin" "r_commit fin"
  shows "gs_committed (agg_run topic now rs fin new_system) = gs_read s"
proof -
  have "agg_inv (good_ticks (take (gs_read (agg_start now new_system)) topic)) (agg_start now new_system)"
    by (simp add: agg_inv_def agg_start_def new_system_def fresh_aggregator_def good_ticks_def reference_candle_def)
  then have i: "agg_inv (good_ticks (take (gs_read s) topic)) s"
    using agg_loop_inv [OF assms(2,1)] by (auto simp: agg_start_def new_system_def)
  obtain s1 e1 where st: "store_dirty (r_insert fin) s = (s1, e1)" by (metis surj_pair)
  show ?thesis using store_dirty_inv [OF i st] assms(2-4) st by (simp add: agg_run_def agg_finally_def)
qed

text \<open>One process on any table: a candle it got ticks for is replaced by the candle of those ticks, the others stay.\<close>

lemma agg_run_any:
  assumes "timely (good_ticks topic)" "agg_loop topic rs (agg_start now s0) = (s, e)" "r_insert fin"
  shows "latest (gs_rows (agg_run topic now rs fin s0)) k =
    (case reference_candle (good_ticks (drop (gs_committed s0) (take (gs_read s) topic))) k of
       None \<Rightarrow> latest (gs_rows s0) k | Some c \<Rightarrow> Some c)"
proof -
  let ?n = "gs_committed s0"
  obtain s' e' where l: "agg_loop (drop ?n topic) rs (agg_start now new_system) = (s', e')" by (metis surj_pair)
  then have s: "s = resume ?n (gs_rows s0) s'"
    using assms(2) by (simp add: agg_start_resume [of now s0] agg_loop_resume)
  have "latest (gs_rows (agg_run (drop ?n topic) now rs fin new_system)) k = reference_candle (good_ticks (take (gs_read s') (drop ?n topic))) k"
    using agg_run_candles [OF timely_drop [OF assms(1)] l assms(3)] by blast
  then show ?thesis
    unfolding agg_run_resume [of topic now rs fin s0]
    by (simp add: s drop_take latest_def map_add_def split: option.split)
qed

text \<open>C18: The stored minute candles are the candles of the ticks: after one process has worked on a topic whose
  ticks are at most two minutes late, whatever the batches and the faults in between, if its last insert
  succeeds then for every symbol and minute the table holds exactly the open, high, low, close and volume
  of the ticks read so far, and nothing for other minutes; the removal of closed candles loses nothing.\<close>

theorem candles_match_ticks:
  assumes t: "timely (good_ticks topic)" and r: "agg_loop topic rs (agg_start now new_system) = (s, e)" "r_insert fin"
  shows "latest (gs_rows (agg_run topic now rs fin new_system)) k = reference_candle (good_ticks (take (gs_read s) topic)) k \<and>
    gs_read s \<le> length topic \<and> (\<forall>x. e \<noteq> Some (KeyError x))"
  using agg_run_candles [OF assms] .

definition tick_message :: "string \<Rightarrow> rat \<Rightarrow> json option" where
  "tick_message at_time p = Some (JObj [(''symbol'', JStr ''B''), (''price'', JFloat p), (''volume'', JFloat 1), (''side'', JStr ''BID''),
     (''trade_ts'', JStr at_time), (''seq'', JInt 1)])"

definition demo_topic :: "json option list" where
  "demo_topic = [tick_message ''2026-01-01T00:00:10+00:00'' 100, tick_message ''2026-01-01T00:00:40+00:00'' 90]"

definition demo_round :: round where
  "demo_round = \<lparr>r_poll = Deliver, r_now = 1, r_insert = True, r_commit = True\<rparr>"

definition demo_minute :: candle_key where
  "demo_minute = (''B'', 1767225600000000)"

lemma demo_ticks: "good_ticks demo_topic = [(demo_minute, 100, 1), (demo_minute, 90, 1)]"
  by code_simp

lemma demo_loop_two: "snd (agg_loop demo_topic [demo_round, demo_round] (agg_start 0 new_system)) = None \<and>
    gs_read (fst (agg_loop demo_topic [demo_round, demo_round] (agg_start 0 new_system))) = 2"
  by code_simp

theorem candles_match_ticks_witness:
  "latest (gs_rows (agg_run demo_topic 0 [demo_round, demo_round] demo_round new_system)) demo_minute
     = Some \<lparr>c_open = 100, c_high = 100, c_low = 90, c_close = 90, c_volume = 2\<rparr>"
proof -
  obtain s e where r: "agg_loop demo_topic [demo_round, demo_round] (agg_start 0 new_system) = (s, e)" by (metis surj_pair)
  then have n: "gs_read s = 2" using demo_loop_two by simp
  have "timely (good_ticks demo_topic)" by (simp add: demo_ticks WATERMARK_def MINUTE_def)
  from candles_match_ticks [OF this r, of demo_round demo_minute]
  have "latest (gs_rows (agg_run demo_topic 0 [demo_round, demo_round] demo_round new_system)) demo_minute
      = reference_candle (good_ticks demo_topic) demo_minute"
    by (simp add: n demo_round_def demo_topic_def)
  moreover have "fl (2 :: rat) = 2" by (rule fl_lit) simp_all
  ultimately show ?thesis by (simp add: demo_ticks ticks_of_def reference_candle_def ohlcv_def fadd_def)
qed

text \<open>C29: A restart in the middle of a minute destroys the stored candle.  On any topic whose ticks are at most
  two minutes late, let one process read up to an offset and end in order, with its last insert and commit, and
  a second process read on.  Then a candle the second process has a tick for is the candle of the ticks after the
  restart only (the candle stored before is replaced), and every other candle stays.  So a minute with ticks on
  both sides, the first of which differ in price, is stored with the opening price of the later ones, which is
  not the candle of its ticks.\<close>

theorem restart_overwrites_candle:
  assumes t: "timely (good_ticks topic)"
    and r1: "agg_loop topic rs1 (agg_start now1 new_system) = (s1, e1)" "r_insert fin1" "r_commit fin1"
    and r2: "agg_loop topic rs2 (agg_start now2 (agg_run topic now1 rs1 fin1 new_system)) = (s2, e2)" "r_insert fin2"
  shows "latest (gs_rows (agg_run topic now2 rs2 fin2 (agg_run topic now1 rs1 fin1 new_system))) k =
      (case reference_candle (good_ticks (drop (gs_read s1) (take (gs_read s2) topic))) k of
         None \<Rightarrow> reference_candle (good_ticks (take (gs_read s1) topic)) k
       | Some c \<Rightarrow> Some c)
    \<and> (\<forall>p1 v1 ps p2 v2 qs. ticks_of (good_ticks (take (gs_read s1) topic)) k = (p1, v1) # ps
         \<and> ticks_of (good_ticks (drop (gs_read s1) (take (gs_read s2) topic))) k = (p2, v2) # qs \<and> p1 \<noteq> p2 \<longrightarrow>
         (\<exists>c. latest (gs_rows (agg_run topic now2 rs2 fin2 (agg_run topic now1 rs1 fin1 new_system))) k = Some c
           \<and> c_open c = p2 \<and> reference_candle (good_ticks (take (gs_read s2) topic)) k \<noteq> Some c))"
proof -
  let ?S = "agg_run topic now1 rs1 fin1 new_system"
  have rows: "latest (gs_rows ?S) k = reference_candle (good_ticks (take (gs_read s1) topic)) k"
    using agg_run_candles [OF t r1(1,2)] by blast
  have c: "gs_committed ?S = gs_read s1"
    using run_commits [OF t r1] .
  have eq: "latest (gs_rows (agg_run topic now2 rs2 fin2 ?S)) k =
      (case reference_candle (good_ticks (drop (gs_read s1) (take (gs_read s2) topic))) k of
         None \<Rightarrow> reference_candle (good_ticks (take (gs_read s1) topic)) k | Some c \<Rightarrow> Some c)"
    using agg_run_any [OF t r2, of k] unfolding c rows .
  have read: "gs_read s1 \<le> gs_read s2"
    using loop_reads_on [OF r2(1)] by (simp add: agg_start_def c)
  have "good_ticks (take (gs_read s2) topic) =
      good_ticks (take (gs_read s1) topic) @ good_ticks (drop (gs_read s1) (take (gs_read s2) topic))"
    using read append_take_drop_id [of "gs_read s1" "take (gs_read s2) topic"]
    unfolding good_ticks_def by (simp add: min_def flip: concat_append map_append)
  then show ?thesis using eq by (auto simp: reference_candle_def ohlcv_def)
qed

lemma demo_restart:
  "gs_read (fst (agg_loop demo_topic [demo_round] (agg_start 0 new_system))) = 1 \<and>
   gs_read (fst (agg_loop demo_topic [demo_round] (agg_start 5 (agg_run demo_topic 0 [demo_round] demo_round new_system)))) = 2"
  by code_simp

lemma demo_parts: "good_ticks (take 1 demo_topic) = [(demo_minute, 100, 1)]" "good_ticks (drop 1 (take 2 demo_topic)) = [(demo_minute, 90, 1)]"
  "good_ticks (take 2 demo_topic) = [(demo_minute, 100, 1), (demo_minute, 90, 1)]"
  by code_simp+

theorem restart_overwrites_candle_witness:
  "latest (gs_rows (agg_run demo_topic 5 [demo_round] demo_round (agg_run demo_topic 0 [demo_round] demo_round new_system))) demo_minute
     = Some (first_candle 90 1) \<and>
   (\<exists>c. latest (gs_rows (agg_run demo_topic 5 [demo_round] demo_round (agg_run demo_topic 0 [demo_round] demo_round new_system))) demo_minute
     = Some c \<and> c_open c = 90 \<and> reference_candle (good_ticks (take 2 demo_topic)) demo_minute \<noteq> Some c)"
proof -
  obtain s1 e1 where r1: "agg_loop demo_topic [demo_round] (agg_start 0 new_system) = (s1, e1)" by (metis surj_pair)
  obtain s2 e2 where r2: "agg_loop demo_topic [demo_round] (agg_start 5 (agg_run demo_topic 0 [demo_round] demo_round new_system)) = (s2, e2)"
    by (metis surj_pair)
  have n: "gs_read s1 = 1" "gs_read s2 = 2" using demo_restart r1 r2 by simp_all
  have t: "timely (good_ticks demo_topic)" by (simp add: demo_ticks WATERMARK_def MINUTE_def)
  have d: "r_insert demo_round" "r_commit demo_round" by (simp_all add: demo_round_def)
  note h = restart_overwrites_candle [OF t r1 d r2 d(1), of demo_minute, unfolded n demo_parts]
  show ?thesis unfolding demo_parts
    using h by (auto simp: ticks_of_def reference_candle_def ohlcv_def first_candle_def)
qed

section \<open>Daily candles\<close>

text \<open>\<open>SELECT ... FROM t FINAL\<close>.\<close>

definition final_rows :: "('k \<times> 'v) list \<Rightarrow> ('k \<times> 'v) list" where
  "final_rows rows = map (\<lambda>k. (k, the (latest rows k))) (remdups (map fst rows))"

definition LOOKBACK_DAYS :: int where "LOOKBACK_DAYS = 2"

definition start_of_day :: "int \<Rightarrow> int" where
  "start_of_day t = t div DAY * DAY"

text \<open>One row of the query: \<open>argMin(open, window_start)\<close>, \<open>max(high)\<close>, \<open>min(low)\<close>, \<open>argMax(close, window_start)\<close> and
  \<open>sum(volume)\<close>; the order in which the database adds the volumes is an argument.\<close>

definition day_candle :: "(rat list \<Rightarrow> rat) \<Rightarrow> (int \<times> candle) list \<Rightarrow> candle" where
  "day_candle total_of ms =
     (let opening = hd (filter (\<lambda>m. list_all (\<lambda>n. fst m \<le> fst n) ms) ms);
          closing = hd (filter (\<lambda>m. list_all (\<lambda>n. fst n \<le> fst m) ms) ms)
      in \<lparr>c_open = c_open (snd opening), c_high = Max (set (map (c_high \<circ> snd) ms)), c_low = Min (set (map (c_low \<circ> snd) ms)),
          c_close = c_close (snd closing), c_volume = total_of (map (c_volume \<circ> snd) ms)\<rparr>)"

definition resample_days ::
  "(rat list \<Rightarrow> rat) \<Rightarrow> int \<Rightarrow> (candle_key \<times> candle) list \<Rightarrow> (candle_key \<times> candle) list" where
  "resample_days total_of now rows =
     (let today = start_of_day now;
          chosen = filter (\<lambda>((s, w), c). today - LOOKBACK_DAYS * DAY \<le> w \<and> w < today) (final_rows rows);
          groups = foldl (\<lambda>g ((s, w), c). append_at (s, start_of_day w) (w, c) g) [] chosen
      in map (\<lambda>(k, ms). (k, day_candle total_of ms)) groups)"

text \<open>The hourly loop: a failed command is retried in the next cycle.\<close>

definition daily_cycle :: "(rat list \<Rightarrow> rat) \<Rightarrow> (candle_key \<times> candle) list \<Rightarrow> (candle_key \<times> candle) list \<Rightarrow> int \<times> bool \<Rightarrow> (candle_key \<times> candle) list" where
  "daily_cycle total_of minutes days cyc = (if snd cyc then days @ resample_days total_of (fst cyc) minutes else days)"

section \<open>Daily candles of the ticks\<close>

lemma map_of_groups:
  "map_of (foldl (\<lambda>g x. append_at (f x) (h x) g) [] xs) k =
    (let l = map h (filter (\<lambda>x. f x = k) xs) in if l = [] then None else Some l)"
proof (induction xs rule: rev_induct)
  case (snoc x xs)
  then show ?case by (auto simp: Let_def get_or_def split: option.splits if_splits)
qed simp

lemma map_of_map_snd: "map_of (map (\<lambda>(k, v). (k, f v)) d) k = map_option f (map_of d k)"
  by (induction d) auto

lemma set_final_rows: "(k, c) \<in> set (final_rows rows) \<longleftrightarrow> latest rows k = Some c"
proof -
  have "latest rows k \<noteq> None \<longleftrightarrow> k \<in> fst ` set rows"
    by (simp add: latest_def map_of_eq_None_iff)
  then show ?thesis unfolding final_rows_def by auto
qed

lemma Max_of_Max:
  fixes A :: "'b \<Rightarrow> 'a :: linorder set"
  assumes "finite W" "W \<noteq> {}" "\<And>w. w \<in> W \<Longrightarrow> finite (A w) \<and> A w \<noteq> {}"
  shows "Max ((\<lambda>w. Max (A w)) ` W) = Max (\<Union>w \<in> W. A w)" "Min ((\<lambda>w. Min (A w)) ` W) = Min (\<Union>w \<in> W. A w)"
proof -
  have f: "finite (\<Union>w \<in> W. A w)" "(\<Union>w \<in> W. A w) \<noteq> {}" using assms by auto
  have "Max (\<Union>w \<in> W. A w) \<in> (\<Union>w \<in> W. A w)" by (rule Max_in [OF f])
  then obtain w where w: "w \<in> W" "Max (\<Union>w \<in> W. A w) \<in> A w" by blast
  show "Max ((\<lambda>w. Max (A w)) ` W) = Max (\<Union>w \<in> W. A w)"
  proof (rule Max_eqI)
    show "y \<le> Max (\<Union>w \<in> W. A w)" if "y \<in> (\<lambda>w. Max (A w)) ` W" for y
      using that f(1) assms(3) by (auto intro!: Max_mono)
    have "Max (A w) = Max (\<Union>w \<in> W. A w)"
      using w assms(3) [OF w(1)] f(1) by (intro antisym Max_mono Max_ge) auto
    then show "Max (\<Union>w \<in> W. A w) \<in> (\<lambda>w. Max (A w)) ` W" using w(1) by (intro image_eqI [of _ _ w]) simp_all
  qed (use assms(1) in simp)
  have "Min (\<Union>w \<in> W. A w) \<in> (\<Union>w \<in> W. A w)" by (rule Min_in [OF f])
  then obtain w where w: "w \<in> W" "Min (\<Union>w \<in> W. A w) \<in> A w" by blast
  show "Min ((\<lambda>w. Min (A w)) ` W) = Min (\<Union>w \<in> W. A w)"
  proof (rule Min_eqI)
    show "Min (\<Union>w \<in> W. A w) \<le> y" if "y \<in> (\<lambda>w. Min (A w)) ` W" for y
      using that f(1) assms(3) by (auto intro!: Min_antimono)
    have "Min (A w) = Min (\<Union>w \<in> W. A w)"
      using w assms(3) [OF w(1)] f(1) by (intro antisym Min_antimono Min_le) auto
    then show "Min (\<Union>w \<in> W. A w) \<in> (\<lambda>w. Min (A w)) ` W" using w(1) by (intro image_eqI [of _ _ w]) simp_all
  qed (use assms(1) in simp)
qed

lemma day_candle_open_close:
  assumes "(w, c) \<in> set ms" "\<And>w' c'. (w', c') \<in> set ms \<Longrightarrow> c' = f w'"
  shows "c_open (day_candle total_of ms) = c_open (f (Min (fst ` set ms)))"
    "c_close (day_candle total_of ms) = c_close (f (Max (fst ` set ms)))"
proof -
  let ?W = "fst ` set ms"
  have W: "finite ?W" "?W \<noteq> {}" using assms(1) by auto
  have pick: "snd (hd (filter P ms)) = f v" if P: "\<And>m. m \<in> set ms \<Longrightarrow> P m \<longleftrightarrow> fst m = v" and v: "v \<in> ?W" for P v
  proof -
    have "filter P ms \<noteq> []" using P v by (auto simp: filter_empty_conv)
    moreover obtain a b where h: "hd (filter P ms) = (a, b)" by (cases "hd (filter P ms)")
    ultimately have "(a, b) \<in> set ms" "P (a, b)" using hd_in_set [of "filter P ms"] by auto
    then show ?thesis using P assms(2) h by auto
  qed
  have lo: "Min ?W \<le> v" and hi: "v \<le> Max ?W" if "(v, x) \<in> set ms" for v x
    using that by (auto intro!: Min_le Max_ge image_eqI [of _ fst "(v, x)"])
  have "snd (hd (filter (\<lambda>m. list_all (\<lambda>n. fst m \<le> fst n) ms) ms)) = f (Min ?W)"
    by (rule pick) (use W lo in \<open>auto simp: list_all_iff intro!: Min_eqI [symmetric]\<close>)
  moreover have "snd (hd (filter (\<lambda>m. list_all (\<lambda>n. fst n \<le> fst m) ms) ms)) = f (Max ?W)"
    by (rule pick) (use W hi in \<open>auto simp: list_all_iff intro!: Max_eqI [symmetric]\<close>)
  ultimately show "c_open (day_candle total_of ms) = c_open (f (Min (fst ` set ms)))"
    "c_close (day_candle total_of ms) = c_close (f (Max (fst ` set ms)))"
    by (simp_all add: day_candle_def Let_def)
qed

definition ticks_on :: "tick list \<Rightarrow> string \<Rightarrow> int \<Rightarrow> tick list" where
  "ticks_on ts s d = filter (\<lambda>t. fst (fst t) = s \<and> start_of_day (snd (fst t)) = d) ts"

lemma mult_le_iff_div:
  fixes k w :: int
  assumes "0 < D"
  shows "k * D \<le> w \<longleftrightarrow> k \<le> w div D"
proof
  assume "k * D \<le> w"
  then have "k * D div D \<le> w div D" using assms by (rule zdiv_mono1)
  then show "k \<le> w div D" using assms by simp
next
  assume "k \<le> w div D"
  then have "k * D \<le> w div D * D" using assms by simp
  also have "\<dots> \<le> w" using pos_mod_sign [OF assms, of w] by (simp add: minus_mod_eq_div_mult [symmetric])
  finally show "k * D \<le> w" .
qed

text \<open>The daily candle of a completed day is that of its ticks: when the minute table holds the candles of
  the ticks, the resampling stores a row for a symbol and one of the two days before today exactly if it
  traded on that day, with the highest and lowest price of the day's ticks, the price of the first tick of
  its first minute and of the last tick of its last minute; today and older days are not touched.\<close>

lemma daily_candles_match_ticks:
  assumes m: "\<And>k. latest minutes k = reference_candle ts k" and d: "start_of_day d = d"
  shows "case map_of (resample_days total_of now minutes) (s, d) of
      None \<Rightarrow> d < start_of_day now - LOOKBACK_DAYS * DAY \<or> start_of_day now \<le> d \<or> ticks_on ts s d = []
    | Some c \<Rightarrow> start_of_day now - LOOKBACK_DAYS * DAY \<le> d \<and> d < start_of_day now \<and> ticks_on ts s d \<noteq> [] \<and>
        c_high c = Max ((fst \<circ> snd) ` set (ticks_on ts s d)) \<and> c_low c = Min ((fst \<circ> snd) ` set (ticks_on ts s d)) \<and>
        c_open c = fst (hd (ticks_of ts (s, Min ((snd \<circ> fst) ` set (ticks_on ts s d))))) \<and>
        c_close c = fst (last (ticks_of ts (s, Max ((snd \<circ> fst) ` set (ticks_on ts s d)))))"
proof -
  let ?today = "start_of_day now"
  let ?in = "\<lambda>w. ?today - LOOKBACK_DAYS * DAY \<le> w \<and> w < ?today"
  define ms where "ms = map (\<lambda>((s, w), c). (w, c)) (filter (\<lambda>((s', w), c). (s', start_of_day w) = (s, d))
      (filter (\<lambda>((s, w), c). ?in w) (final_rows minutes)))"
  have e: "(\<lambda>g ((s, w), c). append_at (s, start_of_day w) (w, c) g) =
      (\<lambda>g x. append_at ((\<lambda>((s, w), c). (s, start_of_day w)) x) ((\<lambda>((s, w), c). (w, c)) x) g)"
    by (auto simp: fun_eq_iff)
  have g: "map_of (resample_days total_of now minutes) (s, d) = (if ms = [] then None else Some (day_candle total_of ms))"
    unfolding resample_days_def Let_def map_of_map_snd e map_of_groups ms_def by (simp add: case_prod_beta)
  have day: "?in w \<longleftrightarrow> ?in d" if "start_of_day w = d" for w
  proof -
    obtain b where b: "?today = b * DAY" by (simp add: start_of_day_def)
    have d': "d = (w div DAY) * DAY" using that by (simp add: start_of_day_def)
    have "?in v \<longleftrightarrow> b - LOOKBACK_DAYS \<le> v div DAY \<and> v div DAY < b" for v
      unfolding b using mult_le_iff_div [of DAY "b - LOOKBACK_DAYS" v] mult_le_iff_div [of DAY b v]
      by (simp add: algebra_simps not_le [symmetric] del: not_le)
    then show ?thesis unfolding d' by simp
  qed
  have in_ms: "(w, c) \<in> set ms \<longleftrightarrow> start_of_day w = d \<and> ?in d \<and> ticks_of ts (s, w) \<noteq> [] \<and> c = ohlcv (ticks_of ts (s, w))" for w c
    using day [of w] by (force simp: ms_def set_final_rows m reference_candle_def split: if_splits)
  have mem: "t \<in> set (ticks_on ts s d) \<longleftrightarrow> t \<in> set ts \<and> fst (fst t) = s \<and> start_of_day (snd (fst t)) = d" for t
    by (simp add: ticks_on_def)
  have W: "fst ` set ms = (snd \<circ> fst) ` set (ticks_on ts s d)" if i: "?in d"
  proof (rule set_eqI)
    fix w
    have "w \<in> fst ` set ms \<longleftrightarrow> start_of_day w = d \<and> ticks_of ts (s, w) \<noteq> []"
      using i by (auto simp: in_ms image_iff Bex_def)
    also have "\<dots> \<longleftrightarrow> start_of_day w = d \<and> (\<exists>t \<in> set ts. fst t = (s, w))"
      by (auto simp: ticks_of_def filter_empty_conv)
    also have "\<dots> \<longleftrightarrow> w \<in> (snd \<circ> fst) ` set (ticks_on ts s d)"
      by (auto simp: mem image_iff Bex_def)
    finally show "w \<in> fst ` set ms \<longleftrightarrow> w \<in> (snd \<circ> fst) ` set (ticks_on ts s d)" .
  qed
  have A: "(\<Union>w \<in> fst ` set ms. fst ` set (ticks_of ts (s, w))) = (fst \<circ> snd) ` set (ticks_on ts s d)" if i: "?in d"
  proof (rule set_eqI)
    fix p
    have u: "p \<in> fst ` set (ticks_of ts (s, w)) \<longleftrightarrow> (\<exists>t \<in> set ts. fst t = (s, w) \<and> fst (snd t) = p)" for w
      by (auto simp: ticks_of_def image_iff Bex_def)
    have "p \<in> (\<Union>w \<in> fst ` set ms. fst ` set (ticks_of ts (s, w))) \<longleftrightarrow>
        (\<exists>t \<in> set (ticks_on ts s d). \<exists>u \<in> set ts. fst u = (s, snd (fst t)) \<and> fst (snd u) = p)"
      unfolding W [OF i] by (simp only: UN_iff u) auto
    also have "\<dots> \<longleftrightarrow> (\<exists>t \<in> set (ticks_on ts s d). fst (snd t) = p)"
      by (metis mem fst_conv snd_conv prod.collapse)
    also have "\<dots> \<longleftrightarrow> p \<in> (fst \<circ> snd) ` set (ticks_on ts s d)" by (auto simp: image_iff)
    finally show "p \<in> (\<Union>w \<in> fst ` set ms. fst ` set (ticks_of ts (s, w))) \<longleftrightarrow> p \<in> (fst \<circ> snd) ` set (ticks_on ts s d)" .
  qed
  show ?thesis
  proof (cases "ms = []")
    case True
    then show ?thesis using g W by (cases "?in d") auto
  next
    case False
    then obtain w c where wc: "(w, c) \<in> set ms" by (cases ms) auto
    then have i: "?in d" using in_ms by blast
    have f: "c' = ohlcv (ticks_of ts (s, w'))" if "(w', c') \<in> set ms" for w' c' using that in_ms by blast
    note oc = day_candle_open_close [OF wc f, where total_of = total_of]
    have ne: "fst ` set (ticks_of ts (s, w)) \<noteq> {}" if "w \<in> fst ` set ms" for w using that in_ms by auto
    have hl: "set (map (c_high \<circ> snd) ms) = (\<lambda>w. Max (fst ` set (ticks_of ts (s, w)))) ` fst ` set ms"
      "set (map (c_low \<circ> snd) ms) = (\<lambda>w. Min (fst ` set (ticks_of ts (s, w)))) ` fst ` set ms"
      using f by (force simp: image_iff ohlcv_def)+
    have "c_high (day_candle total_of ms) = Max (\<Union>w \<in> fst ` set ms. fst ` set (ticks_of ts (s, w)))"
      "c_low (day_candle total_of ms) = Min (\<Union>w \<in> fst ` set ms. fst ` set (ticks_of ts (s, w)))"
      unfolding day_candle_def Let_def candle.select_convs hl using wc ne by (intro Max_of_Max; auto)+
    then show ?thesis using g False oc W [OF i] A [OF i] i wc by (auto simp: ohlcv_def)
  qed
qed

section \<open>Tick sinks\<close>

text \<open>\<open>parse_row\<close>, and the loop the two sinks \<open>tick_clickhouse.py\<close> and \<open>stock_tick_clickhouse.py\<close> share.\<close>

record tick_row =
  w_symbol :: json
  w_price :: rat
  w_volume :: rat
  w_side :: json
  w_ts :: int
  w_seq :: int

definition parse_row :: "json option \<Rightarrow> tick_row res" where
  "parse_row v =
     rbind (loads v) (\<lambda>t.
     rbind (item_of t ''symbol'') (\<lambda>s.
     rbind (rbind (item_of t ''price'') float_of) (\<lambda>p.
     rbind (rbind (item_of t ''volume'') float_of) (\<lambda>vol.
     rbind (item_of t ''side'') (\<lambda>sd.
     rbind (rbind (rbind (item_of t ''trade_ts'') text_of) parse_iso) (\<lambda>ts.
     rbind (rbind (item_of t ''seq'') int_of) (\<lambda>q.
       Inr \<lparr>w_symbol = s, w_price = p, w_volume = vol, w_side = sd, w_ts = ts, w_seq = q\<rparr>)))))))"

record sink_system =
  ss_batch :: "tick_row list"
  ss_flush :: rat
  ss_total :: nat
  ss_rows :: "tick_row list"
  ss_read :: nat
  ss_committed :: nat

definition BATCH_SIZE :: nat where "BATCH_SIZE = 500"

definition sink_consume :: "json option list \<Rightarrow> poll \<Rightarrow> sink_system \<Rightarrow> sink_system" where
  "sink_consume topic p s =
     (case fetch topic (ss_read s) p of
        None \<Rightarrow> s
      | Some v \<Rightarrow>
          (case parse_row v of
             Inl e \<Rightarrow> s\<lparr>ss_read := Suc (ss_read s)\<rparr>
           | Inr r \<Rightarrow> s\<lparr>ss_read := Suc (ss_read s), ss_batch := ss_batch s @ [r]\<rparr>))"

text \<open>Insert and commit; \<open>None\<close> is success.\<close>

definition sink_store :: "round \<Rightarrow> sink_system \<Rightarrow> sink_system \<times> exc option" where
  "sink_store r s =
     (if \<not> r_insert r then (s, Some (RuntimeError ''insert''))
      else
        let s1 = s\<lparr>ss_rows := ss_rows s @ ss_batch s\<rparr>
        in if \<not> r_commit r then (s1, Some (RuntimeError ''commit''))
           else (s1\<lparr>ss_committed := ss_read s\<rparr>, None))"

definition sink_round :: "json option list \<Rightarrow> round \<Rightarrow> sink_system \<Rightarrow> sink_system \<times> exc option" where
  "sink_round topic r s0 =
     (let s = sink_consume topic (r_poll r) s0
      in if ss_batch s \<noteq> [] \<and> (BATCH_SIZE \<le> length (ss_batch s) \<or> FLUSH_SEC \<le> fsub (r_now r) (ss_flush s))
         then case sink_store r s of
                (s1, Some e) \<Rightarrow> (s1, Some e)
              | (s1, None) \<Rightarrow>
                  (s1\<lparr>ss_total := ss_total s1 + length (ss_batch s1), ss_batch := [], ss_flush := r_now r\<rparr>, None)
         else (s, None))"

fun sink_loop :: "json option list \<Rightarrow> round list \<Rightarrow> sink_system \<Rightarrow> sink_system \<times> exc option" where
  "sink_loop topic [] s = (s, None)"
| "sink_loop topic (r # rs) s =
     (case sink_round topic r s of (s', Some e) \<Rightarrow> (s', Some e) | (s', None) \<Rightarrow> sink_loop topic rs s')"

definition sink_start :: "rat \<Rightarrow> sink_system \<Rightarrow> sink_system" where
  "sink_start now s = s\<lparr>ss_batch := [], ss_flush := now, ss_total := 0, ss_read := ss_committed s\<rparr>"

definition sink_finally :: "round \<Rightarrow> sink_system \<Rightarrow> sink_system" where
  "sink_finally r s = (if ss_batch s \<noteq> [] then fst (sink_store r s) else s)"

text \<open>The life of a process: it starts at the committed offset, works some rounds and ends with the \<open>finally\<close>
  block, or is killed without it.\<close>

definition sink_life :: "json option list \<Rightarrow> sink_system \<Rightarrow> rat \<times> round list \<times> round option \<Rightarrow> sink_system" where
  "sink_life topic s life =
     (case life of (now, rs, fin) \<Rightarrow>
        let s' = fst (sink_loop topic rs (sink_start now s))
        in (case fin of None \<Rightarrow> s' | Some r \<Rightarrow> sink_finally r s'))"

section \<open>The sinks lose nothing\<close>

definition good_rows :: "json option list \<Rightarrow> tick_row list" where
  "good_rows topic = concat (map (\<lambda>v. case parse_row v of Inl e \<Rightarrow> [] | Inr r \<Rightarrow> [r]) topic)"

lemma good_rows_append [simp]: "good_rows (xs @ ys) = good_rows xs @ good_rows ys"
  by (simp add: good_rows_def)

definition sink_stored :: "json option list \<Rightarrow> sink_system \<Rightarrow> bool" where
  "sink_stored topic s \<longleftrightarrow>
     set (good_rows (take (ss_committed s) topic)) \<subseteq> set (ss_rows s) \<and> set (ss_rows s) \<subseteq> set (good_rows topic)"

definition sink_inv :: "json option list \<Rightarrow> sink_system \<Rightarrow> bool" where
  "sink_inv topic s \<longleftrightarrow> sink_stored topic s \<and> ss_committed s \<le> ss_read s \<and> ss_read s \<le> length topic \<and>
     set (good_rows (take (ss_read s) topic)) \<subseteq> set (ss_rows s) \<union> set (ss_batch s) \<and> set (ss_batch s) \<subseteq> set (good_rows topic)"

lemma sink_consume_inv:
  assumes "sink_inv topic s"
  shows "sink_inv topic (sink_consume topic p s)"
proof (cases "fetch topic (ss_read s) p")
  case None
  then show ?thesis using assms by (simp add: sink_consume_def)
next
  case (Some v)
  then have n: "ss_read s < length topic" "v = topic ! ss_read s" by (auto simp: fetch_def split: if_splits)
  then have t: "good_rows (take (Suc (ss_read s)) topic) = good_rows (take (ss_read s) topic) @ good_rows [v]"
    by (simp add: take_Suc_conv_app_nth)
  have "set (good_rows [v]) \<subseteq> set (good_rows topic)"
    using id_take_nth_drop [OF n(1)] n(2) by (metis good_rows_append append_Cons append_Nil set_append Un_upper1 Un_upper2 subset_trans)
  then show ?thesis using assms Some n(1) t
    by (auto simp: sink_consume_def sink_inv_def sink_stored_def good_rows_def [of "[v]"] split: sum.splits)
qed

lemma sink_store_inv:
  assumes "sink_inv topic s" "sink_store r s = (s', e)"
  shows "sink_inv topic s'" "e = None \<Longrightarrow> set (good_rows (take (ss_read s') topic)) \<subseteq> set (ss_rows s')"
  using assms by (auto simp: sink_store_def sink_inv_def sink_stored_def Let_def split: if_splits)

lemma sink_round_inv:
  assumes "sink_inv topic s" "sink_round topic r s = (s', e)"
  shows "sink_inv topic s'"
proof -
  let ?s = "sink_consume topic (r_poll r) s"
  note i = sink_consume_inv [OF assms(1), of "r_poll r"]
  obtain s1 e1 where st: "sink_store r ?s = (s1, e1)" by (metis surj_pair)
  note S = sink_store_inv [OF i st]
  have "sink_inv topic (s1\<lparr>ss_total := n, ss_batch := [], ss_flush := x\<rparr>)" if "e1 = None" for n x
    using S that by (simp add: sink_inv_def sink_stored_def)
  then show ?thesis using assms(2) i st S(1) by (auto simp: sink_round_def Let_def split: if_splits option.splits)
qed

lemma sink_loop_inv:
  "sink_inv topic s \<Longrightarrow> sink_loop topic rs s = (s', e) \<Longrightarrow> sink_inv topic s'"
proof (induction rs arbitrary: s)
  case (Cons r rs)
  then show ?case using sink_round_inv [OF Cons.prems(1)] by (auto split: prod.splits option.splits)
qed simp

lemma sink_life_stored:
  assumes "sink_stored topic s" "ss_committed s \<le> length topic"
  shows "sink_stored topic (sink_life topic s life) \<and> ss_committed (sink_life topic s life) \<le> length topic"
proof -
  obtain now rs fin where l: "life = (now, rs, fin)" by (cases life)
  obtain s' e where r: "sink_loop topic rs (sink_start now s) = (s', e)" by (metis surj_pair)
  have "sink_inv topic (sink_start now s)" using assms by (auto simp: sink_inv_def sink_stored_def sink_start_def)
  from sink_loop_inv [OF this r] have i: "sink_inv topic s'" .
  have "sink_inv topic (case fin of None \<Rightarrow> s' | Some r \<Rightarrow> sink_finally r s')"
    using i sink_store_inv(1) [OF i prod.collapse [symmetric]] by (auto simp: sink_finally_def split: option.split)
  then show ?thesis using l r by (auto simp: sink_life_def sink_inv_def)
qed

definition new_sink :: sink_system where
  "new_sink = \<lparr>ss_batch = [], ss_flush = 0, ss_total = 0, ss_rows = [], ss_read = 0, ss_committed = 0\<rparr>"

text \<open>C19: The tick sinks lose nothing: over any sequence of process lives, ended in order or killed, with any
  inserts and commits failing, every valid message before the committed offset is in the table, every row
  of the table is a valid message of the topic, and a process that stops in order with a working
  database has stored every valid message it has read.\<close>

theorem sink_at_least_once:
  "sink_stored topic (foldl (sink_life topic) new_sink lives) \<and>
   (let s = foldl (sink_life topic) new_sink lives; (s', e) = sink_loop topic rs (sink_start now s)
    in set (good_rows (take (ss_read s') topic)) \<subseteq> set (ss_rows (sink_finally \<lparr>r_poll = Silent, r_now = 0, r_insert = True, r_commit = True\<rparr> s')))"
proof -
  have f: "sink_stored topic (foldl (sink_life topic) s lives) \<and> ss_committed (foldl (sink_life topic) s lives) \<le> length topic"
    if "sink_stored topic s" "ss_committed s \<le> length topic" for s
    using that by (induction lives arbitrary: s) (auto simp: sink_life_stored)
  let ?s = "foldl (sink_life topic) new_sink lives"
  have i: "sink_stored topic ?s \<and> ss_committed ?s \<le> length topic"
    by (rule f) (simp_all add: new_sink_def sink_stored_def good_rows_def)
  obtain s' e where r: "sink_loop topic rs (sink_start now ?s) = (s', e)" by (metis surj_pair)
  have "sink_inv topic (sink_start now ?s)" using i by (auto simp: sink_inv_def sink_stored_def sink_start_def)
  from sink_loop_inv [OF this r] have "sink_inv topic s'" .
  then show ?thesis using i r by (auto simp: Let_def sink_inv_def sink_finally_def sink_store_def)
qed

end
