(* ===== verification/Timestamps.thy ===== *)
theory Timestamps
  imports Streaming
begin

text \<open>
  Timestamps as text: \<open>datetime.isoformat\<close> of an instant in UTC, which the ingesters, the token cache and
  the order writers use, and its inverse \<open>datetime.fromisoformat\<close>, which the consumers use
  (\<open>parse_iso\<close> of the theory \<open>Streaming\<close>).
\<close>

section \<open>The civil date of an ordinal\<close>

definition month_of :: "int \<Rightarrow> int \<Rightarrow> int" where
  "month_of y r = int (length (filter (\<lambda>m. days_before_month y m < r) [1, 2, 3, 4, 5, 6, 7, 8, 9, 10, 11, 12]))"

definition civil :: "int \<Rightarrow> int \<times> int \<times> int" where
  "civil n =
     (let y = year_of n; r = n - days_before_year y; m = month_of y r
      in (y, m, r - days_before_month y m))"

lemma div_step:
  fixes y k :: int
  assumes k: "1 < k"
  shows "y div k = (y - 1) div k + (if y mod k = 0 then 1 else 0)"
proof -
  define q where "q = (y - 1) div k"
  define r where "r = (y - 1) mod k"
  have r: "0 \<le> r" "r < k" and y: "y = q * k + (r + 1)" using k div_mult_mod_eq [of "y - 1" k] by (simp_all add: q_def r_def)
  show ?thesis
  proof (cases "r + 1 = k")
    case True
    then have "y = (q + 1) * k" using y by (simp add: distrib_right)
    then have "y div k = q + 1" "y mod k = 0" using k by simp_all
    then show ?thesis by (simp add: q_def)
  next
    case False
    then have "r + 1 < k" using r by simp
    then have "y div k = q" "y mod k = r + 1" using r y by simp_all
    then show ?thesis using r by (simp add: q_def)
  qed
qed

lemma days_in_year: "days_before_year (y + 1) - days_before_year y = (if leap y then 366 else 365)"
proof -
  have d: "y div k - (y - 1) div k = (if y mod k = 0 then 1 else 0)" if "1 < k" for k using div_step [OF that, of y] by simp
  have e: "days_before_year (y + 1) - days_before_year y
      = 365 + (y div 4 - (y - 1) div 4) - (y div 100 - (y - 1) div 100) + (y div 400 - (y - 1) div 400)"
    by (simp add: days_before_year_def)
  have m4: "y mod 4 = 0" if "y mod 100 = 0" using that by presburger
  have m100: "y mod 100 = 0" if "y mod 400 = 0"
    using dvd_trans [of 100 400 y] that by (simp add: mod_eq_0_iff_dvd)
  have b: "365 + (if a then 1 else 0) - (if b then 1 else 0) + (if c then 1 else 0) = (if a \<and> (\<not> b \<or> c) then 366 else 365 :: int)"
    if "b \<longrightarrow> a" "c \<longrightarrow> b" for a b c using that by (cases a; cases b; cases c) simp_all
  have n: "(1::int) < 4" "(1::int) < 100" "(1::int) < 400" by simp_all
  show ?thesis unfolding e leap_def d [OF n(1)] d [OF n(2)] d [OF n(3)] by (rule b) (use m4 m100 in blast)+
qed

lemma month_of_bounds:
  assumes r: "1 \<le> r" "r \<le> (if leap y then 366 else 365)"
  defines "m \<equiv> month_of y r"
  shows "1 \<le> m \<and> m \<le> 12 \<and> 1 \<le> r - days_before_month y m \<and> r - days_before_month y m \<le> days_in_month y m"
proof -
  define l :: int where "l = (if leap y then 1 else 0)"
  have l: "0 \<le> l" "l \<le> 1" "r \<le> 365 + l" using r by (auto simp: l_def)
  have db: "days_before_month y k = [0, 31, 59, 90, 120, 151, 181, 212, 243, 273, 304, 334] ! nat (k - 1) + (if 2 < k then l else 0)" for k
    by (simp add: days_before_month_def l_def)
  have mo: "m = int (length (filter (\<lambda>m. days_before_month y m < r) [1, 2, 3, 4, 5, 6, 7, 8, 9, 10, 11, 12]))"
    by (simp add: m_def month_of_def)
  have dm: "days_in_month y k = (if k = 12 then 31 else days_before_month y (k + 1) - days_before_month y k)" for k
    by (simp add: days_in_month_def date_def)
  consider "r \<le> 31" | "\<not> r \<le> 31" "r \<le> 59 + l" | "\<not> r \<le> 59 + l" "r \<le> 90 + l" | "\<not> r \<le> 90 + l" "r \<le> 120 + l"
    | "\<not> r \<le> 120 + l" "r \<le> 151 + l" | "\<not> r \<le> 151 + l" "r \<le> 181 + l" | "\<not> r \<le> 181 + l" "r \<le> 212 + l" | "\<not> r \<le> 212 + l" "r \<le> 243 + l"
    | "\<not> r \<le> 243 + l" "r \<le> 273 + l" | "\<not> r \<le> 273 + l" "r \<le> 304 + l" | "\<not> r \<le> 304 + l" "r \<le> 334 + l" | "\<not> r \<le> 334 + l"
    by blast
  then show ?thesis by cases (use r(1) l in \<open>simp_all add: mo dm db\<close>)
qed

lemma civil_date:
  assumes n: "1 \<le> n" and c: "civil n = (y, m, d)"
  shows "date y m d = n" "1 \<le> y" "1 \<le> m" "m \<le> 12" "1 \<le> d" "d \<le> days_in_month y m"
proof -
  let ?r = "n - days_before_year (year_of n)"
  have y: "y = year_of n" and m: "m = month_of (year_of n) ?r" and d: "d = ?r - days_before_month y m"
    using c by (auto simp: civil_def Let_def)
  have "1 \<le> ?r" "?r \<le> (if leap (year_of n) then 366 else 365)"
    using year_of_bounds [of n] days_in_year [of "year_of n"] by (auto split: if_splits)
  from month_of_bounds [OF this] show "1 \<le> m" "m \<le> 12" "1 \<le> d" "d \<le> days_in_month y m" by (simp_all add: y m d [unfolded y m])
  show "date y m d = n" by (simp add: date_def y d)
  show "1 \<le> y" using year_of_pos [OF n] y by simp
qed

section \<open>Writing a timestamp\<close>

fun pad :: "nat \<Rightarrow> nat \<Rightarrow> string" where
  "pad 0 n = []"
| "pad (Suc k) n = digit_char (n div 10 ^ k mod 10) # pad k n"

definition isoformat :: "int \<Rightarrow> string" where
  "isoformat t =
     (case civil (EPOCH + t div DAY) of (y, mo, d) \<Rightarrow>
        let s = t mod DAY div SECOND; u = t mod SECOND
        in pad 4 (nat y) @ ''-'' @ pad 2 (nat mo) @ ''-'' @ pad 2 (nat d) @ ''T'' @ pad 2 (nat (s div 3600)) @ '':'' @
           pad 2 (nat (s div 60 mod 60)) @ '':'' @ pad 2 (nat (s mod 60)) @
           (if u = 0 then '''' else ''.'' @ pad 6 (nat u)) @ ''+00:00'')"

lemma length_pad [simp]: "length (pad k n) = k" by (induction k) simp_all

lemma digits_pad: "list_all Kis.is_digit (pad k n)"
  by (induction k) (simp_all add: digit_char_digit [unfolded MarketTime.is_digit_def, folded Kis.is_digit_def])

lemma foldl_pad: "foldl (\<lambda>m ch. 10 * m + digit_val ch) a (pad k n) = a * 10 ^ k + n mod 10 ^ k"
proof (induction k arbitrary: a)
  case (Suc k)
  have "n mod 10 ^ Suc k = n div 10 ^ k mod 10 * 10 ^ k + n mod 10 ^ k"
    using mod_mult2_eq [of n "10 ^ k" 10] by (simp add: mult.commute)
  then show ?case using Suc by (simp add: digit_char_val distrib_right)
qed simp

lemma atoi_pad: "n < 10 ^ k \<Longrightarrow> atoi (pad k n) = n"
  by (simp add: atoi_def foldl_pad)

lemma digits_pad_Suc: "digits (pad (Suc k) n)"
  using digits_pad [of "Suc k" n] by (simp add: digits_def)

text \<open>The positions of the fields.\<close>

lemma fields:
  fixes y mo d h mi s z :: string
  assumes "length y = 4" "length mo = 2" "length d = 2" "length h = 2" "length mi = 2" "length s = 2"
  defines "text \<equiv> y @ ''-'' @ mo @ ''-'' @ d @ ''T'' @ h @ '':'' @ mi @ '':'' @ s @ z"
  shows "take 4 (drop 0 text) = y" "take 1 (drop 4 text) = ''-''" "take 2 (drop 5 text) = mo" "take 1 (drop 7 text) = ''-''"
    "take 2 (drop 8 text) = d" "take 1 (drop 10 text) = ''T''" "take 2 (drop 11 text) = h" "take 1 (drop 13 text) = '':''"
    "take 2 (drop 14 text) = mi" "take 1 (drop 16 text) = '':''" "take 2 (drop 17 text) = s" "drop 19 text = z"
    "length text = 19 + length z"
  using assms by simp_all

lemma digits_pad_pos: "0 < k \<Longrightarrow> digits (pad k n)"
  by (cases k) (simp_all only: digits_pad_Suc not_less_zero)

lemma days_before_year_mono: "a \<le> b \<Longrightarrow> days_before_year a \<le> days_before_year b"
proof (induction b rule: int_ge_induct)
  case (step b)
  then show ?case using days_in_year [of b] by (simp split: if_splits)
qed simp

lemma year_at_most: "n \<le> 3652059 \<Longrightarrow> year_of n \<le> 9999"
  using days_before_year_mono [of 10000 "year_of n"] year_of_bounds [of n] by (fastforce simp: days_before_year_def [of 10000])

lemma days_in_month_le:
  assumes "1 \<le> m" "m \<le> 12"
  shows "days_in_month y m \<le> 31"
proof -
  have "m \<in> set [1..12]" using assms by simp
  moreover have "[1..12] = [1, 2, 3, 4, 5, 6, 7, 8, 9, 10, 11, 12 :: int]" by code_simp
  ultimately have "m \<in> set [1, 2, 3, 4, 5, 6, 7, 8, 9, 10, 11, 12]" by (simp only:)
  then show ?thesis by (auto simp: days_in_month_def date_def days_before_month_def)
qed

lemma time_of_day:
  fixes t :: int
  defines "s \<equiv> t mod DAY div SECOND" and "u \<equiv> t mod SECOND"
  shows "0 \<le> s" "s < 86400" "0 \<le> u" "u < SECOND" "t div DAY * DAY + s * SECOND + u = t"
    "s div 3600 * 3600 + s div 60 mod 60 * 60 + s mod 60 = s"
proof -
  have u: "u = t mod DAY mod SECOND" unfolding u_def by (rule mod_mod_cancel [symmetric]) simp
  have su: "s * SECOND + u = t mod DAY" unfolding u s_def by (rule div_mult_mod_eq)
  show u0: "0 \<le> u" "u < SECOND" by (simp_all add: u_def)
  have d: "0 \<le> t mod DAY" "t mod DAY < DAY" by simp_all
  show "0 \<le> s" unfolding s_def using d(1) by (simp add: pos_imp_zdiv_nonneg_iff)
  show "s < 86400" using su u0 d by linarith
  show "t div DAY * DAY + s * SECOND + u = t" using su div_mult_mod_eq [of t DAY] by linarith
  have "s div 60 div 60 * 60 + s div 60 mod 60 = s div 60" by (rule div_mult_mod_eq)
  moreover have "s div 60 * 60 + s mod 60 = s" by (rule div_mult_mod_eq)
  moreover have "s div 3600 = s div 60 div 60" using zdiv_zmult2_eq [of 60 s 60] by simp
  ultimately show "s div 3600 * 3600 + s div 60 mod 60 * 60 + s mod 60 = s" by linarith
qed

definition stamp :: "int \<Rightarrow> int \<Rightarrow> int \<Rightarrow> int \<Rightarrow> int \<Rightarrow> int \<Rightarrow> int \<Rightarrow> string" where
  "stamp y mo d h mi s u =
     pad 4 (nat y) @ ''-'' @ pad 2 (nat mo) @ ''-'' @ pad 2 (nat d) @ ''T'' @ pad 2 (nat h) @ '':'' @
     pad 2 (nat mi) @ '':'' @ pad 2 (nat s) @ (if u = 0 then '''' else ''.'' @ pad 6 (nat u)) @ ''+00:00''"

lemma parse_stamp:
  assumes y: "1 \<le> y" "y < 10000" and mo: "1 \<le> mo" "mo \<le> 12" and d: "1 \<le> d" "d \<le> days_in_month y mo"
    and h: "0 \<le> h" "h < 24" and mi: "0 \<le> mi" "mi < 60" and s: "0 \<le> s" "s < 60" and u: "0 \<le> u" "u < SECOND"
  shows "parse_iso (stamp y mo d h mi s u) = Inr ((date y mo d - EPOCH) * DAY + (h * 3600 + mi * 60 + s) * SECOND + u)"
proof -
  define z where "z = (if u = 0 then '''' else ''.'' @ pad 6 (nat u)) @ ''+00:00''"
  have d100: "d < 100" using days_in_month_le [OF mo, of y] d by simp
  note F = fields [of "pad 4 (nat y)" "pad 2 (nat mo)" "pad 2 (nat d)" "pad 2 (nat h)" "pad 2 (nat mi)" "pad 2 (nat s)" z,
      folded z_def stamp_def [of y mo d h mi s u, folded z_def], OF length_pad length_pad length_pad length_pad length_pad length_pad]
  have a: "int (atoi (pad 4 (nat y))) = y" "int (atoi (pad 2 (nat mo))) = mo" "int (atoi (pad 2 (nat d))) = d"
    "int (atoi (pad 2 (nat h))) = h" "int (atoi (pad 2 (nat mi))) = mi" "int (atoi (pad 2 (nat s))) = s" "int (atoi (pad 6 (nat u))) = u"
    using assms d100 by (simp_all add: atoi_pad)
  have g: "take m (drop (19 + i) (stamp y mo d h mi s u)) = take m (drop i z)" for i m
    unfolding add.commute [of 19] drop_drop [symmetric] F(12) ..
  note G = g [of _ 0, simplified] g [of _ 1, simplified] g [of _ 7, simplified]
  show ?thesis
    unfolding parse_iso_def Let_def F G using assms
    by (cases "u = 0") (simp_all add: a z_def digits_pad_pos)
qed

text \<open>A timestamp written with \<open>isoformat\<close> is read back by \<open>fromisoformat\<close> as the same instant, with or
  without microseconds, for every instant a \<open>datetime\<close> can hold.\<close>

lemma parse_isoformat:
  assumes t: "1 \<le> EPOCH + t div DAY" "EPOCH + t div DAY \<le> 3652059"
  shows "parse_iso (isoformat t) = Inr t"
proof -
  obtain y mo d where c: "civil (EPOCH + t div DAY) = (y, mo, d)" by (metis prod_cases3)
  note C = civil_date [OF t(1) c]
  define s u where "s = t mod DAY div SECOND" and "u = t mod SECOND"
  note S = time_of_day [of t, folded s_def u_def]
  have y: "y < 10000" using year_at_most [OF t(2)] c by (auto simp: civil_def Let_def)
  have m: "0 \<le> s div 60 mod 60" "s div 60 mod 60 < 60" "0 \<le> s mod 60" "s mod 60 < 60" by simp_all
  then have h: "s div 3600 < 24" using S(2,6) by linarith
  have h0: "0 \<le> s div 3600" using S(1) by (simp add: pos_imp_zdiv_nonneg_iff)
  have "isoformat t = stamp y mo d (s div 3600) (s div 60 mod 60) (s mod 60) u"
    by (simp add: isoformat_def stamp_def c s_def u_def Let_def)
  then have "parse_iso (isoformat t) = Inr ((date y mo d - EPOCH) * DAY + (s div 3600 * 3600 + s div 60 mod 60 * 60 + s mod 60) * SECOND + u)"
    using parse_stamp [OF C(2) y C(3-6) h0 h m S(3,4)] by (simp only:)
  also have "\<dots> = Inr t" by (simp only: C(1) S(6) add_diff_cancel_left' S(5))
  finally show ?thesis .
qed

end
