(* ===== verification/Transport.thy ===== *)
theory Transport
  imports Timestamps
begin

text \<open>
  What every call to an outside service goes through: the rate limiter \<open>common/rate_limit.py\<close>, the token
  cache \<open>common/oauth_token.py\<close> with the token requests of the three brokers
  (\<open>common/broker/kis_client.py\<close>, \<open>kiwoom_client.py\<close>, \<open>toss_client.py\<close>) and the delivery watchdog
  \<open>common/kafka_watchdog.py\<close>.

  The monotonic clock is a float read from the world; each check of a bucket happens under its lock and is
  one step, so concurrent callers are a sequence of checks.
\<close>

section \<open>The rate limiter\<close>

record bucket =
  b_rate :: rat
  b_capacity :: rat
  b_tokens :: rat
  b_last :: rat

definition new_bucket :: "rat \<Rightarrow> rat option \<Rightarrow> rat \<Rightarrow> bucket" where
  "new_bucket rate capacity now =
     (let cap = (case capacity of None \<Rightarrow> 1 | Some x \<Rightarrow> x)
      in \<lparr>b_rate = rate, b_capacity = cap, b_tokens = cap, b_last = now\<rparr>)"

definition refill :: "bucket \<Rightarrow> rat \<Rightarrow> bucket" where
  "refill b now =
     b\<lparr>b_tokens := min (b_capacity b) (fadd (b_tokens b) (fmul (fsub now (b_last b)) (b_rate b))), b_last := now\<rparr>"

text \<open>One check under the lock: granted, or the time to wait.\<close>

definition check_bucket :: "rat \<Rightarrow> rat \<Rightarrow> bucket \<Rightarrow> bucket \<times> rat option" where
  "check_bucket n now b =
     (let b1 = refill b now
      in if n \<le> b_tokens b1 then (b1\<lparr>b_tokens := fsub (b_tokens b1) n\<rparr>, None)
         else (b1, Some (fquo (fsub n (b_tokens b1)) (b_rate b1))))"

partial_function (option) acquire_loop ::
  "('w \<Rightarrow> rat) \<Rightarrow> (rat \<Rightarrow> 'w \<Rightarrow> 'w) \<Rightarrow> rat \<Rightarrow> bucket \<Rightarrow> 'w \<Rightarrow> (bucket \<times> 'w) option" where
  "acquire_loop now_of sleep n b w =
     (case check_bucket n (now_of w) b of
        (b', None) \<Rightarrow> Some (b', w)
      | (b', Some t) \<Rightarrow> acquire_loop now_of sleep n b' (sleep t w))"

text \<open>The table of limits and the shared buckets.\<close>

definition DEFAULT_RATES :: "(string \<times> rat) list" where
  "DEFAULT_RATES =
     [(''upbit:quotation'', 10), (''upbit:order'', 8), (''upbit:exchange'', 30), (''kis:rest'', 2), (''toss:AUTH'', 5),
      (''toss:MARKET_DATA'', 5), (''toss:MARKET_DATA_CHART'', 5), (''kiwoom:tr'', 1), (''telegram:send'', 1), (''telegram:bot'', 1)]"

definition limiter :: "string \<Rightarrow> string \<Rightarrow> rat option \<Rightarrow> rat \<Rightarrow> (string \<times> bucket) list \<Rightarrow> ((string \<times> bucket) list \<times> bucket) res" where
  "limiter provider grp rate now tab =
     (let key = provider @ '':'' @ grp
      in case map_of tab key of
           Some b \<Rightarrow> Inr (tab, b)
         | None \<Rightarrow>
             (case (case rate of None \<Rightarrow> map_of DEFAULT_RATES key | Some r \<Rightarrow> Some r) of
                None \<Rightarrow> Inl (KeyError key)
              | Some r \<Rightarrow> let b = new_bucket r None now in Inr (AList.update key b tab, b)))"

definition acquire ::
  "('w \<Rightarrow> rat) \<Rightarrow> (rat \<Rightarrow> 'w \<Rightarrow> 'w) \<Rightarrow> string \<Rightarrow> string \<Rightarrow> rat \<Rightarrow> rat option \<Rightarrow> (string \<times> bucket) list \<Rightarrow> 'w
   \<Rightarrow> ((string \<times> bucket) list \<times> 'w) res option" where
  "acquire now_of sleep provider grp n rate tab w =
     (case limiter provider grp rate (now_of w) tab of
        Inl e \<Rightarrow> Some (Inl e)
      | Inr (tab', b) \<Rightarrow>
          map_option (\<lambda>(b', w'). Inr (AList.update (provider @ '':'' @ grp) b' tab', w')) (acquire_loop now_of sleep n b w))"

section \<open>The limit is kept\<close>

text \<open>A history of checks of one bucket, each with its request and clock reading; the sum of what was granted.\<close>

fun checks :: "bucket \<Rightarrow> (rat \<times> rat) list \<Rightarrow> bucket \<times> rat" where
  "checks b [] = (b, 0)"
| "checks b ((n, now) # cs) =
     (let (b', r) = check_bucket n now b; (b'', g) = checks b' cs in (b'', (if r = None then n else 0) + g))"

text \<open>The largest factor by which one rounding can raise a float.\<close>

definition ulp :: rat where "ulp = 1 + 1 / 2 ^ 53"

lemma ulp_ge_1 [simp]: "1 \<le> ulp" by (simp add: ulp_def)

lemma ulp_pos [simp]: "0 \<le> ulp" "0 < ulp" by (simp_all add: ulp_def)

lemma fl_error: "\<bar>fl x - x\<bar> \<le> \<bar>x\<bar> / 2 ^ 53"
  using rnd_error [of 2 53 x] by (simp add: power_int_minus field_simps)

lemma fl_le:
  assumes "0 \<le> x"
  shows "fl x \<le> x * ulp"
proof -
  have "x * ulp = x + x / 2 ^ 53" by (simp only: ulp_def distrib_left mult_1_right times_divide_eq_right)
  moreover have "fl x - x \<le> x / 2 ^ 53" using abs_le_D1 [OF fl_error [of x]] assms by simp
  ultimately show ?thesis by linarith
qed

lemma fl_ge:
  assumes "0 \<le> x"
  shows "x - x / 2 ^ 53 \<le> fl x"
proof -
  have "- (fl x - x) \<le> x / 2 ^ 53" using abs_le_D2 [OF fl_error [of x]] assms by simp
  then show ?thesis by linarith
qed

definition sane_bucket :: "bucket \<Rightarrow> bool" where
  "sane_bucket b \<longleftrightarrow> 0 \<le> b_rate b \<and> 0 \<le> b_capacity b \<and> 0 \<le> b_tokens b"

lemma refill_bounds:
  assumes b: "sane_bucket b" and t: "b_last b \<le> now"
  shows "0 \<le> b_tokens (refill b now)" "b_tokens (refill b now) \<le> (b_tokens b + b_rate b * (now - b_last b)) * ulp ^ 3"
proof -
  let ?d = "now - b_last b" and ?x = "fsub now (b_last b)" and ?y = "fmul (fsub now (b_last b)) (b_rate b)"
  have nn: "0 \<le> ?d" "0 \<le> b_rate b" "0 \<le> b_tokens b" "0 \<le> b_capacity b" using b t by (auto simp: sane_bucket_def)
  note u = ulp_ge_1
  have x: "0 \<le> ?x" "?x \<le> ?d * ulp" using nn fl_le [of ?d] by (auto simp: fsub_def)
  have y0: "0 \<le> ?y" using x nn by (simp add: fmul_def)
  have "?y \<le> ?x * b_rate b * ulp" using x nn fl_le [of "?x * b_rate b"] by (simp add: fmul_def)
  also have "\<dots> \<le> ?d * ulp * b_rate b * ulp" using x nn u by (intro mult_right_mono) auto
  finally have y: "?y \<le> b_rate b * ?d * ulp ^ 2" by (simp add: power2_eq_square mult.assoc mult.left_commute)
  have "fadd (b_tokens b) ?y \<le> (b_tokens b + ?y) * ulp" using nn y0 fl_le [of "b_tokens b + ?y"] by (simp add: fadd_def)
  also have "\<dots> \<le> (b_tokens b * ulp ^ 2 + b_rate b * ?d * ulp ^ 2) * ulp"
    using nn y u mult_left_mono [OF one_le_power [OF u, of 2] nn(3)] by (intro mult_right_mono add_mono) auto
  finally have "fadd (b_tokens b) ?y \<le> (b_tokens b + b_rate b * ?d) * ulp ^ 3"
    by (simp add: power2_eq_square power3_eq_cube distrib_right mult.assoc)
  then show "b_tokens (refill b now) \<le> (b_tokens b + b_rate b * ?d) * ulp ^ 3"
    by (simp add: refill_def min.coboundedI2)
  show "0 \<le> b_tokens (refill b now)" using nn y0 by (simp add: refill_def fadd_def)
qed

lemma check_bucket_bounds:
  assumes b: "sane_bucket b" and t: "b_last b \<le> now" and n: "0 \<le> n" and c: "check_bucket n now b = (b', r)"
  shows "sane_bucket b'" "b_last b' = now" "b_rate b' = b_rate b"
    "b_tokens b' + (if r = None then n else 0) \<le> (b_tokens b + b_rate b * (now - b_last b)) * ulp ^ 4"
proof -
  let ?b = "refill b now" and ?s = "b_tokens b + b_rate b * (now - b_last b)"
  note R = refill_bounds [OF b t]
  have s0: "0 \<le> ?s" using b t by (auto simp: sane_bucket_def)
  have p: "?s * ulp ^ 3 \<le> ?s * ulp ^ 4" by (intro mult_left_mono power_increasing) (use s0 in auto)
  have f: "sane_bucket ?b" "b_last ?b = now" "b_rate ?b = b_rate b"
    using b R(1) by (auto simp: refill_def sane_bucket_def)
  show "sane_bucket b'" "b_last b' = now" "b_rate b' = b_rate b"
    using c f by (auto simp: check_bucket_def Let_def sane_bucket_def fsub_def split: if_splits)
  show "b_tokens b' + (if r = None then n else 0) \<le> ?s * ulp ^ 4"
  proof (cases "n \<le> b_tokens ?b")
    case True
    have "fsub (b_tokens ?b) n \<le> (b_tokens ?b - n) * ulp" using True fl_le [of "b_tokens ?b - n"] by (simp add: fsub_def)
    then have "fsub (b_tokens ?b) n + n \<le> b_tokens ?b * ulp"
      using mult_left_mono [OF ulp_ge_1 n] by (simp add: left_diff_distrib)
    also have "\<dots> \<le> ?s * ulp ^ 3 * ulp" using R(2) by (intro mult_right_mono) auto
    also have "\<dots> = ?s * ulp ^ 4" by (simp add: power_Suc2 [symmetric] mult.assoc)
    finally show ?thesis using c True by (auto simp: check_bucket_def Let_def)
  next
    case False
    then show ?thesis using c R(2) p by (auto simp: check_bucket_def Let_def)
  qed
qed

lemma checks_bound:
  assumes "sane_bucket b" "sorted (b_last b # map snd cs)" "list_all (\<lambda>(n, t). 0 \<le> n) cs" "checks b cs = (b', g)"
  shows "b_tokens b' + g \<le> (b_tokens b + b_rate b * (last (b_last b # map snd cs) - b_last b)) * ulp ^ (4 * length cs)"
  using assms
proof (induction cs arbitrary: b g)
  case (Cons x cs)
  obtain n now where x: "x = (n, now)" by (cases x)
  obtain b1 r where c: "check_bucket n now b = (b1, r)" by (metis surj_pair)
  obtain g' where g: "checks b1 cs = (b', g')" "g = (if r = None then n else 0) + g'"
    using Cons.prems(4) x c by (auto split: prod.splits)
  have t: "b_last b \<le> now" and n: "0 \<le> n" using Cons.prems(2,3) x by auto
  note B = check_bucket_bounds [OF Cons.prems(1) t n c]
  have ih: "b_tokens b' + g' \<le> (b_tokens b1 + b_rate b * (last (now # map snd cs) - now)) * ulp ^ (4 * length cs)"
    using Cons.IH [OF B(1) _ _ g(1)] Cons.prems(2,3) x B(2,3) by simp
  let ?g1 = "if r = None then n else 0" and ?rest = "b_rate b * (last (now # map snd cs) - now)"
    and ?d = "b_tokens b + b_rate b * (now - b_last b)" and ?U = "ulp ^ (4 * length cs)"
  have U: "1 \<le> ?U" by (intro one_le_power) simp
  have "now \<le> last (now # map snd cs)" using Cons.prems(2) x by (cases cs rule: rev_cases) auto
  then have rest: "0 \<le> ?rest" using Cons.prems(1) by (simp add: sane_bucket_def)
  have "b_tokens b' + g \<le> ?g1 * ?U + (b_tokens b1 + ?rest) * ?U"
    using ih g(2) mult_left_mono [OF U, of ?g1] n by (cases r) (simp_all add: distrib_right)
  also have "\<dots> = (b_tokens b1 + ?g1 + ?rest) * ?U" by (simp add: algebra_simps)
  also have "\<dots> \<le> (?d * ulp ^ 4 + ?rest * ulp ^ 4) * ?U"
  proof (intro mult_right_mono add_mono B(4))
    show "?rest \<le> ?rest * ulp ^ 4" using rest mult_left_mono [OF one_le_power [of ulp 4] rest] by simp
  qed (use U in auto)
  also have "\<dots> = (?d + ?rest) * ulp ^ (4 * length (x # cs))"
    by (simp add: power_add distrib_right mult.assoc)
  also have "?d + ?rest = b_tokens b + b_rate b * (last (b_last b # map snd (x # cs)) - b_last b)"
    using x by (simp add: algebra_simps)
  finally show ?case .
qed (auto simp: sane_bucket_def)

definition full_bucket :: "bucket \<Rightarrow> bool" where
  "full_bucket b \<longleftrightarrow> sane_bucket b \<and> fl (b_capacity b) = b_capacity b \<and> b_tokens b \<le> b_capacity b"

lemma check_bucket_full:
  assumes b: "full_bucket b" and t: "b_last b \<le> now" and n: "0 \<le> n" and c: "check_bucket n now b = (b', r)"
  shows "full_bucket b'" "b_last b' = now" "b_rate b' = b_rate b" "b_capacity b' = b_capacity b"
proof -
  have s: "sane_bucket b" and f: "fl (b_capacity b) = b_capacity b" using b by (auto simp: full_bucket_def)
  note B = check_bucket_bounds [OF s t n c]
  show "b_last b' = now" "b_rate b' = b_rate b" by (fact B)+
  show k: "b_capacity b' = b_capacity b" using c by (auto simp: check_bucket_def refill_def Let_def split: if_splits)
  have "fsub (b_tokens (refill b now)) n \<le> fl (b_capacity b)"
    unfolding fsub_def by (rule fl_mono) (use n in \<open>auto simp: refill_def min_def\<close>)
  then have "b_tokens b' \<le> b_capacity b"
    using c f by (auto simp: check_bucket_def refill_def Let_def split: if_splits)
  then show "full_bucket b'" using B(1) f k by (simp add: full_bucket_def)
qed

lemma checks_full:
  assumes "full_bucket b" "sorted (b_last b # map snd cs)" "list_all (\<lambda>(n, t). 0 \<le> n) cs" "checks b cs = (b', g)"
  shows "full_bucket b' \<and> b_last b' = last (b_last b # map snd cs) \<and> b_rate b' = b_rate b \<and> b_capacity b' = b_capacity b"
  using assms
proof (induction cs arbitrary: b g)
  case (Cons x cs)
  obtain n now where x: "x = (n, now)" by (cases x)
  obtain b1 r where c: "check_bucket n now b = (b1, r)" by (metis surj_pair)
  obtain g' where g: "checks b1 cs = (b', g')" using Cons.prems(4) x c by (auto split: prod.splits)
  have t: "b_last b \<le> now" and n: "0 \<le> n" using Cons.prems(2,3) x by auto
  note B = check_bucket_full [OF Cons.prems(1) t n c]
  show ?case using Cons.IH [OF B(1) _ _ g] Cons.prems(2,3) x B by simp
qed simp

text \<open>C21: The rate limit holds in every window. Take a bucket as it is created, any history of checks of it
  and any continuation \<open>cs\<close> of that history, whatever number of callers the checks come from. What is
  granted in \<open>cs\<close> is at most the burst capacity plus the rate times the time from the last check before the
  window to the last check in it, up to the rounding of four float operations for each check.\<close>

theorem rate_limit_kept:
  assumes r: "0 \<le> rate" and c: "0 \<le> cap" "fl cap = cap"
    and s: "sorted (t0 # map snd (pre @ cs))" and n: "list_all (\<lambda>(n, t). 0 \<le> n) (pre @ cs)"
    and pre: "checks (new_bucket rate (Some cap) t0) pre = (b, g0)" and w: "checks b cs = (b', g)"
  shows "g \<le> (cap + rate * (last (t0 # map snd (pre @ cs)) - last (t0 # map snd pre))) * (1 + 1 / 2 ^ 53) ^ (4 * length cs)"
proof -
  let ?b0 = "new_bucket rate (Some cap) t0" and ?U = "ulp ^ (4 * length cs)"
  have f0: "full_bucket ?b0" using r c by (simp add: new_bucket_def full_bucket_def sane_bucket_def)
  have L: "b_last ?b0 = t0" "b_rate ?b0 = rate" "b_capacity ?b0 = cap" by (simp_all add: new_bucket_def)
  have s1: "sorted (t0 # map snd pre)" and s2: "sorted (last (t0 # map snd pre) # map snd cs)"
    using s by (cases pre rule: rev_cases, auto simp: sorted_append)+
  have n1: "list_all (\<lambda>(n, t). 0 \<le> n) pre" and n2: "list_all (\<lambda>(n, t). 0 \<le> n) cs" using n by auto
  have f: "full_bucket b" "b_last b = last (t0 # map snd pre)" "b_rate b = rate" "b_capacity b = cap"
    using checks_full [OF f0 _ n1 pre] s1 by (simp_all add: L)
  have sb: "sane_bucket b" "b_tokens b \<le> cap" using f(1,4) by (auto simp: full_bucket_def)
  have e: "last (last (t0 # map snd pre) # map snd cs) = last (t0 # map snd (pre @ cs))" by simp
  have fin: "full_bucket b'" using checks_full [OF f(1) _ n2 w] s2 f(2) by simp
  have "b_tokens b' + g \<le> (b_tokens b + rate * (last (t0 # map snd (pre @ cs)) - last (t0 # map snd pre))) * ?U"
    using checks_bound [OF sb(1) _ n2 w] s2 f(2,3) e by simp
  also have "\<dots> \<le> (cap + rate * (last (t0 # map snd (pre @ cs)) - last (t0 # map snd pre))) * ?U"
    using sb(2) by (intro mult_right_mono add_right_mono zero_le_power) simp_all
  finally show ?thesis using fin by (simp add: full_bucket_def sane_bucket_def ulp_def)
qed

theorem rate_limit_kept_witness:
  "\<exists>b b'. checks (new_bucket 2 (Some 1) 10) [(1, 10), (1, 10)] = (b, 1) \<and>
     checks b [(1, 21 / 2), (1, 21 / 2), (1, 11)] = (b', 2) \<and>
     (2::rat) \<le> (1 + 2 * (last (10 # map snd ([(1::rat, 10), (1, 10)] @ [(1, 21 / 2), (1, 21 / 2), (1, 11)]))
       - last (10 # map snd [(1::rat, 10), (1, 10)]))) * (1 + 1 / 2 ^ 53) ^ (4 * length [(1::rat, 21 / 2 :: rat), (1, 21 / 2), (1, 11)])"
proof -
  have k: "fl (1::rat) = 1" "fl (2::rat) = 2" "fl (1 / 2 :: rat) = 1 / 2" by (simp_all add: fl_lit)
  obtain b where b: "checks (new_bucket 2 (Some 1) 10) [(1, 10), (1, 10)] = (b, 1)"
    and b': "b = \<lparr>b_rate = 2, b_capacity = 1, b_tokens = 0, b_last = 10\<rparr>"
    by (simp add: new_bucket_def check_bucket_def refill_def float_defs Let_def k)
  obtain c where c: "checks b [(1, 21 / 2), (1, 21 / 2), (1, 11)] = (c, 2)"
    by (simp add: b' check_bucket_def refill_def float_defs Let_def k)
  from rate_limit_kept [OF _ _ _ _ _ b c] k b c show ?thesis by (intro exI [of _ b] exI [of _ c] conjI) simp_all
qed

section \<open>Waiting for the limit\<close>

text \<open>A request larger than the capacity waits for ever: the bucket never holds so many tokens.\<close>

lemma acquire_fits: "acquire_loop now_of sleep n b w = Some r \<Longrightarrow> n \<le> b_capacity b"
proof (rule acquire_loop.raw_induct [where P = "\<lambda>now_of sleep n b w r. n \<le> b_capacity b"])
  fix f and now_of :: "'a \<Rightarrow> rat" and sleep :: "rat \<Rightarrow> 'a \<Rightarrow> 'a" and n :: rat and b :: bucket and w :: 'a and r :: "bucket \<times> 'a"
  assume ih: "\<And>now_of (sleep :: rat \<Rightarrow> 'a \<Rightarrow> 'a) n b w r. f now_of sleep n b w = Some r \<Longrightarrow> n \<le> b_capacity b"
    and body: "(case check_bucket n (now_of w) b of
        (b', None) \<Rightarrow> Some (b', w)
      | (b', Some t) \<Rightarrow> f now_of sleep n b' (sleep t w)) = Some r"
  obtain b' o' where c: "check_bucket n (now_of w) b = (b', o')" by (metis surj_pair)
  have "b_capacity b' = b_capacity b" "o' = None \<Longrightarrow> n \<le> b_capacity b"
    using c by (auto simp: check_bucket_def refill_def Let_def split: if_splits)
  then show "n \<le> b_capacity b" using body c ih [of now_of sleep n b' _ r] by (cases o') auto
qed

lemma acquire_never: "b_capacity b < n \<Longrightarrow> acquire_loop now_of sleep n b w = None"
  using acquire_fits [of now_of sleep n b w] by (cases "acquire_loop now_of sleep n b w") auto

text \<open>After a refused check and a sleep of the time it asked for, all but a rounding error is there.\<close>

lemma fl_step: "0 \<le> x \<Longrightarrow> x * (1 - 1 / 2 ^ 53) \<le> fl x"
  using fl_ge [of x] by (simp add: right_diff_distrib)

lemma refused_check:
  assumes b: "full_bucket b" and t: "b_last b \<le> now" and n: "0 \<le> n" and c: "check_bucket n now b = (b', Some wait)"
  shows "b_tokens b' < n" "wait = fquo (fsub n (b_tokens b')) (b_rate b)" "0 \<le> b_tokens b'"
proof -
  have k: "b' = refill b now" "\<not> n \<le> b_tokens b'" "wait = fquo (fsub n (b_tokens b')) (b_rate b)"
    using c by (auto simp: check_bucket_def refill_def [of b now] Let_def split: if_splits)
  then show "b_tokens b' < n" "wait = fquo (fsub n (b_tokens b')) (b_rate b)" by simp_all
  show "0 \<le> b_tokens b'" using check_bucket_full(1) [OF b t n c] by (simp add: full_bucket_def sane_bucket_def)
qed

lemma refill_grants:
  assumes "n \<le> b_capacity b" "fl n = n" "n \<le> b_tokens b + fmul (fsub now (b_last b)) (b_rate b)"
  shows "\<exists>b'. check_bucket n now b = (b', None)"
proof -
  have "n \<le> fadd (b_tokens b) (fmul (fsub now (b_last b)) (b_rate b))"
    unfolding fadd_def using fl_mono [OF assms(3)] assms(2) by simp
  then show ?thesis using assms(1) by (simp add: check_bucket_def refill_def Let_def)
qed

lemma waited_enough:
  assumes tau: "0 \<le> tau" "tau < n" and rate: "0 < rate" and d: "fquo (fsub n tau) rate \<le> d"
  shows "n * (1 - 3 / 2 ^ 53) \<le> tau + fmul (fl d) rate"
proof -
  define e :: rat where "e = 1 / 2 ^ 53"
  have e: "0 \<le> e" "e \<le> 1" by (simp_all add: e_def)
  let ?x = "n - tau" and ?y = "fsub n tau" and ?z = "fquo (fsub n tau) rate"
  have x: "0 \<le> ?x" using tau by simp
  have y: "?x * (1 - e) \<le> ?y" "0 \<le> ?y" using fl_step [OF x] tau by (simp_all add: fsub_def e_def)
  have z: "?y / rate * (1 - e) \<le> ?z" using fl_step [of "?y / rate"] y rate by (simp add: fquo_def e_def)
  have "?z \<le> fl d" using fl_mono [OF d] by (simp add: fquo_def)
  then have "?y / rate * (1 - e) \<le> fl d" using z by linarith
  then have "?y * (1 - e) \<le> fl d * rate" using rate by (simp add: field_simps)
  then have s: "?x * (1 - e) * (1 - e) \<le> fl d * rate" using mult_right_mono [OF y(1), of "1 - e"] e by simp
  moreover have "0 \<le> ?x * (1 - e) * (1 - e)" using x e by simp
  ultimately have "fl d * rate * (1 - e) \<le> fmul (fl d) rate"
    using fl_step [of "fl d * rate"] by (simp add: fmul_def e_def)
  then have f: "?x * (1 - e) * (1 - e) * (1 - e) \<le> fmul (fl d) rate" using mult_right_mono [OF s, of "1 - e"] e by simp
  have "1 - 3 * e \<le> (1 - e) * (1 - e) * (1 - e)"
    using mult_nonneg_nonneg [of "e * e" "3 - e"] e by (simp add: algebra_simps)
  from mult_left_mono [OF this x] have "?x * (1 - 3 * e) \<le> fmul (fl d) rate" using f by (simp add: mult.assoc)
  moreover have "n * (1 - 3 * e) \<le> tau + ?x * (1 - 3 * e)" using tau e by (simp add: algebra_simps)
  ultimately have "n * (1 - 3 * e) \<le> tau + fmul (fl d) rate" by linarith
  then show ?thesis by (simp add: e_def)
qed

lemma nearly_full:
  assumes tau: "0 \<le> tau" "tau < n" and rate: "0 < rate" and d: "fquo (fsub n tau) rate \<le> d" and c: "n \<le> c"
  shows "n * (1 - 4 / 2 ^ 53) \<le> min c (fadd tau (fmul (fl d) rate))"
proof -
  let ?s = "tau + fmul (fl d) rate"
  have n: "0 \<le> n" using tau by simp
  have s: "n * (1 - 3 / 2 ^ 53) \<le> ?s" using waited_enough [OF tau rate d] .
  have s0: "0 \<le> ?s" by (rule order_trans [OF _ s]) (use n in simp)
  have "n * (1 - 4 / 2 ^ 53) \<le> n * (1 - 3 / 2 ^ 53) * (1 - 1 / 2 ^ 53)"
    unfolding mult.assoc by (rule mult_left_mono [OF _ n]) simp
  also have "\<dots> \<le> ?s * (1 - 1 / 2 ^ 53)" by (rule mult_right_mono [OF s]) simp
  also have "\<dots> \<le> fadd tau (fmul (fl d) rate)" using fl_step [OF s0] by (simp add: fadd_def)
  finally have "n * (1 - 4 / 2 ^ 53) \<le> fadd tau (fmul (fl d) rate)" .
  moreover have "n * (1 - 4 / 2 ^ 53) \<le> n" using n mult_left_mono [of "1 - 4 / 2 ^ 53" 1 n] by simp
  ultimately show ?thesis using c by simp
qed

lemma tick_pays:
  assumes n: "0 \<le> n" and rate: "0 < rate" and q: "0 \<le> q" "n / 2 ^ 50 \<le> q * rate" and d: "q \<le> d"
  shows "n * (4 / 2 ^ 53) \<le> fmul (fl d) rate"
proof -
  define e :: rat where "e = 1 / 2 ^ 53"
  have e: "0 \<le> e" "e \<le> 1" by (simp_all add: e_def)
  have "q * (1 - e) \<le> fl d" using fl_mono [OF d] fl_step [OF q(1)] unfolding e_def by linarith
  then have s: "q * (1 - e) * rate \<le> fl d * rate" using rate by simp
  have "n / 2 ^ 50 * (1 - e) \<le> q * (1 - e) * rate" using mult_right_mono [OF q(2), of "1 - e"] e by (simp add: ac_simps)
  then have a: "n / 2 ^ 50 * (1 - e) \<le> fl d * rate" using s by linarith
  moreover have "0 \<le> n / 2 ^ 50 * (1 - e)" using n e by simp
  ultimately have "fl d * rate * (1 - e) \<le> fmul (fl d) rate" using fl_step [of "fl d * rate"] by (simp add: fmul_def e_def)
  then have f: "n / 2 ^ 50 * (1 - e) * (1 - e) \<le> fmul (fl d) rate" using mult_right_mono [OF a, of "1 - e"] e by linarith
  have "n * (4 / 2 ^ 53) \<le> n * ((1 - e) * (1 - e) / 2 ^ 50)" by (rule mult_left_mono [OF _ n]) (simp add: e_def)
  also have "\<dots> = n / 2 ^ 50 * (1 - e) * (1 - e)" by simp
  finally show ?thesis using f by (rule order_trans)
qed

text \<open>C22: A call that asks for no more than the capacity returns after at most two sleeps. It is enough that a
  sleep lasts at least as long as it was asked to and at least one tick of the clock, a tick that is worth
  a \<open>2 ^ -50\<close> part of the request, and that nobody else draws on the bucket meanwhile.\<close>

theorem acquire_returns:
  assumes b: "full_bucket b" and now: "b_last b \<le> now_of w" and rate: "0 < b_rate b"
    and n: "0 < n" "n \<le> b_capacity b" "fl n = n"
    and slept: "\<And>t v. 0 < t \<Longrightarrow> now_of v + max t tick \<le> now_of (sleep t v)"
    and tick: "0 \<le> tick" "n / 2 ^ 50 \<le> tick * b_rate b"
  shows "\<exists>b' ts. length ts \<le> 2 \<and> acquire_loop now_of sleep n b w = Some (b', fold sleep ts w)"
proof -
  note L = acquire_loop.simps [of now_of sleep n]
  obtain b1 r1 where c1: "check_bucket n (now_of w) b = (b1, r1)" by (metis surj_pair)
  have n0: "0 \<le> n" using n by simp
  show ?thesis
  proof (cases r1)
    case None
    then show ?thesis using c1 by (intro exI [of _ b1] exI [of _ "[]"]) (simp add: L)
  next
    case (Some t1)
    let ?w1 = "sleep t1 w" and ?d1 = "now_of (sleep t1 w) - b_last b1"
    note F1 = check_bucket_full [OF b now n0 c1] and R1 = refused_check [OF b now n0 c1 [unfolded Some]]
    have t1: "0 < t1" using R1 rate by (simp add: fquo_def fsub_def)
    have d1: "t1 \<le> ?d1" "tick \<le> ?d1" using slept [OF t1, of w] F1(2) by simp_all
    obtain b2 r2 where c2: "check_bucket n (now_of ?w1) b1 = (b2, r2)" by (metis surj_pair)
    have now1: "b_last b1 \<le> now_of ?w1" using d1 t1 by simp
    show ?thesis
    proof (cases r2)
      case None
      then show ?thesis using c1 c2 Some by (intro exI [of _ b2] exI [of _ "[t1]"]) (simp add: L)
    next
      case (Some t2)
      let ?w2 = "sleep t2 ?w1"
      note F2 = check_bucket_full [OF F1(1) now1 n0 c2] and R2 = refused_check [OF F1(1) now1 n0 c2 [unfolded Some]]
      have t2: "0 < t2" using R2 rate F1 by (simp add: fquo_def fsub_def)
      have d2: "tick \<le> now_of ?w2 - b_last b2" using slept [OF t2, of ?w1] F2(2) by simp
      have "n * (1 - 4 / 2 ^ 53) \<le> min (b_capacity b1) (fadd (b_tokens b1) (fmul (fl ?d1) (b_rate b)))"
        by (rule nearly_full [OF R1(3,1) rate]) (use d1 R1(2) n F1 in simp_all)
      also have "\<dots> = b_tokens b2" using c2 Some F1(3) by (auto simp: check_bucket_def refill_def fsub_def Let_def split: if_splits)
      finally have k: "n * (1 - 4 / 2 ^ 53) \<le> b_tokens b2" .
      have "n * (4 / 2 ^ 53) \<le> fmul (fsub (now_of ?w2) (b_last b2)) (b_rate b2)"
        unfolding fsub_def by (rule tick_pays [OF n0 _ tick(1) _ d2]) (use rate tick F1 F2 in simp_all)
      then have "n \<le> b_tokens b2 + fmul (fsub (now_of ?w2) (b_last b2)) (b_rate b2)"
        using k by (simp only: right_diff_distrib mult_1_right)
      then obtain b3 where c3: "check_bucket n (now_of ?w2) b2 = (b3, None)"
        using refill_grants [of n b2 "now_of ?w2"] n F1 F2 by auto
      show ?thesis using c1 c2 c3 \<open>r1 = Some t1\<close> Some
        by (intro exI [of _ b3] exI [of _ "[t1, t2]"]) (simp add: L)
    qed
  qed
qed

theorem acquire_returns_witness:
  "\<exists>b' ts. length ts \<le> 2 \<and>
     acquire_loop id (\<lambda>t w. w + max t (1 / 1000)) 1 \<lparr>b_rate = 2, b_capacity = 1, b_tokens = 0, b_last = 10\<rparr> (10::rat)
       = Some (b', fold (\<lambda>t w. w + max t (1 / 1000)) ts 10)"
proof -
  have k: "fl (1::rat) = 1" by (simp add: fl_lit)
  show ?thesis
    by (rule acquire_returns [where tick = "1 / 1000"]) (simp_all add: full_bucket_def sane_bucket_def k)
qed

end
