(* ===== verification/Tokens.thy ===== *)
theory Tokens
  imports Transport
begin

text \<open>
  Access tokens: the cache \<open>common/oauth_token.py\<close> and the token requests of the three brokers,
  \<open>common/broker/kis_client.py\<close>, \<open>kiwoom_client.py\<close> and \<open>toss_client.py\<close>.

  The cache file is the JSON value it holds, \<open>None\<close> if there is no file or it is not JSON.  Every process
  has a cache of its own in memory, loaded from the file when the process starts; a history is a sequence of
  starts of processes and calls of \<open>get\<close> by any of the processes that run at the same time.
\<close>

section \<open>The cache\<close>

definition MIN_DATETIME :: int where "MIN_DATETIME = (1 - EPOCH) * DAY"
definition MAX_DATETIME :: int where "MAX_DATETIME = (3652059 + 1 - EPOCH) * DAY - 1"

definition in_range :: "int \<Rightarrow> bool" where
  "in_range t \<longleftrightarrow> MIN_DATETIME \<le> t \<and> t \<le> MAX_DATETIME"

text \<open>\<open>datetime + timedelta\<close>.\<close>

definition add_delta :: "int \<Rightarrow> int \<Rightarrow> int res" where
  "add_delta t d = (if in_range (t + d) then Inr (t + d) else Inl OverflowError)"

definition DEFAULT_EXPIRY_MARGIN :: int where "DEFAULT_EXPIRY_MARGIN = 600 * SECOND"

record token_cache =
  tk_token :: json
  tk_expires_at :: int

definition load_token :: "json option \<Rightarrow> token_cache" where
  "load_token f =
     (case rbind (loads f) (\<lambda>d. item_of d ''token'') of
        Inl e \<Rightarrow> \<lparr>tk_token = JNull, tk_expires_at = MIN_DATETIME\<rparr>
      | Inr t \<Rightarrow>
          (case rbind (rbind (rbind (loads f) (\<lambda>d. item_of d ''expires_at'')) text_of) parse_iso of
             Inl e \<Rightarrow> \<lparr>tk_token = t, tk_expires_at = MIN_DATETIME\<rparr>
           | Inr x \<Rightarrow> \<lparr>tk_token = t, tk_expires_at = x\<rparr>))"

text \<open>A write that fails leaves some other content: \<open>disk = Some f\<close>.\<close>

definition save_token :: "json option option \<Rightarrow> token_cache \<Rightarrow> json option" where
  "save_token disk k =
     (case disk of
        Some f \<Rightarrow> f
      | None \<Rightarrow> Some (JObj [(''token'', tk_token k), (''expires_at'', JStr (isoformat (tk_expires_at k)))]))"

definition get_token ::
  "('w \<Rightarrow> (json \<times> int) res \<times> 'w) \<Rightarrow> int \<Rightarrow> json option option \<Rightarrow> bool \<Rightarrow> token_cache \<times> json option \<Rightarrow> 'w
   \<Rightarrow> json res \<times> (token_cache \<times> json option) \<times> 'w" where
  "get_token request now disk force st w =
     (let (k, f) = st;
          issue = (case request w of
              (Inl e, w') \<Rightarrow> (Inl e, (k, f), w')
            | (Inr (t, e), w') \<Rightarrow>
                let k' = k\<lparr>tk_token := t, tk_expires_at := e\<rparr> in (Inr t, (k', save_token disk k'), w'))
      in if force \<or> tk_token k = JNull then issue
         else case add_delta (tk_expires_at k) (- DEFAULT_EXPIRY_MARGIN) of
                Inl e \<Rightarrow> (Inl e, (k, f), w)
              | Inr limit \<Rightarrow> if limit \<le> now then issue else (Inr (tk_token k), (k, f), w))"

section \<open>The requests\<close>

text \<open>\<open>raise_for_status\<close> and \<open>json\<close> of the reply to a token request.\<close>

definition token_reply :: "reply \<Rightarrow> json res" where
  "token_reply r = (case r of NoReply \<Rightarrow> Inl TransportError | Reply status body \<Rightarrow> read_reply status body)"

definition default_item :: "json \<Rightarrow> string \<Rightarrow> json \<Rightarrow> json" where
  "default_item b k d = (case item_of b k of Inl e \<Rightarrow> d | Inr v \<Rightarrow> v)"

definition issued :: "json \<Rightarrow> int res \<Rightarrow> int \<Rightarrow> (json \<times> int) res" where
  "issued t seconds now = rbind seconds (\<lambda>s. rbind (add_delta now (s * SECOND)) (\<lambda>e. Inr (t, e)))"

definition kis_request_token :: "bool \<Rightarrow> reply \<Rightarrow> int \<Rightarrow> (json \<times> int) res" where
  "kis_request_token keys r now =
     (if \<not> keys then Inl (RuntimeError ''KIS_APPKEY'')
      else rbind (token_reply r) (\<lambda>body.
        case item_of body ''access_token'' of
          Inl e \<Rightarrow> Inl (RuntimeError ''KIS token'')
        | Inr t \<Rightarrow> issued t (int_of (default_item body ''expires_in'' (JInt 86400))) now))"

definition parse_expiry :: "json \<Rightarrow> int \<Rightarrow> int res" where
  "parse_expiry v now =
     (let s = string_of v; num = (\<lambda>i n. int (atoi (take n (drop i s))));
          y = num 0 4; mo = num 4 2; d = num 6 2; h = num 8 2; mi = num 10 2; se = num 12 2
      in if length s = 14 \<and> digits s \<and> 1 \<le> y \<and> 1 \<le> mo \<and> mo \<le> 12 \<and> 1 \<le> d \<and> d \<le> days_in_month y mo \<and>
            h < 24 \<and> mi < 60 \<and> se < 60
         then add_delta ((date y mo d - EPOCH) * DAY + (h * 3600 + mi * 60 + se) * SECOND) (- KST)
         else add_delta now (12 * 3600 * SECOND))"

definition kiwoom_request_token :: "bool \<Rightarrow> reply \<Rightarrow> int \<Rightarrow> (json \<times> int) res" where
  "kiwoom_request_token keys r now =
     (if \<not> keys then Inl (RuntimeError ''KIWOOM_APP_KEY'')
      else rbind (token_reply r) (\<lambda>body.
        if \<not> is_zero (jget body ''return_code'') then Inl (RuntimeError ''Kiwoom token'')
        else rbind (item_of body ''token'') (\<lambda>t. rbind (parse_expiry (jget body ''expires_dt'') now) (\<lambda>e. Inr (t, e)))))"

definition toss_request_token :: "bool \<Rightarrow> reply \<Rightarrow> int \<Rightarrow> (json \<times> int) res" where
  "toss_request_token keys r now =
     (if \<not> keys then Inl (RuntimeError ''TOSS_CLIENT_ID'')
      else case r of
        NoReply \<Rightarrow> Inl TransportError
      | Reply status body \<Rightarrow>
          if status \<noteq> 200 then Inl (RuntimeError ''Toss token'')
          else rbind (loads body) (\<lambda>b.
                 rbind (rbind (item_of b ''expires_in'') int_of) (\<lambda>s.
                 rbind (add_delta now (s * SECOND)) (\<lambda>e.
                 rbind (item_of b ''access_token'') (\<lambda>t. Inr (t, e))))))"

section \<open>Histories\<close>

text \<open>A process starts (again), or calls \<open>get\<close> at a time, with the answer the broker would give and the
  outcome of writing the file.  The lock of the cache makes the calls of the threads of one process follow
  each other; several processes have only the file in common.\<close>

datatype token_event = Start nat | Get nat int bool "(json \<times> int) res" "json option option"

record token_system =
  ts_caches :: "(nat \<times> token_cache) list"
  ts_file :: "json option"

text \<open>The step of an event, and whether the broker issued a token in it.\<close>

definition token_step :: "token_event \<Rightarrow> token_system \<Rightarrow> token_system \<times> bool" where
  "token_step ev st =
     (case ev of
        Start p \<Rightarrow> (st\<lparr>ts_caches := AList.update p (load_token (ts_file st)) (ts_caches st)\<rparr>, False)
      | Get p now force answer disk \<Rightarrow>
          (case map_of (ts_caches st) p of
             None \<Rightarrow> (st, False)
           | Some k \<Rightarrow>
               (case get_token (\<lambda>asked. (answer, True)) now disk force (k, ts_file st) False of
                  (r, (k', f'), asked) \<Rightarrow>
                    (st\<lparr>ts_caches := AList.update p k' (ts_caches st), ts_file := f'\<rparr>,
                     asked \<and> (case answer of Inl e \<Rightarrow> False | Inr x \<Rightarrow> True)))))"

definition token_state :: "token_event list \<Rightarrow> token_system \<Rightarrow> token_system" where
  "token_state evs st = foldl (\<lambda>st ev. fst (token_step ev st)) st evs"

definition renews :: "token_event \<Rightarrow> token_system \<Rightarrow> bool" where
  "renews ev st = snd (token_step ev st)"

section \<open>Tokens are reused\<close>

lemma in_range_day:
  assumes "in_range t"
  shows "1 \<le> EPOCH + t div DAY" "EPOCH + t div DAY \<le> 3652059"
proof -
  have "t div DAY * DAY + t mod DAY = t" "0 \<le> t mod DAY" "t mod DAY < DAY" by (rule div_mult_mod_eq) simp_all
  moreover have "(1 - EPOCH) * DAY \<le> t" "t \<le> (3652059 + 1 - EPOCH) * DAY - 1"
    using assms by (simp_all add: in_range_def MIN_DATETIME_def MAX_DATETIME_def)
  ultimately show "1 \<le> EPOCH + t div DAY" "EPOCH + t div DAY \<le> 3652059" by (simp_all add: EPOCH_def)
qed

lemma load_saved_token: "in_range (tk_expires_at k) \<Longrightarrow> load_token (save_token None k) = k"
  using in_range_day [of "tk_expires_at k"]
  by (simp add: load_token_def save_token_def loads_def item_of_def text_of_def parse_isoformat)

text \<open>A token that was issued at \<open>a\<close> or later.\<close>

definition fresh_since :: "int \<Rightarrow> int \<Rightarrow> token_cache \<Rightarrow> bool" where
  "fresh_since lifetime a k \<longleftrightarrow> tk_token k \<noteq> JNull \<and> in_range (tk_expires_at k) \<and> a + lifetime \<le> tk_expires_at k"

text \<open>Writing the file succeeds, and a token that is issued lives for \<open>lifetime\<close> at least.\<close>

fun good_event :: "int \<Rightarrow> token_event \<Rightarrow> bool" where
  "good_event lifetime (Start p) = True"
| "good_event lifetime (Get p now force answer disk) =
     (disk = None \<and> (case answer of Inl e \<Rightarrow> True | Inr (t, e) \<Rightarrow> t \<noteq> JNull \<and> now + lifetime \<le> e \<and> in_range e))"

fun event_times :: "token_event list \<Rightarrow> int list" where
  "event_times [] = []"
| "event_times (Start p # evs) = event_times evs"
| "event_times (Get p now force answer disk # evs) = now # event_times evs"

text \<open>After a request at \<open>a\<close>: the file and the caches of the processes in \<open>S\<close> hold a token that is not older.\<close>

definition all_fresh :: "int \<Rightarrow> int \<Rightarrow> nat set \<Rightarrow> token_system \<Rightarrow> bool" where
  "all_fresh lifetime a S st \<longleftrightarrow>
     fresh_since lifetime a (load_token (ts_file st)) \<and>
     (\<forall>p k. p \<in> S \<and> map_of (ts_caches st) p = Some k \<longrightarrow> fresh_since lifetime a k)"

text \<open>A call of \<open>get\<close> either leaves cache and file, or stores the issued token in both.\<close>

lemma get_step_cases:
  assumes "token_step (Get p now force answer disk) st = (st', b)" "good_event lifetime (Get p now force answer disk)"
  obtains (same) "\<not> b" "ts_file st' = ts_file st" "map_of (ts_caches st') = map_of (ts_caches st)"
  | (new) k k' where "b" "map_of (ts_caches st) p = Some k" "fresh_since lifetime now k'"
      "load_token (ts_file st') = k'" "map_of (ts_caches st') = (map_of (ts_caches st))(p \<mapsto> k')"
      "force \<or> tk_token k = JNull \<or> tk_expires_at k - DEFAULT_EXPIRY_MARGIN \<le> now"
proof (cases "map_of (ts_caches st) p")
  case None
  then show thesis using assms(1) same by (simp add: token_step_def)
next
  case (Some k)
  obtain r k' f' asked where g: "get_token (\<lambda>asked. (answer, True)) now disk force (k, ts_file st) False = (r, (k', f'), asked)"
    by (metis prod_cases4 surj_pair)
  have st': "st' = st\<lparr>ts_caches := AList.update p k' (ts_caches st), ts_file := f'\<rparr>"
      "b = (asked \<and> (case answer of Inl e \<Rightarrow> False | Inr x \<Rightarrow> True))"
    using assms(1) Some g by (simp_all add: token_step_def)
  show thesis
  proof (cases b)
    case False
    then have "k' = k \<and> f' = ts_file st"
      using g st'(2) by (auto simp: get_token_def Let_def split: if_splits sum.splits)
    then show thesis using False Some st' by (intro same) (auto simp: update_conv' fun_eq_iff)
  next
    case True
    then obtain t e where a: "answer = Inr (t, e)" using st'(2) by (auto split: sum.splits)
    have k': "k' = k\<lparr>tk_token := t, tk_expires_at := e\<rparr>" "f' = save_token disk k'"
        "force \<or> tk_token k = JNull \<or> tk_expires_at k - DEFAULT_EXPIRY_MARGIN \<le> now"
      using g True st'(2) a by (auto simp: get_token_def add_delta_def Let_def split: if_splits)
    then show thesis using True Some st' a assms(2)
      by (intro new [of k k']) (auto simp: fresh_since_def load_saved_token update_conv' fun_eq_iff)
  qed
qed

lemma fresh_mono: "fresh_since lifetime b k \<Longrightarrow> a \<le> b \<Longrightarrow> fresh_since lifetime a k"
  by (simp add: fresh_since_def)

fun started :: "token_event list \<Rightarrow> nat set" where
  "started [] = {}"
| "started (Start p # evs) = insert p (started evs)"
| "started (Get p now force answer disk # evs) = started evs"

lemma started_iff: "p \<in> started evs \<longleftrightarrow> Start p \<in> set evs"
  by (induction evs rule: started.induct) auto

lemma all_fresh_run:
  assumes "list_all (good_event lifetime) evs" "all_fresh lifetime a S st" "\<forall>t \<in> set (event_times evs). a \<le> t"
  shows "all_fresh lifetime a (S \<union> started evs) (token_state evs st)"
  using assms
proof (induction evs arbitrary: S st)
  case (Cons ev evs)
  have run: "token_state (ev # evs) st = token_state evs (fst (token_step ev st))" by (simp add: token_state_def)
  show ?case
  proof (cases ev)
    case (Start p)
    have "all_fresh lifetime a (insert p S) (fst (token_step ev st))"
      using Cons.prems(2) by (auto simp: Start token_step_def all_fresh_def update_conv' split: if_splits)
    then show ?thesis using Cons.IH [of "insert p S"] Cons.prems run by (simp add: Start)
  next
    case (Get p now force answer disk)
    obtain st' b where s: "token_step ev st = (st', b)" by (metis surj_pair)
    have ok: "good_event lifetime (Get p now force answer disk)" "a \<le> now" using Cons.prems by (simp_all add: Get)
    from s [unfolded Get] ok(1) have "all_fresh lifetime a S st'"
    proof (cases rule: get_step_cases)
      case same
      then show ?thesis using Cons.prems(2) by (simp add: all_fresh_def)
    next
      case (new k k')
      then show ?thesis using Cons.prems(2) fresh_mono [OF new(3) ok(2)] by (simp add: all_fresh_def)
    qed
    then show ?thesis using Cons.IH [of S st'] Cons.prems run s by (simp add: Get)
  qed
qed (simp add: token_state_def)

lemma event_times_append: "event_times (xs @ ys) = event_times xs @ event_times ys"
  by (induction xs rule: event_times.induct) simp_all

lemma token_state_append: "token_state (xs @ ys) st = token_state ys (token_state xs st)"
  by (simp add: token_state_def)

text \<open>C23: Tokens are reused within a process and by every process that starts later.  Take any history of
  processes that start, overlap and call \<open>get\<close>, from any cache file, in which the clock does not go back, the
  cache file can be written and every token that is issued lives for \<open>lifetime\<close>.  If a token is issued to a
  process at \<open>a\<close> (also by force), then a call of \<open>get\<close> without force, by the same process or by one that started
  after that, asks the broker again no earlier than \<open>a\<close> plus the lifetime less the margin of ten minutes.
  Processes that were already running at \<open>a\<close> with a token of their own are excluded, and so is \<open>force=True\<close>
  for the second request.\<close>

theorem tokens_reused:
  assumes "list_all (good_event lifetime) (Get p a force answer disk # evs @ [Get q b False answer' disk'])"
    and "sorted (event_times (Get p a force answer disk # evs @ [Get q b False answer' disk']))"
    and "renews (Get p a force answer disk) st"
    and "renews (Get q b False answer' disk') (token_state (Get p a force answer disk # evs) st)"
    and "q = p \<or> Start q \<in> set evs"
  shows "a + (lifetime - DEFAULT_EXPIRY_MARGIN) \<le> b"
proof -
  let ?st = "fst (token_step (Get p a force answer disk) st)"
  have s: "token_step (Get p a force answer disk) st = (?st, True)"
    using assms(3) by (simp add: renews_def prod_eq_iff)
  have g: "good_event lifetime (Get p a force answer disk)" using assms(1) by simp
  from s g have "all_fresh lifetime a {p} ?st"
    by (cases rule: get_step_cases) (auto simp: all_fresh_def)
  moreover have "\<forall>t \<in> set (event_times evs). a \<le> t" using assms(2) by (simp add: event_times_append)
  ultimately have f: "all_fresh lifetime a ({p} \<union> started evs) (token_state evs ?st)"
    using assms(1) by (intro all_fresh_run) simp_all
  obtain st' where s': "token_step (Get q b False answer' disk') (token_state evs ?st) = (st', True)"
    using assms(4) by (auto simp: renews_def token_state_def prod_eq_iff)
  have g': "good_event lifetime (Get q b False answer' disk')" using assms(1) by simp
  from s' g' show ?thesis
  proof (cases rule: get_step_cases)
    case (new k k')
    then have "fresh_since lifetime a k" using f assms(5) by (auto simp: all_fresh_def started_iff)
    then show ?thesis using new(6) by (simp add: fresh_since_def)
  qed simp
qed

text \<open>The first process gets a token at the time 0, a second one starts an hour later, reads it from the file
  and asks again on the next day only.\<close>

definition demo_issue :: token_event where
  "demo_issue = Get 1 0 True (Inr (JStr ''a'', DAY)) None"

definition demo_events :: "token_event list" where
  "demo_events = [Start 2, Get 2 (3600 * SECOND) False (Inr (JStr ''b'', DAY + (3600 * SECOND))) None]"

theorem tokens_reused_witness:
  "renews (Get 2 DAY False (Inr (JStr ''c'', 2 * DAY)) None)
     (token_state (demo_issue # demo_events) \<lparr>ts_caches = [(1, load_token None)], ts_file = None\<rparr>) \<and>
   0 + (DAY - DEFAULT_EXPIRY_MARGIN) \<le> DAY"
proof
  let ?st = "\<lparr>ts_caches = [(1, load_token None)], ts_file = None\<rparr> :: token_system"
  show r: "renews (Get 2 DAY False (Inr (JStr ''c'', 2 * DAY)) None) (token_state (demo_issue # demo_events) ?st)"
    by (simp add: renews_def token_state_def demo_issue_def demo_events_def token_step_def get_token_def load_saved_token
        Let_def add_delta_def in_range_def MIN_DATETIME_def MAX_DATETIME_def EPOCH_def DEFAULT_EXPIRY_MARGIN_def)
  have g: "list_all (good_event DAY) (demo_issue # demo_events @ [Get 2 DAY False (Inr (JStr ''c'', 2 * DAY)) None])"
    by (simp add: demo_issue_def demo_events_def in_range_def MIN_DATETIME_def MAX_DATETIME_def EPOCH_def)
  have t: "sorted (event_times (demo_issue # demo_events @ [Get 2 DAY False (Inr (JStr ''c'', 2 * DAY)) None]))"
    by (simp add: demo_issue_def demo_events_def)
  have i: "renews demo_issue ?st" by (simp add: renews_def demo_issue_def token_step_def get_token_def Let_def)
  have q: "(2::nat) = 1 \<or> Start 2 \<in> set demo_events" by (simp add: demo_events_def)
  show "0 + (DAY - DEFAULT_EXPIRY_MARGIN) \<le> DAY"
    using g t i r q unfolding demo_issue_def by (rule tokens_reused)
qed

text \<open>What is excluded does happen.  A process that runs when another one renews the token keeps its own in
  memory and never looks at the file again: once that is within the margin of its end, the process asks the broker
  too, however fresh the token in the file is.\<close>

lemma running_process_ignores_file:
  assumes "map_of (ts_caches st) q = Some k" "tk_token k \<noteq> JNull" "in_range (tk_expires_at k - DEFAULT_EXPIRY_MARGIN)"
    and "tk_expires_at k - DEFAULT_EXPIRY_MARGIN \<le> now"
  shows "renews (Get q now False (Inr x) disk) (st\<lparr>ts_file := f\<rparr>)"
  using assms by (cases x) (simp add: renews_def token_step_def get_token_def add_delta_def Let_def)

lemma overlapping_processes_both_renew:
  assumes "map_of (ts_caches st) p = Some k" "map_of (ts_caches st) q = Some k" "p \<noteq> q" "tk_token k \<noteq> JNull"
    and "in_range (tk_expires_at k - DEFAULT_EXPIRY_MARGIN)" "tk_expires_at k - DEFAULT_EXPIRY_MARGIN \<le> now"
  shows "renews (Get p now False (Inr x) disk) st \<and>
    renews (Get q now False (Inr y) disk') (token_state [Get p now False (Inr x) disk] st)"
  using assms by (cases x; cases y) (simp add: renews_def token_state_def token_step_def get_token_def add_delta_def Let_def update_conv')

text \<open>A damaged cache file is not always ignored. If it holds a token and no readable time of expiry, the
  token is kept with the smallest \<open>datetime\<close>, from which the margin cannot be subtracted, so that every call
  of \<open>get\<close> without \<open>force\<close> fails with \<open>OverflowError\<close> before the broker is asked, at every start of a process.\<close>

lemma damaged_cache_blocks:
  "get_token request now disk False (load_token (Some (JObj [(''token'', JStr t)])), Some (JObj [(''token'', JStr t)])) w
   = (Inl OverflowError, (load_token (Some (JObj [(''token'', JStr t)])), Some (JObj [(''token'', JStr t)])), w)"
  by (simp add: get_token_def load_token_def loads_def item_of_def add_delta_def in_range_def
      MIN_DATETIME_def DEFAULT_EXPIRY_MARGIN_def)

end
