(* ===== verification/Ingest.thy ===== *)
theory Ingest
  imports Tokens
begin

text \<open>
  The tick ingesters \<open>streaming/ingester/upbit_ws.py\<close> and \<open>streaming/ingester/stock_kiwoom.py\<close>, the tick
  message of \<open>common/schemas.py\<close>, the list of symbols of \<open>common/marketdata/symbols.py\<close> and the delivery
  watchdog \<open>common/kafka_watchdog.py\<close>.

  A message of a socket is its JSON value, \<open>None\<close> if it is not JSON; \<open>parse_float\<close> makes a number with a
  fraction a \<open>Decimal\<close>.  A \<open>Decimal\<close> is sent as text, which is the number itself (\<open>JFloat\<close>).
\<close>

section \<open>The delivery watchdog\<close>

record watchdog =
  wd_stall :: rat
  wd_last_ok :: rat
  wd_pending :: nat

definition DELIVERY_STALL_SEC :: rat where "DELIVERY_STALL_SEC = 180"

definition new_watchdog :: "rat \<Rightarrow> watchdog" where
  "new_watchdog now = \<lparr>wd_stall = DELIVERY_STALL_SEC, wd_last_ok = now, wd_pending = 0\<rparr>"

definition record_produce :: "watchdog \<Rightarrow> watchdog" where
  "record_produce d = d\<lparr>wd_pending := wd_pending d + 1\<rparr>"

definition record_delivery :: "bool \<Rightarrow> rat \<Rightarrow> watchdog \<Rightarrow> watchdog" where
  "record_delivery ok now d = (if ok then d\<lparr>wd_pending := 0, wd_last_ok := now\<rparr> else d)"

definition stalled :: "rat \<Rightarrow> watchdog \<Rightarrow> bool" where
  "stalled now d \<longleftrightarrow> 0 < wd_pending d \<and> wd_stall d < fsub now (wd_last_ok d)"

section \<open>Ticks\<close>

record tick_msg =
  t_symbol :: string
  t_price :: rat
  t_volume :: rat
  t_side :: json
  t_trade_ts :: string
  t_seq :: int

definition tick_json :: "tick_msg \<Rightarrow> json" where
  "tick_json t =
     JObj [(''symbol'', JStr (t_symbol t)), (''price'', JFloat (t_price t)), (''volume'', JFloat (t_volume t)),
           (''side'', t_side t), (''trade_ts'', JStr (t_trade_ts t)), (''seq'', JInt (t_seq t))]"

text \<open>\<open>Decimal(v)\<close>, exact; on text, plain decimal numbers with an optional sign.\<close>

definition decimal_of :: "json \<Rightarrow> rat res" where
  "decimal_of v =
     (case v of
        JInt n \<Rightarrow> Inr (of_int n)
      | JFloat x \<Rightarrow> Inr x
      | JStr t \<Rightarrow>
          (case (case strip t of
                   [] \<Rightarrow> None
                 | ch # s \<Rightarrow>
                     if ch = CHR ''-'' then map_option uminus (parse_unsigned s)
                     else if ch = CHR ''+'' then parse_unsigned s
                     else parse_unsigned (ch # s)) of
             None \<Rightarrow> Inl InvalidOperation | Some x \<Rightarrow> Inr x)
      | JList xs \<Rightarrow> Inl (ValueError ''Decimal'')
      | _ \<Rightarrow> Inl TypeError)"

text \<open>\<open>datetime.fromtimestamp(x, tz=utc)\<close>: the fraction, scaled and rounded half to even.\<close>

definition from_timestamp :: "rat \<Rightarrow> int res" where
  "from_timestamp x =
     (let i = rdown x; t = i * SECOND + rhe (fl ((x - of_int i) * 1000000))
      in if in_range t then Inr t else Inl (ValueError ''year''))"

text \<open>The symbol is the key of a dictionary and is encoded as the key of the message.\<close>

definition symbol_text :: "json \<Rightarrow> string res" where
  "symbol_text v = (case v of JStr s \<Rightarrow> Inr s | JList xs \<Rightarrow> Inl TypeError | JObj d \<Rightarrow> Inl TypeError | _ \<Rightarrow> Inl AttributeError)"

section \<open>Upbit\<close>

definition upbit_tick :: "json \<Rightarrow> tick_msg res" where
  "upbit_tick m =
     rbind (rbind (item_of m ''code'') symbol_text) (\<lambda>s.
     rbind (rbind (item_of m ''trade_price'') decimal_of) (\<lambda>p.
     rbind (rbind (item_of m ''trade_volume'') decimal_of) (\<lambda>v.
     rbind (item_of m ''ask_bid'') (\<lambda>sd.
     rbind (rbind (item_of m ''trade_timestamp'') (\<lambda>n. case n of JInt ms \<Rightarrow> from_timestamp (fl (of_int ms / 1000)) | _ \<Rightarrow> Inl TypeError)) (\<lambda>ts.
     rbind (rbind (item_of m ''sequential_id'') int_of) (\<lambda>q.
       Inr \<lparr>t_symbol = s, t_price = p, t_volume = v, t_side = sd, t_trade_ts = isoformat ts, t_seq = q\<rparr>))))))"

section \<open>Kiwoom\<close>

definition SEQ_PER_SEC :: int where "SEQ_PER_SEC = 100000"

type_synonym seq_state = "(string \<times> int \<times> int) list"

definition next_seq :: "string \<Rightarrow> int \<Rightarrow> seq_state \<Rightarrow> seq_state \<times> int" where
  "next_seq s sec st =
     (let cnt = (case map_of st s of None \<Rightarrow> 0 | Some (last_sec, last_cnt) \<Rightarrow> if last_sec = sec then last_cnt + 1 else 0)
      in (AList.update s (sec, cnt) st, sec * SEQ_PER_SEC + min cnt (SEQ_PER_SEC - 1)))"

definition hhmmss_to_utc :: "int \<Rightarrow> string \<Rightarrow> int res" where
  "hhmmss_to_utc now x =
     rbind (int_of (JStr (take 2 x))) (\<lambda>h.
     rbind (int_of (JStr (take 2 (drop 2 x)))) (\<lambda>m.
     rbind (int_of (JStr (take 2 (drop 4 x)))) (\<lambda>s.
       if h < 24 \<and> m < 60 \<and> s < 60
       then Inr ((local_date KST now - EPOCH) * DAY + (h * 3600 + m * 60 + s) * SECOND - KST)
       else Inl (ValueError ''replace''))))"

definition kiwoom_tick :: "int \<Rightarrow> json \<Rightarrow> seq_state \<Rightarrow> seq_state \<times> tick_msg res" where
  "kiwoom_tick now item st =
     (case rbind (item_of item ''values'') (\<lambda>v.
           rbind (item_of v ''15'') (\<lambda>qty_raw.
           rbind (rbind (rbind (item_of v ''20'') text_of) (hhmmss_to_utc now)) (\<lambda>dt.
           rbind (rbind (item_of item ''item'') symbol_text) (\<lambda>s.
           rbind (rbind (item_of v ''10'') decimal_of) (\<lambda>p.
           rbind (decimal_of qty_raw) (\<lambda>q.
           rbind (case qty_raw of JStr t \<Rightarrow> Inr t | _ \<Rightarrow> Inl AttributeError) (\<lambda>t.
             Inr (s, dabs p, dabs q, if take 1 t = ''-'' then ''ASK'' else ''BID'', dt)))))))) of
        Inl e \<Rightarrow> (st, Inl e)
      | Inr (s, p, q, sd, dt) \<Rightarrow>
          (case next_seq s (dt div SECOND) st of
             (st', n) \<Rightarrow> (st', Inr \<lparr>t_symbol = s, t_price = p, t_volume = q, t_side = JStr sd, t_trade_ts = isoformat dt, t_seq = n\<rparr>)))"

section \<open>Sending a tick\<close>

text \<open>What happens around the tick number \<open>n\<close> of a process is an argument \<open>env n\<close>: whether the local queue is full,
  the deliveries that \<open>poll\<close> reports, the monotonic clock and the wall clock.\<close>

record tick_env =
  e_full :: bool
  e_acks :: "bool list"
  e_now :: rat
  e_wall :: int

record producing =
  p_dog :: watchdog
  p_sent :: "tick_msg list"
  p_count :: nat

definition send_tick :: "(nat \<Rightarrow> tick_env) \<Rightarrow> tick_msg \<Rightarrow> (producing, unit) io" where
  "send_tick env t p =
     (let e = env (p_count p);
          p1 = (if e_full e then p else p\<lparr>p_sent := p_sent p @ [t], p_dog := record_produce (p_dog p)\<rparr>);
          p2 = p1\<lparr>p_dog := fold (\<lambda>ok. record_delivery ok (e_now e)) (e_acks e) (p_dog p1)\<rparr>
      in if stalled (e_now e) (p_dog p2) then (Inl (SystemExit ''1''), p2)
         else (Inr (), p2\<lparr>p_count := p_count p2 + 1\<rparr>))"

definition get_of :: "json \<Rightarrow> string \<Rightarrow> json res" where
  "get_of m k = (case m of JObj d \<Rightarrow> Inr (jget m k) | _ \<Rightarrow> Inl AttributeError)"

section \<open>The loop of the Upbit ingester\<close>

definition upbit_message :: "(nat \<Rightarrow> tick_env) \<Rightarrow> json option \<Rightarrow> (producing, unit) io" where
  "upbit_message env body p =
     (case rbind (loads body) (\<lambda>m. rbind (get_of m ''type'') (\<lambda>ty. Inr (m, ty))) of
        Inl e \<Rightarrow> (Inl e, p)
      | Inr (m, ty) \<Rightarrow>
          if ty \<noteq> JStr ''trade'' then (Inr (), p)
          else case upbit_tick m of Inl e \<Rightarrow> (Inl e, p) | Inr t \<Rightarrow> send_tick env t p)"

fun upbit_feed :: "(nat \<Rightarrow> tick_env) \<Rightarrow> json option list \<Rightarrow> (producing, unit) io" where
  "upbit_feed env [] p = (Inr (), p)"
| "upbit_feed env (b # bs) p = bind (upbit_message env b) (\<lambda>_. upbit_feed env bs) p"

text \<open>A connection that is refused, or one with its messages, which is lost or closed.\<close>

datatype 'm session = Refused | Connected "'m list" bool

definition MAX_BACKOFF :: nat where "MAX_BACKOFF = 30"

definition next_backoff :: "nat \<Rightarrow> nat" where
  "next_backoff b = min (b * 2) MAX_BACKOFF"

text \<open>The result: the exception that ends the process, if any, the state and the pauses.\<close>

fun upbit_run :: "(nat \<Rightarrow> tick_env) \<Rightarrow> json option session list \<Rightarrow> nat \<Rightarrow> producing \<Rightarrow> exc option \<times> producing \<times> nat list" where
  "upbit_run env [] b p = (None, p, [])"
| "upbit_run env (Refused # ss) b p =
     (case upbit_run env ss (next_backoff b) p of (r, p', zs) \<Rightarrow> (r, p', b # zs))"
| "upbit_run env (Connected msgs lost # ss) b p =
     (case upbit_feed env msgs p of
        (Inl e, p') \<Rightarrow> (Some e, p', [])
      | (Inr _, p') \<Rightarrow>
          if lost then case upbit_run env ss (next_backoff 1) p' of (r, p'', zs) \<Rightarrow> (r, p'', 1 # zs)
          else upbit_run env ss 1 p')"

definition fresh_producing :: "rat \<Rightarrow> producing" where
  "fresh_producing now = \<lparr>p_dog = new_watchdog now, p_sent = [], p_count = 0\<rparr>"

definition upbit_main :: "(nat \<Rightarrow> tick_env) \<Rightarrow> rat \<Rightarrow> json option session list \<Rightarrow> exc option \<times> producing \<times> nat list" where
  "upbit_main env now ss = upbit_run env ss 1 (fresh_producing now)"

section \<open>The loop of the Kiwoom ingester\<close>

datatype outgoing = Login json | Echo json | Reg

record kiwoom =
  kw_prod :: producing
  kw_seq :: seq_state
  kw_force :: bool
  kw_out :: "outgoing list"

text \<open>The exceptions that skip one item, and those that end one connection.\<close>

fun skips :: "exc \<Rightarrow> bool" where
  "skips (KeyError k) = True"
| "skips (ValueError m) = True"
| "skips TypeError = True"
| "skips _ = False"

fun reconnects :: "exc \<Rightarrow> bool" where
  "reconnects (RuntimeError m) = True"
| "reconnects TransportError = True"
| "reconnects (HTTPStatusError n) = True"
| "reconnects _ = False"

definition kiwoom_item :: "(nat \<Rightarrow> tick_env) \<Rightarrow> json \<Rightarrow> (kiwoom, unit) io" where
  "kiwoom_item env item s =
     (case get_of item ''type'' of
        Inl e \<Rightarrow> (Inl e, s)
      | Inr ty \<Rightarrow>
          if ty \<noteq> JStr ''0B'' then (Inr (), s)
          else case kiwoom_tick (e_wall (env (p_count (kw_prod s)))) item (kw_seq s) of
                 (st', Inl e) \<Rightarrow> if skips e then (Inr (), s) else (Inl e, s)
               | (st', Inr t) \<Rightarrow>
                   (case send_tick env t (kw_prod s) of (r, p') \<Rightarrow> (r, s\<lparr>kw_seq := st', kw_prod := p'\<rparr>)))"

fun kiwoom_items :: "(nat \<Rightarrow> tick_env) \<Rightarrow> json list \<Rightarrow> (kiwoom, unit) io" where
  "kiwoom_items env [] s = (Inr (), s)"
| "kiwoom_items env (x # xs) s = bind (kiwoom_item env x) (\<lambda>_. kiwoom_items env xs) s"

fun iterate :: "json \<Rightarrow> json list res" where
  "iterate (JList xs) = Inr xs"
| "iterate (JObj d) = Inr (map (\<lambda>kv. JStr (fst kv)) d)"
| "iterate (JStr s) = Inr (map (\<lambda>ch. JStr [ch]) s)"
| "iterate _ = Inl TypeError"

text \<open>A message, or no message for 150 seconds.\<close>

datatype ws_event = Message "json option" | Silence

definition kiwoom_message :: "(nat \<Rightarrow> tick_env) \<Rightarrow> ws_event \<Rightarrow> (kiwoom, unit) io" where
  "kiwoom_message env ev s =
     (case ev of
        Silence \<Rightarrow> (Inl (RuntimeError ''recv''), s)
      | Message body \<Rightarrow>
          (case rbind (loads body) (\<lambda>m. rbind (get_of m ''trnm'') (\<lambda>trnm. Inr (m, trnm))) of
             Inl e \<Rightarrow> (Inl e, s)
           | Inr (m, trnm) \<Rightarrow>
               if trnm = JStr ''PING'' then (Inr (), s\<lparr>kw_out := kw_out s @ [Echo m]\<rparr>)
               else if trnm = JStr ''LOGIN''
                 then if \<not> is_zero (jget m ''return_code'') then (Inl (RuntimeError ''LOGIN''), s\<lparr>kw_force := True\<rparr>)
                      else (Inr (), s\<lparr>kw_out := kw_out s @ [Reg]\<rparr>)
               else if trnm = JStr ''REAL''
                 then case iterate (default_item m ''data'' (JList [])) of
                        Inl e \<Rightarrow> (Inl e, s) | Inr xs \<Rightarrow> kiwoom_items env xs s
               else (Inr (), s)))"

fun kiwoom_feed :: "(nat \<Rightarrow> tick_env) \<Rightarrow> ws_event list \<Rightarrow> (kiwoom, unit) io" where
  "kiwoom_feed env [] s = (Inr (), s)"
| "kiwoom_feed env (b # bs) s = bind (kiwoom_message env b) (\<lambda>_. kiwoom_feed env bs) s"

text \<open>One connection: the token is asked for with the flag of the last failure, then the messages are
  read until the connection is lost. \<open>token\<close> is the outcome of \<open>get_access_token\<close>.\<close>

definition kiwoom_connection :: "(nat \<Rightarrow> tick_env) \<Rightarrow> (bool \<Rightarrow> json res) \<Rightarrow> ws_event list \<Rightarrow> (kiwoom, unit) io" where
  "kiwoom_connection env token msgs s =
     (case token (kw_force s) of
        Inl e \<Rightarrow> (Inl e, s)
      | Inr t \<Rightarrow> kiwoom_feed env msgs (s\<lparr>kw_out := kw_out s @ [Login t], kw_force := False\<rparr>))"

fun kiwoom_run :: "(nat \<Rightarrow> tick_env) \<Rightarrow> ((bool \<Rightarrow> json res) \<times> ws_event session) list \<Rightarrow> nat \<Rightarrow> kiwoom
    \<Rightarrow> exc option \<times> kiwoom \<times> nat list" where
  "kiwoom_run env [] b s = (None, s, [])"
| "kiwoom_run env ((token, Refused) # ss) b s =
     (case kiwoom_run env ss (next_backoff b) s of (r, s', zs) \<Rightarrow> (r, s', b # zs))"
| "kiwoom_run env ((token, Connected msgs lost) # ss) b s =
     (case kiwoom_connection env token msgs s of
        (Inl e, s') \<Rightarrow>
          if reconnects e then case kiwoom_run env ss (next_backoff 1) s' of (r, s'', zs) \<Rightarrow> (r, s'', 1 # zs)
          else (Some e, s', [])
      | (Inr _, s') \<Rightarrow> case kiwoom_run env ss (next_backoff 1) s' of (r, s'', zs) \<Rightarrow> (r, s'', 1 # zs))"

text \<open>Without credentials the process sleeps for ever.\<close>

definition kiwoom_main :: "bool \<Rightarrow> (nat \<Rightarrow> tick_env) \<Rightarrow> rat \<Rightarrow> ((bool \<Rightarrow> json res) \<times> ws_event session) list
    \<Rightarrow> (exc option \<times> kiwoom \<times> nat list) option" where
  "kiwoom_main keys env now ss =
     (if \<not> keys then None
      else Some (kiwoom_run env ss 1 \<lparr>kw_prod = fresh_producing now, kw_seq = [], kw_force = False, kw_out = []\<rparr>))"

section \<open>A tick of Upbit arrives\<close>

lemma rhe_near: "\<bar>x - of_int n\<bar> < 1 / 2 \<Longrightarrow> rhe x = n"
proof -
  assume x: "\<bar>x - of_int n\<bar> < 1 / 2"
  have "of_int (rhe x) < (of_int (n + 1) :: rat)" "of_int (n - 1) < (of_int (rhe x) :: rat)"
    using x rhe_bounds [of x] by (auto simp: abs_if split: if_splits)
  then show ?thesis by (simp only: of_int_less_iff)
qed

text \<open>The milliseconds survive the division in floating point up to the year 2106.\<close>

lemma from_timestamp_exact:
  assumes n: "0 \<le> n" "n < 2 ^ 32 * 1000"
  shows "from_timestamp (fl (of_int n / 1000)) = Inr (n * 1000)"
proof -
  let ?r = "of_int n / 1000 :: rat"
  define x i where "x = fl ?r" and "i = rdown x"
  define y where "y = (x - of_int i) * 1000000"
  have r: "0 \<le> ?r" "?r < 2 ^ 32" using n by (simp_all add: field_simps of_int_less_iff [symmetric] del: of_int_less_iff)
  have "\<bar>x - ?r\<bar> \<le> ?r / 2 ^ 53" using fl_error [of ?r] r by (simp add: x_def)
  also have "\<dots> \<le> 1 / 2 ^ 21" using r by simp
  finally have x: "\<bar>x - ?r\<bar> \<le> 1 / 2 ^ 21" .
  have x0: "0 \<le> x" using r by (simp add: x_def)
  note i = rdown_bounds [OF x0, folded i_def]
  have y: "0 \<le> y" "y \<le> 1000000" using i by (simp_all add: y_def)
  have fy: "\<bar>fl y - y\<bar> \<le> 1000000 / 2 ^ 53"
    by (rule order_trans [OF fl_error]) (use y in \<open>simp add: divide_right_mono\<close>)
  have e: "y - of_int (n * 1000 - i * 1000000) = (x - ?r) * 1000000" by (simp add: y_def algebra_simps)
  have yn: "\<bar>y - of_int (n * 1000 - i * 1000000)\<bar> \<le> 1000000 / 2 ^ 21"
    unfolding e abs_mult using mult_right_mono [OF x, of 1000000] by simp
  have "rhe (fl y) = n * 1000 - i * 1000000"
  proof (rule rhe_near)
    define k :: rat where "k = of_int (n * 1000 - i * 1000000)"
    have "\<bar>fl y - k\<bar> \<le> \<bar>fl y - y\<bar> + \<bar>y - k\<bar>" using abs_triangle_ineq [of "fl y - y" "y - k"] by simp
    also have "\<dots> \<le> 1000000 / 2 ^ 53 + 1000000 / 2 ^ 21" using fy yn by (intro add_mono) (simp_all add: k_def)
    also have "\<dots> < 1 / 2" by simp
    finally show "\<bar>fl y - of_int (n * 1000 - i * 1000000)\<bar> < 1 / 2" by (simp only: k_def)
  qed
  then have "i * SECOND + rhe (fl y) = n * 1000" by simp
  moreover have "in_range (n * 1000)" using n by (simp add: in_range_def MIN_DATETIME_def MAX_DATETIME_def EPOCH_def)
  ultimately show ?thesis unfolding from_timestamp_def Let_def x_def [symmetric] i_def [symmetric] y_def [symmetric] by simp
qed

lemma upbit_tick_received:
  assumes m: "map_of d ''code'' = Some (JStr s)" "map_of d ''trade_price'' = Some pj" "decimal_of pj = Inr p"
      "map_of d ''trade_volume'' = Some vj" "decimal_of vj = Inr v" "map_of d ''ask_bid'' = Some sd"
      "map_of d ''trade_timestamp'' = Some (JInt ms)" "map_of d ''sequential_id'' = Some (JInt q)"
    and ms: "0 \<le> ms" "ms < 2 ^ 32 * 1000"
  shows "\<exists>t. upbit_tick (JObj d) = Inr t \<and>
    parse_row (Some (tick_json t)) =
      Inr \<lparr>w_symbol = JStr s, w_price = fl p, w_volume = fl v, w_side = sd, w_ts = ms * 1000, w_seq = q\<rparr> \<and>
    candle_tick (Some (tick_json t)) = Inr ((s, floor_minute (ms * 1000)), fl p, fl v)"
proof -
  have "in_range (ms * 1000)" using ms by (simp add: in_range_def MIN_DATETIME_def MAX_DATETIME_def EPOCH_def)
  then have "parse_iso (isoformat (ms * 1000)) = Inr (ms * 1000)" by (intro parse_isoformat in_range_day)
  then show ?thesis using m from_timestamp_exact [OF ms]
    by (simp add: upbit_tick_def symbol_text_def item_of_def text_of_def int_of_def tick_json_def parse_row_def loads_def float_of_def candle_tick_def)
qed

text \<open>What the exchange reports is what the consumers read. A trade message of Upbit, with a time in
  milliseconds up to the year 2106, becomes a tick whose JSON text both the tick sink and the candle aggregator
  accept: the sink stores the exact instant, the price and the volume rounded once to a float, the side and
  the sequence number, and the aggregator adds the same price and volume to the candle of the same minute.\<close>

lemma upbit_tick_arrives:
  assumes m: "map_of d ''code'' = Some (JStr s)" "map_of d ''trade_price'' = Some pj" "decimal_of pj = Inr p"
      "map_of d ''trade_volume'' = Some vj" "decimal_of vj = Inr v" "map_of d ''ask_bid'' = Some sd"
      "map_of d ''trade_timestamp'' = Some (JInt ms)" "map_of d ''sequential_id'' = Some (JInt q)"
    and ms: "0 \<le> ms" "ms < 2 ^ 32 * 1000"
  shows "\<exists>t. upbit_tick (JObj d) = Inr t \<and>
    parse_row (Some (tick_json t)) =
      Inr \<lparr>w_symbol = JStr s, w_price = fl p, w_volume = fl v, w_side = sd, w_ts = ms * 1000, w_seq = q\<rparr> \<and>
    candle_tick (Some (tick_json t)) = Inr ((s, floor_minute (ms * 1000)), fl p, fl v)"
  using assms by (rule upbit_tick_received)

definition demo_trade :: "(string \<times> json) list" where
  "demo_trade =
     [(''type'', JStr ''trade''), (''code'', JStr ''KRW-BTC''), (''trade_price'', JFloat 150000000), (''trade_volume'', JStr ''0.25''),
      (''ask_bid'', JStr ''BID''), (''trade_timestamp'', JInt 1784851200123), (''sequential_id'', JInt 17848512001230000)]"

lemma decimal_quarter: "decimal_of (JStr ''0.25'') = Inr (1 / 4)"
  by (simp add: decimal_of_def strip_def is_space_def parse_unsigned_def Kis.is_digit_def atoi_def digit_val_def)

lemma demo_trade_ok: "\<exists>t. upbit_tick (JObj demo_trade) = Inr t"
  using upbit_tick_received [of demo_trade "''KRW-BTC''" "JFloat 150000000" 150000000 "JStr ''0.25''" "1 / 4" "JStr ''BID''"
      1784851200123 17848512001230000]
  by (auto simp: demo_trade_def decimal_of_def [of "JFloat 150000000"] decimal_quarter)

section \<open>Sequence numbers of Kiwoom\<close>

text \<open>The sequence numbers given to trades of one symbol, at the seconds in which they are executed.\<close>

fun seqs :: "string \<Rightarrow> int list \<Rightarrow> seq_state \<Rightarrow> int list" where
  "seqs s [] st = []"
| "seqs s (t # ts) st = (case next_seq s t st of (st', n) \<Rightarrow> n # seqs s ts st')"

lemma seqs_increase:
  assumes "sorted (t0 # ts)" "map_of st s = Some (t0, c)" "0 \<le> c"
    "\<And>x. of_nat (count_list ts x) + (if x = t0 then c + 1 else 0) \<le> SEQ_PER_SEC"
  shows "sorted_wrt (<) ((t0 * SEQ_PER_SEC + c) # seqs s ts st)"
  using assms
proof (induction ts arbitrary: t0 c st)
  case (Cons t ts)
  let ?c = "if t = t0 then c + 1 else 0"
  have c: "?c < SEQ_PER_SEC" using Cons.prems(3) Cons.prems(4) [of t] by (auto split: if_splits)
  have n: "next_seq s t st = (AList.update s (t, ?c) st, t * SEQ_PER_SEC + ?c)"
    using Cons.prems(2) c by (auto simp: next_seq_def Let_def)
  have "sorted_wrt (<) ((t * SEQ_PER_SEC + ?c) # seqs s ts (AList.update s (t, ?c) st))"
  proof (rule Cons.IH)
    show "of_nat (count_list ts x) + (if x = t then ?c + 1 else 0) \<le> SEQ_PER_SEC" for x
      using Cons.prems(3) Cons.prems(4) [of x] by (auto split: if_splits)
  qed (use Cons.prems in \<open>auto simp: update_conv'\<close>)
  moreover have "t0 * SEQ_PER_SEC + c < t * SEQ_PER_SEC + ?c"
  proof (cases "t = t0")
    case False
    then have "t0 + 1 \<le> t" using Cons.prems(1) by simp
    then have "(t0 + 1) * SEQ_PER_SEC \<le> t * SEQ_PER_SEC" by (intro mult_right_mono) (simp_all add: SEQ_PER_SEC_def)
    then show ?thesis using False Cons.prems(4) [of t0] by (simp add: distrib_right)
  qed simp
  ultimately show ?case using n by (fastforce intro: less_trans)
qed simp

text \<open>The trades of several symbols interleaved.\<close>

fun seq_run :: "(string \<times> int) list \<Rightarrow> seq_state \<Rightarrow> (string \<times> int) list" where
  "seq_run [] st = []"
| "seq_run ((s, t) # trades) st = (case next_seq s t st of (st', n) \<Rightarrow> (s, n) # seq_run trades st')"

abbreviation of_symbol :: "string \<Rightarrow> (string \<times> int) list \<Rightarrow> int list" where
  "of_symbol s trades \<equiv> map snd (filter (\<lambda>x. fst x = s) trades)"

lemma next_seq_other: "s \<noteq> s' \<Longrightarrow> map_of (fst (next_seq s' t st)) s = map_of st s"
  by (simp add: next_seq_def Let_def update_conv')

lemma next_seq_local: "map_of st s = map_of st' s \<Longrightarrow> snd (next_seq s t st) = snd (next_seq s t st')
    \<and> map_of (fst (next_seq s t st)) s = map_of (fst (next_seq s t st')) s"
  by (simp add: next_seq_def Let_def update_conv')

lemma seqs_local: "map_of st s = map_of st' s \<Longrightarrow> seqs s ts st = seqs s ts st'"
proof (induction ts arbitrary: st st')
  case (Cons t ts)
  show ?case using next_seq_local [OF Cons.prems, of t] Cons.IH [of "fst (next_seq s t st)" "fst (next_seq s t st')"]
    by (simp add: case_prod_beta)
qed simp

lemma seq_run_symbol: "of_symbol s (seq_run trades st) = seqs s (of_symbol s trades) st"
proof (induction trades arbitrary: st)
  case (Cons x trades)
  obtain s' t where x: "x = (s', t)" by (cases x)
  show ?case
  proof (cases "s' = s")
    case False
    then show ?thesis using Cons x seqs_local [OF next_seq_other [of s s' t st]] by (simp add: case_prod_beta)
  qed (use Cons x in \<open>simp add: case_prod_beta\<close>)
qed simp

text \<open>The made-up sequence numbers of the stock ticks, which the table uses to remove duplicates, are unique:
  the trades of a symbol get strictly increasing numbers, whatever other symbols trade in between, if they come
  in the order of their seconds and a second has at most 100,000 of them.\<close>

lemma kiwoom_seq_unique:
  assumes "sorted (of_symbol s trades)" "\<And>t. of_nat (count_list (of_symbol s trades) t) \<le> SEQ_PER_SEC"
  shows "sorted_wrt (<) (of_symbol s (seq_run trades []))"
proof (cases "of_symbol s trades")
  case (Cons t ts)
  have n: "next_seq s t [] = ([(s, t, 0)], t * SEQ_PER_SEC)" by (simp add: next_seq_def SEQ_PER_SEC_def)
  have "of_nat (count_list ts x) + (if x = t then 0 + 1 else 0) \<le> SEQ_PER_SEC" for x
    using assms(2) [of x] unfolding Cons by (simp split: if_splits)
  then have "sorted_wrt (<) ((t * SEQ_PER_SEC + 0) # seqs s ts [(s, t, 0)])"
    by (intro seqs_increase) (use assms Cons in \<open>simp_all only:\<close>, simp_all)
  then show ?thesis unfolding seq_run_symbol Cons by (simp add: n)
qed (simp add: seq_run_symbol)

text \<open>A second that comes back after another one starts again at zero, so its numbers collide.\<close>

lemma revisited_second: "t \<noteq> u \<Longrightarrow> seqs s [t, u, t] [] ! 0 = seqs s [t, u, t] [] ! 2"
  by (simp add: next_seq_def)

section \<open>A bad price ends the process\<close>

definition bad_trade :: "string \<Rightarrow> string \<Rightarrow> json" where
  "bad_trade s p =
     JObj [(''trnm'', JStr ''REAL''),
       (''data'', JList [JObj [(''type'', JStr ''0B''), (''item'', JStr s),
          (''values'', JObj [(''10'', JStr p), (''15'', JStr ''+10''), (''20'', JStr ''093000'')])]])]"

text \<open>A bad item is not always skipped. A trade whose price is no number ends the process of the Kiwoom ingester
  with \<open>decimal.InvalidOperation\<close>, which is neither one of the exceptions that skip an item nor one of those
  that start a new connection: the rest of the messages and all later connections are lost.\<close>

lemma bad_price_ends_ingester:
  assumes "decimal_of (JStr p) = Inl InvalidOperation"
  shows "fst (kiwoom_run env ((\<lambda>force. Inr token, Connected (Message (Some (bad_trade s p)) # msgs) lost) # ss) b st) = Some InvalidOperation"
  using assms
  by (simp add: kiwoom_connection_def bind_def kiwoom_message_def loads_def get_of_def bad_trade_def is_zero_def default_item_def
      item_of_def kiwoom_item_def kiwoom_tick_def symbol_text_def hhmmss_to_utc_def int_of_def Kis.is_digit_def text_of_def atoi_def digit_val_def)

definition demo_env :: "nat \<Rightarrow> tick_env" where
  "demo_env n = \<lparr>e_full = False, e_acks = [False], e_now = of_nat n * 100, e_wall = 0\<rparr>"

section \<open>The process ends when nothing is delivered\<close>

definition is_trade :: "json option \<Rightarrow> bool" where
  "is_trade b \<longleftrightarrow> (\<exists>m t. b = Some m \<and> get_of m ''type'' = Inr (JStr ''trade'') \<and> upbit_tick m = Inr t)"

lemma silent_acks: "list_all Not acks \<Longrightarrow> fold (\<lambda>ok. record_delivery ok now) acks d = d"
  by (induction acks) (simp_all add: record_delivery_def)

lemma trade_sent:
  assumes "is_trade b" "\<not> e_full (env (p_count p))" "list_all Not (e_acks (env (p_count p)))"
  shows "\<exists>p'. p_count p' = Suc (p_count p) \<and> wd_stall (p_dog p') = wd_stall (p_dog p) \<and> wd_last_ok (p_dog p') = wd_last_ok (p_dog p) \<and>
    (if wd_stall (p_dog p) < fsub (e_now (env (p_count p))) (wd_last_ok (p_dog p))
     then fst (upbit_message env b p) = Inl (SystemExit ''1'') else upbit_message env b p = (Inr (), p'))"
proof -
  obtain m t where m: "b = Some m" "get_of m ''type'' = Inr (JStr ''trade'')" "upbit_tick m = Inr t"
    using assms(1) by (auto simp: is_trade_def)
  show ?thesis using assms(2,3) m
    by (intro exI [of _ "p\<lparr>p_sent := p_sent p @ [t], p_dog := record_produce (p_dog p), p_count := Suc (p_count p)\<rparr>"])
      (simp add: upbit_message_def loads_def send_tick_def Let_def silent_acks stalled_def record_produce_def)
qed

text \<open>The ingester does not survive a broker that has stopped. If trades keep arriving, none of them is delivered
  and at one of them the clock is more than 180 seconds past the last delivery (the start of the process, when
  there was none), then the process ends with \<open>SystemExit\<close>, for the container to be started again.\<close>

lemma silent_broker_ends_ingester:
  assumes "list_all is_trade msgs" "\<And>n. \<not> e_full (env n)" "\<And>n. list_all Not (e_acks (env n))"
    "p_count p \<le> k" "k < p_count p + length msgs" "wd_stall (p_dog p) < fsub (e_now (env k)) (wd_last_ok (p_dog p))"
  shows "fst (upbit_run env (Connected msgs lost # ss) b p) = Some (SystemExit ''1'')"
proof -
  have "fst (upbit_feed env msgs p) = Inl (SystemExit ''1'')"
    using assms
  proof (induction msgs arbitrary: p)
    case (Cons x msgs)
    from trade_sent [of x env p] Cons.prems obtain p' where
      p': "p_count p' = Suc (p_count p)" "wd_stall (p_dog p') = wd_stall (p_dog p)" "wd_last_ok (p_dog p') = wd_last_ok (p_dog p)"
      and r: "if wd_stall (p_dog p) < fsub (e_now (env (p_count p))) (wd_last_ok (p_dog p))
        then fst (upbit_message env x p) = Inl (SystemExit ''1'') else upbit_message env x p = (Inr (), p')" by auto
    show ?case
    proof (cases "wd_stall (p_dog p) < fsub (e_now (env (p_count p))) (wd_last_ok (p_dog p))")
      case True
      then show ?thesis using r by (auto simp: bind_def split: prod.splits)
    next
      case False
      then have "k \<noteq> p_count p" using Cons.prems(6) by auto
      then have "fst (upbit_feed env msgs p') = Inl (SystemExit ''1'')" using Cons.prems p' by (intro Cons.IH) auto
      then show ?thesis using r False by (simp add: bind_def)
    qed
  qed simp
  then show ?thesis by (auto split: prod.splits sum.splits)
qed

section \<open>The symbols to subscribe to\<close>

definition fetch_krw_markets :: "reply \<Rightarrow> string list res" where
  "fetch_krw_markets r =
     rbind (rbind (token_reply r) iterate) (\<lambda>ms.
     rbind (rmap (\<lambda>m. rbind (item_of m ''market'') text_of) ms) (\<lambda>ss.
       Inr (filter (\<lambda>s. take 4 s = ''KRW-'') ss)))"

record symbol_cache =
  sy_cache :: "string list"
  sy_cache_at :: rat
  sy_fail_at :: rat

definition MARKETS_TTL :: rat where "MARKETS_TTL = 3600"
definition FAIL_TTL :: rat where "FAIL_TTL = 60"

definition cold_symbols :: symbol_cache where
  "cold_symbols = \<lparr>sy_cache = [], sy_cache_at = - 1000000000, sy_fail_at = - 1000000000\<rparr>"

text \<open>The last component says whether the exchange was asked.\<close>

definition resolve_symbols :: "bool \<Rightarrow> string list \<Rightarrow> rat \<Rightarrow> reply \<Rightarrow> symbol_cache \<Rightarrow> string list \<times> symbol_cache \<times> bool" where
  "resolve_symbols all_krw static now r k =
     (let stale = (sy_cache k = [] \<or> MARKETS_TTL \<le> fsub now (sy_cache_at k));
          backing_off = (fsub now (sy_fail_at k) < FAIL_TTL);
          known = (\<lambda>k. if sy_cache k = [] then static else sy_cache k)
      in if \<not> all_krw then (static, k, False)
         else if stale \<and> \<not> backing_off
           then case fetch_krw_markets r of
                  Inl e \<Rightarrow> let k' = k\<lparr>sy_fail_at := now\<rparr> in (known k', k', True)
                | Inr ms \<Rightarrow> let k' = k\<lparr>sy_cache := ms, sy_cache_at := now\<rparr> in (known k', k', True)
           else (known k, k, False))"

lemma resolve_symbols_some: "static \<noteq> [] \<Longrightarrow> fst (resolve_symbols all_krw static now r k) \<noteq> []"
  by (simp add: resolve_symbols_def Let_def split: sum.splits)

text \<open>After a failure the exchange is left alone for a minute.\<close>

lemma resolve_symbols_quiet:
  "resolve_symbols all_krw static now r k = (ms, k', asked) \<Longrightarrow> fsub now (sy_fail_at k) < FAIL_TTL \<Longrightarrow> \<not> asked \<and> k' = k"
  by (auto simp: resolve_symbols_def Let_def split: if_splits)

end
