(* ===== verification/Performance.thy ===== *)
theory Performance
  imports Ledger "HOL-Library.List_Lexorder" "HOL-Library.Char_ord"
begin

text \<open>
  The performance panel: the response cache \<open>api/cache.py\<close>, the route \<open>api/routes/performance.py\<close>, which matches
  the executions of an account first in, first out, and \<open>scripts/reset_account.py\<close>, which deletes them.

  The column \<open>executed_at\<close> is the time of the transaction that books the execution, \<open>DEFAULT now()\<close>; transactions
  that overlap can commit in another order than they began, so it is an argument: the time of each execution id.
\<close>

section \<open>The response cache\<close>

type_synonym 'a cache = "(string \<times> int \<times> 'a) list"

definition cache_get :: "'a cache \<Rightarrow> string \<Rightarrow> rat \<Rightarrow> int \<Rightarrow> 'a option" where
  "cache_get st key max_age now =
     (case map_of st key of
        None \<Rightarrow> None
      | Some (since, payload) \<Rightarrow> if max_age < of_int (now - since) / 1000000 then None else Some payload)"

definition cache_get_stale :: "'a cache \<Rightarrow> string \<Rightarrow> 'a option" where
  "cache_get_stale st key = map_option snd (map_of st key)"

definition cache_set :: "'a cache \<Rightarrow> string \<Rightarrow> 'a \<Rightarrow> int \<Rightarrow> 'a cache" where
  "cache_set st key payload now = AList.update key (now, payload) st"

section \<open>First in, first out\<close>

type_synonym lot = "rat \<times> rat"

definition DUST :: rat where "DUST = fl (1 / 10 ^ 18)"

text \<open>The loop that uses up the lots of a symbol; a lot is used up when a dust remains.\<close>

function match_lots :: "rat \<Rightarrow> rat \<Rightarrow> lot list \<Rightarrow> rat \<times> rat \<times> lot list" where
  "match_lots remaining cost lots =
     (case lots of
        [] \<Rightarrow> (remaining, cost, [])
      | (q, unit) # ls \<Rightarrow>
          if DUST < remaining then
            let used = min remaining q; q' = fsub q used; remaining' = fsub remaining used; cost' = fadd cost (fmul used unit)
            in match_lots remaining' cost' (if q' \<le> DUST then ls else (q', unit) # ls)
          else (remaining, cost, lots))"
  by pat_completeness auto

lemma dust_nonneg: "0 \<le> DUST" by (simp add: DUST_def)

termination match_lots
  by (relation "measures [\<lambda>(r, c, ls). length ls, \<lambda>(r, c, ls). if DUST < r then 1 else 0]")
    (use dust_nonneg in \<open>auto simp: min_def fsub_def\<close>)

declare match_lots.simps [simp del]

record tally =
  ta_lots :: "(string \<times> lot list) list"
  ta_realized :: rat
  ta_fees :: rat
  ta_wins :: nat
  ta_losses :: nat
  ta_buys :: nat
  ta_sells :: nat

definition tally_step :: "tally \<Rightarrow> execution \<Rightarrow> tally res" where
  "tally_step a ex =
     (let price = fl (x_price ex); qty = fl (x_quantity ex); fee' = fl (x_fee ex); s = x_symbol ex;
          a1 = a\<lparr>ta_fees := fadd (ta_fees a) fee'\<rparr>
      in if x_side ex = BUY
         then rbind (fdiv (fadd (fmul price qty) fee') qty) (\<lambda>unit.
                Inr (a1\<lparr>ta_buys := ta_buys a + 1, ta_lots := AList.update s (get_or (ta_lots a) s [] @ [(qty, unit)]) (ta_lots a)\<rparr>))
         else case match_lots qty 0 (get_or (ta_lots a) s []) of
                (remaining, cost, ls) \<Rightarrow>
                  let pnl = fsub (fsub (fmul price qty) fee') cost
                  in Inr (a1\<lparr>ta_sells := ta_sells a + 1, ta_lots := AList.update s ls (ta_lots a),
                             ta_realized := fadd (ta_realized a) pnl,
                             ta_wins := ta_wins a + (if 0 < pnl then 1 else 0),
                             ta_losses := ta_losses a + (if 0 < pnl then 0 else 1)\<rparr>))"

record performance =
  pf_realized :: rat
  pf_fees :: rat
  pf_trades :: nat
  pf_buys :: nat
  pf_sells :: nat
  pf_closed :: nat
  pf_wins :: nat
  pf_win_rate :: "rat option"

definition summary :: "tally \<Rightarrow> performance" where
  "summary a =
     (let closed = ta_wins a + ta_losses a
      in \<lparr>pf_realized = ta_realized a, pf_fees = ta_fees a, pf_trades = ta_buys a + ta_sells a, pf_buys = ta_buys a,
          pf_sells = ta_sells a, pf_closed = closed, pf_wins = ta_wins a,
          pf_win_rate = (if closed = 0 then None else Some (fquo (of_nat (ta_wins a)) (of_nat closed)))\<rparr>)"

definition empty_tally :: tally where
  "empty_tally = \<lparr>ta_lots = [], ta_realized = 0, ta_fees = 0, ta_wins = 0, ta_losses = 0, ta_buys = 0, ta_sells = 0\<rparr>"

definition compute_performance :: "execution list \<Rightarrow> performance res" where
  "compute_performance xs = rbind (rfold tally_step empty_tally xs) (\<lambda>a. Inr (summary a))"

section \<open>The route\<close>

definition account_executions :: "db \<Rightarrow> string \<Rightarrow> execution list" where
  "account_executions db a = filter (\<lambda>ex. x_account ex = a) (map snd (executions db))"

text \<open>\<open>ORDER BY executed_at, execution_id\<close>: a stable sort by the time after one by the id.\<close>

definition executed_order :: "(string \<Rightarrow> int) \<Rightarrow> execution list \<Rightarrow> execution list" where
  "executed_order executed_at xs = sort_key (\<lambda>ex. executed_at (x_id ex)) (sort_key x_id xs)"

lemma executed_order_simps [simp]:
  "length (executed_order t xs) = length xs" "set (executed_order t xs) = set xs" "executed_order t [ex] = [ex]"
  by (simp_all add: executed_order_def)

definition performance_key :: "string \<Rightarrow> string" where
  "performance_key a = ''performance:'' @ a"

definition performance_route ::
  "(string \<Rightarrow> int) \<Rightarrow> db \<Rightarrow> string \<Rightarrow> int \<Rightarrow> (nat \<times> performance) cache \<Rightarrow> performance res \<times> (nat \<times> performance) cache" where
  "performance_route executed_at db a now st =
     (let xs = executed_order executed_at (account_executions db a); n = length xs
      in case cache_get_stale st (performance_key a) of
           Some (m, payload) \<Rightarrow>
             if m = n then (Inr payload, st)
             else (case compute_performance xs of
                     Inl e \<Rightarrow> (Inl e, st) | Inr p \<Rightarrow> (Inr p, cache_set st (performance_key a) (n, p) now))
         | None \<Rightarrow>
             (case compute_performance xs of
                Inl e \<Rightarrow> (Inl e, st) | Inr p \<Rightarrow> (Inr p, cache_set st (performance_key a) (n, p) now)))"

section \<open>\<open>reset_account\<close>\<close>

text \<open>The snapshots of the equity curve are not part of this database.\<close>

definition reset_account :: "settings \<Rightarrow> db \<Rightarrow> string \<Rightarrow> db res" where
  "reset_account c db a =
     rbind (numeric 20 4 (INITIAL_BALANCE c)) (\<lambda>b.
       let mine = (\<lambda>oid. case map_of (orders db) oid of None \<Rightarrow> False | Some r \<Rightarrow> o_account r = a)
       in Inr (db\<lparr>executions := filter (\<lambda>(i, ex). x_account ex \<noteq> a) (executions db),
                  outbox := filter (\<lambda>b. \<not> mine (b_order b)) (outbox db),
                  orders := filter (\<lambda>(i, r). o_account r \<noteq> a) (orders db),
                  positions := filter (\<lambda>((acct, s), p). acct \<noteq> a) (positions db),
                  accounts := map (\<lambda>(i, r). (i, if i = a then r\<lparr>krw_balance := b\<rparr> else r)) (accounts db)\<rparr>))"

fun reset_accounts :: "settings \<Rightarrow> db \<Rightarrow> string list \<Rightarrow> db res" where
  "reset_accounts c db [] = Inr db"
| "reset_accounts c db (a # as) = rbind (reset_account c db a) (\<lambda>db'. reset_accounts c db' as)"

section \<open>Histories\<close>

text \<open>What happens to the database and the cache of the process: orders are placed, executions are booked, the
  panel is asked for, an account is reset.\<close>

datatype panel_event = Place string string string side rat | Book execution | Ask string int | Reset string

definition panel_step :: "(string \<Rightarrow> int) \<Rightarrow> (rat \<Rightarrow> rat \<Rightarrow> rat) \<Rightarrow> settings \<Rightarrow> panel_event \<Rightarrow> db \<times> (nat \<times> performance) cache \<Rightarrow> db \<times> (nat \<times> performance) cache" where
  "panel_step executed_at ndiv c ev s =
     (case ev of
        Place oid a sm sd q \<Rightarrow> (in_transaction (fst s) (place_order (fst s) oid a sm sd MARKET q None), snd s)
      | Book ex \<Rightarrow> (in_transaction (fst s) (apply_execution ndiv (fst s) ex), snd s)
      | Ask a now \<Rightarrow> (fst s, snd (performance_route executed_at (fst s) a now (snd s)))
      | Reset a \<Rightarrow> (case reset_account c (fst s) a of Inl e \<Rightarrow> s | Inr db \<Rightarrow> (db, snd s)))"

definition panel_run :: "(string \<Rightarrow> int) \<Rightarrow> (rat \<Rightarrow> rat \<Rightarrow> rat) \<Rightarrow> settings \<Rightarrow> panel_event list \<Rightarrow> db \<times> (nat \<times> performance) cache \<Rightarrow> db \<times> (nat \<times> performance) cache" where
  "panel_run executed_at ndiv c evs s = fold (panel_step executed_at ndiv c) evs s"

text \<open>Executions are only appended, and what is cached belongs to a prefix of them.\<close>

lemma apply_execution_appends:
  assumes "apply_execution ndiv db ex = Inr (db', out)"
  shows "\<exists>new. executions db' = executions db @ new"
  using assms
proof (cases rule: apply_execution_cases)
  case dup
  then show ?thesis by simp
next
  case rej
  then show ?thesis by (simp add: set_status_def split: option.split)
next
  case (buy acc b ex' p)
  then show ?thesis by (simp add: update_fresh set_status_def split: option.split)
next
  case (sell acc b ex' p q)
  then show ?thesis by (simp add: update_fresh set_status_def split: option.split)
qed

lemma place_order_executions: "place_order db oid a sm sd ty q pr = Inr (db', i) \<Longrightarrow> executions db' = executions db"
  by (auto simp: place_order_def insert_order_def checked_def split: option.splits if_splits)

definition cache_inv :: "(string \<Rightarrow> int) \<Rightarrow> db \<times> (nat \<times> performance) cache \<Rightarrow> bool" where
  "cache_inv t s \<longleftrightarrow>
     (\<forall>a n p. cache_get_stale (snd s) (performance_key a) = Some (n, p) \<longrightarrow>
        n \<le> length (account_executions (fst s) a) \<and> compute_performance (executed_order t (take n (account_executions (fst s) a))) = Inr p)"

lemma cache_get_set:
  "cache_get_stale (cache_set st k p now) k' = (if k = k' then Some p else cache_get_stale st k')"
  by (auto simp: cache_get_stale_def cache_set_def update_conv')

lemma cache_inv_append:
  assumes "cache_inv t (db, st)" "executions db' = executions db @ new"
  shows "cache_inv t (db', st)"
proof -
  have "\<exists>xs. account_executions db' a = account_executions db a @ xs" for a
    using assms(2) by (auto simp: account_executions_def)
  then have "n \<le> length (account_executions db' a) \<and> compute_performance (executed_order t (take n (account_executions db' a))) = Inr p"
    if "n \<le> length (account_executions db a) \<and> compute_performance (executed_order t (take n (account_executions db a))) = Inr p" for a n p
    using that by (metis append_take_drop_id length_append take_append diff_is_0_eq' take0 append_Nil2 trans_le_add1)
  then show ?thesis using assms(1) by (simp add: cache_inv_def)
qed

lemma route_current:
  assumes "cache_inv t (db, st)" "performance_route t db a now st = (r, st')"
  shows "r = compute_performance (executed_order t (account_executions db a))" "cache_inv t (db, st')"
proof -
  have key: "performance_key a = performance_key b \<longleftrightarrow> a = b" for b by (simp add: performance_key_def)
  show "r = compute_performance (executed_order t (account_executions db a))"
    using assms by (fastforce simp: performance_route_def Let_def cache_inv_def split: option.splits sum.splits if_splits)
  show "cache_inv t (db, st')"
    using assms key by (auto simp: performance_route_def Let_def cache_inv_def cache_get_set split: option.splits sum.splits if_splits)
qed

lemma panel_step_inv:
  assumes "cache_inv t s" "\<And>a. ev \<noteq> Reset a"
  shows "cache_inv t (panel_step t ndiv c ev s)"
proof (cases ev)
  case (Place oid a sm sd q)
  then show ?thesis using assms(1) cache_inv_append [of t "fst s" "snd s" _ "[]"]
    by (auto simp: panel_step_def in_transaction_def place_order_executions split: sum.split)
next
  case (Book ex)
  then show ?thesis using assms(1) cache_inv_append [of t "fst s" "snd s"] apply_execution_appends [of ndiv "fst s" ex]
    by (auto simp: panel_step_def in_transaction_def split: sum.split)
next
  case (Ask a now)
  then show ?thesis using assms(1) route_current(2) [of t "fst s" "snd s" a now] by (simp add: panel_step_def prod_eq_iff)
qed (use assms in simp)

text \<open>C13: As long as no account is reset, the performance panel is not stale. In every history of orders, bookings
  and requests of any accounts, from an empty cache and with any times of the transactions, the answer to a request is
  what a recomputation over all executions of the account in the order of time and id gives, although the route
  recomputes only when their number has changed.\<close>

theorem performance_is_current:
  assumes "panel_run t ndiv c evs (db, []) = (db', st)" "\<And>a. Reset a \<notin> set evs"
  shows "fst (performance_route t db' a now st) = compute_performance (executed_order t (account_executions db' a))"
proof -
  have "cache_inv t (panel_run t ndiv c evs s)" if "cache_inv t s" "\<And>a. Reset a \<notin> set evs" for s evs
    using that
  proof (induction evs arbitrary: s)
    case (Cons ev evs)
    then have "cache_inv t (panel_step t ndiv c ev s)" by (intro panel_step_inv) auto
    then show ?case using Cons by (simp add: panel_run_def)
  qed (simp add: panel_run_def)
  from this [of "(db, [])" evs] assms have "cache_inv t (db', st)" by (simp add: cache_inv_def cache_get_stale_def)
  then show ?thesis by (cases "performance_route t db' a now st") (simp add: route_current(1))
qed

theorem performance_is_current_witness:
  "\<exists>db' st. panel_run (\<lambda>i. 5) (/) default_settings [Book demo_ex, Ask ''demo'' 0] (demo_db, []) = (db', st) \<and> length (executions db') = 1 \<and>
     fst (performance_route (\<lambda>i. 5) db' ''demo'' 1 st) = compute_performance (executed_order (\<lambda>i. 5) (account_executions db' ''demo''))"
proof -
  obtain db' st where r: "panel_run (\<lambda>i. 5) (/) default_settings [Book demo_ex, Ask ''demo'' 0] (demo_db, []) = (db', st)" by (metis surj_pair)
  then have "length (executions db') = 1" by (auto simp: panel_run_def panel_step_def demo_apply in_transaction_def)
  with performance_is_current [OF r, of "''demo''"] r show ?thesis by auto
qed

definition fill_of :: "string \<Rightarrow> string \<Rightarrow> rat \<Rightarrow> rat \<Rightarrow> execution" where
  "fill_of i oid q fee' = \<lparr>x_id = i, x_order = oid, x_account = ''demo'', x_symbol = ''KRW-BTC'', x_side = BUY,
     x_price = 100, x_quantity = q, x_fee = fee'\<rparr>"

definition reset_history :: "panel_event list" where
  "reset_history =
     [Book (fill_of ''e1'' ''o1'' 2 (1 / 2)), Ask ''demo'' 0, Reset ''demo'', Place ''o2'' ''demo'' ''KRW-BTC'' BUY 4,
      Book (fill_of ''e2'' ''o2'' 4 1)]"

lemma fills_performance:
  "compute_performance [fill_of i oid q fee'] =
     (if fl q = 0 then Inl ZeroDivision else Inr \<lparr>pf_realized = 0, pf_fees = fl fee', pf_trades = 1, pf_buys = 1, pf_sells = 0,
        pf_closed = 0, pf_wins = 0, pf_win_rate = None\<rparr>)"
  by (simp add: compute_performance_def tally_step_def fill_of_def empty_tally_def summary_def Let_def fdiv_def fadd_def)

lemmas booking = apply_execution_def demo_db_def fill_of_def Let_def record_execution_def numeric_def rhu_def checked_def
  add_balance_def upsert_position_def set_status_def ddiv_def dadd_def dmul_def dec_lit

definition reset_db :: db where
  "reset_db = \<lparr>accounts = [(''demo'', \<lparr>krw_balance = 10000000, auto_trade = True\<rparr>)], positions = [], orders = [], executions = [], outbox = []\<rparr>"

definition first_db :: db where
  "first_db = demo_db\<lparr>accounts := [(''demo'', \<lparr>krw_balance = 1599 / 2, auto_trade = True\<rparr>)],
     positions := [((''demo'', ''KRW-BTC''), \<lparr>p_quantity = 2, avg_buy_price = 401 / 4\<rparr>)],
     orders := [(''o1'', \<lparr>o_account = ''demo'', o_symbol = ''KRW-BTC'', o_side = BUY, o_type = MARKET,
       o_price = None, o_quantity = 2, o_status = FILLED\<rparr>)],
     executions := [(''e1'', fill_of ''e1'' ''o1'' 2 (1 / 2))]\<rparr>"

lemma booked_first: "apply_execution (/) demo_db (fill_of ''e1'' ''o1'' 2 (1 / 2)) = Inr (first_db, Applied)"
  by (simp add: first_db_def booking)

lemma first_reset: "reset_account default_settings first_db ''demo'' = Inr reset_db"
  by (simp add: reset_account_def first_db_def reset_db_def booking default_settings_def)

lemma booked_second:
  "\<exists>db3 i. place_order reset_db ''o2'' ''demo'' ''KRW-BTC'' BUY MARKET 4 None = Inr (db3, i) \<and>
     (\<exists>db4 out. apply_execution (/) db3 (fill_of ''e2'' ''o2'' 4 1) = Inr (db4, out) \<and> executions db4 = [(''e2'', fill_of ''e2'' ''o2'' 4 1)])"
  by (simp add: place_order_def insert_order_def reset_db_def booking)

text \<open>A reset of an account leaves the cached panel in place. When the account has as many executions again as
  at the last request before the reset, the route answers with the figures from before the reset.\<close>

lemma reset_serves_old_performance:
  "\<exists>db' st. panel_run t (/) default_settings reset_history (demo_db, []) = (db', st) \<and>
     account_executions db' ''demo'' = [fill_of ''e2'' ''o2'' 4 1] \<and>
     fst (performance_route t db' ''demo'' 9 st) = compute_performance [fill_of ''e1'' ''o1'' 2 (1 / 2)] \<and>
     fst (performance_route t db' ''demo'' 9 st) \<noteq> compute_performance [fill_of ''e2'' ''o2'' 4 1]"
proof -
  have db1: "executions first_db = [(''e1'', fill_of ''e1'' ''o1'' 2 (1 / 2))]" by (simp add: first_db_def)
  obtain db3 i db4 out2 where a3: "place_order reset_db ''o2'' ''demo'' ''KRW-BTC'' BUY MARKET 4 None = Inr (db3, i)"
    and a4: "apply_execution (/) db3 (fill_of ''e2'' ''o2'' 4 1) = Inr (db4, out2)" and db4: "executions db4 = [(''e2'', fill_of ''e2'' ''o2'' 4 1)]"
    using booked_second by blast
  have k: "fl (2::rat) = 2" "fl (4::rat) = 4" "fl (1::rat) = 1" "fl (1 / 2 :: rat) = 1 / 2" by (simp_all add: fl_lit)
  have acc: "account_executions first_db ''demo'' = [fill_of ''e1'' ''o1'' 2 (1 / 2)]" "account_executions db4 ''demo'' = [fill_of ''e2'' ''o2'' 4 1]"
    using db1 db4 by (simp_all add: account_executions_def fill_of_def)
  obtain p1 where p1: "compute_performance [fill_of ''e1'' ''o1'' 2 (1 / 2)] = Inr p1" "pf_fees p1 = 1 / 2"
    by (simp add: fills_performance k)
  have route: "performance_route t first_db ''demo'' 0 [] = (Inr p1, [(performance_key ''demo'', 0, 1, p1)])"
    using acc p1 by (simp add: performance_route_def cache_get_stale_def cache_set_def Let_def)
  have run: "panel_run t (/) default_settings reset_history (demo_db, []) = (db4, [(performance_key ''demo'', 0, 1, p1)])"
    by (simp add: panel_run_def reset_history_def panel_step_def in_transaction_def booked_first route first_reset a3 a4)
  have "fst (performance_route t db4 ''demo'' 9 [(performance_key ''demo'', 0, 1, p1)]) = Inr p1"
    using acc by (simp add: performance_route_def cache_get_stale_def Let_def)
  moreover have "compute_performance [fill_of ''e2'' ''o2'' 4 1] \<noteq> Inr p1"
    using p1(2) by (auto simp: fills_performance k)
  ultimately show ?thesis using run acc(2) p1(1) by (intro exI [of _ db4] exI [of _ "[(performance_key ''demo'', 0, 1, p1)]"]) simp
qed

end
