(* ===== verification/KisOrders.thy ===== *)
theory KisOrders
  imports Kis
begin

text \<open>
  Orders to the broker: \<open>common/broker/kis_order.py\<close> (the signed POST with its only safe retry) and
  \<open>kis_cancel.py\<close>.
\<close>

section \<open>The signed POST\<close>

definition RETRY_WAITS :: "rat list" where "RETRY_WAITS = [1, 2]"

definition safe_json :: "json option \<Rightarrow> json" where
  "safe_json b = (case b of Some (JObj d) \<Rightarrow> JObj d | _ \<Rightarrow> JObj [])"

text \<open>\<open>_hashkey\<close>: lost connections and server errors are retried after each of the waits.\<close>

fun hashkey_attempts :: "'w http \<Rightarrow> params \<Rightarrow> rat list \<Rightarrow> ('w, string) io" where
  "hashkey_attempts h body waits w =
     (let retry = (\<lambda>w'. case waits of
                     [] \<Rightarrow> (Inl (RuntimeError ''hashkey''), w')
                   | t # ts \<Rightarrow> hashkey_attempts h body ts (h_sleep h t w'))
      in case h_post h ''/uapi/hashkey'' body w of
           (NoReply, w') \<Rightarrow> retry w'
         | (Reply status b, w') \<Rightarrow>
             if status < 500
             then (rbind (read_reply status b) (\<lambda>j. case jget j ''HASH'' of
                     JNull \<Rightarrow> Inl (KeyError ''HASH'') | v \<Rightarrow> Inr (string_of v)), w')
             else retry w')"

definition hashkey :: "'w http \<Rightarrow> params \<Rightarrow> ('w, string) io" where
  "hashkey h body = hashkey_attempts h body RETRY_WAITS"

definition throttled :: "json \<Rightarrow> bool" where
  "throttled b \<longleftrightarrow> jget b ''msg_cd'' = JStr ''EGW00201''"

text \<open>The loop of \<open>post_order\<close>: only a reply of the gateway that refuses the request is retried.\<close>

fun post_attempts :: "'w http \<Rightarrow> string \<Rightarrow> params \<Rightarrow> rat list \<Rightarrow> ('w, json) io" where
  "post_attempts h path body waits w =
     (case h_post h path body w of
        (NoReply, w') \<Rightarrow> (Inl TransportError, w')
      | (Reply status r, w') \<Rightarrow>
          let b = safe_json r
          in (case (throttled b, waits) of
                (True, t # ts) \<Rightarrow> post_attempts h path body ts (h_sleep h t w')
              | _ \<Rightarrow>
                  (if 400 \<le> status then Inl (RuntimeError ''HTTP'')
                   else if \<not> is_zero (jget b ''rt_cd'') then Inl (RuntimeError ''rt_cd'')
                   else Inr b, w')))"

definition post_order :: "'w http \<Rightarrow> string \<Rightarrow> string \<Rightarrow> params \<Rightarrow> ('w, json) io" where
  "post_order h path tr_id body =
     bind (h_token h) (\<lambda>_.
     bind (hashkey h body) (\<lambda>hash.
       post_attempts h path ([(''tr_id'', JStr tr_id), (''hashkey'', JStr hash)] @ body) RETRY_WAITS))"

declare hashkey_attempts.simps [simp del] post_attempts.simps [simp del]

section \<open>Orders\<close>

text \<open>\<open>_validate\<close>; another side than the two is not a value of the type.\<close>

definition validate :: "int \<Rightarrow> unit res" where
  "validate q = (if q \<le> 0 then Inl (ValueError ''qty'') else Inr ())"

definition domestic_path :: string where
  "domestic_path = ''/uapi/domestic-stock/v1/trading/order-cash''"

definition overseas_path :: string where
  "overseas_path = ''/uapi/overseas-stock/v1/trading/order''"

definition cancel_path :: string where
  "cancel_path = ''/uapi/overseas-stock/v1/trading/order-rvsecncl''"

definition place_domestic_order ::
  "settings \<Rightarrow> 'w http \<Rightarrow> string \<Rightarrow> string \<Rightarrow> side \<Rightarrow> int \<Rightarrow> int option \<Rightarrow> ('w, json) io" where
  "place_domestic_order c h account_no symbol sd q price w =
     (case validate q of
        Inl e \<Rightarrow> (Inl e, w)
      | Inr _ \<Rightarrow>
          post_order h domestic_path (tr c (if sd = BUY then ''TTTC0802U'' else ''TTTC0801U''))
            (account_params account_no @
             [(''PDNO'', JStr symbol), (''ORD_DVSN'', JStr (if price = None then ''01'' else ''00'')),
              (''ORD_QTY'', JInt q), (''ORD_UNPR'', JInt (case price of None \<Rightarrow> 0 | Some p \<Rightarrow> p))]) w)"

definition place_overseas_order ::
  "settings \<Rightarrow> 'w http \<Rightarrow> string \<Rightarrow> string \<Rightarrow> side \<Rightarrow> int \<Rightarrow> rat \<Rightarrow> string \<Rightarrow> ('w, json) io" where
  "place_overseas_order c h account_no symbol sd q price exchange w =
     (case validate q of
        Inl e \<Rightarrow> (Inl e, w)
      | Inr _ \<Rightarrow>
          post_order h overseas_path (tr c (if sd = BUY then ''TTTT1002U'' else ''TTTT1006U''))
            (account_params account_no @
             [(''OVRS_EXCG_CD'', JStr exchange), (''PDNO'', JStr symbol), (''ORD_QTY'', JInt q),
              (''OVRS_ORD_UNPR'', JFloat price), (''ORD_SVR_DVSN_CD'', JInt 0), (''ORD_DVSN'', JStr ''00'')]) w)"

definition cancel_overseas_order ::
  "settings \<Rightarrow> 'w http \<Rightarrow> string \<Rightarrow> string \<Rightarrow> json \<Rightarrow> int \<Rightarrow> string \<Rightarrow> ('w, json) io" where
  "cancel_overseas_order c h account_no symbol odno q exchange =
     post_order h cancel_path (tr c ''TTTT1004U'')
       (account_params account_no @
        [(''OVRS_EXCG_CD'', JStr exchange), (''PDNO'', JStr symbol), (''ORGN_ODNO'', odno),
         (''RVSE_CNCL_DVSN_CD'', JStr ''02''), (''ORD_QTY'', JInt q), (''OVRS_ORD_UNPR'', JInt 0),
         (''ORD_SVR_DVSN_CD'', JInt 0)])"

section \<open>An order is submitted once\<close>

text \<open>
  What the client relies on of the broker, for a count \<open>accepted\<close> of the orders it has taken at a
  path: only a POST to the path can add one, at most one each; a reply with the throttle code comes
  from the gateway, so nothing was taken, and is never a success; a success was taken.
\<close>

definition counts_orders :: "'w http \<Rightarrow> string \<Rightarrow> ('w \<Rightarrow> nat) \<Rightarrow> bool" where
  "counts_orders h path accepted \<longleftrightarrow>
     (\<forall>url ps w r w'. h_post h url ps w = (r, w') \<longrightarrow>
        accepted w \<le> accepted w' \<and> accepted w' \<le> Suc (accepted w) \<and>
        (url \<noteq> path \<longrightarrow> accepted w' = accepted w) \<and>
        (\<forall>status b. r = Reply status b \<longrightarrow>
           (throttled (safe_json b) \<longrightarrow> accepted w' = accepted w \<and> \<not> is_zero (jget (safe_json b) ''rt_cd'')) \<and>
           (url = path \<and> status < 400 \<and> is_zero (jget (safe_json b) ''rt_cd'') \<longrightarrow> accepted w' = Suc (accepted w)))) \<and>
     (\<forall>w. accepted (snd (h_token h w)) = accepted w) \<and>
     (\<forall>t w. accepted (h_sleep h t w) = accepted w)"

lemma counts_ordersD:
  assumes "counts_orders h path accepted" "h_post h url ps w = (r, w')"
  shows "accepted w \<le> accepted w'" "accepted w' \<le> Suc (accepted w)"
    and "url \<noteq> path \<Longrightarrow> accepted w' = accepted w"
    and "r = Reply status b \<Longrightarrow> throttled (safe_json b) \<Longrightarrow>
      accepted w' = accepted w \<and> \<not> is_zero (jget (safe_json b) ''rt_cd'')"
    and "r = Reply status b \<Longrightarrow> url = path \<Longrightarrow> status < 400 \<Longrightarrow> is_zero (jget (safe_json b) ''rt_cd'') \<Longrightarrow>
      accepted w' = Suc (accepted w)"
  using assms unfolding counts_orders_def by blast+

lemma counts_orders_other:
  assumes "counts_orders h path accepted"
  shows "h_token h w = (r, w') \<Longrightarrow> accepted w' = accepted w" "accepted (h_sleep h t w) = accepted w"
  using assms unfolding counts_orders_def by (metis snd_conv)+

lemma hashkey_accepted:
  assumes "counts_orders h path accepted" "path \<noteq> ''/uapi/hashkey''"
  shows "hashkey_attempts h body waits w = (r, w') \<Longrightarrow> accepted w' = accepted w"
proof (induction waits arbitrary: w)
  case Nil
  obtain rep w1 where p: "h_post h ''/uapi/hashkey'' body w = (rep, w1)" by (metis surj_pair)
  have "w' = w1"
    using Nil p by (subst (asm) hashkey_attempts.simps) (auto simp: Let_def split: reply.splits if_splits)
  then show ?case using counts_ordersD(3) [OF assms(1) p] assms(2) by simp
next
  case (Cons t ts)
  obtain rep w1 where p: "h_post h ''/uapi/hashkey'' body w = (rep, w1)" by (metis surj_pair)
  have "w' = w1 \<or> hashkey_attempts h body ts (h_sleep h t w1) = (r, w')"
    using Cons.prems p by (subst (asm) hashkey_attempts.simps) (auto simp: Let_def split: reply.splits if_splits)
  then have "accepted w' = accepted w1" using Cons.IH counts_orders_other(2) [OF assms(1)] by metis
  then show ?case using counts_ordersD(3) [OF assms(1) p] assms(2) by simp
qed

lemma post_attempts_accepted:
  assumes c: "counts_orders h path accepted"
  shows "post_attempts h path body waits w = (r, w') \<Longrightarrow>
    accepted w' \<le> Suc (accepted w) \<and> (is_ok r \<longrightarrow> accepted w' = Suc (accepted w))"
proof (induction waits arbitrary: w)
  case Nil
  obtain rep w1 where p: "h_post h path body w = (rep, w1)" by (metis surj_pair)
  show ?case
    using Nil p counts_ordersD(2,4,5) [OF c p]
    by (subst (asm) post_attempts.simps) (auto simp: Let_def split: reply.splits bool.splits if_splits)
next
  case (Cons t ts)
  obtain rep w1 where p: "h_post h path body w = (rep, w1)" by (metis surj_pair)
  show ?case
  proof (cases "\<exists>status b. rep = Reply status b \<and> throttled (safe_json b)")
    case True
    then obtain status b where b: "rep = Reply status b" "throttled (safe_json b)" by blast
    have "post_attempts h path body ts (h_sleep h t w1) = (r, w')"
      using Cons.prems p b by (subst (asm) post_attempts.simps) (simp add: Let_def)
    from Cons.IH [OF this] counts_ordersD(4) [OF c p b] counts_orders_other(2) [OF c] show ?thesis by simp
  next
    case False
    then show ?thesis
      using Cons.prems p counts_ordersD(2,5) [OF c p]
      by (subst (asm) post_attempts.simps) (auto simp: Let_def split: reply.splits bool.splits if_splits)
  qed
qed

section \<open>Properties\<close>

text \<open>C6: An order is submitted at most once: whatever the connection and the servers do, and however often
  the gateway refuses the request, the broker takes at most one order per call, and exactly one if the call
  returns.\<close>

theorem order_submitted_once:
  assumes "counts_orders h path accepted" "path \<noteq> ''/uapi/hashkey''" "post_order h path tr_id body w = (r, w')"
  shows "accepted w' \<le> Suc (accepted w) \<and> (is_ok r \<longrightarrow> accepted w' = Suc (accepted w))"
proof -
  obtain t w1 where t: "h_token h w = (t, w1)" by (metis surj_pair)
  obtain k w2 where k: "hashkey_attempts h body RETRY_WAITS w1 = (k, w2)" by (metis surj_pair)
  have e: "accepted w1 = accepted w" "accepted w2 = accepted w1"
    using counts_orders_other(1) [OF assms(1) t] hashkey_accepted [OF assms(1,2) k] by simp_all
  show ?thesis
  proof (cases t)
    case (Inl x)
    then show ?thesis using assms(3) t e by (auto simp: post_order_def bind_def)
  next
    case (Inr u)
    show ?thesis
    proof (cases k)
      case (Inl x)
      then show ?thesis using assms(3) t k Inr e by (auto simp: post_order_def bind_def hashkey_def)
    next
      case (Inr hash)
      then have "post_attempts h path ([(''tr_id'', JStr tr_id), (''hashkey'', JStr hash)] @ body) RETRY_WAITS w2 = (r, w')"
        using assms(3) t k \<open>t = Inr u\<close> by (simp add: post_order_def bind_def hashkey_def)
      from post_attempts_accepted [OF assms(1) this] show ?thesis using e by simp
    qed
  qed
qed

text \<open>A broker whose gateway refuses the first request; the world counts requests and orders.\<close>

definition demo_http :: "(nat \<times> nat) http" where
  "demo_http = \<lparr>h_get = (\<lambda>url ps w. (NoReply, w)),
     h_post = (\<lambda>url ps (n, k).
       if url = ''/uapi/hashkey'' then (Reply 200 (Some (JObj [(''HASH'', JStr ''x'')])), (n, k))
       else if url \<noteq> domestic_path then (Reply 404 None, (n, k))
       else if n = 0 then (Reply 500 (Some (JObj [(''msg_cd'', JStr ''EGW00201'')])), (1, k))
       else (Reply 200 (Some (JObj [(''rt_cd'', JStr ''0'')])), (Suc n, Suc k))),
     h_token = (\<lambda>w. (Inr (), w)), h_sleep = (\<lambda>t w. w)\<rparr>"

lemma demo_http_counts: "counts_orders demo_http domestic_path snd"
  by (auto simp: counts_orders_def demo_http_def domestic_path_def safe_json_def throttled_def is_zero_def split: if_splits)

lemma demo_order: "post_order demo_http domestic_path ''t'' [] (0, 0) = (Inr (JObj [(''rt_cd'', JStr ''0'')]), (2, 1))"
  by code_simp

theorem order_submitted_once_witness:
  "\<exists>r w'. post_order demo_http domestic_path ''t'' [] (0, 0) = (r, w') \<and> is_ok r \<and> snd w' = 1"
proof -
  have "domestic_path \<noteq> ''/uapi/hashkey''" by (simp add: domestic_path_def)
  from order_submitted_once [OF demo_http_counts this demo_order] show ?thesis using demo_order by simp
qed

end
