(* ===== verification/KisChase.thy ===== *)
theory KisChase
  imports KisOrders
begin

text \<open>
  The chase of an order until it is filled, \<open>common/broker/kis_chase.py\<close>: place, watch the holdings,
  cancel what is left and place it again at a better price.  The world is the one of \<open>Kis\<close>.
\<close>

section \<open>Watching the holdings\<close>

datatype market = KR | US

definition held_qty ::
  "settings \<Rightarrow> 'w http \<Rightarrow> string \<Rightarrow> market \<Rightarrow> string \<Rightarrow> string option \<Rightarrow> ('w, rat) io" where
  "held_qty c h account_no market symbol exchange =
     (case market of
        KR \<Rightarrow> bind (kr_balance c h account_no) (\<lambda>b.
                ret (case filter (\<lambda>p. h_symbol p = symbol) (bal_positions b) of [] \<Rightarrow> 0 | p # ps \<Rightarrow> h_qty p))
      | US \<Rightarrow> us_held_qty c h account_no symbol (case exchange of None \<Rightarrow> ''NASD'' | Some x \<Rightarrow> x))"

definition gain :: "side \<Rightarrow> rat \<Rightarrow> rat \<Rightarrow> int" where
  "gain sd base now = rdown (max 0 (if sd = BUY then fsub now base else fsub base now))"

definition filled_since ::
  "settings \<Rightarrow> 'w http \<Rightarrow> string \<Rightarrow> market \<Rightarrow> string \<Rightarrow> side \<Rightarrow> rat \<Rightarrow> string option \<Rightarrow> ('w, int) io" where
  "filled_since c h account_no market symbol sd base exchange =
     bind (held_qty c h account_no market symbol exchange) (\<lambda>now. ret (gain sd base now))"

definition POLL_DELAYS :: "int list" where "POLL_DELAYS = [2, 3, 4, 6, 8, 10]"

definition poll_delay :: "nat \<Rightarrow> int" where
  "poll_delay i = POLL_DELAYS ! min i 5"

lemma poll_delay_pos: "0 < poll_delay i"
proof -
  have "\<forall>n \<in> set [0..<6]. 0 < POLL_DELAYS ! n" by (simp add: POLL_DELAYS_def upt_rec)
  moreover have "min i 5 \<in> set [0..<6]" by simp
  ultimately show ?thesis unfolding poll_delay_def by blast
qed

text \<open>The loop of \<open>_poll_fill\<close>: \<open>observe\<close> is the query of the holdings.\<close>

function poll_fill ::
  "'w http \<Rightarrow> ('w, int) io \<Rightarrow> int \<Rightarrow> int \<Rightarrow> int \<Rightarrow> nat \<Rightarrow> int \<Rightarrow> 'w \<Rightarrow> int \<times> 'w" where
  "poll_fill h observe want window waited i filled w =
     (if waited < window then
        let d = poll_delay i
        in (case observe (h_sleep h (of_int d) w) of
              (Inl e, w') \<Rightarrow> poll_fill h observe want window (waited + d) (Suc i) filled w'
            | (Inr f, w') \<Rightarrow>
                if want \<le> f then (f, w')
                else poll_fill h observe want window (waited + d) (Suc i) f w')
      else (filled, w))"
  by pat_completeness auto
termination
proof (relation "measure (\<lambda>(h, observe, want, window, waited, i, filled, w). nat (window - waited))")
qed (use poll_delay_pos in \<open>auto simp: zless_nat_conj\<close>)

declare poll_fill.simps [simp del]

section \<open>The chase\<close>

record attempt =
  at_qty :: int
  at_limit :: "rat option"
  at_odno :: json
  at_error :: "exc option"
  at_filled :: "int option"
  at_cancel :: "exc option option"
  at_recheck :: "exc option"

datatype chase_status = Filled | Partial | Unfilled | Refused

record chase_result =
  ch_status :: chase_status
  ch_requested :: int
  ch_filled :: int
  ch_attempts :: "attempt list"

definition price_buffer :: "side \<Rightarrow> nat \<Rightarrow> rat" where
  "price_buffer sd n =
     (if sd = BUY then [fl (102 / 100), fl (103 / 100), fl (104 / 100)]
      else [fl (98 / 100), fl (97 / 100), fl (96 / 100)]) ! min n 2"

text \<open>\<open>round(x, 2)\<close> of a float: the nearest value with two decimals, as a float.\<close>

definition round2 :: "rat \<Rightarrow> rat" where
  "round2 x = fl (of_int (rhe (x * 100)) / 100)"

record chase_args =
  ca_account :: string
  ca_market :: market
  ca_symbol :: string
  ca_side :: side
  ca_qty :: int
  ca_exchange :: "string option"
  ca_price :: "rat option"
  ca_base :: rat
  ca_window :: int

definition order_exchange :: "chase_args \<Rightarrow> string" where
  "order_exchange a = (case ca_exchange a of None \<Rightarrow> ''NASD'' | Some x \<Rightarrow> x)"

definition observe :: "settings \<Rightarrow> 'w http \<Rightarrow> chase_args \<Rightarrow> ('w, int) io" where
  "observe c h a = filled_since c h (ca_account a) (ca_market a) (ca_symbol a) (ca_side a) (ca_base a) (ca_exchange a)"

definition new_attempt :: "int \<Rightarrow> attempt" where
  "new_attempt q = \<lparr>at_qty = q, at_limit = None, at_odno = JNull, at_error = None, at_filled = None,
                    at_cancel = None, at_recheck = None\<rparr>"

text \<open>\<open>(r.get("output") or {}).get("ODNO")\<close>: an output that is neither empty nor an object has no \<open>get\<close>, and the
  exception ends the attempt like a refused order.\<close>

definition order_no :: "json \<Rightarrow> json res" where
  "order_no r =
     (case j_or (jget r ''output'') (JObj []) of JObj d \<Rightarrow> Inr (jget (JObj d) ''ODNO'') | _ \<Rightarrow> Inl AttributeError)"

definition accepted_attempt :: "json \<Rightarrow> attempt \<Rightarrow> attempt" where
  "accepted_attempt r att =
     (case order_no r of Inl e \<Rightarrow> att\<lparr>at_error := Some e\<rparr> | Inr no \<Rightarrow> att\<lparr>at_odno := no\<rparr>)"

text \<open>The order of the \<open>n\<close>-th attempt; it failed if the attempt has an error.\<close>

definition chase_price :: "'w http \<Rightarrow> chase_args \<Rightarrow> nat \<Rightarrow> 'w \<Rightarrow> rat option \<times> 'w" where
  "chase_price h a n w =
     (if n = 0 \<and> ca_price a \<noteq> None \<and> ca_price a \<noteq> Some 0 then (ca_price a, w)
      else let ((px, x), w') = price_and_exchange h (ca_symbol a) w in (px, w'))"

definition submit_order :: "settings \<Rightarrow> 'w http \<Rightarrow> chase_args \<Rightarrow> nat \<Rightarrow> int \<Rightarrow> 'w \<Rightarrow> attempt \<times> 'w" where
  "submit_order c h a n remaining w =
     (case ca_market a of
        KR \<Rightarrow>
          (case place_domestic_order c h (ca_account a) (ca_symbol a) (ca_side a) remaining None w of
             (Inl e, w') \<Rightarrow> ((new_attempt remaining)\<lparr>at_error := Some e\<rparr>, w')
           | (Inr r, w') \<Rightarrow> (accepted_attempt r (new_attempt remaining), w'))
      | US \<Rightarrow>
          (case chase_price h a n w of
             (None, w1) \<Rightarrow> ((new_attempt remaining)\<lparr>at_error := Some (ValueError ''price'')\<rparr>, w1)
           | (Some px, w1) \<Rightarrow>
               let limit = round2 (fmul px (price_buffer (ca_side a) n))
               in (case place_overseas_order c h (ca_account a) (ca_symbol a) (ca_side a) remaining limit (order_exchange a) w1 of
                     (Inl e, w') \<Rightarrow> ((new_attempt remaining)\<lparr>at_limit := Some limit, at_error := Some e\<rparr>, w')
                   | (Inr r, w') \<Rightarrow> (accepted_attempt r ((new_attempt remaining)\<lparr>at_limit := Some limit\<rparr>), w'))))"

text \<open>The attempts from the \<open>n\<close>-th on: what remains, the attempts and the world.\<close>

fun chase_loop ::
  "settings \<Rightarrow> 'w http \<Rightarrow> chase_args \<Rightarrow> nat \<Rightarrow> nat \<Rightarrow> int \<Rightarrow> attempt list \<Rightarrow> 'w \<Rightarrow> (int \<times> attempt list) \<times> 'w" where
  "chase_loop c h a n 0 remaining atts w = ((remaining, atts), w)"
| "chase_loop c h a n (Suc left) remaining atts w =
     (let (att, w1) = submit_order c h a n remaining w
      in if at_error att \<noteq> None then ((remaining, atts @ [att]), w1)
         else
           let (f, w2) = poll_fill h (observe c h a) (ca_qty a) (ca_window a) 0 0 0 w1;
               att = att\<lparr>at_filled := Some f\<rparr>; remaining = ca_qty a - f
           in if remaining \<le> 0 \<or> ca_market a = KR then ((remaining, atts @ [att]), w2)
              else
                let (cn, w3) = cancel_overseas_order c h (ca_account a) (ca_symbol a) (at_odno att) remaining (order_exchange a) w2;
                    (ob, w4) = observe c h a w3
                in (case (cn, ob) of
                      (Inr _, Inl e) \<Rightarrow> ((remaining, atts @ [att\<lparr>at_cancel := Some None, at_recheck := Some e\<rparr>]), w4)
                    | (Inr _, Inr f') \<Rightarrow>
                        if ca_qty a - f' \<le> 0 then ((ca_qty a - f', atts @ [att\<lparr>at_cancel := Some None\<rparr>]), w4)
                        else chase_loop c h a (Suc n) left (ca_qty a - f') (atts @ [att\<lparr>at_cancel := Some None\<rparr>]) w4
                    | (Inl e, Inl e') \<Rightarrow>
                        ((remaining, atts @ [att\<lparr>at_cancel := Some (Some e), at_recheck := Some e'\<rparr>]), w4)
                    | (Inl e, Inr f') \<Rightarrow> ((ca_qty a - f', atts @ [att\<lparr>at_cancel := Some (Some e)\<rparr>]), w4)))"

definition chase_outcome :: "int \<Rightarrow> int \<Rightarrow> attempt list \<Rightarrow> chase_result" where
  "chase_outcome q remaining atts =
     \<lparr>ch_status =
        (if remaining \<le> 0 then Filled
         else if 0 < q - remaining then Partial
         else if atts \<noteq> [] \<and> at_error (hd atts) \<noteq> None then Refused
         else Unfilled),
      ch_requested = q, ch_filled = q - remaining, ch_attempts = atts\<rparr>"

definition place_and_chase ::
  "settings \<Rightarrow> 'w http \<Rightarrow> string \<Rightarrow> market \<Rightarrow> string \<Rightarrow> side \<Rightarrow> int \<Rightarrow> rat option \<Rightarrow> string option \<Rightarrow> nat \<Rightarrow> int
   \<Rightarrow> ('w, chase_result) io" where
  "place_and_chase c h account_no market symbol sd q ref_price exchange max_attempts window w =
     (let ((px, ex), w1) = (if market = US \<and> (exchange = None \<or> exchange = Some '''') then price_and_exchange h symbol w
                            else ((ref_price, exchange), w))
      in bind (held_qty c h account_no market symbol ex) (\<lambda>base w2.
           let a = \<lparr>ca_account = account_no, ca_market = market, ca_symbol = symbol, ca_side = sd, ca_qty = q,
                    ca_exchange = ex, ca_price = px, ca_base = base, ca_window = window\<rparr>;
               ((remaining, atts), w3) = chase_loop c h a 0 (if market = US then max_attempts else 1) q [] w2
           in (Inr (chase_outcome q remaining atts), w3)) w1)"

section \<open>The broker\<close>

text \<open>
  What the chase relies on.  \<open>pos\<close> is the position of the account in the symbol in the direction of
  the orders (the holding for a purchase, its negative for a sale), \<open>pend\<close> the quantity that orders
  already accepted can still execute.  Time and queries only move quantity from \<open>pend\<close> to \<open>pos\<close> or
  drop it; an order, also one whose answer is lost, adds at most its quantity; after a confirmed
  cancellation nothing is pending; an answered query tells the truth.
\<close>

definition quiet :: "('w \<Rightarrow> int) \<Rightarrow> ('w \<Rightarrow> int) \<Rightarrow> 'w \<Rightarrow> 'w \<Rightarrow> bool" where
  "quiet pos pend w w' \<longleftrightarrow> pos w \<le> pos w' \<and> 0 \<le> pend w' \<and> pos w' + pend w' \<le> pos w + pend w"

definition truthful :: "side \<Rightarrow> ('w \<Rightarrow> int) \<Rightarrow> rat res \<Rightarrow> 'w \<Rightarrow> bool" where
  "truthful sd pos r w \<longleftrightarrow>
     (\<forall>x. r = Inr x \<longrightarrow> x = of_int (if sd = BUY then pos w else - pos w) \<and> \<bar>pos w\<bar> \<le> 2 ^ 51)"

definition sound_broker ::
  "settings \<Rightarrow> 'w http \<Rightarrow> string \<Rightarrow> market \<Rightarrow> string \<Rightarrow> side \<Rightarrow> string option \<Rightarrow> ('w \<Rightarrow> int) \<Rightarrow> ('w \<Rightarrow> int) \<Rightarrow> bool" where
  "sound_broker c h account_no market symbol sd exchange pos pend \<longleftrightarrow>
     (\<forall>t w. quiet pos pend w (h_sleep h t w)) \<and>
     (\<forall>w. quiet pos pend w (snd (price_and_exchange h symbol w))) \<and>
     (\<forall>w r w'. held_qty c h account_no market symbol exchange w = (r, w') \<longrightarrow>
        quiet pos pend w w' \<and> truthful sd pos r w') \<and>
     (\<forall>q price x w r w'. 0 < q \<longrightarrow>
        place_domestic_order c h account_no symbol sd q None w = (r, w') \<or>
        place_overseas_order c h account_no symbol sd q price x w = (r, w') \<longrightarrow>
        pos w \<le> pos w' \<and> 0 \<le> pend w' \<and> pos w' + pend w' \<le> pos w + pend w + q) \<and>
     (\<forall>odno q x w r w'. cancel_overseas_order c h account_no symbol odno q x w = (r, w') \<longrightarrow>
        quiet pos pend w w' \<and> (is_ok r \<longrightarrow> pend w' = 0))"

lemma quiet_trans: "quiet pos pend w w' \<Longrightarrow> quiet pos pend w' w'' \<Longrightarrow> quiet pos pend w w''"
  by (auto simp: quiet_def)

lemma gain_exact:
  assumes "\<bar>b\<bar> \<le> 2 ^ 51" "\<bar>n\<bar> \<le> 2 ^ 51" "b \<le> n"
  shows "gain sd (of_int (if sd = BUY then b else - b)) (of_int (if sd = BUY then n else - n)) = n - b"
proof -
  have "(2 :: int) ^ 53 = 4 * 2 ^ 51" by simp
  then have "\<bar>n - b\<bar> \<le> 2 ^ 53" using assms by linarith
  then have "fl (of_int (n - b)) = of_int (n - b)" by (rule fl_of_int)
  moreover have "max 0 (of_int (n - b)) = (of_int (n - b) :: rat)" using assms(3) by simp
  ultimately show ?thesis
    using rdown_of_int [of "n - b"] by (cases sd) (simp_all add: gain_def fsub_def)
qed

lemma poll_fill_sound:
  assumes "\<And>t w. quiet pos pend w (h_sleep h t w)"
    and "\<And>w r w'. ob w = (r, w') \<Longrightarrow> b \<le> pos w \<Longrightarrow> quiet pos pend w w' \<and> (\<forall>f. r = Inr f \<longrightarrow> f = pos w' - b)"
  shows "poll_fill h ob want window waited i filled w = (f, w') \<Longrightarrow> b \<le> pos w \<Longrightarrow> 0 \<le> pend w \<Longrightarrow>
    filled \<le> pos w - b \<Longrightarrow> quiet pos pend w w' \<and> f \<le> pos w' - b"
  using assms
proof (induction h ob want window waited i filled w rule: poll_fill.induct)
  case (1 h ob want window waited i filled w)
  let ?d = "poll_delay i" and ?w1 = "h_sleep h (of_int (poll_delay i)) w"
  show ?case
  proof (cases "waited < window")
    case False
    then have "f = filled" "w' = w" using "1.prems"(1) by (simp_all add: poll_fill.simps)
    then show ?thesis using "1.prems"(2-4) by (simp add: quiet_def)
  next
    case True
    obtain r w2 where o: "ob ?w1 = (r, w2)" by (metis surj_pair)
    have q1: "quiet pos pend w ?w1" by (rule "1.prems"(5))
    then have b1: "b \<le> pos ?w1" using "1.prems"(2) by (simp add: quiet_def)
    have q2: "quiet pos pend ?w1 w2" and fr: "\<And>g. r = Inr g \<Longrightarrow> g = pos w2 - b"
      using "1.prems"(6) [OF o b1] by auto
    have q: "quiet pos pend w w2" by (rule quiet_trans [OF q1 q2])
    then have st: "b \<le> pos w2" "0 \<le> pend w2" "filled \<le> pos w2 - b"
      using "1.prems"(2,4) by (auto simp: quiet_def)
    show ?thesis
    proof (cases r)
      case (Inl e)
      have "poll_fill h ob want window (waited + ?d) (Suc i) filled w2 = (f, w')"
        using "1.prems"(1) True o Inl by (subst (asm) poll_fill.simps) (simp add: Let_def)
      from "1.IH"(1) [OF True refl o [symmetric] Inl this st "1.prems"(5,6)] show ?thesis
        using quiet_trans [OF q] by blast
    next
      case (Inr g)
      show ?thesis
      proof (cases "want \<le> g")
        case True
        have "(f, w') = (g, w2)"
          using "1.prems"(1) \<open>waited < window\<close> o Inr True by (subst (asm) poll_fill.simps) (simp add: Let_def)
        then have "f = g" "w' = w2" by simp_all
        then show ?thesis using q fr [OF Inr] by simp
      next
        case False
        have "poll_fill h ob want window (waited + ?d) (Suc i) g w2 = (f, w')"
          using "1.prems"(1) True o Inr False by (subst (asm) poll_fill.simps) (simp add: Let_def)
        moreover have "g \<le> pos w2 - b" using fr [OF Inr] by simp
        ultimately have "quiet pos pend w2 w' \<and> f \<le> pos w' - b"
          using "1.IH"(2) [OF True refl o [symmetric] Inr False] st(1,2) "1.prems"(5,6) by blast
        then show ?thesis using quiet_trans [OF q] by blast
      qed
    qed
  qed
qed

text \<open>The state between two attempts: nothing is pending, and what remains is what was not filled.\<close>

definition between :: "('w \<Rightarrow> int) \<Rightarrow> ('w \<Rightarrow> int) \<Rightarrow> int \<Rightarrow> int \<Rightarrow> int \<Rightarrow> 'w \<Rightarrow> bool" where
  "between pos pend b q remaining w \<longleftrightarrow> b \<le> pos w \<and> pend w = 0 \<and> pos w + remaining = b + q \<and> 0 < remaining"

text \<open>The state after an order: no more than the quantity can ever be filled, \<open>remaining\<close> is no less than
  what is not filled.\<close>

definition bounded :: "('w \<Rightarrow> int) \<Rightarrow> ('w \<Rightarrow> int) \<Rightarrow> int \<Rightarrow> int \<Rightarrow> int \<Rightarrow> 'w \<Rightarrow> bool" where
  "bounded pos pend b q remaining w \<longleftrightarrow>
     b \<le> pos w \<and> 0 \<le> pend w \<and> pos w + pend w \<le> b + q \<and> q - remaining \<le> pos w - b"

lemma bounded_quiet: "bounded pos pend b q r w \<Longrightarrow> quiet pos pend w w' \<Longrightarrow> bounded pos pend b q r w'"
  by (auto simp: bounded_def quiet_def)

lemma between_bounded: "between pos pend b q r w \<Longrightarrow> bounded pos pend b q r w"
  by (auto simp: between_def bounded_def)

lemma between_quiet: "between pos pend b q r w \<Longrightarrow> quiet pos pend w w' \<Longrightarrow> between pos pend b q r w'"
  by (auto simp: between_def quiet_def)

lemma sound_brokerD:
  assumes "sound_broker c h acct market symbol sd exchange pos pend"
  shows "quiet pos pend w (h_sleep h t w)"
    and "price_and_exchange h symbol w = (p, w') \<Longrightarrow> quiet pos pend w w'"
    and "held_qty c h acct market symbol exchange w = (r, w') \<Longrightarrow> quiet pos pend w w' \<and> truthful sd pos r w'"
    and "cancel_overseas_order c h acct symbol odno q x w = (r', w') \<Longrightarrow>
      quiet pos pend w w' \<and> (is_ok r' \<longrightarrow> pend w' = 0)"
  using assms unfolding sound_broker_def by (metis snd_conv)+

lemma sound_broker_place:
  assumes "sound_broker c h acct market symbol sd exchange pos pend" "between pos pend b q remaining w"
    and "place_domestic_order c h acct symbol sd remaining None w = (r, w') \<or>
      place_overseas_order c h acct symbol sd remaining price x w = (r, w')"
  shows "bounded pos pend b q remaining w'"
proof -
  have "0 < remaining" using assms(2) by (simp add: between_def)
  then have "pos w \<le> pos w' \<and> 0 \<le> pend w' \<and> pos w' + pend w' \<le> pos w + pend w + remaining"
    using assms(1,3) unfolding sound_broker_def by blast
  then show ?thesis using assms(2) by (auto simp: between_def bounded_def)
qed

lemma observe_sound:
  assumes s: "sound_broker c h acct (ca_market a) (ca_symbol a) (ca_side a) (ca_exchange a) pos pend"
    and a: "ca_account a = acct" "ca_base a = of_int (if ca_side a = BUY then b else - b)" "\<bar>b\<bar> \<le> 2 ^ 51"
    and o: "observe c h a w = (r, w')" "b \<le> pos w"
  shows "quiet pos pend w w' \<and> (\<forall>f. r = Inr f \<longrightarrow> f = pos w' - b)"
proof -
  obtain r0 w0 where h: "held_qty c h acct (ca_market a) (ca_symbol a) (ca_exchange a) w = (r0, w0)"
    by (metis surj_pair)
  have o': "w0 = w' \<and> r = rbind r0 (\<lambda>now. Inr (gain (ca_side a) (ca_base a) now))"
    using o(1) h by (cases r0) (simp_all add: observe_def filled_since_def bind_def ret_def a(1))
  have q: "quiet pos pend w w'" "truthful (ca_side a) pos r0 w'"
    using sound_brokerD(3) [OF s h] o' by simp_all
  have "f = pos w' - b" if "r = Inr f" for f
  proof -
    have t: "r0 = Inr (of_int (if ca_side a = BUY then pos w' else - pos w')) \<and> \<bar>pos w'\<bar> \<le> 2 ^ 51"
      using that o' q(2) by (cases r0) (simp_all add: truthful_def)
    have "b \<le> pos w'" using q(1) o(2) by (simp add: quiet_def)
    from gain_exact [OF a(3) conjunct2 [OF t] this, of "ca_side a"] show ?thesis
      using that o' unfolding conjunct1 [OF t] a(2) by simp
  qed
  then show ?thesis using q(1) by blast
qed

lemma submit_order_sound:
  assumes s: "sound_broker c h (ca_account a) (ca_market a) (ca_symbol a) (ca_side a) (ca_exchange a) pos pend"
    and b: "between pos pend b q remaining w" and r: "submit_order c h a n remaining w = (att, w')"
  shows "bounded pos pend b q remaining w'"
proof (cases "ca_market a")
  case KR
  obtain x w1 where p: "place_domestic_order c h (ca_account a) (ca_symbol a) (ca_side a) remaining None w = (x, w1)"
    by (metis surj_pair)
  then have "w' = w1" using r KR by (cases x) (simp_all add: submit_order_def)
  then show ?thesis using sound_broker_place [OF s b] p by blast
next
  case US
  obtain px w1 where p: "chase_price h a n w = (px, w1)" by (metis surj_pair)
  have b1: "between pos pend b q remaining w1"
  proof (cases "n = 0 \<and> ca_price a \<noteq> None \<and> ca_price a \<noteq> Some 0")
    case True
    then show ?thesis using p b by (simp add: chase_price_def)
  next
    case False
    obtain y w2 where y: "price_and_exchange h (ca_symbol a) w = (y, w2)" by (metis surj_pair)
    then have "w1 = w2" using p False by (cases y) (auto simp: chase_price_def)
    then show ?thesis using between_quiet [OF b] sound_brokerD(2) [OF s y] by blast
  qed
  show ?thesis
  proof (cases px)
    case None
    then show ?thesis using r US p between_bounded [OF b1] by (simp add: submit_order_def)
  next
    case (Some v)
    let ?limit = "round2 (fmul v (price_buffer (ca_side a) n))"
    obtain x w2 where o: "place_overseas_order c h (ca_account a) (ca_symbol a) (ca_side a) remaining ?limit (order_exchange a) w1 = (x, w2)"
      by (metis surj_pair)
    then have "w' = w2" using r US p Some by (cases x) (simp_all add: submit_order_def Let_def)
    then show ?thesis using sound_broker_place [OF s b1] o by blast
  qed
qed

lemma chase_loop_sound:
  assumes s: "sound_broker c h (ca_account a) (ca_market a) (ca_symbol a) (ca_side a) (ca_exchange a) pos pend"
    and a: "ca_base a = of_int (if ca_side a = BUY then b else - b)" "\<bar>b\<bar> \<le> 2 ^ 51"
  shows "chase_loop c h a n left remaining atts w = ((rem, atts'), w') \<Longrightarrow>
    between pos pend b (ca_qty a) remaining w \<Longrightarrow> bounded pos pend b (ca_qty a) rem w'"
proof (induction left arbitrary: n remaining atts w)
  case 0
  then show ?case by (simp add: between_bounded)
next
  case (Suc left)
  let ?q = "ca_qty a"
  obtain att w1 where su: "submit_order c h a n remaining w = (att, w1)" by (metis surj_pair)
  have b1: "bounded pos pend b ?q remaining w1" by (rule submit_order_sound [OF s Suc.prems(2) su])
  show ?case
  proof (cases "at_error att = None")
    case False
    then show ?thesis using Suc.prems(1) su b1 by simp
  next
    case True
    obtain f w2 where po: "poll_fill h (observe c h a) ?q (ca_window a) 0 0 0 w1 = (f, w2)" by (metis surj_pair)
    have "quiet pos pend w1 w2 \<and> f \<le> pos w2 - b"
      by (rule poll_fill_sound [OF sound_brokerD(1) [OF s] observe_sound [OF s refl a] po])
        (use b1 in \<open>auto simp: bounded_def\<close>)
    then have b2: "bounded pos pend b ?q (?q - f) w2"
      using bounded_quiet [OF b1] by (auto simp: bounded_def)
    obtain cn w3 where cn: "cancel_overseas_order c h (ca_account a) (ca_symbol a) (at_odno att) (?q - f) (order_exchange a) w2 = (cn, w3)"
      by (metis surj_pair)
    have b3: "bounded pos pend b ?q (?q - f) w3" "is_ok cn \<Longrightarrow> pend w3 = 0"
      using sound_brokerD(4) [OF s cn] bounded_quiet [OF b2] by auto
    obtain ob w4 where ob: "observe c h a w3 = (ob, w4)" by (metis surj_pair)
    have o: "quiet pos pend w3 w4" "\<And>g. ob = Inr g \<Longrightarrow> g = pos w4 - b"
      using observe_sound [OF s refl a ob] b3(1) by (auto simp: bounded_def)
    have b4: "bounded pos pend b ?q (?q - f) w4" by (rule bounded_quiet [OF b3(1) o(1)])
    have seen: "bounded pos pend b ?q (?q - g) w4" if "ob = Inr g" for g
      using b4 o(2) [OF that] by (auto simp: bounded_def)
    have again: "between pos pend b ?q (?q - g) w4" if "ob = Inr g" "is_ok cn" "0 < ?q - g" for g
      using b3(2) [OF that(2)] b4 o(1) o(2) [OF that(1)] that(3) by (auto simp: between_def bounded_def quiet_def)
    show ?thesis
    proof (cases "?q - f \<le> 0 \<or> ca_market a = KR")
      case True
      then show ?thesis using Suc.prems(1) su \<open>at_error att = None\<close> po b2 by (auto simp: Let_def)
    next
      case False
      then show ?thesis
        using Suc.prems(1) su \<open>at_error att = None\<close> po cn ob b4 seen again Suc.IH
        by (cases cn; cases ob) (auto simp: Let_def split: if_splits)
    qed
  qed
qed

section \<open>Properties\<close>

text \<open>C5: The chase never fills an order twice and never reports what did not happen: for Korean shares, and for
  American shares when the exchange is given, with a broker that answers truthfully, even if any request fails or any answer is lost, all orders of one call together can
  never execute more than the requested quantity, the reported quantity was executed, and the
  status \<open>FILLED\<close> means that exactly the requested quantity was executed and no order is left.\<close>

theorem chase_never_overfills:
  assumes s: "sound_broker c h account_no market symbol sd exchange pos pend"
    and e: "market = KR \<or> exchange \<noteq> None \<and> exchange \<noteq> Some ''''"
    and w: "pend w = 0" "0 < q"
    and r: "place_and_chase c h account_no market symbol sd q ref_price exchange max_attempts window w = (r, w')"
  shows "pos w' + pend w' \<le> pos w + q \<and>
    (\<forall>res. r = Inr res \<longrightarrow> ch_filled res \<le> pos w' - pos w \<and>
      (ch_status res = Filled \<longrightarrow> pos w' = pos w + q \<and> pend w' = 0))"
proof -
  obtain b w2 where h: "held_qty c h account_no market symbol exchange w = (b, w2)" by (metis surj_pair)
  have ex: "\<not> (market = US \<and> (exchange = None \<or> exchange = Some ''''))" using e by auto
  note q1 = sound_brokerD(3) [OF s h]
  then have p: "pos w2 = pos w" "pend w2 = 0" using w(1) by (auto simp: quiet_def)
  show ?thesis
  proof (cases b)
    case (Inl x)
    then show ?thesis using r h p w(2) by (auto simp: place_and_chase_def Let_def bind_def ex)
  next
    case (Inr base)
    let ?a = "\<lparr>ca_account = account_no, ca_market = market, ca_symbol = symbol, ca_side = sd, ca_qty = q,
      ca_exchange = exchange, ca_price = ref_price, ca_base = base, ca_window = window\<rparr>"
    obtain rem atts w3 where l: "chase_loop c h ?a 0 (if market = US then max_attempts else 1) q [] w2 = ((rem, atts), w3)"
      by (metis surj_pair)
    have res: "r = Inr (chase_outcome q rem atts)" "w' = w3"
      using r h Inr l by (auto simp: place_and_chase_def Let_def bind_def ex)
    have t: "base = of_int (if sd = BUY then pos w2 else - pos w2)" "\<bar>pos w2\<bar> \<le> 2 ^ 51"
      using q1 Inr by (auto simp: truthful_def)
    have bt: "between pos pend (pos w2) q q w2" using p w(2) by (simp add: between_def)
    have "bounded pos pend (pos w2) (ca_qty ?a) rem w3"
      by (rule chase_loop_sound [OF _ _ t(2) l]) (use s t(1) bt in simp_all)
    then have "bounded pos pend (pos w2) q rem w'" by (simp add: res(2))
    then show ?thesis using res(1) p by (auto simp: bounded_def chase_outcome_def split: if_splits)
  qed
qed

text \<open>A broker that fills one share in every pause; the world is the holding and what is pending.\<close>

definition demo_broker :: "(int \<times> nat) http" where
  "demo_broker = \<lparr>h_get = (\<lambda>url ps (p, d).
       if url = ''/uapi/overseas-price/v1/quotations/price''
       then (Reply 200 (Some (JObj [(''rt_cd'', JStr ''0''), (''output'', JObj [(''last'', JInt 100)])])), (p, d))
       else if \<bar>p\<bar> \<le> 2 ^ 51
       then (Reply 200 (Some (JObj [(''rt_cd'', JStr ''0''),
               (''output1'', JList [JObj [(''ovrs_pdno'', JStr ''A''), (''ovrs_cblc_qty'', JFloat (of_int p))]])])), (p, d))
       else (Reply 404 None, (p, d))),
     h_post = (\<lambda>url ps (p, d).
       if url = ''/uapi/hashkey'' then (Reply 200 (Some (JObj [(''HASH'', JStr ''x'')])), (p, d))
       else if url = overseas_path
       then (Reply 200 (Some (JObj [(''rt_cd'', JStr ''0''), (''output'', JObj [(''ODNO'', JStr ''7'')])])),
             (p, d + (case map_of ps ''ORD_QTY'' of Some (JInt q) \<Rightarrow> nat q | _ \<Rightarrow> 0)))
       else if url = cancel_path then (Reply 200 (Some (JObj [(''rt_cd'', JStr ''0'')])), (p, 0))
       else (Reply 404 None, (p, d))),
     h_token = (\<lambda>w. (Inr (), w)), h_sleep = (\<lambda>t (p, d). if d = 0 then (p, d) else (p + 1, d - 1))\<rparr>"

lemma demo_account: "account_params ''1-01'' = [(''CANO'', JStr ''1''), (''ACNT_PRDT_CD'', JStr ''01'')]"
  by code_simp

lemma demo_broker_get:
  "h_get demo_broker ''/uapi/overseas-price/v1/quotations/price'' ps w =
     (Reply 200 (Some (JObj [(''rt_cd'', JStr ''0''), (''output'', JObj [(''last'', JInt 100)])])), w)"
  "h_get demo_broker ''/uapi/overseas-stock/v1/trading/inquire-balance'' ps w =
     (if \<bar>fst w\<bar> \<le> 2 ^ 51
      then Reply 200 (Some (JObj [(''rt_cd'', JStr ''0''),
             (''output1'', JList [JObj [(''ovrs_pdno'', JStr ''A''), (''ovrs_cblc_qty'', JFloat (of_int (fst w)))]])]))
      else Reply 404 None, w)"
  by (simp_all add: demo_broker_def split: prod.split)

lemma demo_broker_post:
  "h_post demo_broker ''/uapi/hashkey'' ps w = (Reply 200 (Some (JObj [(''HASH'', JStr ''x'')])), w)"
  "h_post demo_broker overseas_path ps w =
     (Reply 200 (Some (JObj [(''rt_cd'', JStr ''0''), (''output'', JObj [(''ODNO'', JStr ''7'')])])),
      (fst w, snd w + (case map_of ps ''ORD_QTY'' of Some (JInt q) \<Rightarrow> nat q | _ \<Rightarrow> 0)))"
  "h_post demo_broker cancel_path ps w = (Reply 200 (Some (JObj [(''rt_cd'', JStr ''0'')])), (fst w, 0))"
  "h_post demo_broker domestic_path ps w = (Reply 404 None, w)"
  by (simp_all add: demo_broker_def overseas_path_def cancel_path_def domestic_path_def split: prod.split)

lemma demo_broker_other:
  "h_token demo_broker w = (Inr (), w)"
  "h_sleep demo_broker t w = (if snd w = 0 then w else (fst w + 1, snd w - 1))"
  by (simp_all add: demo_broker_def split: prod.split)

lemmas demo_broker_simps = demo_broker_get demo_broker_post demo_broker_other

lemma demo_post:
  "post_order demo_broker path t body w = post_attempts demo_broker path ([(''tr_id'', JStr t), (''hashkey'', JStr ''x'')] @ body) RETRY_WAITS w"
proof -
  have "hashkey demo_broker body w = (Inr ''x'', w)"
    unfolding hashkey_def
    by (subst hashkey_attempts.simps) (simp add: demo_broker_simps Let_def read_reply_def)
  then show ?thesis by (simp add: post_order_def bind_def demo_broker_simps)
qed

lemma demo_get:
  "h_get demo_broker url ps w = (Reply s b, w') \<Longrightarrow> s < 429 \<Longrightarrow> get_json demo_broker url ps w = (read_reply s b, w')"
  by (simp add: get_json_def HTTP_MAX_RETRIES_def eval_nat_numeral)

lemma demo_sound:
  "sound_broker default_settings demo_broker ''1-01'' US ''A'' BUY (Some ''NASD'') fst (\<lambda>w. int (snd w))"
proof -
  have 1: "quiet fst (\<lambda>w. int (snd w)) w (h_sleep demo_broker t w)" for t and w :: "int \<times> nat"
    by (simp add: quiet_def demo_broker_simps)
  have 2: "price_and_exchange demo_broker ''A'' w = ((Some 100, Some ''NASD''), w)" for w
    by (simp add: price_and_exchange_def bind_def demo_broker_simps demo_get [OF demo_broker_get(1)] read_reply_def
        price_of_def is_zero_def to_float_def fl_lit Let_def)
  have g: "get_json demo_broker ''/uapi/overseas-stock/v1/trading/inquire-balance'' ps w =
      (if \<bar>fst w\<bar> \<le> 2 ^ 51
       then Inr (JObj [(''rt_cd'', JStr ''0''),
             (''output1'', JList [JObj [(''ovrs_pdno'', JStr ''A''), (''ovrs_cblc_qty'', JFloat (of_int (fst w)))]])])
       else Inl (HTTPStatusError 404), w)" for ps w
    using demo_broker_get(2) [of ps w] by (simp add: demo_get read_reply_def split: if_splits)
  have 3: "held_qty default_settings demo_broker ''1-01'' US ''A'' (Some ''NASD'') w =
      (if \<bar>fst w\<bar> \<le> 2 ^ 51 then Inr (of_int (fst w)) else Inl (HTTPStatusError 404), w)" for w
    by (simp add: held_qty_def us_held_qty_def fetch_overseas_balance_def kis_get_def bind_def ret_def demo_broker_simps
        g is_zero_def to_float_def)
  have 4: "snd (place_domestic_order default_settings demo_broker ''1-01'' s sd q pr w) = w" for s sd q pr w
  proof -
    have "snd (post_attempts demo_broker domestic_path ps RETRY_WAITS w) = w" for ps
      by (subst post_attempts.simps) (simp add: demo_broker_simps safe_json_def throttled_def Let_def)
    then show ?thesis by (simp add: place_domestic_order_def demo_post split: sum.split)
  qed
  have 5: "snd (place_overseas_order default_settings demo_broker ''1-01'' s sd q pr x w) = (fst w, snd w + nat q)"
    if "0 < q" for s sd q pr x w
    using that unfolding place_overseas_order_def demo_post
    by (subst post_attempts.simps)
       (simp add: validate_def demo_account demo_broker_simps safe_json_def throttled_def is_zero_def Let_def)
  have 6: "snd (cancel_overseas_order default_settings demo_broker ''1-01'' s odno q x w) = (fst w, 0)" for s odno q x w
    unfolding cancel_overseas_order_def demo_post
    by (subst post_attempts.simps) (simp add: demo_broker_simps safe_json_def throttled_def is_zero_def Let_def)
  have place: "fst w \<le> fst w' \<and> 0 \<le> int (snd w') \<and> fst w' + int (snd w') \<le> fst w + int (snd w) + q"
    if "0 < q" "place_domestic_order default_settings demo_broker ''1-01'' ''A'' BUY q None w = (r, w') \<or>
      place_overseas_order default_settings demo_broker ''1-01'' ''A'' BUY q price x w = (r, w')" for q price x w r w'
    using that 4 [of "''A''" BUY q None w] 5 [OF that(1), of "''A''" BUY price x w] by auto
  have cancel: "quiet fst (\<lambda>w. int (snd w)) w w' \<and> (is_ok r \<longrightarrow> int (snd w') = 0)"
    if "cancel_overseas_order default_settings demo_broker ''1-01'' ''A'' odno q x w = (r, w')" for odno q x w r w'
    using that 6 [of "''A''" odno q x w] by (auto simp: quiet_def)
  show ?thesis
    unfolding sound_broker_def
    using 1 place cancel by (auto simp: 2 3 quiet_def truthful_def split: if_splits)
qed

lemma demo_chase:
  "(case place_and_chase default_settings demo_broker ''1-01'' US ''A'' BUY 3 (Some 100) (Some ''NASD'') 3 5 (10, 0) of
      (Inr res, w') \<Rightarrow> ch_status res = Filled \<and> length (ch_attempts res) = 2 \<and> w' = (13, 0) | _ \<Rightarrow> False)"
  by code_simp

theorem chase_never_overfills_witness:
  "\<exists>res w'. place_and_chase default_settings demo_broker ''1-01'' US ''A'' BUY 3 (Some 100) (Some ''NASD'') 3 5 (10, 0) = (Inr res, w') \<and>
     length (ch_attempts res) = 2 \<and> fst w' = 10 + 3 \<and> snd w' = 0"
proof -
  obtain res w' where r: "place_and_chase default_settings demo_broker ''1-01'' US ''A'' BUY 3 (Some 100) (Some ''NASD'') 3 5 (10, 0) = (Inr res, w')"
      "ch_status res = Filled" "length (ch_attempts res) = 2"
    using demo_chase by (auto split: prod.splits sum.splits)
  from chase_never_overfills [OF demo_sound _ _ _ r(1)] r show ?thesis by auto
qed

end
