(* ===== verification/StockTrade.thy ===== *)
theory StockTrade
  imports KisChase
begin

text \<open>
  The weekly stock jobs: the shared \<open>trading/strategy/runners/stock_trade_common.py\<close> (guard, plan,
  confirmation of fills), the Korean \<open>stock_trade_once.py\<close> and the American \<open>us_trade_once.py\<close>.

  The world is the one of \<open>Kis\<close> with the clock \<open>se_clock\<close>; the ranking of the learned model, the
  refresh of the candles and the latest closes, the broker's account number, the iteration order of a
  set and the offset of New York are fields of \<open>stock_env\<close>.  Texts of notifications are not modelled.
\<close>

record 'w stock_env =
  se_account :: string
  se_clock :: "'w \<Rightarrow> int"
  se_et :: "int \<Rightarrow> int"
  se_order :: "string list \<Rightarrow> string list"
  se_score :: "string \<Rightarrow> nat \<Rightarrow> ('w, int option \<times> string list) io"
  se_refresh :: "string list \<Rightarrow> ('w, unit) io"
  se_query_closes :: "string \<Rightarrow> string list \<Rightarrow> ('w, (string \<times> rat) list) io"
  se_sent :: bool

section \<open>Guard and plan\<close>

datatype skip_reason = AlreadyDone | MarketHoliday | MarketClosed | CloseNear

definition weekly_guard :: "(int \<Rightarrow> int) \<Rightarrow> string \<Rightarrow> weeks \<Rightarrow> int \<Rightarrow> skip_reason option res" where
  "weekly_guard et market tab now =
     rbind (market_today et market now) (\<lambda>today.
       Inr (if week_done tab market today then Some AlreadyDone
            else if is_market_holiday market today then Some MarketHoliday else None))"

record stock_plan =
  sp_bar :: int
  sp_bal :: balance
  sp_targets :: "string list"
  sp_buys :: "string list"
  sp_sells :: "string list"

definition STOCK_STALE_DAYS :: int where "STOCK_STALE_DAYS = 7"

definition stock_plan_of :: "(string list \<Rightarrow> string list) \<Rightarrow> int \<Rightarrow> string list \<Rightarrow> balance \<Rightarrow> stock_plan" where
  "stock_plan_of ord bar targets bal =
     (let held = ord (remdups (map h_symbol (bal_positions bal)))
      in \<lparr>sp_bar = bar, sp_bal = bal, sp_targets = targets,
          sp_buys = filter (\<lambda>s. s \<notin> set held) targets, sp_sells = filter (\<lambda>s. s \<notin> set targets) held\<rparr>)"

definition build_plan :: "'w stock_env \<Rightarrow> string \<Rightarrow> ('w, balance) io \<Rightarrow> nat \<Rightarrow> ('w, stock_plan) io" where
  "build_plan env market balance_fn top_n =
     bind (se_score env market top_n) (\<lambda>(latest, ranked) w.
       case rbind (market_today (se_et env) market (se_clock env w)) (\<lambda>today.
              case latest of
                None \<Rightarrow> Inl (RuntimeError ''stale'')
              | Some d \<Rightarrow> if STOCK_STALE_DAYS < today - d then Inl (RuntimeError ''stale'') else Inr d) of
         Inl e \<Rightarrow> (Inl e, w)
       | Inr d \<Rightarrow> bind balance_fn (\<lambda>bal. ret (stock_plan_of (se_order env) d ranked bal)) w)"

section \<open>Orders and the confirmation of fills\<close>

record placed_order =
  po_symbol :: string
  po_side :: side
  po_qty :: int
  po_accepted :: bool
  po_filled_qty :: int
  po_filled :: bool

definition placed_entry :: "string \<Rightarrow> side \<Rightarrow> int \<Rightarrow> bool \<Rightarrow> placed_order" where
  "placed_entry s sd q acc =
     \<lparr>po_symbol = s, po_side = sd, po_qty = q, po_accepted = acc, po_filled_qty = 0, po_filled = False\<rparr>"

text \<open>\<open>{x["symbol"]: x["qty"] for x in positions}\<close>.\<close>

definition quantities :: "balance \<Rightarrow> (string \<times> rat) list" where
  "quantities b = foldl (\<lambda>d p. AList.update (h_symbol p) (h_qty p) d) [] (bal_positions b)"

definition order_sides :: "placed_order list \<Rightarrow> (string \<times> side) list" where
  "order_sides placed = foldl (\<lambda>d o1. AList.update (po_symbol o1) (po_side o1) d) [] placed"

definition fills_seen :: "(string \<times> rat) list \<Rightarrow> (string \<times> rat) list \<Rightarrow> (string \<times> side) list \<Rightarrow> (string \<times> int) list" where
  "fills_seen before after sides =
     concat (map (\<lambda>(s, sd).
       let d = fsub (get_or after s 0) (get_or before s 0)
       in if (if sd = BUY then 0 < d else d < 0) then [(s, rhe \<bar>d\<bar>)] else []) sides)"

text \<open>The polling loop; it may not end if the clock stands still.\<close>

partial_function (option) confirm_loop ::
  "'w http \<Rightarrow> ('w \<Rightarrow> int) \<Rightarrow> ('w, balance) io \<Rightarrow> (string \<times> rat) list \<Rightarrow> (string \<times> side) list \<Rightarrow> nat \<Rightarrow> int \<Rightarrow> rat \<Rightarrow>
   (string \<times> int) list \<Rightarrow> 'w \<Rightarrow> ((string \<times> int) list \<times> 'w) option" where
  "confirm_loop h now_of balance_fn before sides accepted deadline poll filled w =
     (if now_of w < deadline then
        (case balance_fn (h_sleep h poll w) of
           (Inl e, w') \<Rightarrow> confirm_loop h now_of balance_fn before sides accepted deadline poll filled w'
         | (Inr b, w') \<Rightarrow>
             let filled' = fills_seen before (quantities b) sides
             in if accepted \<le> length filled' then Some (filled', w')
                else confirm_loop h now_of balance_fn before sides accepted deadline poll filled' w')
      else Some (filled, w))"

declare confirm_loop.simps [code]

definition mark_fills :: "(string \<times> int) list \<Rightarrow> placed_order list \<Rightarrow> placed_order list" where
  "mark_fills filled = map (\<lambda>p. p\<lparr>po_filled_qty := get_or filled (po_symbol p) 0,
                                 po_filled := map_of filled (po_symbol p) \<noteq> None\<rparr>)"

definition confirm_fills ::
  "'w http \<Rightarrow> ('w \<Rightarrow> int) \<Rightarrow> ('w, balance) io \<Rightarrow> (string \<times> rat) list \<Rightarrow> placed_order list \<Rightarrow> int \<Rightarrow> rat \<Rightarrow> 'w
   \<Rightarrow> (placed_order list \<times> 'w) option" where
  "confirm_fills h now_of balance_fn before placed deadline poll w =
     (case confirm_loop h now_of balance_fn before (order_sides placed) (length (filter po_accepted placed)) deadline poll [] w of
        None \<Rightarrow> None | Some (filled, w') \<Rightarrow> Some (mark_fills filled placed, w'))"

section \<open>The Korean job\<close>

text \<open>\<open>_fill_deadline\<close>: 15:35 of the day in Seoul, but at least a minute from now.\<close>

definition fill_deadline :: "int \<Rightarrow> int" where
  "fill_deadline now =
     max ((local_date KST now - EPOCH) * DAY + (15 * 3600 + 35 * 60) * SECOND - KST) (now + 60 * SECOND)"

text \<open>The orders of a plan: all sales first, then the purchases with the quantity the budget allows.\<close>

definition per_name :: "balance \<Rightarrow> nat \<Rightarrow> rat" where
  "per_name bal top_n = fquo (fadd (bal_cash bal) (fsum (map h_eval (bal_positions bal)))) (of_nat (max 1 top_n))"

definition kr_requests :: "stock_plan \<Rightarrow> (string \<times> rat) list \<Rightarrow> nat \<Rightarrow> nat \<Rightarrow> (string \<times> side \<times> int) list" where
  "kr_requests p closes top_n max_orders =
     map (\<lambda>s. (s, SELL, rhe (get_or (quantities (sp_bal p)) s 0))) (sp_sells p) @
     map (\<lambda>s. (s, BUY, let px = get_or closes s 0
                        in if 0 < px then \<lfloor>per_name (sp_bal p) top_n / px\<rfloor> else 0)) (take max_orders (sp_buys p))"

definition kr_place :: "settings \<Rightarrow> 'w http \<Rightarrow> string \<Rightarrow> string \<times> side \<times> int \<Rightarrow> 'w \<Rightarrow> placed_order \<times> 'w" where
  "kr_place c h account_no req w =
     (case req of (s, sd, q) \<Rightarrow>
        if sd = BUY \<and> q < 1 then (placed_entry s sd 0 False, w)
        else (case place_domestic_order c h account_no s sd q None w of
                (Inl e, w') \<Rightarrow> (placed_entry s sd q False, w')
              | (Inr r, w') \<Rightarrow> (placed_entry s sd q (is_zero (jget r ''rt_cd'')), w')))"

fun kr_place_all :: "settings \<Rightarrow> 'w http \<Rightarrow> string \<Rightarrow> (string \<times> side \<times> int) list \<Rightarrow> 'w \<Rightarrow> placed_order list \<times> 'w" where
  "kr_place_all c h account_no [] w = ([], w)"
| "kr_place_all c h account_no (r # rs) w =
     (let (p, w1) = kr_place c h account_no r w; (ps, w2) = kr_place_all c h account_no rs w1 in (p # ps, w2))"

datatype stock_result = StockSkipped skip_reason | StockDone stock_plan "placed_order list"

type_synonym 'w stock_run = "stock_result res \<times> weeks \<times> 'w"

definition market_plan :: "stock_plan \<Rightarrow> plan" where
  "market_plan p = \<lparr>pl_targets = sp_targets p, pl_buys = sp_buys p, pl_sells = sp_sells p\<rparr>"

definition stock_closes :: "'w stock_env \<Rightarrow> string \<Rightarrow> string list \<Rightarrow> ('w, (string \<times> rat) list) io" where
  "stock_closes env market symbols = (if symbols = [] then ret [] else se_query_closes env market symbols)"

text \<open>What a run does before its orders: refresh, plan, day and latest closes.\<close>

definition prepare ::
  "'w stock_env \<Rightarrow> string \<Rightarrow> string list \<Rightarrow> ('w, balance) io \<Rightarrow> nat \<Rightarrow> nat \<Rightarrow> ('w, stock_plan \<times> int \<times> (string \<times> rat) list) io" where
  "prepare env market refreshed balance_fn top_n max_orders =
     bind (se_refresh env refreshed) (\<lambda>_.
     bind (build_plan env market balance_fn top_n) (\<lambda>p w.
       case market_today (se_et env) market (se_clock env w) of
         Inl e \<Rightarrow> (Inl e, w)
       | Inr today \<Rightarrow> bind (stock_closes env market (take max_orders (sp_buys p))) (\<lambda>closes. ret (p, today, closes)) w))"

definition finish_week :: "string \<Rightarrow> int \<Rightarrow> stock_plan \<Rightarrow> placed_order list \<Rightarrow> bool \<Rightarrow> weeks \<Rightarrow> weeks" where
  "finish_week market today p placed rebalance_sells tab =
     (if completed (market_plan p) (map po_filled placed) rebalance_sells then mark_week_done tab market today else tab)"

definition kr_execute ::
  "settings \<Rightarrow> 'w http \<Rightarrow> 'w stock_env \<Rightarrow> nat \<Rightarrow> nat \<Rightarrow> bool \<Rightarrow> weeks \<Rightarrow> 'w \<Rightarrow> 'w stock_run option" where
  "kr_execute c h env top_n max_orders live tab w =
     (let balance_fn = kr_balance c h (se_account env)
      in if \<not> live then
           (case build_plan env ''KR'' balance_fn top_n w of
              (Inl e, w') \<Rightarrow> Some (Inl e, tab, w') | (Inr p, w') \<Rightarrow> Some (Inr (StockDone p []), tab, w'))
         else case weekly_guard (se_et env) ''KR'' tab (se_clock env w) of
                Inl e \<Rightarrow> Some (Inl e, tab, w)
              | Inr (Some why) \<Rightarrow> Some (Inr (StockSkipped why), tab, w)
              | Inr None \<Rightarrow>
                  (case prepare env ''KR'' [''KR'', ''US''] balance_fn top_n max_orders w of
                     (Inl e, w') \<Rightarrow> Some (Inl e, tab, w')
                   | (Inr (p, today, closes), w1) \<Rightarrow>
                       let (placed, w2) = kr_place_all c h (se_account env) (kr_requests p closes top_n max_orders) w1
                       in (case confirm_fills h (se_clock env) balance_fn (quantities (sp_bal p)) placed
                                   (fill_deadline (se_clock env w2)) 5 w2 of
                             None \<Rightarrow> None
                           | Some (placed', w3) \<Rightarrow>
                               Some (Inr (StockDone p placed'), finish_week ''KR'' today p placed' True tab, w3))))"

section \<open>The American job\<close>

definition BUFFER :: rat where "BUFFER = fl (102 / 100)"
definition MIN_SECONDS_TO_CLOSE :: rat where "MIN_SECONDS_TO_CLOSE = 300"

definition us_unplaced :: "string \<Rightarrow> placed_order" where
  "us_unplaced s = placed_entry s BUY 0 False"

definition us_buy ::
  "settings \<Rightarrow> 'w http \<Rightarrow> string \<Rightarrow> (string \<times> rat) list \<Rightarrow> rat \<Rightarrow> string \<Rightarrow> ('w, placed_order) io" where
  "us_buy c h account_no closes per s w =
     (let ((px, exch), w1) = price_and_exchange h s w;
          ref_price = (case px of Some x \<Rightarrow> if x = 0 then get_or closes s 0 else x | None \<Rightarrow> get_or closes s 0)
      in if ref_price = 0 then (Inr (us_unplaced s), w1)
         else case bar_key per (round2 (fmul ref_price BUFFER)) of
                Inl e \<Rightarrow> (Inl e, w1)
              | Inr q \<Rightarrow>
                  if q < 1 then (Inr (us_unplaced s), w1)
                  else (case place_and_chase c h account_no US s BUY q (Some ref_price)
                               (Some (case exch of None \<Rightarrow> ''NASD'' | Some x \<Rightarrow> x)) 3 (KIS_CONFIRM_WINDOW_SEC c) w1 of
                          (Inl e, w2) \<Rightarrow> (Inl e, w2)
                        | (Inr r, w2) \<Rightarrow>
                            (Inr ((placed_entry s BUY q (ch_status r \<noteq> Refused))
                                  \<lparr>po_filled_qty := ch_filled r, po_filled := 0 < ch_filled r\<rparr>), w2)))"

fun us_buy_all ::
  "settings \<Rightarrow> 'w http \<Rightarrow> string \<Rightarrow> (string \<times> rat) list \<Rightarrow> rat \<Rightarrow> string list \<Rightarrow> ('w, placed_order list) io" where
  "us_buy_all c h account_no closes per [] w = (Inr [], w)"
| "us_buy_all c h account_no closes per (s # ss) w =
     bind (us_buy c h account_no closes per s) (\<lambda>p. bind (us_buy_all c h account_no closes per ss) (\<lambda>ps. ret (p # ps))) w"

text \<open>The guards of the session, after the weekly one.\<close>

definition us_guard :: "(int \<Rightarrow> int) \<Rightarrow> weeks \<Rightarrow> int \<Rightarrow> skip_reason option res" where
  "us_guard et tab now =
     rbind (weekly_guard et ''US'' tab now) (\<lambda>g.
       if g \<noteq> None then Inr g
       else rbind (market_open et ''US'' now) (\<lambda>is_open.
              if \<not> is_open then Inr (Some MarketClosed)
              else rbind (market_seconds_to_close et ''US'' now) (\<lambda>ttc.
                     Inr (case ttc of None \<Rightarrow> None
                          | Some t \<Rightarrow> if t < MIN_SECONDS_TO_CLOSE then Some CloseNear else None))))"

definition us_execute ::
  "settings \<Rightarrow> 'w http \<Rightarrow> 'w stock_env \<Rightarrow> nat \<Rightarrow> nat \<Rightarrow> bool \<Rightarrow> weeks \<Rightarrow> 'w \<Rightarrow> 'w stock_run" where
  "us_execute c h env top_n max_orders live tab w =
     (let balance_fn = us_balance c h (se_account env)
      in if \<not> live then
           (case build_plan env ''US'' balance_fn top_n w of
              (Inl e, w') \<Rightarrow> (Inl e, tab, w') | (Inr p, w') \<Rightarrow> (Inr (StockDone p []), tab, w'))
         else case us_guard (se_et env) tab (se_clock env w) of
                Inl e \<Rightarrow> (Inl e, tab, w)
              | Inr (Some why) \<Rightarrow> (Inr (StockSkipped why), tab, w)
              | Inr None \<Rightarrow>
                  (case prepare env ''US'' [''US''] balance_fn top_n max_orders w of
                     (Inl e, w') \<Rightarrow> (Inl e, tab, w')
                   | (Inr (p, today, closes), w1) \<Rightarrow>
                       (case us_buy_all c h (se_account env) closes (per_name (sp_bal p) top_n) (take max_orders (sp_buys p)) w1 of
                          (Inl e, w2) \<Rightarrow> (Inl e, tab, w2)
                        | (Inr placed, w2) \<Rightarrow>
                            (Inr (StockDone p placed), finish_week ''US'' today p placed False tab, w2))))"

text \<open>\<open>main\<close>: the snapshot of a live run that returned and the exit code.\<close>

definition stock_exit ::
  "'w stock_env \<Rightarrow> string \<Rightarrow> ('w, balance) io \<Rightarrow> bool \<Rightarrow> snapshots \<Rightarrow> 'w stock_run \<Rightarrow> int \<times> weeks \<times> snapshots \<times> 'w" where
  "stock_exit env market balance_fn live snaps run =
     (case run of
        (Inl e, tab, w) \<Rightarrow> (if se_sent env then 70 else 1, tab, snaps, w)
      | (Inr r, tab, w) \<Rightarrow>
          if live then
            let (bal, w') = balance_fn w
            in (0, tab, fst (record_stock_snapshot snaps (local_date 0 (se_clock env w')) market bal), w')
          else (0, tab, snaps, w))"

definition kr_main ::
  "settings \<Rightarrow> 'w http \<Rightarrow> 'w stock_env \<Rightarrow> nat \<Rightarrow> nat \<Rightarrow> bool \<Rightarrow> snapshots \<Rightarrow> weeks \<Rightarrow> 'w \<Rightarrow> (int \<times> weeks \<times> snapshots \<times> 'w) option" where
  "kr_main c h env top_n max_orders live snaps tab w =
     map_option (stock_exit env ''KR'' (kr_balance c h (se_account env)) live snaps) (kr_execute c h env top_n max_orders live tab w)"

definition us_main ::
  "settings \<Rightarrow> 'w http \<Rightarrow> 'w stock_env \<Rightarrow> nat \<Rightarrow> nat \<Rightarrow> bool \<Rightarrow> snapshots \<Rightarrow> weeks \<Rightarrow> 'w \<Rightarrow> int \<times> weeks \<times> snapshots \<times> 'w" where
  "us_main c h env top_n max_orders live snaps tab w =
     stock_exit env ''US'' (us_balance c h (se_account env)) live snaps (us_execute c h env top_n max_orders live tab w)"

section \<open>The confirmation of fills returns\<close>

lemma confirm_loop_returns:
  assumes adv: "\<And>w. now_of w < now_of (h_sleep h poll w)"
    and query: "\<And>w. now_of w \<le> now_of (snd (balance_fn w))"
  shows "\<exists>filled' w'. confirm_loop h now_of balance_fn before sides accepted deadline poll filled w = Some (filled', w') \<and>
    (accepted \<le> length filled' \<or> deadline \<le> now_of w')"
proof (induction "nat (deadline - now_of w)" arbitrary: filled w rule: less_induct)
  case less
  show ?case
  proof (cases "now_of w < deadline")
    case False
    then show ?thesis by (simp add: confirm_loop.simps)
  next
    case True
    obtain r w1 where b: "balance_fn (h_sleep h poll w) = (r, w1)" by (metis surj_pair)
    have "nat (deadline - now_of w1) < nat (deadline - now_of w)"
      using adv [of w] query [of "h_sleep h poll w"] b True by simp
    note ih = less.hyps [OF this]
    show ?thesis
    proof (cases r)
      case (Inl e)
      then show ?thesis using ih [of filled] b True by (subst confirm_loop.simps) simp
    next
      case (Inr bal)
      then show ?thesis using ih [of "fills_seen before (quantities bal) sides"] b True
        by (subst confirm_loop.simps) (auto simp: Let_def)
    qed
  qed
qed

section \<open>The orders of the Korean job\<close>

lemma kr_place_entry:
  assumes "kr_place c h account_no (s, sd, q) w = (p, w')"
  shows "po_symbol p = s" "po_side p = sd" "po_qty p = (if sd = BUY \<and> q < 1 then 0 else q)"
  using assms by (auto simp: kr_place_def placed_entry_def split: if_splits prod.splits sum.splits)

lemma kr_place_all_entries:
  "kr_place_all c h account_no reqs w = (placed, w') \<Longrightarrow>
    map (\<lambda>p. (po_symbol p, po_side p, po_qty p)) placed =
    map (\<lambda>(s, sd, q). (s, sd, if sd = BUY \<and> q < 1 then 0 else q)) reqs"
proof (induction reqs arbitrary: w placed w')
  case (Cons r reqs)
  obtain s sd q where r: "r = (s, sd, q)" by (metis surj_pair)
  obtain p w1 where p: "kr_place c h account_no r w = (p, w1)" by (metis surj_pair)
  obtain ps w2 where ps: "kr_place_all c h account_no reqs w1 = (ps, w2)" by (metis surj_pair)
  show ?case
    using Cons.IH [OF ps] Cons.prems p ps kr_place_entry [OF p [unfolded r]] by (auto simp: r)
qed simp

lemma mark_fills_entries:
  "map (\<lambda>p. (po_symbol p, po_side p, po_qty p)) (mark_fills filled placed) =
    map (\<lambda>p. (po_symbol p, po_side p, po_qty p)) placed"
  by (simp add: mark_fills_def)

lemma bind_Inr:
  assumes "bind m k w = (Inr y, w')"
  obtains x w1 where "m w = (Inr x, w1)" "k x w1 = (Inr y, w')"
  using assms by (auto simp: bind_def split: prod.splits sum.splits)

lemma build_plan_result:
  assumes "build_plan env market balance_fn top_n w = (Inr p, w')"
  obtains bar targets bal where "p = stock_plan_of (se_order env) bar targets bal"
proof -
  obtain lr w1 where k: "(\<lambda>(latest, ranked) w.
       case rbind (market_today (se_et env) market (se_clock env w)) (\<lambda>today.
              case latest of
                None \<Rightarrow> Inl (RuntimeError ''stale'')
              | Some d \<Rightarrow> if STOCK_STALE_DAYS < today - d then Inl (RuntimeError ''stale'') else Inr d) of
         Inl e \<Rightarrow> (Inl e, w)
       | Inr d \<Rightarrow> bind balance_fn (\<lambda>bal. ret (stock_plan_of (se_order env) d ranked bal)) w) lr w1 = (Inr p, w')"
    using assms unfolding build_plan_def by (rule bind_Inr)
  obtain latest ranked where lr: "lr = (latest, ranked)" by (cases lr)
  obtain d where "bind balance_fn (\<lambda>bal. ret (stock_plan_of (se_order env) d ranked bal)) w1 = (Inr p, w')"
  proof (cases "rbind (market_today (se_et env) market (se_clock env w1)) (\<lambda>today.
              case latest of
                None \<Rightarrow> Inl (RuntimeError ''stale'')
              | Some d \<Rightarrow> if STOCK_STALE_DAYS < today - d then Inl (RuntimeError ''stale'') else Inr d)")
    case (Inr d)
    show thesis using k unfolding lr prod.case Inr sum.case by (rule that)
  next
    case (Inl e)
    show thesis using k unfolding lr prod.case Inl sum.case by simp
  qed
  then show thesis by (rule bind_Inr) (use that in \<open>auto simp: ret_def\<close>)
qed

text \<open>The sales and the purchases a live run reports.\<close>

lemma kr_execute_orders:
  assumes "kr_execute c h env top_n max_orders True tab w = Some (Inr (StockDone p placed), tab', w')"
  obtains bar targets bal closes where "p = stock_plan_of (se_order env) bar targets bal"
    "map (\<lambda>p. (po_symbol p, po_side p, po_qty p)) placed =
     map (\<lambda>(s, sd, q). (s, sd, if sd = BUY \<and> q < 1 then 0 else q)) (kr_requests p closes top_n max_orders)"
proof -
  let ?bal = "kr_balance c h (se_account env)"
  obtain r w1 where pr: "prepare env ''KR'' [''KR'', ''US''] ?bal top_n max_orders w = (r, w1)" by (metis surj_pair)
  have g: "weekly_guard (se_et env) ''KR'' tab (se_clock env w) = Inr None"
    using assms by (auto simp: kr_execute_def Let_def split: sum.splits option.splits)
  obtain q today closes where r: "r = Inr (q, today, closes)"
    using assms pr g by (cases r) (auto simp: kr_execute_def)
  obtain placed0 w2 where pl: "kr_place_all c h (se_account env) (kr_requests q closes top_n max_orders) w1 = (placed0, w2)"
    by (metis surj_pair)
  obtain placed1 w3 where cf: "confirm_fills h (se_clock env) ?bal (quantities (sp_bal q)) placed0 (fill_deadline (se_clock env w2)) 5 w2
      = Some (placed1, w3)"
    using assms pr g r pl by (auto simp: kr_execute_def split: option.splits)
  have eq: "q = p" "placed1 = placed" using assms pr g r pl cf by (auto simp: kr_execute_def)
  obtain filled where m: "placed = mark_fills filled placed0"
    using cf eq(2) by (auto simp: confirm_fills_def split: option.splits)
  obtain w4 w5 where bp: "build_plan env ''KR'' ?bal top_n w4 = (Inr p, w5)"
    using pr unfolding r eq(1) prepare_def by (elim bind_Inr) (auto simp: ret_def split: sum.splits elim!: bind_Inr)
  obtain bar targets bal where p: "p = stock_plan_of (se_order env) bar targets bal"
    by (rule build_plan_result [OF bp])
  show thesis
    by (rule that [OF p, of closes]) (simp only: m mark_fills_entries kr_place_all_entries [OF pl] eq(1))
qed

section \<open>Properties\<close>

text \<open>The orders of a live Korean run are the plan's and stay in the budget: first every held stock that
  is no longer a target is sold with its whole quantity, then at most \<open>max_orders\<close> targets not
  held are bought, each for at most the equal share of the assets at its latest close.\<close>

lemma kr_orders_bounded:
  assumes run: "kr_execute c h env top_n max_orders True tab w = Some (Inr (StockDone p placed), tab', w')"
    and ord: "\<And>xs. set (se_order env xs) = set xs"
  shows "\<exists>ss bs closes. placed = ss @ bs \<and>
    map po_symbol ss = sp_sells p \<and> map po_symbol bs = take max_orders (sp_buys p) \<and>
    list_all (\<lambda>s. s \<notin> set (sp_targets p) \<and> s \<in> set (map h_symbol (bal_positions (sp_bal p)))) (sp_sells p) \<and>
    list_all (\<lambda>s. s \<in> set (sp_targets p) \<and> s \<notin> set (map h_symbol (bal_positions (sp_bal p)))) (sp_buys p) \<and>
    list_all (\<lambda>q. po_side q = SELL \<and> po_qty q = rhe (get_or (quantities (sp_bal p)) (po_symbol q) 0)) ss \<and>
    list_all (\<lambda>q. po_side q = BUY \<and>
      (po_qty q = 0 \<or> of_int (po_qty q) * get_or closes (po_symbol q) 0 \<le> per_name (sp_bal p) top_n)) bs"
proof -
  obtain bar targets bal closes where p: "p = stock_plan_of (se_order env) bar targets bal"
    and m: "map (\<lambda>p. (po_symbol p, po_side p, po_qty p)) placed =
     map (\<lambda>(s, sd, q). (s, sd, if sd = BUY \<and> q < 1 then 0 else q)) (kr_requests p closes top_n max_orders)"
    by (rule kr_execute_orders [OF run])
  let ?e = "\<lambda>p. (po_symbol p, po_side p, po_qty p)"
  let ?budget = "\<lambda>s. let px = get_or closes s 0 in if 0 < px then \<lfloor>per_name (sp_bal p) top_n / px\<rfloor> else 0"
  obtain ss bs where pb: "placed = ss @ bs"
    and s: "map ?e ss = map (\<lambda>s. (s, SELL, rhe (get_or (quantities (sp_bal p)) s 0))) (sp_sells p)"
    and b: "map ?e bs = map (\<lambda>s. (s, BUY, if ?budget s < 1 then 0 else ?budget s)) (take max_orders (sp_buys p))"
    using m by (auto simp: kr_requests_def map_eq_append_conv comp_def)
  have sy: "map po_symbol ss = sp_sells p" "map po_symbol bs = take max_orders (sp_buys p)"
    using arg_cong [OF s, of "map fst"] arg_cong [OF b, of "map fst"] by (simp_all add: comp_def)
  have sell: "po_side q = SELL \<and> po_qty q = rhe (get_or (quantities (sp_bal p)) (po_symbol q) 0)" if "q \<in> set ss" for q
  proof -
    have "?e q \<in> set (map ?e ss)" using that by simp
    then show ?thesis unfolding s by auto
  qed
  have buy: "po_side q = BUY \<and>
      (po_qty q = 0 \<or> of_int (po_qty q) * get_or closes (po_symbol q) 0 \<le> per_name (sp_bal p) top_n)" if "q \<in> set bs" for q
  proof -
    have "?e q \<in> set (map ?e bs)" using that by simp
    then have q: "po_side q = BUY" "po_qty q = (if ?budget (po_symbol q) < 1 then 0 else ?budget (po_symbol q))"
      unfolding b by auto
    have "of_int \<lfloor>per_name (sp_bal p) top_n / px\<rfloor> * px \<le> per_name (sp_bal p) top_n" if "0 < px" for px
      using mult_right_mono [OF of_int_floor_le, of px "per_name (sp_bal p) top_n / px"] that by simp
    then show ?thesis using q by (auto simp: Let_def)
  qed
  have "list_all (\<lambda>s. s \<notin> set (sp_targets p) \<and> s \<in> set (map h_symbol (bal_positions (sp_bal p)))) (sp_sells p)"
    "list_all (\<lambda>s. s \<in> set (sp_targets p) \<and> s \<notin> set (map h_symbol (bal_positions (sp_bal p)))) (sp_buys p)"
    by (auto simp: p stock_plan_of_def Let_def ord list_all_iff)
  then show ?thesis using pb sy sell buy by (intro exI [of _ ss] exI [of _ bs] exI [of _ closes]) (simp add: list_all_iff)
qed

text \<open>A market in which a pause lasts an hour: one share A held, B is the target.\<close>

definition demo_market :: "int http" where
  "demo_market = \<lparr>h_get = (\<lambda>url ps w.
       (Reply 200 (Some (JObj [(''rt_cd'', JStr ''0''),
          (''output1'', JList [JObj [(''pdno'', JStr ''A''), (''hldg_qty'', JFloat 1), (''evlu_amt'', JFloat 300)]]),
          (''output2'', JList [JObj [(''prvs_rcdl_excc_amt'', JFloat 1000)]])])), w)),
     h_post = (\<lambda>url ps w. (Reply 200 (Some (JObj [(''HASH'', JStr ''x''), (''rt_cd'', JStr ''0'')])), w)),
     h_token = (\<lambda>w. (Inr (), w)), h_sleep = (\<lambda>t w. w + 3600 * SECOND)\<rparr>"

definition demo_env :: "int stock_env" where
  "demo_env = \<lparr>se_account = ''1-01'', se_clock = (\<lambda>w. w), se_et = (\<lambda>w. 0), se_order = (\<lambda>xs. xs),
     se_score = (\<lambda>m n w. (Inr (Some 719165, [''B'']), w)), se_refresh = (\<lambda>ms w. (Inr (), w)),
     se_query_closes = (\<lambda>m ss w. (Inr [(''B'', 100)], w)), se_sent = True\<rparr>"

lemma demo_kr_run:
  "(case kr_execute default_settings demo_market demo_env 1 5 True [] (7 * 3600 * SECOND) of
      Some (Inr (StockDone p placed), tab, w') \<Rightarrow>
        map (\<lambda>q. (po_symbol q, po_side q, po_qty q)) placed = [(''A'', SELL, 1), (''B'', BUY, 13)]
    | _ \<Rightarrow> False)"
  by code_simp

text \<open>The confirmation of fills ends: when every pause moves the clock on and no balance query moves it
  back, \<open>confirm_fills\<close> returns, with every order in its place and quantity, and it stops either because
  as many symbols show a fill as orders were accepted or because the deadline has passed.\<close>

lemma confirm_fills_returns:
  assumes "\<And>w. now_of w < now_of (h_sleep h poll w)"
    and "\<And>w. now_of w \<le> now_of (snd (balance_fn w))"
  shows "\<exists>placed' w'. confirm_fills h now_of balance_fn before placed deadline poll w = Some (placed', w') \<and>
    map (\<lambda>p. (po_symbol p, po_side p, po_qty p)) placed' = map (\<lambda>p. (po_symbol p, po_side p, po_qty p)) placed \<and>
    (deadline \<le> now_of w' \<or>
     (\<exists>filled. placed' = mark_fills filled placed \<and> length (filter po_accepted placed) \<le> length filled))"
proof -
  obtain filled w' where
    "confirm_loop h now_of balance_fn before (order_sides placed) (length (filter po_accepted placed)) deadline poll [] w = Some (filled, w')"
    and "length (filter po_accepted placed) \<le> length filled \<or> deadline \<le> now_of w'"
    using confirm_loop_returns [where now_of = now_of and h = h and poll = poll and balance_fn = balance_fn, OF assms] by blast
  then show ?thesis by (auto simp: confirm_fills_def mark_fills_entries)
qed

end
