(* ===== verification/StockOrders.thy ===== *)
theory StockOrders
  imports StockTrade
begin

text \<open>
  Manual stock orders: the routes \<open>api/routes/stock_orders.py\<close>, which accept, list and cancel orders, and the
  background executor \<open>api/stock_order_executor.py\<close>, which claims the orders that are due and chases them
  (\<open>place_and_chase\<close> of the theory \<open>KisChase\<close>).

  The table \<open>manual_stock_orders\<close> is the list of its rows in the order of their ids.  Every SQL statement of the
  source is one step on the table.  The messages to the user are not modelled.
\<close>

section \<open>The table\<close>

datatype order_status = Pending | Placed | Executed | Failed | Canceled

text \<open>The column \<open>detail\<close>: an error, the mark of an orphan, or the resolved quantity and the result of the chase.\<close>

datatype order_detail = NoDetail | Error exc | Orphan order_detail | Chased int "rat option" chase_result bool

record manual_order =
  mo_id :: nat
  mo_account :: string
  mo_market :: market
  mo_symbol :: string
  mo_side :: side
  mo_qty :: "int option"
  mo_amount :: "rat option"
  mo_scheduled :: int
  mo_status :: order_status
  mo_detail :: order_detail
  mo_updated :: int

record order_table =
  ot_next :: nat
  ot_rows :: "manual_order list"

section \<open>The routes\<close>

record order_request =
  rq_market :: market
  rq_symbol :: string
  rq_side :: side
  rq_qty :: "int option"
  rq_amount :: "rat option"
  rq_scheduled :: "(int \<times> bool) option"

text \<open>The model \<open>ManualOrder\<close>; a time without a zone (\<open>True\<close>) is one of Korea.\<close>

definition valid_request :: "order_request \<Rightarrow> bool" where
  "valid_request r \<longleftrightarrow>
     1 \<le> length (rq_symbol r) \<and> length (rq_symbol r) \<le> 20 \<and>
     (case rq_qty r of None \<Rightarrow> True | Some q \<Rightarrow> 0 < q) \<and> (case rq_amount r of None \<Rightarrow> True | Some a \<Rightarrow> 0 < a) \<and>
     (rq_qty r = None) \<noteq> (rq_amount r = None)"

definition upper_char :: "char \<Rightarrow> char" where
  "upper_char ch = (let n = of_char ch :: nat in if 97 \<le> n \<and> n \<le> 122 then char_of (n - 32) else ch)"

definition request_symbol :: "order_request \<Rightarrow> string" where
  "request_symbol r = (let s = strip (rq_symbol r) in if rq_market r = US then map upper_char s else s)"

definition request_time :: "order_request \<Rightarrow> int \<Rightarrow> int" where
  "request_time r now = (case rq_scheduled r of None \<Rightarrow> now | Some (t, naive) \<Rightarrow> if naive then t - KST else t)"

text \<open>The columns \<open>INTEGER\<close> and \<open>NUMERIC(20, 4)\<close> with their checks.\<close>

definition qty_column :: "int option \<Rightarrow> int option res" where
  "qty_column q = (case q of None \<Rightarrow> Inr None | Some n \<Rightarrow> if n < 2 ^ 31 then Inr (Some n) else Inl NumericOverflow)"

definition amount_column :: "rat option \<Rightarrow> rat option res" where
  "amount_column a =
     (case a of
        None \<Rightarrow> Inr None
      | Some x \<Rightarrow> rbind (numeric 20 4 x) (\<lambda>y. if 0 < y then Inr (Some y) else Inl (CheckViolation ''amount'')))"

definition create_order :: "string list \<Rightarrow> string \<Rightarrow> order_request \<Rightarrow> int \<Rightarrow> order_table \<Rightarrow> (order_table \<times> nat) res" where
  "create_order known account r now t =
     (if \<not> valid_request r then Inl (ValueError ''422'')
      else rbind (qty_column (rq_qty r)) (\<lambda>q.
           rbind (amount_column (rq_amount r)) (\<lambda>a.
             if account \<notin> set known then Inl (CheckViolation ''accounts'')
             else Inr (t\<lparr>ot_next := Suc (ot_next t),
                         ot_rows := ot_rows t @
                           [\<lparr>mo_id = ot_next t, mo_account = account, mo_market = rq_market r, mo_symbol = request_symbol r,
                             mo_side = rq_side r, mo_qty = q, mo_amount = a, mo_scheduled = request_time r now,
                             mo_status = Pending, mo_detail = NoDetail, mo_updated = now\<rparr>]\<rparr>, ot_next t))))"

definition list_orders :: "int \<Rightarrow> string \<Rightarrow> order_table \<Rightarrow> manual_order list" where
  "list_orders limit account t =
     take (nat (max 1 (min limit 200))) (rev (filter (\<lambda>mo. mo_account mo = account) (ot_rows t)))"

definition update_rows :: "(manual_order \<Rightarrow> bool) \<Rightarrow> (manual_order \<Rightarrow> manual_order) \<Rightarrow> order_table \<Rightarrow> order_table" where
  "update_rows P f t = t\<lparr>ot_rows := map (\<lambda>mo. if P mo then f mo else mo) (ot_rows t)\<rparr>"

definition cancel_order :: "nat \<Rightarrow> string \<Rightarrow> int \<Rightarrow> order_table \<Rightarrow> order_table res" where
  "cancel_order oid account now t =
     (let P = (\<lambda>mo. mo_id mo = oid \<and> mo_account mo = account \<and> mo_status mo = Pending)
      in if list_ex P (ot_rows t) then Inr (update_rows P (\<lambda>mo. mo\<lparr>mo_status := Canceled, mo_updated := now\<rparr>) t)
         else Inl (ValueError ''409''))"

section \<open>The executor\<close>

definition ORPHAN_MIN :: int where "ORPHAN_MIN = 30"

definition recover_orphans :: "int \<Rightarrow> order_table \<Rightarrow> order_table" where
  "recover_orphans now =
     update_rows (\<lambda>mo. mo_status mo = Placed \<and> mo_updated mo < now - ORPHAN_MIN * 60 * SECOND)
       (\<lambda>mo. mo\<lparr>mo_status := Failed, mo_detail := Orphan (mo_detail mo), mo_updated := now\<rparr>)"

text \<open>The first row with the least \<open>scheduled_at\<close> of those that are due.\<close>

fun earliest :: "manual_order list \<Rightarrow> manual_order option" where
  "earliest [] = None"
| "earliest (r # rs) = (case earliest rs of None \<Rightarrow> Some r | Some x \<Rightarrow> Some (if mo_scheduled r \<le> mo_scheduled x then r else x))"

definition is_due :: "int \<Rightarrow> manual_order \<Rightarrow> bool" where
  "is_due now mo \<longleftrightarrow> mo_status mo = Pending \<and> mo_scheduled mo \<le> now"

definition claim_one :: "int \<Rightarrow> order_table \<Rightarrow> (order_table \<times> manual_order) option" where
  "claim_one now t =
     (case earliest (filter (is_due now) (ot_rows t)) of
        None \<Rightarrow> None
      | Some mo \<Rightarrow>
          let mo' = mo\<lparr>mo_status := Placed, mo_updated := now\<rparr>
          in Some (update_rows (\<lambda>x. mo_id x = mo_id mo) (\<lambda>_. mo') t, mo'))"

definition finish :: "nat \<Rightarrow> order_status \<Rightarrow> order_detail \<Rightarrow> int \<Rightarrow> order_table \<Rightarrow> order_table" where
  "finish oid st d now = update_rows (\<lambda>mo. mo_id mo = oid) (\<lambda>mo. mo\<lparr>mo_status := st, mo_detail := d, mo_updated := now\<rparr>)"

definition market_name :: "market \<Rightarrow> string" where
  "market_name m = (case m of KR \<Rightarrow> ''KR'' | US \<Rightarrow> ''US'')"

text \<open>Quantity, reference price and exchange.  \<open>not ref\<close> also holds of a price of zero.\<close>

definition no_price :: "rat option \<Rightarrow> bool" where
  "no_price x \<longleftrightarrow> x = None \<or> x = Some 0"

definition resolve_qty :: "int option \<Rightarrow> rat option \<Rightarrow> rat option \<Rightarrow> int res" where
  "resolve_qty qty amount ref =
     (case qty of
        Some q \<Rightarrow> Inr q
      | None \<Rightarrow>
          if no_price ref then Inl (ValueError ''ref'')
          else case amount of
                 None \<Rightarrow> Inl TypeError
               | Some a \<Rightarrow> let q = \<lfloor>fl a / the ref\<rfloor> in if q < 1 then Inl (ValueError ''qty'') else Inr q)"

definition resolve_order ::
  "'w http \<Rightarrow> 'w stock_env \<Rightarrow> manual_order \<Rightarrow> ('w, int \<times> rat option \<times> string option) io" where
  "resolve_order h env mo w =
     (let ((ref, exch), w1) = (if mo_market mo = US then price_and_exchange h (mo_symbol mo) w
                               else let (p, w1) = current_price h (mo_symbol mo) w in ((p, None), w1))
      in bind (if no_price ref
               then bind (stock_closes env (market_name (mo_market mo)) [mo_symbol mo]) (\<lambda>cl. ret (map_of cl (mo_symbol mo)))
               else ret ref)
           (\<lambda>ref' w2. (rbind (resolve_qty (mo_qty mo) (mo_amount mo) ref') (\<lambda>q. Inr (q, ref', exch)), w2)) w1)"

text \<open>What \<open>_execute\<close> decides: the status and detail to store, and the result of the chase if there was one.\<close>

definition order_outcome :: "int \<Rightarrow> rat option \<Rightarrow> chase_result \<Rightarrow> order_status \<times> order_detail" where
  "order_outcome q ref r =
     (if q \<le> ch_filled r then (Executed, Chased q ref r False)
      else if 0 < ch_filled r then (Executed, Chased q ref r True)
      else (Failed, Chased q ref r False))"

definition execute_order ::
  "settings \<Rightarrow> 'w http \<Rightarrow> 'w stock_env \<Rightarrow> manual_order \<Rightarrow> 'w \<Rightarrow>
   (order_status \<times> order_detail) \<times> chase_result res option \<times> 'w" where
  "execute_order c h env mo w =
     (case resolve_order h env mo w of
        (Inl e, w1) \<Rightarrow> ((Failed, Error e), None, w1)
      | (Inr (q, ref, exch), w1) \<Rightarrow>
          (case place_and_chase c h (se_account env) (mo_market mo) (mo_symbol mo) (mo_side mo) q ref exch 3 (KIS_CONFIRM_WINDOW_SEC c) w1 of
             (Inl e, w2) \<Rightarrow> ((Failed, Error e), Some (Inl e), w2)
           | (Inr r, w2) \<Rightarrow> (order_outcome q ref r, Some (Inr r), w2)))"

section \<open>The system\<close>

text \<open>
  The table, the orders claimed by executors that have not stored their outcome, and the history of the
  calls of \<open>place_and_chase\<close>: the order and what the call returned or raised, \<open>None\<close> when the process died
  before it returned.  The history is written from the call, not from the status that is stored after it.
  Users create and cancel orders, any number of executors claim and execute them; a process may die within
  the chase, after it or between any two statements, and a start of the executor recovers the orphans.
\<close>

record order_system =
  os_table :: order_table
  os_busy :: "manual_order list"
  os_chased :: "(nat \<times> chase_result res option) list"

definition log_chase :: "nat \<Rightarrow> chase_result res option \<Rightarrow> (nat \<times> chase_result res option) list \<Rightarrow>
    (nat \<times> chase_result res option) list" where
  "log_chase oid chased history = (case chased of None \<Rightarrow> history | Some r \<Rightarrow> (oid, Some r) # history)"

inductive order_step :: "settings \<Rightarrow> 'w http \<Rightarrow> 'w stock_env \<Rightarrow> order_system \<Rightarrow> order_system \<Rightarrow> bool"
  for c h env where
  create: "create_order known account r now (os_table s) = Inr (t, oid) \<Longrightarrow> order_step c h env s (s\<lparr>os_table := t\<rparr>)"
| cancel: "cancel_order oid account now (os_table s) = Inr t \<Longrightarrow> order_step c h env s (s\<lparr>os_table := t\<rparr>)"
| claim: "claim_one now (os_table s) = Some (t, mo) \<Longrightarrow> order_step c h env s (s\<lparr>os_table := t, os_busy := mo # os_busy s\<rparr>)"
| execute: "mo \<in> set (os_busy s) \<Longrightarrow> execute_order c h env mo w = ((st, d), chased, w') \<Longrightarrow>
    order_step c h env s (s\<lparr>os_table := finish (mo_id mo) st d now (os_table s), os_busy := remove1 mo (os_busy s),
                    os_chased := log_chase (mo_id mo) chased (os_chased s)\<rparr>)"
| execute_lost: "mo \<in> set (os_busy s) \<Longrightarrow> execute_order c h env mo w = ((st, d), chased, w') \<Longrightarrow>
    order_step c h env s (s\<lparr>os_busy := remove1 mo (os_busy s),
                    os_chased := log_chase (mo_id mo) chased (os_chased s)\<rparr>)"
| died: "mo \<in> set (os_busy s) \<Longrightarrow>
    order_step c h env s (s\<lparr>os_busy := remove1 mo (os_busy s), os_chased := (mo_id mo, None) # os_chased s\<rparr>)"
| crash: "order_step c h env s (s\<lparr>os_busy := []\<rparr>)"
| restart: "order_step c h env s (s\<lparr>os_table := recover_orphans now (os_table s)\<rparr>)"

definition empty_orders :: order_system where
  "empty_orders = \<lparr>os_table = \<lparr>ot_next = 1, ot_rows = []\<rparr>, os_busy = [], os_chased = []\<rparr>"

text \<open>The invariant: ids are unique, a claimed order is past \<open>Pending\<close> and was never chased, a chased one is past
  \<open>Pending\<close> and not canceled, quantities are positive, and what is marked as executed has the result of its
  chase as detail, with something filled.\<close>

definition row_ids :: "order_table \<Rightarrow> nat list" where
  "row_ids t = map mo_id (ot_rows t)"

definition past_pending :: "order_table \<Rightarrow> nat \<Rightarrow> bool" where
  "past_pending t oid \<longleftrightarrow> oid \<in> set (row_ids t) \<and> (\<forall>mo \<in> set (ot_rows t). mo_id mo = oid \<longrightarrow> mo_status mo \<notin> {Pending, Canceled})"

definition positive_qty :: "manual_order \<Rightarrow> bool" where
  "positive_qty mo \<longleftrightarrow> (case mo_qty mo of None \<Rightarrow> True | Some q \<Rightarrow> 0 < q)"

definition filled_by :: "(nat \<times> chase_result res option) list \<Rightarrow> nat \<Rightarrow> order_detail \<Rightarrow> bool" where
  "filled_by history oid d \<longleftrightarrow>
     (case d of
        Chased q ref r partial \<Rightarrow> (oid, Some (Inr r)) \<in> set history \<and> 0 < ch_filled r \<and> (partial \<longleftrightarrow> ch_filled r < q)
      | _ \<Rightarrow> False)"

lemma filled_by_mono: "filled_by hs i d \<Longrightarrow> set hs \<subseteq> set hs' \<Longrightarrow> filled_by hs' i d"
  by (auto simp: filled_by_def split: order_detail.splits)

definition order_inv :: "order_system \<Rightarrow> bool" where
  "order_inv s \<longleftrightarrow>
     distinct (row_ids (os_table s)) \<and> (\<forall>i \<in> set (row_ids (os_table s)). i < ot_next (os_table s)) \<and>
     distinct (map mo_id (os_busy s) @ map fst (os_chased s)) \<and>
     (\<forall>i \<in> set (map mo_id (os_busy s) @ map fst (os_chased s)). past_pending (os_table s) i) \<and>
     (\<forall>mo \<in> set (ot_rows (os_table s)). mo_status mo = Executed \<longrightarrow> filled_by (os_chased s) (mo_id mo) (mo_detail mo)) \<and>
     (\<forall>mo \<in> set (ot_rows (os_table s)) \<union> set (os_busy s). positive_qty mo)"

lemma row_ids_update: "(\<And>mo. P mo \<Longrightarrow> mo_id (f mo) = mo_id mo) \<Longrightarrow> row_ids (update_rows P f t) = row_ids t"
  by (auto simp: row_ids_def update_rows_def)

lemma next_update [simp]: "ot_next (update_rows P f t) = ot_next t"
  by (simp add: update_rows_def)

lemma past_pending_update:
  assumes "past_pending t i" "\<And>mo. P mo \<Longrightarrow> mo_id (f mo) = mo_id mo"
    "\<And>mo. mo \<in> set (ot_rows t) \<Longrightarrow> mo_id mo = i \<Longrightarrow> P mo \<Longrightarrow> mo_status (f mo) \<notin> {Pending, Canceled}"
  shows "past_pending (update_rows P f t) i"
  using assms row_ids_update [of P f t] by (auto simp: past_pending_def update_rows_def)

lemma create_inv:
  assumes "order_inv s" "create_order known account r now (os_table s) = Inr (t, oid)"
  shows "order_inv (s\<lparr>os_table := t\<rparr>)"
proof -
  obtain q a where t: "t = (os_table s)\<lparr>ot_next := Suc (ot_next (os_table s)), ot_rows := ot_rows (os_table s) @
      [\<lparr>mo_id = ot_next (os_table s), mo_account = account, mo_market = rq_market r, mo_symbol = request_symbol r,
        mo_side = rq_side r, mo_qty = q, mo_amount = a, mo_scheduled = request_time r now,
        mo_status = Pending, mo_detail = NoDetail, mo_updated = now\<rparr>]\<rparr>"
      and c: "qty_column (rq_qty r) = Inr q" and v: "valid_request r"
    using assms(2) by (auto simp: create_order_def split: if_splits)
  from c v have q: "case q of None \<Rightarrow> True | Some n \<Rightarrow> 0 < n"
    by (auto simp: qty_column_def valid_request_def split: if_splits option.splits)
  have "past_pending t i" if "past_pending (os_table s) i" for i
    using that assms(1) by (auto simp: past_pending_def t row_ids_def order_inv_def)
  then show ?thesis using assms(1) q by (auto simp: order_inv_def t row_ids_def less_Suc_eq positive_qty_def)
qed

lemma earliest_in: "earliest rs = Some r \<Longrightarrow> r \<in> set rs"
  by (induction rs arbitrary: r) (auto split: option.splits if_splits)

lemma claim_oneD:
  assumes "claim_one now t = Some (t', mo)"
  obtains p where "p \<in> set (ot_rows t)" "mo_status p = Pending" "mo = p\<lparr>mo_status := Placed, mo_updated := now\<rparr>"
    "t' = update_rows (\<lambda>x. mo_id x = mo_id p) (\<lambda>_. mo) t"
proof -
  obtain p where e: "earliest (filter (is_due now) (ot_rows t)) = Some p" and "mo = p\<lparr>mo_status := Placed, mo_updated := now\<rparr>"
    "t' = update_rows (\<lambda>x. mo_id x = mo_id p) (\<lambda>_. mo) t"
    using assms by (auto simp: claim_one_def Let_def split: option.splits)
  with earliest_in [OF e] show thesis by (intro that) (simp_all add: is_due_def)
qed

lemma claim_inv:
  assumes i: "order_inv s" and c: "claim_one now (os_table s) = Some (t, mo)"
  shows "order_inv (s\<lparr>os_table := t, os_busy := mo # os_busy s\<rparr>)"
proof -
  let ?t = "os_table s"
  from c obtain p where p: "p \<in> set (ot_rows ?t)" "mo_status p = Pending" and mo: "mo = p\<lparr>mo_status := Placed, mo_updated := now\<rparr>"
    and t: "t = update_rows (\<lambda>x. mo_id x = mo_id p) (\<lambda>_. mo) ?t" by (rule claim_oneD)
  have ids: "row_ids t = row_ids ?t" unfolding t by (rule row_ids_update) (simp add: mo)
  have keep: "past_pending t i" if "past_pending ?t i" for i
    unfolding t by (rule past_pending_update [OF that]) (simp_all add: mo)
  have "past_pending t (mo_id mo)" using p by (auto simp: past_pending_def t row_ids_def update_rows_def mo)
  moreover have "mo_id mo \<notin> set (map mo_id (os_busy s) @ map fst (os_chased s))"
    using i p by (auto simp: order_inv_def past_pending_def mo)
  moreover have "filled_by (os_chased s) (mo_id x) (mo_detail x)" if "x \<in> set (ot_rows t)" "mo_status x = Executed" for x
    using that i by (auto simp: t update_rows_def mo order_inv_def split: if_splits)
  moreover have "positive_qty x" if "x \<in> set (ot_rows t) \<union> set (mo # os_busy s)" for x
    using that i p(1) by (auto simp: t update_rows_def mo order_inv_def positive_qty_def split: if_splits)
  ultimately show ?thesis using i keep ids by (auto simp: order_inv_def t)
qed

lemma update_inv:
  assumes i: "order_inv s" and id: "\<And>x. P x \<Longrightarrow> mo_id (f x) = mo_id x"
    and st: "\<And>x. x \<in> set (ot_rows (os_table s)) \<Longrightarrow> P x \<Longrightarrow> mo_status x \<noteq> Pending \<Longrightarrow> mo_status (f x) \<notin> {Pending, Canceled}"
    and ex: "\<And>x. P x \<Longrightarrow> mo_status (f x) = Executed \<Longrightarrow> filled_by chased (mo_id x) (mo_detail (f x))"
    and qty: "\<And>x. P x \<Longrightarrow> mo_qty (f x) = mo_qty x" "set busy \<subseteq> set (os_busy s)"
    and sub: "set (os_chased s) \<subseteq> set chased" "set (map mo_id busy @ map fst chased) \<subseteq> set (map mo_id (os_busy s) @ map fst (os_chased s))"
      "distinct (map mo_id busy @ map fst chased)"
    and s': "os_table s' = update_rows P f (os_table s)" "os_busy s' = busy" "os_chased s' = chased"
  shows "order_inv s'"
proof -
  have "past_pending (update_rows P f (os_table s)) i" if "i \<in> set (map mo_id busy @ map fst chased)" for i
  proof (rule past_pending_update)
    show p: "past_pending (os_table s) i" using i that sub(2) unfolding order_inv_def by blast
    show "mo_status (f x) \<notin> {Pending, Canceled}" if "x \<in> set (ot_rows (os_table s))" "mo_id x = i" "P x" for x
      using st [OF that(1,3)] p that by (auto simp: past_pending_def)
  qed (fact id)
  moreover have "filled_by chased (mo_id x) (mo_detail x)" if "x \<in> set (ot_rows (update_rows P f (os_table s)))" "mo_status x = Executed" for x
    using that i ex id filled_by_mono [OF _ sub(1)] by (auto simp: update_rows_def order_inv_def split: if_splits)
  moreover have "positive_qty x" if "x \<in> set (ot_rows (update_rows P f (os_table s))) \<union> set busy" for x
    using that i qty by (auto simp: update_rows_def order_inv_def positive_qty_def split: if_splits)
  ultimately show ?thesis using i sub(3) row_ids_update [of P f "os_table s"] id by (simp add: order_inv_def s')
qed

lemma resolved_qty_positive:
  assumes "resolve_order h env mo w = (Inr (q, ref, exch), w')" "positive_qty mo"
  shows "0 < q"
proof -
  from assms(1) obtain ref' where "resolve_qty (mo_qty mo) (mo_amount mo) ref' = Inr q"
    by (auto simp: resolve_order_def bind_def Let_def split: prod.splits sum.splits)
  with assms(2) show ?thesis
    by (auto simp: resolve_qty_def positive_qty_def Let_def split: option.splits if_splits)
qed

lemma execute_order_status:
  assumes "execute_order c h env mo w = ((st, d), chased, w')" "positive_qty mo"
  shows "st \<in> {Executed, Failed} \<and> (st = Executed \<longrightarrow> filled_by (log_chase (mo_id mo) chased history) (mo_id mo) d)"
  using assms(1) resolved_qty_positive [OF _ assms(2), of h env w]
  by (auto simp: execute_order_def order_outcome_def filled_by_def log_chase_def split: prod.splits sum.splits if_splits)

lemma chased_once:
  assumes i: "order_inv s" and b: "mo \<in> set (os_busy s)"
  defines "busy \<equiv> remove1 mo (os_busy s)"
  assumes C: "C = os_chased s \<or> (\<exists>r. C = (mo_id mo, r) # os_chased s)"
  shows "set (os_chased s) \<subseteq> set C" "set (map mo_id busy @ map fst C) \<subseteq> set (map mo_id (os_busy s) @ map fst (os_chased s))"
    "distinct (map mo_id busy @ map fst C)"
proof -
  have d: "distinct (map mo_id (os_busy s) @ map fst (os_chased s))" using i by (simp add: order_inv_def)
  show "set (os_chased s) \<subseteq> set C" using C by auto
  have f: "distinct (mo_id mo # map mo_id busy)"
    using d b by (auto simp: busy_def distinct_map distinct_remove1 set_remove1_eq inj_on_def)
  have sub: "set (map mo_id busy) \<subseteq> set (map mo_id (os_busy s))" "mo_id mo \<in> set (map mo_id (os_busy s))"
    using b set_remove1_subset [of mo "os_busy s"] by (auto simp: busy_def)
  show "set (map mo_id busy @ map fst C) \<subseteq> set (map mo_id (os_busy s) @ map fst (os_chased s))"
    using C sub by (elim disjE exE; simp; blast)
  have "set (map mo_id busy) \<inter> set (map fst (os_chased s)) = {}" "mo_id mo \<notin> set (map fst (os_chased s))"
    using d sub by auto
  then show "distinct (map mo_id busy @ map fst C)"
    using C f d by (elim disjE exE; simp; blast?)
qed

lemma step_order_inv: "order_step c h env s s' \<Longrightarrow> order_inv s \<Longrightarrow> order_inv s'"
proof (induction rule: order_step.induct)
  case (create known account r now s t oid)
  then show ?case by (rule create_inv [rotated])
next
  case (cancel oid account now s t)
  show ?case
    by (rule update_inv [OF cancel.prems, where busy = "os_busy s" and chased = "os_chased s"
          and P = "\<lambda>x. mo_id x = oid \<and> mo_account x = account \<and> mo_status x = Pending"
          and f = "\<lambda>x. x\<lparr>mo_status := Canceled, mo_updated := now\<rparr>"])
      (use cancel in \<open>auto simp: cancel_order_def Let_def order_inv_def split: if_splits\<close>)
next
  case (claim now s t mo)
  then show ?case by (rule claim_inv [rotated])
next
  case (execute mo s w st d chased w' now)
  have "positive_qty mo" using execute.prems execute.hyps(1) by (simp add: order_inv_def)
  note E = execute_order_status [OF execute.hyps(2) this]
  have "log_chase (mo_id mo) chased (os_chased s) = os_chased s \<or> (\<exists>r. log_chase (mo_id mo) chased (os_chased s) = (mo_id mo, r) # os_chased s)"
    by (simp add: log_chase_def split: option.split)
  note C = chased_once [OF execute.prems execute.hyps(1) this]
  show ?case
    by (rule update_inv [OF execute.prems _ _ _ _ set_remove1_subset C]) (use E in \<open>auto simp: finish_def\<close>)
next
  case (execute_lost mo s w st d chased w')
  have "log_chase (mo_id mo) chased (os_chased s) = os_chased s \<or> (\<exists>r. log_chase (mo_id mo) chased (os_chased s) = (mo_id mo, r) # os_chased s)"
    by (simp add: log_chase_def split: option.split)
  note C = chased_once [OF execute_lost.prems execute_lost.hyps(1) this]
  show ?case
    by (rule update_inv [OF execute_lost.prems _ _ _ _ set_remove1_subset C, where P = "\<lambda>x. False" and f = id]) (auto simp: update_rows_def)
next
  case (died mo s)
  note C = chased_once [OF died.prems died.hyps(1), of "(mo_id mo, None) # os_chased s"]
  show ?case
    by (rule update_inv [OF died.prems _ _ _ _ set_remove1_subset C, where P = "\<lambda>x. False" and f = id]) (auto simp: update_rows_def)
next
  case (crash s)
  then show ?case by (auto simp: order_inv_def)
next
  case (restart s now)
  show ?case
    by (rule update_inv [OF restart.prems, where busy = "os_busy s" and chased = "os_chased s"
          and P = "\<lambda>x. mo_status x = Placed \<and> mo_updated x < now - ORPHAN_MIN * 60 * SECOND"
          and f = "\<lambda>x. x\<lparr>mo_status := Failed, mo_detail := Orphan (mo_detail x), mo_updated := now\<rparr>"])
      (use restart.prems in \<open>auto simp: recover_orphans_def order_inv_def\<close>)
qed

section \<open>Properties\<close>

lemma reachable_order_inv:
  assumes "(order_step c h env)\<^sup>*\<^sup>* empty_orders s"
  shows "order_inv s"
  using assms
proof (induction rule: rtranclp_induct)
  case base
  show ?case by (simp add: order_inv_def empty_orders_def row_ids_def)
next
  case (step y z)
  then show ?case using step_order_inv by blast
qed

text \<open>C9: A manual order is sent to the broker at most once, whatever users cancel, however many executors there
  are, and wherever they die (within the chase, too) and are started again: no order is chased twice, an order
  that is pending or canceled was never chased, and an order that is marked as executed holds the result of
  its one chase, which filled a positive quantity, and the mark of a partial fill exactly when that is less
  than the quantity that was ordered.\<close>

theorem manual_order_chased_once:
  assumes "(order_step c h env)\<^sup>*\<^sup>* empty_orders s"
  shows "distinct (map fst (os_chased s)) \<and>
    (\<forall>mo \<in> set (ot_rows (os_table s)).
       (mo_status mo = Pending \<or> mo_status mo = Canceled \<longrightarrow> mo_id mo \<notin> fst ` set (os_chased s)) \<and>
       (mo_status mo = Executed \<longrightarrow>
          (\<exists>q ref r partial. mo_detail mo = Chased q ref r partial \<and> (mo_id mo, Some (Inr r)) \<in> set (os_chased s) \<and>
             0 < ch_filled r \<and> (partial \<longleftrightarrow> ch_filled r < q))))"
proof (intro conjI ballI impI)
  note i = reachable_order_inv [OF assms, unfolded order_inv_def]
  show "distinct (map fst (os_chased s))" using i by simp
  fix mo assume mo: "mo \<in> set (ot_rows (os_table s))"
  show "mo_id mo \<notin> fst ` set (os_chased s)" if "mo_status mo = Pending \<or> mo_status mo = Canceled"
    using i mo that by (auto simp: past_pending_def)
  show "\<exists>q ref r partial. mo_detail mo = Chased q ref r partial \<and> (mo_id mo, Some (Inr r)) \<in> set (os_chased s) \<and>
      0 < ch_filled r \<and> (partial \<longleftrightarrow> ch_filled r < q)" if "mo_status mo = Executed"
  proof -
    have "filled_by (os_chased s) (mo_id mo) (mo_detail mo)" using i mo that by blast
    then show ?thesis by (auto simp: filled_by_def split: order_detail.splits)
  qed
qed

definition demo_request :: order_request where
  "demo_request = \<lparr>rq_market = US, rq_symbol = ''a '', rq_side = BUY, rq_qty = None, rq_amount = Some 350, rq_scheduled = None\<rparr>"

definition demo_order_env :: "(int \<times> nat) stock_env" where
  "demo_order_env = \<lparr>se_account = ''1-01'', se_clock = (\<lambda>w. 0), se_et = (\<lambda>w. 0), se_order = (\<lambda>xs. xs),
     se_score = (\<lambda>m n. ret (None, [])), se_refresh = (\<lambda>ms. ret ()), se_query_closes = (\<lambda>m s. ret []), se_sent = True\<rparr>"

definition demo_row :: "order_status \<Rightarrow> order_detail \<Rightarrow> int \<Rightarrow> manual_order" where
  "demo_row st d now = \<lparr>mo_id = 1, mo_account = ''me'', mo_market = US, mo_symbol = ''A'', mo_side = BUY, mo_qty = None,
     mo_amount = Some 350, mo_scheduled = 0, mo_status = st, mo_detail = d, mo_updated = now\<rparr>"

lemma demo_executed:
  "\<exists>d r w'. execute_order default_settings demo_broker demo_order_env (demo_row Placed NoDetail 5) (10, 0)
     = ((Executed, d), Some (Inr r), w') \<and> ch_filled r = 3 \<and> w' = (13, 0)"
proof -
  have "(case execute_order default_settings demo_broker demo_order_env (demo_row Placed NoDetail 5) (10, 0) of
      ((st, d), b, w') \<Rightarrow> st = Executed \<and> (case b of Some (Inr r) \<Rightarrow> ch_filled r = 3 | _ \<Rightarrow> False) \<and> w' = (13, 0))"
    by code_simp
  then show ?thesis by (auto split: prod.splits option.splits sum.splits)
qed

abbreviation demo_step :: "order_system \<Rightarrow> order_system \<Rightarrow> bool" where
  "demo_step \<equiv> order_step default_settings demo_broker demo_order_env"

definition demo_orders :: "manual_order \<Rightarrow> manual_order list \<Rightarrow> (nat \<times> chase_result res option) list \<Rightarrow> order_system" where
  "demo_orders mo busy chased = \<lparr>os_table = \<lparr>ot_next = 2, ot_rows = [mo]\<rparr>, os_busy = busy, os_chased = chased\<rparr>"

lemma demo_claimed: "demo_step\<^sup>*\<^sup>* empty_orders (demo_orders (demo_row Placed NoDetail 5) [demo_row Placed NoDetail 5] [])"
proof -
  have "create_order [''me''] ''me'' demo_request 0 (os_table empty_orders) = Inr (\<lparr>ot_next = 2, ot_rows = [demo_row Pending NoDetail 0]\<rparr>, 1)"
    by code_simp
  from order_step.create [OF this] have "demo_step empty_orders (demo_orders (demo_row Pending NoDetail 0) [] [])"
    by (simp add: demo_orders_def empty_orders_def)
  moreover have "claim_one 5 (os_table (demo_orders (demo_row Pending NoDetail 0) [] []))
      = Some (\<lparr>ot_next = 2, ot_rows = [demo_row Placed NoDetail 5]\<rparr>, demo_row Placed NoDetail 5)"
    by code_simp
  from order_step.claim [OF this] have "demo_step (demo_orders (demo_row Pending NoDetail 0) [] [])
      (demo_orders (demo_row Placed NoDetail 5) [demo_row Placed NoDetail 5] [])"
    by (simp add: demo_orders_def)
  ultimately show ?thesis by simp
qed

theorem manual_order_chased_once_witness:
  "\<exists>s r. demo_step\<^sup>*\<^sup>* empty_orders s \<and> os_chased s = [(1, Some (Inr r))] \<and> ch_filled r = 3 \<and>
     map mo_status (ot_rows (os_table s)) = [Executed] \<and> distinct (map fst (os_chased s)) \<and>
     (\<exists>q ref partial. map mo_detail (ot_rows (os_table s)) = [Chased q ref r partial] \<and> (partial \<longleftrightarrow> 3 < q))"
proof -
  obtain d r w' where e: "execute_order default_settings demo_broker demo_order_env (demo_row Placed NoDetail 5) (10, 0)
      = ((Executed, d), Some (Inr r), w')" and r: "ch_filled r = 3"
    using demo_executed by blast
  define s where "s = demo_orders (demo_row Executed d 9) [] [(1, Some (Inr r))]"
  from order_step.execute [OF _ e, of "demo_orders (demo_row Placed NoDetail 5) [demo_row Placed NoDetail 5] []" 9]
  have "demo_step (demo_orders (demo_row Placed NoDetail 5) [demo_row Placed NoDetail 5] []) s"
    by (simp add: demo_orders_def finish_def update_rows_def demo_row_def log_chase_def s_def)
  with demo_claimed have reach: "demo_step\<^sup>*\<^sup>* empty_orders s" by simp
  have "os_chased s = [(1, Some (Inr r))]" "ot_rows (os_table s) = [demo_row Executed d 9]"
    by (simp_all add: s_def demo_orders_def)
  moreover have "mo_status (demo_row Executed d 9) = Executed" "mo_detail (demo_row Executed d 9) = d"
    by (simp_all add: demo_row_def)
  ultimately show ?thesis using manual_order_chased_once [OF reach] reach r
    by (intro exI [of _ s] exI [of _ r]) auto
qed

text \<open>An order whose executor died can stay \<open>PLACED\<close> for ever. Nothing changes it but a start of the executor
  more than 30 minutes after the claim; a start within the 30 minutes leaves it, and the recovery runs only at
  a start.\<close>

lemma orphan_waits_for_late_start:
  assumes "(order_step c h env)\<^sup>*\<^sup>* empty_orders s" "order_step c h env s s'"
    and x: "x \<in> set (ot_rows (os_table s))" "mo_status x = Placed" "mo_id x \<notin> mo_id ` set (os_busy s)"
  shows "x \<in> set (ot_rows (os_table s')) \<and> mo_id x \<notin> mo_id ` set (os_busy s') \<or>
    (\<exists>now. mo_updated x + 30 * 60 * SECOND < now \<and> s' = s\<lparr>os_table := recover_orphans now (os_table s)\<rparr>)"
  using assms(2)
proof (cases rule: order_step.cases)
  case (create known account r now t oid)
  then show ?thesis using x by (auto simp: create_order_def split: if_splits)
next
  case (cancel oid account now t)
  then show ?thesis using x by (auto simp: cancel_order_def Let_def update_rows_def split: if_splits)
next
  case (claim now t mo)
  have "distinct (row_ids (os_table s))" using reachable_order_inv [OF assms(1)] by (simp add: order_inv_def)
  moreover from claim(2) obtain p where p: "p \<in> set (ot_rows (os_table s))" "mo_status p = Pending"
    "mo = p\<lparr>mo_status := Placed, mo_updated := now\<rparr>" "t = update_rows (\<lambda>x. mo_id x = mo_id p) (\<lambda>_. mo) (os_table s)" by (rule claim_oneD)
  ultimately have "mo_id p \<noteq> mo_id x" using x(1,2) by (auto simp: row_ids_def distinct_map inj_on_def)
  then show ?thesis using x p claim(1) by (force simp: update_rows_def)
next
  case (execute mo w st d chased w' now)
  then show ?thesis using x set_remove1_subset [of mo "os_busy s"] by (force simp: finish_def update_rows_def)
next
  case (execute_lost mo w st d chased w')
  then show ?thesis using x set_remove1_subset [of mo "os_busy s"] by force
next
  case (died mo)
  then show ?thesis using x set_remove1_subset [of mo "os_busy s"] by force
next
  case crash
  then show ?thesis using x by simp
next
  case (restart now)
  show ?thesis
  proof (cases "mo_updated x < now - ORPHAN_MIN * 60 * SECOND")
    case True
    then show ?thesis using restart by (intro disjI2 exI [of _ now]) (simp add: ORPHAN_MIN_def)
  next
    case False
    then show ?thesis using restart x by (auto simp: recover_orphans_def update_rows_def image_iff intro!: bexI [of _ x])
  qed
qed

end
