(* ===== verification/ApiRoutes.thy ===== *)
theory ApiRoutes
  imports Performance StockOrders LiveSignals "HOL-Library.List_Lexorder" "HOL-Library.Char_ord"
begin

text \<open>
  The web interface: the login gate \<open>api/security.py\<close> and \<open>api/auth_google.py\<close>, the routes of the user's account
  (\<open>api/routes/orders.py\<close>, \<open>account.py\<close>, \<open>autotrade.py\<close>, \<open>history.py\<close>, \<open>decisions.py\<close>, \<open>equity.py\<close>, \<open>rebalance.py\<close>),
  the watch list \<open>api/routes/watchlist.py\<close>, and the cached views \<open>api/routes/strategy.py\<close>, \<open>api/routes/stocks.py\<close>
  with \<open>api/warmup.py\<close>.

  The signed session cookie and the exchange with Google are outside: a request comes with the user of its
  session, and a login with the profile that Google returns.
\<close>

section \<open>Sessions\<close>

record user =
  u_email :: string
  u_account :: string
  u_name :: string

record request =
  rq_path :: string
  rq_html :: bool
  rq_user :: "user option"

record auth =
  au_enabled :: bool
  au_emails :: "string list"

datatype 'a response = Ok 'a | Redirect string | Http nat | Crash exc

definition lower_char :: "char \<Rightarrow> char" where
  "lower_char ch = (let n = of_char ch :: nat in if 65 \<le> n \<and> n \<le> 90 then char_of (n + 32) else ch)"

definition lower :: "string \<Rightarrow> string" where "lower = map lower_char"
definition upper :: "string \<Rightarrow> string" where "upper = map upper_char"

definition starts_with :: "string \<Rightarrow> string \<Rightarrow> bool" where
  "starts_with p s \<longleftrightarrow> take (length p) s = p"

definition is_public :: "string \<Rightarrow> bool" where
  "is_public path \<longleftrightarrow> path \<in> set [''/login'', ''/logout'', ''/favicon.ico'', ''/healthz''] \<or> starts_with ''/auth/'' path"

definition session_user :: "auth \<Rightarrow> request \<Rightarrow> user option" where
  "session_user au r =
     (case rq_user r of None \<Rightarrow> None | Some u \<Rightarrow> if lower (u_email u) \<in> set (au_emails au) then Some u else None)"

definition auth_gate :: "auth \<Rightarrow> (request \<Rightarrow> 'a response) \<Rightarrow> request \<Rightarrow> 'a response" where
  "auth_gate au call_next r =
     (if \<not> au_enabled au \<or> is_public (rq_path r) then call_next r
      else if session_user au r \<noteq> None then call_next r
      else if rq_html r then Redirect ''/login''
      else Http 401)"

definition current_account_id :: "auth \<Rightarrow> request \<Rightarrow> string response" where
  "current_account_id au r =
     (if \<not> au_enabled au then Ok ''demo''
      else case session_user au r of None \<Rightarrow> Http 401 | Some u \<Rightarrow> Ok (u_account u))"

text \<open>A route with \<open>Depends(current_account_id)\<close> behind the gate: it gets the account and the state.\<close>

definition on_account :: "auth \<Rightarrow> (string \<Rightarrow> 's \<Rightarrow> 'a response \<times> 's) \<Rightarrow> request \<Rightarrow> 's \<Rightarrow> 'a response \<times> 's" where
  "on_account au route r s =
     (case auth_gate au (current_account_id au) r of
        Ok a \<Rightarrow> route a s
      | Redirect p \<Rightarrow> (Redirect p, s)
      | Http n \<Rightarrow> (Http n, s)
      | Crash e \<Rightarrow> (Crash e, s))"

section \<open>Login\<close>

definition ensure_account :: "settings \<Rightarrow> string \<Rightarrow> db \<Rightarrow> db res" where
  "ensure_account c a db =
     rbind (numeric 20 4 (INITIAL_BALANCE c)) (\<lambda>b.
       Inr (if map_of (accounts db) a \<noteq> None then db
            else db\<lparr>accounts := accounts db @ [(a, \<lparr>krw_balance = b, auto_trade = False\<rparr>)]\<rparr>))"

text \<open>The profile that Google returns: the e-mail address, if any, the subject and the name; \<open>None\<close> if the exchange
  fails.  A response other than \<open>Ok\<close> leaves no user in the session.\<close>

type_synonym profile = "string option \<times> string \<times> string option"

definition auth_callback :: "settings \<Rightarrow> auth \<Rightarrow> profile option \<Rightarrow> db \<Rightarrow> user response \<times> db" where
  "auth_callback c au p db =
     (case p of
        None \<Rightarrow> (Http 400, db)
      | Some (email, sub, name) \<Rightarrow>
          let e = lower (case email of None \<Rightarrow> '''' | Some x \<Rightarrow> x); a = ''google:'' @ sub
          in if e \<notin> set (au_emails au) then (Http 403, db)
             else case ensure_account c a db of
                    Inl err \<Rightarrow> (Crash err, db)
                  | Inr db' \<Rightarrow>
                      (Ok \<lparr>u_email = e, u_account = a,
                           u_name = (case name of None \<Rightarrow> e | Some n \<Rightarrow> if n = '''' then e else n)\<rparr>, db'))"

text \<open>\<open>/me\<close>: whether the login is enabled, and the user of the session as it is.\<close>

definition me :: "auth \<Rightarrow> request \<Rightarrow> bool \<times> string option \<times> string option" where
  "me au r =
     (if \<not> au_enabled au then (False, None, Some ''demo'')
      else (True, map_option u_email (rq_user r), map_option u_account (rq_user r)))"

section \<open>Orders and accounts\<close>

record order_body =
  ob_symbol :: string
  ob_side :: string
  ob_type :: string
  ob_quantity :: rat
  ob_price :: "rat option"

text \<open>\<open>Decimal(str(x))\<close> of a float is its shortest representation.\<close>

definition post_order_route :: "string \<Rightarrow> order_body \<Rightarrow> string \<Rightarrow> db \<Rightarrow> string response \<times> db" where
  "post_order_route oid b a db =
     (if ob_side b \<noteq> ''BUY'' \<and> ob_side b \<noteq> ''SELL'' then (Http 400, db)
      else if ob_type b \<noteq> ''MARKET'' \<and> ob_type b \<noteq> ''LIMIT'' then (Http 400, db)
      else if ob_quantity b \<le> 0 then (Http 400, db)
      else if ob_type b = ''LIMIT'' \<and> ob_price b = None then (Http 400, db)
      else case place_order db oid a (ob_symbol b) (if ob_side b = ''BUY'' then BUY else SELL)
                  (if ob_type b = ''MARKET'' then MARKET else LIMIT) (frepr (ob_quantity b)) (map_option frepr (ob_price b)) of
             Inl e \<Rightarrow> (Crash e, db) | Inr (db', i) \<Rightarrow> (Ok i, db'))"

record account_view =
  av_account :: string
  av_balance :: rat
  av_initial :: rat
  av_fees :: rat
  av_positions :: "(string \<times> rat \<times> rat) list"

definition get_account :: "settings \<Rightarrow> string \<Rightarrow> db \<Rightarrow> account_view response" where
  "get_account c a db =
     (case map_of (accounts db) a of
        None \<Rightarrow> Http 404
      | Some r \<Rightarrow>
          Ok \<lparr>av_account = a, av_balance = fl (krw_balance r), av_initial = fl (INITIAL_BALANCE c),
              av_fees = fl (sum_list (map x_fee (account_executions db a))),
              av_positions = map (\<lambda>((i, s), p). (s, fl (p_quantity p), fl (avg_buy_price p)))
                (sort_key (\<lambda>x. snd (fst x)) (filter (\<lambda>((i, s), p). i = a \<and> p_quantity p \<noteq> 0) (positions db)))\<rparr>)"

definition get_autotrade :: "string \<Rightarrow> db \<Rightarrow> bool" where
  "get_autotrade a db = (case map_of (accounts db) a of None \<Rightarrow> False | Some r \<Rightarrow> auto_trade r)"

definition set_autotrade :: "bool \<Rightarrow> string \<Rightarrow> db \<Rightarrow> bool response \<times> db" where
  "set_autotrade b a db =
     (Ok b, db\<lparr>accounts := map (\<lambda>(i, r). (i, if i = a then r\<lparr>auto_trade := b\<rparr> else r)) (accounts db)\<rparr>)"

definition history_limit :: "int \<Rightarrow> int" where "history_limit n = max 1 (min n 100)"
definition decisions_limit :: "int \<Rightarrow> int" where "decisions_limit n = max 1 (min n 200)"
definition equity_days :: "int \<Rightarrow> int" where "equity_days n = max 1 (min n 1830)"

text \<open>The latest executions first; those of the same time in any order, here the one inserted last first.\<close>

definition history_executions :: "(string \<Rightarrow> int) \<Rightarrow> int \<Rightarrow> string \<Rightarrow> db \<Rightarrow> (string \<times> string \<times> side \<times> rat \<times> rat \<times> rat) list" where
  "history_executions executed_at limit a db =
     map (\<lambda>ex. (x_id ex, x_symbol ex, x_side ex, fl (x_price ex), fl (x_quantity ex), fl (x_fee ex)))
       (take (nat (history_limit limit)) (rev (sort_key (\<lambda>ex. executed_at (x_id ex)) (account_executions db a))))"

definition rebalance_status :: "weeks \<Rightarrow> (string \<Rightarrow> int) \<Rightarrow> (string \<times> string \<times> bool) list" where
  "rebalance_status tab today =
     map (\<lambda>m. (m, iso_week (today m), week_done tab m (today m))) [''KR'', ''US'']"

text \<open>The equity curves: the account's coins, the brokerage account and the paper account, and their total without the
  paper account; the last component is the latest exchange rate.\<close>

definition equity_history :: "snapshots \<Rightarrow> rates res \<Rightarrow> int \<Rightarrow> int \<Rightarrow> string \<Rightarrow> (string \<times> series) list \<times> (int \<times> rat) list \<times> rat option" where
  "equity_history snaps usdkrw today n a =
     (let d = equity_days n;
          curves = [(''COIN'', fetch_market_series snaps today ''COIN'' a d), (''KR'', fetch_market_series snaps today ''KR'' ''kis'' d),
                    (''KR_ICHIMOKU'', fetch_market_series snaps today ''KR'' ''kr_ichimoku'' d),
                    (''US'', fetch_market_series snaps today ''US'' ''kis'' d)];
          fx = (case usdkrw of Inl e \<Rightarrow> [] | Inr f \<Rightarrow> f)
      in (curves, merge_total_krw (filter (\<lambda>(m, p). \<not> is_paper m) curves) fx, if fx = [] then None else Some (snd (List.last fx))))"

section \<open>The watch list\<close>

type_synonym watch_row = "string \<times> market \<times> string"

definition all_digits :: "string \<Rightarrow> bool" where
  "all_digits s \<longleftrightarrow> s \<noteq> '''' \<and> list_all Kis.is_digit s"

definition kr_code :: "string \<Rightarrow> bool" where
  "kr_code s \<longleftrightarrow> length s = 6 \<and> all_digits s"

definition letter :: "char \<Rightarrow> bool" where
  "letter ch \<longleftrightarrow> (let n = of_char (upper_char ch) :: nat in 65 \<le> n \<and> n \<le> 90)"

definition us_ticker :: "string \<Rightarrow> bool" where
  "us_ticker s \<longleftrightarrow>
     (case s of
        [] \<Rightarrow> False
      | ch # cs \<Rightarrow> letter ch \<and> length cs \<le> 9 \<and> list_all (\<lambda>x. letter x \<or> Kis.is_digit x \<or> x = CHR ''.'' \<or> x = CHR ''-'') cs)"

definition valid_toggle :: "market \<Rightarrow> string \<Rightarrow> bool" where
  "valid_toggle m s \<longleftrightarrow> 1 \<le> length s \<and> length s \<le> 20 \<and> (if m = KR then kr_code (strip s) else us_ticker (strip s))"

definition toggle_symbol :: "market \<Rightarrow> string \<Rightarrow> string" where
  "toggle_symbol m s = (if m = US then upper (strip s) else strip s)"

definition toggle_watch :: "market \<Rightarrow> string \<Rightarrow> string \<Rightarrow> watch_row list \<Rightarrow> bool response \<times> watch_row list" where
  "toggle_watch m s a tab =
     (if \<not> valid_toggle m s then (Http 422, tab)
      else let row = (a, m, toggle_symbol m s)
           in if row \<in> set tab then (Ok False, filter (\<lambda>x. x \<noteq> row) tab) else (Ok True, tab @ [row]))"

definition norm :: "string \<Rightarrow> string" where
  "norm s = lower (filter (\<lambda>ch. \<not> is_space ch) s)"

type_synonym name_row = "string \<times> market \<times> string"

definition search_rank :: "string \<Rightarrow> name_row \<Rightarrow> nat" where
  "search_rank q r =
     (case r of (sm, m, nm) \<Rightarrow>
        if upper sm = upper q then 0
        else if norm nm = norm q then 1
        else if starts_with (norm q) (norm nm) then 2
        else if starts_with (upper q) (upper sm) then 3
        else 4)"

definition row_key :: "name_row \<Rightarrow> market \<times> string" where
  "row_key r = (case r of (sm, m, nm) \<Rightarrow> (m, upper sm))"

definition unique_rows :: "name_row list \<Rightarrow> name_row list" where
  "unique_rows rows = map snd (foldl (\<lambda>d r. AList.update (row_key r) r d) [] rows)"

record hit =
  h_market :: market
  h_symbol :: string
  h_name :: "string option"
  h_watched :: bool

definition merge_search_results :: "name_row list \<Rightarrow> (market \<times> string) set \<Rightarrow> string \<Rightarrow> hit list" where
  "merge_search_results rows watched query =
     (let q = strip query;
          ordered = sort_key (search_rank q) (sort_key fst (unique_rows rows));
          res = map (\<lambda>(sm, m, nm). \<lparr>h_market = m, h_symbol = sm, h_name = Some nm, h_watched = (m, sm) \<in> watched\<rparr>) (take 20 ordered)
      in if res \<noteq> [] then res
         else if kr_code q then [\<lparr>h_market = KR, h_symbol = q, h_name = None, h_watched = (KR, q) \<in> watched\<rparr>]
         else if us_ticker q then [\<lparr>h_market = US, h_symbol = upper q, h_name = None, h_watched = (US, upper q) \<in> watched\<rparr>]
         else [])"

text \<open>\<open>found\<close> is the answer of the dictionary, empty if the query fails.\<close>

definition search_route :: "(string \<Rightarrow> name_row list) \<Rightarrow> string \<Rightarrow> string \<Rightarrow> watch_row list \<Rightarrow> hit list" where
  "search_route found query a tab =
     (let q = strip query
      in if q = '''' then []
         else merge_search_results (found q) {(m, sm). (a, m, sm) \<in> set tab} q)"

section \<open>Cached views\<close>

record stance =
  sn_symbol :: string
  sn_target :: rat
  sn_long :: bool
  sn_max_weight :: rat
  sn_bar :: "int option"
  sn_bars :: nat
  sn_speeds :: "(nat \<times> nat \<times> bool) list"

fun follow_candles :: "libm \<Rightarrow> string \<Rightarrow> ensemble \<Rightarrow> rat \<Rightarrow> (rat \<times> int) list \<Rightarrow> (ensemble \<times> rat) res" where
  "follow_candles m s e w [] = Inr (e, w)"
| "follow_candles m s e w ((close, ts) # cs) = rbind (combined_target m e s close) (\<lambda>(e', t). follow_candles m s e' (fl t) cs)"

definition stance_of :: "settings \<Rightarrow> libm \<Rightarrow> string \<Rightarrow> (rat \<times> int) list \<Rightarrow> stance res" where
  "stance_of c m s candles =
     rbind (new_ensemble c [] []) (\<lambda>e0.
     rbind (follow_candles m s e0 0 candles) (\<lambda>(e, w).
       Inr \<lparr>sn_symbol = s, sn_target = w, sn_long = 0 < w,
            sn_max_weight = (case e_signals e of [] \<Rightarrow> 0 | (p, sg) # rest \<Rightarrow> fl (p_max_weight p)),
            sn_bar = (if candles = [] then None else Some (local_date 0 (snd (List.last candles)))),
            sn_bars = length candles,
            sn_speeds = map (\<lambda>(p, sg). (p_short p, p_long p, get_or (t_long sg) s False)) (e_signals e)\<rparr>))"

definition compute_ensemble :: "settings \<Rightarrow> libm \<Rightarrow> (string \<Rightarrow> (rat \<times> int) list res) \<Rightarrow> stance list res" where
  "compute_ensemble c m daily = rmap (\<lambda>s. rbind (daily s) (stance_of c m s)) (ENSEMBLE_SYMBOLS c)"

text \<open>A view with a time to live: the fresh value, else a new one, else the stale one.\<close>

definition cached_view :: "string \<Rightarrow> rat \<Rightarrow> 'a res \<Rightarrow> int \<Rightarrow> 'a cache \<Rightarrow> 'a response \<times> 'a cache" where
  "cached_view key ttl computed now st =
     (case cache_get st key ttl now of
        Some x \<Rightarrow> (Ok x, st)
      | None \<Rightarrow>
          (case computed of
             Inl e \<Rightarrow> ((case cache_get_stale st key of Some x \<Rightarrow> Ok x | None \<Rightarrow> Http 503), st)
           | Inr x \<Rightarrow> (Ok x, cache_set st key x now)))"

definition ensemble_state :: "settings \<Rightarrow> libm \<Rightarrow> (string \<Rightarrow> (rat \<times> int) list res) \<Rightarrow> int \<Rightarrow> stance list cache \<Rightarrow> stance list response \<times> stance list cache" where
  "ensemble_state c m daily = cached_view ''strategy_ensemble'' 3600 (compute_ensemble c m daily)"

text \<open>A view that answers with the stale value and computes a new one in the background, once per key at a
  time; the last component is the set of keys being computed.\<close>

definition stale_view :: "string \<Rightarrow> rat \<Rightarrow> 'a res \<Rightarrow> int \<Rightarrow> 'a cache \<times> string list \<Rightarrow> 'a response \<times> 'a cache \<times> string list" where
  "stale_view key ttl computed now s =
     (case s of (st, inflight) \<Rightarrow>
        (case cache_get st key ttl now of
           Some x \<Rightarrow> (Ok x, s)
         | None \<Rightarrow>
             (case cache_get_stale st key of
                Some x \<Rightarrow> (Ok x, st, if key \<in> set inflight then inflight else key # inflight)
              | None \<Rightarrow> (case computed of Inl e \<Rightarrow> (Http 503, s) | Inr x \<Rightarrow> (Ok x, cache_set st key x now, inflight)))))"

definition refresh_done :: "string \<Rightarrow> 'a res \<Rightarrow> int \<Rightarrow> 'a cache \<times> string list \<Rightarrow> 'a cache \<times> string list" where
  "refresh_done key computed now s =
     (case s of (st, inflight) \<Rightarrow>
        ((case computed of Inl e \<Rightarrow> st | Inr x \<Rightarrow> cache_set st key x now), removeAll key inflight))"

fun warm_caches :: "(string \<times> 'a res) list \<Rightarrow> int \<Rightarrow> 'a cache \<Rightarrow> 'a cache" where
  "warm_caches [] now st = st"
| "warm_caches ((key, computed) # ts) now st =
     warm_caches ts now (case computed of Inl e \<Rightarrow> st | Inr x \<Rightarrow> cache_set st key x now)"

section \<open>A request acts on the account of its session\<close>

lemma on_account_cases:
  assumes "on_account au route r s = (resp, s')" "au_enabled au"
  shows "s' = s \<and> (\<forall>x. resp \<noteq> Ok x) \<or> (\<exists>u. session_user au r = Some u \<and> route (u_account u) s = (resp, s'))"
  using assms by (auto simp: on_account_def auth_gate_def current_account_id_def split: option.splits if_splits)

lemma session_user_allowed: "session_user au r = Some u \<Longrightarrow> rq_user r = Some u \<and> lower (u_email u) \<in> set (au_emails au)"
  by (auto simp: session_user_def split: option.splits if_splits)

lemma place_order_row:
  assumes "place_order db oid a s sd ty q pr = Inr (db', i)"
  shows "\<exists>row. map_of (orders db') oid = Some row \<and> o_account row = a \<and> o_status row = PENDING \<and> o_side row = sd \<and>
    (\<forall>j. j \<noteq> oid \<longrightarrow> map_of (orders db') j = map_of (orders db) j) \<and>
    accounts db' = accounts db \<and> positions db' = positions db \<and> executions db' = executions db"
  using assms by (auto simp: place_order_def insert_order_def checked_def update_conv' split: option.splits if_splits)

text \<open>C12: With the login enabled, nobody orders for somebody else. Whatever a request to the order route carries,
  the database changes only if its session holds an allowed e-mail address, and then by exactly one pending
  order of the account of that session, with a positive quantity; all other orders, balances, positions and
  executions stay as they are.\<close>

theorem order_belongs_to_session_user:
  assumes "on_account au (post_order_route oid b) r db = (resp, db')" "au_enabled au" "db' \<noteq> db"
  shows "\<exists>u row. rq_user r = Some u \<and> lower (u_email u) \<in> set (au_emails au) \<and> 0 < ob_quantity b \<and>
    map_of (orders db') oid = Some row \<and> o_account row = u_account u \<and> o_status row = PENDING \<and>
    (\<forall>j. j \<noteq> oid \<longrightarrow> map_of (orders db') j = map_of (orders db) j) \<and>
    accounts db' = accounts db \<and> positions db' = positions db \<and> executions db' = executions db"
proof -
  obtain u where u: "session_user au r = Some u" and p: "post_order_route oid b (u_account u) db = (resp, db')"
    using on_account_cases [OF assms(1,2)] assms(3) by auto
  obtain sd ty i where "place_order db oid (u_account u) (ob_symbol b) sd ty (frepr (ob_quantity b)) (map_option frepr (ob_price b)) = Inr (db', i)"
    and "0 < ob_quantity b"
    using p assms(3) by (auto simp: post_order_route_def split: if_splits sum.splits)
  then show ?thesis using place_order_row session_user_allowed [OF u] by blast
qed

definition demo_login :: request where
  "demo_login = \<lparr>rq_path = ''/orders'', rq_html = False,
     rq_user = Some \<lparr>u_email = ''A@b.c'', u_account = ''demo'', u_name = ''A''\<rparr>\<rparr>"

definition demo_body :: order_body where
  "demo_body = \<lparr>ob_symbol = ''KRW-BTC'', ob_side = ''BUY'', ob_type = ''MARKET'', ob_quantity = 2, ob_price = None\<rparr>"

lemma demo_ordered: "\<exists>resp db'. on_account \<lparr>au_enabled = True, au_emails = [''a@b.c'']\<rparr> (post_order_route ''o2'' demo_body) demo_login demo_db = (resp, db')
    \<and> orders db' \<noteq> orders demo_db"
proof -
  have f: "frepr 2 = 2" by code_simp
  have l: "lower ''A@b.c'' = ''a@b.c''" by code_simp
  show ?thesis
    by (simp add: on_account_def auth_gate_def current_account_id_def session_user_def demo_login_def l is_public_def starts_with_def
        post_order_route_def demo_body_def f place_order_def insert_order_def demo_db_def numeric_def rhu_def checked_def)
qed

theorem order_belongs_to_session_user_witness:
  "\<exists>resp db' row. on_account \<lparr>au_enabled = True, au_emails = [''a@b.c'']\<rparr> (post_order_route ''o2'' demo_body) demo_login demo_db = (resp, db') \<and>
     map_of (orders db') ''o2'' = Some row \<and> o_account row = ''demo''"
proof -
  obtain resp db' where r: "on_account \<lparr>au_enabled = True, au_emails = [''a@b.c'']\<rparr> (post_order_route ''o2'' demo_body) demo_login demo_db = (resp, db')"
    and "orders db' \<noteq> orders demo_db" using demo_ordered by blast
  then have "db' \<noteq> demo_db" by auto
  from order_belongs_to_session_user [OF r _ this] r show ?thesis by (auto simp: demo_login_def)
qed

section \<open>The dashboard shows what the worker signals\<close>

abbreviation bare :: "loads \<Rightarrow> (trend_params \<times> trend_signal) list" where
  "bare ls \<equiv> map snd ls"

lemma update_all_loads:
  "update_loads m s close ls = Inr (ls', per) \<Longrightarrow> update_all m s close (bare ls) = Inr (bare ls', map snd per)"
proof (induction ls arbitrary: ls' per)
  case (Cons x ls)
  obtain n p sg where x: "x = (n, p, sg)" by (cases x)
  show ?case using Cons.prems Cons.IH by (auto simp: x)
qed simp

lemma rmap_map: "rmap f (map g xs) = rmap (\<lambda>x. f (g x)) xs"
  by (induction xs) simp_all

lemma rmap_parts:
  "rmap (\<lambda>(n, s, l). rbind (F s l) (\<lambda>p. Inr (n, p, z))) xs = Inr ys \<Longrightarrow>
     \<exists>ps. rmap (\<lambda>(n, s, l). F s l) xs = Inr ps \<and> map snd ys = map (\<lambda>p. (p, z)) ps"
proof (induction xs arbitrary: ys)
  case (Cons x xs)
  obtain n s l where x: "x = (n, s, l)" by (cases x)
  show ?case using Cons.prems Cons.IH by (auto simp: x)
qed simp

lemma combine_ones: "\<exists>w. combine [1, 1, 1] ts = Inr w"
  unfolding combine_def fsum_3 frepr_3 ddiv_def by simp

definition shows_targets :: "per_load option \<Rightarrow> rat \<Rightarrow> bool" where
  "shows_targets per w \<longleftrightarrow>
     (case per of None \<Rightarrow> w = 0 | Some ts \<Rightarrow> (\<exists>x. combine [1, 1, 1] (map snd ts) = Inr x \<and> w = fl x))"

lemma follow_prime:
  assumes "e_signals e = bare (lv_loads lv)" "e_weights e = [1, 1, 1]" "shows_targets per w"
    and "prime_symbol m s lv per (map fst cs) = Inr (lv', per')"
  shows "\<exists>e' w'. follow_candles m s e w cs = Inr (e', w') \<and> e_signals e' = bare (lv_loads lv') \<and> shows_targets per' w'"
  using assms
proof (induction cs arbitrary: e w lv per)
  case (Cons x cs)
  obtain close ts where x: "x = (close, ts)" by (cases x)
  from Cons.prems(4) x obtain ls p where u: "update_loads m s close (lv_loads lv) = Inr (ls, p)"
    and rest: "prime_symbol m s (lv\<lparr>lv_loads := ls\<rparr>) (Some p) (map fst cs) = Inr (lv', per')"
    by (auto simp: targets_def)
  obtain t where t: "combine [1, 1, 1] (map snd p) = Inr t" using combine_ones by blast
  have step: "combined_target m e s close = Inr (e\<lparr>e_signals := bare ls\<rparr>, t)"
    using update_all_loads [OF u] Cons.prems(1,2) t by (simp add: combined_target_def)
  have "\<exists>e' w'. follow_candles m s (e\<lparr>e_signals := bare ls\<rparr>) (fl t) cs = Inr (e', w') \<and>
      e_signals e' = bare (lv_loads lv') \<and> shows_targets per' w'"
    using Cons.prems(2) t by (intro Cons.IH [OF _ _ _ rest]) (simp_all add: shows_targets_def)
  then show ?case by (simp add: x step)
qed auto

lemma new_live_ensemble:
  assumes "new_live c syms [] = Inr lv"
  shows "\<exists>e. new_ensemble c [] [] = Inr e \<and> e_signals e = bare (lv_loads lv) \<and> e_weights e = [1, 1, 1]"
proof -
  let ?F = "\<lambda>s l. trend_params_of c s l"
  from assms obtain ys where ys: "rmap (\<lambda>(n, s, l). rbind (?F s l) (\<lambda>p. Inr (n, p, new_signal))) default_loads = Inr ys"
    and lv: "lv_loads lv = ys" by (auto simp: new_live_def default_loads_def default_specs_def)
  obtain ps where ps: "rmap (\<lambda>(n, s, l). ?F s l) default_loads = Inr ps" and b: "bare ys = map (\<lambda>p. (p, new_signal)) ps"
    using rmap_parts [OF ys] by blast
  have p: "rmap (\<lambda>(s, l). ?F s l) default_specs = Inr ps"
    using ps by (simp add: default_loads_def rmap_map case_prod_unfold)
  then have "length ps = 3" by (auto simp: default_specs_def)
  then show ?thesis using p b lv by (auto simp: new_ensemble_def default_specs_def numeral_3_eq_3)
qed

text \<open>C14: The stance that the dashboard shows is the one that the worker trades. If the signal worker, started on the
  same settings, warms up on the daily closes of a symbol, then the route computes a stance on the same closes,
  without an error: its trend states are those of the worker's loads, and its target weight is the equal-weighted
  combination of the targets of the worker's last bar, or 0 when there is no bar.\<close>

theorem dashboard_shows_worker_targets:
  assumes "new_live c syms [] = Inr lv" "prime_symbol m s lv None (map fst candles) = Inr (lv', per)"
  shows "\<exists>sn. stance_of c m s candles = Inr sn \<and>
    map (\<lambda>(sh, lo, st). st) (sn_speeds sn) = map (\<lambda>(n, p, sg). get_or (t_long sg) s False) (lv_loads lv') \<and>
    (case per of None \<Rightarrow> sn_target sn = 0
     | Some ts \<Rightarrow> \<exists>w. combine [1, 1, 1] (map snd ts) = Inr w \<and> sn_target sn = fl w)"
proof -
  obtain e where e: "new_ensemble c [] [] = Inr e" "e_signals e = bare (lv_loads lv)" "e_weights e = [1, 1, 1]"
    using new_live_ensemble [OF assms(1)] by blast
  obtain e' w where f: "follow_candles m s e 0 candles = Inr (e', w)" "e_signals e' = bare (lv_loads lv')" "shows_targets per w"
    using follow_prime [OF e(2,3) _ assms(2)] by (auto simp: shows_targets_def)
  show ?thesis using f(3) by (cases per) (simp_all add: stance_of_def e(1) f(1,2) shows_targets_def case_prod_unfold comp_def)
qed


lemma demo_warm:
  "case new_live default_settings [''B''] [] of Inl e \<Rightarrow> False
   | Inr lv \<Rightarrow> (case prime_symbol demo_libm ''B'' lv None [100, 101] of Inl e \<Rightarrow> False | Inr (lv', per) \<Rightarrow> map_option length per = Some 3)"
  by code_simp

theorem dashboard_shows_worker_targets_witness:
  "\<exists>lv lv' ts sn w. new_live default_settings [''B''] [] = Inr lv \<and>
     prime_symbol demo_libm ''B'' lv None [100, 101] = Inr (lv', Some ts) \<and> length ts = 3 \<and>
     stance_of default_settings demo_libm ''B'' [(100, 0), (101, 86400000000)] = Inr sn \<and>
     combine [1, 1, 1] (map snd ts) = Inr w \<and> sn_target sn = fl w"
proof -
  obtain lv lv' ts where l: "new_live default_settings [''B''] [] = Inr lv"
    and p: "prime_symbol demo_libm ''B'' lv None (map fst [(100, 0::int), (101, 86400000000)]) = Inr (lv', Some ts)" and n: "length ts = 3"
    using demo_warm by (auto split: sum.splits prod.splits)
  from dashboard_shows_worker_targets [OF l p] obtain sn w where
    "stance_of default_settings demo_libm ''B'' [(100, 0), (101, 86400000000)] = Inr sn"
    "combine [1, 1, 1] (map snd ts) = Inr w \<and> sn_target sn = fl w" by auto
  then show ?thesis using l p n
    by (intro exI [of _ lv] exI [of _ lv'] exI [of _ ts] exI [of _ sn] exI [of _ w]) simp
qed

section \<open>The watch list and its search\<close>

text \<open>Toggling twice restores the list of a user who has each row at most once.\<close>

lemma toggle_twice:
  assumes "toggle_watch m s a tab = (Ok b, tab')" "distinct tab"
  shows "\<exists>tab''. toggle_watch m s a tab' = (Ok (\<not> b), tab'') \<and> set tab'' = set tab \<and> distinct tab'"
  using assms by (auto simp: toggle_watch_def Let_def split: if_splits)

lemma toggle_others:
  assumes "toggle_watch m s a tab = (r, tab')" "a' \<noteq> a"
  shows "filter (\<lambda>(u, mk, sm). u = a') tab' = filter (\<lambda>(u, mk, sm). u = a') tab"
proof -
  have "filter (\<lambda>(u, mk, sm). u = a') (filter (\<lambda>x. x \<noteq> (a, m, sm')) tab) = filter (\<lambda>(u, mk, sm). u = a') tab" for sm'
    using assms(2) by (induction tab) auto
  then show ?thesis using assms by (auto simp: toggle_watch_def Let_def split: if_splits)
qed

lemma search_bounded: "length (merge_search_results rows watched query) \<le> 20"
  by (simp add: merge_search_results_def Let_def)

end
