(* ===== verification/Texts.thy ===== *)
theory Texts
  imports Prelude
begin

text \<open>
  The methods of \<open>str\<close> that several components use: \<open>strip\<close>, \<open>split\<close> with a separator of one
  character, \<open>split\<close> at blanks and the case mappings.  A text is the list of its bytes in
  UTF-8; blanks and letters with two cases are the ASCII ones.
\<close>

definition is_blank :: "char \<Rightarrow> bool" where
  "is_blank ch \<longleftrightarrow> ch \<in> set [CHR '' '', CHR 0x09, CHR 0x0A, CHR 0x0B, CHR 0x0C, CHR 0x0D]"

definition trim :: "string \<Rightarrow> string" where
  "trim s = rev (dropWhile is_blank (rev (dropWhile is_blank s)))"

fun split_on :: "char \<Rightarrow> string \<Rightarrow> string list" where
  "split_on sep [] = [[]]"
| "split_on sep (ch # s) =
     (if ch = sep then [] # split_on sep s
      else case split_on sep s of [] \<Rightarrow> [[ch]] | w # ws \<Rightarrow> (ch # w) # ws)"

text \<open>The parts of \<open>split\<close> that are not blank, as in \<open>[x.strip() for x in text.split(c) if x.strip()]\<close>.\<close>

definition parts :: "char \<Rightarrow> string \<Rightarrow> string list" where
  "parts sep s = filter (\<lambda>t. t \<noteq> '''') (map trim (split_on sep s))"

definition to_lower :: "char \<Rightarrow> char" where
  "to_lower ch = (let n = of_char ch :: nat in if 65 \<le> n \<and> n \<le> 90 then char_of (n + 32) else ch)"

definition to_upper :: "char \<Rightarrow> char" where
  "to_upper ch = (let n = of_char ch :: nat in if 97 \<le> n \<and> n \<le> 122 then char_of (n - 32) else ch)"

definition is_numeral :: "char \<Rightarrow> bool" where
  "is_numeral ch \<longleftrightarrow> (let n = of_char ch :: nat in 48 \<le> n \<and> n \<le> 57)"

text \<open>A text given by its bytes.\<close>

definition utf8 :: "nat list \<Rightarrow> string" where
  "utf8 = map char_of"

text \<open>\<open>n.startswith(s)\<close> and \<open>s in n\<close>.\<close>

definition begins :: "string \<Rightarrow> string \<Rightarrow> bool" where
  "begins n s \<longleftrightarrow> take (length s) n = s"

fun contains_text :: "string \<Rightarrow> string \<Rightarrow> bool" where
  "contains_text [] s \<longleftrightarrow> s = []"
| "contains_text (ch # n) s \<longleftrightarrow> begins (ch # n) s \<or> contains_text n s"

text \<open>The first occurrences, in their order: \<open>setdefault\<close> into a dictionary.\<close>

definition first_seen :: "'a list \<Rightarrow> 'a list" where
  "first_seen xs = rev (remdups (rev xs))"

lemma set_first_seen [simp]: "set (first_seen xs) = set xs"
  by (simp add: first_seen_def)

lemma distinct_first_seen [simp]: "distinct (first_seen xs)"
  by (simp add: first_seen_def)

text \<open>The separator does not occur in the parts, and joining them gives the text back.\<close>

lemma split_on_nonempty: "split_on sep s \<noteq> []"
  by (induction s) (auto split: list.splits)

lemma split_on_join: "concat (map (\<lambda>w. sep # w) (split_on sep s)) = sep # s"
  by (induction s) (auto split: list.splits simp: split_on_nonempty)

end
