(* ===== verification/Membership.thy ===== *)
theory Membership
  imports Texts
begin

text \<open>
  Point-in-time index membership: \<open>batch/rawdata/kr_index_membership.py\<close>, which turns a series of snapshots of an
  index into intervals of membership and events, and \<open>batch/rawdata/us_membership.py\<close>, which loads both from files.

  A snapshot is the list of the members of a day in the order in which the set is iterated; days are day numbers.
\<close>

type_synonym snapshot = "int \<times> string list"
type_synonym interval = "string \<times> int \<times> int"

datatype action = Add | Drop

type_synonym change = "int \<times> string \<times> action"

definition FAR :: int where "FAR = 766644"   \<comment> \<open>\<open>date(2099, 12, 31)\<close>\<close>

section \<open>Snapshots\<close>

text \<open>\<open>_snapshots\<close>: \<open>deposit\<close> is the answer of the exchange for a day; days with an empty answer are left out.\<close>

definition snapshots :: "(int \<Rightarrow> string list) \<Rightarrow> int list \<Rightarrow> snapshot list" where
  "snapshots deposit grid = filter (\<lambda>(d, ms). ms \<noteq> []) (map (\<lambda>d. (d, remdups (deposit d))) grid)"

text \<open>The grid of \<open>store_kr_membership\<close>: the days of the calendar (\<open>pandas.date_range\<close>) and today.\<close>

definition grid_of :: "int list \<Rightarrow> int \<Rightarrow> int list" where
  "grid_of calendar today = (if calendar = [] \<or> last calendar \<noteq> today then calendar @ [today] else calendar)"

section \<open>\<open>_diff\<close>\<close>

record diff_state =
  df_intervals :: "interval list"
  df_changes :: "change list"
  df_prev :: "string list"
  df_open :: "(string \<times> int) list"
  df_seen :: "(string \<times> int) list"

definition minus_members :: "string list \<Rightarrow> string list \<Rightarrow> string list" where
  "minus_members xs ys = filter (\<lambda>x. x \<notin> set ys) xs"

definition enter :: "int \<Rightarrow> diff_state \<Rightarrow> string \<Rightarrow> diff_state" where
  "enter d st s = st\<lparr>df_open := AList.update s d (df_open st),
     df_changes := df_changes st @ (if df_prev st \<noteq> [] then [(d, s, Add)] else [])\<rparr>"

text \<open>\<open>last_seen[sym]\<close> raises for a symbol without an entry.\<close>

definition leave :: "int \<Rightarrow> diff_state \<Rightarrow> string \<Rightarrow> diff_state res" where
  "leave d st s =
     (let st1 = st\<lparr>df_changes := df_changes st @ [(d, s, Drop)]\<rparr>
      in case map_of (df_open st1) s of
           None \<Rightarrow> Inr st1
         | Some start \<Rightarrow>
             (case map_of (df_seen st1) s of
                None \<Rightarrow> Inl (KeyError s)
              | Some seen \<Rightarrow> Inr (st1\<lparr>df_intervals := df_intervals st1 @ [(s, start, seen)], df_open := AList.delete s (df_open st1)\<rparr>)))"

definition mark_seen :: "int \<Rightarrow> diff_state \<Rightarrow> string \<Rightarrow> diff_state" where
  "mark_seen d st s = st\<lparr>df_seen := AList.update s d (df_seen st)\<rparr>"

definition diff_step :: "diff_state \<Rightarrow> snapshot \<Rightarrow> diff_state res" where
  "diff_step st snap =
     (case snap of (d, cur) \<Rightarrow>
        rbind (rfold (leave d) (foldl (enter d) st (minus_members cur (df_prev st))) (minus_members (df_prev st) cur)) (\<lambda>st2.
          Inr ((foldl (mark_seen d) st2 cur)\<lparr>df_prev := cur\<rparr>)))"

definition empty_diff :: diff_state where
  "empty_diff = \<lparr>df_intervals = [], df_changes = [], df_prev = [], df_open = [], df_seen = []\<rparr>"

definition diff_snaps :: "snapshot list \<Rightarrow> (interval list \<times> change list) res" where
  "diff_snaps snaps =
     rbind (rfold diff_step empty_diff snaps) (\<lambda>st.
       Inr (df_intervals st @ map (\<lambda>(s, start). (s, start, FAR)) (df_open st), df_changes st))"

text \<open>The rows that are stored for the indices, and the number of intervals; nothing stored at all is an error.\<close>

definition store_kr_membership ::
  "(string \<Rightarrow> int \<Rightarrow> string list) \<Rightarrow> int list \<Rightarrow> int \<Rightarrow> string list \<Rightarrow> (string \<times> interval list \<times> change list) list res" where
  "store_kr_membership deposit calendar today indices =
     rbind (rmap (\<lambda>nm. let snaps = snapshots (deposit nm) (grid_of calendar today)
                      in if snaps = [] then Inr (nm, [], [])
                         else rbind (diff_snaps snaps) (\<lambda>(iv, ch). Inr (nm, iv, ch))) indices) (\<lambda>rows.
       if list_all (\<lambda>(nm, iv, ch). iv = []) rows then Inl (RuntimeError ''no interval'') else Inr rows)"

section \<open>The reference\<close>

text \<open>The members on a day according to the intervals, and the members after the events up to a day.\<close>

definition member_at :: "interval list \<Rightarrow> int \<Rightarrow> string \<Rightarrow> bool" where
  "member_at ivs d s \<longleftrightarrow> list_ex (\<lambda>(x, a, b). x = s \<and> a \<le> d \<and> d \<le> b) ivs"

fun replay_change :: "string set \<Rightarrow> change \<Rightarrow> string set" where
  "replay_change ms (d, s, Add) = insert s ms"
| "replay_change ms (d, s, Drop) = ms - {s}"

definition members_after :: "string set \<Rightarrow> change list \<Rightarrow> int \<Rightarrow> string set" where
  "members_after base chs d = foldl replay_change base (filter (\<lambda>c. fst c \<le> d) chs)"

section \<open>Lemmas\<close>

lemma foldl_enter:
  "foldl (enter d) st xs = st\<lparr>df_open := foldl (\<lambda>m s. AList.update s d m) (df_open st) xs,
     df_changes := df_changes st @ (if df_prev st \<noteq> [] then map (\<lambda>s. (d, s, Add)) xs else [])\<rparr>"
  by (induction xs arbitrary: st) (simp_all add: enter_def)

lemma foldl_mark_seen: "foldl (mark_seen d) st xs = st\<lparr>df_seen := foldl (\<lambda>m s. AList.update s d m) (df_seen st) xs\<rparr>"
  by (induction xs arbitrary: st) (simp_all add: mark_seen_def)

lemma foldl_update: "map_of (foldl (\<lambda>m s. AList.update s d m) m xs) s = (if s \<in> set xs then Some d else map_of m s)"
  by (induction xs arbitrary: m) (auto simp: update_conv')

lemma foldl_update_distinct: "distinct (map fst m) \<Longrightarrow> distinct (map fst (foldl (\<lambda>m s. AList.update s d m) m xs))"
  by (induction xs arbitrary: m) (auto simp: distinct_update)

lemma foldl_delete: "map_of (foldl (\<lambda>m s. AList.delete s m) m xs) s = (if s \<in> set xs then None else map_of m s)"
  by (induction xs arbitrary: m) (auto simp: delete_conv')

lemma foldl_delete_distinct: "distinct (map fst m) \<Longrightarrow> distinct (map fst (foldl (\<lambda>m s. AList.delete s m) m xs))"
  by (induction xs arbitrary: m) (auto simp: distinct_delete)

lemma rfold_leave:
  assumes "distinct xs" "\<And>s. s \<in> set xs \<Longrightarrow> map_of (df_open st) s \<noteq> None \<and> map_of (df_seen st) s \<noteq> None"
  shows "rfold (leave d) st xs = Inr (st\<lparr>
     df_intervals := df_intervals st @ map (\<lambda>s. (s, the (map_of (df_open st) s), the (map_of (df_seen st) s))) xs,
     df_open := foldl (\<lambda>m s. AList.delete s m) (df_open st) xs,
     df_changes := df_changes st @ map (\<lambda>s. (d, s, Drop)) xs\<rparr>)"
  using assms
proof (induction xs arbitrary: st)
  case (Cons x xs)
  obtain a b where ab: "map_of (df_open st) x = Some a" "map_of (df_seen st) x = Some b" using Cons.prems(2) [of x] by auto
  let ?st = "st\<lparr>df_changes := df_changes st @ [(d, x, Drop)], df_intervals := df_intervals st @ [(x, a, b)],
      df_open := AList.delete x (df_open st)\<rparr>"
  have step: "leave d st x = Inr ?st" by (simp add: leave_def ab)
  have "rfold (leave d) ?st xs = Inr (?st\<lparr>
     df_intervals := df_intervals ?st @ map (\<lambda>s. (s, the (map_of (df_open ?st) s), the (map_of (df_seen ?st) s))) xs,
     df_open := foldl (\<lambda>m s. AList.delete s m) (df_open ?st) xs,
     df_changes := df_changes ?st @ map (\<lambda>s. (d, s, Drop)) xs\<rparr>)"
    using Cons.prems by (intro Cons.IH) (auto simp: delete_conv')
  moreover have "map (\<lambda>s. (s, the (map_of (AList.delete x (df_open st)) s), the (map_of (df_seen st) s))) xs =
      map (\<lambda>s. (s, the (map_of (df_open st) s), the (map_of (df_seen st) s))) xs"
    using Cons.prems(1) by (intro map_cong) (auto simp: delete_conv')
  ultimately show ?case by (simp add: step ab)
qed simp

text \<open>The invariant of the loop after the snapshots \<open>past\<close>.\<close>

definition diff_inv :: "snapshot list \<Rightarrow> diff_state \<Rightarrow> bool" where
  "diff_inv past st \<longleftrightarrow>
     df_prev st = (if past = [] then [] else snd (last past)) \<and>
     distinct (map fst (df_open st)) \<and> dom (map_of (df_open st)) = set (df_prev st) \<and>
     (\<forall>s \<in> set (df_prev st). map_of (df_seen st) s = Some (fst (last past))) \<and>
     (\<forall>s a. map_of (df_open st) s = Some a \<longrightarrow> a \<le> fst (last past)) \<and>
     (\<forall>(s, a, b) \<in> set (df_intervals st). past \<noteq> [] \<and> b \<le> fst (last past)) \<and>
     (\<forall>(d, s, c) \<in> set (df_changes st). past \<noteq> [] \<and> d \<le> fst (last past)) \<and>
     (\<forall>(d, ms) \<in> set past. \<forall>s. s \<in> set ms \<longleftrightarrow>
        member_at (df_intervals st) d s \<or> (\<exists>a. map_of (df_open st) s = Some a \<and> a \<le> d)) \<and>
     (past \<noteq> [] \<longrightarrow> (\<forall>(d, ms) \<in> set past. members_after (set (snd (hd past))) (df_changes st) d = set ms))"

lemma replay_adds: "foldl replay_change ms (map (\<lambda>s. (d, s, Add)) xs) = ms \<union> set xs"
  by (induction xs arbitrary: ms) auto

lemma replay_drops: "foldl replay_change ms (map (\<lambda>s. (d, s, Drop)) xs) = ms - set xs"
  by (induction xs arbitrary: ms) auto

lemma member_at_append: "member_at (xs @ ys) d s \<longleftrightarrow> member_at xs d s \<or> member_at ys d s"
  by (simp add: member_at_def)

lemma diff_step_inv:
  assumes inv: "diff_inv past st" and new: "past \<noteq> [] \<Longrightarrow> fst (last past) < d" and cur: "cur \<noteq> []" "distinct cur"
    and past: "\<forall>(x, ms) \<in> set past. distinct ms \<and> ms \<noteq> [] \<and> x \<le> fst (last past)"
  shows "\<exists>st'. diff_step st (d, cur) = Inr st' \<and> diff_inv (past @ [(d, cur)]) st'"
proof -
  let ?prev = "df_prev st"
  define news where "news = minus_members cur ?prev"
  define gone where "gone = minus_members ?prev cur"
  define L where "L = fst (last past)"
  have prev: "?prev = (if past = [] then [] else snd (last past))" and dist: "distinct (map fst (df_open st))"
    and dom_open: "dom (map_of (df_open st)) = set ?prev" and seen: "\<forall>s \<in> set ?prev. map_of (df_seen st) s = Some L"
    and start: "\<forall>s a. map_of (df_open st) s = Some a \<longrightarrow> a \<le> L"
    and ivs: "\<forall>(s, a, b) \<in> set (df_intervals st). past \<noteq> [] \<and> b \<le> L" and chs: "\<forall>(x, s, c) \<in> set (df_changes st). past \<noteq> [] \<and> x \<le> L"
    and covers: "\<forall>(x, ms) \<in> set past. \<forall>s. s \<in> set ms \<longleftrightarrow>
        member_at (df_intervals st) x s \<or> (\<exists>a. map_of (df_open st) s = Some a \<and> a \<le> x)"
    and after: "past \<noteq> [] \<longrightarrow> (\<forall>(x, ms) \<in> set past. members_after (set (snd (hd past))) (df_changes st) x = set ms)"
    using inv unfolding diff_inv_def L_def by - (elim conjE, assumption)+
  have pne: "?prev \<noteq> [] \<longleftrightarrow> past \<noteq> []" and pdist: "distinct ?prev" 
    using bspec [OF past last_in_set] prev by (auto simp: case_prod_unfold)
  define st1 where "st1 = foldl (enter d) st news"
  have open1: "map_of (df_open st1) s = (if s \<in> set news then Some d else map_of (df_open st) s)" for s
    by (simp add: st1_def foldl_enter foldl_update)
  have gd: "distinct gone" "distinct news" using pdist cur(2) by (simp_all add: gone_def news_def minus_members_def)
  have gone_open: "map_of (df_open st1) s = map_of (df_open st) s \<and> map_of (df_open st) s \<noteq> None \<and> map_of (df_seen st1) s = Some L"
    if "s \<in> set gone" for s
  proof -
    have p: "s \<in> set ?prev" "s \<notin> set news" using that by (auto simp: gone_def news_def minus_members_def)
    moreover have "df_seen st1 = df_seen st" by (simp add: st1_def foldl_enter)
    ultimately show ?thesis using dom_open seen open1 [of s] by auto
  qed
  define closed where "closed = map (\<lambda>s. (s, the (map_of (df_open st) s), L)) gone"
  define st2 where "st2 = st1\<lparr>df_intervals := df_intervals st @ closed,
     df_open := foldl (\<lambda>m s. AList.delete s m) (df_open st1) gone, df_changes := df_changes st1 @ map (\<lambda>s. (d, s, Drop)) gone\<rparr>"
  have closed: "map (\<lambda>s. (s, the (map_of (df_open st1) s), the (map_of (df_seen st1) s))) gone = closed"
    using gone_open by (simp add: closed_def)
  have "df_intervals st1 = df_intervals st" by (simp add: st1_def foldl_enter)
  with rfold_leave [of gone st1 d] gd(1) gone_open have leaves: "rfold (leave d) st1 gone = Inr st2"
    by (simp add: st2_def closed)
  define st3 where "st3 = (foldl (mark_seen d) st2 cur)\<lparr>df_prev := cur\<rparr>"
  have step: "diff_step st (d, cur) = Inr st3"
    using leaves by (simp add: diff_step_def st1_def st3_def news_def gone_def)
  have open3: "map_of (df_open st3) s = (if s \<in> set gone then None else if s \<in> set news then Some d else map_of (df_open st) s)" for s
    by (simp add: st3_def foldl_mark_seen st2_def foldl_delete open1)
  have ivs3: "df_intervals st3 = df_intervals st @ closed" by (simp add: st3_def foldl_mark_seen st2_def)
  have chs3: "df_changes st3 = df_changes st @ (if past \<noteq> [] then map (\<lambda>s. (d, s, Add)) news else []) @ map (\<lambda>s. (d, s, Drop)) gone"
    using pne by (simp add: st3_def foldl_mark_seen st2_def st1_def foldl_enter)
  have gone_past: "past \<noteq> []" if "s \<in> set gone" for s using that pne by (auto simp: gone_def minus_members_def)
  have member_closed: "member_at closed x s \<longleftrightarrow> (s \<in> set gone \<and> (\<exists>a. map_of (df_open st) s = Some a \<and> a \<le> x) \<and> x \<le> L)" for x s
    using gone_open by (fastforce simp: member_at_def closed_def list_ex_iff)
  have dom3: "dom (map_of (df_open st3)) = set cur"
    using dom_open by (auto simp: dom_def open3 gone_def news_def minus_members_def split: if_splits)
  have old: "member_at (df_intervals st3) x s \<or> (\<exists>a. map_of (df_open st3) s = Some a \<and> a \<le> x) \<longleftrightarrow> s \<in> set ms"
    if m: "(x, ms) \<in> set past" for x ms s
  proof -
    have x: "x \<le> L" using past m by (auto simp: L_def)
    have "past \<noteq> []" using m by auto
    with x new have "x < d" by (simp add: L_def)
    have "s \<in> set ms \<longleftrightarrow> member_at (df_intervals st) x s \<or> (\<exists>a. map_of (df_open st) s = Some a \<and> a \<le> x)"
      using covers m by fast
    moreover have "s \<notin> set news" if "map_of (df_open st) s = Some a" for a
      using that dom_open by (auto simp: news_def minus_members_def)
    ultimately show ?thesis using x \<open>x < d\<close> by (auto simp: ivs3 member_at_append member_closed open3)
  qed
  have now: "s \<in> set cur \<longleftrightarrow> member_at (df_intervals st3) d s \<or> (\<exists>a. map_of (df_open st3) s = Some a \<and> a \<le> d)" for s
  proof -
    have "\<not> member_at (df_intervals st3) d s"
      using ivs new gone_past by (auto simp: ivs3 member_at_append member_closed L_def) (auto simp: member_at_def list_ex_iff)
    moreover have "a \<le> d" if "map_of (df_open st3) s = Some a" for a
      using that start new dom_open pne by (fastforce simp: open3 L_def split: if_splits)
    moreover have "s \<in> set cur \<longleftrightarrow> (\<exists>a. map_of (df_open st3) s = Some a)" unfolding dom3 [symmetric] by (simp add: domIff)
    ultimately show ?thesis by blast
  qed
  have seen3: "\<forall>s \<in> set cur. map_of (df_seen st3) s = Some d"
    by (simp add: st3_def foldl_mark_seen foldl_update)
  have start3: "a \<le> d" if "map_of (df_open st3) s = Some a" for s a
    using that start new dom_open pne by (fastforce simp: open3 L_def split: if_splits)
  have ends3: "b \<le> d" if "(s, a, b) \<in> set (df_intervals st3)" for s a b
    using that ivs new gone_past by (fastforce simp: ivs3 closed_def L_def)
  have days3: "x \<le> d" if "(x, s, c) \<in> set (df_changes st3)" for x s c
    using that chs new by (fastforce simp: chs3 L_def split: if_splits)
  have dist3: "distinct (map fst (df_open st3))"
    using dist by (simp add: st3_def foldl_mark_seen st2_def st1_def foldl_enter foldl_update_distinct foldl_delete_distinct)
  have after_old: "members_after base (df_changes st3) x = members_after base (df_changes st) x" if "x \<le> L" "past \<noteq> []" for base x
    using that new by (simp add: members_after_def chs3 L_def)
  have after_new: "members_after (set (snd (hd past))) (df_changes st3) d = set cur" if p: "past \<noteq> []"
  proof -
    have all: "filter (\<lambda>c. fst c \<le> d) (df_changes st) = df_changes st" "filter (\<lambda>c. fst c \<le> L) (df_changes st) = df_changes st"
      using chs new p by (auto intro!: filter_True simp: L_def)
    have "members_after (set (snd (hd past))) (df_changes st) L = set ?prev"
      using bspec [OF mp [OF after p] last_in_set [OF p]] p prev by (simp add: L_def case_prod_unfold)
    then have "foldl replay_change (set (snd (hd past))) (df_changes st) = set ?prev" by (simp add: members_after_def all)
    then have "members_after (set (snd (hd past))) (df_changes st3) d = (set ?prev \<union> set news) - set gone"
      using p by (simp add: members_after_def chs3 all replay_adds replay_drops)
    then show ?thesis by (auto simp: news_def gone_def minus_members_def)
  qed
  have "df_prev st3 = cur" by (simp add: st3_def)
  moreover have "(\<forall>(x, ms) \<in> set (past @ [(d, cur)]). members_after (set (snd (hd (past @ [(d, cur)])))) (df_changes st3) x = set ms)"
  proof (cases "past = []")
    case True
    then have "df_changes st = []" using chs by (cases "df_changes st") auto
    then have "df_changes st3 = []" using True pne by (simp add: chs3 gone_def minus_members_def)
    then show ?thesis using True by (simp add: members_after_def)
  next
    case False
    have "members_after (set (snd (hd past))) (df_changes st3) x = set ms" if "(x, ms) \<in> set past" for x ms
      using that after past after_old [of x] False by (fastforce simp: L_def)
    then show ?thesis using False after_new by auto
  qed
  moreover have "(\<forall>(x, ms) \<in> set (past @ [(d, cur)]). \<forall>s. s \<in> set ms \<longleftrightarrow>
        member_at (df_intervals st3) x s \<or> (\<exists>a. map_of (df_open st3) s = Some a \<and> a \<le> x))"
    using old now by auto
  ultimately have "diff_inv (past @ [(d, cur)]) st3"
    using seen3 start3 ends3 days3 dist3 dom3 by (auto simp: diff_inv_def)
  then show ?thesis using step by blast
qed

lemma diff_run_inv:
  assumes "diff_inv past st" "sorted_wrt (<) (map fst (past @ snaps))" "\<forall>(x, ms) \<in> set (past @ snaps). distinct ms \<and> ms \<noteq> []"
  shows "\<exists>st'. rfold diff_step st snaps = Inr st' \<and> diff_inv (past @ snaps) st'"
  using assms
proof (induction snaps arbitrary: past st)
  case (Cons snap snaps)
  obtain d cur where snap: "snap = (d, cur)" by (cases snap)
  have le: "x \<le> fst (last past)" if m: "(x, ms) \<in> set past" for x ms
  proof -
    obtain p y where p: "past = p @ [y]" using m by (cases past rule: rev_cases) auto
    then show ?thesis using m Cons.prems(2) by (fastforce simp: sorted_wrt_append)
  qed
  have "fst (last past) < d" if "past \<noteq> []"
    using that Cons.prems(2) last_in_set [OF that] by (auto simp: snap sorted_wrt_append)
  moreover have "\<forall>(x, ms) \<in> set past. distinct ms \<and> ms \<noteq> [] \<and> x \<le> fst (last past)" using Cons.prems(3) le by fastforce
  ultimately obtain st1 where s1: "diff_step st (d, cur) = Inr st1" "diff_inv (past @ [(d, cur)]) st1"
    using diff_step_inv [OF Cons.prems(1), of d cur] Cons.prems(3) by (auto simp: snap)
  show ?case using Cons.IH [OF s1(2)] Cons.prems(2,3) s1(1) by (simp add: snap)
qed simp

section \<open>Intervals and events describe the snapshots\<close>

text \<open>C31: The tables of the index membership are the snapshots, both ways of reading them. For snapshots in the order
  of time the conversion succeeds, and on every day of a snapshot the symbols inside some stored interval are
  exactly its members, as are the symbols that the events up to that day leave of the first snapshot. Nobody is a
  member before joining, and a symbol that left is out although a later return opens a new interval.\<close>

theorem membership_roundtrip:
  assumes "sorted_wrt (<) (map fst snaps)" "\<forall>(x, ms) \<in> set snaps. distinct ms \<and> ms \<noteq> [] \<and> x \<le> FAR"
  shows "\<exists>ivs chs. diff_snaps snaps = Inr (ivs, chs) \<and>
    (\<forall>(d, ms) \<in> set snaps. {s. member_at ivs d s} = set ms \<and> members_after (set (snd (hd snaps))) chs d = set ms)"
proof -
  have "diff_inv [] empty_diff" by (simp add: diff_inv_def empty_diff_def)
  then obtain st where run: "rfold diff_step empty_diff snaps = Inr st" and inv: "diff_inv snaps st"
    using diff_run_inv [of "[]" empty_diff snaps] assms by auto
  define opens where "opens = map (\<lambda>(s, start). (s, start, FAR)) (df_open st)"
  have open_at: "member_at opens d s \<longleftrightarrow> (\<exists>a. map_of (df_open st) s = Some a \<and> a \<le> d)" if "d \<le> FAR" for d s
  proof -
    have "distinct (map fst (df_open st))" using inv by (simp add: diff_inv_def)
    then have "(s, a) \<in> set (df_open st) \<longleftrightarrow> map_of (df_open st) s = Some a" for a by simp
    moreover have "member_at opens d s \<longleftrightarrow> (\<exists>a. (s, a) \<in> set (df_open st) \<and> a \<le> d)"
      using that by (force simp: opens_def member_at_def list_ex_iff)
    ultimately show ?thesis by metis
  qed
  have "{s. member_at (df_intervals st @ opens) d s} = set ms" if "(d, ms) \<in> set snaps" for d ms
  proof -
    have "s \<in> set ms \<longleftrightarrow> member_at (df_intervals st) d s \<or> (\<exists>a. map_of (df_open st) s = Some a \<and> a \<le> d)" for s
      using inv that unfolding diff_inv_def by fast
    moreover have "d \<le> FAR" using assms(2) that by auto
    ultimately show ?thesis by (auto simp: member_at_append open_at)
  qed
  moreover have "members_after (set (snd (hd snaps))) (df_changes st) d = set ms" if "(d, ms) \<in> set snaps" for d ms
    using inv that unfolding diff_inv_def by fastforce
  ultimately show ?thesis by (auto simp: diff_snaps_def run opens_def)
qed

definition demo_snaps :: "snapshot list" where
  "demo_snaps = [(1, [''a'', ''b'']), (5, [''b'', ''c'']), (9, [''c'', ''a''])]"

theorem membership_roundtrip_witness:
  "\<exists>ivs chs. diff_snaps demo_snaps = Inr (ivs, chs) \<and> {s. member_at ivs 9 s} = {''c'', ''a''} \<and> {s. member_at ivs 5 s} = {''b'', ''c''} \<and>
     members_after {''a'', ''b''} chs 9 = {''c'', ''a''}"
proof -
  have "sorted_wrt (<) (map fst demo_snaps)" "\<forall>(x, ms) \<in> set demo_snaps. distinct ms \<and> ms \<noteq> [] \<and> x \<le> FAR"
    by (simp_all add: demo_snaps_def FAR_def)
  from membership_roundtrip [OF this] show ?thesis by (auto simp: demo_snaps_def)
qed

section \<open>The S\&P 500 files\<close>

text \<open>A row of the file of periods: the ticker, its first and, unless it is a member still, last day; the days are
  parsed by \<open>date.fromisoformat\<close>, which is the argument \<open>day_of\<close>.\<close>

definition period_row :: "(string \<Rightarrow> int res) \<Rightarrow> string \<times> string \<times> string \<Rightarrow> interval list res" where
  "period_row day_of r =
     (case r of (t, a, b) \<Rightarrow>
        if a = '''' then Inr []
        else rbind (day_of a) (\<lambda>start. rbind (if b = '''' then Inr FAR else day_of b) (\<lambda>stop. Inr [(trim t, start, stop)])))"

definition tickers :: "string \<Rightarrow> string list" where
  "tickers s = parts CHR '','' s"

definition event_row :: "(string \<Rightarrow> int res) \<Rightarrow> string \<times> string \<times> string \<Rightarrow> change list res" where
  "event_row day_of r =
     (case r of (day, add, remove) \<Rightarrow>
        rbind (day_of day) (\<lambda>d. Inr (map (\<lambda>t. (d, t, Add)) (tickers add) @ map (\<lambda>t. (d, t, Drop)) (tickers remove))))"

text \<open>What has been stored, and the exception if there was one: the periods are stored before the events are read.\<close>

definition store_sp500 ::
  "(string \<Rightarrow> int res) \<Rightarrow> (string \<times> string \<times> string) list \<Rightarrow> (string \<times> string \<times> string) list \<Rightarrow>
   (interval list \<times> change list) \<times> exc option" where
  "store_sp500 day_of periods events =
     (case rmap (period_row day_of) periods of
        Inl e \<Rightarrow> (([], []), Some e)
      | Inr mem \<Rightarrow>
          if concat mem = [] then (([], []), Some (RuntimeError ''no interval''))
          else case rmap (event_row day_of) events of
                 Inl e \<Rightarrow> ((concat mem, []), Some e)
               | Inr ev \<Rightarrow> ((concat mem, concat ev), None))"

end
