(* ===== verification/Migrations.thy ===== *)
theory Migrations
  imports Texts
begin

text \<open>
  The schema migrations of \<open>common/migrations.py\<close> and \<open>scripts/init_db.py\<close>: the names of the
  files, the statements of a file, and one boot against PostgreSQL, where a file and its entry in
  the history are one transaction, and against ClickHouse, which has no transactions.  A database
  is its state and the history of the applied versions; the server that executes a statement and
  may fail is an argument, another one for every boot.
\<close>

section \<open>The files\<close>

definition statements :: "string \<Rightarrow> string list" where
  "statements sql = parts CHR '';'' sql"

definition is_word :: "char \<Rightarrow> bool" where
  "is_word ch \<longleftrightarrow> (let n = of_char ch :: nat in is_numeral ch \<or> 65 \<le> n \<and> n \<le> 90 \<or> 97 \<le> n \<and> n \<le> 122 \<or> n = 95)"

definition numeral_value :: "string \<Rightarrow> nat" where
  "numeral_value = foldl (\<lambda>n ch. 10 * n + (of_char ch - 48)) 0"

text \<open>\<open>_FILE_RE\<close>, four digits, an underscore, word characters and \<open>.sql\<close>: the version of a file.\<close>

definition version_of :: "string \<Rightarrow> nat option" where
  "version_of name =
     (let ver = take 4 name; rest = drop 4 name; word = take (length rest - 5) (drop 1 rest)
      in if length ver = 4 \<and> list_all is_numeral ver \<and> take 1 rest = ''_'' \<and> word \<noteq> [] \<and> list_all is_word word \<and>
            rest = ''_'' @ word @ ''.sql''
         then Some (numeral_value ver) else None)"

type_synonym migration = "nat \<times> string \<times> string"

definition add_file :: "migration list \<Rightarrow> string \<times> string \<Rightarrow> migration list res" where
  "add_file vs f =
     (case version_of (fst f) of
        None \<Rightarrow> Inl (ValueError (fst f))
      | Some ver \<Rightarrow> if ver \<in> fst ` set vs then Inl (ValueError (fst f)) else Inr (vs @ [(ver, f)]))"

text \<open>The directory is the list of its \<open>.sql\<close> files with their contents, in the order of the names.\<close>

definition migration_files :: "(string \<times> string) list \<Rightarrow> migration list res" where
  "migration_files dir = rbind (rfold add_file [] dir) (\<lambda>vs. Inr (sort_key fst vs))"

section \<open>PostgreSQL\<close>

record 's database =
  d_state :: 's
  d_history :: "(nat \<times> string) list"

text \<open>How the server answers during one boot: the state after a statement or an exception, and whether the insertion
  into the history, or the commit after it, fails.\<close>

record 's server =
  v_exec :: "string \<Rightarrow> 's \<Rightarrow> 's res"
  v_record :: "nat \<Rightarrow> exc option"

text \<open>\<open>with conn.transaction()\<close>: all statements and the entry, or an exception and nothing.\<close>

definition apply_file :: "'s server \<Rightarrow> migration \<Rightarrow> 's database \<Rightarrow> 's database res" where
  "apply_file sv f db =
     (case f of (ver, name, sql) \<Rightarrow>
        rbind (rfold (\<lambda>s stmt. v_exec sv stmt s) (d_state db) (statements sql)) (\<lambda>s.
          case v_record sv ver of
            Some e \<Rightarrow> Inl e
          | None \<Rightarrow> Inr \<lparr>d_state = s, d_history = d_history db @ [(ver, name)]\<rparr>))"

text \<open>The loop over the files: the database that is left, and the names of the applied files or the exception.\<close>

fun apply_files :: "'s server \<Rightarrow> nat set \<Rightarrow> migration list \<Rightarrow> 's database \<Rightarrow> string list \<Rightarrow> 's database \<times> string list res" where
  "apply_files sv done [] db applied = (db, Inr applied)"
| "apply_files sv done (f # fs) db applied =
     (if fst f \<in> done then apply_files sv done fs db applied
      else case apply_file sv f db of
             Inl e \<Rightarrow> (db, Inl e)
           | Inr db' \<Rightarrow> apply_files sv done fs db' (applied @ [fst (snd f)]))"

definition apply_postgres :: "'s server \<Rightarrow> (string \<times> string) list \<Rightarrow> 's database \<Rightarrow> 's database \<times> string list res" where
  "apply_postgres sv dir db =
     (case migration_files dir of
        Inl e \<Rightarrow> (db, Inl e)
      | Inr fs \<Rightarrow> apply_files sv (fst ` set (d_history db)) fs db [])"

definition apply_postgres_repair :: "'s server \<Rightarrow> string \<Rightarrow> 's database \<Rightarrow> 's database \<times> unit res" where
  "apply_postgres_repair sv sql db =
     (case rfold (\<lambda>s stmt. v_exec sv stmt s) (d_state db) (statements sql) of
        Inl e \<Rightarrow> (db, Inl e)
      | Inr s \<Rightarrow> (db\<lparr>d_state := s\<rparr>, Inr ()))"

section \<open>ClickHouse\<close>

text \<open>A statement that fails may have been executed, when the answer was lost; so may the insertion into the history.\<close>

record 's node =
  k_command :: "string \<Rightarrow> 's \<Rightarrow> 's \<times> exc option"
  k_record :: "nat \<Rightarrow> bool \<times> exc option"

fun commands :: "'s node \<Rightarrow> string list \<Rightarrow> 's \<Rightarrow> 's \<times> exc option" where
  "commands nd [] s = (s, None)"
| "commands nd (x # xs) s =
     (case k_command nd x s of
        (s', Some e) \<Rightarrow> (s', Some e)
      | (s', None) \<Rightarrow> commands nd xs s')"

definition record_version :: "'s node \<Rightarrow> migration \<Rightarrow> (nat \<times> string) list \<Rightarrow> (nat \<times> string) list \<times> exc option" where
  "record_version nd f h =
     (case k_record nd (fst f) of (inserted, e) \<Rightarrow>
        (if inserted \<or> e = None then h @ [(fst f, fst (snd f))] else h, e))"

fun command_files :: "'s node \<Rightarrow> nat set \<Rightarrow> migration list \<Rightarrow> 's database \<Rightarrow> string list \<Rightarrow> 's database \<times> string list res" where
  "command_files nd done [] db applied = (db, Inr applied)"
| "command_files nd done (f # fs) db applied =
     (if fst f \<in> done then command_files nd done fs db applied
      else case commands nd (statements (snd (snd f))) (d_state db) of
             (s, Some e) \<Rightarrow> (db\<lparr>d_state := s\<rparr>, Inl e)
           | (s, None) \<Rightarrow>
               (case record_version nd f (d_history db) of
                  (h, Some e) \<Rightarrow> (\<lparr>d_state = s, d_history = h\<rparr>, Inl e)
                | (h, None) \<Rightarrow> command_files nd done fs \<lparr>d_state = s, d_history = h\<rparr> (applied @ [fst (snd f)])))"

definition apply_clickhouse :: "'s node \<Rightarrow> (string \<times> string) list \<Rightarrow> 's database \<Rightarrow> 's database \<times> string list res" where
  "apply_clickhouse nd dir db =
     (case migration_files dir of
        Inl e \<Rightarrow> (db, Inl e)
      | Inr fs \<Rightarrow> command_files nd (fst ` set (d_history db)) fs db [])"

section \<open>\<open>init_db\<close>\<close>

text \<open>\<open>with pool.connection()\<close> commits when its block ends and undoes everything when an exception leaves it.  The
  connection is in a transaction since the first statement of \<open>apply_postgres\<close>, so \<open>conn.transaction()\<close> only sets
  savepoints inside it.\<close>

definition with_connection :: "('d \<Rightarrow> 'd \<times> 'a res) \<Rightarrow> 'd \<Rightarrow> 'd \<times> 'a res" where
  "with_connection body db =
     (case body db of
        (db', Inl e) \<Rightarrow> (db, Inl e)
      | (db', Inr x) \<Rightarrow> (db', Inr x))"

definition boot_postgres :: "'s server \<Rightarrow> (string \<times> string) list \<Rightarrow> string \<Rightarrow> 's database \<Rightarrow> 's database \<times> string list res" where
  "boot_postgres sv dir repair =
     with_connection (\<lambda>db.
       case apply_postgres sv dir db of
         (db', Inl e) \<Rightarrow> (db', Inl e)
       | (db', Inr names) \<Rightarrow>
           (case apply_postgres_repair sv repair db' of
              (db'', Inl e) \<Rightarrow> (db'', Inl e)
            | (db'', Inr u) \<Rightarrow> (db'', Inr names)))"

text \<open>One run: both databases afterwards, and the exception that ended it.  A failure of PostgreSQL ends the run before
  ClickHouse is reached.\<close>

definition init_db ::
  "'s server \<Rightarrow> 't node \<Rightarrow> (string \<times> string) list \<Rightarrow> string \<Rightarrow> (string \<times> string) list \<Rightarrow> 's database \<times> 't database \<Rightarrow>
   ('s database \<times> 't database) \<times> unit res" where
  "init_db sv nd pg_dir repair ch_dir dbs =
     (case boot_postgres sv pg_dir repair (fst dbs) of
        (pg, Inl e) \<Rightarrow> ((pg, snd dbs), Inl e)
      | (pg, Inr names) \<Rightarrow>
          (case apply_clickhouse nd ch_dir (snd dbs) of
             (ch, Inl e) \<Rightarrow> ((pg, ch), Inl e)
           | (ch, Inr names') \<Rightarrow> ((pg, ch), Inr ())))"

section \<open>The files are applied once\<close>

lemma migration_files_distinct:
  assumes "migration_files dir = Inr fs"
  shows "distinct (map fst fs)" "sorted (map fst fs)"
proof -
  obtain vs where vs: "rfold add_file [] dir = Inr vs" "fs = sort_key fst vs" using assms by (auto simp: migration_files_def)
  have "distinct (map fst vs)" if "rfold add_file us dir = Inr vs" "distinct (map fst us)" for us
    using that by (induction dir arbitrary: us) (fastforce simp: add_file_def split: option.splits if_splits)+
  then have "distinct (map fst vs)" using vs(1) by simp
  then show "distinct (map fst fs)" "sorted (map fst fs)" by (simp_all add: vs(2) distinct_map)
qed

text \<open>What a database has been through: migrations and repairs, and the statements of them in their order.\<close>

datatype entry = Applied migration | Repaired string

fun entry_statements :: "entry \<Rightarrow> string list" where
  "entry_statements (Applied f) = statements (snd (snd f))"
| "entry_statements (Repaired sql) = statements sql"

fun entry_versions :: "entry \<Rightarrow> (nat \<times> string) list" where
  "entry_versions (Applied f) = [(fst f, fst (snd f))]"
| "entry_versions (Repaired sql) = []"

definition play :: "(string \<Rightarrow> 's \<Rightarrow> 's res) \<Rightarrow> 's \<Rightarrow> string list \<Rightarrow> 's res" where
  "play sem s stmts = rfold (\<lambda>s stmt. sem stmt s) s stmts"

definition is_log :: "(string \<Rightarrow> 's \<Rightarrow> 's res) \<Rightarrow> 's \<Rightarrow> entry list \<Rightarrow> 's database \<Rightarrow> bool" where
  "is_log sem s0 es db \<longleftrightarrow> play sem s0 (concat (map entry_statements es)) = Inr (d_state db) \<and>
     concat (map entry_versions es) = d_history db \<and> distinct (map fst (d_history db))"

definition faithful :: "(string \<Rightarrow> 's \<Rightarrow> 's res) \<Rightarrow> 's server \<Rightarrow> bool" where
  "faithful sem sv \<longleftrightarrow> (\<forall>stmt s s'. v_exec sv stmt s = Inr s' \<longrightarrow> sem stmt s = Inr s')"

lemma play_append: "play sem s (xs @ ys) = rbind (play sem s xs) (\<lambda>s'. play sem s' ys)"
  by (simp add: play_def rfold_append)

lemma play_simps [simp]: "play sem s [] = Inr s" "play sem s (x # xs) = rbind (sem x s) (\<lambda>s'. play sem s' xs)"
  by (simp_all add: play_def)

lemma faithful_play: "faithful sem sv \<Longrightarrow> rfold (\<lambda>s stmt. v_exec sv stmt s) s stmts = Inr s' \<Longrightarrow> play sem s stmts = Inr s'"
  unfolding play_def by (induction stmts arbitrary: s) (auto simp: faithful_def)

lemma apply_file_log:
  assumes "faithful sem sv" "apply_file sv f db = Inr db'" "is_log sem s0 es db" "fst f \<notin> fst ` set (d_history db)"
  shows "is_log sem s0 (es @ [Applied f]) db' \<and> d_history db' = d_history db @ [(fst f, fst (snd f))]"
proof -
  obtain s where s: "rfold (\<lambda>s stmt. v_exec sv stmt s) (d_state db) (statements (snd (snd f))) = Inr s"
      "db' = \<lparr>d_state = s, d_history = d_history db @ [(fst f, fst (snd f))]\<rparr>"
    using assms(2) by (auto simp: apply_file_def split: prod.splits option.splits)
  from faithful_play [OF assms(1) s(1)] show ?thesis
    using assms(3,4) by (auto simp: is_log_def s(2) play_append)
qed

lemma apply_files_log:
  assumes "faithful sem sv" "apply_files sv done fs db applied = (db', Inr names)" "is_log sem s0 es db"
    and "distinct (map fst fs)" "\<forall>f \<in> set fs. fst f \<notin> done \<longrightarrow> fst f \<notin> fst ` set (d_history db)"
  shows "is_log sem s0 (es @ map Applied (filter (\<lambda>f. fst f \<notin> done) fs)) db'"
    and "names = applied @ map (\<lambda>f. fst (snd f)) (filter (\<lambda>f. fst f \<notin> done) fs)"
proof -
  have "is_log sem s0 (es @ map Applied (filter (\<lambda>f. fst f \<notin> done) fs)) db' \<and>
      names = applied @ map (\<lambda>f. fst (snd f)) (filter (\<lambda>f. fst f \<notin> done) fs)"
    using assms(2-5)
  proof (induction fs arbitrary: db applied es)
    case (Cons f fs)
    show ?case
    proof (cases "fst f \<in> done")
      case True
      with Cons.prems Cons.IH [of db applied es] show ?thesis by simp
    next
      case False
      then obtain db1 where db1: "apply_file sv f db = Inr db1" "apply_files sv done fs db1 (applied @ [fst (snd f)]) = (db', Inr names)"
        using Cons.prems(1) by (auto split: sum.splits)
      have new: "fst f \<notin> fst ` set (d_history db)" using Cons.prems(4) False by simp
      from apply_file_log [OF assms(1) db1(1) Cons.prems(2) new]
      have l: "is_log sem s0 (es @ [Applied f]) db1" and h: "d_history db1 = d_history db @ [(fst f, fst (snd f))]" by auto
      have "\<forall>g \<in> set fs. fst g \<notin> done \<longrightarrow> fst g \<notin> fst ` set (d_history db1)"
        using Cons.prems(3,4) by (auto simp: h) (metis fst_conv image_eqI)
      with Cons.IH [OF db1(2) l] Cons.prems(3) False show ?thesis by simp
    qed
  qed simp
  then show "is_log sem s0 (es @ map Applied (filter (\<lambda>f. fst f \<notin> done) fs)) db'"
    "names = applied @ map (\<lambda>f. fst (snd f)) (filter (\<lambda>f. fst f \<notin> done) fs)" by blast+
qed

text \<open>A boot of PostgreSQL either commits everything or nothing.\<close>

record 's pg_boot =
  pb_server :: "'s server"
  pb_files :: "(string \<times> string) list"
  pb_repair :: string

definition run_boot :: "'s database \<Rightarrow> 's pg_boot \<Rightarrow> 's database" where
  "run_boot db b = fst (boot_postgres (pb_server b) (pb_files b) (pb_repair b) db)"

definition boot_succeeds :: "'s database \<Rightarrow> 's pg_boot \<Rightarrow> bool" where
  "boot_succeeds db b =
     (case boot_postgres (pb_server b) (pb_files b) (pb_repair b) db of (db', Inl e) \<Rightarrow> False | (db', Inr names) \<Rightarrow> True)"

text \<open>The reference: a boot that commits adds the files of its release whose versions are not yet recorded, in
  the order of the versions and with all their statements, and then its repair; one that fails adds nothing.\<close>

definition release_entries :: "nat set \<Rightarrow> 's pg_boot \<Rightarrow> entry list" where
  "release_entries done b =
     (case migration_files (pb_files b) of
        Inl e \<Rightarrow> []
      | Inr fs \<Rightarrow> map Applied (filter (\<lambda>f. fst f \<notin> done) fs) @ [Repaired (pb_repair b)])"

definition logged_versions :: "entry list \<Rightarrow> nat set" where
  "logged_versions es = fst ` set (concat (map entry_versions es))"

fun release_log :: "(bool \<times> 's pg_boot) list \<Rightarrow> entry list \<Rightarrow> entry list" where
  "release_log [] es = es"
| "release_log ((ok, b) # bs) es =
     release_log bs (if ok then es @ release_entries (logged_versions es) b else es)"

text \<open>Which boots of a history commit.\<close>

fun boot_outcomes :: "'s database \<Rightarrow> 's pg_boot list \<Rightarrow> (bool \<times> 's pg_boot) list" where
  "boot_outcomes db [] = []"
| "boot_outcomes db (b # bs) = (boot_succeeds db b, b) # boot_outcomes (run_boot db b) bs"

lemma logged_history: "is_log sem s0 es db \<Longrightarrow> logged_versions es = fst ` set (d_history db)"
  by (simp add: is_log_def logged_versions_def)

lemma committed_boot_log:
  assumes "faithful sem (pb_server b)" "is_log sem s0 es db"
    and run: "boot_postgres (pb_server b) (pb_files b) (pb_repair b) db = (db', Inr names)"
  shows "is_log sem s0 (es @ release_entries (logged_versions es) b) db'"
    and "\<exists>fs. migration_files (pb_files b) = Inr fs \<and> fst ` set fs \<subseteq> fst ` set (d_history db') \<and>
      names = map (\<lambda>f. fst (snd f)) (filter (\<lambda>f. fst f \<notin> fst ` set (d_history db)) fs)"
proof -
  let ?sv = "pb_server b" and ?done = "fst ` set (d_history db)"
  obtain db1 where a: "apply_postgres ?sv (pb_files b) db = (db1, Inr names)" and r: "apply_postgres_repair ?sv (pb_repair b) db1 = (db', Inr ())"
    using run by (auto simp: boot_postgres_def with_connection_def split: prod.split_asm sum.split_asm)
  obtain fs where fs: "migration_files (pb_files b) = Inr fs" "apply_files ?sv ?done fs db [] = (db1, Inr names)"
    using a by (auto simp: apply_postgres_def split: sum.split_asm)
  note L = apply_files_log [OF assms(1) fs(2) assms(2) migration_files_distinct(1) [OF fs(1)]]
  have l: "is_log sem s0 (es @ map Applied (filter (\<lambda>f. fst f \<notin> ?done) fs)) db1"
    and n: "names = map (\<lambda>f. fst (snd f)) (filter (\<lambda>f. fst f \<notin> ?done) fs)" using L by auto
  obtain s where s: "rfold (\<lambda>s stmt. v_exec ?sv stmt s) (d_state db1) (statements (pb_repair b)) = Inr s" "db' = db1\<lparr>d_state := s\<rparr>"
    using r by (auto simp: apply_postgres_repair_def split: sum.splits)
  from faithful_play [OF assms(1) s(1)] l
  have l': "is_log sem s0 (es @ map Applied (filter (\<lambda>f. fst f \<notin> ?done) fs) @ [Repaired (pb_repair b)]) db'"
    by (auto simp: is_log_def s(2) play_append)
  then show "is_log sem s0 (es @ release_entries (logged_versions es) b) db'"
    by (simp add: release_entries_def fs(1) logged_history [OF assms(2)])
  have h: "d_history db' = d_history db @ concat (map (entry_versions \<circ> Applied) (filter (\<lambda>f. fst f \<notin> ?done) fs))"
    using l' assms(2) by (simp add: is_log_def)
  have "fst f \<in> fst ` set (d_history db')" if f: "f \<in> set fs" for f
  proof (cases "fst f \<in> ?done")
    case True
    then show ?thesis by (auto simp: h)
  next
    case False
    with f have "(fst f, fst (snd f)) \<in> set (concat (map (entry_versions \<circ> Applied) (filter (\<lambda>f. fst f \<notin> ?done) fs)))"
      by (auto intro: exI [of _ "snd (snd f)"])
    then have "(fst f, fst (snd f)) \<in> set (d_history db')" unfolding h by simp
    then show ?thesis by (metis fst_conv image_eqI)
  qed
  then have "fst ` set fs \<subseteq> fst ` set (d_history db')" by blast
  with fs(1) n show "\<exists>fs. migration_files (pb_files b) = Inr fs \<and> fst ` set fs \<subseteq> fst ` set (d_history db') \<and>
      names = map (\<lambda>f. fst (snd f)) (filter (\<lambda>f. fst f \<notin> ?done) fs)" by blast
qed

lemma boot_step_log:
  assumes "faithful sem (pb_server b)" "is_log sem s0 es db"
  shows "is_log sem s0 (if boot_succeeds db b then es @ release_entries (logged_versions es) b else es) (run_boot db b)"
proof (cases "boot_postgres (pb_server b) (pb_files b) (pb_repair b) db")
  case (Pair db' r)
  show ?thesis
  proof (cases r)
    case (Inl e)
    then have "db' = db" using Pair by (auto simp: boot_postgres_def with_connection_def split: prod.splits sum.splits)
    then show ?thesis using Pair Inl assms(2) by (simp add: run_boot_def boot_succeeds_def)
  next
    case (Inr names)
    then show ?thesis using committed_boot_log(1) [OF assms] Pair by (simp add: run_boot_def boot_succeeds_def)
  qed
qed

lemma boots_log:
  assumes "\<forall>b \<in> set boots. faithful sem (pb_server b)" "is_log sem s0 es db"
  shows "is_log sem s0 (release_log (boot_outcomes db boots) es) (foldl run_boot db boots)"
  using assms
proof (induction boots arbitrary: db es)
  case (Cons b bs)
  from Cons.IH [OF _ boot_step_log [of sem b s0 es db]] Cons.prems show ?case by simp
qed simp

text \<open>C34: The migrations of PostgreSQL are applied once. Take any number of boots of an empty database, each with its
  own release of the files and failing at any statement, any entry of the history or the repair. The committed
  state is what executing one sequence of statements from the start gives: for each boot that succeeded, all
  statements of the files of its release whose versions were not in the history before, in the order of the
  versions, and then its repair; and nothing of a boot that failed. The history lists these files in this order,
  each version once. A further boot that succeeds has all versions of its release in the history and reports
  exactly the files that were new.\<close>

theorem migrations_apply_once:
  fixes s0 :: 's
  assumes "\<forall>b \<in> set boots. faithful sem (pb_server b)"
    and "init = \<lparr>d_state = s0, d_history = []\<rparr>" "db = foldl run_boot init boots"
  shows "is_log sem s0 (release_log (boot_outcomes init boots) []) db \<and>
    (\<forall>(b :: 's pg_boot) db' names. faithful sem (pb_server b) \<longrightarrow> boot_postgres (pb_server b) (pb_files b) (pb_repair b) db = (db', Inr names) \<longrightarrow>
      (\<exists>fs. migration_files (pb_files b) = Inr fs \<and> fst ` set fs \<subseteq> fst ` set (d_history db') \<and>
        names = map (\<lambda>f. fst (snd f)) (filter (\<lambda>f. fst f \<notin> fst ` set (d_history db)) fs)))"
proof -
  have "is_log sem s0 [] init" by (simp add: is_log_def assms(2))
  from boots_log [OF assms(1) this] have es: "is_log sem s0 (release_log (boot_outcomes init boots) []) db" by (simp add: assms(3))
  then show ?thesis using committed_boot_log(2) [OF _ es] by blast
qed

definition counting_server :: "string list \<Rightarrow> (string list) server" where
  "counting_server bad = \<lparr>v_exec = (\<lambda>stmt s. if stmt \<in> set bad then Inl TransportError else Inr (s @ [stmt])), v_record = (\<lambda>v. None)\<rparr>"

definition demo_files :: "(string \<times> string) list" where
  "demo_files = [(''0001_a.sql'', ''A1; A2;''), (''0002_b.sql'', ''B1;'')]"

definition demo_boots :: "string list pg_boot list" where
  "demo_boots = [\<lparr>pb_server = counting_server [''B1''], pb_files = demo_files, pb_repair = ''R''\<rparr>,
     \<lparr>pb_server = counting_server [], pb_files = demo_files, pb_repair = ''R''\<rparr>,
     \<lparr>pb_server = counting_server [], pb_files = demo_files, pb_repair = ''R''\<rparr>]"

lemma demo_boots_run:
  "foldl run_boot \<lparr>d_state = [], d_history = []\<rparr> demo_boots =
     \<lparr>d_state = [''A1'', ''A2'', ''B1'', ''R'', ''R''], d_history = [(1, ''0001_a.sql''), (2, ''0002_b.sql'')]\<rparr>"
  by code_simp

lemma demo_log:
  "concat (map entry_statements (release_log (boot_outcomes \<lparr>d_state = [], d_history = []\<rparr> demo_boots) [])) =
     [''A1'', ''A2'', ''B1'', ''R'', ''R'']"
  by code_simp

theorem migrations_apply_once_witness:
  "is_log (\<lambda>stmt s. Inr (s @ [stmt])) [] (release_log (boot_outcomes \<lparr>d_state = [], d_history = []\<rparr> demo_boots) [])
       \<lparr>d_state = [''A1'', ''A2'', ''B1'', ''R'', ''R''], d_history = [(1, ''0001_a.sql''), (2, ''0002_b.sql'')]\<rparr> \<and>
   concat (map entry_statements (release_log (boot_outcomes \<lparr>d_state = [], d_history = []\<rparr> demo_boots) [])) =
     [''A1'', ''A2'', ''B1'', ''R'', ''R'']"
proof -
  have "\<forall>b \<in> set demo_boots. faithful (\<lambda>stmt s. Inr (s @ [stmt])) (pb_server b)"
    by (auto simp: demo_boots_def faithful_def counting_server_def split: if_splits)
  from conjunct1 [OF migrations_apply_once [OF this refl refl, of "[]"]] demo_log show ?thesis by (simp only: demo_boots_run)
qed

text \<open>The files of a boot are not committed one by one: when the second fails, the first is undone with it.\<close>

lemma failed_file_undoes_boot:
  "boot_postgres (counting_server [''B1'']) demo_files ''R'' \<lparr>d_state = [], d_history = []\<rparr> =
     (\<lparr>d_state = [], d_history = []\<rparr>, Inl TransportError) \<and>
   fst (apply_postgres (counting_server [''B1'']) demo_files \<lparr>d_state = [], d_history = []\<rparr>) =
     \<lparr>d_state = [''A1'', ''A2''], d_history = [(1, ''0001_a.sql'')]\<rparr>"
  by code_simp

section \<open>Boots against ClickHouse converge\<close>

text \<open>What \<open>IF NOT EXISTS\<close> promises: a statement that was executed changes nothing when it is executed again later.\<close>

definition absorbing :: "(string \<Rightarrow> 's \<Rightarrow> 's res) \<Rightarrow> bool" where
  "absorbing sem \<longleftrightarrow> (\<forall>x s s1 xs s2. sem x s = Inr s1 \<longrightarrow> play sem s1 xs = Inr s2 \<longrightarrow> sem x s2 = Inr s2)"

text \<open>A server that fails may or may not have executed the statement.\<close>

definition honest :: "(string \<Rightarrow> 's \<Rightarrow> 's res) \<Rightarrow> 's node \<Rightarrow> bool" where
  "honest sem nd \<longleftrightarrow>
     (\<forall>x s s'. (k_command nd x s = (s', None) \<longrightarrow> sem x s = Inr s') \<and>
               (\<forall>e. k_command nd x s = (s', Some e) \<longrightarrow> s' = s \<or> sem x s = Inr s'))"

lemma absorbed: "absorbing sem \<Longrightarrow> play sem s0 xs = Inr s \<Longrightarrow> x \<in> set xs \<Longrightarrow> sem x s = Inr s"
proof -
  assume a: "absorbing sem" "play sem s0 xs = Inr s" "x \<in> set xs"
  then obtain us vs where "xs = us @ x # vs" by (meson split_list)
  with a(2) obtain s1 s2 where "play sem s0 us = Inr s1" "sem x s1 = Inr s2" "play sem s2 vs = Inr s"
    by (auto simp: play_append)
  with a(1) show ?thesis unfolding absorbing_def by blast
qed

text \<open>Executing the statements \<open>ys\<close> again from a state that has seen \<open>pre\<close> and the first \<open>k\<close> of them ends in a state
  that has seen \<open>pre\<close> and some more of them, all of them if nothing failed.\<close>

lemma commands_resume:
  assumes "absorbing sem" "honest sem nd" "commands nd zs s = (s', e)"
    and "play sem s0 (pre @ take k (ys @ zs)) = Inr s" "length ys \<le> k \<or> k = length (ys @ zs)"
  shows "\<exists>k'. play sem s0 (pre @ take k' (ys @ zs)) = Inr s' \<and> (e = None \<longrightarrow> length (ys @ zs) \<le> k')"
  using assms
proof (induction zs arbitrary: ys s k)
  case Nil
  then show ?case by auto
next
  case (Cons z zs)
  have sh: "ys @ z # zs = (ys @ [z]) @ zs" by simp
  show ?case
  proof (cases "length ys < k")
    case True
    then have "z \<in> set (pre @ take k (ys @ z # zs))" by (cases "k - length ys") auto
    from absorbed [OF Cons.prems(1,4) this] have same: "sem z s = Inr s" .
    show ?thesis
    proof (cases "k_command nd z s")
      case (Pair s1 r)
      have s1: "s1 = s" using Cons.prems(2) Pair same unfolding honest_def by (cases r) (metis sum.inject(2))+
      show ?thesis
      proof (cases r)
        case None
        then have "commands nd zs s = (s', e)" using Cons.prems(3) Pair s1 by simp
        from Cons.IH [OF Cons.prems(1,2) this, of k "ys @ [z]"] Cons.prems(4,5) True show ?thesis by auto
      next
        case (Some x)
        then have "s' = s" "e = Some x" using Cons.prems(3) Pair s1 by auto
        with Cons.prems(4) show ?thesis by auto
      qed
    qed
  next
    case False
    with Cons.prems(5) have k: "k = length ys" by auto
    have before: "play sem s0 (pre @ take (length ys) (ys @ z # zs)) = Inr s" using Cons.prems(4) k by simp
    have step: "play sem s0 (pre @ take (Suc (length ys)) (ys @ z # zs)) = Inr s1" if "sem z s = Inr s1" for s1
      using before that by (auto simp: play_append)
    show ?thesis
    proof (cases "k_command nd z s")
      case (Pair s1 r)
      show ?thesis
      proof (cases r)
        case None
        then have "sem z s = Inr s1" using Cons.prems(2) Pair unfolding honest_def by blast
        from step [OF this] have p: "play sem s0 (pre @ take (Suc (length ys)) ((ys @ [z]) @ zs)) = Inr s1" by simp
        have "commands nd zs s1 = (s', e)" using Cons.prems(3) Pair None by simp
        from Cons.IH [OF Cons.prems(1,2) this p] show ?thesis by auto
      next
        case (Some x)
        then have s': "s' = s1" "e = Some x" using Cons.prems(3) Pair by auto
        have "s1 = s \<or> sem z s = Inr s1" using Cons.prems(2) Pair Some unfolding honest_def by blast
        then show ?thesis using before step [of s1] s' by (metis option.distinct(1))
      qed
    qed
  qed
qed


abbreviation entries_of :: "migration list \<Rightarrow> (nat \<times> string) list" where
  "entries_of fs \<equiv> map (\<lambda>f. (fst f, fst (snd f))) fs"

abbreviation all_statements :: "migration list \<Rightarrow> string list" where
  "all_statements fs \<equiv> concat (map (\<lambda>f. statements (snd (snd f))) fs)"

definition first_statements :: "migration list \<Rightarrow> string list" where
  "first_statements fs = (case fs of [] \<Rightarrow> [] | f # gs \<Rightarrow> statements (snd (snd f)))"

text \<open>Between boots the history is a beginning of the files, and the state has seen their statements and some of the
  next file.\<close>

definition resumable :: "(string \<Rightarrow> 's \<Rightarrow> 's res) \<Rightarrow> 's \<Rightarrow> migration list \<Rightarrow> migration list \<Rightarrow> 's database \<Rightarrow> bool" where
  "resumable sem s0 as bs db \<longleftrightarrow> d_history db = entries_of as \<and>
     (\<exists>k. play sem s0 (all_statements as @ take k (first_statements bs)) = Inr (d_state db))"

lemma resumable_next:
  "play sem s0 (all_statements as @ statements (snd (snd f))) = Inr s \<Longrightarrow>
   resumable sem s0 (as @ [f]) bs \<lparr>d_state = s, d_history = entries_of as @ [(fst f, fst (snd f))]\<rparr>"
  unfolding resumable_def by (auto intro!: exI [of _ 0])

lemma command_files_resume:
  assumes "absorbing sem" "honest sem nd" "command_files nd done bs db applied = (db', r)"
    and "resumable sem s0 as bs db" "\<forall>f \<in> set bs. fst f \<notin> done"
  shows "\<exists>as' bs'. as @ bs = as' @ bs' \<and> resumable sem s0 as' bs' db' \<and> (is_ok r \<longrightarrow> bs' = [])"
  using assms
proof (induction bs arbitrary: as db applied)
  case Nil
  then show ?case by (intro exI [of _ as] exI [of _ "[]"]) simp
next
  case (Cons f bs)
  obtain k where k: "play sem s0 (all_statements as @ take k ([] @ statements (snd (snd f)))) = Inr (d_state db)"
      and h: "d_history db = entries_of as"
    using Cons.prems(4) by (auto simp: resumable_def first_statements_def)
  obtain s e where c: "commands nd (statements (snd (snd f))) (d_state db) = (s, e)" by (metis prod.exhaust)
  from commands_resume [OF Cons.prems(1,2) c k] obtain k' where
    k': "play sem s0 (all_statements as @ take k' (statements (snd (snd f)))) = Inr s"
      "e = None \<Longrightarrow> length (statements (snd (snd f))) \<le> k'" by auto
  have new: "fst f \<notin> done" using Cons.prems(5) by simp
  show ?case
  proof (cases e)
    case (Some x)
    then have "db' = db\<lparr>d_state := s\<rparr>" "r = Inl x" using Cons.prems(3) new c by auto
    with k'(1) h show ?thesis by (intro exI [of _ as] exI [of _ "f # bs"]) (auto simp: resumable_def first_statements_def)
  next
    case None
    with k' have all: "play sem s0 (all_statements as @ statements (snd (snd f))) = Inr s" by simp
    note next_db = resumable_next [OF all]
    obtain i y where rec: "k_record nd (fst f) = (i, y)" by (metis prod.exhaust)
    show ?thesis
    proof (cases y)
      case None
      then have "command_files nd done bs \<lparr>d_state = s, d_history = entries_of as @ [(fst f, fst (snd f))]\<rparr> (applied @ [fst (snd f)]) = (db', r)"
        using Cons.prems(3) new c \<open>e = None\<close> rec h by (simp add: record_version_def)
      from Cons.IH [OF Cons.prems(1,2) this next_db] Cons.prems(5) show ?thesis by auto
    next
      case (Some x)
      then have r: "r = Inl x" and db': "db' = \<lparr>d_state = s, d_history = (if i then entries_of as @ [(fst f, fst (snd f))] else entries_of as)\<rparr>"
        using Cons.prems(3) new c \<open>e = None\<close> rec h by (auto simp: record_version_def)
      show ?thesis
      proof (cases i)
        case True
        then show ?thesis using next_db [of bs] r db' by (intro exI [of _ "as @ [f]"] exI [of _ bs]) simp
      next
        case False
        then show ?thesis using all r db'
          by (intro exI [of _ as] exI [of _ "f # bs"])
             (auto simp: resumable_def first_statements_def intro!: exI [of _ "length (statements (snd (snd f)))"])
      qed
    qed
  qed
qed

lemma command_files_skip:
  "fst ` set as \<subseteq> done \<Longrightarrow> command_files nd done (as @ bs) db applied = command_files nd done bs db applied"
  by (induction as) auto

lemma boot_resume:
  assumes "absorbing sem" "honest sem nd" "migration_files dir = Inr (as @ bs)" "resumable sem s0 as bs db"
    and "apply_clickhouse nd dir db = (db', r)"
  shows "\<exists>as' bs'. as @ bs = as' @ bs' \<and> resumable sem s0 as' bs' db' \<and> (is_ok r \<longrightarrow> bs' = [])"
proof -
  let ?done = "fst ` set (d_history db)"
  have d: "?done = fst ` set as" using assms(4) by (force simp: resumable_def)
  have "command_files nd ?done bs db [] = (db', r)"
    using assms(3,5) command_files_skip [of as ?done nd bs db] d by (simp add: apply_clickhouse_def)
  moreover have "\<forall>f \<in> set bs. fst f \<notin> ?done"
    using migration_files_distinct(1) [OF assms(3)] unfolding d by auto
  ultimately show ?thesis using command_files_resume [OF assms(1,2) _ assms(4)] by blast
qed

text \<open>C35: Boots against ClickHouse converge. Without transactions a boot that fails leaves a file half executed, a
  statement whose answer was lost, or a file executed but not recorded. If the statements change nothing when executed
  again, as the rules of the directory demand, then after any boots the first that succeeds leaves the state that
  executing every file once in the order of the versions gives, and the history lists exactly these files.\<close>

theorem clickhouse_boots_converge:
  assumes "absorbing sem" "\<forall>nd \<in> set nodes. honest sem nd" "honest sem nd"
    and "migration_files dir = Inr fs" "db = foldl (\<lambda>db nd. fst (apply_clickhouse nd dir db)) \<lparr>d_state = s0, d_history = []\<rparr> nodes"
    and "apply_clickhouse nd dir db = (db', Inr names)"
  shows "play sem s0 (all_statements fs) = Inr (d_state db') \<and> d_history db' = entries_of fs"
proof -
  have run: "\<exists>as bs. fs = as @ bs \<and> resumable sem s0 as bs (foldl (\<lambda>db nd. fst (apply_clickhouse nd dir db)) d ns)"
    if "fs = as @ bs" "resumable sem s0 as bs d" "\<forall>nd \<in> set ns. honest sem nd" for as bs d ns
    using that
  proof (induction ns arbitrary: as bs d)
    case (Cons n ns)
    obtain d' r where a: "apply_clickhouse n dir d = (d', r)" by (metis prod.exhaust)
    from boot_resume [OF assms(1) _ _ Cons.prems(2) a] Cons.prems assms(4) obtain as' bs' where
      "fs = as' @ bs'" "resumable sem s0 as' bs' d'" by auto
    from Cons.IH [OF this] Cons.prems(3) a show ?case by simp
  qed auto
  have "resumable sem s0 [] fs \<lparr>d_state = s0, d_history = []\<rparr>" unfolding resumable_def by (auto intro!: exI [of _ 0])
  from run [OF _ this assms(2)] assms(5) obtain as bs where ab: "fs = as @ bs" "resumable sem s0 as bs db" by auto
  from boot_resume [OF assms(1,3) _ ab(2) assms(6)] assms(4) ab(1) have "resumable sem s0 fs [] db'" by auto
  then show ?thesis by (simp add: resumable_def first_statements_def)
qed

text \<open>Sets of tables, created if they do not exist; the first boot loses the answer of the second statement.\<close>

definition create :: "string \<Rightarrow> string list \<Rightarrow> string list res" where
  "create x s = Inr (if x \<in> set s then s else s @ [x])"

definition demo_node :: "string list \<Rightarrow> (string list) node" where
  "demo_node lost = \<lparr>k_command = (\<lambda>x s. (if x \<in> set s then s else s @ [x], if x \<in> set lost then Some TransportError else None)),
     k_record = (\<lambda>v. (True, None))\<rparr>"

lemma absorbing_create: "absorbing create"
proof -
  have keep: "x \<in> set s2" if "play create s1 xs = Inr s2" "x \<in> set s1" for x s1 xs s2
    using that by (induction xs arbitrary: s1) (auto simp: create_def split: if_splits)
  show ?thesis unfolding absorbing_def
  proof (intro allI impI)
    fix x s s1 xs s2 assume "create x s = Inr s1" "play create s1 xs = Inr s2"
    then have "x \<in> set s2" using keep [of s1 xs s2 x] by (auto simp: create_def split: if_splits)
    then show "create x s2 = Inr s2" by (simp add: create_def)
  qed
qed

theorem clickhouse_boots_converge_witness:
  "apply_clickhouse (demo_node []) demo_files (foldl (\<lambda>db nd. fst (apply_clickhouse nd demo_files db)) \<lparr>d_state = [], d_history = []\<rparr> [demo_node [''A2'']]) =
     (\<lparr>d_state = [''A1'', ''A2'', ''B1''], d_history = [(1, ''0001_a.sql''), (2, ''0002_b.sql'')]\<rparr>, Inr [''0001_a.sql'', ''0002_b.sql'']) \<and>
   play create [] [''A1'', ''A2'', ''B1''] = Inr [''A1'', ''A2'', ''B1'']"
proof -
  have h: "honest create (demo_node lost)" for lost by (auto simp: honest_def demo_node_def create_def)
  have fs: "migration_files demo_files = Inr [(1, ''0001_a.sql'', ''A1; A2;''), (2, ''0002_b.sql'', ''B1;'')]" by code_simp
  have run: "apply_clickhouse (demo_node []) demo_files (foldl (\<lambda>db nd. fst (apply_clickhouse nd demo_files db)) \<lparr>d_state = [], d_history = []\<rparr> [demo_node [''A2'']]) =
     (\<lparr>d_state = [''A1'', ''A2'', ''B1''], d_history = [(1, ''0001_a.sql''), (2, ''0002_b.sql'')]\<rparr>, Inr [''0001_a.sql'', ''0002_b.sql''])"
    by code_simp
  have stm: "all_statements [(1, ''0001_a.sql'', ''A1; A2;''), (2, ''0002_b.sql'', ''B1;'')] = [''A1'', ''A2'', ''B1'']" by code_simp
  have "\<forall>nd \<in> set [demo_node [''A2'']]. honest create nd" using h by simp
  from conjunct1 [OF clickhouse_boots_converge [OF absorbing_create this h fs refl run]]
  have "play create [] [''A1'', ''A2'', ''B1''] = Inr [''A1'', ''A2'', ''B1'']" by (simp only: stm database.simps)
  then show ?thesis by (rule conjI [OF run])
qed

end
