(* ===== verification/Jobs.thy ===== *)
theory Jobs
  imports Texts
begin

text \<open>
  The monthly jobs: \<open>batch/jobs/maintenance_once.py\<close>, which runs the collectors one after the other, and
  \<open>batch/jobs/verify_freshness.py\<close>, which checks how old the tables are.  What a step does to the world is
  an argument; days are numbered.
\<close>

section \<open>Maintenance\<close>

text \<open>A step returns its exit code, \<open>None\<close> included, or raises.\<close>

datatype outcome = Returned "int option" | Raised exc

type_synonym 'w step = "'w \<Rightarrow> outcome \<times> 'w"

datatype line = Done string | Exit string "int option" | Failed string exc

text \<open>\<open>except Exception\<close> does not catch \<open>SystemExit\<close>.\<close>

fun escapes :: "exc \<Rightarrow> bool" where
  "escapes (SystemExit s) = True"
| "escapes e = False"

definition step_line :: "string \<Rightarrow> outcome \<Rightarrow> line" where
  "step_line name o1 =
     (case o1 of
        Returned rc \<Rightarrow> if rc = None \<or> rc = Some 0 then Done name else Exit name rc
      | Raised e \<Rightarrow> Failed name e)"

fun is_done :: "line \<Rightarrow> bool" where
  "is_done (Done name) = True"
| "is_done l = False"

text \<open>The loop over the steps: the lines of the report and the number of failures, or the exit that escaped.\<close>

fun run_steps :: "(string \<times> 'w step) list \<Rightarrow> line list \<Rightarrow> nat \<Rightarrow> 'w \<Rightarrow> (line list \<times> nat) res \<times> 'w" where
  "run_steps [] lines failed w = (Inr (lines, failed), w)"
| "run_steps ((name, fn) # steps) lines failed w =
     (case fn w of
        (Raised e, w') \<Rightarrow>
          if escapes e then (Inl e, w')
          else run_steps steps (lines @ [Failed name e]) (failed + 1) w'
      | (Returned rc, w') \<Rightarrow>
          (let ok = (rc = None \<or> rc = Some 0)
           in run_steps steps (lines @ [if ok then Done name else Exit name rc]) (failed + (if ok then 0 else 1)) w'))"

text \<open>\<open>_universe\<close>: the files of symbols, separated by commas and newlines, then the active symbols of both markets.\<close>

definition universe :: "string list \<Rightarrow> string list \<Rightarrow> string list \<Rightarrow> string list" where
  "universe files kr us =
     first_seen (concat (map (\<lambda>text. parts CHR '','' (map (\<lambda>ch. if ch = CHR 0x0A then CHR '','' else ch) text)) files) @ kr @ us)"

definition maintenance_main :: "(string list \<Rightarrow> (string \<times> 'w step) list) \<Rightarrow> (line list \<Rightarrow> 'w \<Rightarrow> bool \<times> 'w) \<Rightarrow>
    string list \<Rightarrow> 'w \<Rightarrow> int res \<times> 'w" where
  "maintenance_main steps send syms w =
     (case run_steps (steps syms) [] 0 w of
        (Inl e, w') \<Rightarrow> (Inl e, w')
      | (Inr (lines, failed), w') \<Rightarrow>
          (case send lines w' of (sent, w'') \<Rightarrow>
             (Inr (if failed \<noteq> 0 then (if sent then 70 else 1) else 0), w'')))"

section \<open>Freshness\<close>

record check =
  ck_label :: string
  ck_from :: string
  ck_column :: string
  ck_days :: int
  ck_critical :: bool

definition quoted :: "string \<Rightarrow> string" where
  "quoted s = CHR 0x27 # s @ [CHR 0x27]"

definition CHECKS :: "check list" where
  "CHECKS = map (\<lambda>(l, f, c, d, b). \<lparr>ck_label = l, ck_from = f, ck_column = c, ck_days = d, ck_critical = b\<rparr>)
     [(''stock_candles_1d'', ''stock_candles_1d'', ''window_start'', 7, True),
      (''fundamentals_quarterly'', ''fundamentals_quarterly'', ''filed_date'', 150, True),
      (''institutional_13f'', ''institutional_13f'', ''period_end'', 210, False),
      (''stock_short(US)'', ''stock_short WHERE market='' @ quoted ''US'', ''date'', 45, False),
      (''stock_short(KR)'', ''stock_short WHERE market='' @ quoted ''KR'', ''date'', 45, False),
      (''stock_investor_flow'', ''stock_investor_flow'', ''date'', 45, False),
      (''stock_foreign_holding'', ''stock_foreign_holding'', ''date'', 45, False),
      (''macro_daily'', ''macro_daily'', ''date'', 45, False),
      (''factor_returns_daily'', ''factor_returns_daily'', ''date'', 45, False),
      (''insider_transactions'', ''insider_transactions'', ''filed_date'', 150, False),
      (''earnings_calendar'', ''earnings_calendar'', ''announce_date'', 150, False)]"

text \<open>The value of \<open>max(column)\<close>: a day, an instant, or something that is neither.\<close>

datatype max_value = Day int | Instant int | NoDate

definition as_date :: "max_value \<Rightarrow> int option" where
  "as_date v = (case v of Day d \<Rightarrow> Some d | Instant t \<Rightarrow> Some (t div 86400000000) | NoDate \<Rightarrow> None)"

record freshness =
  fr_label :: string
  fr_rows :: int
  fr_last :: "int option"
  fr_behind :: "int option"
  fr_threshold :: int
  fr_critical :: bool
  fr_breached :: bool

type_synonym table_query = "string \<Rightarrow> string \<Rightarrow> (int \<times> max_value) res"

definition check_one :: "table_query \<Rightarrow> int \<Rightarrow> check \<Rightarrow> freshness" where
  "check_one query today ck =
     (case query (ck_from ck) (ck_column ck) of
        Inl e \<Rightarrow>
          \<lparr>fr_label = ck_label ck, fr_rows = - 1, fr_last = None, fr_behind = None, fr_threshold = ck_days ck,
           fr_critical = ck_critical ck, fr_breached = True\<rparr>
      | Inr (rows, v) \<Rightarrow>
          (let last_day = (if rows \<noteq> 0 then as_date v else None); behind = map_option (\<lambda>d. today - d) last_day
           in \<lparr>fr_label = ck_label ck, fr_rows = rows, fr_last = last_day, fr_behind = behind, fr_threshold = ck_days ck,
               fr_critical = ck_critical ck,
               fr_breached = (rows = 0 \<or> (case behind of None \<Rightarrow> False | Some n \<Rightarrow> ck_days ck < n))\<rparr>))"

definition check_tables :: "table_query \<Rightarrow> int \<Rightarrow> freshness list" where
  "check_tables query today = map (check_one query today) CHECKS"

text \<open>\<open>main\<close>: the exit code and whether a message is sent.\<close>

definition freshness_main :: "table_query \<Rightarrow> int \<Rightarrow> bool \<Rightarrow> bool \<Rightarrow> int \<times> bool" where
  "freshness_main query today strict notify =
     (let results = check_tables query today;
          crit_bad = filter (\<lambda>r. fr_breached r \<and> fr_critical r) results;
          warn_bad = filter (\<lambda>r. fr_breached r \<and> \<not> fr_critical r) results
      in (if crit_bad \<noteq> [] \<or> (strict \<and> warn_bad \<noteq> []) then 1 else 0, notify \<and> (crit_bad \<noteq> [] \<or> warn_bad \<noteq> [])))"

section \<open>Every step runs\<close>

text \<open>The worlds before the steps, as if nothing had failed.\<close>

fun outcomes :: "(string \<times> 'w step) list \<Rightarrow> 'w \<Rightarrow> outcome list" where
  "outcomes [] w = []"
| "outcomes ((name, fn) # steps) w = fst (fn w) # outcomes steps (snd (fn w))"

definition world_after :: "(string \<times> 'w step) list \<Rightarrow> 'w \<Rightarrow> 'w" where
  "world_after steps w = foldl (\<lambda>w s. snd (snd s w)) w steps"

lemma run_steps_all:
  assumes "\<forall>o1 \<in> set (outcomes steps w). case o1 of Raised e \<Rightarrow> \<not> escapes e | Returned rc \<Rightarrow> True"
  shows "run_steps steps lines failed w =
    (let ls = map2 step_line (map fst steps) (outcomes steps w)
     in (Inr (lines @ ls, failed + length (filter (\<lambda>l. \<not> is_done l) ls)), world_after steps w))"
  using assms
proof (induction steps w arbitrary: lines failed rule: outcomes.induct)
  case (2 name fn steps w)
  show ?case
  proof (cases "fn w")
    case (Pair o1 w')
    with "2.IH" "2.prems" show ?thesis
      by (cases o1) (auto simp: world_after_def Let_def step_line_def)
  qed
qed (simp add: world_after_def)

text \<open>One failing collector does not stop the others. Unless a step exits the process, all steps of the maintenance
  run once, in their order and each in the world its predecessors left, whatever fails; the report has a line for
  every step, and the exit code is 0 exactly when all of them succeeded, otherwise 70 or 1 as the report was sent or not.\<close>

lemma maintenance_runs_every_step:
  assumes "\<forall>o1 \<in> set (outcomes (steps syms) w). case o1 of Raised e \<Rightarrow> \<not> escapes e | Returned rc \<Rightarrow> True"
    and "maintenance_main steps send syms w = (r, w'')"
  shows "\<exists>sent. let ls = map2 step_line (map fst (steps syms)) (outcomes (steps syms) w) in
    length ls = length (steps syms) \<and> send ls (world_after (steps syms) w) = (sent, w'') \<and>
    r = Inr (if \<forall>l \<in> set ls. is_done l then 0 else if sent then 70 else 1)"
proof -
  have len: "length (outcomes xs w) = length xs" for xs :: "(string \<times> 'a step) list" and w
    by (induction xs w rule: outcomes.induct) simp_all
  show ?thesis
    using assms(2) unfolding maintenance_main_def run_steps_all [OF assms(1), of "[]" 0] Let_def
    by (auto simp: len filter_empty_conv split: prod.splits)
qed

definition demo_steps :: "string list \<Rightarrow> (string \<times> nat step) list" where
  "demo_steps syms = [(''a'', \<lambda>w. (Returned (Some 0), w + 1)), (''b'', \<lambda>w. (Raised TransportError, w + 10)), (''c'', \<lambda>w. (Returned None, w + 100))]"

definition is_stale :: "table_query \<Rightarrow> int \<Rightarrow> check \<Rightarrow> bool" where
  "is_stale query today ck \<longleftrightarrow>
     (\<forall>rows v. query (ck_from ck) (ck_column ck) = Inr (rows, v) \<longrightarrow>
        rows = 0 \<or> (\<exists>d. as_date v = Some d \<and> d + ck_days ck < today))"

lemma check_one_breached: "fr_breached (check_one query today ck) = is_stale query today ck"
  by (auto simp: check_one_def is_stale_def Let_def split: sum.splits prod.splits option.splits)

lemma check_one_critical [simp]: "fr_critical (check_one query today ck) = ck_critical ck"
  by (simp add: check_one_def Let_def split: sum.splits prod.splits)

text \<open>The freshness check fails exactly when it should. The exit code is 1 if and only if for one of the critical
  tables, or with \<open>--strict\<close> for any table, the query fails, the table is empty, or its last date is more than the
  allowed number of days before today; and then, and only then or for another table, a message is sent.\<close>

lemma freshness_exit_code:
  "freshness_main query today strict notify =
     (if \<exists>ck \<in> set CHECKS. is_stale query today ck \<and> (ck_critical ck \<or> strict) then 1 else 0,
      notify \<and> (\<exists>ck \<in> set CHECKS. is_stale query today ck))"
  unfolding freshness_main_def check_tables_def Let_def
  by (simp only: filter_empty_conv set_map ball_simps check_one_breached check_one_critical prod.inject)
     (intro conjI if_cong; blast)

end
