(* ===== verification/StockCandles.thy ===== *)
theory StockCandles
  imports Texts CandleCache
begin

text \<open>
  The collection of stock candles: the pages of \<open>common/marketdata/toss_daily.py\<close> and
  \<open>batch/candles/toss_intraday.py\<close>, the inserts of \<open>_upsert.py\<close>, the daily refresh of
  \<open>refresh_stock_daily.py\<close>, the selective reload of \<open>selective_stock_backfill.py\<close>, the loops of
  \<open>backfill_stock_daily.py\<close>, \<open>backfill_stock_intraday.py\<close> and \<open>backfill_daily.py\<close>, and the copy of
  the CSV cache by \<open>csv_to_clickhouse.py\<close>.

  The broker's pages are an argument, \<open>api before\<close> for the token of the previous page; so are the
  table and what an insert does to it.  Instants are seconds, prices the floats that are stored.
\<close>

section \<open>Pages\<close>

record toss_candle =
  tc_ts :: int
  tc_open :: rat
  tc_high :: rat
  tc_low :: rat
  tc_close :: rat
  tc_volume :: rat
  tc_currency :: string

record stock_row =
  sr_symbol :: string
  sr_start :: int
  sr_open :: rat
  sr_high :: rat
  sr_low :: rat
  sr_close :: rat
  sr_volume :: rat
  sr_currency :: string
  sr_market :: string

type_synonym 'b toss_api = "'b option \<Rightarrow> (toss_candle list \<times> 'b option) res"

definition row_at :: "string \<Rightarrow> int \<Rightarrow> toss_candle \<Rightarrow> stock_row" where
  "row_at symbol start c =
     \<lparr>sr_symbol = symbol, sr_start = start, sr_open = tc_open c, sr_high = tc_high c, sr_low = tc_low c, sr_close = tc_close c,
      sr_volume = tc_volume c, sr_currency = tc_currency c, sr_market = (if tc_currency c = ''KRW'' then ''KR'' else ''US'')\<rparr>"

text \<open>The day of the stamp as it is written, in Korean time; the daily row starts at midnight UTC of that day.\<close>

definition kst_day :: "int \<Rightarrow> int" where
  "kst_day t = (t + 32400) div 86400"

definition daily_row_of :: "string \<Rightarrow> toss_candle \<Rightarrow> stock_row" where
  "daily_row_of symbol c = row_at symbol (kst_day (tc_ts c) * 86400) c"

text \<open>The loop over the pages, with the rows to keep, the test that the oldest candle is old enough, and the rows so far.\<close>

partial_function (option) page_loop ::
  "'b toss_api \<Rightarrow> (toss_candle \<Rightarrow> bool) \<Rightarrow> (toss_candle \<Rightarrow> bool) \<Rightarrow> (toss_candle \<Rightarrow> stock_row) \<Rightarrow> 'b option \<Rightarrow> stock_row list \<Rightarrow>
   stock_row list res option" where
  "page_loop api keep old row page rows =
     (case api page of
        Inl e \<Rightarrow> Some (Inl e)
      | Inr (candles, next_before) \<Rightarrow>
          if candles = [] then Some (Inr rows)
          else
            let rows' = rows @ map row (filter keep candles)
            in if old (List.last candles) \<or> next_before = None \<or> length candles < PAGE then Some (Inr rows')
               else page_loop api keep old row next_before rows')"

definition sorted_rows :: "stock_row list res option \<Rightarrow> stock_row list res option" where
  "sorted_rows r = map_option (\<lambda>x. rbind x (\<lambda>rows. Inr (sort_key sr_start rows))) r"

text \<open>\<open>_fetch_pages\<close>: completed days of the last \<open>days\<close> days.\<close>

definition daily_kept :: "int \<Rightarrow> nat \<Rightarrow> toss_candle \<Rightarrow> bool" where
  "daily_kept now days c \<longleftrightarrow> kst_day now - int days < kst_day (tc_ts c) \<and> kst_day (tc_ts c) < kst_day now"

definition fetch_pages :: "'b toss_api \<Rightarrow> int \<Rightarrow> string \<Rightarrow> nat \<Rightarrow> stock_row list res option" where
  "fetch_pages api now symbol days =
     sorted_rows (page_loop api (daily_kept now days) (\<lambda>c. kst_day (tc_ts c) \<le> kst_day now - int days) (daily_row_of symbol) None [])"

text \<open>\<open>fetch_daily\<close>: a 401 of the first attempt is answered by a forced new token and a second attempt.\<close>

definition fetch_stock_daily ::
  "(bool \<Rightarrow> 'k res) \<Rightarrow> ('k \<Rightarrow> 'b toss_api) \<Rightarrow> int \<Rightarrow> string \<Rightarrow> nat \<Rightarrow> stock_row list res option" where
  "fetch_stock_daily token api now symbol days =
     (case token False of
        Inl e \<Rightarrow> Some (Inl e)
      | Inr k \<Rightarrow>
          (let r = fetch_pages (api k) now symbol days
           in if r = Some (Inl (HTTPStatusError 401))
              then (case token True of
                      Inl e \<Rightarrow> Some (Inl e)
                    | Inr k' \<Rightarrow> fetch_pages (api k') now symbol days)
              else r))"

text \<open>\<open>fetch_minute\<close>: the completed minutes since \<open>days\<close> days before now.\<close>

definition minute_kept :: "int \<Rightarrow> nat \<Rightarrow> toss_candle \<Rightarrow> bool" where
  "minute_kept now days c \<longleftrightarrow> now - 86400 * int days \<le> tc_ts c \<and> tc_ts c < now div 60 * 60"

definition fetch_minute :: "'k res \<Rightarrow> ('k \<Rightarrow> 'b toss_api) \<Rightarrow> int \<Rightarrow> string \<Rightarrow> nat \<Rightarrow> stock_row list res option" where
  "fetch_minute token api now symbol days =
     (case token of
        Inl e \<Rightarrow> Some (Inl e)
      | Inr k \<Rightarrow>
          sorted_rows (page_loop (api k) (minute_kept now days) (\<lambda>c. tc_ts c < now - 86400 * int days) (\<lambda>c. row_at symbol (tc_ts c) c) None []))"

section \<open>Inserting\<close>

type_synonym ('r, 't) insert = "'r list \<Rightarrow> 't \<Rightarrow> unit res \<times> 't"

definition upsert :: "('r, 't) insert \<Rightarrow> 'r list \<Rightarrow> 't \<Rightarrow> nat res \<times> 't" where
  "upsert ins rows t =
     (if rows = [] then (Inr 0, t)
      else case ins rows t of (r, t') \<Rightarrow> (rbind r (\<lambda>u. Inr (length rows)), t'))"

definition load_symbol :: "(string \<Rightarrow> 'r list res) \<Rightarrow> ('r, 't) insert \<Rightarrow> string \<Rightarrow> 't \<Rightarrow> nat res \<times> 't" where
  "load_symbol fetch ins symbol t =
     (case fetch symbol of
        Inl e \<Rightarrow> (Inl e, t)
      | Inr rows \<Rightarrow> upsert ins rows t)"

text \<open>The loop of the three programs: the rows loaded and the symbols that failed.\<close>

fun load_symbols :: "(string \<Rightarrow> 't \<Rightarrow> nat res \<times> 't) \<Rightarrow> string list \<Rightarrow> nat \<Rightarrow> string list \<Rightarrow> 't \<Rightarrow> (nat \<times> string list) \<times> 't" where
  "load_symbols one [] n failed t = ((n, failed), t)"
| "load_symbols one (s # ss) n failed t =
     (case one s t of
        (Inl e, t') \<Rightarrow> load_symbols one ss n (failed @ [s]) t'
      | (Inr k, t') \<Rightarrow> load_symbols one ss (n + k) failed t')"

text \<open>\<open>main\<close>: the exit code; no symbol and no connection are exit code 2.\<close>

definition load_main :: "bool \<Rightarrow> (string \<Rightarrow> 't \<Rightarrow> nat res \<times> 't) \<Rightarrow> string \<Rightarrow> 't \<Rightarrow> int \<times> 't" where
  "load_main reachable one text t =
     (let symbols = parts CHR '','' text
      in if symbols = [] \<or> \<not> reachable then (2, t)
         else case load_symbols one symbols 0 [] t of
                ((n, failed), t') \<Rightarrow> (if failed \<noteq> [] then 1 else 0, t'))"

text \<open>\<open>backfill_daily\<close>: the daily candles of Upbit since the newest stored one.\<close>

definition load_coin :: "(string \<Rightarrow> candle_api) \<Rightarrow> (string \<Rightarrow> 't \<Rightarrow> int option res) \<Rightarrow> (daily_row, 't) insert \<Rightarrow> int \<Rightarrow> int \<Rightarrow>
    string \<Rightarrow> 't \<Rightarrow> nat res option \<times> 't" where
  "load_coin api latest ins now days market t =
     (case latest market t of
        Inl e \<Rightarrow> (Some (Inl e), t)
      | Inr since \<Rightarrow>
          (case fetch_daily (api market) market now days (now div 86400 * 86400) since of
             None \<Rightarrow> (None, t)
           | Some (Inl e) \<Rightarrow> (Some (Inl e), t)
           | Some (Inr rows) \<Rightarrow> (case upsert ins rows t of (r, t') \<Rightarrow> (Some r, t'))))"

section \<open>Refresh\<close>

record counts =
  co_ok :: nat
  co_fail :: nat
  co_rows :: nat
  co_skipped :: nat

definition MAX_SECONDS :: rat where "MAX_SECONDS = 600"

text \<open>The seconds since the start of the job are read from the world before every symbol.\<close>

fun refresh_market :: "('t \<Rightarrow> rat) \<Rightarrow> (string \<Rightarrow> 't \<Rightarrow> nat res \<times> 't) \<Rightarrow> string list \<Rightarrow> counts \<Rightarrow> 't \<Rightarrow> counts \<times> 't" where
  "refresh_market elapsed one [] c t = (c, t)"
| "refresh_market elapsed one (s # ss) c t =
     (if MAX_SECONDS < elapsed t then (c\<lparr>co_skipped := length (s # ss)\<rparr>, t)
      else case one s t of
             (Inl e, t') \<Rightarrow> refresh_market elapsed one ss (c\<lparr>co_fail := co_fail c + 1\<rparr>) t'
           | (Inr n, t') \<Rightarrow> refresh_market elapsed one ss (c\<lparr>co_rows := co_rows c + n, co_ok := co_ok c + 1\<rparr>) t')"

definition no_counts :: counts where
  "no_counts = \<lparr>co_ok = 0, co_fail = 0, co_rows = 0, co_skipped = 0\<rparr>"

fun refresh :: "('t \<Rightarrow> rat) \<Rightarrow> (string \<Rightarrow> 't \<Rightarrow> nat res \<times> 't) \<Rightarrow> (string \<Rightarrow> 't \<Rightarrow> string list) \<Rightarrow> string list \<Rightarrow> 't \<Rightarrow>
    (string \<times> counts) list \<times> 't" where
  "refresh elapsed one alive [] t = ([], t)"
| "refresh elapsed one alive (mk # mks) t =
     (case refresh_market elapsed one (alive mk t) no_counts t of
        (c, t') \<Rightarrow> (case refresh elapsed one alive mks t' of (out, t'') \<Rightarrow> ((mk, c) # out, t'')))"

section \<open>Selective reload\<close>

definition STALE_DAYS :: int where "STALE_DAYS = 20"
definition TOL :: rat where "TOL = 5 / 1000"
definition PROBE_DAYS :: nat where "PROBE_DAYS = 200"

text \<open>\<open>{day: close}\<close>: a later row of a day replaces an earlier one.\<close>

definition closes_by_day :: "(int \<times> rat) list \<Rightarrow> (int \<times> rat) list" where
  "closes_by_day rows = foldl (\<lambda>m (ws, c). AList.update (ws div 86400) c m) [] rows"

definition differs :: "rat \<Rightarrow> rat \<Rightarrow> bool" where
  "differs dbc tc \<longleftrightarrow> tc \<noteq> 0 \<and> fl TOL < fquo \<bar>fsub dbc tc\<bar> tc"

text \<open>\<open>_needs_full\<close>: the stored closes of the last 200 days in the order of time, and the daily rows of the broker.\<close>

definition needs_full :: "int \<Rightarrow> (int \<times> rat) list \<Rightarrow> stock_row list res \<Rightarrow> bool" where
  "needs_full now rows fetched =
     (if rows = [] then True
      else if STALE_DAYS < (now - fst (List.last rows)) div 86400 then True
      else case fetched of
             Inl e \<Rightarrow> False
           | Inr toss \<Rightarrow>
               (let tosses = closes_by_day (map (\<lambda>r. (sr_start r, sr_close r)) toss)
                in \<exists>(d, dbc) \<in> set (closes_by_day rows). case map_of tosses d of None \<Rightarrow> False | Some tc \<Rightarrow> differs dbc tc))"

fun join_comma :: "string list \<Rightarrow> string" where
  "join_comma [] = []"
| "join_comma [s] = s"
| "join_comma (s # ss) = s @ CHR '','' # join_comma ss"

definition selective_run ::
  "int \<Rightarrow> (string \<Rightarrow> 't \<Rightarrow> (int \<times> rat) list) \<Rightarrow> (string \<Rightarrow> stock_row list res) \<Rightarrow> bool \<Rightarrow> (string \<Rightarrow> 't \<Rightarrow> nat res \<times> 't) \<Rightarrow>
   string list \<Rightarrow> 't \<Rightarrow> int \<times> 't" where
  "selective_run now stored_closes probe reachable one symbols t =
     (let full = filter (\<lambda>s. needs_full now (stored_closes s t) (probe s)) symbols
      in if full \<noteq> [] then load_main reachable one (join_comma full) t else (0, t))"

section \<open>The CSV cache\<close>

definition BATCH :: nat where "BATCH = 100000"

text \<open>The rows are read one by one, and a row may fail to parse; the result is the number of rows inserted.\<close>

fun csv_loop :: "nat \<Rightarrow> ('r, 't) insert \<Rightarrow> 'r res list \<Rightarrow> 'r list \<Rightarrow> nat \<Rightarrow> 't \<Rightarrow> nat res \<times> 't" where
  "csv_loop limit ins [] batch n t =
     (if batch = [] then (Inr n, t)
      else case ins batch t of (r, t') \<Rightarrow> (rbind r (\<lambda>u. Inr (n + length batch)), t'))"
| "csv_loop limit ins (r # rs) batch n t =
     (case r of
        Inl e \<Rightarrow> (Inl e, t)
      | Inr row \<Rightarrow>
          (if limit \<le> length (batch @ [row])
           then case ins (batch @ [row]) t of
                  (Inl e, t') \<Rightarrow> (Inl e, t')
                | (Inr u, t') \<Rightarrow> csv_loop limit ins rs [] (n + length (batch @ [row])) t'
           else csv_loop limit ins rs (batch @ [row]) n t))"

definition load_csv :: "('r, 't) insert \<Rightarrow> 'r res list option \<Rightarrow> 't \<Rightarrow> nat res \<times> 't" where
  "load_csv ins rows t = (case rows of None \<Rightarrow> (Inr 0, t) | Some rs \<Rightarrow> csv_loop BATCH ins rs [] 0 t)"


section \<open>The loop over the pages fetches everything\<close>

text \<open>What the broker documents: the pages are consecutive parts of the candles of the symbol, newest first, full
  but for the last, and a token is given while there is more.\<close>

definition serves :: "'b toss_api \<Rightarrow> ('b \<Rightarrow> nat) \<Rightarrow> toss_candle list \<Rightarrow> bool" where
  "serves api pos hist \<longleftrightarrow>
     (\<forall>page. let n = (case page of None \<Rightarrow> 0 | Some b \<Rightarrow> pos b) in
        \<exists>nb. api page = Inr (take PAGE (drop n hist), nb) \<and>
          (case nb of None \<Rightarrow> length hist \<le> n + PAGE | Some b \<Rightarrow> pos b = n + PAGE))"

lemma PAGE_pos: "0 < PAGE" by (simp add: PAGE_def)

lemma page_loop_all:
  assumes "serves api pos hist" "n = (case page of None \<Rightarrow> 0 | Some b \<Rightarrow> pos b)"
    and "\<And>i j. i < j \<Longrightarrow> j < length hist \<Longrightarrow> old (hist ! i) \<Longrightarrow> \<not> keep (hist ! j)"
  shows "page_loop api keep old row page rows = Some (Inr (rows @ map row (filter keep (drop n hist))))"
  using assms(2)
proof (induction "length hist - n" arbitrary: n page rows rule: less_induct)
  case less
  obtain nb where nb: "api page = Inr (take PAGE (drop n hist), nb)" "case nb of None \<Rightarrow> length hist \<le> n + PAGE | Some b \<Rightarrow> pos b = n + PAGE"
    using assms(1) less.prems unfolding serves_def Let_def by blast
  let ?c = "take PAGE (drop n hist)"
  have split: "drop n hist = ?c @ drop (n + PAGE) hist" by (metis append_take_drop_id drop_drop add.commute)
  show ?case
  proof (cases "drop n hist = []")
    case True
    then show ?thesis using nb(1) by (subst page_loop.simps) simp
  next
    case False
    then have n: "n < length hist" by simp
    have ne: "?c \<noteq> []" using False PAGE_pos by simp
    have rest: "filter keep (drop (n + PAGE) hist) = []" if "old (List.last ?c) \<or> nb = None \<or> length ?c < PAGE"
    proof (cases "length hist \<le> n + PAGE")
      case False
      with that nb(2) have o: "old (List.last ?c)" by auto
      have "List.last ?c = hist ! (n + PAGE - 1)" using False PAGE_pos by (simp add: last_conv_nth)
      with o assms(3) False have "\<not> keep (hist ! j)" if "n + PAGE \<le> j" "j < length hist" for j
        using that PAGE_pos by (metis Suc_pred' add_gr_0 diff_less less_le_trans zero_less_one)
      then show ?thesis by (auto simp: filter_empty_conv in_set_conv_nth)
    qed simp
    show ?thesis
    proof (cases "old (List.last ?c) \<or> nb = None \<or> length ?c < PAGE")
      case True
      then show ?thesis using nb(1) ne rest [OF True]
        by (subst page_loop.simps) (simp add: Let_def split [symmetric] del: take_eq_Nil, metis append_Nil2 filter_append split)
    next
      case False
      then obtain b where b: "nb = Some b" "pos b = n + PAGE" using nb(2) by (cases nb) auto
      have "length hist - (n + PAGE) < length hist - n" using n PAGE_pos by simp
      from less.hyps [OF this, of "Some b" "rows @ map row (filter keep ?c)"] b
      have "page_loop api keep old row (Some b) (rows @ map row (filter keep ?c)) =
          Some (Inr (rows @ map row (filter keep ?c) @ map row (filter keep (drop (n + PAGE) hist))))" by simp
      then show ?thesis using nb(1) ne False b(1)
        by (subst page_loop.simps) (simp add: Let_def del: take_eq_Nil, metis filter_append map_append split)
    qed
  qed
qed


lemma insort_key_greatest: "\<forall>y \<in> set ys. f y < f x \<Longrightarrow> insort_key f x ys = ys @ [x]"
  by (induction ys) auto

lemma sort_key_descending: "sorted_wrt (\<lambda>a b. f b < f a) xs \<Longrightarrow> sort_key f xs = rev xs"
  by (induction xs) (auto simp: insort_key_greatest)

lemma fetch_pages_all:
  assumes "serves api pos hist" "sorted_wrt (\<lambda>a b. kst_day (tc_ts b) < kst_day (tc_ts a)) hist"
  shows "fetch_pages api now symbol days = Some (Inr (map (daily_row_of symbol) (rev (filter (daily_kept now days) hist))))"
proof -
  have "page_loop api (daily_kept now days) (\<lambda>c. kst_day (tc_ts c) \<le> kst_day now - int days) (daily_row_of symbol) None [] =
      Some (Inr ([] @ map (daily_row_of symbol) (filter (daily_kept now days) (drop 0 hist))))"
    by (rule page_loop_all [OF assms(1)]) (use assms(2) in \<open>auto simp: daily_kept_def sorted_wrt_iff_nth_less\<close>, fastforce)
  moreover have "sort_key sr_start (map (daily_row_of symbol) (filter (daily_kept now days) hist)) =
      rev (map (daily_row_of symbol) (filter (daily_kept now days) hist))"
    by (rule sort_key_descending)
       (use sorted_wrt_filter [OF assms(2)] in \<open>simp add: sorted_wrt_map daily_row_of_def row_at_def\<close>)
  ultimately show ?thesis by (simp add: fetch_pages_def sorted_rows_def rev_map)
qed

text \<open>C36: The daily candles of a symbol are fetched completely. If the broker serves its candles in pages, newest
  first and one a day, the loop ends, and the result is exactly the candles of the completed days among the last
  \<open>days\<close> days, oldest first; this holds at the first attempt and also when the first token is rejected with a 401
  and the second is not.\<close>

theorem fetch_daily_complete:
  assumes "serves (api k) pos hist" "sorted_wrt (\<lambda>a b. kst_day (tc_ts b) < kst_day (tc_ts a)) hist"
    and "token False = Inr k \<or> (\<exists>k0. token False = Inr k0 \<and> api k0 None = Inl (HTTPStatusError 401) \<and> token True = Inr k)"
  shows "fetch_stock_daily token api now symbol days =
    Some (Inr (map (daily_row_of symbol) (rev (filter (\<lambda>c. kst_day now - int days < kst_day (tc_ts c) \<and> kst_day (tc_ts c) < kst_day now) hist))))"
proof -
  have kept: "daily_kept now days = (\<lambda>c. kst_day now - int days < kst_day (tc_ts c) \<and> kst_day (tc_ts c) < kst_day now)"
    by (rule ext) (simp add: daily_kept_def)
  note all = fetch_pages_all [OF assms(1,2), of now symbol days, unfolded kept]
  have rejected: "fetch_pages (api k0) now symbol days = Some (Inl (HTTPStatusError 401))" if "api k0 None = Inl (HTTPStatusError 401)" for k0
    using that by (simp add: fetch_pages_def sorted_rows_def page_loop.simps [of "api k0"])
  from assms(3) show ?thesis by (auto simp: fetch_stock_daily_def all rejected)
qed

definition demo_candle :: "int \<Rightarrow> toss_candle" where
  "demo_candle d = \<lparr>tc_ts = d * 86400, tc_open = 1, tc_high = 1, tc_low = 1, tc_close = of_int d, tc_volume = 1, tc_currency = ''KRW''\<rparr>"

lemma kst_day_demo: "kst_day (tc_ts (demo_candle d)) = d"
  unfolding kst_day_def demo_candle_def by simp

definition demo_history :: "toss_candle list" where
  "demo_history = map (\<lambda>i. demo_candle (1000 - int i)) [0..<450]"

definition demo_api :: "bool \<Rightarrow> nat toss_api" where
  "demo_api ok page =
     (if \<not> ok then Inl (HTTPStatusError 401)
      else let n = (case page of None \<Rightarrow> 0 | Some b \<Rightarrow> b)
           in Inr (take PAGE (drop n demo_history), if n + PAGE < 450 then Some (n + PAGE) else None))"

lemma filter_upt: "m \<le> n \<Longrightarrow> filter (\<lambda>i. 0 < i \<and> i < m) [0..<n] = [1..<m]"
  by (rule sorted_distinct_set_unique) (auto simp: sorted_wrt_filter)

lemma demo_recent:
  "rev (filter (\<lambda>c. kst_day (1000 * 86400) - int 300 < kst_day (tc_ts c) \<and> kst_day (tc_ts c) < kst_day (1000 * 86400)) demo_history) =
     map (\<lambda>i. demo_candle (1000 - int i)) (rev [1..<300])"
proof -
  have now: "kst_day (1000 * 86400) = 1000" by (simp add: kst_day_def)
  have "(\<lambda>i. 1000 - int 300 < 1000 - int i \<and> 1000 - int i < 1000) = (\<lambda>i. 0 < i \<and> i < 300)" by auto
  then show ?thesis unfolding demo_history_def filter_map comp_def kst_day_demo now rev_map
    by (simp only: filter_upt [of 300 450] order_refl numeral_le_iff semiring_norm simp_thms)
qed

theorem fetch_daily_complete_witness:
  "fetch_stock_daily Inr demo_api (1000 * 86400) ''005930'' 300 =
     Some (Inr (map (\<lambda>i. daily_row_of ''005930'' (demo_candle (1000 - int i))) (rev [1..<300])))"
proof -
  have "serves (demo_api True) id demo_history"
    by (auto simp: serves_def demo_api_def Let_def demo_history_def split: option.splits)
  moreover have "sorted_wrt (\<lambda>a b. kst_day (tc_ts b) < kst_day (tc_ts a)) demo_history"
    unfolding demo_history_def sorted_wrt_map by (simp add: sorted_wrt_iff_nth_less kst_day_demo)
  ultimately have "fetch_stock_daily Inr demo_api (1000 * 86400) ''005930'' 300 =
    Some (Inr (map (daily_row_of ''005930'') (rev (filter (\<lambda>c. kst_day (1000 * 86400) - int 300 < kst_day (tc_ts c) \<and> kst_day (tc_ts c) < kst_day (1000 * 86400)) demo_history))))"
    by (rule fetch_daily_complete) (auto simp: demo_api_def intro!: exI [of _ False])
  then show ?thesis by (simp only: demo_recent map_map comp_def)
qed

section \<open>Loads, the refresh and the cache\<close>

text \<open>The table after the loop is that of the symbols that could be loaded, each once and in the order of the list.\<close>

lemma load_symbols_total:
  assumes "load_symbols one ss n failed t = ((m, bad), t')"
  shows "t' = foldl (\<lambda>t s. snd (one s t)) t ss \<and> (\<exists>bad'. bad = failed @ bad' \<and> set bad' \<subseteq> set ss)"
  using assms by (induction ss arbitrary: n failed t) (fastforce split: prod.splits sum.splits)+

text \<open>Every symbol of a market is counted once: loaded, failed or skipped when the time was up.\<close>

lemma refresh_counts:
  assumes "refresh_market elapsed one ss c t = (c', t')" "co_skipped c = 0"
  shows "co_ok c' + co_fail c' + co_skipped c' = co_ok c + co_fail c + length ss"
  using assms
proof (induction ss arbitrary: c t)
  case (Cons s ss)
  show ?case
  proof (cases "MAX_SECONDS < elapsed t")
    case False
    show ?thesis
    proof (cases "one s t")
      case (Pair r t1)
      then show ?thesis using Cons.prems False Cons.IH [of "c\<lparr>co_fail := co_fail c + 1\<rparr>" t1]
          Cons.IH [of "c\<lparr>co_rows := co_rows c + projr r, co_ok := co_ok c + 1\<rparr>" t1]
        by (cases r) simp_all
    qed
  qed (use Cons.prems in auto)
qed simp

text \<open>A copy without failure inserts every row once, in batches of at most \<open>BATCH\<close>.\<close>

definition collect :: "'r list \<Rightarrow> 'r list list \<Rightarrow> unit res \<times> 'r list list" where
  "collect xs t = (Inr (), t @ [xs])"

lemma csv_loop_all:
  assumes "length batch < limit"
  shows "\<exists>bs. csv_loop limit collect (map Inr rows) batch n t = (Inr (n + length (batch @ rows)), t @ bs) \<and>
    concat bs = batch @ rows \<and> (\<forall>b \<in> set bs. length b \<le> limit)"
  using assms
proof (induction rows arbitrary: batch n t)
  case Nil
  then show ?case
    by (cases "batch = []") (auto simp: collect_def intro: exI [of _ "[]"] exI [of _ "[batch]"])
next
  case (Cons r rows)
  show ?case
  proof (cases "limit \<le> length (batch @ [r])")
    case True
    from Cons.prems have "0 < limit" by auto
    with Cons.IH [of "[]" "n + length (batch @ [r])" "t @ [batch @ [r]]"] obtain bs where
      "csv_loop limit collect (map Inr rows) [] (n + length (batch @ [r])) (t @ [batch @ [r]]) =
         (Inr (n + length (batch @ [r]) + length rows), (t @ [batch @ [r]]) @ bs)" "concat bs = rows" "\<forall>b \<in> set bs. length b \<le> limit"
      by auto
    then show ?thesis using True Cons.prems by (intro exI [of _ "(batch @ [r]) # bs"]) (simp add: add.assoc collect_def [of "batch @ [r]" t])
  next
    case False
    with Cons.IH [of "batch @ [r]" n t] show ?thesis by simp
  qed
qed

section \<open>The selective reload loads what it chose\<close>

definition is_ticker :: "string \<Rightarrow> bool" where
  "is_ticker s \<longleftrightarrow> s \<noteq> [] \<and> list_all (\<lambda>ch. ch \<noteq> CHR '','' \<and> \<not> is_blank ch) s"

lemma split_on_none: "sep \<notin> set s \<Longrightarrow> split_on sep s = [s]"
  by (induction s) auto

lemma split_on_append: "sep \<notin> set s \<Longrightarrow> split_on sep (s @ sep # t) = s # split_on sep t"
  by (induction s) auto

lemma trim_ticker: "is_ticker s \<Longrightarrow> trim s = s"
proof -
  assume s: "is_ticker s"
  have drop: "dropWhile is_blank xs = xs" if "list_all (\<lambda>ch. \<not> is_blank ch) xs" for xs using that by (cases xs) auto
  from s have "list_all (\<lambda>ch. \<not> is_blank ch) s" "list_all (\<lambda>ch. \<not> is_blank ch) (rev s)" by (auto simp: is_ticker_def list_all_iff)
  with drop show ?thesis by (simp add: trim_def)
qed

lemma parts_join: "list_all is_ticker ss \<Longrightarrow> parts CHR '','' (join_comma ss) = ss"
proof (induction ss rule: join_comma.induct)
  case 1
  then show ?case by (simp add: parts_def trim_def)
next
  case (2 s)
  then have "CHR '','' \<notin> set s" "trim s = s" "s \<noteq> []" using trim_ticker [of s] by (auto simp: is_ticker_def list_all_iff)
  then show ?case by (simp add: parts_def split_on_none)
next
  case (3 s v ss)
  then have "CHR '','' \<notin> set s" "trim s = s" "s \<noteq> []" using trim_ticker [of s] by (auto simp: is_ticker_def list_all_iff)
  with 3 show ?case by (simp add: parts_def split_on_append)
qed

text \<open>For each common day the stored and the broker's close agree within the tolerance, or one of the other reasons holds.\<close>

lemma selective_reload_exact:
  assumes "list_all is_ticker symbols"
  shows "selective_run now stored_closes probe True one symbols t =
    (let full = filter (\<lambda>s. needs_full now (stored_closes s t) (probe s)) symbols
     in case load_symbols one full 0 [] t of ((n, failed), t') \<Rightarrow> (if failed \<noteq> [] then 1 else 0, t'))"
proof -
  have "parts CHR '','' (join_comma (filter P symbols)) = filter P symbols" for P
    using assms by (intro parts_join) (auto simp: list_all_iff)
  note clean = this [of "\<lambda>s. needs_full now (stored_closes s t) (probe s)"]
  show ?thesis unfolding selective_run_def load_main_def Let_def clean
    by (cases "filter (\<lambda>s. needs_full now (stored_closes s t) (probe s)) symbols = []") simp_all
qed

end
