(* ===== verification/Bot.thy ===== *)
theory Bot
  imports StockCandles Ichimoku
begin

text \<open>
  The chart bot: the dictionary of names \<open>common/marketdata/stock_names.py\<close>, the chart of a symbol
  \<open>common/chart/symbol_chart.py\<close> without the drawing, the bot \<open>api/telegram_bot.py\<close> and the notices of
  \<open>common/notify_telegram.py\<close>.  Texts are bytes in UTF-8.  The candles of a symbol, the drawing, and
  Telegram's answers to polls and messages are arguments.
\<close>

section \<open>Names\<close>

definition ALIASES :: "(string \<times> string) list" where
  "ALIASES =
     [(utf8 [235, 132, 164, 236, 157, 180, 235, 178, 132], ''035420''),
      (utf8 [236, 151, 148, 236, 148, 168, 236, 134, 140, 237, 148, 132, 237, 138, 184], ''036570''),
      (utf8 [236, 151, 148, 236, 148, 168], ''036570''),
      (''ncsoft'', ''036570''),
      (utf8 [236, 130, 188, 236, 132, 177], ''005930''),
      (''samsung'', ''005930''),
      (''sk'' @ utf8 [237, 149, 152, 236, 157, 180, 235, 139, 137, 236, 138, 164], ''000660''),
      (utf8 [237, 149, 152, 236, 157, 180, 235, 139, 137, 236, 138, 164], ''000660''),
      (''hynix'', ''000660''),
      (utf8 [236, 185, 180, 236, 185, 180, 236, 152, 164], ''035720''),
      (''kakao'', ''035720''),
      (utf8 [236, 185, 180, 236, 185, 180, 236, 152, 164, 235, 177, 133, 237, 129, 172], ''323410''),
      (utf8 [236, 185, 180, 235, 177, 133], ''323410''),
      (utf8 [237, 152, 132, 235, 140, 128, 236, 176, 168], ''005380''),
      (utf8 [237, 152, 132, 235, 140, 128, 236, 158, 144, 235, 143, 153, 236, 176, 168], ''005380''),
      (''hyundai'', ''005380''),
      (utf8 [237, 143, 172, 236, 138, 164, 236, 189, 148], ''005490''),
      (''posco'', ''005490''),
      (utf8 [236, 151, 152, 236, 167, 128, 236, 151, 144, 235, 132, 136, 236, 167, 128, 236, 134, 148, 235, 163, 168, 236, 133, 152], ''373220''),
      (''lg'' @ utf8 [236, 151, 144, 235, 132, 136, 236, 167, 128, 236, 134, 148, 235, 163, 168, 236, 133, 152], ''373220''),
      (utf8 [234, 184, 176, 236, 149, 132], ''000270''),
      (''kia'', ''000270'')]"

text \<open>\<open>_norm\<close>.\<close>

definition norm_text :: "string \<Rightarrow> string" where
  "norm_text s = map to_lower (filter (\<lambda>ch. \<not> is_blank ch) s)"

type_synonym name_row = "string \<times> string \<times> string"

text \<open>\<open>fetch_all\<close>: the bundled file, \<open>None\<close> if it cannot be read.\<close>

definition fetch_all :: "((string \<times> string) list \<times> (string \<times> string) list) option \<Rightarrow> (string \<times> (string \<times> string) list) list" where
  "fetch_all file =
     (case file of
        None \<Rightarrow> [(''KR'', []), (''US'', [])]
      | Some (kr, us) \<Rightarrow> [(''KR'', kr), (''US'', map (\<lambda>(t, nm). (map to_upper t, nm)) us)])"

definition build_index :: "(string \<times> (string \<times> string) list) list \<Rightarrow> name_row list" where
  "build_index names =
     concat (map (\<lambda>(market, pairs). map (\<lambda>(sym, nm). (market, if market = ''US'' then map to_upper sym else sym, nm)) pairs) names)"

text \<open>\<open>refresh_clickhouse\<close>: the rows inserted and their number.\<close>

definition name_rows :: "(string \<times> (string \<times> string) list) list \<Rightarrow> (string \<times> string \<times> string \<times> string) list" where
  "name_rows names =
     concat (map (\<lambda>(market, pairs). map (\<lambda>(sym, nm). (if market = ''US'' then map to_upper sym else sym, market, nm, ''FDR'')) pairs) names)"

definition refresh_names :: "(string \<times> string \<times> string \<times> string, 't) insert \<Rightarrow> (string \<times> (string \<times> string) list) list \<Rightarrow> 't \<Rightarrow> nat res \<times> 't" where
  "refresh_names ins names t = upsert ins (name_rows names) t"

definition is_kr_code :: "string \<Rightarrow> bool" where
  "is_kr_code q \<longleftrightarrow> length q = 6 \<and> list_all is_numeral q"

definition is_letter :: "char \<Rightarrow> bool" where
  "is_letter ch \<longleftrightarrow> (let n = of_char ch :: nat in 65 \<le> n \<and> n \<le> 90 \<or> 97 \<le> n \<and> n \<le> 122)"

definition is_us_ticker :: "string \<Rightarrow> bool" where
  "is_us_ticker q \<longleftrightarrow>
     (case q of
        [] \<Rightarrow> False
      | ch # rest \<Rightarrow> is_letter ch \<and> length rest \<le> 9 \<and>
          list_all (\<lambda>x. is_letter x \<or> is_numeral x \<or> x = CHR ''.'' \<or> x = CHR ''-'') rest)"

definition exact_row :: "name_row list \<Rightarrow> string \<Rightarrow> string \<Rightarrow> string \<Rightarrow> name_row option" where
  "exact_row rows up nq market =
     (case find (\<lambda>(m, s, n). m = market \<and> map to_upper s = up) rows of
        Some r \<Rightarrow> Some r
      | None \<Rightarrow> find (\<lambda>(m, s, n). m = market \<and> norm_text n = nq) rows)"

definition only_row :: "name_row list \<Rightarrow> (string \<Rightarrow> bool) \<Rightarrow> string \<Rightarrow> name_row option" where
  "only_row rows p market =
     (case filter (\<lambda>(m, s, n). m = market \<and> p (norm_text n)) rows of [r] \<Rightarrow> Some r | _ \<Rightarrow> None)"

fun first_some :: "'a option list \<Rightarrow> 'a option" where
  "first_some [] = None"
| "first_some (None # xs) = first_some xs"
| "first_some (Some x # xs) = Some x"

definition resolve :: "name_row list \<Rightarrow> string \<Rightarrow> name_row option" where
  "resolve rows query =
     (let q = trim query; up = map to_upper q; nq = norm_text q
      in if q = [] then None
         else case map_of ALIASES nq of
           Some code \<Rightarrow>
             (case find (\<lambda>(m, s, n). m = ''KR'' \<and> s = code) rows of
                Some r \<Rightarrow> Some r
              | None \<Rightarrow> Some (''KR'', code, q))
         | None \<Rightarrow>
             (case first_some
                     [exact_row rows up nq ''KR'', exact_row rows up nq ''US'',
                      only_row rows (\<lambda>n. begins n nq) ''KR'', only_row rows (\<lambda>n. begins n nq) ''US'',
                      only_row rows (\<lambda>n. contains_text n nq) ''KR'', only_row rows (\<lambda>n. contains_text n nq) ''US''] of
                Some r \<Rightarrow> Some r
              | None \<Rightarrow>
                  if is_kr_code q then Some (''KR'', q, q)
                  else if is_us_ticker q then Some (''US'', up, up)
                  else None))"

section \<open>The chart of a symbol\<close>

datatype cloud_state = NoSignal | Above | Below | Inside

definition cloud_state_of :: "ichimoku_signal option \<Rightarrow> cloud_state" where
  "cloud_state_of sig =
     (case sig of
        None \<Rightarrow> NoSignal
      | Some s \<Rightarrow>
          if i_cloud_top s < i_close s then Above
          else if i_close s < i_cloud_bot s then Below
          else Inside)"

record chart =
  ch_bars :: "ohlc list"
  ch_lines :: "ichimoku_lines option"
  ch_title :: string
  ch_label :: string
  ch_state :: "cloud_state option"

definition KR_WEEKS :: nat where "KR_WEEKS = 104"
definition US_DAYS :: nat where "US_DAYS = 130"
definition KR_FETCH_DAYS :: nat where "KR_FETCH_DAYS = 1400"
definition US_FETCH_DAYS :: nat where "US_FETCH_DAYS = 220"

definition last_lines :: "nat \<Rightarrow> ichimoku_lines \<Rightarrow> ichimoku_lines" where
  "last_lines k ls = \<lparr>l_tenkan = takelast k (l_tenkan ls), l_kijun = takelast k (l_kijun ls),
     l_span_a = takelast k (l_span_a ls), l_span_b = takelast k (l_span_b ls)\<rparr>"

definition chart_for_symbol :: "ohlc list \<Rightarrow> string \<Rightarrow> string \<Rightarrow> string option \<Rightarrow> chart res" where
  "chart_for_symbol daily market symbol name =
     (let label = (case name of None \<Rightarrow> symbol | Some n \<Rightarrow> if n = [] then symbol else n)
      in if market = ''KR''
         then let wb = weekly_bars daily None
              in if length wb < 2 then Inl (ValueError symbol)
                 else let k = min KR_WEEKS (length wb)
                      in Inr \<lparr>ch_bars = takelast k wb, ch_lines = Some (last_lines k (ichimoku_lines_of wb 9 26 52 26)),
                           ch_title = symbol @ '' weekly ichimoku(9/26/52)'', ch_label = label,
                           ch_state = Some (cloud_state_of (latest_signal wb CloudExit 9 26 52 26))\<rparr>
         else if length daily < 2 then Inl (ValueError symbol)
         else Inr \<lparr>ch_bars = map (\<lambda>b. b\<lparr>ohlc.k_volume := Some 0\<rparr>) (takelast US_DAYS daily), ch_lines = None, ch_title = symbol @ '' daily'', ch_label = label,
                ch_state = None\<rparr>)"

section \<open>The bot\<close>

datatype command = Chart string | Help

text \<open>The first word without leading slashes and the name of the bot, and the rest.\<close>

definition parse_command :: "string \<Rightarrow> command option" where
  "parse_command text =
     (let t = trim text; word = takeWhile (\<lambda>ch. \<not> is_blank ch) t; arg = trim (dropWhile (\<lambda>ch. \<not> is_blank ch) t);
          cmd = takeWhile (\<lambda>ch. ch \<noteq> CHR ''@'') (dropWhile (\<lambda>ch. ch = CHR ''/'') (map to_lower word))
      in if t = [] then None
         else if cmd = utf8 [236, 176, 168, 237, 138, 184] \<or> cmd = ''chart'' then Some (if arg \<noteq> [] then Chart arg else Help)
         else if cmd \<in> set [''help'', ''start'', utf8 [235, 143, 132, 236, 155, 128, 235, 167, 144]] then Some Help
         else None)"

datatype answer =
    Photo chart
  | HelpText
  | NotFound string
  | FetchFailed string exc
  | NoCandles string
  | ChartFailed string

text \<open>\<open>handle_chart\<close>: only a \<open>ValueError\<close> of the chart becomes an answer; \<open>draw\<close> is the drawing.\<close>

definition handle_chart ::
  "(string \<Rightarrow> nat \<Rightarrow> stock_row list res) \<Rightarrow> (chart \<Rightarrow> unit res) \<Rightarrow> name_row list \<Rightarrow> string \<Rightarrow> answer res" where
  "handle_chart fetch draw index query =
     (case resolve index query of
        None \<Rightarrow> Inr (NotFound query)
      | Some (market, symbol, name) \<Rightarrow>
          (case fetch symbol (if market = ''KR'' then KR_FETCH_DAYS else US_FETCH_DAYS) of
             Inl e \<Rightarrow> Inr (FetchFailed symbol e)
           | Inr rows \<Rightarrow>
               if rows = [] then Inr (NoCandles symbol)
               else
                 let daily = map (\<lambda>r. ohlc.make (sr_start r div 86400) (sr_open r) (sr_high r) (sr_low r) (sr_close r) None) rows
                 in case rbind (chart_for_symbol daily market symbol (if name \<noteq> symbol then Some name else None))
                           (\<lambda>ch. rbind (draw ch) (\<lambda>u. Inr ch)) of
                      Inr ch \<Rightarrow> Inr (Photo ch)
                    | Inl (ValueError m) \<Rightarrow> Inr (ChartFailed symbol)
                    | Inl e \<Rightarrow> Inl e))"

record message =
  ms_chat :: "int option"
  ms_text :: string

record update =
  up_id :: "int option"
  up_message :: "message option"
  up_edited :: "message option"

text \<open>\<open>_handle_update\<close>: the chat and the answer that is sent to it, if any.\<close>

definition handle_update ::
  "(string \<Rightarrow> answer res) \<Rightarrow> int list \<Rightarrow> update \<Rightarrow> (int \<times> answer) option res" where
  "handle_update chart allowed upd =
     (case (case up_message upd of Some m \<Rightarrow> Some m | None \<Rightarrow> up_edited upd) of
        None \<Rightarrow> Inr None
      | Some msg \<Rightarrow>
          (case ms_chat msg of
             None \<Rightarrow> Inr None
           | Some chat \<Rightarrow>
               if chat \<notin> set allowed then Inr None
               else case parse_command (ms_text msg) of
                      None \<Rightarrow> Inr None
                    | Some Help \<Rightarrow> Inr (Some (chat, HelpText))
                    | Some (Chart q) \<Rightarrow> rbind (chart q) (\<lambda>a. Inr (Some (chat, a)))))"

record bot =
  bo_offset :: int
  bo_backoff :: nat
  bo_slept :: "nat list"
  bo_handled :: "int list"
  bo_sent :: "(int \<times> answer) list"

definition start_bot :: bot where
  "start_bot = \<lparr>bo_offset = 0, bo_backoff = 1, bo_slept = [], bo_handled = [], bo_sent = []\<rparr>"

text \<open>An exception of the poll, or an update without an id, ends the round: the bot waits and polls again.\<close>

definition poll_failed :: "bot \<Rightarrow> bot" where
  "poll_failed st = st\<lparr>bo_slept := bo_slept st @ [min (bo_backoff st) 30], bo_backoff := min (bo_backoff st * 2) 30\<rparr>"

fun handle_updates :: "(update \<Rightarrow> (int \<times> answer) option res) \<Rightarrow> update list \<Rightarrow> bot \<Rightarrow> bot" where
  "handle_updates handle [] st = st\<lparr>bo_backoff := 1\<rparr>"
| "handle_updates handle (u # us) st =
     (case up_id u of
        None \<Rightarrow> poll_failed st
      | Some n \<Rightarrow>
          handle_updates handle us
            (st\<lparr>bo_offset := n + 1, bo_handled := bo_handled st @ [n],
                bo_sent := bo_sent st @ (case handle u of Inr (Some a) \<Rightarrow> [a] | _ \<Rightarrow> [])\<rparr>))"

definition bot_round :: "(update \<Rightarrow> (int \<times> answer) option res) \<Rightarrow> bot \<Rightarrow> update list res \<Rightarrow> bot" where
  "bot_round handle st reply =
     (case reply of
        Inl e \<Rightarrow> poll_failed st
      | Inr us \<Rightarrow> handle_updates handle us st)"

section \<open>Notices\<close>

text \<open>\<open>int(text)\<close> on plain numbers.\<close>

definition parse_int :: "string \<Rightarrow> int option" where
  "parse_int text =
     (let t = trim text; neg = (take 1 t = ''-''); ds = (if t \<noteq> [] \<and> hd t \<in> set ''+-'' then tl t else t)
      in if ds \<noteq> [] \<and> list_all is_numeral ds
         then Some ((if neg then - 1 else 1) * foldl (\<lambda>n ch. 10 * n + (of_char ch - 48)) 0 ds) else None)"

datatype target = ChatId int | Name string

definition target_of :: "string \<Rightarrow> target" where
  "target_of text =
     (let t = (if trim text = [] then ''me'' else trim text)
      in case parse_int t of Some n \<Rightarrow> ChatId n | None \<Rightarrow> Name t)"

text \<open>\<open>_deliver\<close>: whether it was sent.  The library may not be installed; \<open>attempt\<close> is the rate limit and the transmission.\<close>

definition deliver :: "string \<Rightarrow> string \<Rightarrow> string \<Rightarrow> bool \<Rightarrow> ('w \<Rightarrow> unit res \<times> 'w) \<Rightarrow> 'w \<Rightarrow> bool \<times> 'w" where
  "deliver api_id api_hash session installed attempt w =
     (if trim api_id = [] \<or> trim api_hash = [] \<or> trim session = [] then (False, w)
      else if parse_int api_id = None then (False, w)
      else if \<not> installed then (False, w)
      else case attempt w of (r, w') \<Rightarrow> (is_ok r, w'))"

definition notify_main :: "(string \<Rightarrow> 'w \<Rightarrow> bool \<times> 'w) \<Rightarrow> string list \<Rightarrow> string \<Rightarrow> 'w \<Rightarrow> int \<times> 'w" where
  "notify_main send args stdin w =
     (let text = (if args \<noteq> [] \<and> args \<noteq> [''-''] then trim (concat (case args of [] \<Rightarrow> [] | a # as \<Rightarrow> a # map (\<lambda>x. CHR '' '' # x) as)) else trim stdin)
      in if text = [] then (2, w)
         else case send text w of (ok, w') \<Rightarrow> (if ok then 0 else 2, w'))"


section \<open>What the dictionary finds\<close>

lemma first_some_cases: "first_some xs = Some x \<Longrightarrow> Some x \<in> set xs"
  by (induction xs rule: first_some.induct) auto

lemma find_SomeD: "find P rows = Some r \<Longrightarrow> r \<in> set rows \<and> P r"
  by (induction rows) (auto split: if_splits)

lemma exact_row_in: "exact_row rows up nq market = Some r \<Longrightarrow> r \<in> set rows \<and> fst r = market"
  by (auto simp: exact_row_def split: option.splits dest: find_SomeD)

lemma only_row_in: "only_row rows p market = Some r \<Longrightarrow> r \<in> set rows \<and> fst r = market"
proof -
  assume "only_row rows p market = Some r"
  then have "filter (\<lambda>(m, s, n). m = market \<and> p (norm_text n)) rows = [r]" by (auto simp: only_row_def split: list.splits)
  then have "r \<in> set (filter (\<lambda>(m, s, n). m = market \<and> p (norm_text n)) rows)" by simp
  then show ?thesis by auto
qed

lemmas row_in = exact_row_in [OF sym] only_row_in [OF sym]

text \<open>What is found is a row of the dictionary, a Korean code or an American ticker.\<close>

lemma resolve_sound:
  assumes "resolve rows q = Some (m, s, n)"
  shows "(m, s, n) \<in> set rows \<or> m = ''KR'' \<and> (s \<in> snd ` set ALIASES \<or> is_kr_code s) \<or> m = ''US'' \<and> s = map to_upper (trim q) \<and> is_us_ticker (trim q)"
proof (cases "map_of ALIASES (norm_text (trim q))")
  case (Some code)
  then have "code \<in> snd ` set ALIASES" by (metis map_of_SomeD snd_conv image_eqI)
  with assms Some show ?thesis
    by (auto simp: resolve_def Let_def split: option.splits if_splits dest: find_SomeD)
next
  case None
  let ?up = "map to_upper (trim q)" and ?nq = "norm_text (trim q)"
  let ?rows = "[exact_row rows ?up ?nq ''KR'', exact_row rows ?up ?nq ''US'',
    only_row rows (\<lambda>n. begins n ?nq) ''KR'', only_row rows (\<lambda>n. begins n ?nq) ''US'',
    only_row rows (\<lambda>n. contains_text n ?nq) ''KR'', only_row rows (\<lambda>n. contains_text n ?nq) ''US'']"
  have listed: "r \<in> set rows" if "first_some ?rows = Some r" for r
    using first_some_cases [OF that] by (auto dest: row_in)
  show ?thesis
  proof (cases "first_some ?rows")
    case (Some r)
    have "trim q \<noteq> []" using assms by (auto simp: resolve_def Let_def)
    then have "resolve rows q = Some r" unfolding resolve_def Let_def None Some option.case by simp
    with assms have "r = (m, s, n)" by simp
    with listed [OF Some] show ?thesis by blast
  next
    case none: None
    show ?thesis using assms unfolding resolve_def Let_def None none option.case by (auto split: if_splits)
  qed
qed

text \<open>A ticker that is not in the dictionary is not always taken as it is: the beginning of one name is enough for another symbol.\<close>

lemma unlisted_ticker_shadowed:
  "resolve [(''KR'', ''005380'', ''Hyundai Motor''), (''US'', ''AAPL'', ''Apple Inc'')] ''APP'' = Some (''US'', ''AAPL'', ''Apple Inc'')"
  "is_us_ticker ''APP''"
proof -
  let ?rows = "[(''KR'', ''005380'', ''Hyundai Motor''), (''US'', ''AAPL'', ''Apple Inc'')]"
  have q: "trim ''APP'' = ''APP''" "map to_upper ''APP'' = ''APP''" "norm_text ''APP'' = ''app''"
    by code_simp+
  have a: "map_of ALIASES ''app'' = None" by (simp add: ALIASES_def utf8_def)
  have r: "exact_row ?rows ''APP'' ''app'' ''KR'' = None" "exact_row ?rows ''APP'' ''app'' ''US'' = None"
      "only_row ?rows (\<lambda>n. begins n ''app'') ''KR'' = None"
      "only_row ?rows (\<lambda>n. begins n ''app'') ''US'' = Some (''US'', ''AAPL'', ''Apple Inc'')"
    by code_simp+
  show "resolve ?rows ''APP'' = Some (''US'', ''AAPL'', ''Apple Inc'')"
    unfolding resolve_def Let_def q a r first_some.simps option.case by simp
  show "is_us_ticker ''APP''" by code_simp
qed

section \<open>The bot answers allowed chats, once\<close>

text \<open>What Telegram documents: a poll returns updates from the offset on, in the order of their numbers.\<close>

definition from_offset :: "bot \<Rightarrow> update list res \<Rightarrow> bool" where
  "from_offset st reply \<longleftrightarrow>
     (case reply of
        Inl e \<Rightarrow> True
      | Inr us \<Rightarrow> \<exists>ns. map up_id us = map Some ns \<and> sorted_wrt (<) ns \<and> list_all (\<lambda>n. bo_offset st \<le> n) ns)"

fun bot_run :: "(update \<Rightarrow> (int \<times> answer) option res) \<Rightarrow> bot \<Rightarrow> update list res list \<Rightarrow> bot" where
  "bot_run handle st [] = st"
| "bot_run handle st (r # rs) = bot_run handle (bot_round handle st r) rs"

fun documented :: "(update \<Rightarrow> (int \<times> answer) option res) \<Rightarrow> bot \<Rightarrow> update list res list \<Rightarrow> bool" where
  "documented handle st [] = True"
| "documented handle st (r # rs) = (from_offset st r \<and> documented handle (bot_round handle st r) rs)"

definition bot_inv :: "int list \<Rightarrow> bot \<Rightarrow> bool" where
  "bot_inv allowed st \<longleftrightarrow> sorted_wrt (<) (bo_handled st) \<and> list_all (\<lambda>n. n < bo_offset st) (bo_handled st) \<and>
     list_all (\<lambda>(chat, a). chat \<in> set allowed) (bo_sent st) \<and> length (bo_sent st) \<le> length (bo_handled st) \<and>
     1 \<le> bo_backoff st \<and> bo_backoff st \<le> 30 \<and> list_all (\<lambda>n. n \<le> 30) (bo_slept st)"

lemma handle_update_allowed: "handle_update chart allowed u = Inr (Some (chat, a)) \<Longrightarrow> chat \<in> set allowed"
  by (auto simp: handle_update_def split: option.splits if_splits command.splits)

lemma handle_updates_inv:
  assumes "bot_inv allowed st" "map up_id us = map Some ns" "sorted_wrt (<) ns" "list_all (\<lambda>n. bo_offset st \<le> n) ns"
  shows "bot_inv allowed (handle_updates (handle_update chart allowed) us st)"
  using assms
proof (induction us arbitrary: st ns)
  case Nil
  then show ?case by (simp add: bot_inv_def)
next
  case (Cons u us)
  obtain n ms where ns: "ns = n # ms" "up_id u = Some n" "map up_id us = map Some ms" using Cons.prems(2) by (cases ns) auto
  let ?st = "st\<lparr>bo_offset := n + 1, bo_handled := bo_handled st @ [n],
    bo_sent := bo_sent st @ (case handle_update chart allowed u of Inr (Some a) \<Rightarrow> [a] | _ \<Rightarrow> [])\<rparr>"
  have "bo_offset st \<le> n" using Cons.prems(4) ns(1) by simp
  then have "bot_inv allowed ?st" using Cons.prems(1) handle_update_allowed [of chart allowed u]
    by (auto simp: bot_inv_def sorted_wrt_append list_all_iff split: sum.splits option.splits)
  moreover have "list_all (\<lambda>x. bo_offset ?st \<le> x) ms" "sorted_wrt (<) ms" using Cons.prems(3) by (auto simp: ns(1) list_all_iff)
  ultimately have "bot_inv allowed (handle_updates (handle_update chart allowed) us ?st)" using Cons.IH ns(3) by blast
  then show ?case by (simp add: ns(2))
qed

lemma poll_failed_inv: "bot_inv allowed st \<Longrightarrow> bot_inv allowed (poll_failed st)"
  by (simp add: bot_inv_def poll_failed_def)

text \<open>C37: The bot answers only the chats of the list, and every update at most once. In any run in which polls fail and
  Telegram numbers its updates as documented, the updates are handled in increasing order without repetition, there is
  at most one answer for each, every answer goes to a chat of the list, none if the list is empty, and no wait is
  longer than 30 seconds.\<close>

theorem bot_answers_allowed_chats_once:
  assumes "documented (handle_update chart allowed) start_bot rs" "st = bot_run (handle_update chart allowed) start_bot rs"
  shows "sorted_wrt (<) (bo_handled st) \<and> length (bo_sent st) \<le> length (bo_handled st) \<and>
    (\<forall>(chat, a) \<in> set (bo_sent st). chat \<in> set allowed) \<and> (allowed = [] \<longrightarrow> bo_sent st = []) \<and> (\<forall>n \<in> set (bo_slept st). n \<le> 30)"
proof -
  have "bot_inv allowed (bot_run (handle_update chart allowed) s rs)" if "bot_inv allowed s" "documented (handle_update chart allowed) s rs" for s
    using that
  proof (induction rs arbitrary: s)
    case (Cons r rs)
    have "bot_inv allowed (bot_round (handle_update chart allowed) s r)"
    proof (cases r)
      case (Inl e)
      then show ?thesis using Cons.prems(1) by (simp add: bot_round_def poll_failed_inv)
    next
      case (Inr us)
      then show ?thesis using Cons.prems handle_updates_inv by (auto simp: bot_round_def from_offset_def)
    qed
    with Cons.IH Cons.prems(2) show ?case by simp
  qed simp
  moreover have "bot_inv allowed start_bot" by (simp add: bot_inv_def start_bot_def)
  ultimately have "bot_inv allowed st" using assms by blast
  then show ?thesis unfolding bot_inv_def list_all_iff by (cases "bo_sent st") auto
qed

definition demo_updates :: "update list res list" where
  "demo_updates = [Inl TransportError,
     Inr [\<lparr>up_id = Some 5, up_message = Some \<lparr>ms_chat = Some 1, ms_text = ''/help''\<rparr>, up_edited = None\<rparr>,
          \<lparr>up_id = Some 7, up_message = Some \<lparr>ms_chat = Some 2, ms_text = ''/chart AAPL''\<rparr>, up_edited = None\<rparr>],
     Inr [\<lparr>up_id = Some 9, up_message = None, up_edited = Some \<lparr>ms_chat = Some 1, ms_text = ''/Chart@my_bot AAPL''\<rparr>\<rparr>]]"

theorem bot_answers_allowed_chats_once_witness:
  "let st = bot_run (handle_update (\<lambda>q. Inr (NotFound q)) [1]) start_bot demo_updates
   in sorted_wrt (<) (bo_handled st) \<and> bo_handled st = [5, 7, 9] \<and> bo_sent st = [(1, HelpText), (1, NotFound ''AAPL'')] \<and> (\<forall>n \<in> set (bo_slept st). n \<le> 30)"
proof -
  have run: "bot_run (handle_update (\<lambda>q. Inr (NotFound q)) [1]) start_bot demo_updates =
      \<lparr>bo_offset = 10, bo_backoff = 1, bo_slept = [1], bo_handled = [5, 7, 9], bo_sent = [(1, HelpText), (1, NotFound ''AAPL'')]\<rparr>"
    by code_simp
  have "documented (handle_update (\<lambda>q. Inr (NotFound q)) [1]) start_bot demo_updates"
    unfolding demo_updates_def documented.simps
    by (intro conjI TrueI; simp add: from_offset_def bot_round_def poll_failed_def start_bot_def;
        intro exI [of _ "[5, 7]"] exI [of _ "[9]"]; simp)
  from bot_answers_allowed_chats_once [OF this refl] run show ?thesis by (simp add: Let_def)
qed

end
