(* ===== verification/RawFiles.thy ===== *)
theory RawFiles
  imports Texts Kis
begin

text \<open>
  The loaders of public files: \<open>batch/rawdata/insider.py\<close>, \<open>sec_13f.py\<close>, \<open>finra_short.py\<close>,
  \<open>factor_returns.py\<close>, \<open>earnings.py\<close>, \<open>sec_sector.py\<close>, \<open>kr_delisted.py\<close> and \<open>fred.py\<close>.  A file is the list
  of its lines, an archive the list of its members; downloads are arguments, and so is
  \<open>strptime\<close> as a function of the format and the text.  Numbers in the files are plain decimals.
  Days are numbered; the order of the keys of a dictionary is that of an association list.
\<close>

section \<open>Archives and cells\<close>

definition to_float0 :: "string \<Rightarrow> rat" where
  "to_float0 s = (case parse_float s of None \<Rightarrow> 0 | Some x \<Rightarrow> x)"

type_synonym archive = "(string \<times> string list) list"

definition ends_with :: "string \<Rightarrow> string \<Rightarrow> bool" where
  "ends_with s t \<longleftrightarrow> length t \<le> length s \<and> drop (length s - length t) s = t"

definition cells :: "string \<Rightarrow> string list" where
  "cells line = split_on (CHR 0x09) line"

text \<open>\<open>_reader\<close>: the columns of the header, a later one of the same name winning, and the other lines.\<close>

definition header_index :: "string list \<Rightarrow> (string \<times> nat) list" where
  "header_index hs = foldl (\<lambda>m (i, h). AList.update (map to_upper (trim h)) i m) [] (enumerate 0 hs)"

definition reader :: "archive \<Rightarrow> string \<Rightarrow> ((string \<times> nat) list \<times> string list) option" where
  "reader zf suffix =
     (case find (\<lambda>(n, ls). ends_with (map to_upper n) suffix) zf of
        None \<Rightarrow> None
      | Some (n, ls) \<Rightarrow> Some (header_index (cells (case ls of [] \<Rightarrow> [] | l # rest \<Rightarrow> l)), tl ls))"

definition cell :: "string list \<Rightarrow> (string \<times> nat) list \<Rightarrow> string \<Rightarrow> string" where
  "cell ps idx key =
     (case map_of idx key of
        None \<Rightarrow> []
      | Some i \<Rightarrow> if i < length ps then trim (ps ! i) else [])"

type_synonym strptime = "string \<Rightarrow> string \<Rightarrow> int option"

text \<open>\<open>_fetch_zip\<close> of the insider trades: the file on the disk, at most one download of it if it is missing and one
  more if it is damaged.  \<open>zip_of\<close> reads a content, \<open>rs\<close> are the replies in order.\<close>

fun fetch_zip :: "nat \<Rightarrow> ('b \<Rightarrow> archive option) \<Rightarrow> (int \<times> 'b) list \<Rightarrow> 'b option \<Rightarrow> archive option res \<times> 'b option" where
  "fetch_zip 0 zip_of rs disk = (Inr None, disk)"
| "fetch_zip (Suc n) zip_of rs (Some b) =
     (case zip_of b of Some z \<Rightarrow> (Inr (Some z), Some b) | None \<Rightarrow> fetch_zip n zip_of rs None)"
| "fetch_zip (Suc n) zip_of [] None = (Inl TransportError, None)"
| "fetch_zip (Suc n) zip_of ((status, b) # rs) None =
     (if status \<in> {403, 404} then (Inr None, None)
      else if \<not> (200 \<le> status \<and> status < 300) then (Inl (HTTPStatusError status), None)
      else case zip_of b of Some z \<Rightarrow> (Inr (Some z), Some b) | None \<Rightarrow> fetch_zip n zip_of rs None)"

section \<open>Insider trades\<close>

definition FORMATS :: "string list" where
  "FORMATS = [''%d-%b-%Y'', ''%Y-%m-%d'', ''%Y%m%d'', ''%m/%d/%Y'']"

fun first_format :: "strptime \<Rightarrow> string list \<Rightarrow> string \<Rightarrow> int option" where
  "first_format day_of [] s = None"
| "first_format day_of (f # fs) s = (case day_of f s of Some d \<Rightarrow> Some d | None \<Rightarrow> first_format day_of fs s)"

definition parse_date :: "strptime \<Rightarrow> string \<Rightarrow> int option" where
  "parse_date day_of s = (let t = trim s in if t = [] then None else first_format day_of FORMATS t)"

definition relationship :: "string list \<Rightarrow> (string \<times> nat) list \<Rightarrow> string" where
  "relationship ps idx =
     (let rel = map to_lower (cell ps idx ''RPTOWNER_RELATIONSHIP'')
      in if contains_text rel ''director'' then ''director''
         else if contains_text rel ''officer'' then ''officer''
         else if contains_text rel ''tenpercent'' then ''tenpct''
         else ''other'')"

record insider =
  in_symbol :: string
  in_traded :: int
  in_filed :: int
  in_accession :: string
  in_sk :: string
  in_owner :: string
  in_relation :: string
  in_code :: string
  in_acquired :: string
  in_shares :: rat
  in_price :: rat
  in_after :: rat

text \<open>The filings of the universe, the first owner of each, and the trades.\<close>

definition submissions :: "strptime \<Rightarrow> string list \<Rightarrow> (string \<times> nat) list \<Rightarrow> string list \<Rightarrow> (string \<times> string \<times> int option) list" where
  "submissions day_of symbols idx ls =
     foldl (\<lambda>m l. let p = cells l; ticker = map to_upper (cell p idx ''ISSUERTRADINGSYMBOL'')
                  in if ticker \<notin> set symbols then m
                     else AList.update (cell p idx ''ACCESSION_NUMBER'') (ticker, parse_date day_of (cell p idx ''FILING_DATE'')) m) [] ls"

definition owners :: "(string \<times> string \<times> int option) list \<Rightarrow> ((string \<times> nat) list \<times> string list) option \<Rightarrow> (string \<times> string \<times> string) list" where
  "owners sub r =
     (case r of
        None \<Rightarrow> []
      | Some (idx, ls) \<Rightarrow>
          foldl (\<lambda>m l. let p = cells l; acc = cell p idx ''ACCESSION_NUMBER''
                       in if map_of sub acc \<noteq> None \<and> map_of m acc = None
                          then AList.update acc (cell p idx ''RPTOWNERCIK'', relationship p idx) m else m) [] ls)"

definition trade_row :: "strptime \<Rightarrow> (string \<times> string \<times> int option) list \<Rightarrow> (string \<times> string \<times> string) list \<Rightarrow> (string \<times> nat) list \<Rightarrow> string \<Rightarrow> insider option" where
  "trade_row day_of sub own idx l =
     (let p = cells l; acc = cell p idx ''ACCESSION_NUMBER''
      in case map_of sub acc of
           None \<Rightarrow> None
         | Some (ticker, filed) \<Rightarrow>
             (case parse_date day_of (cell p idx ''TRANS_DATE'') of
                None \<Rightarrow> None
              | Some tdate \<Rightarrow>
                  (case get_or own acc ([], ''other'') of (ocik, rel) \<Rightarrow>
                     Some \<lparr>in_symbol = ticker, in_traded = tdate, in_filed = (case filed of None \<Rightarrow> tdate | Some d \<Rightarrow> d), in_accession = acc,
                        in_sk = cell p idx ''NONDERIV_TRANS_SK'', in_owner = ocik, in_relation = rel,
                        in_code = cell p idx ''TRANS_CODE'', in_acquired = cell p idx ''TRANS_ACQUIRED_DISP_CD'',
                        in_shares = to_float0 (cell p idx ''TRANS_SHARES''), in_price = to_float0 (cell p idx ''TRANS_PRICEPERSHARE''),
                        in_after = to_float0 (cell p idx ''SHRS_OWND_FOLWNG_TRANS'')\<rparr>)))"

definition quarter_rows :: "strptime \<Rightarrow> archive \<Rightarrow> string list \<Rightarrow> insider list" where
  "quarter_rows day_of zf symbols =
     (case reader zf ''SUBMISSION.TSV'' of
        None \<Rightarrow> []
      | Some (sidx, sls) \<Rightarrow>
          (let sub = submissions day_of symbols sidx sls
           in if sub = [] then []
              else
                let own = owners sub (reader zf ''REPORTINGOWNER.TSV'')
                in case reader zf ''NONDERIV_TRANS.TSV'' of
                     None \<Rightarrow> []
                   | Some (tidx, tls) \<Rightarrow> List.map_filter (trade_row day_of sub own tidx) tls))"

text \<open>The loop of \<open>collect\<close>: the archives of the quarters, \<open>None\<close> if not published, or an exception; the rows inserted.\<close>

fun collect_quarters :: "(archive \<Rightarrow> insider list) \<Rightarrow> archive option res list \<Rightarrow> insider list \<Rightarrow> insider list \<times> unit res" where
  "collect_quarters rows_of [] acc = (acc, Inr ())"
| "collect_quarters rows_of (q # qs) acc =
     (case q of
        Inl e \<Rightarrow> (acc, Inl e)
      | Inr None \<Rightarrow> collect_quarters rows_of qs acc
      | Inr (Some zf) \<Rightarrow> collect_quarters rows_of qs (acc @ rows_of zf))"

definition collect_insiders :: "strptime \<Rightarrow> string list \<Rightarrow> archive option res list \<Rightarrow> insider list \<times> nat res" where
  "collect_insiders day_of symbols qs =
     (if symbols = [] then ([], Inl (RuntimeError ''universe''))
      else case collect_quarters (\<lambda>zf. quarter_rows day_of zf symbols) qs [] of
             (rows, Inl e) \<Rightarrow> (rows, Inl e)
           | (rows, Inr u) \<Rightarrow> (rows, if rows = [] then Inl (RuntimeError ''no row'') else Inr (length rows)))"

section \<open>Holdings of institutions\<close>

record holding =
  ho_filers :: "string list"
  ho_shares :: rat
  ho_value :: rat

definition no_holding :: holding where
  "no_holding = \<lparr>ho_filers = [], ho_shares = 0, ho_value = 0\<rparr>"

text \<open>\<open>float(p or 0)\<close>.\<close>

definition number_or_0 :: "string \<Rightarrow> rat option" where
  "number_or_0 s = (if s = [] then Some 0 else parse_float s)"

definition add_line :: "string list \<Rightarrow> holding \<Rightarrow> holding" where
  "add_line p a =
     (let a1 = a\<lparr>ho_filers := (if p ! 0 \<in> set (ho_filers a) then ho_filers a else ho_filers a @ [p ! 0])\<rparr>
      in case number_or_0 (p ! 6) of
           None \<Rightarrow> a1
         | Some v \<Rightarrow>
             (let a2 = a1\<lparr>ho_value := fadd (ho_value a1) v\<rparr>
              in if map to_upper (trim (p ! 8)) = ''SH''
                 then (case number_or_0 (p ! 7) of None \<Rightarrow> a2 | Some n \<Rightarrow> a2\<lparr>ho_shares := fadd (ho_shares a2) n\<rparr>)
                 else a2))"

definition is_share_line :: "string list \<Rightarrow> bool" where
  "is_share_line p \<longleftrightarrow> 10 \<le> length p \<and> trim (p ! 9) = []"

definition aggregate13 :: "string list \<Rightarrow> string list \<Rightarrow> (string \<times> holding) list" where
  "aggregate13 ls cusips =
     foldl (\<lambda>m l. let p = cells l
                  in if is_share_line p \<and> p ! 4 \<in> set cusips then AList.update (p ! 4) (add_line p (get_or m (p ! 4) no_holding)) m else m)
       [] (tl ls)"

text \<open>The 3000 securities with the most filers in the newest complete quarter.\<close>

definition filers_of :: "string list \<Rightarrow> (string \<times> string list) list" where
  "filers_of ls =
     foldl (\<lambda>m l. let p = cells l
                  in if is_share_line p then AList.update (p ! 4) (if p ! 0 \<in> set (get_or m (p ! 4) []) then get_or m (p ! 4) [] else get_or m (p ! 4) [] @ [p ! 0]) m
                     else m) [] (tl ls)"

definition top_cusips :: "string list \<Rightarrow> string list" where
  "top_cusips ls = take 3000 (map fst (sort_key (\<lambda>(c, fs). - int (length fs)) (filers_of ls)))"

text \<open>\<open>_cusip_to_ticker\<close>: batches of ten, answered with the tickers of the batch or not at all; the cache file is
  written after the last batch.\<close>

type_synonym figi = "string list \<Rightarrow> string option list option res"

function map_batches :: "figi \<Rightarrow> string list \<Rightarrow> (string \<times> string option) list \<Rightarrow> (string \<times> string option) list res" where
  "map_batches figi todo cache =
     (if todo = [] then Inr cache
      else rbind (figi (take 10 todo)) (\<lambda>r.
             map_batches figi (drop 10 todo)
               (case r of None \<Rightarrow> cache | Some tks \<Rightarrow> foldl (\<lambda>m (cu, tk). AList.update cu tk m) cache (zip (take 10 todo) tks))))"
  by pat_completeness auto
termination by (relation "measure (\<lambda>(f, todo, c). length todo)") auto

declare map_batches.simps [simp del]

definition cusip_to_ticker :: "figi \<Rightarrow> string list \<Rightarrow> string list \<Rightarrow> (string \<times> string option) list \<Rightarrow> (string \<times> string) list res \<times> (string \<times> string option) list" where
  "cusip_to_ticker figi symbols cusips cache =
     (case map_batches figi (filter (\<lambda>c. map_of cache c = None) cusips) cache of
        Inl e \<Rightarrow> (Inl e, cache)
      | Inr cache' \<Rightarrow>
          (Inr (List.map_filter (\<lambda>(cu, tk). case tk of None \<Rightarrow> None | Some t \<Rightarrow> if t \<in> set symbols then Some (cu, t) else None) cache'),
           cache'))"

text \<open>\<open>_zip_urls\<close>: the last day of the data of a file, as year, month and day.  \<open>m\<close> and \<open>q\<close> are the groups the two
  patterns \<open>-DDmonYYYY_form13f\<close> and \<open>YYYYqN_form13f\<close> find in its name; they name existing days.\<close>

definition MONTHS :: "(string \<times> int) list" where
  "MONTHS = [(''jan'', 1), (''feb'', 2), (''mar'', 3), (''apr'', 4), (''may'', 5), (''jun'', 6),
             (''jul'', 7), (''aug'', 8), (''sep'', 9), (''oct'', 10), (''nov'', 11), (''dec'', 12)]"

definition quarter_end :: "int \<Rightarrow> int \<Rightarrow> (int \<times> int \<times> int) res" where
  "quarter_end y q =
     (if q \<in> {1, 2, 3, 4} then Inr (y, 3 * q, [31, 30, 30, 31] ! nat (q - 1))
      else if q = 0 then Inl (ValueError ''month'') else Inl IndexError)"

definition zip_period :: "(int \<times> string \<times> int) option \<Rightarrow> (int \<times> int) option \<Rightarrow> (int \<times> int \<times> int) option res" where
  "zip_period m q =
     (case m of
        Some (d, mon, y) \<Rightarrow> (case map_of MONTHS mon of None \<Rightarrow> Inl (KeyError mon) | Some k \<Rightarrow> Inr (Some (y, k, d)))
      | None \<Rightarrow> (case q of Some (y, n) \<Rightarrow> rbind (quarter_end y n) (\<lambda>e. Inr (Some e)) | None \<Rightarrow> Inr None))"

definition zip_urls ::
  "(string \<Rightarrow> (int \<times> string \<times> int) option) \<Rightarrow> (string \<Rightarrow> (int \<times> int) option) \<Rightarrow> int \<Rightarrow> string list \<Rightarrow> (string \<times> int \<times> int \<times> int) list res" where
  "zip_urls m_of q_of start_year urls =
     rbind (rmap (\<lambda>u. let name = List.last (split_on CHR ''/'' u) in rbind (zip_period (m_of name) (q_of name)) (\<lambda>p. Inr (u, p))) urls) (\<lambda>ps.
       Inr (sort_key (\<lambda>(u, y, k, d). (y * 12 + k) * 31 + d)
              (List.map_filter (\<lambda>(u, p). case p of None \<Rightarrow> None | Some (y, k, d) \<Rightarrow> if start_year \<le> y then Some (u, y, k, d) else None) ps)))"

definition boot_quarter :: "int \<Rightarrow> ('u \<times> int) list \<Rightarrow> ('u \<times> int) res" where
  "boot_quarter cutoff quarters =
     (let old = filter (\<lambda>q. snd q \<le> cutoff) quarters; qs = (if old = [] then quarters else old)
      in if qs = [] then Inl IndexError else Inr (List.last qs))"

type_synonym row13 = "(string \<times> int) \<times> nat \<times> rat \<times> rat"

definition rows13 :: "(string \<times> string) list \<Rightarrow> int \<Rightarrow> string list \<Rightarrow> row13 list" where
  "rows13 tickers period ls =
     List.map_filter (\<lambda>(cu, a). map_option (\<lambda>tk. ((tk, period), length (ho_filers a), ho_shares a, ho_value a)) (map_of tickers cu))
       (aggregate13 ls (map fst tickers))"

text \<open>The table keeps the last row of a symbol and a period.\<close>

definition stored13 :: "row13 list \<Rightarrow> ((string \<times> int) \<times> nat \<times> rat \<times> rat) list" where
  "stored13 rows = foldl (\<lambda>m (k, v). AList.update k v m) [] rows"

fun collect13_loop :: "(string \<times> string) list \<Rightarrow> (string list option res \<times> int) list \<Rightarrow> row13 list \<Rightarrow> row13 list \<times> unit res" where
  "collect13_loop tickers [] acc = (acc, Inr ())"
| "collect13_loop tickers ((f, period) # qs) acc =
     (case f of
        Inl e \<Rightarrow> (acc, Inl e)
      | Inr None \<Rightarrow> collect13_loop tickers qs acc
      | Inr (Some ls) \<Rightarrow> collect13_loop tickers qs (acc @ rows13 tickers period ls))"

definition collect13 :: "(string list \<Rightarrow> (string \<times> string) list res) \<Rightarrow> int \<Rightarrow> (string list option res \<times> int) list \<Rightarrow> row13 list \<times> nat res" where
  "collect13 tickers_of today quarters =
     (case boot_quarter (today - 50) quarters of
        Inl e \<Rightarrow> ([], Inl e)
      | Inr (Inl e, p) \<Rightarrow> ([], Inl e)
      | Inr (Inr None, p) \<Rightarrow> ([], Inl AttributeError)
      | Inr (Inr (Some ls), p) \<Rightarrow>
          (case tickers_of (top_cusips ls) of
             Inl e \<Rightarrow> ([], Inl e)
           | Inr tickers \<Rightarrow>
               (case collect13_loop tickers quarters [] of
                  (rows, Inl e) \<Rightarrow> (rows, Inl e)
                | (rows, Inr u) \<Rightarrow> (rows, if rows = [] then Inl (RuntimeError ''no row'') else Inr (length rows)))))"

section \<open>Short positions\<close>

record short_us =
  su_date :: int
  su_symbol :: string
  su_volume :: rat
  su_quantity :: rat

definition finra_row :: "strptime \<Rightarrow> string list \<Rightarrow> nat \<Rightarrow> nat \<Rightarrow> nat option \<Rightarrow> nat \<Rightarrow> string \<Rightarrow> short_us option" where
  "finra_row day_of symbols c_sym c_qty c_adv c_set l =
     (let p = split_on CHR ''|'' l; maxi = Max (set ([c_sym, c_qty, c_set] @ (case c_adv of None \<Rightarrow> [] | Some i \<Rightarrow> [i])))
      in if length p \<le> maxi then None
         else
           let ticker = map to_upper (trim (p ! c_sym))
           in if ticker \<notin> set symbols then None
              else case day_of ''%Y-%m-%d'' (trim (p ! c_set)) of
                     None \<Rightarrow> None
                   | Some d \<Rightarrow>
                       Some \<lparr>su_date = d, su_symbol = ticker, su_volume = (case c_adv of None \<Rightarrow> 0 | Some i \<Rightarrow> to_float0 (p ! i)),
                          su_quantity = to_float0 (p ! c_qty)\<rparr>)"

definition finra_index :: "string \<Rightarrow> (string \<times> nat) list" where
  "finra_index l = foldl (\<lambda>m (i, h). AList.update (trim h) i m) [] (enumerate 0 (split_on CHR ''|'' l))"

definition finra_parse :: "strptime \<Rightarrow> string list \<Rightarrow> string list \<Rightarrow> short_us list" where
  "finra_parse day_of symbols ls =
     (case ls of
        [] \<Rightarrow> []
      | h # rest \<Rightarrow>
          (let idx = finra_index h
           in case (map_of idx ''symbolCode'', map_of idx ''currentShortPositionQuantity'', map_of idx ''settlementDate'') of
                (Some c_sym, Some c_qty, Some c_set) \<Rightarrow>
                  List.map_filter (finra_row day_of symbols c_sym c_qty (map_of idx ''averageDailyVolumeQuantity'') c_set) rest
              | _ \<Rightarrow> []))"

text \<open>The files of the last days, \<open>None\<close> for a status other than 200.\<close>

definition finra_collect :: "strptime \<Rightarrow> string list \<Rightarrow> string list option list \<Rightarrow> short_us list \<times> nat res" where
  "finra_collect day_of symbols files =
     (if symbols = [] then ([], Inl (RuntimeError ''universe''))
      else
        let got = List.map_filter id files; rows = concat (map (finra_parse day_of symbols) got)
        in (rows, if got = [] then Inl (RuntimeError ''no file'') else if rows = [] then Inl (RuntimeError ''no row'') else Inr (length rows)))"


section \<open>Factor returns\<close>

definition FACTORS :: "(string \<times> string) list" where
  "FACTORS = [(''Mkt-RF'', ''mkt_rf''), (''SMB'', ''smb''), (''HML'', ''hml''), (''RMW'', ''rmw''), (''CMA'', ''cma''), (''RF'', ''rf''), (''Mom'', ''umd'')]"

type_synonym factor_row = "int \<times> string \<times> rat"

definition factor_cell :: "int \<Rightarrow> string \<times> string \<Rightarrow> factor_row option" where
  "factor_cell d c =
     (case map_of FACTORS (fst c) of
        None \<Rightarrow> None
      | Some f \<Rightarrow>
          (case parse_float (snd c) of
             None \<Rightarrow> None
           | Some v \<Rightarrow> if v \<le> - 99 then None else Some (d, f, fquo v 100)))"

text \<open>The loop over the lines: the columns once they are found, and the rows so far; \<open>date\<close> raises for a day that does
  not exist.\<close>

fun factor_lines :: "(string \<Rightarrow> int option) \<Rightarrow> string list option \<Rightarrow> string list \<Rightarrow> factor_row list \<Rightarrow> factor_row list res" where
  "factor_lines day_of cols [] out = Inr out"
| "factor_lines day_of cols (raw # ls) out =
     (let line = trim raw; ps = map trim (split_on CHR '','' line); head = hd ps
      in if line = [] then (if cols = None then factor_lines day_of cols ls out else Inr out)
         else case cols of
           None \<Rightarrow>
             (if head = [] \<and> list_ex (\<lambda>p. map_of FACTORS p \<noteq> None) (tl ps) then factor_lines day_of (Some (tl ps)) ls out
              else factor_lines day_of None ls out)
         | Some cs \<Rightarrow>
             (if \<not> (length head = 8 \<and> list_all is_numeral head) then Inr out
              else case day_of head of
                     None \<Rightarrow> Inl (ValueError head)
                   | Some d \<Rightarrow> factor_lines day_of cols ls (out @ List.map_filter (factor_cell d) (zip cs (tl ps)))))"

definition factor_parse :: "(string \<Rightarrow> int option) \<Rightarrow> string list \<Rightarrow> factor_row list res" where
  "factor_parse day_of ls = factor_lines day_of None ls []"

definition factor_collect :: "(string \<Rightarrow> int option) \<Rightarrow> string list res list \<Rightarrow> factor_row list res" where
  "factor_collect day_of files =
     rbind (rmap (\<lambda>f. rbind f (factor_parse day_of)) files) (\<lambda>rs.
       if concat rs = [] then Inl (RuntimeError ''no row'') else Inr (concat rs))"

section \<open>Announcements of earnings\<close>

record recent =
  rc_form :: "string list"
  rc_date :: "string list"
  rc_items :: "string list"
  rc_report :: "string list"

definition nth_or :: "string list \<Rightarrow> nat \<Rightarrow> string" where
  "nth_or xs i = (if i < length xs then xs ! i else [])"

definition earnings_rows :: "strptime \<Rightarrow> string \<Rightarrow> recent \<Rightarrow> (string \<times> int \<times> int option) list" where
  "earnings_rows day_of symbol r =
     List.map_filter (\<lambda>(i, form).
         if form \<noteq> ''8-K'' \<or> ''2.02'' \<notin> set (map trim (split_on CHR '','' (nth_or (rc_items r) i))) then None
         else case day_of ''%Y-%m-%d'' (trim (nth_or (rc_date r) i)) of
                None \<Rightarrow> None
              | Some ad \<Rightarrow> Some (symbol, ad, day_of ''%Y-%m-%d'' (trim (nth_or (rc_report r) i))))
       (enumerate 0 (rc_form r))"

text \<open>\<open>answer\<close> is the submission of a company, \<open>None\<close> for a status other than 200.\<close>

definition earnings_collect :: "strptime \<Rightarrow> (string \<times> string) list \<Rightarrow> (string \<Rightarrow> recent option) \<Rightarrow> string list \<Rightarrow> (string \<times> int \<times> int option) list \<times> nat res" where
  "earnings_collect day_of ciks answer symbols =
     (if symbols = [] then ([], Inl (RuntimeError ''universe''))
      else
        let rows = concat (map (\<lambda>s. case map_of ciks (map to_upper s) of
                                      None \<Rightarrow> []
                                    | Some cik \<Rightarrow> if cik = [] then [] else (case answer cik of None \<Rightarrow> [] | Some r \<Rightarrow> earnings_rows day_of s r)) symbols)
        in (rows, if rows = [] then Inl (RuntimeError ''no row'') else Inr (length rows)))"

section \<open>Industries\<close>

type_synonym sic_cache = "(string \<times> (string \<times> string) option) list"

definition sic_step :: "(string \<times> string) list \<Rightarrow> (string \<Rightarrow> (string \<times> string) res) \<Rightarrow> sic_cache \<Rightarrow> string \<Rightarrow> sic_cache" where
  "sic_step ciks answer cache t =
     (if map_of cache t \<noteq> None then cache
      else case map_of ciks (map to_upper t) of
             None \<Rightarrow> AList.update t None cache
           | Some k \<Rightarrow> AList.update t (if k = [] then None else case answer k of Inl e \<Rightarrow> None | Inr r \<Rightarrow> Some r) cache)"

definition fetch_sic :: "(string \<times> string) list \<Rightarrow> (string \<Rightarrow> (string \<times> string) res) \<Rightarrow> string list \<Rightarrow> sic_cache \<Rightarrow> sic_cache" where
  "fetch_sic ciks answer symbols cache = foldl (sic_step ciks answer) cache symbols"

definition sector_rows :: "sic_cache \<Rightarrow> (string \<times> string \<times> string \<times> string) list" where
  "sector_rows cache =
     List.map_filter (\<lambda>(t, v). case v of None \<Rightarrow> None | Some (sic, desc) \<Rightarrow> if sic = [] then None else Some (t, sic, desc, take 2 sic)) cache"

text \<open>One run of \<open>main\<close>: the cache that is stored and the rows or the exception.\<close>

definition sector_main :: "(string \<times> string) list \<Rightarrow> (string \<Rightarrow> (string \<times> string) res) \<Rightarrow> string list \<Rightarrow> sic_cache \<Rightarrow> sic_cache \<times> (string \<times> string \<times> string \<times> string) list res" where
  "sector_main ciks answer symbols cache =
     (let c = fetch_sic ciks answer symbols cache; rows = sector_rows c
      in (c, if rows = [] then Inl (RuntimeError ''no row'') else Inr rows))"

section \<open>Delisted symbols\<close>

record delisted =
  dl_symbol :: string
  dl_name :: string
  dl_market :: string
  dl_listed :: "int option"
  dl_delisted :: "int option"
  dl_reason :: string

definition delisting_rows :: "delisted list \<Rightarrow> (string \<times> string \<times> string \<times> int \<times> int \<times> string) list" where
  "delisting_rows ds =
     List.map_filter (\<lambda>r. case dl_delisted r of
           None \<Rightarrow> None
         | Some dd \<Rightarrow>
             if trim (dl_symbol r) = [] then None
             else Some (trim (dl_symbol r), dl_name r, dl_market r, (case dl_listed r of None \<Rightarrow> dd | Some l \<Rightarrow> l), dd, dl_reason r)) ds"

definition store_delisting :: "delisted list \<Rightarrow> (string \<times> string \<times> string \<times> int \<times> int \<times> string) list \<times> string list res" where
  "store_delisting ds =
     (let rows = delisting_rows ds in (rows, if rows = [] then Inl (RuntimeError ''no row'') else Inr (map fst rows)))"

text \<open>\<open>store_prices\<close>: the daily bars of each symbol, \<open>None\<close> for no data; a failing symbol is counted and passed over.\<close>

type_synonym bar_row = "string \<times> int \<times> rat \<times> rat \<times> rat \<times> rat \<times> rat"

definition price_rows :: "(string \<Rightarrow> (int \<times> rat \<times> rat \<times> rat \<times> rat \<times> rat) list option res) \<Rightarrow> string \<Rightarrow> bar_row list" where
  "price_rows data_reader s = (case data_reader s of Inr (Some df) \<Rightarrow> map (\<lambda>r. (s, r)) df | _ \<Rightarrow> [])"

definition store_prices :: "(string \<Rightarrow> (int \<times> rat \<times> rat \<times> rat \<times> rat \<times> rat) list option res) \<Rightarrow> string list \<Rightarrow> bar_row list \<times> nat" where
  "store_prices data_reader symbols = (let rows = concat (map (price_rows data_reader) symbols) in (rows, length rows))"

text \<open>\<open>main\<close> of the delisted symbols: a limit of 0 means all.\<close>

definition delisted_main ::
  "nat \<Rightarrow> bool \<Rightarrow> delisted list \<Rightarrow> (string \<Rightarrow> (int \<times> rat \<times> rat \<times> rat \<times> rat \<times> rat) list option res) \<Rightarrow> bar_row list res" where
  "delisted_main limit no_prices ds data_reader =
     rbind (snd (store_delisting ds)) (\<lambda>syms.
       Inr (if no_prices then [] else fst (store_prices data_reader (if limit \<noteq> 0 then take limit syms else syms))))"

section \<open>Macro series\<close>

text \<open>\<open>_fetch\<close>: the observations of a series by date, without the missing ones; \<open>float\<close> may raise.\<close>

definition observations :: "(int \<times> string) list \<Rightarrow> (int \<times> rat) list res" where
  "observations os =
     rfold (\<lambda>m (d, v). if v = ''.'' \<or> v = [] then Inr m
                      else case parse_float v of None \<Rightarrow> Inl (ValueError v) | Some x \<Rightarrow> Inr (AList.update d x m)) [] os"

type_synonym cell_row = "int \<times> rat option list"

fun ffill :: "rat option list \<Rightarrow> cell_row list \<Rightarrow> cell_row list" where
  "ffill prev [] = []"
| "ffill prev ((d, vs) # rs) =
     (let vs' = map2 (\<lambda>p v. case v of None \<Rightarrow> p | Some x \<Rightarrow> Some x) prev vs in (d, vs') # ffill vs' rs)"

definition dropna :: "cell_row list \<Rightarrow> (int \<times> rat list) list" where
  "dropna rows = map (\<lambda>(d, vs). (d, map the vs)) (filter (\<lambda>(d, vs). None \<notin> set vs) rows)"

definition frame :: "(int \<times> rat) list list \<Rightarrow> cell_row list" where
  "frame data = map (\<lambda>d. (d, map (\<lambda>obs. map_of obs d) data)) (sort (remdups (concat (map (map fst) data))))"

definition build_macro :: "string \<Rightarrow> (int \<times> string) list res list \<Rightarrow> (int \<times> rat list) list res" where
  "build_macro key series =
     (if key = [] then Inl (RuntimeError ''FRED_API_KEY'')
      else rbind (rmap (\<lambda>s. rbind s observations) series) (\<lambda>data. Inr (dropna (ffill (map (\<lambda>obs. None) data) (frame data)))))"

definition macro_store :: "string \<Rightarrow> (int \<times> string) list res list \<Rightarrow> (int \<times> rat list) list res" where
  "macro_store key series =
     rbind (build_macro key series) (\<lambda>rows. if rows = [] then Inl (RuntimeError ''no row'') else Inr rows)"

section \<open>What the loaders keep\<close>

text \<open>A failed request for an industry is stored as the answer, and the cache is asked first: the symbol stays without.\<close>

lemma failed_lookup_cached:
  assumes "map_of cache t = None" "map_of ciks (map to_upper t) = Some k" "answer k = Inl e"
  shows "map_of (sic_step ciks answer2 (sic_step ciks answer cache t) t) t = Some None"
  using assms by (simp add: sic_step_def update_conv)

lemma cached_stays: "map_of cache t = Some v \<Longrightarrow> map_of (fetch_sic ciks answer symbols cache) t = Some v"
proof -
  have step: "map_of (sic_step ciks answer c s) t = Some v" if "map_of c t = Some v" for c s
    using that by (auto simp: sic_step_def update_conv split: option.splits)
  show "map_of cache t = Some v \<Longrightarrow> ?thesis" unfolding fetch_sic_def
    by (induction symbols arbitrary: cache) (auto simp: step)
qed

text \<open>The second security of a ticker replaces the first one in the table.\<close>

lemma second_cusip_replaces_first:
  "stored13 [((tk, p), n1, s1, v1), ((tk, p), n2, s2, v2)] = [((tk, p), n2, s2, v2)]"
  by (simp add: stored13_def)

text \<open>A filing whose date cannot be read counts as filed on the day of the trade.\<close>

lemma unread_filing_date:
  "trade_row day_of [(acc, s, None)] own idx l = Some r \<Longrightarrow> in_filed r = in_traded r"
  by (auto simp: trade_row_def Let_def split: option.splits prod.splits if_splits)

lemma trade_row_keys:
  assumes "trade_row day_of sub own idx l = Some r"
  shows "\<exists>f. map_of sub (in_accession r) = Some (in_symbol r, f) \<and> in_filed r = (case f of None \<Rightarrow> in_traded r | Some d \<Rightarrow> d)"
  using assms by (auto simp: trade_row_def Let_def split: option.splits prod.splits)

definition in_universe :: "string list \<Rightarrow> (string \<times> string \<times> int option) list \<Rightarrow> bool" where
  "in_universe symbols m \<longleftrightarrow> (\<forall>acc s f. map_of m acc = Some (s, f) \<longrightarrow> s \<in> set symbols)"

lemma in_universe_update: "in_universe symbols m \<Longrightarrow> s \<in> set symbols \<Longrightarrow> in_universe symbols (AList.update acc (s, f) m)"
  by (simp add: in_universe_def update_conv)

lemma foldl_keeps: "P m \<Longrightarrow> (\<And>m l. P m \<Longrightarrow> P (f m l)) \<Longrightarrow> P (foldl f m ls)"
  by (induction ls arbitrary: m) simp_all

lemma submissions_symbols: "in_universe symbols (submissions day_of symbols idx ls)"
  unfolding submissions_def Let_def
  by (rule foldl_keeps) (simp add: in_universe_def, simp only: not_not simp_thms split: if_split, blast intro: in_universe_update)

text \<open>Only trades of the universe are loaded.\<close>

lemma quarter_rows_in_universe: "r \<in> set (quarter_rows day_of zf symbols) \<Longrightarrow> in_symbol r \<in> set symbols"
proof -
  assume r: "r \<in> set (quarter_rows day_of zf symbols)"
  obtain sidx sls where s: "reader zf ''SUBMISSION.TSV'' = Some (sidx, sls)"
    using r unfolding quarter_rows_def by (cases "reader zf ''SUBMISSION.TSV''") auto
  obtain tidx tls where t: "reader zf ''NONDERIV_TRANS.TSV'' = Some (tidx, tls)"
    using r s unfolding quarter_rows_def Let_def by (cases "reader zf ''NONDERIV_TRANS.TSV''") (auto split: if_split_asm)
  let ?sub = "submissions day_of symbols sidx sls"
  have "r \<in> set (List.map_filter (trade_row day_of ?sub (owners ?sub (reader zf ''REPORTINGOWNER.TSV'')) tidx) tls)"
    using r s t unfolding quarter_rows_def Let_def by (simp split: if_split_asm)
  then obtain own l where "trade_row day_of ?sub own tidx l = Some r" by (auto simp: map_filter_def)
  from trade_row_keys [OF this] submissions_symbols [of symbols day_of sidx sls] show ?thesis unfolding in_universe_def by blast
qed

section \<open>The macro table carries observations forward\<close>

definition carried :: "(int \<times> rat) list \<Rightarrow> int \<Rightarrow> rat option \<Rightarrow> bool" where
  "carried obs d v \<longleftrightarrow>
     (case v of
        None \<Rightarrow> \<forall>e. e \<le> d \<longrightarrow> map_of obs e = None
      | Some x \<Rightarrow> \<exists>e. e \<le> d \<and> map_of obs e = Some x \<and> (\<forall>e'. e < e' \<and> e' \<le> d \<longrightarrow> map_of obs e' = None))"

lemma carried_next:
  assumes "carried obs p v" "p < d" "\<forall>e. p < e \<and> e < d \<longrightarrow> map_of obs e = None"
  shows "carried obs d (case map_of obs d of None \<Rightarrow> v | Some x \<Rightarrow> Some x)"
proof (cases "map_of obs d")
  case None
  have none: "map_of obs e = None" if "p < e" "e \<le> d" for e using that None assms(3) by (cases "e = d") auto
  show ?thesis
  proof (cases v)
    case None
    then show ?thesis using \<open>map_of obs d = None\<close> assms(1) none by (simp add: carried_def) (meson not_le)
  next
    case (Some x)
    with assms(1) obtain e where "e \<le> p" "map_of obs e = Some x" "\<forall>e'. e < e' \<and> e' \<le> p \<longrightarrow> map_of obs e' = None"
      by (auto simp: carried_def)
    then show ?thesis using \<open>map_of obs d = None\<close> Some none assms(2) by (auto simp: carried_def intro!: exI [of _ e]) (meson not_le)
  qed
qed (auto simp: carried_def)

lemma ffill_carried:
  assumes "sorted_wrt (<) (p # ds)" "list_all2 (\<lambda>obs v. carried obs p v) data prev"
    and "\<forall>obs \<in> set data. \<forall>e. p < e \<and> map_of obs e \<noteq> None \<longrightarrow> e \<in> set ds"
  shows "map fst (ffill prev (map (\<lambda>d. (d, map (\<lambda>obs. map_of obs d) data)) ds)) = ds \<and>
    (\<forall>(d, vs) \<in> set (ffill prev (map (\<lambda>d. (d, map (\<lambda>obs. map_of obs d) data)) ds)). list_all2 (\<lambda>obs v. carried obs d v) data vs)"
  using assms
proof (induction ds arbitrary: p prev)
  case (Cons d ds)
  let ?vs = "map2 (\<lambda>p v. case v of None \<Rightarrow> p | Some x \<Rightarrow> Some x) prev (map (\<lambda>obs. map_of obs d) data)"
  have "p < d" using Cons.prems(1) by simp
  have gap: "\<forall>e. p < e \<and> e < d \<longrightarrow> map_of obs e = None" if "obs \<in> set data" for obs
    using Cons.prems(1,3) that by (fastforce)
  have vs: "list_all2 (\<lambda>obs v. carried obs d v) data ?vs"
    using Cons.prems(2) gap \<open>p < d\<close> by (auto simp: list_all2_conv_all_nth intro!: carried_next)
  have "\<forall>obs \<in> set data. \<forall>e. d < e \<and> map_of obs e \<noteq> None \<longrightarrow> e \<in> set ds"
  proof (intro ballI allI impI)
    fix obs e assume "obs \<in> set data" and e: "d < e \<and> map_of obs e \<noteq> None"
    with Cons.prems(3) \<open>p < d\<close> have "e \<in> set (d # ds)" by (meson order_less_trans)
    with e show "e \<in> set ds" by simp
  qed
  with Cons.IH [OF _ vs] Cons.prems(1) vs show ?case by (auto simp: Let_def)
qed simp


lemma dropna_iff: "(d, xs) \<in> set (dropna rows) \<longleftrightarrow> (d, map Some xs) \<in> set rows"
proof
  assume "(d, xs) \<in> set (dropna rows)"
  then obtain vs where "(d, vs) \<in> set rows" "None \<notin> set vs" "xs = map the vs" by (auto simp: dropna_def)
  moreover from this(2) have "map Some (map the vs) = vs" by (induction vs) auto
  ultimately show "(d, map Some xs) \<in> set rows" by simp
next
  assume "(d, map Some xs) \<in> set rows"
  then show "(d, xs) \<in> set (dropna rows)" unfolding dropna_def by (force simp: comp_def image_iff)
qed

text \<open>C38: The macro table carries the last observation forward, and never one of the future. Its rows are exactly the
  dates on which some series has an observation and every series has one on or before that date; the value of a series
  is its latest observation up to the date of the row.\<close>

theorem macro_carries_last_observation:
  assumes "build_macro key (map Inr raw) = Inr rows" "rmap observations raw = Inr data"
  shows "(d, xs) \<in> set rows \<longleftrightarrow>
    (\<exists>obs \<in> set data. map_of obs d \<noteq> None) \<and> list_all2 (\<lambda>obs x. carried obs d (Some x)) data xs"
proof -
  define ds where "ds = sort (remdups (concat (map (map fst) data)))"
  have rows: "rows = dropna (ffill (map (\<lambda>obs. None) data) (frame data))"
  proof -
    have "rmap (\<lambda>s. rbind s observations) (map Inr raw) = rmap observations raw" by (induction raw) simp_all
    then show ?thesis using assms by (auto simp: build_macro_def split: if_splits)
  qed
  have mem: "e \<in> set ds \<longleftrightarrow> (\<exists>obs \<in> set data. map_of obs e \<noteq> None)" for e
    by (auto simp: ds_def map_of_eq_None_iff)
  define p where "p = (if ds = [] then 0 else hd ds - 1)"
  have srt: "sorted_wrt (<) ds" by (simp add: ds_def strict_sorted_iff)
  then have srt': "sorted_wrt (<) (p # ds)" by (cases ds) (auto simp: p_def)
  have low: "map_of obs e = None" if "obs \<in> set data" "e \<le> p" for obs e
    using mem [of e] srt' that by fastforce
  then have start: "list_all2 (\<lambda>obs v. carried obs p v) data (map (\<lambda>obs. None) data)"
    by (auto simp: list_all2_conv_all_nth carried_def)
  have all: "\<forall>obs \<in> set data. \<forall>e. p < e \<and> map_of obs e \<noteq> None \<longrightarrow> e \<in> set ds" using mem by blast
  define F where "F = ffill (map (\<lambda>obs. None) data) (map (\<lambda>d. (d, map (\<lambda>obs. map_of obs d) data)) ds)"
  from ffill_carried [OF srt' start all] have f: "map fst F = ds" "\<forall>(d, vs) \<in> set F. list_all2 (\<lambda>obs v. carried obs d v) data vs"
    unfolding F_def [symmetric] by auto
  have keys: "e \<in> set ds \<longleftrightarrow> (\<exists>vs. (e, vs) \<in> set F)" for e unfolding f(1) [symmetric] by force
  have unique: "carried obs d v \<Longrightarrow> carried obs d w \<Longrightarrow> v = w" for obs v w
    unfolding carried_def by (cases v; cases w) (auto, metis linorder_neqE option.inject order.strict_implies_order option.distinct(1))
  have "(d, map Some xs) \<in> set F \<longleftrightarrow> d \<in> set ds \<and> list_all2 (\<lambda>obs x. carried obs d (Some x)) data xs"
  proof
    assume a: "(d, map Some xs) \<in> set F"
    with f(2) have "list_all2 (\<lambda>obs v. carried obs d v) data (map Some xs)" by blast
    moreover have "d \<in> set ds" using a keys by blast
    ultimately show "d \<in> set ds \<and> list_all2 (\<lambda>obs x. carried obs d (Some x)) data xs" by (simp add: list_all2_map2)
  next
    assume a: "d \<in> set ds \<and> list_all2 (\<lambda>obs x. carried obs d (Some x)) data xs"
    then obtain vs where vs: "(d, vs) \<in> set F" using keys by blast
    with f(2) have l: "list_all2 (\<lambda>obs v. carried obs d v) data vs" by blast
    have "vs = map Some xs"
    proof (rule nth_equalityI)
      show "length vs = length (map Some xs)" using a l by (auto simp: list_all2_conv_all_nth)
      show "vs ! i = map Some xs ! i" if "i < length vs" for i
        using a l that unique [of "data ! i" "vs ! i" "Some (xs ! i)"] by (auto simp: list_all2_conv_all_nth)
    qed
    with vs show "(d, map Some xs) \<in> set F" by simp
  qed
  then show ?thesis unfolding rows dropna_iff frame_def ds_def [symmetric] F_def [symmetric] mem .
qed

definition demo_series :: "(int \<times> string) list list" where
  "demo_series = [[(1, ''4''), (2, ''.''), (3, ''5'')], [(2, ''20''), (4, ''21'')]]"

lemma demo_numbers:
  "parse_float ''4'' = Some 4" "parse_float ''5'' = Some 5" "parse_float ''20'' = Some 20" "parse_float ''21'' = Some 21"
  by (simp_all add: parse_float_def strip_def is_space_def parse_unsigned_def is_digit_def Let_def atoi_def digit_val_def fl_lit)

theorem macro_carries_last_observation_witness:
  "build_macro ''k'' (map Inr demo_series) = Inr [(2, [4, 20]), (3, [5, 20]), (4, [5, 21])] \<and>
   list_all2 (\<lambda>obs x. carried obs 3 (Some x)) [[(1, 4), (3, 5)], [(2, 20), (4, 21)]] [5, 20]"
proof -
  have obs: "rmap observations demo_series = Inr [[(1, 4), (3, 5)], [(2, 20), (4, 21)]]"
    by (simp add: demo_series_def observations_def demo_numbers)
  then have "rmap (\<lambda>s. rbind s observations) (map Inr demo_series) = Inr [[(1, 4), (3, 5)], [(2, 20), (4, 21)]]"
    by (simp add: demo_series_def)
  moreover have "dropna (ffill [None, None] (frame [[(1, 4), (3, 5)], [(2, 20), (4, 21)]])) = [(2, [4, 20]), (3, [5, 20]), (4, [5, 21])]"
    by code_simp
  ultimately have run: "build_macro ''k'' (map Inr demo_series) = Inr [(2, [4, 20]), (3, [5, 20]), (4, [5, 21])]"
    by (simp add: build_macro_def)
  from macro_carries_last_observation [OF run obs, of 3 "[5, 20]"] run show ?thesis by simp
qed

end
