(* ===== verification/KrxData.thy ===== *)
theory KrxData
  imports Texts
begin

text \<open>
  The loaders of the Korean exchange: \<open>batch/rawdata/krx.py\<close>, which loads flows of investors, foreign holdings
  and short positions symbol by symbol from where the tables end, and \<open>krx_bulk.py\<close>, which loads them
  day by day.  What the exchange returns is an argument; days are ordinals, the first of January of the
  year 1 being day 1.  A table is the list of the inserted rows.
\<close>

section \<open>Rows\<close>

record krx_frame =
  kf_columns :: "string list"
  kf_rows :: "(int \<times> (string \<times> rat) list) list"

record flow_row =
  fw_date :: int
  fw_symbol :: string
  fw_investor :: string
  fw_value :: rat
  fw_volume :: rat

record hold_row =
  hd_date :: int
  hd_symbol :: string
  hd_listed :: rat
  hd_held :: rat
  hd_ratio :: rat
  hd_limit :: rat
  hd_exhaustion :: rat

record short_row =
  sh_date :: int
  sh_symbol :: string
  sh_volume :: rat
  sh_total :: rat
  sh_ratio :: rat
  sh_quantity :: rat
  sh_value :: rat
  sh_cap :: rat
  sh_balance_ratio :: rat

definition INVESTOR :: "(string \<times> string) list" where
  "INVESTOR =
     [(utf8 [234, 184, 136, 236, 156, 181, 237, 136, 172, 236, 158, 144], ''fin_invest''),
      (utf8 [235, 179, 180, 237, 151, 152], ''insurance''),
      (utf8 [237, 136, 172, 236, 139, 160], ''invest_trust''),
      (utf8 [236, 130, 172, 235, 170, 168], ''private_fund''),
      (utf8 [236, 157, 128, 237, 150, 137], ''bank''),
      (utf8 [234, 184, 176, 237, 131, 128, 234, 184, 136, 236, 156, 181], ''other_finance''),
      (utf8 [236, 151, 176, 234, 184, 176, 234, 184, 136], ''pension''),
      (utf8 [234, 184, 176, 237, 131, 128, 235, 178, 149, 236, 157, 184], ''other_corp''),
      (utf8 [234, 176, 156, 236, 157, 184], ''individual''),
      (utf8 [236, 153, 184, 234, 181, 173, 236, 157, 184], ''foreign''),
      (utf8 [234, 184, 176, 237, 131, 128, 236, 153, 184, 234, 181, 173, 236, 157, 184], ''other_foreign'')]"

text \<open>\<open>row[column]\<close>, which raises for a column the row does not have.\<close>

definition at_column :: "(string \<times> rat) list \<Rightarrow> string \<Rightarrow> rat res" where
  "at_column row col = (case map_of row col of None \<Rightarrow> Inl (KeyError col) | Some v \<Rightarrow> Inr v)"

definition flow_cell :: "string \<Rightarrow> krx_frame \<Rightarrow> krx_frame option \<Rightarrow> int \<times> (string \<times> rat) list \<Rightarrow> string \<times> string \<Rightarrow> flow_row list res" where
  "flow_cell symbol val vol row who =
     (case (row, who) of ((d, vals), kr, en) \<Rightarrow>
        if kr \<notin> set (kf_columns val) then Inr []
        else rbind (at_column vals kr) (\<lambda>nv.
          rbind (case vol of
                   None \<Rightarrow> Inr 0
                 | Some f \<Rightarrow> (case map_of (kf_rows f) d of
                                None \<Rightarrow> Inr 0
                              | Some vrow \<Rightarrow> if kr \<in> set (kf_columns f) then at_column vrow kr else Inr 0)) (\<lambda>nq.
            Inr [\<lparr>fw_date = d, fw_symbol = symbol, fw_investor = en, fw_value = nv, fw_volume = nq\<rparr>])))"

definition flow_rows :: "string \<Rightarrow> krx_frame option \<Rightarrow> krx_frame option \<Rightarrow> flow_row list res" where
  "flow_rows symbol val vol =
     (case val of
        None \<Rightarrow> Inr []
      | Some f \<Rightarrow>
          rbind (rmap (\<lambda>row. rmap (flow_cell symbol f vol row) INVESTOR) (kf_rows f)) (\<lambda>rs. Inr (concat (map concat rs))))"

definition holding_rows :: "string \<Rightarrow> (int \<times> rat \<times> rat \<times> rat \<times> rat \<times> rat) list option \<Rightarrow> hold_row list" where
  "holding_rows symbol df =
     (case df of
        None \<Rightarrow> []
      | Some rows \<Rightarrow> map (\<lambda>(d, listed, held, ratio, limit, ex).
          \<lparr>hd_date = d, hd_symbol = symbol, hd_listed = listed, hd_held = held, hd_ratio = ratio, hd_limit = limit, hd_exhaustion = ex\<rparr>) rows)"

type_synonym balances = "(int \<times> rat \<times> rat \<times> rat \<times> rat) list"
type_synonym volumes = "(int \<times> rat \<times> rat \<times> rat) list"

definition short_row_of :: "string \<Rightarrow> int \<Rightarrow> (rat \<times> rat \<times> rat) option \<Rightarrow> (rat \<times> rat \<times> rat \<times> rat) option \<Rightarrow> short_row" where
  "short_row_of symbol d v b =
     (case (case v of None \<Rightarrow> (0, 0, 0) | Some x \<Rightarrow> x, case b of None \<Rightarrow> (0, 0, 0, 0) | Some x \<Rightarrow> x) of
        ((sv, tot, ratio), qty, val, cap, bratio) \<Rightarrow>
          \<lparr>sh_date = d, sh_symbol = symbol, sh_volume = sv, sh_total = tot, sh_ratio = ratio, sh_quantity = qty, sh_value = val,
           sh_cap = cap, sh_balance_ratio = bratio\<rparr>)"

definition short_rows :: "string \<Rightarrow> balances option \<Rightarrow> volumes option \<Rightarrow> short_row list" where
  "short_rows symbol bal vol =
     (let b = (case bal of None \<Rightarrow> [] | Some x \<Rightarrow> x); v = (case vol of None \<Rightarrow> [] | Some x \<Rightarrow> x)
      in map (\<lambda>d. short_row_of symbol d (map_of v d) (map_of b d)) (sort (remdups (map fst b @ map fst v))))"

section \<open>The incremental load\<close>

record krx_tables =
  kt_flow :: "flow_row list"
  kt_hold :: "hold_row list"
  kt_short :: "short_row list"

definition newest :: "int list \<Rightarrow> int option" where
  "newest ds = (if ds = [] then None else Some (Max (set ds)))"

definition BUFFER_DAYS :: int where "BUFFER_DAYS = 7"

text \<open>The first day of 1972: an empty table answers 1970.\<close>

definition EPOCH_LIMIT :: int where "EPOCH_LIMIT = 719893"

definition auto_start :: "krx_tables \<Rightarrow> int res" where
  "auto_start t =
     rbind (rmap (\<lambda>m. case m of
                        None \<Rightarrow> Inl (RuntimeError ''empty table'')
                      | Some d \<Rightarrow> if d < EPOCH_LIMIT then Inl (RuntimeError ''empty table'') else Inr d)
              [newest (map fw_date (kt_flow t)), newest (map hd_date (kt_hold t)), newest (map sh_date (kt_short t))]) (\<lambda>latest.
       Inr (Min (set latest) - BUFFER_DAYS))"

type_synonym krx_rows = "flow_row list \<times> hold_row list \<times> short_row list"

definition add_rows :: "krx_rows \<Rightarrow> krx_tables \<Rightarrow> krx_tables" where
  "add_rows rs t =
     (case rs of (f, h, s) \<Rightarrow> \<lparr>kt_flow = kt_flow t @ f, kt_hold = kt_hold t @ h, kt_short = kt_short t @ s\<rparr>)"

text \<open>The answer of the server to an insert: whether the rows are in the table, and the exception that was raised, if
  any; rows without an exception are always in. An empty batch is not sent.\<close>

type_synonym insert_answer = "bool \<times> exc option"

definition put_rows :: "insert_answer \<Rightarrow> 'a list \<Rightarrow> 'a list \<times> nat \<times> exc option" where
  "put_rows answer rows =
     (if rows = [] then ([], 0, None)
      else case answer of
             (kept, None) \<Rightarrow> (rows, length rows, None)
           | (kept, Some e) \<Rightarrow> (if kept then rows else [], 0, Some e))"

text \<open>The three inserts of a symbol, the first of which that fails ends them: the rows that are in the tables, what is
  added to the totals, and the exception.\<close>

definition insert_krx :: "(nat \<Rightarrow> insert_answer) \<Rightarrow> krx_rows \<Rightarrow> krx_rows \<times> nat \<times> exc option" where
  "insert_krx answer rs =
     (case rs of (f, h, sh) \<Rightarrow>
        case put_rows (answer 0) f of
          (f', n, Some e) \<Rightarrow> ((f', [], []), n, Some e)
        | (f', n, None) \<Rightarrow>
            (case put_rows (answer 1) h of
               (h', k, Some e) \<Rightarrow> ((f', h', []), n + k, Some e)
             | (h', k, None) \<Rightarrow> (case put_rows (answer 2) sh of (sh', j, e) \<Rightarrow> ((f', h', sh'), n + k + j, e))))"

text \<open>The loop over the symbols; \<open>fetch\<close> is the rows of a symbol from the start on, or an exception. An exception of the
  exchange or of an insert is counted, and the loop goes on with what was inserted before it.\<close>

fun load_krx ::
  "(string \<Rightarrow> krx_rows res) \<Rightarrow> (string \<Rightarrow> nat \<Rightarrow> insert_answer) \<Rightarrow> string list \<Rightarrow> nat \<Rightarrow> string list \<Rightarrow> nat \<Rightarrow> krx_tables
   \<Rightarrow> (nat \<times> string list \<times> nat) \<times> krx_tables" where
  "load_krx fetch answer [] n failed m t = ((n, failed, m), t)"
| "load_krx fetch answer (s # ss) n failed m t =
     (case fetch s of
        Inl e \<Rightarrow> load_krx fetch answer ss n (failed @ [s]) m t
      | Inr rs \<Rightarrow>
          (case insert_krx (answer s) rs of
             (stored, k, None) \<Rightarrow> load_krx fetch answer ss (n + 1) failed (m + k) (add_rows stored t)
           | (stored, k, Some e) \<Rightarrow> load_krx fetch answer ss n (failed @ [s]) (m + k) (add_rows stored t)))"

definition store_kr_market ::
  "bool \<Rightarrow> (int \<Rightarrow> string \<Rightarrow> krx_rows res) \<Rightarrow> (string \<Rightarrow> nat \<Rightarrow> insert_answer) \<Rightarrow> string list \<Rightarrow> int option \<Rightarrow> krx_tables
   \<Rightarrow> (nat \<times> nat) res \<times> krx_tables" where
  "store_kr_market logged_in fetch answer symbols start t =
     (if \<not> logged_in then (Inl (RuntimeError ''login''), t)
      else case (case start of Some d \<Rightarrow> Inr d | None \<Rightarrow> auto_start t) of
             Inl e \<Rightarrow> (Inl e, t)
           | Inr d \<Rightarrow>
               if symbols = [] then (Inr (0, 0), t)
               else case load_krx (fetch d) answer symbols 0 [] 0 t of
                      ((n, failed, m), t') \<Rightarrow> (if m = 0 then Inl (RuntimeError ''no row'') else Inr (n, m), t'))"

section \<open>The bulk load\<close>

definition FLOW_INV :: "(string \<times> string) list" where
  "FLOW_INV =
     [(utf8 [236, 153, 184, 234, 181, 173, 236, 157, 184], ''foreign''),
      (utf8 [234, 184, 176, 234, 180, 128, 237, 149, 169, 234, 179, 132], ''institution''),
      (utf8 [236, 151, 176, 234, 184, 176, 234, 184, 136], ''pension'')]"

type_synonym 'a by_ticker = "(string \<times> 'a) list"

record krx_day =
  kd_flows :: "(string \<times> (rat \<times> rat) by_ticker) list"
  kd_holdings :: "(rat \<times> rat \<times> rat \<times> rat \<times> rat) by_ticker"
  kd_volumes :: "(rat \<times> rat \<times> rat) by_ticker list"
  kd_balances :: "(rat \<times> rat \<times> rat \<times> rat) by_ticker list"

text \<open>\<open>_day_rows\<close>: the two markets fill one dictionary of volumes and one of balances.\<close>

definition fill_dict :: "string list \<Rightarrow> 'a by_ticker list \<Rightarrow> 'a by_ticker" where
  "fill_dict known dfs = foldl (\<lambda>m (t, x). if t \<in> set known then AList.update t x m else m) [] (concat dfs)"

definition day_rows :: "string list \<Rightarrow> int \<Rightarrow> krx_day \<Rightarrow> krx_rows" where
  "day_rows known d day =
     (let flow = concat (map (\<lambda>(kr, en). List.map_filter (\<lambda>(t, val, vol).
                  if t \<in> set known then Some \<lparr>fw_date = d, fw_symbol = t, fw_investor = en, fw_value = val, fw_volume = vol\<rparr> else None)
                (get_or (kd_flows day) kr [])) FLOW_INV);
          hold = concat (map (\<lambda>(t, x). if t \<in> set known then holding_rows t (Some [(d, x)]) else []) (kd_holdings day));
          vol = fill_dict known (kd_volumes day); bal = fill_dict known (kd_balances day)
      in (flow, hold, map (\<lambda>t. short_row_of t d (map_of vol t) (map_of bal t)) (remdups (map fst vol @ map fst bal))))"

text \<open>\<open>flush\<close> inserts the three buffers when the buffer of flows has rows.\<close>

definition flush_krx :: "krx_rows \<Rightarrow> krx_tables \<Rightarrow> krx_tables" where
  "flush_krx buf t = (case buf of (f, h, s) \<Rightarrow> if f \<noteq> [] then add_rows buf t else t)"

definition append_rows :: "krx_rows \<Rightarrow> krx_rows \<Rightarrow> krx_rows" where
  "append_rows a b = (case (a, b) of ((f, h, s), f', h', s') \<Rightarrow> (f @ f', h @ h', s @ s'))"

fun bulk_loop :: "nat \<Rightarrow> (int \<Rightarrow> krx_rows res) \<Rightarrow> nat \<Rightarrow> int list \<Rightarrow> krx_rows \<Rightarrow> nat \<Rightarrow> krx_tables \<Rightarrow> nat \<times> krx_tables" where
  "bulk_loop every rows_of i [] buf n t = (n, flush_krx buf t)"
| "bulk_loop every rows_of i (d # ds) buf n t =
     (case rows_of d of
        Inl e \<Rightarrow> bulk_loop every rows_of (Suc i) ds buf n t
      | Inr rs \<Rightarrow>
          (if i mod every = 0 then bulk_loop every rows_of (Suc i) ds ([], [], []) (n + 1) (flush_krx (append_rows buf rs) t)
           else bulk_loop every rows_of (Suc i) ds (append_rows buf rs) (n + 1) t))"

definition store_kr_bulk :: "bool \<Rightarrow> string list \<Rightarrow> (int \<Rightarrow> krx_day res) \<Rightarrow> int list \<Rightarrow> krx_tables \<Rightarrow> nat res \<times> krx_tables" where
  "store_kr_bulk logged_in known day_of days t =
     (if \<not> logged_in then (Inl (RuntimeError ''login''), t)
      else if known = [] then (Inr 0, t)
      else if days = [] then (Inl IndexError, t)
      else case bulk_loop 50 (\<lambda>d. rbind (day_of d) (\<lambda>x. Inr (day_rows known d x))) 1 days ([], [], []) 0 t of
             (n, t') \<Rightarrow> (Inr n, t'))"

text \<open>Holdings and short positions of days without flows are dropped.\<close>

lemma days_without_flows_dropped:
  assumes "\<forall>d \<in> set ds. \<exists>h s. rows_of d = Inr ([], h, s)" "fst buf = []"
  shows "snd (bulk_loop every rows_of i ds buf n t) = t"
  using assms
proof (induction ds arbitrary: i buf n)
  case (Cons d ds)
  then obtain h s where "rows_of d = Inr ([], h, s)" by auto
  with Cons.prems Cons.IH [of "([], [], [])"] Cons.IH [of "append_rows buf ([], h, s)"] show ?case
    by (cases buf) (auto simp: append_rows_def flush_krx_def)
next
  case Nil
  then show ?case by (cases buf) (simp add: flush_krx_def)
qed

section \<open>A symbol that failed is not filled later\<close>

lemma newest_append: "newest ds = Some d \<Longrightarrow> \<exists>e. newest (ds @ es) = Some e \<and> d \<le> e"
  by (auto simp: newest_def split: if_splits intro: Max_mono)

definition extends :: "krx_tables \<Rightarrow> krx_tables \<Rightarrow> bool" where
  "extends t t' \<longleftrightarrow> (\<exists>f h s. t' = add_rows (f, h, s) t)"

definition clean_date :: "int option \<Rightarrow> int res" where
  "clean_date m =
     (case m of
        None \<Rightarrow> Inl (RuntimeError ''empty table'')
      | Some d \<Rightarrow> if d < EPOCH_LIMIT then Inl (RuntimeError ''empty table'') else Inr d)"

lemma clean_date_append:
  "clean_date (newest ds) = Inr d \<Longrightarrow> \<exists>e. clean_date (newest (ds @ es)) = Inr e \<and> d \<le> e"
proof -
  assume a: "clean_date (newest ds) = Inr d"
  then have d: "newest ds = Some d" "\<not> d < EPOCH_LIMIT" by (auto simp: clean_date_def split: option.splits if_splits)
  from newest_append [OF d(1), of es] obtain e where "newest (ds @ es) = Some e" "d \<le> e" by blast
  with d(2) show ?thesis by (simp add: clean_date_def)
qed

lemma auto_start_alt: "auto_start t =
    rbind (clean_date (newest (map fw_date (kt_flow t)))) (\<lambda>a. rbind (clean_date (newest (map hd_date (kt_hold t)))) (\<lambda>b.
      rbind (clean_date (newest (map sh_date (kt_short t)))) (\<lambda>c. Inr (min a (min b c) - BUFFER_DAYS))))"
  unfolding auto_start_def clean_date_def [symmetric] by (simp add: rbind_assoc)

text \<open>The start of the incremental load never goes back.\<close>

lemma auto_start_mono: "auto_start t = Inr d \<Longrightarrow> extends t t' \<Longrightarrow> \<exists>e. auto_start t' = Inr e \<and> d \<le> e"
proof -
  assume a: "auto_start t = Inr d" and x: "extends t t'"
  from a obtain p q r where pqr: "clean_date (newest (map fw_date (kt_flow t))) = Inr p" "clean_date (newest (map hd_date (kt_hold t))) = Inr q"
      "clean_date (newest (map sh_date (kt_short t))) = Inr r" "d = min p (min q r) - BUFFER_DAYS"
    by (auto simp: auto_start_alt)
  from x obtain f h s where t': "t' = add_rows (f, h, s) t" by (auto simp: extends_def)
  from clean_date_append [OF pqr(1)] clean_date_append [OF pqr(2)] clean_date_append [OF pqr(3)] obtain p' q' r' where
    "clean_date (newest (map fw_date (kt_flow t'))) = Inr p'" "p \<le> p'" "clean_date (newest (map hd_date (kt_hold t'))) = Inr q'" "q \<le> q'"
    "clean_date (newest (map sh_date (kt_short t'))) = Inr r'" "r \<le> r'"
    unfolding t' add_rows_def by simp blast
  then show ?thesis by (auto simp: auto_start_alt pqr(4))
qed

text \<open>The exchange answers only days from the start on.\<close>

definition in_window :: "(int \<Rightarrow> string \<Rightarrow> krx_rows res) \<Rightarrow> bool" where
  "in_window fetch \<longleftrightarrow>
     (\<forall>d s f h sh. fetch d s = Inr (f, h, sh) \<longrightarrow>
        (\<forall>r \<in> set f. d \<le> fw_date r) \<and> (\<forall>r \<in> set h. d \<le> hd_date r) \<and> (\<forall>r \<in> set sh. d \<le> sh_date r))"

text \<open>The rows before a day.\<close>

definition before_day :: "int \<Rightarrow> krx_tables \<Rightarrow> krx_rows" where
  "before_day d t = (filter (\<lambda>r. fw_date r < d) (kt_flow t), filter (\<lambda>r. hd_date r < d) (kt_hold t), filter (\<lambda>r. sh_date r < d) (kt_short t))"

lemma extends_refl: "extends t t"
  unfolding extends_def add_rows_def by (rule exI [of _ "[]"], rule exI [of _ "[]"], rule exI [of _ "[]"]) simp

lemma extends_trans: "extends t u \<Longrightarrow> extends u v \<Longrightarrow> extends t v"
  unfolding extends_def add_rows_def by auto

lemma put_rows_subset: "put_rows answer rows = (rows', k, e) \<Longrightarrow> set rows' \<subseteq> set rows"
  by (auto simp: put_rows_def split: if_splits prod.splits option.splits)

lemma insert_krx_subset:
  assumes "insert_krx answer (f, h, sh) = ((f', h', sh'), k, e)"
  shows "set f' \<subseteq> set f \<and> set h' \<subseteq> set h \<and> set sh' \<subseteq> set sh"
  using assms
  by (auto simp: insert_krx_def split: prod.splits option.splits dest!: put_rows_subset)

lemma load_krx_keeps:
  assumes "in_window fetch" "s0 \<le> d"
  shows "extends t (snd (load_krx (fetch d) answer ss n failed m t)) \<and>
    before_day s0 (snd (load_krx (fetch d) answer ss n failed m t)) = before_day s0 t"
proof (induction ss arbitrary: n failed m t)
  case (Cons s ss)
  show ?case
  proof (cases "fetch d s")
    case (Inl e)
    then show ?thesis using Cons.IH by simp
  next
    case (Inr rs)
    obtain f h sh where rs: "rs = (f, h, sh)" by (cases rs)
    obtain f' h' sh' k e where ins: "insert_krx (answer s) rs = ((f', h', sh'), k, e)" by (metis surj_pair)
    note sub = insert_krx_subset [OF ins [unfolded rs]]
    have "before_day s0 (add_rows (f', h', sh') t) = before_day s0 t"
      using assms Inr rs sub by (fastforce simp: before_day_def add_rows_def in_window_def filter_empty_conv)
    moreover have "extends t (add_rows (f', h', sh') t)" by (auto simp: extends_def)
    ultimately show ?thesis using Cons.IH Inr ins by (cases e) (auto intro: extends_trans)
  qed
qed (simp add: extends_refl)

text \<open>A run: what the exchange and the inserts answer, and the symbols.\<close>

type_synonym krx_run = "(int \<Rightarrow> string \<Rightarrow> krx_rows res) \<times> (string \<Rightarrow> nat \<Rightarrow> insert_answer) \<times> string list"

definition monthly_run :: "krx_tables \<Rightarrow> krx_run \<Rightarrow> krx_tables" where
  "monthly_run t r = (case r of (fetch, answer, symbols) \<Rightarrow> snd (store_kr_market True fetch answer symbols None t))"

text \<open>C39: Days that one run has passed are never loaded again. The incremental start is the oldest of the newest dates
  of the three tables, over all symbols, less seven days. It never goes back, so whatever the later runs are, the rows
  of all days before it stay as they are: the days that are missing for a symbol that failed once, while others
  succeeded, stay missing, although the exchange would still return them.\<close>

theorem passed_days_are_not_loaded_again:
  assumes "auto_start t = Inr s0" "\<forall>r \<in> set runs. in_window (fst r)"
  shows "before_day s0 (foldl monthly_run t runs) = before_day s0 t"
proof -
  have "before_day s0 (foldl monthly_run u rs) = before_day s0 u"
    if "extends t u" "\<forall>r \<in> set rs. in_window (fst r)" for u and rs :: "krx_run list"
    using that
  proof (induction rs arbitrary: u)
    case (Cons r rs)
    from auto_start_mono [OF assms(1) Cons.prems(1)] obtain d where d: "auto_start u = Inr d" "s0 \<le> d" by blast
    have run: "monthly_run u r = (if snd (snd r) = [] then u else snd (load_krx (fst r d) (fst (snd r)) (snd (snd r)) 0 [] 0 u))"
      by (simp add: monthly_run_def store_kr_market_def d(1) split: prod.splits)
    have "extends u (monthly_run u r) \<and> before_day s0 (monthly_run u r) = before_day s0 u"
      using load_krx_keeps [of "fst r" s0 d u "fst (snd r)" "snd (snd r)" 0 "[]" 0] Cons.prems(2) d(2) by (simp add: run extends_refl)
    with Cons.IH [of "monthly_run u r"] Cons.prems extends_trans show ?case by auto
  qed simp
  from this [OF extends_refl assms(2)] show ?thesis .
qed

definition demo_accepts :: "string \<Rightarrow> nat \<Rightarrow> insert_answer" where
  "demo_accepts s i = (True, None)"

text \<open>When the insert of the holdings fails, the flows of the symbol stay and its short positions are not sent.\<close>

lemma failed_holdings_leave_flows:
  assumes "fetch s = Inr (f, h, sh)" "f \<noteq> []" "h \<noteq> []" "answer s 0 = (True, None)" "answer s 1 = (False, Some e)"
  shows "load_krx fetch answer [s] 0 [] 0 t = ((0, [s], length f), add_rows (f, [], []) t)"
  using assms by (simp add: insert_krx_def put_rows_def)

text \<open>Two symbols with rows every ten days; the second fails in one run, and is served in the next.\<close>

definition demo_source :: "string list \<Rightarrow> int \<Rightarrow> int \<Rightarrow> string \<Rightarrow> krx_rows res" where
  "demo_source bad stop d s =
     (if s \<in> set bad then Inl TransportError
      else let ds = filter (\<lambda>x. d \<le> x \<and> x \<le> stop) (map (\<lambda>k. 720000 + 10 * k) [0..10])
           in Inr (map (\<lambda>x. \<lparr>fw_date = x, fw_symbol = s, fw_investor = ''foreign'', fw_value = 1, fw_volume = 1\<rparr>) ds,
                   map (\<lambda>x. \<lparr>hd_date = x, hd_symbol = s, hd_listed = 1, hd_held = 1, hd_ratio = 1, hd_limit = 1, hd_exhaustion = 1\<rparr>) ds,
                   map (\<lambda>x. short_row_of s x None None) ds))"

definition demo_seeded :: krx_tables where
  "demo_seeded = snd (load_krx (demo_source [] 720000 0) demo_accepts [''A'', ''B''] 0 [] 0 \<lparr>kt_flow = [], kt_hold = [], kt_short = []\<rparr>)"

definition demo_month :: krx_tables where
  "demo_month = monthly_run demo_seeded (demo_source [''B''] 720040, demo_accepts, [''A'', ''B''])"

theorem passed_days_are_not_loaded_again_witness:
  "before_day 720033 (foldl monthly_run demo_month [(demo_source [] 720080, demo_accepts, [''A'', ''B''])]) = before_day 720033 demo_month \<and>
   map fw_date (filter (\<lambda>r. fw_symbol r = ''B'') (fst (before_day 720033 demo_month))) = [720000] \<and>
   map fw_date (filter (\<lambda>r. fw_symbol r = ''A'') (fst (before_day 720033 demo_month))) = [720000, 720000, 720010, 720020, 720030]"
proof -
  have w: "in_window (demo_source bad stop)" for bad stop
    by (auto simp: in_window_def demo_source_def Let_def short_row_of_def split: if_splits)
  have start: "auto_start demo_month = Inr 720033" by code_simp
  have rows: "map fw_date (filter (\<lambda>r. fw_symbol r = ''B'') (fst (before_day 720033 demo_month))) = [720000]"
      "map fw_date (filter (\<lambda>r. fw_symbol r = ''A'') (fst (before_day 720033 demo_month))) = [720000, 720000, 720010, 720020, 720030]"
    by code_simp+
  from passed_days_are_not_loaded_again [OF start, of "[(demo_source [] 720080, demo_accepts, [''A'', ''B''])]"] w rows show ?thesis by simp
qed

end
