(* ===== verification/Fundamentals.thy ===== *)
theory Fundamentals
  imports Prelude "HOL-Library.Multiset"
begin

text \<open>
  Company fundamentals: the rows that \<open>batch/rawdata/fundamentals.py\<close> (SEC) and \<open>batch/rawdata/kr_fundamentals.py\<close>
  (DART) store, the table \<open>fundamentals_quarterly\<close>, and the daily features that \<open>batch/features/edgar.py\<close> derives.

  The arithmetic of numpy is the argument \<open>num\<close>, with its not-a-number for what is missing.  Days are day numbers, parsed by the
  caller.  The sort of a data frame by one column is the argument \<open>order\<close>: pandas sorts with a method that does not
  keep the order of equal keys, and the facts used are the hypothesis \<open>sorts\<close>.
\<close>

section \<open>Numbers\<close>

record 'v num =
  n_add :: "'v \<Rightarrow> 'v \<Rightarrow> 'v"
  n_sub :: "'v \<Rightarrow> 'v \<Rightarrow> 'v"
  n_mul :: "'v \<Rightarrow> 'v \<Rightarrow> 'v"
  n_div :: "'v \<Rightarrow> 'v \<Rightarrow> 'v"
  n_log :: "'v \<Rightarrow> 'v"
  n_sum :: "'v list \<Rightarrow> 'v"
  n_pos :: "'v \<Rightarrow> bool"
  n_zero :: "'v \<Rightarrow> bool"
  n_isnan :: "'v \<Rightarrow> bool"
  n_nan :: 'v
  n_eps :: 'v
  n_one :: 'v

section \<open>The table\<close>

text \<open>\<open>ReplacingMergeTree\<close> ordered by \<open>(symbol, concept, period_end, filed_date)\<close>: of rows with the same key the one
  inserted last is read.\<close>

record 'v fact =
  fa_concept :: string
  fa_end :: int
  fa_filed :: int
  fa_dur :: nat
  fa_value :: 'v

type_synonym 'v fact_table = "((string \<times> string \<times> int \<times> int) \<times> nat \<times> 'v) list"

definition insert_fact :: "string \<Rightarrow> 'v fact_table \<Rightarrow> 'v fact \<Rightarrow> 'v fact_table" where
  "insert_fact s tab f = AList.update (s, fa_concept f, fa_end f, fa_filed f) (fa_dur f, fa_value f) tab"

definition insert_facts :: "string \<Rightarrow> 'v fact list \<Rightarrow> 'v fact_table \<Rightarrow> 'v fact_table" where
  "insert_facts s fs tab = foldl (insert_fact s) tab fs"

definition facts_of :: "string \<Rightarrow> 'v fact_table \<Rightarrow> 'v fact list" where
  "facts_of s tab =
     concat (map (\<lambda>((x, con, e, f), d, v). if x = s then [\<lparr>fa_concept = con, fa_end = e, fa_filed = f, fa_dur = d, fa_value = v\<rparr>] else []) tab)"

section \<open>Rows of the SEC\<close>

record 'v entry =
  en_val :: "'v option"
  en_start :: "int option"
  en_end :: "int option"
  en_filed :: "int option"

text \<open>\<open>companyfacts\<close>: namespace, tag, unit, entries.\<close>

type_synonym 'v companyfacts = "(string \<times> (string \<times> (string \<times> 'v entry list) list) list) list"

fun first_tag :: "(string \<times> (string \<times> 'v entry list) list) list \<Rightarrow> string list \<Rightarrow> 'v entry list option" where
  "first_tag block [] = None"
| "first_tag block (nm # names) =
     (case map_of block nm of
        Some ((u, es) # us) \<Rightarrow> Some es
      | _ \<Rightarrow> first_tag block names)"

definition entries :: "'v companyfacts \<Rightarrow> string list \<Rightarrow> 'v entry list" where
  "entries facts names =
     (case first_tag (get_or facts ''us-gaap'' []) names of
        Some es \<Rightarrow> es
      | None \<Rightarrow> (case first_tag (get_or facts ''dei'' []) names of Some es \<Rightarrow> es | None \<Rightarrow> []))"

definition duration :: "int option \<Rightarrow> int \<Rightarrow> nat" where
  "duration start stop = (case start of None \<Rightarrow> 0 | Some a \<Rightarrow> nat (max 0 (min 65535 (stop - a))))"

definition us_rows :: "(string \<times> string list) list \<Rightarrow> 'v companyfacts \<Rightarrow> 'v fact list" where
  "us_rows concepts facts =
     concat (map (\<lambda>(con, tags). concat (map (\<lambda>e.
       case (en_val e, en_end e, en_filed e) of
         (Some v, Some stop, Some filed) \<Rightarrow>
           [\<lparr>fa_concept = con, fa_end = stop, fa_filed = filed, fa_dur = duration (en_start e) stop, fa_value = v\<rparr>]
       | _ \<Rightarrow> []) (entries facts tags))) concepts)"

section \<open>Rows of DART\<close>

record 'v item =
  it_statement :: string
  it_id :: string
  it_name :: string
  it_received :: int
  it_amount :: "'v option"
  it_added :: "'v option"

type_synonym spec = "string set \<times> string set \<times> string set"

fun match_item :: "'v item list \<Rightarrow> spec \<Rightarrow> 'v option \<times> 'v option" where
  "match_item [] sp = (None, None)"
| "match_item (i # is) sp =
     (case sp of (sjs, ids, names) \<Rightarrow>
        if it_statement i \<in> sjs \<and> (it_id i \<in> ids \<or> it_name i \<in> names) then (it_amount i, it_added i)
        else match_item is sp)"

datatype report = Q1 | Half | Q3 | Annual

text \<open>The reports of a year, the day of the end of a report, and the shares with the day of their filing.\<close>

record 'v dart =
  da_report :: "int \<Rightarrow> report \<Rightarrow> 'v item list"
  da_end :: "int \<Rightarrow> report \<Rightarrow> int"
  da_shares :: "int \<Rightarrow> ('v \<times> int) option"

definition filed_on :: "'v item list \<Rightarrow> int" where
  "filed_on items = it_received (hd items)"

definition row_of :: "string \<Rightarrow> int \<Rightarrow> int \<Rightarrow> nat \<Rightarrow> 'v \<Rightarrow> 'v fact" where
  "row_of con stop filed dur v = \<lparr>fa_concept = con, fa_end = stop, fa_filed = filed, fa_dur = dur, fa_value = v\<rparr>"

definition report_rows :: "'v dart \<Rightarrow> int \<Rightarrow> report list \<Rightarrow> nat \<Rightarrow> string \<times> spec \<Rightarrow> 'v fact list" where
  "report_rows da year rps dur cs =
     concat (map (\<lambda>rp. case da_report da year rp of
         [] \<Rightarrow> []
       | items \<Rightarrow> (case fst (match_item items (snd cs)) of
                    None \<Rightarrow> [] | Some th \<Rightarrow> [row_of (fst cs) (da_end da year rp) (filed_on items) dur th])) rps)"

text \<open>The fourth quarter is the annual figure less the figure of the first nine months.\<close>

definition q4_rows :: "'v num \<Rightarrow> 'v dart \<Rightarrow> int \<Rightarrow> string \<times> spec \<Rightarrow> 'v fact list" where
  "q4_rows N da year cs =
     (case da_report da year Annual of
        [] \<Rightarrow> []
      | items \<Rightarrow>
          (case (fst (match_item items (snd cs)), snd (match_item (da_report da year Q3) (snd cs))) of
             (Some ann, Some nine) \<Rightarrow> [row_of (fst cs) (da_end da year Annual) (filed_on items) 90 (n_sub N ann nine)]
           | _ \<Rightarrow> []))"

definition year_rows :: "'v num \<Rightarrow> (string \<times> spec) list \<Rightarrow> (string \<times> spec) list \<Rightarrow> 'v dart \<Rightarrow> int \<Rightarrow> int \<Rightarrow> 'v fact list" where
  "year_rows N inst flow da dec31 year =
     concat (map (report_rows da year [Q1, Half, Q3, Annual] 0) inst) @
     concat (map (\<lambda>cs. report_rows da year [Q1, Half, Q3] 90 cs @ q4_rows N da year cs) flow) @
     (case da_shares da year of None \<Rightarrow> [] | Some (v, filed) \<Rightarrow> [row_of ''shares'' dec31 filed 0 v])"

definition kr_rows :: "'v num \<Rightarrow> (string \<times> spec) list \<Rightarrow> (string \<times> spec) list \<Rightarrow> 'v dart \<Rightarrow> (int \<Rightarrow> int) \<Rightarrow> int \<Rightarrow> int \<Rightarrow> 'v fact list" where
  "kr_rows N inst flow da dec31 start_year this_year =
     concat (map (\<lambda>y. year_rows N inst flow da (dec31 y) y) [start_year..this_year])"

text \<open>The loop over the symbols: a symbol without a corporation code or with an error is skipped; nothing stored at all
  is an error.\<close>

definition store_kr_fundamentals ::
  "bool \<Rightarrow> (string \<times> string) list \<Rightarrow> (string \<Rightarrow> 'v fact list res) \<Rightarrow> string list \<Rightarrow> 'v fact_table \<Rightarrow> 'v fact_table \<times> (nat \<times> nat) res" where
  "store_kr_fundamentals has_key corps rows symbols tab =
     (if \<not> has_key then (tab, Inl (RuntimeError ''DART_API_KEY''))
      else
        let got = concat (map (\<lambda>s. case map_of corps s of
                      None \<Rightarrow> []
                    | Some c \<Rightarrow> (case rows s of Inl e \<Rightarrow> [] | Inr [] \<Rightarrow> [] | Inr rs \<Rightarrow> [(s, rs)])) symbols);
            n = sum_list (map (\<lambda>(s, rs). length rs) got)
        in (foldl (\<lambda>t (s, rs). insert_facts s rs t) tab got,
            if n = 0 then Inl (RuntimeError ''no rows'') else Inr (length got, n)))"

section \<open>Daily features\<close>

text \<open>\<open>drop_duplicates(key, keep="last")\<close>.\<close>

fun keep_last :: "('a \<Rightarrow> 'k) \<Rightarrow> 'a list \<Rightarrow> 'a list" where
  "keep_last key [] = []"
| "keep_last key (x # xs) = (if key x \<in> key ` set xs then keep_last key xs else x # keep_last key xs)"

text \<open>\<open>_asof\<close>: the value of the last row filed on or before the day, of rows in the order of their filing.\<close>

definition asof :: "'v num \<Rightarrow> (int \<times> 'v) list \<Rightarrow> int \<Rightarrow> 'v" where
  "asof N rows d = (case filter (\<lambda>(f, v). f \<le> d) rows of [] \<Rightarrow> n_nan N | r # rs \<Rightarrow> snd (last (r # rs)))"

type_synonym 'v order = "(int \<times> 'v) list \<Rightarrow> (int \<times> 'v) list"

definition sorts :: "'v order \<Rightarrow> bool" where
  "sorts order \<longleftrightarrow> (\<forall>xs. sorted (map fst (order xs)) \<and> mset (order xs) = mset xs)"

definition inst :: "'v num \<Rightarrow> 'v order \<Rightarrow> 'v fact list \<Rightarrow> string \<Rightarrow> int \<Rightarrow> 'v" where
  "inst N order cf con =
     asof N (order (keep_last fst (order (map (\<lambda>f. (fa_filed f, fa_value f)) (filter (\<lambda>f. fa_concept f = con \<and> fa_dur f = 0) cf)))))"

text \<open>The quarters of a flow, the last filing of each, in the order of their ends.\<close>

definition flow_facts :: "'v fact list \<Rightarrow> string \<Rightarrow> 'v fact list" where
  "flow_facts cf con = filter (\<lambda>f. fa_concept f = con \<and> 80 \<le> fa_dur f \<and> fa_dur f \<le> 100) cf"

definition quarters :: "'v fact list \<Rightarrow> string \<Rightarrow> 'v fact list" where
  "quarters cf con = keep_last fa_end (sort_key fa_end (sort_key fa_filed (flow_facts cf con)))"

text \<open>\<open>rolling(4).sum()\<close> and \<open>shift(4)\<close>, by position.\<close>

definition ttm_at :: "'v num \<Rightarrow> 'v fact list \<Rightarrow> nat \<Rightarrow> 'v" where
  "ttm_at N q i = (if i < 3 then n_nan N else n_sum N (map fa_value (take 4 (drop (i - 3) q))))"

definition yoy_at :: "'v num \<Rightarrow> 'v fact list \<Rightarrow> nat \<Rightarrow> 'v" where
  "yoy_at N q i = n_sub N (n_div N (ttm_at N q i) (if i < 4 then n_nan N else ttm_at N q (i - 4))) (n_one N)"

definition ttm_rows :: "'v num \<Rightarrow> 'v fact list \<Rightarrow> (int \<times> 'v \<times> 'v) list" where
  "ttm_rows N q = filter (\<lambda>(f, t, y). \<not> n_isnan N t) (map (\<lambda>i. (fa_filed (q ! i), ttm_at N q i, yoy_at N q i)) [0..<length q])"

definition ttm :: "'v num \<Rightarrow> 'v order \<Rightarrow> 'v fact list \<Rightarrow> string \<Rightarrow> int \<Rightarrow> 'v" where
  "ttm N order cf con = asof N (order (order (map (\<lambda>(f, t, y). (f, t)) (ttm_rows N (quarters cf con)))))"

definition ttm_yoy :: "'v num \<Rightarrow> 'v order \<Rightarrow> 'v fact list \<Rightarrow> string \<Rightarrow> int \<Rightarrow> 'v" where
  "ttm_yoy N order cf con = asof N (order (order (map (\<lambda>(f, t, y). (f, y)) (ttm_rows N (quarters cf con)))))"

record 'v fund_features =
  ff_mktcap :: 'v
  ff_turnover :: 'v
  ff_pbr :: 'v
  ff_per :: 'v
  ff_psr :: 'v
  ff_roe :: 'v
  ff_roa :: 'v
  ff_rev_growth :: 'v

text \<open>\<open>_features_from_concepts\<close> on one day with its close and volume.\<close>

definition fund_features :: "'v num \<Rightarrow> 'v order \<Rightarrow> 'v fact list \<Rightarrow> 'v \<Rightarrow> 'v \<Rightarrow> int \<Rightarrow> 'v fund_features" where
  "fund_features N order cf close vol d =
     (let sh = inst N order cf ''shares'' d; eq = inst N order cf ''equity'' d; assets = inst N order cf ''assets'' d;
          ni = ttm N order cf ''net_income'' d; rv = ttm N order cf ''revenue'' d;
          cap = n_mul N close sh; eps = (\<lambda>x. n_add N x (n_eps N))
      in \<lparr>ff_mktcap = (if n_pos N cap then n_log N cap else n_nan N),
          ff_turnover = n_div N vol (eps sh), ff_pbr = n_div N cap (eps eq),
          ff_per = n_div N cap (if n_zero N ni then n_nan N else ni),
          ff_psr = n_div N cap (eps rv), ff_roe = n_div N ni (eps eq), ff_roa = n_div N ni (eps assets),
          ff_rev_growth = ttm_yoy N order cf ''revenue'' d\<rparr>)"

text \<open>\<open>daily_fundamentals_from_store\<close>: the panel as the rows of each symbol.\<close>

definition daily_fundamentals ::
  "'v num \<Rightarrow> 'v order \<Rightarrow> 'v fact_table \<Rightarrow> (string \<times> (int \<times> 'v \<times> 'v) list) list \<Rightarrow> (string \<times> int \<times> 'v fund_features) list" where
  "daily_fundamentals N order tab panel =
     concat (map (\<lambda>(s, g). let cf = facts_of s tab
                           in if cf = [] then [] else map (\<lambda>(d, c, v). (s, d, fund_features N order cf c v d)) (sort_key fst g)) panel)"

text \<open>\<open>daily_13f_from_store\<close>: the holdings of a symbol, known 45 days after the end of the period.\<close>

record 'v holding13 =
  hd_end :: int
  hd_holders :: 'v
  hd_shares :: 'v

fun pct_change :: "'v num \<Rightarrow> 'v list \<Rightarrow> 'v list" where
  "pct_change N [] = []"
| "pct_change N [x] = [n_nan N]"
| "pct_change N xs =
     n_nan N # map (\<lambda>(a, b). n_sub N (n_div N b a) (n_one N)) (zip xs (tl xs))"

definition columns13 :: "'v num \<Rightarrow> 'v holding13 list \<Rightarrow> (int \<times> 'v) list list" where
  "columns13 N hs =
     (let q = sort_key hd_end hs; filed = map (\<lambda>h. hd_end h + 45) q; holders = map hd_holders q; shares = map hd_shares q
      in [zip filed holders, zip filed shares, zip filed (pct_change N holders), zip filed (pct_change N shares)])"

definition features13 :: "'v num \<Rightarrow> ('v \<Rightarrow> 'v) \<Rightarrow> 'v order \<Rightarrow> 'v holding13 list \<Rightarrow> int \<Rightarrow> 'v list" where
  "features13 N log1p order hs d =
     (let xs = map (\<lambda>col. asof N (order col) d) (columns13 N hs)
      in [log1p (xs ! 0), log1p (xs ! 1), xs ! 2, xs ! 3])"

section \<open>The features of a day use what was filed by then\<close>

definition known :: "int \<Rightarrow> 'v fact list \<Rightarrow> 'v fact list" where
  "known d cf = filter (\<lambda>f. fa_filed f \<le> d) cf"

text \<open>At most one value of a balance is filed on a day; each quarter of a flow is filed once, an earlier one before a
  later one.\<close>

definition one_per_filing :: "'v fact list \<Rightarrow> string \<Rightarrow> bool" where
  "one_per_filing cf con \<longleftrightarrow> distinct (map fa_filed (filter (\<lambda>f. fa_concept f = con \<and> fa_dur f = 0) cf))"

definition filed_in_order :: "'v fact list \<Rightarrow> string \<Rightarrow> bool" where
  "filed_in_order cf con \<longleftrightarrow> distinct (map fa_end (flow_facts cf con)) \<and>
     (\<forall>f \<in> set (flow_facts cf con). \<forall>g \<in> set (flow_facts cf con). fa_end f < fa_end g \<longrightarrow> fa_filed f < fa_filed g)"

lemma keep_last_distinct: "distinct (map key xs) \<Longrightarrow> keep_last key xs = xs"
  by (induction xs) auto

lemma order_distinct:
  assumes "sorts order" "distinct (map fst xs)"
  shows "order xs = sort_key fst xs"
proof -
  have "sort_key fst xs = order xs"
    using assms by (intro sort_key_inj_key_eq) (auto simp: sorts_def distinct_map)
  then show ?thesis by simp
qed

lemma order_sorted: "sorts order \<Longrightarrow> distinct (map fst xs) \<Longrightarrow> sorted (map fst xs) \<Longrightarrow> order xs = xs"
  using order_distinct [of order xs] sort_key_id_if_sorted [of fst xs] by simp

lemma asof_filter: "filter (\<lambda>(f, v). f \<le> d) xs = filter (\<lambda>(f, v). f \<le> d) ys \<Longrightarrow> asof N xs d = asof N ys d"
  by (simp add: asof_def)

lemma inst_known:
  assumes "sorts order" "one_per_filing cf con"
  shows "inst N order cf con d = inst N order (known d cf) con d"
proof -
  let ?xs = "\<lambda>cf. map (\<lambda>f. (fa_filed f, fa_value f)) (filter (\<lambda>f. fa_concept f = con \<and> fa_dur f = 0) cf)"
  have inst_eq: "inst N order cf con d = asof N (sort_key fst (?xs cf)) d" if "one_per_filing cf con" for cf
  proof -
    have dx: "distinct (map fst (?xs cf))" using that by (simp only: one_per_filing_def map_map comp_def fst_conv)
    moreover have "mset (map fst (sort_key fst (?xs cf))) = mset (map fst (?xs cf))" by (simp only: mset_map mset_sort)
    ultimately have "distinct (map fst (sort_key fst (?xs cf)))" using mset_eq_imp_distinct_iff by blast
    then show ?thesis using dx assms(1)
      by (simp add: inst_def order_distinct keep_last_distinct sort_key_id_if_sorted)
  qed
  have "filter (\<lambda>(f, v). f \<le> d) (?xs cf) = ?xs (known d cf)"
    by (simp add: known_def filter_map comp_def conj_ac cong: filter_cong)
  then have "filter (\<lambda>(f, v). f \<le> d) (sort_key fst (?xs cf)) = sort_key fst (?xs (known d cf))"
    by (simp add: filter_sort)
  moreover have "filter (\<lambda>(f, v). f \<le> d) (sort_key fst (?xs (known d cf))) = sort_key fst (?xs (known d cf))"
    by (intro filter_True) (auto simp: known_def)
  moreover have "one_per_filing (known d cf) con"
  proof -
    have "filter (\<lambda>f. fa_concept f = con \<and> fa_dur f = 0) (known d cf) =
        filter (\<lambda>f. fa_filed f \<le> d) (filter (\<lambda>f. fa_concept f = con \<and> fa_dur f = 0) cf)"
      by (simp add: known_def conj_ac)
    then show ?thesis using assms(2) by (simp only: one_per_filing_def distinct_map_filter)
  qed
  ultimately show ?thesis using assms(2) by (simp add: inst_eq asof_filter)
qed

lemma quarters_sorted:
  assumes "filed_in_order cf con"
  shows "quarters cf con = sort_key fa_end (sort_key fa_filed (flow_facts cf con))" "sorted_wrt (<) (map fa_filed (quarters cf con))"
proof -
  let ?Q = "sort_key fa_end (sort_key fa_filed (flow_facts cf con))"
  have "distinct (map fa_end ?Q)" using assms by (simp add: filed_in_order_def distinct_map)
  then show eq: "quarters cf con = ?Q" by (simp add: quarters_def keep_last_distinct)
  have "sorted_wrt (<) (map fa_end ?Q)" using \<open>distinct (map fa_end ?Q)\<close> by (simp add: strict_sorted_iff)
  moreover have "set ?Q = set (flow_facts cf con)" by simp
  ultimately show "sorted_wrt (<) (map fa_filed (quarters cf con))"
    using assms by (simp add: eq sorted_wrt_map filed_in_order_def) (erule sorted_wrt_mono_rel [rotated], simp)
qed

lemma quarters_known:
  assumes "filed_in_order cf con"
  shows "filed_in_order (known d cf) con" "quarters (known d cf) con = filter (\<lambda>f. fa_filed f \<le> d) (quarters cf con)"
proof -
  have ff: "flow_facts (known d cf) con = filter (\<lambda>f. fa_filed f \<le> d) (flow_facts cf con)"
    by (simp add: flow_facts_def known_def conj_ac)
  show ok: "filed_in_order (known d cf) con"
    using assms by (simp add: filed_in_order_def ff distinct_map_filter)
  show "quarters (known d cf) con = filter (\<lambda>f. fa_filed f \<le> d) (quarters cf con)"
    by (simp add: quarters_sorted(1) ok assms ff filter_sort)
qed

lemma filter_filed_take:
  "sorted_wrt (<) (map fa_filed q) \<Longrightarrow> filter (\<lambda>f. fa_filed f \<le> d) q = take (length (filter (\<lambda>f. fa_filed f \<le> d) q)) q"
proof (induction q)
  case (Cons f q)
  then have "filter (\<lambda>f. fa_filed f \<le> d) q = []" if "\<not> fa_filed f \<le> d" using that by (auto simp: filter_empty_conv)
  then show ?case using Cons by auto
qed simp

lemma filed_iff:
  "sorted_wrt (<) (map fa_filed q) \<Longrightarrow> i < length q \<Longrightarrow>
     fa_filed (q ! i) \<le> d \<longleftrightarrow> i < length (filter (\<lambda>f. fa_filed f \<le> d) q)"
proof (induction q arbitrary: i)
  case (Cons f q)
  show ?case
  proof (cases "fa_filed f \<le> d")
    case True
    then show ?thesis using Cons by (cases i) auto
  next
    case False
    then have "\<not> fa_filed g \<le> d" if "g \<in> set (f # q)" for g using Cons.prems(1) that by auto
    moreover from this have "filter (\<lambda>f. fa_filed f \<le> d) (f # q) = []" by (simp only: filter_empty_conv) blast
    moreover have "(f # q) ! i \<in> set (f # q)" using Cons.prems(2) nth_mem by blast
    ultimately show ?thesis by (metis length_0_conv less_nat_zero_code)
  qed
qed simp

lemma ttm_at_take: "i < n \<Longrightarrow> ttm_at N (take n q) i = ttm_at N q i"
  by (cases "i < 3") (simp_all add: ttm_at_def drop_take min_absorb1)

lemma filter_upt_less: "filter (\<lambda>i. i < n) [0..<m] = [0..<min n m]"
  by (induction m) (auto simp: min_def le_Suc_eq)

lemma ttm_rows_known:
  assumes "sorted_wrt (<) (map fa_filed q)"
  shows "filter (\<lambda>(f, t, y). f \<le> d) (ttm_rows N q) = ttm_rows N (filter (\<lambda>f. fa_filed f \<le> d) q)"
proof -
  define n where "n = length (filter (\<lambda>f. fa_filed f \<le> d) q)"
  have take: "filter (\<lambda>f. fa_filed f \<le> d) q = take n q" using filter_filed_take [OF assms] by (simp add: n_def)
  have n: "n \<le> length q" by (simp add: n_def)
  have iff: "fa_filed (q ! i) \<le> d \<longleftrightarrow> i < n" if "i < length q" for i
    using filed_iff [OF assms that] by (simp add: n_def)
  have "filter (\<lambda>(f, t, y). f \<le> d) (ttm_rows N q) =
      filter (\<lambda>(f, t, y). \<not> n_isnan N t) (map (\<lambda>i. (fa_filed (q ! i), ttm_at N q i, yoy_at N q i)) (filter (\<lambda>i. fa_filed (q ! i) \<le> d) [0..<length q]))"
    by (simp add: ttm_rows_def filter_map comp_def conj_ac case_prod_unfold)
  also have "filter (\<lambda>i. fa_filed (q ! i) \<le> d) [0..<length q] = [0..<n]"
  proof -
    have "filter (\<lambda>i. fa_filed (q ! i) \<le> d) [0..<length q] = filter (\<lambda>i. i < n) [0..<length q]"
      by (intro filter_cong) (auto simp: iff)
    also have "\<dots> = [0..<n]" using n filter_upt_less [of n "length q"] by (simp add: min_absorb1)
    finally show ?thesis .
  qed
  also have "map (\<lambda>i. (fa_filed (q ! i), ttm_at N q i, yoy_at N q i)) [0..<n] =
      map (\<lambda>i. (fa_filed (take n q ! i), ttm_at N (take n q) i, yoy_at N (take n q) i)) [0..<length (take n q)]"
    using n by (intro map_cong) (auto simp: ttm_at_take yoy_at_def)
  finally show ?thesis by (simp only: ttm_rows_def take)
qed

lemma ttm_known:
  assumes "sorts order" "filed_in_order cf con"
  shows "ttm N order cf con d = ttm N order (known d cf) con d" "ttm_yoy N order cf con d = ttm_yoy N order (known d cf) con d"
proof -
  have fst_rows: "sorted_wrt (<) (map fst (map (\<lambda>(f, t, y). (f, g t y)) (ttm_rows N q)))" if "sorted_wrt (<) (map fa_filed q)"
    for q and g :: "'a \<Rightarrow> 'a \<Rightarrow> 'a"
  proof -
    have "map fst (map (\<lambda>(f, t, y). (f, g t y)) (ttm_rows N q)) = map (\<lambda>i. fa_filed (q ! i)) (filter (\<lambda>i. \<not> n_isnan N (ttm_at N q i)) [0..<length q])"
      by (simp add: ttm_rows_def filter_map comp_def case_prod_unfold)
    moreover have "sorted_wrt (<) (map (\<lambda>i. fa_filed (q ! i)) [0..<length q])" using that by (simp add: map_nth [of q] flip: map_map [unfolded comp_def])
    ultimately show ?thesis by (simp add: sorted_wrt_map sorted_wrt_filter)
  qed
  have ident: "order (order (map (\<lambda>(f, t, y). (f, g t y)) (ttm_rows N q))) = map (\<lambda>(f, t, y). (f, g t y)) (ttm_rows N q)"
    if "sorted_wrt (<) (map fa_filed q)" for q and g :: "'a \<Rightarrow> 'a \<Rightarrow> 'a"
    using order_sorted [OF assms(1)] fst_rows [OF that, of g] by (simp add: strict_sorted_iff)
  have same: "asof N (map (\<lambda>(f, t, y). (f, g t y)) (ttm_rows N (quarters cf con))) d =
      asof N (map (\<lambda>(f, t, y). (f, g t y)) (ttm_rows N (quarters (known d cf) con))) d" for g :: "'a \<Rightarrow> 'a \<Rightarrow> 'a"
  proof (rule asof_filter)
    have f: "filter (\<lambda>(f, v). f \<le> d) (map (\<lambda>(f, t, y). (f, g t y)) rows) = map (\<lambda>(f, t, y). (f, g t y)) (filter (\<lambda>(f, t, y). f \<le> d) rows)" for rows
      by (simp add: filter_map comp_def case_prod_unfold)
    have q: "quarters (known d cf) con = filter (\<lambda>f. fa_filed f \<le> d) (quarters cf con)" using quarters_known(2) [OF assms(2)] .
    have s: "sorted_wrt (<) (map fa_filed (quarters cf con))" by (rule quarters_sorted(2) [OF assms(2)])
    then have "sorted_wrt (<) (map fa_filed (filter (\<lambda>f. fa_filed f \<le> d) (quarters cf con)))"
      by (simp add: sorted_wrt_map sorted_wrt_filter)
    from ttm_rows_known [OF this, of d N] ttm_rows_known [OF s, of d N]
    show "filter (\<lambda>(f, v). f \<le> d) (map (\<lambda>(f, t, y). (f, g t y)) (ttm_rows N (quarters cf con))) =
      filter (\<lambda>(f, v). f \<le> d) (map (\<lambda>(f, t, y). (f, g t y)) (ttm_rows N (quarters (known d cf) con)))"
      by (simp add: f q)
  qed
  show "ttm N order cf con d = ttm N order (known d cf) con d" "ttm_yoy N order cf con d = ttm_yoy N order (known d cf) con d"
    using same [of "\<lambda>t y. t"] same [of "\<lambda>t y. y"] ident [of _ "\<lambda>t y. t"] ident [of _ "\<lambda>t y. y"]
      quarters_sorted(2) [OF assms(2)] quarters_sorted(2) [OF quarters_known(1) [OF assms(2)], of d]
    by (simp_all add: ttm_def ttm_yoy_def)
qed

text \<open>The fundamental features of a day use only what was filed by that day: removing all later filings from the
  store does not change them. This holds for a company whose balances are filed one value a day and whose quarters
  are filed once and in their order; the restatements excluded here are the subject of a property below.\<close>

lemma fund_features_known:
  assumes "sorts order" "\<forall>con \<in> {''shares'', ''equity'', ''assets''}. one_per_filing cf con"
    and "\<forall>con \<in> {''net_income'', ''revenue''}. filed_in_order cf con"
  shows "fund_features N order cf close vol d = fund_features N order (known d cf) close vol d"
proof -
  have i: "inst N order cf con d = inst N order (known d cf) con d" if "con \<in> {''shares'', ''equity'', ''assets''}" for con
    using assms(1,2) that by (intro inst_known) auto
  have t: "ttm N order cf con d = ttm N order (known d cf) con d" "ttm_yoy N order cf con d = ttm_yoy N order (known d cf) con d"
    if "con \<in> {''net_income'', ''revenue''}" for con
    using assms(1,3) that ttm_known [of order cf con N d] by auto
  show ?thesis unfolding fund_features_def Let_def using i t by simp
qed

definition demo_num :: "int num" where
  "demo_num = \<lparr>n_add = (+), n_sub = (-), n_mul = (*), n_div = (div), n_log = id, n_sum = sum_list, n_pos = (\<lambda>x. 0 < x),
     n_zero = (\<lambda>x. x = 0), n_isnan = (\<lambda>x. x = - 1), n_nan = - 1, n_eps = 0, n_one = 1\<rparr>"

definition quarter :: "int \<Rightarrow> int \<Rightarrow> 'v \<Rightarrow> 'v fact" where
  "quarter stop filed v = row_of ''net_income'' stop filed 90 v"

definition demo_store :: "int fact list" where
  "demo_store = [quarter 90 130 1, quarter 181 220 2, quarter 273 310 3, quarter 365 410 4, quarter 455 500 5,
     row_of ''shares'' 365 410 0 7]"

lemma sorts_key: "sorts (sort_key fst)" by (simp add: sorts_def)

section \<open>Restatements and missing quarters\<close>

lemma four_quarters:
  assumes "sorts order" "n_isnan N (n_nan N)" "quarters cf con = [a, b, c, e]" "fa_filed e \<le> d"
    and "\<not> n_isnan N (n_sum N [fa_value a, fa_value b, fa_value c, fa_value e])"
  shows "ttm N order cf con d = n_sum N [fa_value a, fa_value b, fa_value c, fa_value e]"
proof -
  have "map (\<lambda>(f, t, y). (f, t)) (ttm_rows N (quarters cf con)) = [(fa_filed e, n_sum N [fa_value a, fa_value b, fa_value c, fa_value e])]"
    using assms(2,5) by (simp add: assms(3) ttm_rows_def ttm_at_def upt_rec)
  moreover have "order [x] = [x]" for x using assms(1) by (metis sorts_def mset_single_iff)
  ultimately show ?thesis using assms(4) by (simp add: ttm_def asof_def)
qed

text \<open>C30: A restated quarter leaks. Four quarters of a flow are filed in their order by a day; the second is restated
  after that day. The stored rows that were filed by the day are the same with and without the restatement, but the
  trailing sum of that day is made with the restated figure.\<close>

theorem restatement_leaks_into_past:
  assumes "sorts order" "n_isnan N (n_nan N)"
    and "\<not> n_isnan N (n_sum N [v1, v2, v3, v4])" "\<not> n_isnan N (n_sum N [v1, w, v3, v4])"
    and "e1 < e2" "e2 < e3" "e3 < e4" "f1 < f2" "f2 < f3" "f3 < f4" "f4 \<le> d" "d < f5"
    and "cf = [row_of con e1 f1 90 v1, row_of con e2 f2 90 v2, row_of con e3 f3 90 v3, row_of con e4 f4 90 v4]"
  shows "known d (cf @ [row_of con e2 f5 90 w]) = known d cf \<and>
    ttm N order cf con d = n_sum N [v1, v2, v3, v4] \<and> ttm N order (cf @ [row_of con e2 f5 90 w]) con d = n_sum N [v1, w, v3, v4]"
proof -
  have q: "quarters cf con = [row_of con e1 f1 90 v1, row_of con e2 f2 90 v2, row_of con e3 f3 90 v3, row_of con e4 f4 90 v4]"
    using assms(5-13) by (simp add: quarters_def flow_facts_def row_of_def)
  have q': "quarters (cf @ [row_of con e2 f5 90 w]) con =
      [row_of con e1 f1 90 v1, row_of con e2 f5 90 w, row_of con e3 f3 90 v3, row_of con e4 f4 90 v4]"
    using assms(5-13) by (simp add: quarters_def flow_facts_def row_of_def)
  have "known d (cf @ [row_of con e2 f5 90 w]) = known d cf" using assms(12) by (simp add: known_def row_of_def)
  moreover have "ttm N order cf con d = n_sum N [v1, v2, v3, v4]"
    using four_quarters [OF assms(1,2) q] assms(3,11) by (simp add: row_of_def)
  moreover have "ttm N order (cf @ [row_of con e2 f5 90 w]) con d = n_sum N [v1, w, v3, v4]"
    using four_quarters [OF assms(1,2) q'] assms(4,11) by (simp add: row_of_def)
  ultimately show ?thesis by blast
qed

theorem restatement_leaks_into_past_witness:
  "\<exists>cf :: int fact list. known 450 (cf @ [row_of ''net_income'' 181 460 90 9]) = known 450 cf \<and>
     ttm demo_num (sort_key fst) cf ''net_income'' 450 = 10 \<and>
     ttm demo_num (sort_key fst) (cf @ [row_of ''net_income'' 181 460 90 9]) ''net_income'' 450 = 17"
proof -
  let ?cf = "[row_of ''net_income'' 90 130 90 1, row_of ''net_income'' 181 220 90 2, row_of ''net_income'' 273 310 90 3,
    row_of ''net_income'' 365 410 90 (4::int)]"
  have "n_isnan demo_num (n_nan demo_num)" "\<not> n_isnan demo_num (n_sum demo_num [1, 2, 3, 4])"
      "\<not> n_isnan demo_num (n_sum demo_num [1, 9, 3, 4])" by (simp_all add: demo_num_def)
  from restatement_leaks_into_past [OF sorts_key this, of 90 181 273 365 130 220 310 410 450 460 ?cf "''net_income''"]
  have "known 450 (?cf @ [row_of ''net_income'' 181 460 90 9]) = known 450 ?cf \<and>
      ttm demo_num (sort_key fst) ?cf ''net_income'' 450 = n_sum demo_num [1, 2, 3, 4] \<and>
      ttm demo_num (sort_key fst) (?cf @ [row_of ''net_income'' 181 460 90 9]) ''net_income'' 450 = n_sum demo_num [1, 9, 3, 4]"
    by simp
  moreover have "n_sum demo_num [1, 2, 3, 4] = 10" "n_sum demo_num [1, 9, 3, 4] = 17" by (simp_all add: demo_num_def)
  ultimately show ?thesis by (intro exI [of _ ?cf]) (simp only: simp_thms)
qed

text \<open>A missing quarter stretches the trailing year. The rolling sum counts rows, not time: when the fourth quarter
  of a year is not stored, as for companies that report it in the annual figure only, the trailing twelve months of
  the first quarter of the next year are the sum over four quarters of which the first began 455 days before.\<close>

lemma missing_quarter_stretches_ttm:
  assumes "sorts order" "n_isnan N (n_nan N)" "\<not> n_isnan N (n_sum N [v1, v2, v3, v4])" "f1 < f2" "f2 < f3" "f3 < f4" "f4 \<le> d"
  shows "ttm N order [row_of con 90 f1 90 v1, row_of con 181 f2 91 v2, row_of con 273 f3 92 v3, row_of con 455 f4 90 v4] con d =
    n_sum N [v1, v2, v3, v4]"
proof -
  have "quarters [row_of con 90 f1 90 v1, row_of con 181 f2 91 v2, row_of con 273 f3 92 v3, row_of con 455 f4 90 v4] con =
      [row_of con 90 f1 90 v1, row_of con 181 f2 91 v2, row_of con 273 f3 92 v3, row_of con 455 f4 90 v4]"
    using assms(4-6) by (simp add: quarters_def flow_facts_def row_of_def)
  from four_quarters [OF assms(1,2) this] assms(3,7) show ?thesis by (simp add: row_of_def)
qed

text \<open>The key of the table has no duration: of the figures of one filing for one end, the quarter and the year to date,
  the one that is inserted last is kept.\<close>

lemma year_to_date_overwrites_quarter:
  "facts_of s (insert_facts s [row_of con e f 90 v, row_of con e f 181 w] []) = [row_of con e f 181 w]"
  by (simp add: facts_of_def insert_facts_def insert_fact_def row_of_def)

end
