(* ===== verification/Features.thy ===== *)
theory Features
  imports Fundamentals
begin

text \<open>
  Daily features: the price features of \<open>batch/features/ohlcv.py\<close>, and the American context of Korean
  stocks (\<open>batch/features/cross_market.py\<close>).

  A column is the list of its values in the order of the dates, with not-a-number for what is missing.  The arithmetic
  of numpy and the aggregates that pandas forms over the values of a window are the argument \<open>np\<close>; which values a
  window, a shift or a difference takes is written out.  Exponentially weighted means are functions of all values so
  far.
\<close>

section \<open>Columns\<close>

record 'v np =
  p_add :: "'v \<Rightarrow> 'v \<Rightarrow> 'v"
  p_sub :: "'v \<Rightarrow> 'v \<Rightarrow> 'v"
  p_mul :: "'v \<Rightarrow> 'v \<Rightarrow> 'v"
  p_div :: "'v \<Rightarrow> 'v \<Rightarrow> 'v"
  p_max :: "'v \<Rightarrow> 'v \<Rightarrow> 'v"
  p_min :: "'v \<Rightarrow> 'v \<Rightarrow> 'v"
  p_neg :: "'v \<Rightarrow> 'v"
  p_abs :: "'v \<Rightarrow> 'v"
  p_log :: "'v \<Rightarrow> 'v"
  p_exp :: "'v \<Rightarrow> 'v"
  p_sqrt :: "'v \<Rightarrow> 'v"
  p_sign :: "'v \<Rightarrow> 'v"
  p_square :: "'v \<Rightarrow> 'v"
  p_positive :: "'v \<Rightarrow> 'v"      \<comment> \<open>\<open>x > 0\<close> as a number\<close>
  p_negative :: "'v \<Rightarrow> 'v"
  p_lower0 :: "'v \<Rightarrow> 'v"        \<comment> \<open>\<open>clip(lower=0)\<close>\<close>
  p_upper0 :: "'v \<Rightarrow> 'v"
  p_isnan :: "'v \<Rightarrow> bool"
  p_nan :: 'v
  p_const :: "rat \<Rightarrow> 'v"
  p_mean :: "'v list \<Rightarrow> 'v"
  p_sum :: "'v list \<Rightarrow> 'v"
  p_std :: "'v list \<Rightarrow> 'v"
  p_var :: "'v list \<Rightarrow> 'v"
  p_greatest :: "'v list \<Rightarrow> 'v"
  p_least :: "'v list \<Rightarrow> 'v"
  p_skew :: "'v list \<Rightarrow> 'v"
  p_kurt :: "'v list \<Rightarrow> 'v"
  p_cov :: "('v \<times> 'v) list \<Rightarrow> 'v"
  p_corr :: "('v \<times> 'v) list \<Rightarrow> 'v"
  p_ewm :: "rat \<Rightarrow> 'v list \<Rightarrow> 'v"

type_synonym 'v column = "'v list"

definition zip_with :: "('v \<Rightarrow> 'v \<Rightarrow> 'v) \<Rightarrow> 'v column \<Rightarrow> 'v column \<Rightarrow> 'v column" where
  "zip_with f xs ys = map (\<lambda>(x, y). f x y) (zip xs ys)"

definition shift :: "'v np \<Rightarrow> nat \<Rightarrow> 'v column \<Rightarrow> 'v column" where
  "shift N k xs = take (length xs) (replicate k (p_nan N) @ xs)"

definition diff1 :: "'v np \<Rightarrow> 'v column \<Rightarrow> 'v column" where
  "diff1 N xs = zip_with (p_sub N) xs (shift N 1 xs)"

text \<open>The column of the values of a function on the values so far, and the last \<open>w\<close> of them.\<close>

definition expanding :: "('a list \<Rightarrow> 'v) \<Rightarrow> 'a list \<Rightarrow> 'v column" where
  "expanding f xs = map (\<lambda>i. f (take (Suc i) xs)) [0..<length xs]"

definition enough :: "'v np \<Rightarrow> nat \<Rightarrow> ('v list \<Rightarrow> 'v) \<Rightarrow> 'v list \<Rightarrow> 'v" where
  "enough N m f win = (let vs = filter (\<lambda>x. \<not> p_isnan N x) win in if length vs < m then p_nan N else f vs)"

definition rolling :: "'v np \<Rightarrow> nat \<Rightarrow> nat \<Rightarrow> ('v list \<Rightarrow> 'v) \<Rightarrow> 'v column \<Rightarrow> 'v column" where
  "rolling N w m f = expanding (\<lambda>p. enough N m f (drop (length p - w) p))"

definition rolling2 :: "'v np \<Rightarrow> nat \<Rightarrow> nat \<Rightarrow> (('v \<times> 'v) list \<Rightarrow> 'v) \<Rightarrow> 'v column \<Rightarrow> 'v column \<Rightarrow> 'v column" where
  "rolling2 N w m f xs ys =
     expanding (\<lambda>p. let vs = filter (\<lambda>(x, y). \<not> p_isnan N x \<and> \<not> p_isnan N y) (drop (length p - w) p)
                    in if length vs < m then p_nan N else f vs) (zip xs ys)"

definition ewm :: "'v np \<Rightarrow> rat \<Rightarrow> nat \<Rightarrow> 'v column \<Rightarrow> 'v column" where
  "ewm N alpha m = expanding (\<lambda>p. if length (filter (\<lambda>x. \<not> p_isnan N x) p) < m then p_nan N else p_ewm N alpha p)"

definition EPS :: rat where "EPS = 1 / 10 ^ 12"

definition plus_c :: "'v np \<Rightarrow> rat \<Rightarrow> 'v column \<Rightarrow> 'v column" where
  "plus_c N k xs = map (\<lambda>x. p_add N x (p_const N k)) xs"

definition times_c :: "'v np \<Rightarrow> rat \<Rightarrow> 'v column \<Rightarrow> 'v column" where
  "times_c N k xs = map (\<lambda>x. p_mul N (p_const N k) x) xs"

text \<open>\<open>x / (y + EPS)\<close> and \<open>x / y - 1\<close>.\<close>

definition over_eps :: "'v np \<Rightarrow> 'v column \<Rightarrow> 'v column \<Rightarrow> 'v column" where
  "over_eps N xs ys = zip_with (p_div N) xs (plus_c N EPS ys)"

definition growth :: "'v np \<Rightarrow> 'v column \<Rightarrow> 'v column \<Rightarrow> 'v column" where
  "growth N xs ys = map (\<lambda>q. p_sub N q (p_const N 1)) (zip_with (p_div N) xs ys)"

section \<open>Price features\<close>

definition rsi_col :: "'v np \<Rightarrow> nat \<Rightarrow> 'v column \<Rightarrow> 'v column" where
  "rsi_col N n c =
     (let d = diff1 N c;
          up = rolling N n (n div 2) (p_mean N) (map (p_lower0 N) d);
          dn = rolling N n (n div 2) (p_mean N) (map (p_neg N) (map (p_upper0 N) d));
          rs = over_eps N up dn
      in map (\<lambda>x. p_div N (p_sub N (p_sub N (p_const N 100) (p_div N (p_const N 100) (p_add N (p_const N 1) x))) (p_const N 50)) (p_const N 50)) rs)"

text \<open>\<open>_corwin_schultz\<close>; \<open>k\<close> is \<open>3 - 2 * sqrt(2)\<close>.\<close>

definition corwin_schultz :: "'v np \<Rightarrow> nat \<Rightarrow> 'v column \<Rightarrow> 'v column \<Rightarrow> 'v column" where
  "corwin_schultz N win h l =
     (let lh = map (p_square N) (map (p_log N) (zip_with (p_div N) h l));
          beta = zip_with (p_add N) lh (shift N 1 lh);
          hi2 = zip_with (p_max N) h (shift N 1 h);
          lo2 = zip_with (p_min N) l (shift N 1 l);
          gamma = map (p_square N) (map (p_log N) (zip_with (p_div N) hi2 lo2));
          k = p_sub N (p_const N 3) (p_mul N (p_const N 2) (p_sqrt N (p_const N 2)));
          root = zip_with (p_sub N) (map (p_sqrt N) (times_c N 2 beta)) (map (p_sqrt N) beta);
          alpha = zip_with (p_sub N) (map (\<lambda>x. p_div N x k) root) (map (\<lambda>g. p_sqrt N (p_div N g k)) gamma);
          s = map (\<lambda>a. p_div N (p_mul N (p_const N 2) (p_sub N (p_exp N a) (p_const N 1))) (p_add N (p_const N 1) (p_exp N a))) alpha
      in rolling N win (win div 2) (p_mean N) (map (p_lower0 N) s))"

definition yang_zhang :: "'v np \<Rightarrow> nat \<Rightarrow> 'v column \<Rightarrow> 'v column \<Rightarrow> 'v column \<Rightarrow> 'v column \<Rightarrow> 'v column" where
  "yang_zhang N n op h l c =
     (let lr = (\<lambda>xs ys. map (p_log N) (zip_with (p_div N) xs ys));
          over = lr op (shift N 1 c); u = lr h op; d = lr l op; cl = lr c op;
          rs = zip_with (p_add N) (zip_with (p_mul N) u (zip_with (p_sub N) u cl)) (zip_with (p_mul N) d (zip_with (p_sub N) d cl));
          vo = rolling N n (n div 2) (p_var N) over;
          vc = rolling N n (n div 2) (p_var N) cl;
          vrs = rolling N n (n div 2) (p_mean N) rs;
          k = p_div N (p_const N (34 / 100)) (p_add N (p_const N (134 / 100)) (p_div N (p_const N (of_nat (n + 1))) (p_const N (of_nat (n - 1)))))
      in map (p_sqrt N) (map (p_lower0 N) (zip_with (p_add N) (zip_with (p_add N) vo (map (p_mul N k) vc))
           (map (p_mul N (p_sub N (p_const N 1) k)) vrs))))"

definition log_ratio :: "'v np \<Rightarrow> 'v column \<Rightarrow> 'v column \<Rightarrow> 'v column" where
  "log_ratio N xs ys = map (p_log N) (zip_with (p_div N) xs ys)"

definition trend_features :: "'v np \<Rightarrow> 'v column \<Rightarrow> 'v column \<Rightarrow> 'v column \<Rightarrow> 'v column \<Rightarrow> 'v column \<Rightarrow> (string \<times> 'v column) list" where
  "trend_features N op h l c v =
     (let sh = (\<lambda>k. shift N k c); ret = growth N c (sh 1);
          hmax = rolling N 252 120 (p_greatest N) h; lmin = rolling N 252 120 (p_least N) l;
          pret = growth N (sh 1) (sh 63);
          pos = shift N 1 (rolling N 63 30 (p_mean N) (map (p_positive N) ret))
      in [(''mom1m_rev'', map (p_neg N) (growth N c (sh 21))),
          (''mom6m'', growth N (sh 21) (sh 126)),
          (''mom12m'', growth N (sh 21) (sh 252)),
          (''mom36m_rev'', map (p_neg N) (growth N (sh 273) (sh 756))),
          (''chmom'', zip_with (p_sub N) (growth N (sh 21) (sh 126)) (growth N (sh 126) (sh 252))),
          (''rev_1w'', map (p_neg N) (growth N c (sh 5))),
          (''high52'', zip_with (p_div N) c hmax),
          (''pos252'', over_eps N (zip_with (p_sub N) c lmin) (zip_with (p_sub N) hmax lmin)),
          (''overnight21'', rolling N 21 10 (p_mean N) (log_ratio N op (sh 1))),
          (''intraday21'', rolling N 21 10 (p_mean N) (log_ratio N c op)),
          (''fip'', zip_with (p_mul N) (map (p_sign N) pret)
             (zip_with (p_sub N) (map (\<lambda>x. p_sub N (p_const N 1) x) pos) pos))])"

definition true_range :: "'v np \<Rightarrow> 'v column \<Rightarrow> 'v column \<Rightarrow> 'v column \<Rightarrow> 'v column" where
  "true_range N h l c =
     (let hl = zip_with (p_sub N) h l; hc = map (p_abs N) (zip_with (p_sub N) h (shift N 1 c));
          lc = map (p_abs N) (zip_with (p_sub N) l (shift N 1 c))
      in map (\<lambda>(x, y, z). enough N 1 (p_greatest N) [x, y, z]) (zip hl (zip hc lc)))"

definition volatility_features :: "'v np \<Rightarrow> 'v column \<Rightarrow> 'v column \<Rightarrow> 'v column \<Rightarrow> 'v column \<Rightarrow> 'v column \<Rightarrow> (string \<times> 'v column) list" where
  "volatility_features N op h l c v =
     (let ret = growth N c (shift N 1 c); rv21 = rolling N 21 10 (p_std N) ret;
          hl2 = map (p_square N) (log_ratio N h l);
          yz20 = yang_zhang N 20 op h l c; yz60 = yang_zhang N 60 op h l c;
          r2 = map (p_square N) ret;
          semi_up = rolling N 21 10 (p_sum N) (zip_with (p_mul N) r2 (map (p_positive N) ret));
          semi_dn = rolling N 21 10 (p_sum N) (zip_with (p_mul N) r2 (map (p_negative N) ret));
          mom12 = growth N (shift N 21 c) (shift N 252 c)
      in [(''retvol21'', rv21),
          (''retvol63'', rolling N 63 30 (p_std N) ret),
          (''parkinson21'', rolling N 21 10 (p_mean N) (times_c N (361 / 1000) hl2)),
          (''garman_klass21'', rolling N 21 10 (p_mean N) (zip_with (p_sub N) (times_c N (1 / 2) hl2)
             (times_c N (386 / 1000) (map (p_square N) (log_ratio N c op))))),
          (''yang_zhang20'', yz20),
          (''vol_termstruct'', over_eps N yz20 yz60),
          (''atr14'', zip_with (p_div N) (ewm N (1 / 14) 7 (true_range N h l c)) c),
          (''volofvol'', rolling N 63 30 (p_std N) rv21),
          (''skew21'', rolling N 21 10 (p_skew N) ret),
          (''kurt21'', rolling N 21 10 (p_kurt N) ret),
          (''signed_jump'', over_eps N (zip_with (p_sub N) semi_up semi_dn) (zip_with (p_add N) semi_up semi_dn)),
          (''maxret'', rolling N 21 10 (p_greatest N) ret),
          (''mom_volscaled'', over_eps N mom12 (map (\<lambda>x. p_mul N x (p_sqrt N (p_const N 252))) rv21))])"

definition volume_features :: "'v np \<Rightarrow> 'v column \<Rightarrow> 'v column \<Rightarrow> 'v column \<Rightarrow> 'v column \<Rightarrow> 'v column \<Rightarrow> (string \<times> 'v column) list" where
  "volume_features N op h l c v =
     (let ret = growth N c (shift N 1 c); dv = zip_with (p_mul N) c v; dp = diff1 N c;
          cov = rolling2 N 21 10 (p_cov N) dp (shift N 1 dp)
      in [(''amihud21'', rolling N 21 10 (p_mean N) (over_eps N (map (p_abs N) ret) dv)),
          (''dolvol21'', map (p_log N) (plus_c N 1 (rolling N 21 10 (p_mean N) dv))),
          (''std_dolvol'', rolling N 21 10 (p_std N) (map (p_log N) (plus_c N 1 dv))),
          (''vol_zscore'', over_eps N (zip_with (p_sub N) v (rolling N 21 10 (p_mean N) v)) (rolling N 21 10 (p_std N) v)),
          (''corwin_schultz'', corwin_schultz N 21 h l),
          (''roll_spread'', zip_with (p_div N) (times_c N 2 (map (p_sqrt N) (map (p_lower0 N) (map (p_neg N) cov)))) c),
          (''signed_dolvol'', over_eps N (rolling N 21 10 (p_sum N) (zip_with (p_mul N) (map (p_sign N) ret) dv))
             (rolling N 21 10 (p_sum N) dv))])"

definition kbar_features :: "'v np \<Rightarrow> 'v column \<Rightarrow> 'v column \<Rightarrow> 'v column \<Rightarrow> 'v column \<Rightarrow> 'v column \<Rightarrow> (string \<times> 'v column) list" where
  "kbar_features N op h l c v =
     (let sub = zip_with (p_sub N); hl = sub h l
      in [(''kmid'', over_eps N (sub c op) op),
          (''klen'', over_eps N hl op),
          (''kmid2'', over_eps N (sub c op) hl),
          (''kup'', over_eps N (sub h (zip_with (p_max N) op c)) op),
          (''klow'', over_eps N (sub (zip_with (p_min N) op c) l) op),
          (''ksft'', over_eps N (sub (sub (times_c N 2 c) h) l) op)])"

text \<open>The names of the source end in the window.\<close>

definition window_features :: "'v np \<Rightarrow> nat \<Rightarrow> 'v column \<Rightarrow> 'v column \<Rightarrow> 'v column \<Rightarrow> 'v column \<Rightarrow> 'v column \<Rightarrow> (string \<times> nat \<times> 'v column) list" where
  "window_features N w op h l c v =
     (let ret = growth N c (shift N 1 c); m = w div 2; roll = (\<lambda>f. rolling N w m f);
          rmin = roll (p_least N) l; rmax = roll (p_greatest N) h; dc = diff1 N c;
          wv = zip_with (p_mul N) (map (p_abs N) ret) v
      in [(''ma_ratio'', w, zip_with (p_div N) (roll (p_mean N) c) c),
          (''std'', w, zip_with (p_div N) (roll (p_std N) c) c),
          (''rsv'', w, over_eps N (zip_with (p_sub N) c rmin) (zip_with (p_sub N) rmax rmin)),
          (''corr'', w, rolling2 N w m (p_corr N) c (map (p_log N) (plus_c N 1 v))),
          (''sump'', w, over_eps N (roll (p_sum N) (map (p_lower0 N) dc)) (roll (p_sum N) (map (p_abs N) dc))),
          (''wvma'', w, over_eps N (roll (p_std N) wv) (roll (p_mean N) wv))])"

definition indicator_features :: "'v np \<Rightarrow> 'v column \<Rightarrow> 'v column \<Rightarrow> 'v column \<Rightarrow> 'v column \<Rightarrow> 'v column \<Rightarrow> (string \<times> 'v column) list" where
  "indicator_features N op h l c v =
     (let macd = zip_with (p_sub N) (ewm N (2 / 13) 6 c) (ewm N (2 / 27) 13 c);
          ma20 = rolling N 20 10 (p_mean N) c; sd20 = rolling N 20 10 (p_std N) c
      in [(''rsi14'', rsi_col N 14 c),
          (''macd_hist'', zip_with (p_div N) (zip_with (p_sub N) macd (ewm N (2 / 10) 5 macd)) c),
          (''bb_pctb'', over_eps N (zip_with (p_sub N) c (zip_with (p_sub N) ma20 (times_c N 2 sd20))) (times_c N 4 sd20))])"

record 'v bar =
  b_date :: int
  b_open :: 'v
  b_high :: 'v
  b_low :: 'v
  b_close :: 'v
  b_volume :: 'v

definition columns :: "'v np \<Rightarrow> 'v bar list \<Rightarrow> 'v column list" where
  "columns N g =
     (let op = map b_open g; h = map b_high g; l = map b_low g; c = map b_close g; v = map b_volume g
      in map snd (trend_features N op h l c v) @ map snd (volatility_features N op h l c v) @ map snd (volume_features N op h l c v) @
         map snd (kbar_features N op h l c v) @
         concat (map (\<lambda>w. map (snd \<circ> snd) (window_features N w op h l c v)) [10, 20, 60]) @ map snd (indicator_features N op h l c v))"

text \<open>\<open>_per_symbol\<close>: a row of features for every bar.\<close>

definition per_symbol :: "'v np \<Rightarrow> 'v bar list \<Rightarrow> (int \<times> 'v list) list" where
  "per_symbol N bars =
     (let g = sort_key b_date bars; cs = columns N g
      in map (\<lambda>i. (b_date (g ! i), map (\<lambda>c. c ! i) cs)) [0..<length g])"

definition compute_features :: "'v np \<Rightarrow> (string \<times> 'v bar list) list \<Rightarrow> (string \<times> int \<times> 'v list) list" where
  "compute_features N panel = concat (map (\<lambda>(s, bars). map (\<lambda>(d, xs). (s, d, xs)) (per_symbol N bars)) panel)"

section \<open>No feature looks ahead\<close>

named_theorems causal

lemma take_map_col [causal]: "take n (map f xs) = map f (take n xs)"
  by (simp add: take_map)

lemma take_zip_with [causal]: "take n (zip_with f xs ys) = zip_with f (take n xs) (take n ys)"
  by (simp add: zip_with_def take_map take_zip)

lemma take_shift [causal]: "take n (shift N k xs) = shift N k (take n xs)"
proof -
  have e: "shift N k ys = map (\<lambda>i. if i < k then p_nan N else ys ! (i - k)) [0..<length ys]" for ys
    by (rule nth_equalityI) (auto simp: shift_def nth_append)
  have t: "take n [0..<length xs] = [0..<min n (length xs)]" by (cases "n \<le> length xs") simp_all
  show ?thesis by (auto simp: e take_map t min.commute intro!: map_cong)
qed

lemma take_expanding: "take n (expanding f xs) = expanding f (take n xs)"
proof -
  have "take n [0..<length xs] = [0..<min n (length xs)]" by (cases "n \<le> length xs") simp_all
  then show ?thesis by (simp add: expanding_def take_map min.commute min.absorb1)
qed

lemma take_rolling [causal]: "take n (rolling N w m f xs) = rolling N w m f (take n xs)"
  by (simp add: rolling_def take_expanding)

lemma take_rolling2 [causal]: "take n (rolling2 N w m f xs ys) = rolling2 N w m f (take n xs) (take n ys)"
  by (simp add: rolling2_def take_expanding take_zip)

lemma take_ewm [causal]: "take n (ewm N a m xs) = ewm N a m (take n xs)"
  by (simp add: ewm_def take_expanding)

lemma take_zip_col [causal]: "take n (zip xs ys) = zip (take n xs) (take n ys)"
  by (rule take_zip)

lemmas column_defs = diff1_def plus_c_def times_c_def over_eps_def growth_def log_ratio_def rsi_col_def corwin_schultz_def
  yang_zhang_def true_range_def

lemma columns_take: "map (take n) (columns N g) = columns N (take n g)"
  unfolding columns_def trend_features_def volatility_features_def volume_features_def kbar_features_def window_features_def
    indicator_features_def column_defs Let_def
  by (simp add: causal)


definition bars_until :: "int \<Rightarrow> 'v bar list \<Rightarrow> 'v bar list" where
  "bars_until d bars = filter (\<lambda>b. b_date b \<le> d) bars"

lemma sorted_filter_take:
  fixes key :: "'a \<Rightarrow> int"
  shows "sorted (map key g) \<Longrightarrow> filter (\<lambda>x. key x \<le> d) g = take (length (filter (\<lambda>x. key x \<le> d) g)) g"
proof (induction g)
  case (Cons x g)
  then have "filter (\<lambda>x. key x \<le> d) g = []" if "\<not> key x \<le> d" using that by (auto simp: filter_empty_conv)
  then show ?case using Cons by auto
qed simp

lemma filter_rows_take:
  fixes key :: "'a \<Rightarrow> int"
  assumes "sorted (map key g)"
  shows "filter (\<lambda>i. key (g ! i) \<le> d) [0..<length g] = [0..<length (filter (\<lambda>x. key x \<le> d) g)]"
proof -
  have "map key (map (\<lambda>i. g ! i) [0..<length g]) = map key g" by (simp only: map_nth)
  show ?thesis using assms
  proof (induction g rule: rev_induct)
    case (snoc x g)
    then have all: "filter (\<lambda>y. key y \<le> d) g = g" if "key x \<le> d"
      using that by (intro filter_True) (auto simp: sorted_append)
    have "filter (\<lambda>i. key ((g @ [x]) ! i) \<le> d) [0..<length g] = filter (\<lambda>i. key (g ! i) \<le> d) [0..<length g]"
      by (intro filter_cong) (auto simp: nth_append)
    then show ?case using snoc all by (simp add: sorted_append)
  qed simp
qed

text \<open>No price feature looks ahead. The feature rows of a symbol up to a day, all 58 features of every bar, are the
  feature rows computed from the bars up to that day alone.\<close>

lemma per_symbol_until:
  "filter (\<lambda>(x, xs). x \<le> d) (per_symbol N bars) = per_symbol N (bars_until d bars)"
proof -
  define g where "g = sort_key b_date bars"
  define n where "n = length (filter (\<lambda>b. b_date b \<le> d) g)"
  have srt: "sorted (map b_date g)" by (simp add: g_def)
  have until: "sort_key b_date (bars_until d bars) = take n g"
    using sorted_filter_take [OF srt, of d] by (simp add: bars_until_def g_def n_def filter_sort [symmetric])
  have n: "n \<le> length g" by (simp add: n_def)
  have "filter (\<lambda>(x, xs). x \<le> d) (per_symbol N bars) = map (\<lambda>i. (b_date (g ! i), map (\<lambda>c. c ! i) (columns N g))) [0..<n]"
    using filter_rows_take [OF srt, of d] by (simp add: per_symbol_def Let_def filter_map comp_def g_def [symmetric] n_def)
  also have "\<dots> = map (\<lambda>i. (b_date (take n g ! i), map (\<lambda>c. c ! i) (columns N (take n g)))) [0..<n]"
  proof (rule map_cong [OF refl])
    fix i assume "i \<in> set [0..<n]"
    then show "(b_date (g ! i), map (\<lambda>c. c ! i) (columns N g)) = (b_date (take n g ! i), map (\<lambda>c. c ! i) (columns N (take n g)))"
      by (simp add: columns_take [symmetric])
  qed
  finally show ?thesis using n by (simp add: per_symbol_def Let_def until)
qed

section \<open>The American market for Korean stocks\<close>

text \<open>The daily returns of all symbols, and their mean and share of gains by date; \<open>mean\<close> skips what is missing.\<close>

definition us_returns :: "'v np \<Rightarrow> (string \<times> 'v bar list) list \<Rightarrow> (int \<times> 'v) list" where
  "us_returns N us = concat (map (\<lambda>(s, bars). let g = sort_key b_date bars; c = map b_close g
                                             in zip (map b_date g) (growth N c (shift N 1 c))) us)"

definition on_day :: "(int \<times> 'v) list \<Rightarrow> int \<Rightarrow> 'v list" where
  "on_day rs d = map snd (filter (\<lambda>(x, r). x = d) rs)"

definition us_market_daily :: "'v np \<Rightarrow> (string \<times> 'v bar list) list \<Rightarrow> (int \<times> 'v list) list" where
  "us_market_daily N us =
     (let rs = us_returns N us; days = sort (remdups (map fst rs));
          ret = map (\<lambda>d. enough N 1 (p_mean N) (on_day rs d)) days;
          breadth = map (\<lambda>d. p_mean N (map (p_positive N) (on_day rs d))) days;
          cs = [ret, breadth, rolling N 5 3 (p_sum N) ret, rolling N 21 10 (p_sum N) ret, rolling N 21 10 (p_std N) ret]
      in map (\<lambda>i. (days ! i, map (\<lambda>c. c ! i) cs)) [0..<length days])"

text \<open>\<open>_asof_backward\<close>: the last row of an earlier day.\<close>

definition asof_before :: "'a \<Rightarrow> (int \<times> 'a) list \<Rightarrow> int \<Rightarrow> 'a" where
  "asof_before none rows d = (case filter (\<lambda>(x, v). x < d) rows of [] \<Rightarrow> none | r # rs \<Rightarrow> snd (last (r # rs)))"

definition us_beta :: "'v np \<Rightarrow> 'v bar list \<Rightarrow> (int \<times> 'v list) list \<Rightarrow> nat \<Rightarrow> (int \<times> 'v \<times> 'v) list" where
  "us_beta N bars market win =
     (let g = sort_key b_date bars; c = map b_close g; y = growth N c (shift N 1 c);
          x = map (\<lambda>b. asof_before (p_nan N) (map (\<lambda>(d, m). (d, m ! 0)) market) (b_date b)) g;
          cov = rolling2 N win (win div 2) (p_cov N) y x; var = rolling N win (win div 2) (p_var N) x;
          beta = over_eps N cov var; corr = rolling2 N win (win div 2) (p_corr N) y x
      in map (\<lambda>i. (b_date (g ! i), beta ! i, corr ! i)) [0..<length g])"

text \<open>\<open>attach_us_context\<close> on the rows of one symbol; the merge on \<open>(symbol, date)\<close>.\<close>

definition attach_us_context :: "'v np \<Rightarrow> (int \<times> 'v list) list \<Rightarrow> 'v bar list \<Rightarrow> (string \<times> 'v bar list) list \<Rightarrow> (int \<times> 'v list) list" where
  "attach_us_context N feats bars us =
     (let market = us_market_daily N us; beta = us_beta N bars market 60
      in map (\<lambda>(d, xs). (d, xs @ asof_before (replicate 5 (p_nan N)) market d @
           (case map_of beta d of None \<Rightarrow> [p_nan N, p_nan N] | Some (b, r) \<Rightarrow> [b, r]))) feats)"

definition us_until :: "int \<Rightarrow> (string \<times> 'v bar list) list \<Rightarrow> (string \<times> 'v bar list) list" where
  "us_until d us = map (\<lambda>(s, bars). (s, bars_until d bars)) us"

lemma us_returns_until: "us_returns N (us_until d us) = filter (\<lambda>(x, r). x \<le> d) (us_returns N us)"
proof -
  have one: "zip (map b_date (sort_key b_date (bars_until d bars)))
        (growth N (map b_close (sort_key b_date (bars_until d bars))) (shift N 1 (map b_close (sort_key b_date (bars_until d bars))))) =
      filter (\<lambda>(x, r). x \<le> d) (zip (map b_date (sort_key b_date bars))
        (growth N (map b_close (sort_key b_date bars)) (shift N 1 (map b_close (sort_key b_date bars)))))" for bars :: "'a bar list"
  proof -
    define g where "g = sort_key b_date bars"
    define n where "n = length (filter (\<lambda>b. b_date b \<le> d) g)"
    have srt: "sorted (map b_date g)" by (simp add: g_def)
    have until: "sort_key b_date (bars_until d bars) = take n g"
      using sorted_filter_take [OF srt, of d] by (simp add: bars_until_def g_def n_def filter_sort [symmetric])
    define Z where "Z = zip (map b_date g) (growth N (map b_close g) (shift N 1 (map b_close g)))"
    have len: "length (growth N (map b_close g) (shift N 1 (map b_close g))) = length g"
      by (simp add: growth_def zip_with_def shift_def)
    then have fst: "map fst Z = map b_date g" by (simp add: Z_def)
    have "filter (\<lambda>z. fst z \<le> d) Z = take (length (filter (\<lambda>z. fst z \<le> d) Z)) Z"
      using srt fst by (intro sorted_filter_take) simp
    moreover have "length (filter (\<lambda>z. fst z \<le> d) Z) = length (filter (\<lambda>x. x \<le> d) (map fst Z))" by (simp add: filter_map comp_def)
    moreover have "length (filter (\<lambda>x. x \<le> d) (map b_date g)) = n" by (simp add: n_def filter_map comp_def)
    ultimately have "filter (\<lambda>z. fst z \<le> d) Z = take n Z" by (simp add: fst)
    then show ?thesis
      by (simp add: until g_def [symmetric] Z_def [symmetric] case_prod_unfold)
         (simp add: Z_def take_zip take_map growth_def zip_with_def take_shift)
  qed
  show ?thesis by (simp add: us_returns_def us_until_def one [simplified One_nat_def case_prod_unfold] case_prod_unfold filter_concat comp_def Let_def)
qed

lemma us_market_until: "us_market_daily N (us_until d us) = filter (\<lambda>(x, m). x \<le> d) (us_market_daily N us)"
proof -
  define rs where "rs = us_returns N us"
  define days where "days = sort (remdups (map fst rs))"
  define n where "n = length (filter (\<lambda>x. x \<le> d) days)"
  have srt: "sorted (map (\<lambda>x. x) days)" by (simp add: days_def)
  have rs': "us_returns N (us_until d us) = filter (\<lambda>(x, r). x \<le> d) rs" by (simp add: us_returns_until rs_def)
  have "map fst (filter (\<lambda>(x, r). x \<le> d) rs) = filter (\<lambda>x. x \<le> d) (map fst rs)" by (simp add: filter_map comp_def case_prod_unfold)
  then have "sort (remdups (map fst (filter (\<lambda>(x, r). x \<le> d) rs))) = filter (\<lambda>x. x \<le> d) days"
    by (simp add: days_def filter_sort remdups_filter)
  moreover have take: "filter (\<lambda>x. x \<le> d) days = take n days" using sorted_filter_take [OF srt, of d] by (simp add: n_def)
  ultimately have days': "sort (remdups (map fst (filter (\<lambda>(x, r). x \<le> d) rs))) = take n days" by simp
  have od: "on_day (filter (\<lambda>(x, r). x \<le> d) rs) x = on_day rs x" if "x \<in> set (take n days)" for x
  proof -
    have "x \<le> d" using that unfolding take [symmetric] by simp
    then show ?thesis by (auto simp: on_day_def intro!: arg_cong [where f = "map snd"] filter_cong)
  qed
  define ret where "ret = map (\<lambda>x. enough N 1 (p_mean N) (on_day rs x)) days"
  define breadth where "breadth = map (\<lambda>x. p_mean N (map (p_positive N) (on_day rs x))) days"
  define cs where "cs = [ret, breadth, rolling N 5 3 (p_sum N) ret, rolling N 21 10 (p_sum N) ret, rolling N 21 10 (p_std N) ret]"
  have whole: "us_market_daily N us = map (\<lambda>i. (days ! i, map (\<lambda>c. c ! i) cs)) [0..<length days]"
    by (simp add: us_market_daily_def Let_def rs_def days_def ret_def breadth_def cs_def)
  have ret': "map (\<lambda>x. enough N 1 (p_mean N) (on_day (filter (\<lambda>(x, r). x \<le> d) rs) x)) (take n days) = take n ret"
    by (simp add: ret_def take_map od cong: map_cong)
  have br': "map (\<lambda>x. p_mean N (map (p_positive N) (on_day (filter (\<lambda>(x, r). x \<le> d) rs) x))) (take n days) = take n breadth"
    by (simp add: breadth_def take_map od cong: map_cong)
  have part: "us_market_daily N (us_until d us) = map (\<lambda>i. (take n days ! i, map (\<lambda>c. c ! i) (map (take n) cs))) [0..<length (take n days)]"
    unfolding us_market_daily_def Let_def rs' days' ret' br' by (simp add: cs_def take_rolling)
  have n: "n \<le> length days" by (simp add: n_def)
  have "filter (\<lambda>i. days ! i \<le> d) [0..<length days] = [0..<n]"
    using filter_rows_take [OF srt, of d] by (simp add: n_def)
  then have "filter (\<lambda>(x, m). x \<le> d) (us_market_daily N us) = map (\<lambda>i. (days ! i, map (\<lambda>c. c ! i) cs)) [0..<n]"
    by (simp add: whole filter_map comp_def)
  then show ?thesis using n by (simp add: part)
qed

lemma asof_before_cut: "d \<le> e + 1 \<Longrightarrow> asof_before none (filter (\<lambda>(x, v). x \<le> e) rows) d = asof_before none rows d"
proof -
  assume "d \<le> e + 1"
  then have "filter (\<lambda>(x, v). x < d) (filter (\<lambda>(x, v). x \<le> e) rows) = filter (\<lambda>(x, v). x < d) rows"
    by (auto intro: filter_cong)
  then show ?thesis by (simp add: asof_before_def)
qed

lemma us_beta_cut:
  assumes "\<And>b. b \<in> set bars \<Longrightarrow> b_date b \<le> d"
  shows "us_beta N bars (filter (\<lambda>(x, m). x \<le> d - 1) market) win = us_beta N bars market win"
proof -
  have "map (\<lambda>b. asof_before (p_nan N) (map (\<lambda>(d, m). (d, m ! 0)) (filter (\<lambda>(x, m). x \<le> d - 1) market)) (b_date b)) (sort_key b_date bars) =
      map (\<lambda>b. asof_before (p_nan N) (map (\<lambda>(d, m). (d, m ! 0)) market) (b_date b)) (sort_key b_date bars)"
  proof (rule map_cong [OF refl])
    fix b assume "b \<in> set (sort_key b_date bars)"
    then have "b_date b \<le> (d - 1) + 1" using assms by simp
    from asof_before_cut [OF this, of "p_nan N" "map (\<lambda>(d, m). (d, m ! 0)) market"]
    show "asof_before (p_nan N) (map (\<lambda>(d, m). (d, m ! 0)) (filter (\<lambda>(x, m). x \<le> d - 1) market)) (b_date b) =
      asof_before (p_nan N) (map (\<lambda>(d, m). (d, m ! 0)) market) (b_date b)"
      by (simp add: filter_map comp_def case_prod_unfold)
  qed
  then show ?thesis unfolding us_beta_def Let_def by (simp only:)
qed

lemma us_beta_until: "filter (\<lambda>(x, r). x \<le> d) (us_beta N bars market win) = us_beta N (bars_until d bars) market win"
proof -
  define g where "g = sort_key b_date bars"
  define n where "n = length (filter (\<lambda>b. b_date b \<le> d) g)"
  have srt: "sorted (map b_date g)" by (simp add: g_def)
  have until: "sort_key b_date (bars_until d bars) = take n g"
    using sorted_filter_take [OF srt, of d] by (simp add: bars_until_def g_def n_def filter_sort [symmetric])
  have n: "n \<le> length g" by (simp add: n_def)
  let ?x = "\<lambda>g. map (\<lambda>b. asof_before (p_nan N) (map (\<lambda>(d, m). (d, m ! 0)) market) (b_date b)) g"
  let ?y = "\<lambda>g. growth N (map b_close g) (shift N 1 (map b_close g))"
  let ?beta = "\<lambda>g. over_eps N (rolling2 N win (win div 2) (p_cov N) (?y g) (?x g)) (rolling N win (win div 2) (p_var N) (?x g))"
  let ?corr = "\<lambda>g. rolling2 N win (win div 2) (p_corr N) (?y g) (?x g)"
  have c: "?beta (take n g) = take n (?beta g)" "?corr (take n g) = take n (?corr g)"
    by (simp_all add: causal column_defs)
  have "filter (\<lambda>(x, r). x \<le> d) (us_beta N bars market win) = map (\<lambda>i. (b_date (g ! i), ?beta g ! i, ?corr g ! i)) [0..<n]"
    using filter_rows_take [OF srt, of d] by (simp add: us_beta_def Let_def filter_map comp_def g_def [symmetric] n_def)
  also have "\<dots> = map (\<lambda>i. (b_date (take n g ! i), ?beta (take n g) ! i, ?corr (take n g) ! i)) [0..<n]"
    unfolding c by (rule map_cong [OF refl]) simp
  finally show ?thesis using n by (simp add: us_beta_def Let_def until min_absorb2)
qed

lemma map_of_until: "x \<le> (d::int) \<Longrightarrow> map_of (filter (\<lambda>(x, r). x \<le> d) rows) x = map_of rows x"
  by (induction rows) auto

text \<open>The American context of a Korean stock is that of the nights before. The rows up to a day with their context
  are the rows computed from the stock's bars up to that day and the American bars up to the day before, so no trade
  of the same American date enters the features of a Korean day.\<close>

lemma attach_us_context_until:
  "filter (\<lambda>(x, xs). x \<le> d) (attach_us_context N feats bars us) =
   attach_us_context N (filter (\<lambda>(x, xs). x \<le> d) feats) (bars_until d bars) (us_until (d - 1) us)"
proof -
  have b: "us_beta N (bars_until d bars) (us_market_daily N (us_until (d - 1) us)) 60 =
      filter (\<lambda>(x, r). x \<le> d) (us_beta N bars (us_market_daily N us) 60)"
    unfolding us_market_until us_beta_until by (rule us_beta_cut) (simp add: bars_until_def)
  have a: "asof_before none (us_market_daily N (us_until (d - 1) us)) x = asof_before none (us_market_daily N us) x" if "x \<le> d" for x none
    unfolding us_market_until using that by (intro asof_before_cut) simp
  show ?thesis unfolding attach_us_context_def Let_def b filter_map
    by (rule map_cong) (auto simp: a map_of_until comp_def intro: filter_cong)
qed

end
