(* ===== verification/KrMicro.thy ===== *)
theory KrMicro
  imports Features
begin

text \<open>
  The microstructure features of Korean stocks, \<open>batch/features/kr_microstructure.py\<close>: the flows of investors, foreign
  holdings and short positions of the tables \<open>KrxData\<close> fills, as features of the days after.  A table is the list of
  its rows, days are numbered; numbers are those of the argument \<open>N\<close>, as in \<open>Features\<close>.
\<close>

section \<open>Flows\<close>

type_synonym 'v flow = "int \<times> string \<times> string \<times> 'v"

definition INST :: "string list" where
  "INST = [''fin_invest'', ''insurance'', ''invest_trust'', ''private_fund'', ''bank'', ''other_finance'', ''pension'']"

text \<open>\<open>_query\<close>: an exception is an empty table.\<close>

definition rows_of :: "'r list res \<Rightarrow> 'r list" where
  "rows_of q = (case q of Inl e \<Rightarrow> [] | Inr rows \<Rightarrow> rows)"

text \<open>The columns and the cells of the pivot table; a cell without rows is missing.\<close>

definition investors :: "'v flow list \<Rightarrow> string set" where
  "investors flow = set (map (\<lambda>(d, s, i, v). i) flow)"

definition pivot_cell :: "'v np \<Rightarrow> 'v flow list \<Rightarrow> string \<Rightarrow> int \<Rightarrow> string \<Rightarrow> 'v option" where
  "pivot_cell N flow s d i =
     (let vs = List.map_filter (\<lambda>(d', s', i', v). if d' = d \<and> s' = s \<and> i' = i then Some v else None) flow
      in if vs = [] then None else Some (p_sum N (filter (\<lambda>v. \<not> p_isnan N v) vs)))"

definition filled :: "'v np \<Rightarrow> 'v option \<Rightarrow> 'v" where
  "filled N c = (case c of None \<Rightarrow> p_const N 0 | Some v \<Rightarrow> if p_isnan N v then p_const N 0 else v)"

definition foreign_net :: "'v np \<Rightarrow> 'v flow list \<Rightarrow> string \<Rightarrow> int \<Rightarrow> 'v" where
  "foreign_net N flow s d = p_add N (filled N (pivot_cell N flow s d ''foreign'')) (filled N (pivot_cell N flow s d ''other_foreign''))"

text \<open>The column of the bulk load wins when the table has it; else the detailed institutions are added up.\<close>

definition inst_net :: "'v np \<Rightarrow> 'v flow list \<Rightarrow> string \<Rightarrow> int \<Rightarrow> 'v" where
  "inst_net N flow s d =
     (if ''institution'' \<in> investors flow then filled N (pivot_cell N flow s d ''institution'')
      else p_sum N (filter (\<lambda>v. \<not> p_isnan N v) (List.map_filter (pivot_cell N flow s d) INST)))"

definition pension_net :: "'v np \<Rightarrow> 'v flow list \<Rightarrow> string \<Rightarrow> int \<Rightarrow> 'v" where
  "pension_net N flow s d = filled N (pivot_cell N flow s d ''pension'')"

text \<open>\<open>piv.get(name, 0.0).fillna(0)\<close>: the default of an absent column is a number, which has no \<open>fillna\<close>.\<close>

definition columns_present :: "'v flow list \<Rightarrow> bool" where
  "columns_present flow \<longleftrightarrow> {''foreign'', ''other_foreign'', ''pension''} \<subseteq> investors flow"

definition flow_days :: "'v flow list \<Rightarrow> string \<Rightarrow> int list" where
  "flow_days flow s = List.map_filter (\<lambda>(d, s', i, v). if s' = s then Some d else None) flow"

text \<open>The outer merge of the flows of a symbol with its bars by day: the day, the net flow and the turnover.\<close>

definition merged_day :: "'v np \<Rightarrow> (int \<Rightarrow> 'v) \<Rightarrow> int list \<Rightarrow> 'v bar list \<Rightarrow> int \<Rightarrow> (int \<times> 'v \<times> 'v) list" where
  "merged_day N net days bars d =
     (let nv = (if d \<in> set days then net d else p_nan N)
      in case filter (\<lambda>b. b_date b = d) bars of
           [] \<Rightarrow> [(d, nv, p_nan N)]
         | bs \<Rightarrow> map (\<lambda>b. (d, nv, p_mul N (b_close b) (b_volume b))) bs)"

definition merged :: "'v np \<Rightarrow> (int \<Rightarrow> 'v) \<Rightarrow> int list \<Rightarrow> 'v bar list \<Rightarrow> (int \<times> 'v \<times> 'v) list" where
  "merged N net days bars =
     concat (map (merged_day N net days bars) (sort (remdups (days @ map b_date bars))))"

definition flow20 :: "'v np \<Rightarrow> (int \<times> 'v \<times> 'v) list \<Rightarrow> (int \<times> 'v) list" where
  "flow20 N rows =
     zip (map fst rows) (over_eps N (rolling N 20 10 (p_sum N) (map (fst \<circ> snd) rows)) (rolling N 20 10 (p_sum N) (map (snd \<circ> snd) rows)))"

section \<open>Holdings and short positions\<close>

definition of_symbol :: "string \<Rightarrow> (int \<times> string \<times> 'x) list \<Rightarrow> (int \<times> 'x) list" where
  "of_symbol s rows = sort_key fst (List.map_filter (\<lambda>(d, s', x). if s' = s then Some (d, x) else None) rows)"

definition change20 :: "'v np \<Rightarrow> 'v column \<Rightarrow> 'v column" where
  "change20 N xs = zip_with (p_sub N) xs (shift N 20 xs)"

definition holding_columns :: "'v np \<Rightarrow> (int \<times> 'v) list \<Rightarrow> (int \<times> 'v) list list" where
  "holding_columns N rows = (let xs = map snd rows in [zip (map fst rows) xs, zip (map fst rows) (change20 N xs)])"

definition short_columns :: "'v np \<Rightarrow> (int \<times> 'v \<times> 'v) list \<Rightarrow> (int \<times> 'v) list list" where
  "short_columns N rows =
     (let bal = map (fst \<circ> snd) rows; vol = map (snd \<circ> snd) rows
      in [zip (map fst rows) (shift N 1 bal), zip (map fst rows) (shift N 1 (change20 N bal)), zip (map fst rows) vol])"

section \<open>The features\<close>

definition symbol_tables ::
  "'v np \<Rightarrow> 'v flow list \<Rightarrow> (int \<times> string \<times> 'v) list \<Rightarrow> (int \<times> string \<times> 'v \<times> 'v) list \<Rightarrow> string \<Rightarrow> 'v bar list \<Rightarrow> (int \<times> 'v) list list" where
  "symbol_tables N flow hold shorts s bars =
     (let days = flow_days flow s
      in (if days = [] then [[], [], []]
          else map (\<lambda>net. flow20 N (merged N (net N flow s) days bars)) [foreign_net, inst_net, pension_net]) @
         holding_columns N (of_symbol s hold) @ short_columns N (of_symbol s shorts))"

definition symbol_rows ::
  "'v np \<Rightarrow> 'v flow list \<Rightarrow> (int \<times> string \<times> 'v) list \<Rightarrow> (int \<times> string \<times> 'v \<times> 'v) list \<Rightarrow> string \<times> 'v bar list \<Rightarrow> (string \<times> int \<times> 'v list) list" where
  "symbol_rows N flow hold shorts sb =
     (case sb of (s, bars) \<Rightarrow>
        (let g = sort_key b_date bars; tables = symbol_tables N flow hold shorts s g
         in map (\<lambda>b. (s, b_date b, map (\<lambda>t. asof_before (p_nan N) t (b_date b)) tables)) g))"

definition kr_microstructure ::
  "'v np \<Rightarrow> 'v flow list res \<Rightarrow> (int \<times> string \<times> 'v) list res \<Rightarrow> (int \<times> string \<times> 'v \<times> 'v) list res \<Rightarrow> (string \<times> 'v bar list) list \<Rightarrow>
    (string \<times> int \<times> 'v list) list res" where
  "kr_microstructure N qf qh qs panel =
     (let flow = rows_of qf; hold = rows_of qh; shorts = rows_of qs
      in if flow = [] \<and> hold = [] \<and> shorts = [] then Inr []
         else if flow \<noteq> [] \<and> \<not> columns_present flow then Inl AttributeError
         else Inr (concat (map (symbol_rows N flow hold shorts) panel)))"

text \<open>After the bulk load alone, which stores no flows of other foreigners, no feature is computed.\<close>

lemma bulk_flows_raise:
  assumes "rows_of qf \<noteq> []" "investors (rows_of qf) \<subseteq> {''foreign'', ''institution'', ''pension''}"
  shows "kr_microstructure N qf qh qs panel = Inl AttributeError"
  using assms by (auto simp: kr_microstructure_def Let_def columns_present_def)

text \<open>One row of the bulk load anywhere makes the net flow of institutions zero for every day that was loaded symbol by
  symbol, whatever the detailed institutions traded.\<close>

lemma details_ignored:
  assumes "''institution'' \<in> investors flow" "\<forall>v. (d, s, ''institution'', v) \<notin> set flow"
  shows "inst_net N flow s d = p_const N 0"
proof -
  have "List.map_filter (\<lambda>(d', s', i', v). if d' = d \<and> s' = s \<and> i' = ''institution'' then Some v else None) flow = []"
    using assms(2) by (auto simp: map_filter_def filter_empty_conv)
  then show ?thesis using assms(1) by (simp add: inst_net_def pivot_cell_def filled_def)
qed

section \<open>No feature uses the same day\<close>

definition until_day :: "int \<Rightarrow> (int \<times> 'x) list \<Rightarrow> (int \<times> 'x) list" where
  "until_day e rows = filter (\<lambda>r. fst r \<le> e) rows"

lemma map_filter_filter: "(\<And>x y. f x = Some y \<Longrightarrow> P x) \<Longrightarrow> List.map_filter f (filter P xs) = List.map_filter f xs"
  by (induction xs) (fastforce simp: map_filter_simps split: option.splits)+

lemma filter_map_filter: "(\<And>x y. f x = Some y \<Longrightarrow> Q y = P x) \<Longrightarrow> filter Q (List.map_filter f xs) = List.map_filter f (filter P xs)"
  by (induction xs) (auto simp: map_filter_simps split: option.splits)

lemma pivot_cell_until: "d \<le> e \<Longrightarrow> pivot_cell N (until_day e flow) s d i = pivot_cell N flow s d i"
  unfolding pivot_cell_def until_day_def by (subst map_filter_filter) (auto split: if_splits)

lemma nets_until:
  assumes "d \<le> e" "investors (until_day e flow) = investors flow"
  shows "foreign_net N (until_day e flow) s d = foreign_net N flow s d" "inst_net N (until_day e flow) s d = inst_net N flow s d"
    "pension_net N (until_day e flow) s d = pension_net N flow s d"
proof -
  have "pivot_cell N (until_day e flow) s d = pivot_cell N flow s d" using pivot_cell_until [OF assms(1)] by blast
  then show "foreign_net N (until_day e flow) s d = foreign_net N flow s d" "inst_net N (until_day e flow) s d = inst_net N flow s d"
    "pension_net N (until_day e flow) s d = pension_net N flow s d"
    using assms(2) by (simp_all add: foreign_net_def inst_net_def pension_net_def)
qed

lemma flow_days_until: "flow_days (until_day e flow) s = filter (\<lambda>d. d \<le> e) (flow_days flow s)"
  unfolding flow_days_def until_day_def by (subst filter_map_filter) (auto split: if_splits)

lemma of_symbol_until: "of_symbol s (until_day e rows) = until_day e (of_symbol s rows)"
proof -
  have "List.map_filter (\<lambda>(d, s', x). if s' = s then Some (d, x) else None) (filter (\<lambda>r. fst r \<le> e) rows) =
      filter (\<lambda>r. fst r \<le> e) (List.map_filter (\<lambda>(d, s', x). if s' = s then Some (d, x) else None) rows)"
    by (subst filter_map_filter) (auto split: if_splits)
  then show ?thesis by (simp add: of_symbol_def until_day_def filter_sort)
qed

lemma concat_if: "concat (map (\<lambda>x. if P x then f x else []) xs) = concat (map f (filter P xs))"
  by (induction xs) auto

lemma merged_day_days: "r \<in> set (merged_day N net days bars d) \<Longrightarrow> fst r = d"
  by (auto simp: merged_day_def Let_def split: list.splits if_splits)

lemma merged_day_missing: "r \<in> set (merged_day N net [] bars d) \<Longrightarrow> fst (snd r) = p_nan N"
  by (auto simp: merged_day_def Let_def split: list.splits if_splits)

lemma merged_sorted: "sorted (map fst (merged N net days bars))"
proof -
  have const: "sorted xs" if "\<forall>x \<in> set xs. x = a" for xs and a :: int
    using that by (induction xs) auto
  have "sorted (map fst (concat (map (merged_day N net days bars) xs)))" if "sorted xs" for xs
    using that
  proof (induction xs)
    case (Cons a xs)
    have "sorted (map fst (merged_day N net days bars a))" by (rule const [of _ a]) (auto dest: merged_day_days)
    moreover have "fst q \<in> set xs" if "q \<in> set (concat (map (merged_day N net days bars) xs))" for q
      using that merged_day_days by fastforce
    ultimately show ?case using Cons by (auto simp: sorted_append dest: merged_day_days)
  qed simp
  then show ?thesis by (simp add: merged_def)
qed

lemma merged_until:
  assumes "\<And>d. d \<le> e \<Longrightarrow> net' d = net d"
  shows "until_day e (merged N net days bars) = merged N net' (filter (\<lambda>d. d \<le> e) days) (bars_until e bars)"
proof -
  have "until_day e (merged_day N net days bars d) =
      (if d \<le> e then merged_day N net' (filter (\<lambda>d. d \<le> e) days) (bars_until e bars) d else [])" for d
  proof (cases "d \<le> e")
    case True
    then have "filter (\<lambda>b. b_date b = d) (bars_until e bars) = filter (\<lambda>b. b_date b = d) bars"
      unfolding bars_until_def by (auto intro: filter_cong)
    then have "merged_day N net' (filter (\<lambda>d. d \<le> e) days) (bars_until e bars) d = merged_day N net days bars d"
      using True assms [OF True] by (simp add: merged_day_def Let_def split: list.splits)
    moreover have "until_day e (merged_day N net days bars d) = merged_day N net days bars d"
      using True merged_day_days unfolding until_day_def by (intro filter_True) blast
    ultimately show ?thesis using True by simp
  next
    case False
    then show ?thesis using merged_day_days by (fastforce simp: until_day_def filter_empty_conv)
  qed
  then have "until_day e (merged N net days bars) =
      concat (map (merged_day N net' (filter (\<lambda>d. d \<le> e) days) (bars_until e bars)) (filter (\<lambda>d. d \<le> e) (sort (remdups (days @ map b_date bars)))))"
    by (simp add: merged_def until_day_def filter_concat comp_def concat_if)
  also have "filter (\<lambda>d. d \<le> e) (sort (remdups (days @ map b_date bars))) =
      sort (remdups (filter (\<lambda>d. d \<le> e) days @ map b_date (bars_until e bars)))"
    by (simp add: filter_sort remdups_filter [symmetric] bars_until_def filter_map comp_def)
  finally show ?thesis by (simp add: merged_def)
qed

lemma column_until:
  assumes "sorted (map fst rows)" "\<And>n rs. take n (col rs) = col (take n rs)" "\<And>rs. length (col rs) = length rs"
  shows "until_day e (zip (map fst rows) (col rows)) = zip (map fst (until_day e rows)) (col (until_day e rows))"
proof -
  let ?Z = "zip (map fst rows) (col rows)"
  have fst: "map fst ?Z = map fst rows" using assms(3) by simp
  have rows: "until_day e rows = take (length (filter (\<lambda>r. fst r \<le> e) rows)) rows"
    using sorted_filter_take [OF assms(1)] by (simp add: until_day_def)
  have "until_day e ?Z = take (length (filter (\<lambda>r. fst r \<le> e) ?Z)) ?Z"
    using sorted_filter_take [of fst ?Z e] assms(1) fst by (simp add: until_day_def)
  moreover have "length (filter (\<lambda>r. fst r \<le> e) ?Z) = length (filter (\<lambda>r. fst r \<le> e) rows)"
    using arg_cong [OF fst, of "\<lambda>ks. length (filter (\<lambda>k. k \<le> e) ks)"] by (simp add: filter_map comp_def)
  ultimately show ?thesis by (simp add: rows take_zip take_map assms(2))
qed

lemma flow20_until: "sorted (map fst rows) \<Longrightarrow> until_day e (flow20 N rows) = flow20 N (until_day e rows)"
  unfolding flow20_def
proof (rule column_until)
  show "take n (over_eps N (rolling N 20 10 (p_sum N) (map (fst \<circ> snd) rs)) (rolling N 20 10 (p_sum N) (map (snd \<circ> snd) rs))) =
      over_eps N (rolling N 20 10 (p_sum N) (map (fst \<circ> snd) (take n rs))) (rolling N 20 10 (p_sum N) (map (snd \<circ> snd) (take n rs)))" for n rs
    by (simp add: causal over_eps_def plus_c_def)
  show "length (over_eps N (rolling N 20 10 (p_sum N) (map (fst \<circ> snd) rs)) (rolling N 20 10 (p_sum N) (map (snd \<circ> snd) rs))) = length rs"
    for rs :: "(int \<times> 'a \<times> 'a) list"
    by (simp add: over_eps_def plus_c_def zip_with_def rolling_def expanding_def)
qed

lemma of_symbol_sorted: "sorted (map fst (of_symbol s rows))"
  by (simp add: of_symbol_def)

lemma holding_columns_until:
  assumes "sorted (map fst rows)"
  shows "map (until_day e) (holding_columns N rows) = holding_columns N (until_day e rows)"
proof -
  have "until_day e (zip (map fst rows) (map snd rows)) = zip (map fst (until_day e rows)) (map snd (until_day e rows))"
    by (rule column_until [OF assms]) (simp_all add: take_map)
  moreover have "until_day e (zip (map fst rows) (change20 N (map snd rows))) = zip (map fst (until_day e rows)) (change20 N (map snd (until_day e rows)))"
    by (rule column_until [OF assms]) (simp_all add: causal change20_def, simp add: zip_with_def shift_def)
  ultimately show ?thesis by (simp add: holding_columns_def Let_def)
qed

lemma short_columns_until:
  assumes "sorted (map fst rows)"
  shows "map (until_day e) (short_columns N rows) = short_columns N (until_day e rows)"
proof -
  let ?b = "map (fst \<circ> snd)" and ?v = "map (snd \<circ> snd)"
  have "until_day e (zip (map fst rows) (shift N 1 (?b rows))) = zip (map fst (until_day e rows)) (shift N 1 (?b (until_day e rows)))"
    by (rule column_until [OF assms]) (simp_all add: causal, simp add: shift_def)
  moreover have "until_day e (zip (map fst rows) (shift N 1 (change20 N (?b rows)))) =
      zip (map fst (until_day e rows)) (shift N 1 (change20 N (?b (until_day e rows))))"
    by (rule column_until [OF assms]) (simp_all add: causal change20_def, simp add: zip_with_def shift_def)
  moreover have "until_day e (zip (map fst rows) (?v rows)) = zip (map fst (until_day e rows)) (?v (until_day e rows))"
    by (rule column_until [OF assms]) (simp_all add: take_map)
  ultimately show ?thesis by (simp add: short_columns_def Let_def)
qed

lemma asof_before_until: "x \<le> e + 1 \<Longrightarrow> asof_before none (until_day e t) x = asof_before none t x"
  using asof_before_cut [of x e none t] by (simp add: until_day_def case_prod_unfold)


text \<open>A quotient of a missing number is missing.\<close>

definition nan_spreads :: "'v np \<Rightarrow> bool" where
  "nan_spreads N \<longleftrightarrow> p_isnan N (p_nan N) \<and> (\<forall>y. p_div N (p_nan N) y = p_nan N)"

lemma flow20_missing:
  assumes "nan_spreads N" "\<And>r. r \<in> set rows \<Longrightarrow> fst (snd r) = p_nan N" "q \<in> set (flow20 N rows)"
  shows "snd q = p_nan N"
proof -
  have "p_isnan N x" if "x \<in> set (drop k (take m (map (fst \<circ> snd) rows)))" for x k m
  proof -
    from in_set_takeD [OF in_set_dropD [OF that]] obtain r where "r \<in> set rows" "x = fst (snd r)" by auto
    then show ?thesis using assms(1,2) by (simp add: nan_spreads_def)
  qed
  then have "filter (\<lambda>x. \<not> p_isnan N x) (drop k (take m (map (fst \<circ> snd) rows))) = []" for k m
    by (auto simp: filter_empty_conv)
  then have "v = p_nan N" if "v \<in> set (rolling N 20 10 (p_sum N) (map (fst \<circ> snd) rows))" for v
    using that by (auto simp: rolling_def expanding_def enough_def)
  moreover obtain v y where "v \<in> set (rolling N 20 10 (p_sum N) (map (fst \<circ> snd) rows))" "snd q = p_div N v y"
  proof -
    obtain a b where q: "q = (a, b)" by (cases q)
    then have "b \<in> set (over_eps N (rolling N 20 10 (p_sum N) (map (fst \<circ> snd) rows)) (rolling N 20 10 (p_sum N) (map (snd \<circ> snd) rows)))"
      using assms(3) by (simp add: flow20_def set_zip_rightD)
    then show ?thesis using that q by (auto simp: over_eps_def zip_with_def dest: set_zip_leftD)
  qed
  ultimately show ?thesis using assms(1) by (simp add: nan_spreads_def)
qed

lemma asof_before_missing: "(\<And>q. q \<in> set t \<Longrightarrow> snd q = none) \<Longrightarrow> asof_before none t x = none"
proof -
  assume a: "\<And>q. q \<in> set t \<Longrightarrow> snd q = none"
  show ?thesis
  proof (cases "filter (\<lambda>(y, v). y < x) t")
    case (Cons r rs)
    then have "last (r # rs) \<in> set t" by (metis filter_is_subset last_in_set list.distinct(1) subsetD)
    then show ?thesis using a Cons by (simp add: asof_before_def)
  qed (simp add: asof_before_def)
qed

definition flow_table :: "'v np \<Rightarrow> (int \<Rightarrow> 'v) \<Rightarrow> int list \<Rightarrow> 'v bar list \<Rightarrow> (int \<times> 'v) list" where
  "flow_table N net days bars = (if days = [] then [] else flow20 N (merged N net days bars))"

lemma flow_table_until:
  assumes "nan_spreads N" "\<And>y. y \<le> e \<Longrightarrow> net' y = net y" "bars_until e bars' = bars_until e bars" "x \<le> e + 1"
  shows "asof_before (p_nan N) (flow_table N net' (filter (\<lambda>y. y \<le> e) days) bars') x = asof_before (p_nan N) (flow_table N net days bars) x"
proof -
  let ?days = "filter (\<lambda>y. y \<le> e) days"
  have l: "until_day e (flow20 N (merged N net' ?days bars')) = flow20 N (merged N net' ?days (bars_until e bars))"
    using merged_until [of e net' net' N ?days bars'] assms(3) by (simp add: flow20_until [OF merged_sorted])
  have r: "until_day e (flow20 N (merged N net days bars)) = flow20 N (merged N net' ?days (bars_until e bars))"
    using merged_until [of e net' net N days bars] assms(2) by (simp add: flow20_until [OF merged_sorted])
  have lr: "asof_before (p_nan N) (flow20 N (merged N net' ?days bars')) x = asof_before (p_nan N) (flow20 N (merged N net days bars)) x"
    using asof_before_until [OF assms(4)] l r by metis
  have "asof_before (p_nan N) (flow20 N (merged N net' [] bars')) x = p_nan N"
    by (rule asof_before_missing, rule flow20_missing [OF assms(1)]) (auto simp: merged_def dest: merged_day_missing)
  then show ?thesis using lr by (auto simp: flow_table_def asof_before_def)
qed

lemma symbol_tables_alt:
  "symbol_tables N flow hold shorts s bars =
     map (\<lambda>net. flow_table N (net N flow s) (flow_days flow s) bars) [foreign_net, inst_net, pension_net] @
     holding_columns N (of_symbol s hold) @ short_columns N (of_symbol s shorts)"
  by (simp add: symbol_tables_def flow_table_def Let_def)

lemma symbol_tables_until:
  assumes "nan_spreads N" "investors (until_day e flow) = investors flow" "bars_until e bars' = bars_until e bars" "x \<le> e + 1"
  shows "map (\<lambda>t. asof_before (p_nan N) t x) (symbol_tables N (until_day e flow) (until_day e hold) (until_day e shorts) s bars') =
    map (\<lambda>t. asof_before (p_nan N) t x) (symbol_tables N flow hold shorts s bars)"
proof -
  have asof: "map (\<lambda>t. asof_before (p_nan N) t x) (map (until_day e) ts) = map (\<lambda>t. asof_before (p_nan N) t x) ts" for ts
    by (simp add: asof_before_until [OF assms(4)])
  have h: "map (\<lambda>t. asof_before (p_nan N) t x) (holding_columns N (until_day e (of_symbol s hold))) =
      map (\<lambda>t. asof_before (p_nan N) t x) (holding_columns N (of_symbol s hold))"
    using holding_columns_until [OF of_symbol_sorted, of e N s hold] asof by metis
  have t: "map (\<lambda>t. asof_before (p_nan N) t x) (short_columns N (until_day e (of_symbol s shorts))) =
      map (\<lambda>t. asof_before (p_nan N) t x) (short_columns N (of_symbol s shorts))"
    using short_columns_until [OF of_symbol_sorted, of e N s shorts] asof by metis
  show ?thesis using h t
    by (simp add: symbol_tables_alt of_symbol_until flow_days_until flow_table_until [OF assms(1) _ assms(3,4)] nets_until [OF _ assms(2)])
qed

lemma symbol_rows_until:
  assumes "nan_spreads N" "investors (until_day (d - 1) flow) = investors flow"
  shows "symbol_rows N (until_day (d - 1) flow) (until_day (d - 1) hold) (until_day (d - 1) shorts) (s, bars_until d bars) =
    filter (\<lambda>(s, x, vs). x \<le> d) (symbol_rows N flow hold shorts (s, bars))"
proof -
  have g: "sort_key b_date (bars_until d bars) = filter (\<lambda>b. b_date b \<le> d) (sort_key b_date bars)"
    by (simp add: bars_until_def filter_sort)
  have b: "bars_until (d - 1) (filter (\<lambda>b. b_date b \<le> d) (sort_key b_date bars)) = bars_until (d - 1) (sort_key b_date bars)"
    unfolding bars_until_def filter_filter by (rule filter_cong) auto
  show ?thesis
    using symbol_tables_until [OF assms b, of _ hold shorts s]
    by (auto simp: symbol_rows_def Let_def g filter_map comp_def intro!: map_cong)
qed

lemma kr_microstructure_until:
  assumes "nan_spreads N" "investors (until_day (d - 1) flow) = investors flow"
    "until_day (d - 1) flow \<noteq> [] \<or> until_day (d - 1) hold \<noteq> [] \<or> until_day (d - 1) shorts \<noteq> []"
  shows "rbind (kr_microstructure N (Inr flow) (Inr hold) (Inr shorts) panel) (\<lambda>rows. Inr (filter (\<lambda>(s, x, vs). x \<le> d) rows)) =
    kr_microstructure N (Inr (until_day (d - 1) flow)) (Inr (until_day (d - 1) hold)) (Inr (until_day (d - 1) shorts))
      (map (\<lambda>(s, bars). (s, bars_until d bars)) panel)"
proof -
  have rows: "map (symbol_rows N (until_day (d - 1) flow) (until_day (d - 1) hold) (until_day (d - 1) shorts))
        (map (\<lambda>(s, bars). (s, bars_until d bars)) panel) =
      map (filter (\<lambda>(s, x, vs). x \<le> d)) (map (symbol_rows N flow hold shorts) panel)"
    using symbol_rows_until [OF assms(1,2)] by auto
  have "flow \<noteq> [] \<or> hold \<noteq> [] \<or> shorts \<noteq> []" using assms(3) by (auto simp: until_day_def)
  moreover have "(until_day (d - 1) flow = []) = (flow = [])"
  proof -
    have "(investors (until_day (d - 1) flow) = {}) = (investors flow = {})" using assms(2) by simp
    then show ?thesis by (simp add: investors_def)
  qed
  moreover have "columns_present (until_day (d - 1) flow) = columns_present flow"
    using assms(2) by (simp add: columns_present_def)
  ultimately show ?thesis using assms(3)
    by (simp only: kr_microstructure_def rows_of_def Let_def sum.case rows filter_concat [symmetric] split: if_split)
      (auto simp: until_day_def)
qed

text \<open>C40: The Korean microstructure features of a day use only earlier days. Where every kind of investor already occurs
  in the earlier flows and there are earlier rows, the rows of features up to a day are those computed from the flows,
  holdings and short positions up to the day before and the bars up to the day, also when the computation fails.\<close>

theorem kr_features_use_earlier_days:
  assumes "nan_spreads N" "investors (until_day (d - 1) flow) = investors flow"
    "until_day (d - 1) flow \<noteq> [] \<or> until_day (d - 1) hold \<noteq> [] \<or> until_day (d - 1) shorts \<noteq> []"
  shows "rbind (kr_microstructure N (Inr flow) (Inr hold) (Inr shorts) panel) (\<lambda>rows. Inr (filter (\<lambda>(s, x, vs). x \<le> d) rows)) =
    kr_microstructure N (Inr (until_day (d - 1) flow)) (Inr (until_day (d - 1) hold)) (Inr (until_day (d - 1) shorts))
      (map (\<lambda>(s, bars). (s, bars_until d bars)) panel)"
  using assms by (rule kr_microstructure_until)


text \<open>Numbers with one missing value, and two days of one symbol.\<close>

definition lift2 :: "(rat \<Rightarrow> rat \<Rightarrow> rat) \<Rightarrow> rat option \<Rightarrow> rat option \<Rightarrow> rat option" where
  "lift2 f x y = (case x of None \<Rightarrow> None | Some a \<Rightarrow> (case y of None \<Rightarrow> None | Some b \<Rightarrow> Some (f a b)))"

definition demo_sum :: "rat option list \<Rightarrow> rat option" where
  "demo_sum vs = foldr (lift2 (+)) vs (Some 0)"

definition demo_np :: "rat option np" where
  "demo_np = \<lparr>p_add = lift2 (+), p_sub = lift2 (-), p_mul = lift2 (*), p_div = lift2 (/), p_max = lift2 max, p_min = lift2 min,
     p_neg = map_option uminus, p_abs = map_option abs, p_log = (\<lambda>x. x), p_exp = (\<lambda>x. x), p_sqrt = (\<lambda>x. x), p_sign = map_option sgn,
     p_square = (\<lambda>x. lift2 (*) x x), p_positive = map_option (\<lambda>x. if 0 < x then 1 else 0), p_negative = map_option (\<lambda>x. if x < 0 then 1 else 0),
     p_lower0 = map_option (max 0), p_upper0 = map_option (min 0), p_isnan = (\<lambda>x. x = None), p_nan = None, p_const = Some,
     p_mean = (\<lambda>vs. lift2 (/) (demo_sum vs) (Some (of_nat (length vs)))), p_sum = demo_sum, p_std = demo_sum, p_var = demo_sum,
     p_greatest = demo_sum, p_least = demo_sum, p_skew = demo_sum, p_kurt = demo_sum, p_cov = (\<lambda>vs. None), p_corr = (\<lambda>vs. None),
     p_ewm = (\<lambda>k vs. None)\<rparr>"

definition demo_flow :: "rat option flow list" where
  "demo_flow = concat (map (\<lambda>d. map (\<lambda>i. (d, ''A'', i, Some 5)) [''foreign'', ''other_foreign'', ''pension'']) [1, 2, 3])"

definition demo_panel :: "(string \<times> rat option bar list) list" where
  "demo_panel = [(''A'', map (\<lambda>d. \<lparr>b_date = d, b_open = Some 1, b_high = Some 1, b_low = Some 1, b_close = Some 1, b_volume = Some 9\<rparr>) [1, 2, 3])]"

theorem kr_features_use_earlier_days_witness:
  "rbind (kr_microstructure demo_np (Inr demo_flow) (Inr [(1, ''A'', Some 30), (2, ''A'', Some 31), (3, ''A'', Some 32)]) (Inr []) demo_panel)
     (\<lambda>rows. Inr (filter (\<lambda>(s, x, vs). x \<le> 2) rows)) =
   Inr [(''A'', 1, replicate 8 None), (''A'', 2, [None, None, None, Some 30, None, None, None, None])]"
proof -
  have nan: "nan_spreads demo_np" by (simp add: nan_spreads_def demo_np_def lift2_def)
  have inv: "investors (until_day (2 - 1) demo_flow) = investors demo_flow" by code_simp
  have ne: "until_day (2 - 1) demo_flow \<noteq> []" by code_simp
  have "kr_microstructure demo_np (Inr (until_day (2 - 1) demo_flow)) (Inr (until_day (2 - 1) [(1, ''A'', Some 30), (2, ''A'', Some 31), (3, ''A'', Some 32)]))
      (Inr (until_day (2 - 1) [])) (map (\<lambda>(s, bars). (s, bars_until 2 bars)) demo_panel) =
    Inr [(''A'', 1, replicate 8 None), (''A'', 2, [None, None, None, Some 30, None, None, None, None])]" by code_simp
  with kr_features_use_earlier_days [OF nan inv disjI1 [OF ne], of "[(1, ''A'', Some 30), (2, ''A'', Some 31), (3, ''A'', Some 32)]" "[]" demo_panel]
  show ?thesis by simp
qed

end
