(* ===== verification/MlSplit.thy ===== *)
theory MlSplit
  imports Prelude
begin

text \<open>
  The evaluation of the stock model: the purged walk-forward split \<open>batch/ml/cv.py\<close>, the label of
  \<open>batch/ml/dataset.py\<close>, the folds of \<open>batch/ml/baseline_lgbm.py\<close> and the daily scoring \<open>batch/ml/stock_score.py\<close>.

  The arithmetic of numpy arrays and the model (LightGBM) are arguments: \<open>ret later now\<close> is \<open>later / now - 1\<close>,
  \<open>fit train test\<close> the predictions for the test rows.  So are \<open>numpy.array_split\<close> and \<open>numpy.searchsorted\<close>, of
  which the facts used are the named hypotheses \<open>splits\<close> and \<open>searches\<close>.
\<close>

section \<open>The split\<close>

type_synonym 'd splitter = "'d list \<Rightarrow> nat \<Rightarrow> 'd list list res"

definition purged_walkforward ::
  "int splitter \<Rightarrow> (int list \<Rightarrow> int \<Rightarrow> nat) \<Rightarrow> int list \<Rightarrow> nat \<Rightarrow> nat \<Rightarrow> nat \<Rightarrow> nat \<Rightarrow> (int list \<times> int list) list res" where
  "purged_walkforward array_split searchsorted dates n_splits horizon embargo min_train =
     (let ds = sort (remdups dates); gap = horizon + embargo
      in if length ds \<le> min_train + n_splits then Inl (ValueError ''dates'')
         else rbind (array_split (drop min_train ds) n_splits) (\<lambda>blocks.
           Inr (concat (map (\<lambda>blk. case blk of
                    [] \<Rightarrow> []
                  | test_start # _ \<Rightarrow>
                      let cut = int (searchsorted ds test_start) - int gap
                      in if cut < int (min_train div 2) then [] else [(take (nat cut) ds, blk)]) blocks))))"

definition splits :: "'d splitter \<Rightarrow> bool" where
  "splits array_split \<longleftrightarrow> (\<forall>xs k blocks. array_split xs k = Inr blocks \<longrightarrow> concat blocks = xs)"

definition searches :: "(int list \<Rightarrow> int \<Rightarrow> nat) \<Rightarrow> bool" where
  "searches searchsorted \<longleftrightarrow> (\<forall>xs x. sorted xs \<longrightarrow> searchsorted xs x = length (filter (\<lambda>y. y < x) xs))"

section \<open>The label\<close>

text \<open>The rows of a symbol in the order of their dates; \<open>s.shift(-horizon) / s - 1\<close> at a date.\<close>

fun fwd_ret :: "('p \<Rightarrow> 'p \<Rightarrow> 'v) \<Rightarrow> nat \<Rightarrow> (int \<times> 'p) list \<Rightarrow> int \<Rightarrow> 'v option" where
  "fwd_ret ret h [] d = None"
| "fwd_ret ret h ((x, c) # rows) d =
     (if x = d then (if h < length ((x, c) # rows) then Some (ret (snd (((x, c) # rows) ! h)) c) else None)
      else fwd_ret ret h rows d)"

section \<open>Folds and scores\<close>

record 'v sample =
  sa_symbol :: string
  sa_date :: int
  sa_features :: "'v list"
  sa_label :: "'v option"
  sa_fwd :: "'v option"

definition rows_on :: "int list \<Rightarrow> 'v sample list \<Rightarrow> 'v sample list" where
  "rows_on ds rows = filter (\<lambda>r. sa_date r \<in> set ds) rows"

definition run_fold :: "('v sample list \<Rightarrow> 'v sample list \<Rightarrow> 'v list) \<Rightarrow> 'v sample list \<Rightarrow> int list \<times> int list \<Rightarrow> ('v sample \<times> 'v) list" where
  "run_fold fit rows f =
     (let tr = rows_on (fst f) rows; te = rows_on (snd f) rows
      in if tr = [] \<or> te = [] then [] else zip te (fit tr te))"

text \<open>\<open>run_market\<close>: the out-of-sample predictions; the rows without a label are dropped first.\<close>

definition run_market ::
  "int splitter \<Rightarrow> (int list \<Rightarrow> int \<Rightarrow> nat) \<Rightarrow> ('v sample list \<Rightarrow> 'v sample list \<Rightarrow> 'v list) \<Rightarrow> 'v sample list \<Rightarrow> nat \<Rightarrow> nat \<Rightarrow>
   ('v sample \<times> 'v) list res" where
  "run_market array_split searchsorted fit feats horizon folds =
     (let rows = filter (\<lambda>r. sa_label r \<noteq> None) feats
      in rbind (purged_walkforward array_split searchsorted (map sa_date rows) folds horizon 5 252) (\<lambda>fs.
           let oof = concat (map (run_fold fit rows) fs)
           in if fs = [] \<or> list_all (\<lambda>f. run_fold fit rows f = []) fs then Inl (ValueError ''concat'') else Inr oof))"

text \<open>\<open>_latest_covered\<close>: the dates with their numbers of rows in the order of time, the last fifteen.\<close>

definition day_sizes :: "'v sample list \<Rightarrow> (int \<times> nat) list" where
  "day_sizes feats = map (\<lambda>d. (d, length (filter (\<lambda>r. sa_date r = d) feats))) (sort (remdups (map sa_date feats)))"

definition latest_covered :: "'v sample list \<Rightarrow> int option" where
  "latest_covered feats =
     (let recent = takelast 15 (day_sizes feats); top = foldr max (map snd recent) 0;
          ok = filter (\<lambda>(d, n). top \<le> 2 * n) recent
      in if ok = [] then None else Some (fst (last ok)))"

definition score_latest ::
  "('v::linorder sample list \<Rightarrow> 'v sample list \<Rightarrow> 'v list) \<Rightarrow> 'v sample list \<Rightarrow> nat \<Rightarrow> int option \<times> (string \<times> 'v) list" where
  "score_latest fit feats top_n =
     (let latest = latest_covered feats;
          train = filter (\<lambda>r. sa_label r \<noteq> None) feats;
          day = filter (\<lambda>r. Some (sa_date r) = latest) feats
      in if train = [] \<or> day = [] then (latest, [])
         else (latest, take top_n (rev (sort_key snd (zip (map sa_symbol day) (fit train day))))))"

section \<open>Lemmas\<close>

lemma folds_shape:
  assumes "purged_walkforward sp se dates n h e m = Inr folds" "(train, test) \<in> set folds" "splits sp" "searches se"
  shows "\<exists>k pre post. train = take k (sort (remdups dates)) \<and> test \<noteq> [] \<and> drop m (sort (remdups dates)) = pre @ test @ post \<and>
    k + (h + e) = length (filter (\<lambda>y. y < hd test) (sort (remdups dates)))"
proof -
  let ?ds = "sort (remdups dates)"
  from assms(1) obtain blocks where b: "sp (drop m ?ds) n = Inr blocks"
    and f: "folds = concat (map (\<lambda>blk. case blk of [] \<Rightarrow> []
                  | t # _ \<Rightarrow> let k = int (se ?ds t) - int (h + e)
                      in if k < int (m div 2) then [] else [(take (nat k) ?ds, blk)]) blocks)"
    by (auto simp: purged_walkforward_def Let_def split: if_splits)
  from assms(2) f obtain blk t r where blk: "blk \<in> set blocks" "blk = t # r" "test = blk"
    and cut: "int (m div 2) \<le> int (se ?ds t) - int (h + e)" "train = take (nat (int (se ?ds t) - int (h + e))) ?ds"
    by (auto simp: Let_def split: list.splits if_splits)
  from blk(1) obtain b1 b2 where "blocks = b1 @ blk # b2" by (meson split_list)
  with b assms(3) have d: "drop m ?ds = concat b1 @ test @ concat b2" by (fastforce simp: splits_def blk(3))
  have "se ?ds t = length (filter (\<lambda>y. y < hd test) ?ds)" using assms(4) blk by (simp add: searches_def)
  with cut have "nat (int (se ?ds t) - int (h + e)) + (h + e) = length (filter (\<lambda>y. y < hd test) ?ds)" by linarith
  with cut(2) d blk show ?thesis by blast
qed

lemma filter_less_take:
  "sorted xs \<Longrightarrow> filter (\<lambda>y. y < (t::int)) xs = take (length (filter (\<lambda>y. y < t) xs)) xs"
proof (induction xs)
  case (Cons x xs)
  have "filter (\<lambda>y. y < t) xs = []" if "\<not> x < t" using that Cons.prems by (auto simp: filter_empty_conv)
  then show ?case using Cons by auto
qed simp

text \<open>Between a training date and the test lie at least as many dates as the gap.\<close>

lemma dates_between:
  assumes "sorted ds" "distinct ds" "k + g = length (filter (\<lambda>y. y < t) ds)" "d \<in> set (take k ds)"
  shows "g \<le> length (filter (\<lambda>x. d < x \<and> x < (t::int)) ds)"
proof -
  define P where "P = filter (\<lambda>y. y < t) ds"
  have P: "P = take (k + g) ds" using filter_less_take [OF assms(1), of t] assms(3) by (simp add: P_def)
  have len: "length P = k + g" using assms(3) by (simp add: P_def)
  from assms(4) obtain i where i: "i < k" "i < length ds" "d = ds ! i" by (auto simp: in_set_conv_nth)
  have sd: "sorted_wrt (<) P" using assms(1,2) by (simp add: P strict_sorted_iff sorted_wrt_take)
  have "d < x" if x: "x \<in> set (drop (Suc i) P)" for x
  proof -
    from x obtain j where "j < length (drop (Suc i) P)" "x = drop (Suc i) P ! j" by (auto simp: in_set_conv_nth)
    then have "Suc i + j < length P" "x = P ! (Suc i + j)" by auto
    then show ?thesis using sorted_wrt_nth_less [OF sd, of i "Suc i + j"] i P len by simp
  qed
  then have "length (drop (Suc i) P) \<le> length (filter (\<lambda>x. d < x) P)"
    by (metis append_take_drop_id filter_append filter_id_conv le_add2 length_append)
  moreover have "filter (\<lambda>x. d < x \<and> x < t) ds = filter (\<lambda>x. d < x) P" by (simp add: P_def conj_commute)
  ultimately show ?thesis using len i by simp
qed

lemma training_before:
  assumes "sorted ds" "k + g = length (filter (\<lambda>y. y < t) ds)" "d \<in> set (take k ds)"
  shows "d < (t::int)"
proof -
  have "d \<in> set (take (k + g) ds)" using assms(3) by (auto simp: take_add)
  then have "d \<in> set (filter (\<lambda>y. y < t) ds)" using filter_less_take [OF assms(1), of t] assms(2) by metis
  then show ?thesis by simp
qed

lemma fwd_ret_none: "d \<notin> fst ` set rows \<Longrightarrow> fwd_ret ret h rows d = None"
  by (induction rows) auto

lemma fwd_ret_before:
  assumes "sorted_wrt (<) (map fst rows)" "d < t" "h \<le> length (filter (\<lambda>(x, c). d < x \<and> x < (t::int)) rows)"
  shows "fwd_ret ret h (filter (\<lambda>(x, c). x < t) rows) d = fwd_ret ret h rows d"
  using assms
proof (induction rows)
  case (Cons r rows)
  obtain x c where r: "r = (x, c)" by (cases r)
  have gt: "x < y" if "y \<in> fst ` set rows" for y using Cons.prems(1) that by (auto simp: r)
  have st: "sorted_wrt (<) (map fst rows)" using Cons.prems(1) by simp
  show ?case
  proof (cases "x = d")
    case True
    have F: "filter (\<lambda>(x, c). d < x \<and> x < t) rows = filter (\<lambda>(x, c). x < t) rows"
      using gt True by (intro filter_cong) force+
    have T: "filter (\<lambda>(x, c). x < t) rows = takeWhile (\<lambda>(x, c). x < t) rows"
      using st by (induction rows) (fastforce simp: filter_empty_conv takeWhile_eq_Nil_iff neq_Nil_conv)+
    let ?T = "takeWhile (\<lambda>(x, c). x < t) rows"
    have h: "h \<le> length ?T" using Cons.prems(3) True by (simp add: r F T)
    then have "((d, c) # ?T) ! h = ((d, c) # rows) ! h" by (cases h) (simp_all add: takeWhile_nth)
    moreover have "length ?T \<le> length rows" by (rule length_takeWhile_le)
    ultimately show ?thesis using h True Cons.prems(2) by (simp add: r T)
  next
    case x: False
    show ?thesis
    proof (cases "x < d")
      case True
      then show ?thesis using Cons.IH st Cons.prems x by (simp add: r)
    next
      case False
      then have "d \<notin> fst ` set (r # rows)" using gt x by (force simp: r)
      moreover from this have "d \<notin> fst ` set (filter (\<lambda>(x, c). x < t) (r # rows))" by auto
      ultimately show ?thesis using fwd_ret_none by metis
    qed
  qed
qed simp

lemma enough_rows:
  assumes "distinct ds" "h + e \<le> length (filter (\<lambda>x. d < x \<and> x < (t::int)) ds)"
    and "length (filter (\<lambda>x. d < x \<and> x < t \<and> x \<notin> fst ` set rows) ds) \<le> e"
  shows "h \<le> length (filter (\<lambda>(x, c). d < x \<and> x < t) rows)"
proof -
  let ?A = "{x \<in> set ds. d < x \<and> x < t}" and ?M = "{x \<in> set ds. d < x \<and> x < t \<and> x \<notin> fst ` set rows}"
  let ?R = "filter (\<lambda>(x, c). d < x \<and> x < t) rows"
  have "h + e \<le> card ?A" "card ?M \<le> e"
    using assms distinct_card [of "filter (\<lambda>x. d < x \<and> x < t) ds"]
      distinct_card [of "filter (\<lambda>x. d < x \<and> x < t \<and> x \<notin> fst ` set rows) ds"] by simp_all
  moreover have "card ?A \<le> card (?M \<union> fst ` set ?R)" by (intro card_mono) (auto simp: image_iff)
  moreover have "card (?M \<union> fst ` set ?R) \<le> card ?M + card (fst ` set ?R)" by (rule card_Un_le)
  moreover have "card (fst ` set ?R) \<le> length ?R"
    using card_image_le [of "set ?R" fst] card_length [of ?R] by simp
  ultimately show ?thesis by linarith
qed

section \<open>No label of the training reaches the test\<close>

text \<open>C32: The split does not leak labels. In every fold each training date is before the test block, and its label, the
  return over the next \<open>horizon\<close> rows of the symbol, is computed from rows before the test block only: it is
  unchanged when the later rows are removed. This holds for every symbol that has rows on all but at most
  \<open>embargo\<close> of the dates between the training date and the test.\<close>

theorem purged_labels_precede_test:
  assumes "purged_walkforward array_split searchsorted dates n_splits horizon embargo min_train = Inr folds"
    and "(train, test) \<in> set folds" "splits array_split" "searches searchsorted"
    and "d \<in> set train" "sorted_wrt (<) (map fst rows)"
    and "length (filter (\<lambda>x. d < x \<and> x < hd test \<and> x \<notin> fst ` set rows) (sort (remdups dates))) \<le> embargo"
  shows "d < hd test \<and> (\<forall>x \<in> set test. hd test \<le> x) \<and>
    fwd_ret ret horizon (filter (\<lambda>(x, c). x < hd test) rows) d = fwd_ret ret horizon rows d"
proof -
  let ?ds = "sort (remdups dates)"
  obtain k pre post where train: "train = take k ?ds" and ne: "test \<noteq> []" and d: "drop min_train ?ds = pre @ test @ post"
    and cut: "k + (horizon + embargo) = length (filter (\<lambda>y. y < hd test) ?ds)"
    using folds_shape [OF assms(1-4)] by blast
  have "sorted (drop min_train ?ds)" by (simp add: sorted_wrt_drop)
  then have "sorted test" by (simp add: d sorted_append)
  then have least: "\<forall>x \<in> set test. hd test \<le> x" using ne by (cases test) auto
  have lt: "d < hd test" using training_before [OF _ cut] assms(5) by (simp add: train)
  have "horizon + embargo \<le> length (filter (\<lambda>x. d < x \<and> x < hd test) ?ds)"
    using assms(5) cut by (intro dates_between [of ?ds k]) (simp_all add: train)
  from enough_rows [OF _ this assms(7)] have "horizon \<le> length (filter (\<lambda>(x, c). d < x \<and> x < hd test) rows)" by simp
  from fwd_ret_before [OF assms(6) lt this] lt least show ?thesis by simp
qed

text \<open>\<open>array_split\<close> of numpy: the first blocks have one element more.\<close>

fun blocks_of :: "nat \<Rightarrow> nat \<Rightarrow> nat \<Rightarrow> 'a list \<Rightarrow> 'a list list" where
  "blocks_of 0 big w xs = []"
| "blocks_of (Suc k) big w xs =
     (let n = (if 0 < big then Suc w else w) in take n xs # blocks_of k (big - 1) w (drop n xs))"

definition demo_split :: "'a splitter" where
  "demo_split xs k = (if k = 0 then Inl (ValueError ''sections'') else Inr (blocks_of k (length xs mod k) (length xs div k) xs))"

definition demo_search :: "int list \<Rightarrow> int \<Rightarrow> nat" where
  "demo_search xs x = length (filter (\<lambda>y. y < x) xs)"

lemma concat_blocks: "big \<le> k \<Longrightarrow> length xs = k * w + big \<Longrightarrow> concat (blocks_of k big w xs) = xs"
  by (induction k big w xs rule: blocks_of.induct) (auto simp: Let_def)

lemma demo_arrays: "splits demo_split" "searches demo_search"
  by (auto simp: splits_def demo_split_def searches_def demo_search_def concat_blocks mult.commute less_imp_le split: if_splits)

definition demo_dates :: "int list" where "demo_dates = [0..11]"

definition demo_rows :: "(int \<times> int) list" where "demo_rows = map (\<lambda>d. (d, 10 * d)) (filter (\<lambda>d. d \<noteq> 4) demo_dates)"

lemma demo_folds: "purged_walkforward demo_split demo_search demo_dates 2 2 1 4 = Inr [([0..4], [8..11])]"
  by code_simp

theorem purged_labels_precede_test_witness:
  "purged_walkforward demo_split demo_search demo_dates 2 2 1 4 = Inr [([0..4], [8..11])] \<and>
   fwd_ret (-) 2 (filter (\<lambda>(x, c). x < hd [8..11]) demo_rows) 3 = fwd_ret (-) 2 demo_rows 3 \<and> fwd_ret (-) 2 demo_rows 3 = Some 30"
proof -
  have m: "length (filter (\<lambda>x. 3 < x \<and> x < hd [8..11] \<and> x \<notin> fst ` set demo_rows) (sort (remdups demo_dates))) \<le> 1"
    and s: "sorted_wrt (<) (map fst demo_rows)" and d: "(3::int) \<in> set [0..4]" and v: "fwd_ret (-) 2 demo_rows 3 = Some 30"
    by code_simp+
  from purged_labels_precede_test [OF demo_folds _ demo_arrays d s m, of "(-)"] demo_folds v show ?thesis by simp
qed

section \<open>A suspended symbol\<close>

text \<open>C33: The gap counts the dates of the market, the label the rows of the symbol. A symbol that is not traded from a
  training date until the test begins has a training label that is the return to a close inside the test block, in
  every fold whose test block has at least \<open>horizon\<close> dates.\<close>

theorem suspended_symbol_leaks:
  assumes "purged_walkforward array_split searchsorted dates n_splits horizon embargo min_train = Inr folds"
    and "(train, test) \<in> set folds" "splits array_split" "searches searchsorted"
    and "d \<in> set train" "0 < horizon" "horizon \<le> length test" "rows = (d, p d) # map (\<lambda>x. (x, p x)) test"
  shows "fwd_ret ret horizon rows d = Some (ret (p (test ! (horizon - 1))) (p d)) \<and> test ! (horizon - 1) \<in> set test \<and>
    sorted_wrt (<) (map fst rows) \<and> set (map fst rows) \<subseteq> set dates"
proof -
  let ?ds = "sort (remdups dates)"
  obtain k pre post where train: "train = take k ?ds" and ne: "test \<noteq> []" and dr: "drop min_train ?ds = pre @ test @ post"
    and k: "k + (horizon + embargo) = length (filter (\<lambda>y. y < hd test) ?ds)"
    using folds_shape [OF assms(1-4)] by blast
  have st: "sorted_wrt (<) (drop min_train ?ds)" by (simp add: strict_sorted_iff sorted_wrt_drop)
  then have t: "sorted_wrt (<) test" by (simp add: dr sorted_wrt_append)
  have "set test \<subseteq> set (drop min_train ?ds)" by (auto simp: dr)
  then have sub: "set test \<subseteq> set dates" using set_drop_subset [of min_train ?ds] by auto
  have lt: "d < hd test" using training_before [OF _ k] assms(5) by (simp add: train)
  have "hd test \<le> x" if "x \<in> set test" for x using that t ne by (cases test) auto
  then have "sorted_wrt (<) (map fst rows)" using t lt by (force simp: assms(8) comp_def)
  moreover have "d \<in> set dates" using assms(5) set_take_subset [of k ?ds] by (auto simp: train)
  ultimately show ?thesis using sub assms(6,7) by (auto simp: assms(8) nth_Cons' comp_def)
qed

theorem suspended_symbol_leaks_witness:
  "fwd_ret (-) 2 ((4, 7) # map (\<lambda>x. (x, 7)) [8..11]) 4 = Some (0 :: int) \<and> 9 \<in> set ([8..11] :: int list)"
  using suspended_symbol_leaks [OF demo_folds _ demo_arrays, of "[0..4]" "[8..11]" 4 _ "\<lambda>x. 7" "(-)"] by simp

end
