(* ===== verification/Dataset.thy ===== *)
theory Dataset
  imports KrMicro MlSplit
begin

text \<open>
  The training data: loading and storing of features (\<open>batch/features/compute.py\<close>) and the assembly of the data set
  (\<open>batch/ml/dataset.py\<close>) from the features of \<open>Features\<close>, \<open>Fundamentals\<close> and \<open>KrMicro\<close>.
  A frame is the list of its rows, each a symbol, a day and the values of the columns; with it goes for every column
  whether it is ranked within a day.  A symbol has one bar a day.
\<close>

section \<open>Frames\<close>

type_synonym 'v table = "(string \<times> int \<times> 'v list) list"
type_synonym 'v frame = "bool list \<times> 'v table"

text \<open>\<open>load_ohlcv\<close>: a market without bars is an error.\<close>

definition load_ohlcv :: "(string \<times> 'v bar list) list \<Rightarrow> (string \<times> 'v bar list) list res" where
  "load_ohlcv panel = (if list_all (\<lambda>(s, bars). bars = []) panel then Inl (RuntimeError ''no bars'') else Inr panel)"

text \<open>\<open>store\<close>: the long format, one feature after the other, without missing values.\<close>

definition long_rows :: "'v np \<Rightarrow> string \<Rightarrow> string list \<Rightarrow> 'v table \<Rightarrow> (string \<times> int \<times> string \<times> string \<times> 'v) list" where
  "long_rows N market names feats =
     concat (map (\<lambda>j. List.map_filter (\<lambda>(s, d, xs). if p_isnan N (xs ! j) then None else Some (s, d, market, names ! j, xs ! j)) feats)
       [0..<length names])"

text \<open>\<open>if len(right): feats = feats.merge(right, on=["symbol", "date"], how="left")\<close>, for \<open>k\<close> columns.\<close>

definition row_at :: "'v table \<Rightarrow> string \<Rightarrow> int \<Rightarrow> 'v list option" where
  "row_at rows s d = (case find (\<lambda>(s', d', ys). s' = s \<and> d' = d) rows of None \<Rightarrow> None | Some (s', d', ys) \<Rightarrow> Some ys)"

definition left_merge :: "'v np \<Rightarrow> nat \<Rightarrow> 'v frame \<Rightarrow> 'v table \<Rightarrow> 'v frame" where
  "left_merge N k fr right =
     (if right = [] then fr
      else (fst fr @ replicate k True,
            map (\<lambda>(s, d, xs). (s, d, xs @ (case row_at right s d of None \<Rightarrow> replicate k (p_nan N) | Some ys \<Rightarrow> ys))) (snd fr)))"

section \<open>The parts\<close>

record 'v inputs =
  i_panel :: "(string \<times> 'v bar list) list"
  i_us :: "(string \<times> 'v bar list) list"
  i_facts :: "'v fact_table"
  i_held :: "(string \<times> 'v holding13) list"
  i_sectors :: "(string \<times> string) list"
  i_flow :: "'v flow list"
  i_hold :: "(int \<times> string \<times> 'v) list"
  i_short :: "(int \<times> string \<times> 'v \<times> 'v) list"
  i_macro :: "(int \<times> 'v list) list"

definition fund_list :: "'v fund_features \<Rightarrow> 'v list" where
  "fund_list f = [ff_mktcap f, ff_turnover f, ff_pbr f, ff_per f, ff_psr f, ff_roe f, ff_roa f, ff_rev_growth f]"

definition fund_table :: "'v num \<Rightarrow> 'v order \<Rightarrow> 'v inputs \<Rightarrow> 'v table" where
  "fund_table M order inp =
     map (\<lambda>(s, d, f). (s, d, fund_list f))
       (daily_fundamentals M order (i_facts inp) (map (\<lambda>(s, bars). (s, map (\<lambda>b. (b_date b, b_close b, b_volume b)) bars)) (i_panel inp)))"

definition held_by :: "string \<Rightarrow> (string \<times> 'v holding13) list \<Rightarrow> 'v holding13 list" where
  "held_by s rows = map snd (filter (\<lambda>(s', h). s' = s) rows)"

definition held_table :: "'v num \<Rightarrow> ('v \<Rightarrow> 'v) \<Rightarrow> 'v order \<Rightarrow> 'v inputs \<Rightarrow> 'v table" where
  "held_table M log1p order inp =
     concat (map (\<lambda>(s, bars). let hs = held_by s (i_held inp)
                               in if hs = [] then [] else map (\<lambda>d. (s, d, features13 M log1p order hs d)) (sort (map b_date bars))) (i_panel inp))"

text \<open>\<open>_attach_sector\<close>: the means of a day and a sector; \<open>mom12m\<close> and \<open>retvol21\<close> are the third and the twelfth column.\<close>

definition sector_of :: "(string \<times> string) list \<Rightarrow> string \<Rightarrow> string" where
  "sector_of secs s = get_or secs s ''NA''"

definition sector_mean :: "'v np \<Rightarrow> (string \<times> string) list \<Rightarrow> 'v table \<Rightarrow> nat \<Rightarrow> string \<Rightarrow> int \<Rightarrow> 'v" where
  "sector_mean N secs rows j s d =
     enough N 1 (p_mean N) (List.map_filter (\<lambda>(s', d', ys). if d' = d \<and> sector_of secs s' = sector_of secs s then Some (ys ! j) else None) rows)"

definition MOM12 :: nat where "MOM12 = 2"
definition RETVOL21 :: nat where "RETVOL21 = 11"

definition attach_sector :: "'v np \<Rightarrow> (string \<times> string) list \<Rightarrow> 'v frame \<Rightarrow> 'v frame" where
  "attach_sector N secs fr =
     (fst fr @ [True, True, True],
      map (\<lambda>(s, d, xs). let indmom = sector_mean N secs (snd fr) MOM12 s d
                        in (s, d, xs @ [indmom, p_sub N (xs ! MOM12) indmom,
                              p_sub N (xs ! RETVOL21) (sector_mean N secs (snd fr) RETVOL21 s d)])) (snd fr))"

text \<open>The macro series: of the same day for American stocks, of the last earlier day for Korean ones.\<close>

definition MACRO :: nat where "MACRO = 9"

definition attach_macro :: "'v np \<Rightarrow> bool \<Rightarrow> (int \<times> 'v list) list \<Rightarrow> 'v frame \<Rightarrow> 'v frame" where
  "attach_macro N same_day macro fr =
     (let none = replicate MACRO (p_nan N)
      in (fst fr @ replicate MACRO False,
          map (\<lambda>(s, d, xs). (s, d, xs @ (if same_day then get_or macro d none else asof_before none macro d))) (snd fr)))"

text \<open>The price features, with the American context for Korean stocks, whose market columns are not ranked.\<close>

definition price_frame :: "'v np \<Rightarrow> (string \<times> 'v bar list) list \<Rightarrow> 'v frame" where
  "price_frame N panel = (replicate 58 True, compute_features N panel)"

definition context_frame :: "'v np \<Rightarrow> (string \<times> 'v bar list) list \<Rightarrow> (string \<times> 'v bar list) list \<Rightarrow> 'v frame" where
  "context_frame N panel us =
     (replicate 58 True @ replicate 5 False @ [True, True],
      concat (map (\<lambda>(s, bars). map (\<lambda>(d, xs). (s, d, xs)) (attach_us_context N (per_symbol N bars) bars us)) panel))"

section \<open>The data set\<close>

text \<open>\<open>rank(pct=True)\<close> of a value among the values of its day, and \<open>_xs_rank\<close>.\<close>

definition pct_rank :: "'v np \<Rightarrow> ('v \<Rightarrow> 'v \<Rightarrow> bool) \<Rightarrow> 'v list \<Rightarrow> 'v \<Rightarrow> 'v" where
  "pct_rank N lt vs v =
     (if p_isnan N v then p_nan N
      else let ws = filter (\<lambda>w. \<not> p_isnan N w) vs
           in p_const N ((of_nat (length (filter (\<lambda>w. lt w v) ws)) + (of_nat (length (filter (\<lambda>w. w = v) ws)) + 1) / 2) / of_nat (length ws)))"

definition on_date :: "'v table \<Rightarrow> int \<Rightarrow> nat \<Rightarrow> 'v list" where
  "on_date rows d j = map (\<lambda>(s, x, ys). ys ! j) (filter (\<lambda>(s, x, ys). x = d) rows)"

definition xs_rank :: "'v np \<Rightarrow> ('v \<Rightarrow> 'v \<Rightarrow> bool) \<Rightarrow> 'v frame \<Rightarrow> 'v frame" where
  "xs_rank N lt fr =
     (fst fr,
      map (\<lambda>(s, d, xs). (s, d, map (\<lambda>j. if fst fr ! j
               then p_sub N (p_mul N (p_const N 2) (pct_rank N lt (on_date (snd fr) d j) (xs ! j))) (p_const N 1)
               else xs ! j) [0..<length xs])) (snd fr))"

record options =
  op_rank :: bool
  op_fundamentals :: bool
  op_macro :: bool
  op_held :: bool
  op_sector :: bool
  op_micro :: bool

definition features_us :: "'v np \<Rightarrow> 'v num \<Rightarrow> ('v \<Rightarrow> 'v) \<Rightarrow> 'v order \<Rightarrow> options \<Rightarrow> 'v inputs \<Rightarrow> 'v frame" where
  "features_us N M log1p order ops inp =
     (let f0 = price_frame N (i_panel inp);
          f1 = (if op_fundamentals ops
                then (let a = left_merge N 8 f0 (fund_table M order inp);
                          b = (if op_held ops then left_merge N 4 a (held_table M log1p order inp) else a)
                      in if op_sector ops then attach_sector N (i_sectors inp) b else b)
                else f0)
      in if op_macro ops then attach_macro N True (i_macro inp) f1 else f1)"

definition features_kr :: "'v np \<Rightarrow> 'v num \<Rightarrow> 'v order \<Rightarrow> options \<Rightarrow> 'v inputs \<Rightarrow> 'v frame res" where
  "features_kr N M order ops inp =
     (let f0 = context_frame N (i_panel inp) (i_us inp);
          f1 = (if op_fundamentals ops then left_merge N 8 f0 (fund_table M order inp) else f0)
      in rbind (if op_micro ops
                then rbind (kr_microstructure N (Inr (i_flow inp)) (Inr (i_hold inp)) (Inr (i_short inp)) (i_panel inp)) (\<lambda>m. Inr (left_merge N 8 f1 m))
                else Inr f1) (\<lambda>f2.
           Inr (if op_macro ops then attach_macro N False (i_macro inp) f2 else f2)))"

definition dataset_features :: "'v np \<Rightarrow> 'v num \<Rightarrow> ('v \<Rightarrow> 'v) \<Rightarrow> 'v order \<Rightarrow> ('v \<Rightarrow> 'v \<Rightarrow> bool) \<Rightarrow> bool \<Rightarrow> options \<Rightarrow> 'v inputs \<Rightarrow> 'v frame res" where
  "dataset_features N M log1p order lt korean ops inp =
     rbind (load_ohlcv (i_panel inp)) (\<lambda>panel.
       rbind (if korean then rbind (load_ohlcv (i_us inp)) (\<lambda>us. features_kr N M order ops inp)
              else Inr (features_us N M log1p order ops inp)) (\<lambda>fr.
         Inr (if op_rank ops then xs_rank N lt fr else fr)))"

text \<open>The labels: the return of the next bars, standardized over the rows of the day.\<close>

definition fwd_of :: "'v np \<Rightarrow> nat \<Rightarrow> (string \<times> 'v bar list) list \<Rightarrow> string \<Rightarrow> int \<Rightarrow> 'v option" where
  "fwd_of N horizon panel s d =
     fwd_ret (\<lambda>later now. p_sub N (p_div N later now) (p_const N 1)) horizon
       (map (\<lambda>b. (b_date b, b_close b)) (sort_key b_date (get_or panel s []))) d"

definition z_score :: "'v np \<Rightarrow> 'v list \<Rightarrow> 'v \<Rightarrow> 'v" where
  "z_score N vs v = p_div N (p_sub N v (p_mean N vs)) (p_add N (p_std N vs) (p_const N EPS))"

definition with_labels :: "'v np \<Rightarrow> nat \<Rightarrow> (string \<times> 'v bar list) list \<Rightarrow> 'v table \<Rightarrow> 'v sample list" where
  "with_labels N horizon panel rows =
     map (\<lambda>(s, d, xs). let r = fwd_of N horizon panel s d;
                           day = List.map_filter (\<lambda>(s', d', ys). if d' = d then fwd_of N horizon panel s' d else None) rows
                       in \<lparr>sa_symbol = s, sa_date = d, sa_features = xs, sa_label = map_option (z_score N day) r, sa_fwd = r\<rparr>) rows"

definition build_dataset ::
  "'v np \<Rightarrow> 'v num \<Rightarrow> ('v \<Rightarrow> 'v) \<Rightarrow> 'v order \<Rightarrow> ('v \<Rightarrow> 'v \<Rightarrow> bool) \<Rightarrow> bool \<Rightarrow> nat \<Rightarrow> options \<Rightarrow> 'v inputs \<Rightarrow> (bool list \<times> 'v sample list) res" where
  "build_dataset N M log1p order lt korean horizon ops inp =
     rbind (dataset_features N M log1p order lt korean ops inp) (\<lambda>fr. Inr (fst fr, with_labels N horizon (i_panel inp) (snd fr)))"


section \<open>Nothing later enters the features\<close>

definition rows_until :: "int \<Rightarrow> 'v frame \<Rightarrow> 'v frame" where
  "rows_until d fr = (fst fr, filter (\<lambda>(s, x, xs). x \<le> d) (snd fr))"

abbreviation table_until :: "int \<Rightarrow> 'v table \<Rightarrow> 'v table" where
  "table_until d rows \<equiv> filter (\<lambda>(s, x, xs). x \<le> d) rows"

abbreviation panel_until :: "int \<Rightarrow> (string \<times> 'v bar list) list \<Rightarrow> (string \<times> 'v bar list) list" where
  "panel_until d panel \<equiv> map (\<lambda>(s, bars). (s, bars_until d bars)) panel"

definition facts_until :: "int \<Rightarrow> 'v fact_table \<Rightarrow> 'v fact_table" where
  "facts_until d tab = filter (\<lambda>((s, con, e, f), v). f \<le> d) tab"

definition held_until :: "int \<Rightarrow> (string \<times> 'v holding13) list \<Rightarrow> (string \<times> 'v holding13) list" where
  "held_until d rows = filter (\<lambda>(s, h). hd_end h + 45 \<le> d) rows"

text \<open>What is known at the close of a day: bars and filings up to the day, the American bars and the tables of the Korean
  exchange up to the day before, and the macro series up to the day, or for Korean stocks up to the day before.\<close>

definition inputs_until :: "bool \<Rightarrow> int \<Rightarrow> 'v inputs \<Rightarrow> 'v inputs" where
  "inputs_until korean d inp =
     \<lparr>i_panel = panel_until d (i_panel inp), i_us = us_until (d - 1) (i_us inp), i_facts = facts_until d (i_facts inp),
      i_held = held_until d (i_held inp), i_sectors = i_sectors inp, i_flow = until_day (d - 1) (i_flow inp),
      i_hold = until_day (d - 1) (i_hold inp), i_short = until_day (d - 1) (i_short inp),
      i_macro = until_day (if korean then d - 1 else d) (i_macro inp)\<rparr>"

lemma row_at_until: "x \<le> d \<Longrightarrow> row_at (table_until d rows) s x = row_at rows s x"
  unfolding row_at_def by (induction rows) auto

lemma left_merge_until:
  assumes "right' = table_until d right" "right' = [] \<longleftrightarrow> right = []"
  shows "rows_until d (left_merge N k fr right) = left_merge N k (rows_until d fr) right'"
proof -
  have "table_until d (map (\<lambda>(s, x, xs). (s, x, xs @ (case row_at right s x of None \<Rightarrow> replicate k (p_nan N) | Some ys \<Rightarrow> ys))) rows) =
      map (\<lambda>(s, x, xs). (s, x, xs @ (case row_at (table_until d right) s x of None \<Rightarrow> replicate k (p_nan N) | Some ys \<Rightarrow> ys)))
        (table_until d rows)" for rows
    by (induction rows) (auto simp: row_at_until)
  then show ?thesis using assms by (auto simp: left_merge_def rows_until_def)
qed

text \<open>The contract of a part of the data set: its rows up to a day are its rows on what is known by the day.\<close>

locale causal_table =
  fixes rows :: "'i \<Rightarrow> 'v table" and past :: "int \<Rightarrow> 'i \<Rightarrow> 'i" and ok :: "int \<Rightarrow> 'i \<Rightarrow> bool"
  assumes causal: "ok d x \<Longrightarrow> table_until d (rows x) = rows (past d x)"
begin

lemma merge_until:
  assumes "ok d x" "rows (past d x) = [] \<longrightarrow> rows x = []"
  shows "rows_until d (left_merge N k fr (rows x)) = left_merge N k (rows_until d fr) (rows (past d x))"
  using assms causal [OF assms(1)] by (intro left_merge_until) auto

end

lemma sector_mean_until: "x \<le> d \<Longrightarrow> sector_mean N secs (table_until d rows) j s x = sector_mean N secs rows j s x"
  unfolding sector_mean_def by (subst map_filter_filter) (auto split: if_splits)

lemma attach_sector_until: "rows_until d (attach_sector N secs fr) = attach_sector N secs (rows_until d fr)"
proof -
  have "table_until d (map (\<lambda>(s, x, xs). let m = sector_mean N secs all MOM12 s x in (s, x, xs @ [m, p_sub N (xs ! MOM12) m,
          p_sub N (xs ! RETVOL21) (sector_mean N secs all RETVOL21 s x)])) rows) =
      map (\<lambda>(s, x, xs). let m = sector_mean N secs (table_until d all) MOM12 s x in (s, x, xs @ [m, p_sub N (xs ! MOM12) m,
          p_sub N (xs ! RETVOL21) (sector_mean N secs (table_until d all) RETVOL21 s x)])) (table_until d rows)" for all rows
    by (induction rows) (auto simp: sector_mean_until Let_def)
  then show ?thesis by (simp add: attach_sector_def rows_until_def)
qed

lemma attach_macro_until:
  "rows_until d (attach_macro N same macro fr) = attach_macro N same (until_day (if same then d else d - 1) macro) (rows_until d fr)"
proof -
  have get: "get_or (until_day d macro) x none = get_or macro x none" if "x \<le> d" for x and none :: "'a list"
    using map_of_until [OF that, of macro] by (simp add: get_or_def until_day_def case_prod_unfold)
  have "table_until d (map (\<lambda>(s, x, xs). (s, x, xs @ (if same then get_or macro x none else asof_before none macro x))) rows) =
      map (\<lambda>(s, x, xs). (s, x, xs @ (if same then get_or (until_day (if same then d else d - 1) macro) x none
        else asof_before none (until_day (if same then d else d - 1) macro) x))) (table_until d rows)" for none rows
    by (induction rows) (auto simp: get asof_before_until)
  then show ?thesis by (simp add: attach_macro_def rows_until_def Let_def)
qed

lemma xs_rank_until: "rows_until d (xs_rank N lt fr) = xs_rank N lt (rows_until d fr)"
proof -
  have day: "on_date (table_until d rows) x j = on_date rows x j" if "x \<le> d" for rows :: "'a table" and x j
    using that unfolding on_date_def filter_filter by (intro arg_cong [where f = "map _"] filter_cong) auto
  have "table_until d (map (\<lambda>(s, x, xs). (s, x, map (\<lambda>j. if kinds ! j
               then p_sub N (p_mul N (p_const N 2) (pct_rank N lt (on_date all x j) (xs ! j))) (p_const N 1) else xs ! j) [0..<length xs])) rows) =
      map (\<lambda>(s, x, xs). (s, x, map (\<lambda>j. if kinds ! j
               then p_sub N (p_mul N (p_const N 2) (pct_rank N lt (on_date (table_until d all) x j) (xs ! j))) (p_const N 1) else xs ! j)
          [0..<length xs])) (table_until d rows)" for kinds all rows
    by (induction rows) (auto simp: day)
  then show ?thesis by (simp add: xs_rank_def rows_until_def)
qed

lemma price_frame_until: "rows_until d (price_frame N panel) = price_frame N (panel_until d panel)"
proof -
  have "table_until d (map (\<lambda>(x, xs). (s, x, xs)) (per_symbol N bars)) = map (\<lambda>(x, xs). (s, x, xs)) (per_symbol N (bars_until d bars))" for s bars
    using per_symbol_until [of d N bars] by (simp add: filter_map comp_def case_prod_unfold)
  then show ?thesis by (simp add: price_frame_def rows_until_def compute_features_def filter_concat comp_def case_prod_unfold)
qed


lemma context_frame_until: "rows_until d (context_frame N panel us) = context_frame N (panel_until d panel) (us_until (d - 1) us)"
proof -
  have "table_until d (map (\<lambda>(x, xs). (s, x, xs)) (attach_us_context N (per_symbol N bars) bars us)) =
      map (\<lambda>(x, xs). (s, x, xs)) (attach_us_context N (per_symbol N (bars_until d bars)) (bars_until d bars) (us_until (d - 1) us))" for s bars
    using attach_us_context_until [of d N "per_symbol N bars" bars us] per_symbol_until [of d N bars]
    by (simp add: filter_map comp_def case_prod_unfold)
  then show ?thesis by (simp add: context_frame_def rows_until_def filter_concat comp_def case_prod_unfold)
qed

text \<open>A company files balances one value a day, and each quarter once and in order; whoever is in a table is in it by the day.\<close>

definition filings_ok :: "int \<Rightarrow> 'v inputs \<Rightarrow> bool" where
  "filings_ok d inp \<longleftrightarrow>
     (\<forall>s \<in> set (map fst (i_panel inp)). let cf = facts_of s (i_facts inp); hs = held_by s (i_held inp) in
        (\<forall>con \<in> {''shares'', ''equity'', ''assets''}. one_per_filing cf con) \<and> (\<forall>con \<in> {''net_income'', ''revenue''}. filed_in_order cf con) \<and>
        (known d cf = [] \<longrightarrow> cf = []) \<and> distinct (map hd_end hs) \<and> (filter (\<lambda>h. hd_end h + 45 \<le> d) hs = [] \<longrightarrow> hs = []))"

lemma facts_of_until: "facts_of s (facts_until d tab) = known d (facts_of s tab)"
  by (induction tab) (auto simp: facts_of_def facts_until_def known_def)

lemma held_by_until: "held_by s (held_until d rows) = filter (\<lambda>h. hd_end h + 45 \<le> d) (held_by s rows)"
  by (induction rows) (auto simp: held_by_def held_until_def)

lemma known_known: "x \<le> d \<Longrightarrow> known x (known d cf) = known x cf"
  unfolding known_def filter_filter by (rule filter_cong) auto

lemma flow_facts_known: "flow_facts (known d cf) con = filter (\<lambda>f. fa_filed f \<le> d) (flow_facts cf con)"
  unfolding flow_facts_def known_def filter_filter by (rule filter_cong) auto

lemma filings_known:
  "one_per_filing cf con \<Longrightarrow> one_per_filing (known d cf) con" "filed_in_order cf con \<Longrightarrow> filed_in_order (known d cf) con"
proof -
  have eq: "filter (\<lambda>f. fa_concept f = con \<and> fa_dur f = 0) (known d cf) = filter (\<lambda>f. fa_filed f \<le> d) (filter (\<lambda>f. fa_concept f = con \<and> fa_dur f = 0) cf)"
    unfolding known_def filter_filter by (rule filter_cong) auto
  show "one_per_filing cf con \<Longrightarrow> one_per_filing (known d cf) con"
    unfolding one_per_filing_def eq by (rule distinct_map_filter)
  show "filed_in_order cf con \<Longrightarrow> filed_in_order (known d cf) con"
    by (auto simp: filed_in_order_def flow_facts_known distinct_map_filter)
qed

lemma fund_features_until:
  assumes "sorts order" "\<forall>con \<in> {''shares'', ''equity'', ''assets''}. one_per_filing cf con"
    "\<forall>con \<in> {''net_income'', ''revenue''}. filed_in_order cf con" "x \<le> d"
  shows "fund_features M order (known d cf) c v x = fund_features M order cf c v x"
proof -
  have "fund_features M order (known d cf) c v x = fund_features M order (known x (known d cf)) c v x"
    using assms by (intro fund_features_known) (auto simp: filings_known)
  also have "\<dots> = fund_features M order cf c v x"
    using fund_features_known [OF assms(1,2,3)] by (simp add: known_known [OF assms(4)])
  finally show ?thesis .
qed

definition fund_rows :: "'v num \<Rightarrow> 'v order \<Rightarrow> 'v fact_table \<Rightarrow> string \<Rightarrow> 'v bar list \<Rightarrow> 'v table" where
  "fund_rows M order tab s bars =
     (let cf = facts_of s tab
      in if cf = [] then []
         else map (\<lambda>(x, c, v). (s, x, fund_list (fund_features M order cf c v x))) (sort_key fst (map (\<lambda>b. (b_date b, b_close b, b_volume b)) bars)))"

lemma fund_table_alt: "fund_table M order inp = concat (map (\<lambda>(s, bars). fund_rows M order (i_facts inp) s bars) (i_panel inp))"
proof -
  have "map (\<lambda>(s, d, f). (s, d, fund_list f)) (concat (map (\<lambda>(s, g). let cf = facts_of s tab
        in if cf = [] then [] else map (\<lambda>(d, c, v). (s, d, fund_features M order cf c v d)) (sort_key fst g))
        (map (\<lambda>(s, bars). (s, map (\<lambda>b. (b_date b, b_close b, b_volume b)) bars)) panel))) =
    concat (map (\<lambda>(s, bars). fund_rows M order tab s bars) panel)" for tab panel
    by (induction panel) (auto simp: fund_rows_def Let_def)
  then show ?thesis by (simp add: fund_table_def daily_fundamentals_def)
qed

lemma concat_until:
  assumes "\<And>s bars. (s, bars) \<in> set panel \<Longrightarrow> table_until d (f s bars) = g s (bars_until d bars)"
  shows "table_until d (concat (map (\<lambda>(s, bars). f s bars) panel)) = concat (map (\<lambda>(s, bars). g s bars) (panel_until d panel))"
  using assms by (induction panel) auto

lemma in_panel: "(s, bars) \<in> set panel \<Longrightarrow> s \<in> set (map fst panel)"
  by force

lemma fund_rows_until:
  assumes "sorts order" "filings_ok d inp" "s \<in> set (map fst (i_panel inp))"
  shows "table_until d (fund_rows M order (i_facts inp) s bars) = fund_rows M order (facts_until d (i_facts inp)) s (bars_until d bars)"
proof -
  have ok: "\<forall>con \<in> {''shares'', ''equity'', ''assets''}. one_per_filing (facts_of s (i_facts inp)) con"
      "\<forall>con \<in> {''net_income'', ''revenue''}. filed_in_order (facts_of s (i_facts inp)) con"
      "(known d (facts_of s (i_facts inp)) = []) = (facts_of s (i_facts inp) = [])"
    using assms(2,3) by (auto simp: filings_ok_def Let_def known_def)
  have srt: "sort_key fst (map (\<lambda>b. (b_date b, b_close b, b_volume b)) (bars_until d bars)) =
      filter (\<lambda>r. fst r \<le> d) (sort_key fst (map (\<lambda>b. (b_date b, b_close b, b_volume b)) bars))"
    by (simp add: bars_until_def filter_sort filter_map comp_def)
  show ?thesis using ok(3)
    by (auto simp: fund_rows_def Let_def facts_of_until srt filter_map comp_def case_prod_unfold fund_features_until [OF assms(1) ok(1,2)])
qed

lemma fund_table_until:
  assumes "sorts order" "filings_ok d inp"
  shows "table_until d (fund_table M order inp) = fund_table M order (inputs_until korean d inp)"
  unfolding fund_table_alt
  by (subst concat_until [where g = "fund_rows M order (facts_until d (i_facts inp))"])
     (simp_all add: inputs_until_def fund_rows_until [OF assms in_panel])

interpretation fund: causal_table "fund_table M order" "inputs_until korean" "\<lambda>d inp. sorts order \<and> filings_ok d inp" for M order korean
  by unfold_locales (simp add: fund_table_until)

text \<open>The holdings of institutions.\<close>

lemma pct_change_alt: "xs \<noteq> [] \<Longrightarrow> pct_change M xs = n_nan M # map (\<lambda>(a, b). n_sub M (n_div M b a) (n_one M)) (zip xs (tl xs))"
  by (cases xs; cases "tl xs") auto

lemma take_pct_change: "take n (pct_change M xs) = pct_change M (take n xs)"
proof (cases "xs = [] \<or> n = 0")
  case False
  then obtain m x xs' where n: "n = Suc m" "xs = x # xs'" by (cases n; cases xs) auto
  have "zip (x # take m xs') (take m xs') = take m (zip (x # take m xs') (take m xs'))" by simp
  also have "\<dots> = take m (zip (x # xs') xs')" by (cases m) (simp_all add: take_zip)
  finally show ?thesis by (simp add: n pct_change_alt take_map)
qed auto

lemma length_pct_change: "length (pct_change M xs) = length xs"
  by (cases "xs = []") (simp_all add: pct_change_alt)

lemma asof_cut: "x \<le> d \<Longrightarrow> asof M (filter (\<lambda>r. fst r \<le> d) col) x = asof M col x"
proof -
  assume "x \<le> d"
  then have "filter (\<lambda>(f, v). f \<le> x) (filter (\<lambda>r. fst r \<le> d) col) = filter (\<lambda>(f, v). f \<le> x) col"
    unfolding filter_filter by (intro filter_cong) auto
  then show ?thesis by (rule asof_filter)
qed

lemma column13_until:
  assumes "sorts order" "distinct (map hd_end hs)" "x \<le> d" "\<And>n ys. take n (col ys) = col (take n ys)" "\<And>ys. length (col ys) = length ys"
  shows "asof M (order (zip (map (\<lambda>h. hd_end h + 45) (sort_key hd_end (filter (\<lambda>h. hd_end h + 45 \<le> d) hs)))
      (col (sort_key hd_end (filter (\<lambda>h. hd_end h + 45 \<le> d) hs))))) x =
    asof M (order (zip (map (\<lambda>h. hd_end h + 45) (sort_key hd_end hs)) (col (sort_key hd_end hs)))) x"
proof -
  let ?filed = "\<lambda>h. hd_end h + 45"
  define q where "q = sort_key hd_end hs"
  have srt: "sorted (map ?filed q)"
    using sorted_sort_key [of hd_end hs] by (simp add: q_def sorted_map sorted_wrt_map)
  have dist: "distinct (map ?filed q)" using assms(2) by (auto simp: q_def distinct_map inj_on_def)
  let ?rows = "map (\<lambda>h. (?filed h, h)) q"
  have cut: "sort_key hd_end (filter (\<lambda>h. ?filed h \<le> d) hs) = filter (\<lambda>h. ?filed h \<le> d) q"
    by (simp add: q_def filter_sort)
  have "filter (\<lambda>h. ?filed h \<le> d) q = take (length (filter (\<lambda>h. ?filed h \<le> d) q)) q" by (rule sorted_filter_take [OF srt])
  then obtain n where n: "filter (\<lambda>h. ?filed h \<le> d) q = take n q" by blast
  let ?Z = "zip (map ?filed q) (col q)"
  have fst: "map fst ?Z = map ?filed q" using assms(5) by simp
  have "until_day d (zip (map fst ?rows) (col (map snd ?rows))) = zip (map fst (until_day d ?rows)) (col (map snd (until_day d ?rows)))"
    using srt by (intro column_until) (simp_all add: assms(4,5) take_map comp_def)
  then have Z: "zip (map ?filed (take n q)) (col (take n q)) = filter (\<lambda>r. fst r \<le> d) ?Z"
    using n by (simp add: until_day_def filter_map comp_def)
  have o: "order ?Z = ?Z" using srt dist fst by (intro order_sorted [OF assms(1)]) simp_all
  have "order (filter (\<lambda>r. fst r \<le> d) ?Z) = filter (\<lambda>r. fst r \<le> d) ?Z"
    using srt dist fst by (intro order_sorted [OF assms(1)]) (simp_all only: distinct_map_filter sorted_filter)
  then show ?thesis using asof_cut [OF assms(3), of M ?Z] by (simp add: cut n Z o q_def [symmetric])
qed

lemma features13_until:
  assumes "sorts order" "distinct (map hd_end hs)" "x \<le> d"
  shows "features13 M log1p order (filter (\<lambda>h. hd_end h + 45 \<le> d) hs) x = features13 M log1p order hs x"
proof -
  note c = column13_until [OF assms]
  show ?thesis
    using c [of "map hd_holders" M] c [of "map hd_shares" M] c [of "\<lambda>q. pct_change M (map hd_holders q)" M] c [of "\<lambda>q. pct_change M (map hd_shares q)" M]
    by (simp add: features13_def columns13_def Let_def take_map take_pct_change length_pct_change)
qed

definition held_rows :: "'v num \<Rightarrow> ('v \<Rightarrow> 'v) \<Rightarrow> 'v order \<Rightarrow> (string \<times> 'v holding13) list \<Rightarrow> string \<Rightarrow> 'v bar list \<Rightarrow> 'v table" where
  "held_rows M log1p order rows s bars =
     (let hs = held_by s rows in if hs = [] then [] else map (\<lambda>x. (s, x, features13 M log1p order hs x)) (sort (map b_date bars)))"

lemma held_table_alt: "held_table M log1p order inp = concat (map (\<lambda>(s, bars). held_rows M log1p order (i_held inp) s bars) (i_panel inp))"
  by (simp add: held_table_def held_rows_def)

lemma held_rows_until:
  assumes "sorts order" "filings_ok d inp" "s \<in> set (map fst (i_panel inp))"
  shows "table_until d (held_rows M log1p order (i_held inp) s bars) = held_rows M log1p order (held_until d (i_held inp)) s (bars_until d bars)"
proof -
  let ?hs = "held_by s (i_held inp)"
  have ok: "distinct (map hd_end ?hs)" "(filter (\<lambda>h. hd_end h + 45 \<le> d) ?hs = []) = (?hs = [])"
    using assms(2,3) by (auto simp: filings_ok_def Let_def)
  have srt: "sort (map b_date (bars_until d bars)) = filter (\<lambda>x. x \<le> d) (sort (map b_date bars))"
    by (simp add: bars_until_def filter_sort filter_map comp_def)
  show ?thesis using ok(2)
    by (auto simp: held_rows_def Let_def held_by_until srt filter_map comp_def features13_until [OF assms(1) ok(1)])
qed

lemma held_table_until:
  assumes "sorts order" "filings_ok d inp"
  shows "table_until d (held_table M log1p order inp) = held_table M log1p order (inputs_until korean d inp)"
  unfolding held_table_alt
  by (subst concat_until [where g = "held_rows M log1p order (held_until d (i_held inp))"])
     (simp_all add: inputs_until_def held_rows_until [OF assms in_panel])


interpretation held: causal_table "held_table M log1p order" "inputs_until korean" "\<lambda>d inp. sorts order \<and> filings_ok d inp" for M log1p order korean
  by unfold_locales (simp add: held_table_until)

section \<open>The whole data set\<close>

text \<open>Every part of the data that has rows has some by the day; the kinds of investors are known.\<close>

definition started :: "'v num \<Rightarrow> ('v \<Rightarrow> 'v) \<Rightarrow> 'v order \<Rightarrow> bool \<Rightarrow> options \<Rightarrow> int \<Rightarrow> 'v inputs \<Rightarrow> bool" where
  "started M log1p order korean ops d inp \<longleftrightarrow>
     (let past = inputs_until korean d inp
      in list_ex (\<lambda>(s, bars). bars \<noteq> []) (i_panel past) \<and> (korean \<longrightarrow> list_ex (\<lambda>(s, bars). bars \<noteq> []) (i_us past)) \<and>
         (fund_table M order past = [] \<longrightarrow> fund_table M order inp = []) \<and>
         (held_table M log1p order past = [] \<longrightarrow> held_table M log1p order inp = []) \<and>
         (korean \<and> op_micro ops \<longrightarrow>
            investors (i_flow past) = investors (i_flow inp) \<and> (i_flow past \<noteq> [] \<or> i_hold past \<noteq> [] \<or> i_short past \<noteq> [])))"

lemma rbind_swap: "(\<And>x. r (g x) = g' (r x)) \<Longrightarrow> rbind (rbind X (\<lambda>x. Inr (g x))) (\<lambda>y. Inr (r y)) = rbind (rbind X (\<lambda>x. Inr (r x))) (\<lambda>y. Inr (g' y))"
  by (cases X) simp_all

lemma load_ohlcv_ok: "list_ex (\<lambda>(s, bars). bars \<noteq> []) panel \<Longrightarrow> load_ohlcv panel = Inr panel"
proof -
  have "list_all (\<lambda>(s, bars). bars = []) panel \<longleftrightarrow> \<not> list_ex (\<lambda>(s, bars). bars \<noteq> []) panel"
    by (induction panel) auto
  then show "list_ex (\<lambda>(s, bars). bars \<noteq> []) panel \<Longrightarrow> load_ohlcv panel = Inr panel" unfolding load_ohlcv_def by simp
qed

lemma list_ex_until: "list_ex (\<lambda>(s, bars). bars \<noteq> []) (panel_until d panel) \<Longrightarrow> list_ex (\<lambda>(s, bars). bars \<noteq> []) panel"
  by (induction panel) (auto simp: bars_until_def)

lemma micro_nonempty:
  assumes "kr_microstructure N (Inr flow) (Inr hold) (Inr shorts) panel = Inr m" "flow \<noteq> [] \<or> hold \<noteq> [] \<or> shorts \<noteq> []"
    "list_ex (\<lambda>(s, bars). bars \<noteq> []) panel"
  shows "m \<noteq> []"
proof -
  have m: "m = concat (map (symbol_rows N flow hold shorts) panel)"
    using assms(1,2) by (auto simp: kr_microstructure_def rows_of_def Let_def split: if_splits)
  from assms(3) obtain s bars where "(s, bars) \<in> set panel" "bars \<noteq> []" by (auto simp: list_ex_iff)
  then have "symbol_rows N flow hold shorts (s, bars) \<noteq> []"
    by (simp add: symbol_rows_def Let_def) (metis length_0_conv length_sort)
  then show ?thesis using \<open>(s, bars) \<in> set panel\<close> by (auto simp: m)
qed

lemma features_us_until:
  assumes "sorts order" "filings_ok d inp" "started M log1p order False ops d inp"
  shows "rows_until d (features_us N M log1p order ops inp) = features_us N M log1p order ops (inputs_until False d inp)"
proof -
  let ?past = "inputs_until False d inp"
  have f: "rows_until d (left_merge N 8 fr (fund_table M order inp)) = left_merge N 8 (rows_until d fr) (fund_table M order ?past)" for fr
    using assms by (intro fund.merge_until) (auto simp: started_def Let_def)
  have h: "rows_until d (left_merge N 4 fr (held_table M log1p order inp)) = left_merge N 4 (rows_until d fr) (held_table M log1p order ?past)" for fr
    using assms by (intro held.merge_until) (auto simp: started_def Let_def)
  have p: "i_panel ?past = panel_until d (i_panel inp)" "i_sectors ?past = i_sectors inp" "i_macro ?past = until_day d (i_macro inp)"
    by (simp_all add: inputs_until_def)
  show ?thesis
    by (simp add: features_us_def Let_def p attach_macro_until attach_sector_until f h price_frame_until)
qed

lemma features_kr_until:
  assumes "nan_spreads N" "sorts order" "filings_ok d inp" "started M log1p order True ops d inp"
  shows "rbind (features_kr N M order ops inp) (\<lambda>fr. Inr (rows_until d fr)) = features_kr N M order ops (inputs_until True d inp)"
proof -
  let ?past = "inputs_until True d inp"
  have f: "rows_until d (left_merge N 8 fr (fund_table M order inp)) = left_merge N 8 (rows_until d fr) (fund_table M order ?past)" for fr
    using assms by (intro fund.merge_until) (auto simp: started_def Let_def)
  have p: "i_panel ?past = panel_until d (i_panel inp)" "i_us ?past = us_until (d - 1) (i_us inp)" "i_macro ?past = until_day (d - 1) (i_macro inp)"
      "i_flow ?past = until_day (d - 1) (i_flow inp)" "i_hold ?past = until_day (d - 1) (i_hold inp)" "i_short ?past = until_day (d - 1) (i_short inp)"
    by (simp_all add: inputs_until_def)
  have micro: "rbind (rbind (kr_microstructure N (Inr (i_flow inp)) (Inr (i_hold inp)) (Inr (i_short inp)) (i_panel inp)) (\<lambda>m. Inr (left_merge N 8 fr m)))
        (\<lambda>fr. Inr (rows_until d fr)) =
      rbind (kr_microstructure N (Inr (i_flow ?past)) (Inr (i_hold ?past)) (Inr (i_short ?past)) (i_panel ?past)) (\<lambda>m. Inr (left_merge N 8 (rows_until d fr) m))"
    if "op_micro ops" for fr
  proof -
    have st: "investors (until_day (d - 1) (i_flow inp)) = investors (i_flow inp)"
        "until_day (d - 1) (i_flow inp) \<noteq> [] \<or> until_day (d - 1) (i_hold inp) \<noteq> [] \<or> until_day (d - 1) (i_short inp) \<noteq> []"
        "list_ex (\<lambda>(s, bars). bars \<noteq> []) (panel_until d (i_panel inp))"
      using assms(4) that by (simp_all add: started_def Let_def p)
    note past = kr_microstructure_until [OF assms(1) st(1,2), of "i_panel inp"]
    show ?thesis
    proof (cases "kr_microstructure N (Inr (i_flow inp)) (Inr (i_hold inp)) (Inr (i_short inp)) (i_panel inp)")
      case (Inl e)
      have "kr_microstructure N (Inr (until_day (d - 1) (i_flow inp))) (Inr (until_day (d - 1) (i_hold inp))) (Inr (until_day (d - 1) (i_short inp)))
          (panel_until d (i_panel inp)) = Inl e" using past Inl by simp
      then show ?thesis by (simp only: Inl p rbind.simps)
    next
      case (Inr m)
      have "i_flow inp \<noteq> [] \<or> i_hold inp \<noteq> [] \<or> i_short inp \<noteq> []" using st(2) by (auto simp: until_day_def)
      then have ne: "m \<noteq> []" using micro_nonempty [OF Inr] list_ex_until [OF st(3)] by blast
      have m': "kr_microstructure N (Inr (until_day (d - 1) (i_flow inp))) (Inr (until_day (d - 1) (i_hold inp))) (Inr (until_day (d - 1) (i_short inp)))
          (panel_until d (i_panel inp)) = Inr (table_until d m)" using past Inr by simp
      then have "table_until d m \<noteq> []" using micro_nonempty [OF m' st(2,3)] by blast
      then show ?thesis using Inr m' ne by (simp add: p left_merge_until [of "table_until d m"])
    qed
  qed
  show ?thesis
  proof (cases "op_micro ops")
    case True
    let ?f1 = "if op_fundamentals ops then left_merge N 8 (context_frame N (i_panel inp) (i_us inp)) (fund_table M order inp)
        else context_frame N (i_panel inp) (i_us inp)"
    have f1: "rows_until d ?f1 = (if op_fundamentals ops then left_merge N 8 (context_frame N (i_panel ?past) (i_us ?past)) (fund_table M order ?past)
        else context_frame N (i_panel ?past) (i_us ?past))"
      by (simp add: f p context_frame_until)
    have g: "rows_until d (if op_macro ops then attach_macro N False (i_macro inp) fr else fr) =
        (if op_macro ops then attach_macro N False (i_macro ?past) (rows_until d fr) else rows_until d fr)" for fr
      by (simp add: p attach_macro_until)
    show ?thesis
      unfolding features_kr_def Let_def if_P [OF True] f1 [symmetric] micro [OF True, symmetric] by (rule rbind_swap) (rule g)
  next
    case False
    then show ?thesis by (simp add: features_kr_def Let_def p attach_macro_until f context_frame_until)
  qed
qed


lemma dataset_features_until:
  assumes "nan_spreads N" "sorts order" "filings_ok d inp" "started M log1p order korean ops d inp"
  shows "rbind (dataset_features N M log1p order lt korean ops inp) (\<lambda>fr. Inr (rows_until d fr)) =
    dataset_features N M log1p order lt korean ops (inputs_until korean d inp)"
proof -
  let ?past = "inputs_until korean d inp"
  have ex: "list_ex (\<lambda>(s, bars). bars \<noteq> []) (i_panel ?past)" "korean \<longrightarrow> list_ex (\<lambda>(s, bars). bars \<noteq> []) (i_us ?past)"
    using assms(4) by (simp_all add: started_def Let_def)
  have now: "list_ex (\<lambda>(s, bars). bars \<noteq> []) (i_panel inp)" "korean \<longrightarrow> list_ex (\<lambda>(s, bars). bars \<noteq> []) (i_us inp)"
    using ex by (auto simp: inputs_until_def us_until_def intro: list_ex_until)
  have g: "rows_until d (if op_rank ops then xs_rank N lt fr else fr) = (if op_rank ops then xs_rank N lt (rows_until d fr) else rows_until d fr)" for fr
    by (simp add: xs_rank_until)
  show ?thesis
  proof (cases korean)
    case True
    have "rbind (features_kr N M order ops inp) (\<lambda>fr. Inr (rows_until d fr)) = features_kr N M order ops (inputs_until True d inp)"
      using assms True by (intro features_kr_until) simp_all
    note past = this [symmetric]
    show ?thesis using True now ex g
      by (cases "features_kr N M order ops inp") (simp_all add: dataset_features_def load_ohlcv_ok past)
  next
    case False
    have "rows_until d (features_us N M log1p order ops inp) = features_us N M log1p order ops (inputs_until False d inp)"
      using assms False by (intro features_us_until) simp_all
    then show ?thesis using False now ex g by (simp add: dataset_features_def load_ohlcv_ok)
  qed
qed

definition features_of :: "'v sample \<Rightarrow> string \<times> int \<times> 'v list" where
  "features_of r = (sa_symbol r, sa_date r, sa_features r)"

lemma features_with_labels: "map features_of (with_labels N h panel rows) = rows"
  by (simp add: with_labels_def features_of_def comp_def case_prod_unfold Let_def)

lemma filter_map_features: "map features_of (filter (\<lambda>r. sa_date r \<le> d) rs) = table_until d (map features_of rs)"
  by (simp add: filter_map comp_def features_of_def)

text \<open>C20: The training data do not look ahead when filings are regular. For both markets and all options, the rows of the data set up to a day
  have the features, ranks included, of the data set built from what is known at the close of that day alone: the bars
  and filings up to the day, for Korean stocks the American bars, the macro series and the tables of the exchange up to
  the day before. Only the labels use later bars. This composes the properties of the price features, the American
  context, the fundamentals and the microstructure. Two conditions: the filings are regular (\<open>filings_ok\<close>: for each
  symbol one value per concept and filing day, every quarter filed once and in the order of the quarters, so without
  restatements, and institutional holdings reported once a quarter), and every part of the data has started by the day
  (\<open>started\<close>). With a restated quarter the statement is false (\<open>Fundamentals.restatement_leaks_into_past\<close>).\<close>

theorem dataset_has_no_lookahead:
  assumes "nan_spreads N" "sorts order" "filings_ok d inp" "started M log1p order korean ops d inp"
  shows "rbind (build_dataset N M log1p order lt korean horizon ops inp)
      (\<lambda>(kinds, rows). Inr (kinds, map features_of (filter (\<lambda>r. sa_date r \<le> d) rows))) =
    rbind (build_dataset N M log1p order lt korean horizon ops (inputs_until korean d inp)) (\<lambda>(kinds, rows). Inr (kinds, map features_of rows))"
proof -
  have "rbind (build_dataset N M log1p order lt korean horizon ops inp)
      (\<lambda>(kinds, rows). Inr (kinds, map features_of (filter (\<lambda>r. sa_date r \<le> d) rows))) =
    rbind (dataset_features N M log1p order lt korean ops inp) (\<lambda>fr. Inr (rows_until d fr))"
    by (cases "dataset_features N M log1p order lt korean ops inp")
       (simp_all add: build_dataset_def filter_map_features features_with_labels rows_until_def)
  also have "\<dots> = dataset_features N M log1p order lt korean ops (inputs_until korean d inp)"
    by (rule dataset_features_until [OF assms])
  also have "\<dots> = rbind (build_dataset N M log1p order lt korean horizon ops (inputs_until korean d inp)) (\<lambda>(kinds, rows). Inr (kinds, map features_of rows))"
    by (cases "dataset_features N M log1p order lt korean ops (inputs_until korean d inp)")
       (simp_all add: build_dataset_def features_with_labels)
  finally show ?thesis .
qed

definition demo_num2 :: "rat option num" where
  "demo_num2 = \<lparr>n_add = lift2 (+), n_sub = lift2 (-), n_mul = lift2 (*), n_div = lift2 (/), n_log = (\<lambda>x. x), n_sum = demo_sum,
     n_pos = (\<lambda>x. case x of None \<Rightarrow> False | Some a \<Rightarrow> 0 < a), n_zero = (\<lambda>x. x = Some 0), n_isnan = (\<lambda>x. x = None), n_nan = None,
     n_eps = Some (1 / 10 ^ 12), n_one = Some 1\<rparr>"

definition demo_inputs :: "rat option inputs" where
  "demo_inputs = \<lparr>i_panel = demo_panel, i_us = demo_panel, i_facts = [((''A'', ''shares'', 0, 1), 0, Some 7)],
     i_held = [(''A'', \<lparr>hd_end = -50, hd_holders = Some 2, hd_shares = Some 9\<rparr>)], i_sectors = [(''A'', ''10'')],
     i_flow = demo_flow, i_hold = [(1, ''A'', Some 30), (2, ''A'', Some 31), (3, ''A'', Some 32)], i_short = [],
     i_macro = map (\<lambda>d. (d, replicate 9 (Some 4))) [1, 2, 3]\<rparr>"

definition demo_options :: options where
  "demo_options = \<lparr>op_rank = True, op_fundamentals = True, op_macro = True, op_held = True, op_sector = True, op_micro = True\<rparr>"

abbreviation lt_option :: "rat option \<Rightarrow> rat option \<Rightarrow> bool" where
  "lt_option x y \<equiv> (case x of None \<Rightarrow> False | Some a \<Rightarrow> (case y of None \<Rightarrow> False | Some b \<Rightarrow> a < b))"

theorem dataset_has_no_lookahead_witness:
  "rbind (build_dataset demo_np demo_num2 (\<lambda>x. x) (sort_key fst) lt_option True 1 demo_options demo_inputs)
      (\<lambda>(kinds, rows). Inr (kinds, map features_of (filter (\<lambda>r. sa_date r \<le> 2) rows))) =
    rbind (build_dataset demo_np demo_num2 (\<lambda>x. x) (sort_key fst) lt_option True 1 demo_options (inputs_until True 2 demo_inputs))
      (\<lambda>(kinds, rows). Inr (kinds, map features_of rows)) \<and>
   inputs_until True 2 demo_inputs \<noteq> demo_inputs"
proof -
  have nan: "nan_spreads demo_np" by (simp add: nan_spreads_def demo_np_def lift2_def)
  have ok: "filings_ok 2 demo_inputs"
    by (simp add: filings_ok_def demo_inputs_def demo_panel_def facts_of_def held_by_def one_per_filing_def filed_in_order_def
        flow_facts_def known_def Let_def)
  have st: "started demo_num2 (\<lambda>x. x) (sort_key fst) True demo_options 2 demo_inputs"
    by code_simp
  have ne: "inputs_until True 2 demo_inputs \<noteq> demo_inputs"
    by (simp add: inputs_until_def demo_inputs_def until_day_def)
  from dataset_has_no_lookahead [OF nan sorts_key ok st] ne show ?thesis by blast
qed

end
