(* ===== verification/Notices.thy ===== *)
theory Notices
  imports StockTrade PaperTrade TradeOnce
begin

text \<open>
  The notices of the trading jobs, \<open>trading/strategy/core/notify_messages.py\<close>: what each says, line by line.  A line
  is a constructor with the values its text shows; the layout of numbers is not modelled.  An order of the stock jobs
  that raised is one that was not accepted, and its line, which shows the exception instead of the broker's reason,
  is the same constructor.
\<close>

section \<open>Stock jobs\<close>

datatype notice_line =
    Header string bool
  | Counts "int option" nat nat nat
  | Skipping skip_reason              \<comment> \<open>not traded, and why\<close>
  | PlanOnly
  | NoTargets                         \<comment> \<open>not traded: no valid target; the week is not recorded\<close>
  | Aligned                           \<comment> \<open>not traded: already at the targets; the week is recorded\<close>
  | Unaccepted side string
  | Filled side string int int
  | Accepted side string int
  | Summary nat nat rat
  | NothingFilled                     \<comment> \<open>no fill; the week is not recorded\<close>

definition order_line :: "placed_order \<Rightarrow> notice_line" where
  "order_line o1 =
     (if \<not> po_accepted o1 then Unaccepted (po_side o1) (po_symbol o1)
      else if po_filled o1 then Filled (po_side o1) (po_symbol o1) (po_qty o1) (po_filled_qty o1)
      else Accepted (po_side o1) (po_symbol o1) (po_qty o1))"

definition stock_message :: "string \<Rightarrow> stock_result \<Rightarrow> bool \<Rightarrow> notice_line list" where
  "stock_message label r live =
     (case r of
        StockSkipped why \<Rightarrow> [Header label (\<not> live), Counts None 0 0 0, Skipping why]
      | StockDone p placed \<Rightarrow>
          [Header label (\<not> live), Counts (Some (sp_bar p)) (length (sp_targets p)) (length (sp_buys p)) (length (sp_sells p))] @
          (if \<not> live then [PlanOnly]
           else if sp_targets p = [] then [NoTargets]
           else if placed = [] then [Aligned]
           else map order_line placed @
                [Summary (length (filter po_accepted placed)) (length (filter po_filled placed)) (bal_cash (sp_bal p))] @
                (if filter po_filled placed = [] then [NothingFilled] else [])))"

section \<open>The paper job and the coin job\<close>

datatype paper_line =
    PHeader string bool
  | PSkipping skip
  | PCounts nat nat nat
  | PPlanOnly
  | PNoTrade                          \<comment> \<open>nothing to enter or to close; the week is recorded\<close>
  | POrder side string int bool
  | PSummary nat nat

definition ichimoku_message :: "string \<Rightarrow> paper_result \<Rightarrow> bool \<Rightarrow> paper_line list" where
  "ichimoku_message label r live =
     PHeader label (\<not> live) #
     (case r of
        Skipped why \<Rightarrow> [PSkipping why]
      | Traded p fills \<Rightarrow>
          PCounts (length (pp_targets p)) (length (pp_buys p)) (length (pp_sells p)) #
          (if \<not> live then [PPlanOnly]
           else if fills = [] then [PNoTrade]
           else map (\<lambda>f. POrder (pf_side f) (pf_symbol f) (pf_qty f) (pf_outcome f = Applied)) fills @
                [PSummary (length (filter (\<lambda>f. pf_outcome f = Applied) fills)) (length fills)]))"

datatype coin_line =
    CHeader bool
  | CTargets "(string \<times> rat) list" nat
  | CNoTrade
  | CTrade Rebalance.action string "rat option" "rat option" "bool option"   \<comment> \<open>\<open>None\<close> for a dry run\<close>
  | CSummary nat int nat
  | CAccount string rat rat

definition coin_message :: "(decision \<times> bool) list \<Rightarrow> nat \<Rightarrow> (string \<times> rat) list \<Rightarrow> bool \<Rightarrow> (string \<times> rat \<times> rat) list \<Rightarrow> coin_line list" where
  "coin_message ds rejected shown dry balances =
     (let trades = filter (\<lambda>(d, e). d_action d = ABuy \<or> d_action d = ASell) ds
      in [CHeader dry, CTargets shown (length ds)] @
         (if trades = [] then [CNoTrade]
          else map (\<lambda>(d, e). CTrade (d_action d) (d_symbol d) (d_quantity d) (d_price d) (if dry then None else Some e)) trades @
               (if dry then [] else [CSummary (length trades) (int (length trades) - int rejected) rejected])) @
         map (\<lambda>(a, cash, eq). CAccount a cash eq) balances)"

section \<open>What a notice says of the week\<close>

lemma kr_execute_week:
  assumes "kr_execute c h env top_n max_orders True tab w = Some (Inr (StockDone p placed), tab', w')"
  shows "\<exists>today. tab' = finish_week ''KR'' today p placed True tab"
  using assms by (auto simp: kr_execute_def Let_def split: sum.splits option.splits prod.splits)

lemma us_buy_all_length: "us_buy_all c h acct closes per ss w = (Inr placed, w') \<Longrightarrow> length placed = length ss"
proof (induction ss arbitrary: w placed w')
  case (Cons s ss)
  then show ?case by (auto simp: ret_def elim!: bind_Inr)
qed simp

lemma us_execute_week:
  assumes "us_execute c h env top_n max_orders True tab w = (Inr (StockDone p placed), tab', w')"
  shows "(\<exists>today. tab' = finish_week ''US'' today p placed False tab) \<and> length placed = length (take max_orders (sp_buys p))"
  using assms by (auto simp: us_execute_def Let_def dest!: us_buy_all_length split: sum.splits option.splits prod.splits)


text \<open>The end of a live run of either market: which orders were asked for, and the table of the weeks.\<close>

lemma live_run_week:
  assumes "kr_execute c h env top_n max_orders True tab w = Some (Inr (StockDone p placed), tab', w') \<or>
    us_execute c h env top_n max_orders True tab w = (Inr (StockDone p placed), tab', w')" "0 < max_orders"
  obtains market today sells where "tab' = finish_week market today p placed sells tab"
    "placed = [] \<longleftrightarrow> sp_buys p = [] \<and> \<not> (sells \<and> sp_sells p \<noteq> [])"
  using assms(1)
proof
  assume run: "kr_execute c h env top_n max_orders True tab w = Some (Inr (StockDone p placed), tab', w')"
  obtain bar targets bal closes where
    m: "map (\<lambda>p. (po_symbol p, po_side p, po_qty p)) placed =
     map (\<lambda>(s, sd, q). (s, sd, if sd = BUY \<and> q < 1 then 0 else q)) (kr_requests p closes top_n max_orders)"
    by (rule kr_execute_orders [OF run])
  have "placed = [] \<longleftrightarrow> kr_requests p closes top_n max_orders = []"
    using arg_cong [OF m, of length] by auto
  then have "placed = [] \<longleftrightarrow> sp_buys p = [] \<and> \<not> (True \<and> sp_sells p \<noteq> [])"
    using assms(2) by (auto simp: kr_requests_def)
  then show thesis using kr_execute_week [OF run] that by blast
next
  assume run: "us_execute c h env top_n max_orders True tab w = (Inr (StockDone p placed), tab', w')"
  have "placed = [] \<longleftrightarrow> sp_buys p = [] \<and> \<not> (False \<and> sp_sells p \<noteq> [])"
    using us_execute_week [OF run] assms(2) by (cases "sp_buys p") auto
  then show thesis using us_execute_week [OF run] that by blast
qed

definition is_order_line :: "notice_line \<Rightarrow> bool" where
  "is_order_line l = (case l of Unaccepted sd s \<Rightarrow> True | Filled sd s q n \<Rightarrow> True | Accepted sd s q \<Rightarrow> True | _ \<Rightarrow> False)"

lemma is_order_line_order [simp]: "is_order_line (order_line x)"
  by (simp add: is_order_line_def order_line_def)

lemma order_line_not [simp]: "order_line x \<noteq> NoTargets" "order_line x \<noteq> NothingFilled" "order_line x \<noteq> Aligned"
  by (simp_all add: order_line_def)

lemma stock_message_lines:
  "NoTargets \<in> set (stock_message label (StockDone p placed) True) \<longleftrightarrow> sp_targets p = []"
  "NothingFilled \<in> set (stock_message label (StockDone p placed) True) \<longleftrightarrow> sp_targets p \<noteq> [] \<and> placed \<noteq> [] \<and> filter po_filled placed = []"
  "Aligned \<in> set (stock_message label (StockDone p placed) True) \<longleftrightarrow> sp_targets p \<noteq> [] \<and> placed = []"
  by (auto simp: stock_message_def dest: order_line_not [THEN notE, OF sym])

lemma stock_message_orders:
  "filter is_order_line (stock_message label (StockDone p placed) True) = (if sp_targets p = [] then [] else map order_line placed)"
proof -
  have "filter is_order_line (map order_line placed) = map order_line placed" by (intro filter_True) auto
  then show ?thesis by (simp add: stock_message_def) (simp add: is_order_line_def)
qed

text \<open>C11: The notice of a live stock run tells the truth about the week. For both markets and any positive cap on the
  orders, the week stays open exactly when the notice says so, for lack of targets or of fills; otherwise it is recorded.
  The notice says that the holdings are already aligned only when nothing was ordered, and where there are targets it
  has one line for every order, in their order.\<close>

theorem stock_notice_tells_the_week:
  assumes "kr_execute c h env top_n max_orders True tab w = Some (Inr (StockDone p placed), tab', w') \<or>
    us_execute c h env top_n max_orders True tab w = (Inr (StockDone p placed), tab', w')" "0 < max_orders"
  shows "(if NoTargets \<in> set (stock_message label (StockDone p placed) True) \<or> NothingFilled \<in> set (stock_message label (StockDone p placed) True)
      then tab' = tab else \<exists>market today. tab' = mark_week_done tab market today) \<and>
    (Aligned \<in> set (stock_message label (StockDone p placed) True) \<longrightarrow> placed = []) \<and>
    (sp_targets p \<noteq> [] \<longrightarrow> filter is_order_line (stock_message label (StockDone p placed) True) = map order_line placed)"
proof -
  obtain market today sells where w: "tab' = finish_week market today p placed sells tab"
    and none: "placed = [] \<longleftrightarrow> sp_buys p = [] \<and> \<not> (sells \<and> sp_sells p \<noteq> [])"
    by (rule live_run_week [OF assms])
  have "list_ex id (map po_filled placed) \<longleftrightarrow> filter po_filled placed \<noteq> []" by (induction placed) auto
  then have "completed (market_plan p) (map po_filled placed) sells \<longleftrightarrow>
      sp_targets p \<noteq> [] \<and> (placed = [] \<or> filter po_filled placed \<noteq> [])"
    using none by (auto simp: completed_def market_plan_def)
  then show ?thesis using w by (auto simp: stock_message_lines stock_message_orders finish_week_def)
qed


lemma run_done:
  assumes "case r of Some (Inr (StockDone p placed), tab, w) \<Rightarrow> P p placed | _ \<Rightarrow> False"
  obtains p placed tab w where "r = Some (Inr (StockDone p placed), tab, w)" "P p placed"
proof (cases r)
  case (Some x)
  obtain y tab w where x: "x = (y, tab, w)" by (cases x)
  show thesis
  proof (cases y)
    case (Inr z)
    then show thesis using assms that Some x by (cases z) auto
  qed (use assms Some x in simp)
qed (use assms in simp)

lemma demo_kr_targets:
  "case kr_execute default_settings demo_market demo_env 1 5 True [] (7 * 3600 * SECOND) of
      Some (Inr (StockDone p placed), tab, w') \<Rightarrow> sp_targets p \<noteq> [] \<and> length placed = 2
    | _ \<Rightarrow> False"
  by code_simp

theorem stock_notice_tells_the_week_witness:
  "\<exists>p placed tab' w'. kr_execute default_settings demo_market demo_env 1 5 True [] (7 * 3600 * SECOND) = Some (Inr (StockDone p placed), tab', w') \<and>
    (if NoTargets \<in> set (stock_message ''KR'' (StockDone p placed) True) \<or> NothingFilled \<in> set (stock_message ''KR'' (StockDone p placed) True)
      then tab' = [] else \<exists>market today. tab' = mark_week_done [] market today) \<and>
    filter is_order_line (stock_message ''KR'' (StockDone p placed) True) = map order_line placed \<and> length placed = 2"
proof -
  obtain p placed tab' w' where run: "kr_execute default_settings demo_market demo_env 1 5 True [] (7 * 3600 * SECOND) =
      Some (Inr (StockDone p placed), tab', w')" and t: "sp_targets p \<noteq> [] \<and> length placed = 2"
    by (rule run_done [OF demo_kr_targets])
  from stock_notice_tells_the_week [OF disjI1 [OF run], of "''KR''"] run t show ?thesis
    by (intro exI [of _ p] exI [of _ placed] exI [of _ tab'] exI [of _ w'] conjI) simp_all
qed

section \<open>An empty ranking\<close>

text \<open>C10: A ranking without symbols closes every position and is reported as no trade. When the scores of a live Korean
  run name no target, which is taken for a failure to be tried again on the next day, the run sends a market sale of the
  whole quantity of every holding; the notice says that nothing was traded and lists no order, and the week stays open.\<close>

theorem empty_ranking_sells_everything:
  assumes "kr_execute c h env top_n max_orders True tab w = Some (Inr (StockDone p placed), tab', w')" "sp_targets p = []"
    "\<And>xs. set (se_order env xs) = set xs"
  shows "set (map po_symbol placed) = set (map h_symbol (bal_positions (sp_bal p))) \<and>
    list_all (\<lambda>q. po_side q = SELL \<and> po_qty q = rhe (get_or (quantities (sp_bal p)) (po_symbol q) 0)) placed \<and>
    stock_message label (StockDone p placed) True = [Header label False, Counts (Some (sp_bar p)) 0 0 (length (sp_sells p)), NoTargets] \<and>
    tab' = tab"
proof -
  obtain bar targets bal closes where p: "p = stock_plan_of (se_order env) bar targets bal"
    and m: "map (\<lambda>p. (po_symbol p, po_side p, po_qty p)) placed =
     map (\<lambda>(s, sd, q). (s, sd, if sd = BUY \<and> q < 1 then 0 else q)) (kr_requests p closes top_n max_orders)"
    by (rule kr_execute_orders [OF assms(1)])
  have sb: "sp_buys p = []" "set (sp_sells p) = set (map h_symbol (bal_positions (sp_bal p)))"
    using assms(2,3) by (auto simp: p stock_plan_of_def Let_def)
  have m': "map (\<lambda>p. (po_symbol p, po_side p, po_qty p)) placed =
      map (\<lambda>s. (s, SELL, rhe (get_or (quantities (sp_bal p)) s 0))) (sp_sells p)"
    using m by (simp add: kr_requests_def sb(1) comp_def)
  have "map po_symbol placed = sp_sells p" using arg_cong [OF m', of "map fst"] by (simp add: comp_def)
  moreover have "po_side q = SELL \<and> po_qty q = rhe (get_or (quantities (sp_bal p)) (po_symbol q) 0)" if "q \<in> set placed" for q
  proof -
    have "(po_symbol q, po_side q, po_qty q) \<in> set (map (\<lambda>p. (po_symbol p, po_side p, po_qty p)) placed)" using that by simp
    then show ?thesis unfolding m' by auto
  qed
  moreover obtain today where "tab' = finish_week ''KR'' today p placed True tab" using kr_execute_week [OF assms(1)] by blast
  ultimately show ?thesis using assms(2) sb
    by (simp add: list_all_iff stock_message_def finish_week_def completed_def market_plan_def)
qed

definition silent_env :: "int stock_env" where
  "silent_env = demo_env\<lparr>se_score := (\<lambda>m n w. (Inr (Some 719165, []), w))\<rparr>"

lemma silent_kr_run:
  "case kr_execute default_settings demo_market silent_env 1 5 True [] (7 * 3600 * SECOND) of
      Some (Inr (StockDone p placed), tab, w') \<Rightarrow> sp_targets p = [] \<and> map po_symbol placed = [''A'']
    | _ \<Rightarrow> False"
  by code_simp

theorem empty_ranking_sells_everything_witness:
  "\<exists>p placed tab' w'. kr_execute default_settings demo_market silent_env 1 5 True [] (7 * 3600 * SECOND) = Some (Inr (StockDone p placed), tab', w') \<and>
    map po_symbol placed = [''A''] \<and> list_all (\<lambda>q. po_side q = SELL) placed \<and> tab' = [] \<and>
    stock_message ''KR'' (StockDone p placed) True = [Header ''KR'' False, Counts (Some (sp_bar p)) 0 0 (length (sp_sells p)), NoTargets]"
proof -
  obtain p placed tab' w' where run: "kr_execute default_settings demo_market silent_env 1 5 True [] (7 * 3600 * SECOND) =
      Some (Inr (StockDone p placed), tab', w')" and ts: "sp_targets p = [] \<and> map po_symbol placed = [''A'']"
    by (rule run_done [OF silent_kr_run])
  then have t: "sp_targets p = []" "map po_symbol placed = [''A'']" by simp_all
  have "set (se_order silent_env xs) = set xs" for xs by (simp add: silent_env_def demo_env_def)
  from empty_ranking_sells_everything [OF run t(1) this, of "''KR''"] run t(2) show ?thesis
    by (intro exI [of _ p] exI [of _ placed] exI [of _ tab'] exI [of _ w']) (auto simp: list_all_iff)
qed

end
