(* ===== verification/Spec2Isabelle.thy ===== *)
theory Spec2Isabelle
  imports Pipeline LedgerRefinement Registry CandleCache TradeOnce PaperTrade Ingest ApiRoutes
    Membership Migrations Jobs Bot RawFiles KrxData Dataset Notices
begin

text \<open>
  A verification development for a trading program in Python: a coin trader with a paper ledger, weekly stock traders
  at a broker, the collection of their market data, a backtester, a model of stock returns and a web interface.  Paths
  below are under \<open>src/\<close>.

  \<^bold>\<open>How the program works.\<close>  Ticks of the exchanges come in through \<open>streaming/ingester\<close> and go to topics.  Sinks and
  aggregators (\<open>streaming/sink\<close>, \<open>streaming/aggregator\<close>) store them and turn them into candles.  A signal worker
  (\<open>trading/strategy/runners/live_ensemble.py\<close>) follows the candles and publishes target weights; a commander turns them
  into orders.  An order and an outbox record are committed together (\<open>common/order_writer.py\<close>), the relay
  (\<open>trading/relay\<close>) publishes the outbox, the matching engine (\<open>trading/engine\<close>) executes orders against ticks, and the
  updater (\<open>trading/portfolio\<close>) books executions into the ledger.  A daily job (\<open>trade_once.py\<close>) does the same in one
  transaction.  Stock jobs send orders to a broker (\<open>common/broker\<close>) and wait for their fills.  \<open>batch/rawdata\<close> loads
  public data, \<open>batch/features\<close> and \<open>batch/ml\<close> make features, a training set and scores of it, \<open>batch/backtest\<close> evaluates
  strategies on stored candles, and \<open>api\<close> serves a dashboard and takes orders.

  \<^bold>\<open>Conventions.\<close>  \<open>Decimal\<close> is a rational rounded to 28 digits by every operation and \<open>float\<close> a rational rounded to 53 bits
  (\<open>Numerics\<close>); both types are rational numbers, and the rounding stands where the code computes.  A function that may raise
  returns an exception or a value (\<open>Prelude\<close>); dictionaries are association lists in the order of insertion; integers
  of the program are unbounded.  Instants are integers of microseconds or seconds, days are numbered.  Settings are a
  record (\<open>Config\<close>).  Texts that only serve as keys keep their bytes (\<open>Texts.utf8\<close>).

  \<^bold>\<open>Parameters.\<close>  What lies outside the repository is an argument: answers of brokers, exchanges and file servers, the
  PostgreSQL division \<open>ndiv\<close>, the offsets of the time zone database, the clock, the fitted model, numpy's arithmetic and
  aggregates (\<open>Features.np\<close>, \<open>Fundamentals.num\<close>), \<open>array_split\<close>, \<open>searchsorted\<close> and an unstable sort.  What is
  used of them is a named hypothesis of the property, for instance \<open>splits\<close>, \<open>searches\<close>, \<open>sorts\<close> and \<open>nan_spreads\<close>, and the
  witness of the property instantiates them by functions that compute.

  \<^bold>\<open>Orders and the ledger.\<close>
  \<^item> \<open>Ledger\<close>: tables, statements and constraints of the schema, \<open>order_writer.py\<close>, \<open>updater.py\<close>, \<open>paper_ledger.py\<close>,
    \<open>account_read.py\<close>.  The invariant of the ledger is kept by every message, the books balance up to the rounding of the
    stored cash (exactly for amounts of four decimals); applying an execution twice is applying it once (\<open>Delivery\<close> is the contract of consumers of messages that come more than once).
  \<^item> \<open>Matching\<close>: the engine with its dictionaries of prices, waiting orders and terminal orders; no order is lost.
  \<^item> \<open>Pipeline\<close>: a step relation of writers, relay, engine and updater with crashes and redelivery between any two
    actions; in every reachable state orders are filled at most once.
  \<^item> \<open>LedgerRefinement\<close>: the account of the backtester simulates the ledger, trade by trade.
  \<^item> \<open>TradeOnce\<close>: the daily job with its transactions; \<open>LiveSignals\<close>: worker and commander; \<open>Equity\<close>: snapshots and curves.

  \<^bold>\<open>Strategies and backtests.\<close>
  \<^item> \<open>Rebalance\<close>: sizing, decisions and load weights; \<open>MarketTime\<close>: sessions, holidays and the weekly marker.
  \<^item> \<open>Broker\<close>: the interface between a strategy and its broker as a record and a locale, which \<open>Backtest\<close> interprets for
    the engine.  \<open>Indicators\<close>, \<open>Strategies\<close>, \<open>TrendStrategies\<close>, \<open>SessionStrategies\<close> are the plugins and \<open>Registry\<close> dispatches.
  \<^item> \<open>Metrics\<close> are the figures of a run, \<open>WalkForward\<close> the folds, the selection and the job that reevaluates weights.
  \<^item> \<open>Ichimoku\<close> and \<open>PaperTrade\<close>: the weekly signal and the paper job on it.

  \<^bold>\<open>Brokers and stock jobs.\<close>
  \<^item> \<open>Transport\<close>: rate limits and retries; \<open>Tokens\<close> and \<open>Timestamps\<close>: the token caches of processes that
    run at the same time over one cache file, and their times; \<open>Kis\<close>: balances and
    prices, page by page; \<open>KisOrders\<close>: orders, with the three outcomes of a POST; \<open>KisChase\<close>: placing and chasing an order.
  \<^item> \<open>StockTrade\<close>: the weekly jobs; \<open>StockOrders\<close>: manual orders, as a step relation of routes, executors and crashes
    with the history of what the chases returned.

  \<^bold>\<open>Market data.\<close>
  \<^item> \<open>Ingest\<close>: the messages of the exchanges and the receive loops; \<open>Streaming\<close>: sinks and aggregators with committed
    offsets and restarts; \<open>CandleCache\<close> and \<open>StockCandles\<close>: the loaders of history.
  \<^item> \<open>RawFiles\<close>, \<open>KrxData\<close> and \<open>Membership\<close>: the loaders of public files, of the Korean exchange and of index members.

  \<^bold>\<open>Features and the model.\<close>
  \<^item> \<open>Features\<close>, \<open>Fundamentals\<close> and \<open>KrMicro\<close>: price features with the American context, fundamentals with the tables they
    come from, and the microstructure of the Korean exchange.  \<open>Dataset\<close> joins and ranks them; the locale \<open>causal_table\<close> is
    what it asks of a part.  The lemmas ending in \<open>_until\<close> say that a part up to a day is that part made from what is
    known by the day, and together give the property of the whole data set.
  \<^item> \<open>MlSplit\<close>: the purged split, the folds and the daily ranking.

  \<^bold>\<open>Operation.\<close>
  \<^item> \<open>Migrations\<close>: schema versions in PostgreSQL, where a boot is a transaction, and in ClickHouse, where it is not;
    \<open>Jobs\<close>: the monthly jobs.
  \<^item> \<open>Notices\<close>: what the notices of the trading jobs say, compared with what the jobs did.
  \<^item> \<open>ApiRoutes\<close>: login, accounts and routes; \<open>Performance\<close>: the cached performance panel; \<open>Bot\<close>: names of symbols and
    the chart bot.

  \<^bold>\<open>Loops.\<close>  Loops over data are structural recursions.  Loops that need not end are partial functions whose value
  \<open>None\<close> is not to return (\<open>Backtest.grid\<close>, \<open>WalkForward.folds_from\<close>, \<open>CandleCache.fetch_backward\<close>, \<open>CandleCache.daily_pages\<close>,
  \<open>StockCandles.page_loop\<close>, \<open>StockTrade.confirm_loop\<close>, \<open>Transport.acquire_loop\<close>).  Properties that speak of their results first
  show that they return: positive steps, an exchange that answers strictly older candles, a clock that advances
  with every pause.  The only counts of attempts are those of the code (\<open>KisOrders.post_attempts\<close>, \<open>KisChase.chase_loop\<close>,
  \<open>RawFiles.fetch_zip\<close>).  Services that run for ever (\<open>Bot\<close>, \<open>Ingest\<close>, \<open>Streaming\<close>) are functions of the list of what
  happens to them, with restarts.

  \<^bold>\<open>What the model showed.\<close>  Some lemmas state behaviour that the code does not intend; among the properties these are
  those on an aggregator that restarts within a minute, on a rejected message that is filled after its redelivery, on the
  signal worker that feeds the newest stored day twice after a start, on processes that each renew a token they share, on
  restated quarters, on suspended symbols in the training folds, on days a symbol missed in the load of the Korean
  exchange, and on an empty ranking, which sells all holdings and is reported as no trade.  Others are lemmas: the flush that drops holdings without flows, the sector lookups that fail for ever,
  the second CUSIP of a ticker, a filing without a readable date, the pivot that hides detailed institutions.

  \<^bold>\<open>Not modelled.\<close>  Command lines, printed reports and the layout of notifications; drawing of charts; single queries for
  market data and the web routes that only pass them on; construction of clients and logging; the evaluation
  statistics of \<open>batch/ml/evaluate.py\<close>, which are calls of a statistics library; the browser code.  Numbers given as
  \<open>inf\<close> or \<open>nan\<close> in texts, overflow of \<open>float\<close> and the sharing of memory between Python threads are outside
  the number and state model.
\<close>

end
